(* ===== verification/Prelude.thy ===== *)
theory Prelude
  imports Main "HOL-Library.Word" "HOL-Library.Sublist" "HOL-Library.Code_Target_Nat"
begin

text \<open>
  Shared vocabulary of the naitron-c development: the widths of the machine
  integers the sources use, the correspondence between C \<open>char\<close> and
  \<open>uint8_t\<close>, the parts of the C library that the sources call on strings
  (\<open>memchr\<close>, \<open>strlen\<close>, \<open>strcmp\<close>, \<open>snprintf\<close>, \<open>strstr\<close>), and the generic list
  lemmas the component theories use.

  A length-delimited buffer (\<open>ptr\<close>, \<open>len\<close>) is modelled by the list of its
  elements, so a NULL pointer with length 0 and an empty buffer coincide, and a
  pointer into a buffer is a suffix of the list. A \<open>char *\<close> C string held in an
  array is a list whose meaning ends at the first NUL.
\<close>

unbundle bit_operations_syntax

named_theorems wire_simps \<open>evaluation of the bounded reader and writer\<close>
named_theorems loop_simps \<open>one-step unfoldings of loops, not in the default simpset\<close>

type_synonym byte = "8 word"
type_synonym u16 = "16 word"
type_synonym u32 = "32 word"
type_synonym u64 = "64 word"
type_synonym usize = "64 word"

subsection \<open>Characters and bytes\<close>

definition byte_of_char :: "char \<Rightarrow> byte" where
  "byte_of_char c = of_nat (of_char c)"

definition char_of_byte :: "byte \<Rightarrow> char" where
  "char_of_byte b = char_of (unat b)"

abbreviation bytes_of :: "string \<Rightarrow> byte list" where
  "bytes_of s \<equiv> map byte_of_char s"

abbreviation chars_of :: "byte list \<Rightarrow> string" where
  "chars_of bs \<equiv> map char_of_byte bs"

text \<open>The code of a \<open>char\<close>, as the sources compare it after a cast to \<open>unsigned char\<close>.\<close>

definition ccode :: "char \<Rightarrow> nat" where
  "ccode c = of_char c"

definition c_in :: "char \<Rightarrow> char \<Rightarrow> char \<Rightarrow> bool" where
  \<comment> \<open>\<open>lo <= c && c <= hi\<close> for two ASCII bounds\<close>
  "c_in lo hi c \<longleftrightarrow> ccode lo \<le> ccode c \<and> ccode c \<le> ccode hi"

abbreviation "CR \<equiv> CHR 0x0D"
abbreviation "LF \<equiv> CHR 0x0A"
abbreviation "NUL \<equiv> CHR 0x00"
abbreviation "CRLF \<equiv> [CHR 0x0D, CHR 0x0A]"
abbreviation "DQ \<equiv> CHR 0x22"
abbreviation "BSL \<equiv> CHR 0x5C"

subsection \<open>The C string functions the sources use\<close>

text \<open>\<open>memchr\<close> over a bounded region: the offset of the first occurrence.\<close>

fun memchr :: "'a \<Rightarrow> 'a list \<Rightarrow> nat option" where
  "memchr c [] = None"
| "memchr c (x # xs) = (if x = c then Some 0 else map_option Suc (memchr c xs))"

text \<open>\<open>memmem\<close>: the offset of the first occurrence of a block in a region.\<close>

fun memmem :: "'a list \<Rightarrow> 'a list \<Rightarrow> nat option" where
  "memmem [] needle = (if needle = [] then Some 0 else None)"
| "memmem (x # xs) needle =
     (if take (length needle) (x # xs) = needle then Some 0
      else map_option Suc (memmem xs needle))"

text \<open>The C string a \<open>char\<close> array holds: what precedes the first NUL.\<close>

definition cstr :: "string \<Rightarrow> string" where
  "cstr s = takeWhile (\<lambda>c. c \<noteq> NUL) s"

text \<open>
  \<open>snprintf(dst, cap, ...)\<close> of a formatted text \<open>s\<close>: what the destination holds
  afterwards (as a C string). The call returns \<open>length s\<close> whatever \<open>cap\<close> is.
\<close>

definition snprintf :: "nat \<Rightarrow> string \<Rightarrow> string" where
  "snprintf cap s = take (cap - 1) s"

text \<open>A \<open>%.*s\<close> conversion of a slice: at most \<open>len\<close> bytes and never past a NUL.\<close>

definition fmt_slice :: "string \<Rightarrow> string" where
  "fmt_slice s = cstr s"

definition fmt_digit :: "nat \<Rightarrow> char" where
  "fmt_digit d = char_of (48 + d)"

text \<open>The decimal conversions \<open>%u\<close>, \<open>%zu\<close> and \<open>%d\<close>.\<close>

fun fmt_nat :: "nat \<Rightarrow> string" where
  "fmt_nat n = (if n < 10 then [fmt_digit n] else fmt_nat (n div 10) @ [fmt_digit (n mod 10)])"

declare fmt_nat.simps [simp del, loop_simps]

definition fmt_int :: "int \<Rightarrow> string" where
  "fmt_int i = (if i < 0 then CHR ''-'' # fmt_nat (nat (- i)) else fmt_nat (nat i))"

definition hex_digit :: "nat \<Rightarrow> char" where
  "hex_digit d = (if d < 10 then char_of (48 + d) else char_of (87 + d))"

text \<open>The hexadecimal conversion \<open>%zx\<close> and the two-digit \<open>%02x\<close>.\<close>

fun fmt_hex :: "nat \<Rightarrow> string" where
  "fmt_hex n = (if n < 16 then [hex_digit n] else fmt_hex (n div 16) @ [hex_digit (n mod 16)])"

declare fmt_hex.simps [simp del, loop_simps]

definition fmt_02x :: "byte \<Rightarrow> string" where
  "fmt_02x b = [hex_digit (unat b div 16), hex_digit (unat b mod 16)]"

subsection \<open>Generic lemmas\<close>

lemma of_char_less_256: "of_char c < (256 :: nat)"
  by (metis char_of_eq_iff mod_less_divisor of_char_mod_256 zero_less_numeral)

lemma byte_char_inverse [simp]: "char_of_byte (byte_of_char c) = c"
proof -
  have "unat (of_nat (of_char c) :: byte) = of_char c"
    using of_char_less_256 [of c] by (simp add: unat_of_nat take_bit_eq_mod)
  then show ?thesis by (simp add: byte_of_char_def char_of_byte_def)
qed

lemma char_byte_inverse [simp]: "byte_of_char (char_of_byte b) = b"
proof -
  have "unat b < 256" using unsigned_less [of b, where ?'a = nat] by simp
  then have "of_char (char_of (unat b) :: char) = unat b"
    by (simp add: of_char_of)
  then show ?thesis by (simp add: byte_of_char_def char_of_byte_def)
qed

lemma byte_char_comp [simp]: "byte_of_char \<circ> char_of_byte = id" "char_of_byte \<circ> byte_of_char = id"
  by (auto simp: fun_eq_iff)

lemma map_chars_of_bytes_of [simp]: "chars_of (bytes_of s) = s"
  by (simp add: comp_def)

lemma map_bytes_of_chars_of [simp]: "bytes_of (chars_of bs) = bs"
  by (simp add: comp_def)

lemma memchr_None: "memchr c xs = None \<longleftrightarrow> c \<notin> set xs"
  by (induction xs) auto

lemma memchr_Some_iff:
  "memchr c xs = Some i \<longleftrightarrow> i < length xs \<and> xs ! i = c \<and> c \<notin> set (take i xs)"
proof (induction xs arbitrary: i)
  case (Cons x xs)
  then show ?case by (cases i) (auto simp: nth_Cons')
qed simp

lemma memchr_append [simp]: "c \<notin> set xs \<Longrightarrow> memchr c (xs @ c # ys) = Some (length xs)"
  by (induction xs) auto

lemma memchr_less: "memchr c xs = Some i \<Longrightarrow> i < length xs"
  by (simp add: memchr_Some_iff)

lemma memchr_split:
  assumes "memchr c xs = Some i"
  shows "xs = take i xs @ c # drop (Suc i) xs" and "c \<notin> set (take i xs)"
  using assms by (auto simp: memchr_Some_iff intro: id_take_nth_drop)

lemma memmem_Some:
  assumes "memmem xs needle = Some i"
  shows "xs = take i xs @ needle @ drop (i + length needle) xs"
  using assms
proof (induction xs arbitrary: i)
  case Nil
  then show ?case by (simp split: if_splits)
next
  case (Cons x xs)
  show ?case
  proof (cases "take (length needle) (x # xs) = needle")
    case True
    then have "memmem (x # xs) needle = Some 0" by simp
    with Cons.prems have "i = 0" by simp
    then show ?thesis using True
      by (metis append_Nil append_take_drop_id plus_nat.add_0 take0)
  next
    case False
    with Cons.prems obtain j where j: "memmem xs needle = Some j" and "i = Suc j"
      by auto
    from Cons.IH [OF j] \<open>i = Suc j\<close> show ?thesis by simp
  qed
qed

lemma memmem_less: "memmem xs needle = Some i \<Longrightarrow> i + length needle \<le> length xs"
proof (induction xs arbitrary: i)
  case (Cons x xs)
  show ?case
  proof (cases "take (length needle) (x # xs) = needle")
    case True
    then have "length needle \<le> length (x # xs)"
      by (metis length_take min.cobounded1)
    with True Cons.prems show ?thesis by (simp split: if_splits)
  next
    case False
    with Cons.prems Cons.IH show ?thesis by (auto split: if_splits)
  qed
qed (simp split: if_splits)

lemma cstr_no_NUL [simp]: "NUL \<notin> set (cstr s)"
  by (auto simp: cstr_def dest: set_takeWhileD)

lemma cstr_idem [simp]: "NUL \<notin> set s \<Longrightarrow> cstr s = s"
  unfolding cstr_def by (rule takeWhile_eq_all_conv [THEN iffD2]) auto

lemma length_snprintf_le: "length (snprintf cap s) \<le> cap - 1"
  by (simp add: snprintf_def)

lemma snprintf_fits [simp]: "length s < cap \<Longrightarrow> snprintf cap s = s"
  by (simp add: snprintf_def)

lemma length_fmt_02x [simp]: "length (fmt_02x b) = 2"
  by (simp add: fmt_02x_def)

lemma unat_byte_less [simp]: "unat (b :: byte) < 256"
  using unsigned_less [of b, where ?'a = nat] by simp

lemma unat_eq_iff: "unat (a :: 'a :: len word) = unat b \<longleftrightarrow> a = b"
  by (rule unsigned_word_eqI [THEN iffI]) simp_all

lemma take_append_same [simp]: "take (length xs) (xs @ ys) = xs"
  by simp

lemma drop_append_same: "drop (length xs) (xs @ ys) = ys"
  by simp

lemma drop_line: "drop (length l + 2) (l @ a # b # r) = r"
  by simp

lemma unat_of_nat_small: "n < 2 ^ 64 \<Longrightarrow> unat (of_nat n :: usize) = n"
  by (simp add: unat_of_nat take_bit_eq_mod)

lemma memchr_takeWhile:
  "memchr c xs = Some q \<Longrightarrow> takeWhile (\<lambda>x. x \<noteq> c) xs = take q xs \<and> dropWhile (\<lambda>x. x \<noteq> c) xs = drop q xs"
  by (induction xs arbitrary: q) (auto split: if_splits)

end
