(* ===== verification/Err.thy ===== *)
theory Err
  imports Prelude
begin

text \<open>
  Error codes and overflow-checked size arithmetic (\<open>include/ntc/err.h\<close>,
  \<open>src/common/err.c\<close>). A fallible function of the sources returns an \<open>ntc_err\<close> and
  writes its result through an out-parameter; the models return
  \<open>ntc_err + 'a\<close>, with \<open>Inl\<close> a code other than \<open>NTC_OK\<close> and \<open>Inr\<close> the result.
  The macro \<open>NTC_TRY\<close> is then the bind of that sum, \<open>ntc_try\<close>.
\<close>

datatype ntc_err =
    NTC_OK | NTC_ERR_OOM | NTC_ERR_IO | NTC_ERR_PARSE | NTC_ERR_INVALID | NTC_ERR_OVERFLOW
  | NTC_ERR_NOT_FOUND | NTC_ERR_TIMEOUT | NTC_ERR_AGAIN | NTC_ERR_INTERNAL | NTC_ERR__COUNT

fun ntc_err_str :: "ntc_err \<Rightarrow> string" where
  "ntc_err_str NTC_OK = ''NTC_OK''"
| "ntc_err_str NTC_ERR_OOM = ''NTC_ERR_OOM''"
| "ntc_err_str NTC_ERR_IO = ''NTC_ERR_IO''"
| "ntc_err_str NTC_ERR_PARSE = ''NTC_ERR_PARSE''"
| "ntc_err_str NTC_ERR_INVALID = ''NTC_ERR_INVALID''"
| "ntc_err_str NTC_ERR_OVERFLOW = ''NTC_ERR_OVERFLOW''"
| "ntc_err_str NTC_ERR_NOT_FOUND = ''NTC_ERR_NOT_FOUND''"
| "ntc_err_str NTC_ERR_TIMEOUT = ''NTC_ERR_TIMEOUT''"
| "ntc_err_str NTC_ERR_AGAIN = ''NTC_ERR_AGAIN''"
| "ntc_err_str NTC_ERR_INTERNAL = ''NTC_ERR_INTERNAL''"
| "ntc_err_str NTC_ERR__COUNT = ''NTC_ERR_UNKNOWN''"

fun ntc_err_http_status :: "ntc_err \<Rightarrow> int" where
  "ntc_err_http_status NTC_OK = 200"
| "ntc_err_http_status NTC_ERR_PARSE = 400"
| "ntc_err_http_status NTC_ERR_INVALID = 400"
| "ntc_err_http_status NTC_ERR_OVERFLOW = 400"
| "ntc_err_http_status NTC_ERR_NOT_FOUND = 404"
| "ntc_err_http_status NTC_ERR_TIMEOUT = 504"
| "ntc_err_http_status NTC_ERR_OOM = 503"
| "ntc_err_http_status NTC_ERR_AGAIN = 503"
| "ntc_err_http_status NTC_ERR_IO = 502"
| "ntc_err_http_status NTC_ERR_INTERNAL = 500"
| "ntc_err_http_status NTC_ERR__COUNT = 500"

definition ntc_try :: "ntc_err + 'a \<Rightarrow> ('a \<Rightarrow> ntc_err + 'b) \<Rightarrow> ntc_err + 'b" where
  "ntc_try m k = (case m of Inl e \<Rightarrow> Inl e | Inr a \<Rightarrow> k a)"

text \<open>\<open>__builtin_mul_overflow\<close> and \<open>__builtin_add_overflow\<close> on \<open>size_t\<close>.\<close>

definition ntc_size_mul :: "usize \<Rightarrow> usize \<Rightarrow> ntc_err + usize" where
  "ntc_size_mul a b = (if uint a * uint b \<ge> 2 ^ 64 then Inl NTC_ERR_OVERFLOW else Inr (a * b))"

definition ntc_size_add :: "usize \<Rightarrow> usize \<Rightarrow> ntc_err + usize" where
  "ntc_size_add a b = (if uint a + uint b \<ge> 2 ^ 64 then Inl NTC_ERR_OVERFLOW else Inr (a + b))"

lemma ntc_try_simps [simp]:
  "ntc_try (Inl e) k = Inl e" "ntc_try (Inr a) k = k a"
  by (simp_all add: ntc_try_def)

lemma ntc_try_eq_Inr: "ntc_try m k = Inr b \<longleftrightarrow> (\<exists>a. m = Inr a \<and> k a = Inr b)"
  by (cases m) auto

lemma ntc_size_mul_unat:
  "ntc_size_mul a b = (if unat a * unat b \<ge> 2 ^ 64 then Inl NTC_ERR_OVERFLOW else Inr (a * b))"
  using of_nat_le_iff [of "2 ^ 64" "unat a * unat b", where ?'a = int]
  by (simp add: ntc_size_mul_def)

lemma ntc_size_add_unat:
  "ntc_size_add a b = (if unat a + unat b \<ge> 2 ^ 64 then Inl NTC_ERR_OVERFLOW else Inr (a + b))"
  using of_nat_le_iff [of "2 ^ 64" "unat a + unat b", where ?'a = int]
  by (simp add: ntc_size_add_def)

lemma ntc_size_mul_Inr: "ntc_size_mul a b = Inr c \<longleftrightarrow> unat a * unat b < 2 ^ 64 \<and> unat c = unat a * unat b"
proof (cases "unat a * unat b < 2 ^ 64")
  case True
  then have "unat (a * b) = unat a * unat b" by (simp add: unat_word_ariths)
  with True show ?thesis by (auto simp: ntc_size_mul_unat) (metis unat_eq_iff)
qed (simp add: ntc_size_mul_unat)

lemma ntc_size_add_Inr: "ntc_size_add a b = Inr c \<longleftrightarrow> unat a + unat b < 2 ^ 64 \<and> unat c = unat a + unat b"
proof (cases "unat a + unat b < 2 ^ 64")
  case True
  then have "unat (a + b) = unat a + unat b" by (simp add: unat_word_ariths)
  with True show ?thesis by (auto simp: ntc_size_add_unat) (metis unat_eq_iff)
qed (simp add: ntc_size_add_unat)

lemma ntc_size_mul_Inl: "ntc_size_mul a b = Inl e \<longleftrightarrow> unat a * unat b \<ge> 2 ^ 64 \<and> e = NTC_ERR_OVERFLOW"
  by (auto simp: ntc_size_mul_unat)

lemma ntc_size_add_Inl: "ntc_size_add a b = Inl e \<longleftrightarrow> unat a + unat b \<ge> 2 ^ 64 \<and> e = NTC_ERR_OVERFLOW"
  by (auto simp: ntc_size_add_unat)

lemma ntc_err_str_inj: "ntc_err_str e = ntc_err_str e' \<longleftrightarrow> e = e'"
  by (cases e; cases e') simp_all

lemma ntc_err_http_status_error: "e \<noteq> NTC_OK \<Longrightarrow> 400 \<le> ntc_err_http_status e \<and> ntc_err_http_status e < 600"
  by (cases e) simp_all

end
