(* ===== verification/Slice.thy ===== *)
theory Slice
  imports Prelude
begin

text \<open>
  Length-delimited string views (\<open>src/common/slice.c\<close>). A slice is the list of the
  characters it spans; \<open>memcmp(...) == 0\<close> on equal lengths is list equality.
\<close>

type_synonym ntc_slice = string

definition ntc_slice_cstr :: "string \<Rightarrow> ntc_slice" where
  "ntc_slice_cstr s = cstr s"

definition ntc_slice_eq :: "ntc_slice \<Rightarrow> ntc_slice \<Rightarrow> bool" where
  "ntc_slice_eq a b =
     (if length a \<noteq> length b then False
      else if length a = 0 then True
      else take (length a) b = a)"

definition ntc_slice_eq_cstr :: "ntc_slice \<Rightarrow> string \<Rightarrow> bool" where
  "ntc_slice_eq_cstr a s = ntc_slice_eq a (ntc_slice_cstr s)"

definition ntc_slice_starts_with :: "ntc_slice \<Rightarrow> ntc_slice \<Rightarrow> bool" where
  "ntc_slice_starts_with a pre =
     (if length pre > length a then False
      else if length pre = 0 then True
      else take (length pre) a = pre)"

definition is_space :: "char \<Rightarrow> bool" where
  "is_space c \<longleftrightarrow> c = CHR '' '' \<or> c = CHR 0x09 \<or> c = CHR 0x0D \<or> c = CHR 0x0A \<or> c = CHR 0x0C \<or> c = CHR 0x0B"

text \<open>The first loop advances \<open>start\<close> over blanks, the second moves \<open>end\<close> back over them.\<close>

definition ntc_slice_trim :: "ntc_slice \<Rightarrow> ntc_slice" where
  "ntc_slice_trim s = rev (dropWhile is_space (rev (dropWhile is_space s)))"

lemma ntc_slice_eq_iff [simp]: "ntc_slice_eq a b \<longleftrightarrow> a = b"
  by (auto simp: ntc_slice_eq_def)

lemma ntc_slice_eq_cstr_iff [simp]: "NUL \<notin> set s \<Longrightarrow> ntc_slice_eq_cstr a s \<longleftrightarrow> a = s"
  by (simp add: ntc_slice_eq_cstr_def ntc_slice_cstr_def)

lemma ntc_slice_starts_with_iff: "ntc_slice_starts_with a pre \<longleftrightarrow> prefix pre a"
  by (auto simp: ntc_slice_starts_with_def prefix_def dest: sym)
    (metis append_take_drop_id)

lemma ntc_slice_trim_ends:
  assumes "ntc_slice_trim s \<noteq> []"
  shows "\<not> is_space (hd (ntc_slice_trim s))" and "\<not> is_space (last (ntc_slice_trim s))"
proof -
  define t where "t = dropWhile is_space s"
  have trim: "ntc_slice_trim s = rev (dropWhile is_space (rev t))"
    by (simp add: ntc_slice_trim_def t_def)
  have ne: "dropWhile is_space (rev t) \<noteq> []" using assms trim by auto
  then show "\<not> is_space (last (ntc_slice_trim s))"
    by (simp add: trim last_rev hd_dropWhile)
  from ne have "t \<noteq> []" by auto
  then have "\<not> is_space (hd t)" using hd_dropWhile [of is_space s] by (simp add: t_def)
  moreover have "prefix (ntc_slice_trim s) t"
    by (metis dropWhile_eq_drop rev_rev_ident suffix_drop suffix_to_prefix trim)
  ultimately show "\<not> is_space (hd (ntc_slice_trim s))"
    using assms by (metis hd_append2 prefix_def)
qed

lemma set_ntc_slice_trim: "set (ntc_slice_trim s) \<subseteq> set s"
  by (auto simp: ntc_slice_trim_def dest!: set_dropWhileD)

lemma ntc_slice_trim_id:
  "(s \<noteq> [] \<longrightarrow> \<not> is_space (hd s) \<and> \<not> is_space (last s)) \<Longrightarrow> ntc_slice_trim s = s"
proof (cases s rule: rev_cases)
  case (snoc ys y)
  assume "s \<noteq> [] \<longrightarrow> \<not> is_space (hd s) \<and> \<not> is_space (last s)"
  with snoc have "\<not> is_space (hd s)" "\<not> is_space y" by auto
  moreover have "dropWhile is_space s = s"
    using \<open>\<not> is_space (hd s)\<close> by (cases s) auto
  ultimately show ?thesis by (simp add: ntc_slice_trim_def snoc)
qed (simp add: ntc_slice_trim_def)

lemma ntc_slice_trim_blank: "is_space c \<Longrightarrow> ntc_slice_trim (c # s) = ntc_slice_trim s"
  by (simp add: ntc_slice_trim_def)

lemma ntc_slice_trim_idem: "ntc_slice_trim (ntc_slice_trim s) = ntc_slice_trim s"
  using ntc_slice_trim_ends by (intro ntc_slice_trim_id) blast

end
