(* ===== verification/Http_Request.thy ===== *)
theory Http_Request
  imports Err Slice
begin

text \<open>
  The HTTP/1.1 request parser (\<open>src/common/http_request.c\<close>, types of
  \<open>include/ntc/http.h\<close>). The parser is zero-copy: every slice it stores points into
  the input buffer. Here the buffer is a list and a slice is the list of its
  characters; the fixed arrays \<open>headers[64]\<close>, \<open>params[8]\<close> with their counters are
  lists, and the guard on the counter is kept. \<open>content_length\<close> stays a
  \<open>size_t\<close> word, since its overflow is checked.

  The out-parameters \<open>req\<close> and \<open>consumed\<close> are part of the result, so only the NULL
  test on \<open>buf\<close> remains of the first guard.
\<close>

record ntc_header =
  hdr_name :: ntc_slice
  hdr_value :: ntc_slice

record ntc_request =
  rq_method :: ntc_slice
  rq_target :: ntc_slice
  rq_path :: ntc_slice
  rq_query :: ntc_slice
  rq_minor_version :: int
  rq_headers :: "ntc_header list"
  rq_params :: "ntc_header list"
  rq_auth_sub :: ntc_slice
  rq_auth_scope :: ntc_slice
  rq_has_content_length :: bool
  rq_content_length :: usize
  rq_body :: ntc_slice

datatype ntc_parse_result =
    NTC_PARSE_OK ntc_request nat \<comment> \<open>the request and \<open>*consumed\<close>\<close>
  | NTC_PARSE_INCOMPLETE
  | NTC_PARSE_ERROR

definition NTC_MAX_HEADERS :: nat where "NTC_MAX_HEADERS = 64"
definition NTC_MAX_PARAMS :: nat where "NTC_MAX_PARAMS = 8"
definition NTC_MAX_HEADER_BYTES :: nat where "NTC_MAX_HEADER_BYTES = 32 * 1024"

text \<open>\<open>memset(req, 0, sizeof *req)\<close>\<close>

definition zero_request :: ntc_request where
  "zero_request = \<lparr>rq_method = [], rq_target = [], rq_path = [], rq_query = [],
     rq_minor_version = 0, rq_headers = [], rq_params = [], rq_auth_sub = [], rq_auth_scope = [],
     rq_has_content_length = False, rq_content_length = 0, rq_body = []\<rparr>"

fun find_crlf :: "string \<Rightarrow> nat option" where
  "find_crlf (a # b # r) = (if a = CR \<and> b = LF then Some 0 else map_option Suc (find_crlf (b # r)))"
| "find_crlf _ = None"

fun find_eoh :: "string \<Rightarrow> nat option" where
  "find_eoh (a # b # c # d # r) =
     (if a = CR \<and> b = LF \<and> c = CR \<and> d = LF then Some 0
      else map_option Suc (find_eoh (b # c # d # r)))"
| "find_eoh _ = None"

definition lc :: "char \<Rightarrow> char" where
  "lc c = (if c_in CHR ''A'' CHR ''Z'' c then char_of (ccode c - ccode CHR ''A'' + ccode CHR ''a'') else c)"

definition islabel_eq :: "ntc_slice \<Rightarrow> string \<Rightarrow> bool" where
  "islabel_eq a b =
     (let n = length (cstr b)
      in if length a \<noteq> n then False else list_all2 (\<lambda>x y. lc x = lc y) a (cstr b))"

definition is_tchar :: "char \<Rightarrow> bool" where
  "is_tchar c =
     (c_in CHR ''a'' CHR ''z'' c \<or> c_in CHR ''A'' CHR ''Z'' c \<or> c_in CHR ''0'' CHR ''9'' c \<or>
      c \<in> {CHR ''!'', CHR ''#'', CHR ''$'', CHR ''%'', CHR ''&'', CHR 0x27, CHR ''*'', CHR ''+'',
           CHR ''-'', CHR ''.'', CHR ''^'', CHR ''_'', CHR 0x60, CHR ''|'', CHR ''~''})"

definition is_token :: "ntc_slice \<Rightarrow> bool" where
  "is_token s = (if length s = 0 then False else list_all is_tchar s)"

text \<open>The digit loop of a Content-Length value, on \<open>size_t\<close> with both overflow checks.\<close>

fun parse_cl :: "usize \<Rightarrow> string \<Rightarrow> usize option" where
  "parse_cl cl [] = Some cl"
| "parse_cl cl (ch # r) =
     (if \<not> c_in CHR ''0'' CHR ''9'' ch then None
      else case ntc_size_mul cl 10 of
        Inl _ \<Rightarrow> None
      | Inr cl1 \<Rightarrow>
          (case ntc_size_add cl1 (of_nat (ccode ch - ccode CHR ''0'')) of
             Inl _ \<Rightarrow> None
           | Inr cl2 \<Rightarrow> parse_cl cl2 r))"

text \<open>
  One header line \<open>[cur, le)\<close>: split at the colon, trim, check the name, append,
  and interpret \<open>Content-Length\<close>. \<open>None\<close> is \<open>return NTC_PARSE_ERROR\<close>.
\<close>

definition parse_header_line :: "ntc_request \<Rightarrow> string \<Rightarrow> ntc_request option" where
  "parse_header_line req line =
     (case memchr CHR '':'' line of
        None \<Rightarrow> None
      | Some colon \<Rightarrow>
          (let name = take colon line;
               val = ntc_slice_trim (drop (colon + 1) line)
           in if \<not> is_token name then None
              else if length (rq_headers req) \<ge> NTC_MAX_HEADERS then None
              else
                let req1 = req\<lparr>rq_headers := rq_headers req @ [\<lparr>hdr_name = name, hdr_value = val\<rparr>]\<rparr>
                in if islabel_eq name ''content-length'' then
                     (if length val = 0 then None
                      else case parse_cl 0 val of
                        None \<Rightarrow> None
                      | Some cl \<Rightarrow>
                          if rq_has_content_length req1 \<and> rq_content_length req1 \<noteq> cl then None
                          else Some (req1\<lparr>rq_has_content_length := True, rq_content_length := cl\<rparr>))
                   else Some req1))"

text \<open>
  The header loop. Its argument is the region \<open>[cur, eoh + 2)\<close>, so the loop condition
  \<open>cur < eoh\<close> says that more than two characters are left.
\<close>

function parse_headers :: "ntc_request \<Rightarrow> string \<Rightarrow> ntc_request option" where
  "parse_headers req rem =
     (if length rem > 2 then
        (case find_crlf rem of
           None \<Rightarrow> None
         | Some le \<Rightarrow>
             (case parse_header_line req (take le rem) of
                None \<Rightarrow> None
              | Some req' \<Rightarrow> parse_headers req' (drop (le + 2) rem)))
      else Some req)"
  by pat_completeness auto
termination
  by (relation "measure (\<lambda>(req, rem). length rem)") auto

declare parse_headers.simps [simp del, loop_simps]

text \<open>The request line \<open>METHOD SP target SP HTTP/1.x\<close>.\<close>

definition parse_request_line :: "string \<Rightarrow> ntc_request option" where
  "parse_request_line line =
     (case memchr CHR '' '' line of
        None \<Rightarrow> None
      | Some sp1 \<Rightarrow>
          (let rest = drop (sp1 + 1) line
           in case memchr CHR '' '' rest of
                None \<Rightarrow> None
              | Some sp2 \<Rightarrow>
                  (let meth = take sp1 line;
                       target = take sp2 rest;
                       version = drop (sp2 + 1) rest
                   in if \<not> is_token meth then None
                      else if length target = 0 then None
                      else if length version \<noteq> 8 \<or> take 7 version \<noteq> ''HTTP/1.'' then None
                      else if version ! 7 \<noteq> CHR ''0'' \<and> version ! 7 \<noteq> CHR ''1'' then None
                      else
                        let req = zero_request\<lparr>rq_method := meth, rq_target := target,
                              rq_minor_version := int (ccode (version ! 7)) - int (ccode CHR ''0'')\<rparr>
                        in (case memchr CHR ''?'' target of
                              Some q \<Rightarrow> Some (req\<lparr>rq_path := take q target, rq_query := drop (q + 1) target\<rparr>)
                            | None \<Rightarrow> Some (req\<lparr>rq_path := target, rq_query := []\<rparr>)))))"

definition ntc_http_parse_request :: "string option \<Rightarrow> ntc_parse_result" where
  "ntc_http_parse_request buf0 =
     (case buf0 of
        None \<Rightarrow> NTC_PARSE_ERROR
      | Some buf \<Rightarrow>
          (case find_eoh buf of
             None \<Rightarrow> (if length buf > NTC_MAX_HEADER_BYTES then NTC_PARSE_ERROR else NTC_PARSE_INCOMPLETE)
           | Some eoh \<Rightarrow>
               (let consumed = eoh + 4;
                    region = take (eoh + 2) buf
                in case find_crlf region of
                     None \<Rightarrow> NTC_PARSE_ERROR
                   | Some rl \<Rightarrow>
                       (case parse_request_line (take rl region) of
                          None \<Rightarrow> NTC_PARSE_ERROR
                        | Some req \<Rightarrow>
                            (case parse_headers req (drop (rl + 2) region) of
                               None \<Rightarrow> NTC_PARSE_ERROR
                             | Some req' \<Rightarrow>
                                 NTC_PARSE_OK (req'\<lparr>rq_body := drop consumed buf\<rparr>) consumed)))))"

text \<open>Accessors: an absent header, parameter or query key gives the empty slice.\<close>

fun header_lookup :: "ntc_header list \<Rightarrow> string \<Rightarrow> ntc_slice" where
  "header_lookup [] name = []"
| "header_lookup (h # hs) name = (if islabel_eq (hdr_name h) name then hdr_value h else header_lookup hs name)"

definition ntc_http_header :: "ntc_request \<Rightarrow> string \<Rightarrow> ntc_slice" where
  "ntc_http_header req name = header_lookup (rq_headers req) name"

fun param_lookup :: "ntc_header list \<Rightarrow> ntc_slice \<Rightarrow> ntc_slice" where
  "param_lookup [] key = []"
| "param_lookup (h # hs) key = (if ntc_slice_eq (hdr_name h) key then hdr_value h else param_lookup hs key)"

definition ntc_req_param :: "ntc_request \<Rightarrow> string \<Rightarrow> ntc_slice" where
  "ntc_req_param req name = param_lookup (rq_params req) (ntc_slice_cstr name)"

text \<open>The segment loop of \<open>ntc_req_query\<close>; the argument is what is left of the query.\<close>

function query_scan :: "string \<Rightarrow> ntc_slice \<Rightarrow> ntc_slice" where
  "query_scan name [] = []"
| "query_scan name (c # cs) =
     (let seg = takeWhile (\<lambda>x. x \<noteq> CHR ''&'') (c # cs);
          rest = drop (length seg + 1) (c # cs)
      in case memchr CHR ''='' seg of
           Some eq \<Rightarrow> (if eq = length name \<and> take eq seg = name then drop (eq + 1) seg
                      else query_scan name rest)
         | None \<Rightarrow> query_scan name rest)"
  by pat_completeness auto
termination
  by (relation "measure (\<lambda>(name, q). length q)") auto

definition ntc_req_query :: "ntc_request \<Rightarrow> string \<Rightarrow> ntc_slice" where
  "ntc_req_query req name = query_scan (cstr name) (rq_query req)"

subsection \<open>Reference notions\<close>

text \<open>Reference: the decimal number a string of digits denotes.\<close>

definition is_digit :: "char \<Rightarrow> bool" where
  "is_digit c = c_in CHR ''0'' CHR ''9'' c"

definition dec_step :: "nat \<Rightarrow> char \<Rightarrow> nat" where
  "dec_step n c = 10 * n + (ccode c - 48)"

definition dec_value :: "string \<Rightarrow> nat" where
  "dec_value s = foldl dec_step 0 s"

definition is_cl :: "ntc_header \<Rightarrow> bool" where
  "is_cl h = islabel_eq (hdr_name h) ''content-length''"

text \<open>What the parser guarantees of the request it builds, whatever the input was.\<close>

definition request_ok :: "ntc_request \<Rightarrow> bool" where
  "request_ok r \<longleftrightarrow>
     is_token (rq_method r) \<and>
     rq_target r \<noteq> [] \<and> CHR '' '' \<notin> set (rq_target r) \<and>
     rq_path r = takeWhile (\<lambda>c. c \<noteq> CHR ''?'') (rq_target r) \<and>
     rq_query r = drop 1 (dropWhile (\<lambda>c. c \<noteq> CHR ''?'') (rq_target r)) \<and>
     rq_minor_version r \<in> {0, 1} \<and>
     length (rq_headers r) \<le> NTC_MAX_HEADERS \<and>
     (\<forall>h \<in> set (rq_headers r). is_token (hdr_name h) \<and> ntc_slice_trim (hdr_value h) = hdr_value h) \<and>
     rq_has_content_length r = (\<exists>h \<in> set (rq_headers r). is_cl h) \<and>
     (\<forall>h \<in> set (rq_headers r). is_cl h \<longrightarrow>
        hdr_value h \<noteq> [] \<and> list_all is_digit (hdr_value h) \<and>
        dec_value (hdr_value h) = unat (rq_content_length r)) \<and>
     rq_params r = [] \<and> rq_auth_sub r = [] \<and> rq_auth_scope r = []"

text \<open>Reference printer: the bytes of a request, as a client sends them.\<close>

definition render_header :: "ntc_header \<Rightarrow> string" where
  "render_header h = hdr_name h @ '': '' @ hdr_value h @ CRLF"

definition render_request :: "ntc_request \<Rightarrow> string" where
  "render_request r = rq_method r @ '' '' @ rq_target r @ '' HTTP/1.'' @ fmt_int (rq_minor_version r) @ CRLF @
     concat (map render_header (rq_headers r)) @ CRLF @ rq_body r"

definition wire_clean :: "string \<Rightarrow> bool" where
  "wire_clean s \<longleftrightarrow> CR \<notin> set s"

definition render_ok :: "ntc_request \<Rightarrow> bool" where
  "render_ok r \<longleftrightarrow> request_ok r \<and> wire_clean (rq_target r) \<and> (\<forall>h \<in> set (rq_headers r). wire_clean (hdr_value h))
     \<and> (\<not> rq_has_content_length r \<longrightarrow> rq_content_length r = 0)"

subsection \<open>Lemmas\<close>

lemma dec_fold_mono: "n \<le> foldl dec_step n s"
proof (induction s arbitrary: n)
  case (Cons c s)
  have "n \<le> dec_step n c" by (simp add: dec_step_def)
  also have "\<dots> \<le> foldl dec_step (dec_step n c) s" by (rule Cons)
  finally show ?case by simp
qed simp

lemma digit_le_9: "is_digit c \<Longrightarrow> ccode c - 48 \<le> 9"
  by (auto simp: is_digit_def c_in_def ccode_def)

text \<open>The digit loop computes the denoted number and fails exactly on a non-digit or on overflow.\<close>

lemma parse_cl_iff:
  "parse_cl cl v = Some r \<longleftrightarrow>
     list_all is_digit v \<and> foldl dec_step (unat cl) v < 2 ^ 64 \<and> unat r = foldl dec_step (unat cl) v"
proof (induction v arbitrary: cl)
  case Nil
  have "unat cl < 2 ^ 64" using unsigned_less [of cl, where ?'a = nat] by simp
  then show ?case by (auto simp: unat_eq_iff)
next
  case (Cons ch v)
  show ?case
  proof (cases "is_digit ch")
    case dig: True
    let ?d = "ccode ch - 48"
    have d: "unat (of_nat ?d :: usize) = ?d"
      using digit_le_9 [OF dig] by (intro unat_of_nat_small) simp
    have step: "dec_step (unat cl) ch = unat cl * 10 + ?d" by (simp add: dec_step_def)
    show ?thesis
    proof (cases "dec_step (unat cl) ch < 2 ^ 64")
      case True
      then have m: "unat cl * unat (10 :: usize) < 2 ^ 64" by (simp add: step)
      then have m1: "ntc_size_mul cl 10 = Inr (cl * 10)" by (simp add: ntc_size_mul_unat)
      then have m2: "unat (cl * 10) = unat cl * 10" by (simp add: ntc_size_mul_Inr)
      have a1: "ntc_size_add (cl * 10) (of_nat ?d) = Inr (cl * 10 + of_nat ?d)"
        using True d by (simp add: ntc_size_add_unat m2 step)
      then have a2: "unat (cl * 10 + of_nat ?d) = dec_step (unat cl) ch"
        using d by (simp add: ntc_size_add_Inr m2 step)
      have "parse_cl cl (ch # v) = parse_cl (cl * 10 + of_nat ?d) v"
        using dig m1 a1 by (simp add: is_digit_def ccode_def)
      then show ?thesis using Cons.IH [of "cl * 10 + of_nat ?d"] dig a2 by simp
    next
      case False
      then have "\<not> foldl dec_step (unat cl) (ch # v) < 2 ^ 64"
        using dec_fold_mono [of "dec_step (unat cl) ch" v] by simp
      moreover have "parse_cl cl (ch # v) = None"
      proof (cases "unat cl * 10 < 2 ^ 64")
        case True
        then have m1: "ntc_size_mul cl 10 = Inr (cl * 10)" by (simp add: ntc_size_mul_unat)
        then have m2: "unat (cl * 10) = unat cl * 10" by (simp add: ntc_size_mul_Inr)
        have "ntc_size_add (cl * 10) (of_nat ?d) = Inl NTC_ERR_OVERFLOW"
          using False d by (simp add: ntc_size_add_unat m2 step)
        then show ?thesis using m1 by (simp add: ccode_def)
      next
        case False
        then have "ntc_size_mul cl 10 = Inl NTC_ERR_OVERFLOW" by (simp add: ntc_size_mul_unat)
        then show ?thesis by simp
      qed
      ultimately show ?thesis by simp
    qed
  qed (simp add: is_digit_def)
qed

lemma parse_cl_value:
  "parse_cl 0 v = Some r \<longleftrightarrow> list_all is_digit v \<and> dec_value v < 2 ^ 64 \<and> unat r = dec_value v"
  by (simp add: parse_cl_iff dec_value_def)

lemma parse_cl_of_value:
  "list_all is_digit v \<Longrightarrow> dec_value v < 2 ^ 64 \<Longrightarrow> parse_cl 0 v = Some (of_nat (dec_value v))"
  by (simp add: parse_cl_value unat_of_nat_small)

lemma not_tchar [simp]:
  "\<not> is_tchar CR" "\<not> is_tchar LF" "\<not> is_tchar CHR '' ''" "\<not> is_tchar CHR '':''"
  by (simp_all add: is_tchar_def c_in_def ccode_def)

lemma token_not_special:
  assumes "is_token s"
  shows "s \<noteq> []" "CR \<notin> set s" "CHR '' '' \<notin> set s" "CHR '':'' \<notin> set s"
  using assms not_tchar by (auto simp: is_token_def list_all_iff split: if_splits)

lemma find_crlf_line [simp]: "CR \<notin> set line \<Longrightarrow> find_crlf (line @ CR # LF # rest) = Some (length line)"
proof (induction line)
  case (Cons a line)
  then show ?case by (cases line) auto
qed simp

lemma find_crlf_Some:
  "find_crlf s = Some i \<Longrightarrow> s = take i s @ CRLF @ drop (i + 2) s"
proof (induction s arbitrary: i rule: find_crlf.induct)
  case (1 a b r)
  then show ?case by (cases i) (auto split: if_splits)
qed auto

lemma find_eoh_Some:
  "find_eoh s = Some i \<Longrightarrow> s = take i s @ CRLF @ CRLF @ drop (i + 4) s"
proof (induction s arbitrary: i rule: find_eoh.induct)
  case (1 a b c d r)
  then show ?case by (cases i) (auto simp: numeral_eq_Suc split: if_splits)
qed auto

lemma find_eoh_less: "find_eoh s = Some i \<Longrightarrow> i + 4 \<le> length s"
proof (induction s arbitrary: i rule: find_eoh.induct)
  case (1 a b c d r)
  then show ?case by (cases i) (auto split: if_splits)
qed auto

lemma find_eoh_append: "find_eoh s = Some i \<Longrightarrow> find_eoh (s @ t) = Some i"
proof (induction s arbitrary: i rule: find_eoh.induct)
  case (1 a b c d r)
  then show ?case by (cases i) (auto split: if_splits)
qed auto

lemma find_eoh_end [simp]:
  "CR \<notin> set line \<Longrightarrow> find_eoh (line @ CR # LF # CR # LF # rest) = Some (length line)"
proof (induction line)
  case (Cons a line)
  then show ?case by (cases line; cases "tl line"; cases "tl (tl line)") auto
qed simp

lemma find_eoh_line:
  assumes "CR \<notin> set line" "rest \<noteq> []" "hd rest \<noteq> CR"
  shows "find_eoh (line @ CR # LF # rest) = map_option (\<lambda>i. i + length line + 2) (find_eoh rest)"
  using assms
proof (induction line)
  case Nil
  then obtain x xs where r: "rest = x # xs" "x \<noteq> CR" by (cases rest) auto
  have "find_eoh (CR # LF # x # xs) = map_option (Suc \<circ> Suc) (find_eoh (x # xs))"
    using r by (cases xs; cases "tl xs"; cases "tl (tl xs)") (auto simp: option.map_comp comp_assoc)
  then show ?case by (simp add: r comp_def)
next
  case (Cons a line)
  then have IH: "find_eoh (line @ CR # LF # rest) = map_option (\<lambda>i. i + length line + 2) (find_eoh rest)"
    by simp
  have "find_eoh (a # line @ CR # LF # rest) = map_option Suc (find_eoh (line @ CR # LF # rest))"
    using Cons.prems by (cases line; cases "tl line"; cases "tl (tl line)"; cases rest; cases "tl rest") auto
  then show ?case by (simp add: IH option.map_comp comp_def)
qed


lemma parse_header_line_ok:
  assumes "request_ok req" "parse_header_line req line = Some req'"
  shows "request_ok req'"
proof -
  from assms(2) obtain colon where c: "memchr CHR '':'' line = Some colon"
    by (auto simp: parse_header_line_def split: option.splits)
  define h where "h = \<lparr>hdr_name = take colon line, hdr_value = ntc_slice_trim (drop (colon + 1) line)\<rparr>"
  define req1 where "req1 = req\<lparr>rq_headers := rq_headers req @ [h]\<rparr>"
  from assms(2) c have tok: "is_token (hdr_name h)" and room: "length (rq_headers req) < NTC_MAX_HEADERS"
    and req': "req' = (if is_cl h then req1\<lparr>rq_has_content_length := True,
                 rq_content_length := the (parse_cl 0 (hdr_value h))\<rparr> else req1)"
    and cl: "is_cl h \<longrightarrow> hdr_value h \<noteq> [] \<and> parse_cl 0 (hdr_value h) \<noteq> None \<and>
               (rq_has_content_length req \<longrightarrow> rq_content_length req = the (parse_cl 0 (hdr_value h)))"
    by (auto simp: parse_header_line_def Let_def h_def req1_def is_cl_def split: option.splits if_splits)
  have trim: "ntc_slice_trim (hdr_value h) = hdr_value h"
    by (simp add: h_def ntc_slice_trim_idem)
  show ?thesis
  proof (cases "is_cl h")
    case True
    with cl obtain v where v: "parse_cl 0 (hdr_value h) = Some v" by auto
    then have val: "list_all is_digit (hdr_value h)" "dec_value (hdr_value h) = unat v"
      by (simp_all add: parse_cl_value)
    have old: "\<forall>k \<in> set (rq_headers req). is_cl k \<longrightarrow> dec_value (hdr_value k) = unat v"
    proof (intro ballI impI)
      fix k assume k: "k \<in> set (rq_headers req)" "is_cl k"
      with assms(1) have "rq_has_content_length req" by (auto simp: request_ok_def)
      with cl True v have "rq_content_length req = v" by auto
      with assms(1) k show "dec_value (hdr_value k) = unat v" by (auto simp: request_ok_def)
    qed
    with True cl v val tok trim room assms(1) show ?thesis
      by (auto simp: request_ok_def req' req1_def)
  next
    case False
    with tok trim room assms(1) show ?thesis
      by (auto simp: request_ok_def req' req1_def)
  qed
qed

lemma parse_headers_ok:
  "parse_headers req rem = Some req' \<Longrightarrow> request_ok req \<Longrightarrow> request_ok req'"
proof (induction req rem rule: parse_headers.induct)
  case (1 req rem)
  from "1.prems"(1) show ?case
  proof (cases "length rem > 2")
    case True
    with "1.prems"(1) obtain le req1 where l: "find_crlf rem = Some le"
      "parse_header_line req (take le rem) = Some req1"
      "parse_headers req1 (drop (le + 2) rem) = Some req'"
      by (subst (asm) parse_headers.simps) (auto split: option.splits)
    with "1.IH" [OF True l(1,2)] "1.prems"(2) parse_header_line_ok [OF _ l(2)] show ?thesis by simp
  next
    case False
    with "1.prems" show ?thesis by (simp add: parse_headers.simps [of req rem])
  qed
qed

lemma parse_request_line_ok:
  assumes "parse_request_line line = Some req" shows "request_ok req"
proof -
  from assms obtain sp1 sp2 where s: "memchr CHR '' '' line = Some sp1"
    "memchr CHR '' '' (drop (sp1 + 1) line) = Some sp2"
    by (auto simp: parse_request_line_def Let_def split: option.splits if_splits)
  define target where "target = take sp2 (drop (sp1 + 1) line)"
  define meth where "meth = take sp1 line"
  define version where "version = drop (sp2 + 1) (drop (sp1 + 1) line)"
  have nsp: "CHR '' '' \<notin> set target" unfolding target_def by (rule memchr_split(2) [OF s(2)])
  have def: "parse_request_line line =
      (if \<not> is_token meth then None
       else if length target = 0 then None
       else if length version \<noteq> 8 \<or> take 7 version \<noteq> ''HTTP/1.'' then None
       else if version ! 7 \<noteq> CHR ''0'' \<and> version ! 7 \<noteq> CHR ''1'' then None
       else (let req = zero_request\<lparr>rq_method := meth, rq_target := target,
              rq_minor_version := int (ccode (version ! 7)) - int (ccode CHR ''0'')\<rparr>
            in (case memchr CHR ''?'' target of
                  Some q \<Rightarrow> Some (req\<lparr>rq_path := take q target, rq_query := drop (q + 1) target\<rparr>)
                | None \<Rightarrow> Some (req\<lparr>rq_path := target, rq_query := []\<rparr>))))"
    unfolding parse_request_line_def meth_def target_def version_def by (simp only: s Let_def option.case)
  have v: "is_token meth" "target \<noteq> []" "version ! 7 = CHR ''0'' \<or> version ! 7 = CHR ''1''"
    using assms unfolding def by (auto split: if_splits)
  have req: "req = zero_request\<lparr>rq_method := meth, rq_target := target,
       rq_minor_version := int (ccode (version ! 7)) - int (ccode CHR ''0''),
       rq_path := takeWhile (\<lambda>c. c \<noteq> CHR ''?'') target,
       rq_query := drop 1 (dropWhile (\<lambda>c. c \<noteq> CHR ''?'') target)\<rparr>"
  proof (cases "memchr CHR ''?'' target")
    case None
    then have "CHR ''?'' \<notin> set target" by (simp add: memchr_None)
    then have tw: "takeWhile (\<lambda>c. c \<noteq> CHR ''?'') target = target" "dropWhile (\<lambda>c. c \<noteq> CHR ''?'') target = []"
      by (auto simp: takeWhile_eq_all_conv dropWhile_eq_Nil_conv)
    with assms show ?thesis unfolding def tw using None by (simp add: Let_def split: if_splits)
  next
    case (Some q)
    with assms memchr_takeWhile [OF Some] show ?thesis unfolding def by (simp add: Let_def split: if_splits)
  qed
  show ?thesis using v nsp
    by (auto simp: req request_ok_def zero_request_def ccode_def)
qed

lemma parse_request_sound:
  assumes "ntc_http_parse_request (Some buf) = NTC_PARSE_OK req n"
  shows "request_ok req"
    and "n \<le> length buf" and "suffix (CRLF @ CRLF) (take n buf)" and "rq_body req = drop n buf"
    and "find_eoh buf = Some (n - 4)" and "4 \<le> n"
proof -
  from assms obtain eoh rl req0 req1 where p: "find_eoh buf = Some eoh" "n = eoh + 4"
    "parse_request_line (take rl (take (eoh + 2) buf)) = Some req0"
    "parse_headers req0 (drop (rl + 2) (take (eoh + 2) buf)) = Some req1"
    "req = req1\<lparr>rq_body := drop n buf\<rparr>"
    by (auto simp: ntc_http_parse_request_def Let_def split: option.splits if_splits)
  from parse_headers_ok [OF p(4) parse_request_line_ok [OF p(3)]] show "request_ok req"
    by (simp add: p(5) request_ok_def)
  have eq: "buf = take eoh buf @ CRLF @ CRLF @ drop (eoh + 4) buf" by (rule find_eoh_Some [OF p(1)])
  have len: "eoh + 4 \<le> length buf" by (rule find_eoh_less [OF p(1)])
  then show "n \<le> length buf" by (simp add: p(2))
  show "rq_body req = drop n buf" by (simp add: p(5))
  have "take n buf = take eoh buf @ CRLF @ CRLF"
    by (subst eq) (use len in \<open>simp add: p(2)\<close>)
  then show "suffix (CRLF @ CRLF) (take n buf)" by (simp add: suffix_def)
  show "find_eoh buf = Some (n - 4)" "4 \<le> n" by (simp_all add: p)
qed

lemma parse_request_stable:
  assumes "ntc_http_parse_request (Some buf) = NTC_PARSE_OK req n"
  shows "ntc_http_parse_request (Some (buf @ rest)) = NTC_PARSE_OK (req\<lparr>rq_body := rq_body req @ rest\<rparr>) n"
proof -
  note s = parse_request_sound [OF assms]
  have e: "find_eoh (buf @ rest) = Some (n - 4)" using s(5) by (rule find_eoh_append)
  have t: "take (n - 4 + 2) (buf @ rest) = take (n - 4 + 2) buf" using s(2,6) by simp
  have d: "drop (n - 4 + 4) (buf @ rest) = drop (n - 4 + 4) buf @ rest" using s(2,6) by simp
  from assms s(5) e t d show ?thesis
    by (auto simp: ntc_http_parse_request_def Let_def split: option.splits if_splits)
qed


lemma fmt_int_01: "fmt_int 0 = ''0''" "fmt_int 1 = ''1''"
  by code_simp+

lemma parse_header_line_render:
  assumes "is_token (hdr_name h)" "ntc_slice_trim (hdr_value h) = hdr_value h"
    "length (rq_headers req) < NTC_MAX_HEADERS"
    "is_cl h \<Longrightarrow> hdr_value h \<noteq> [] \<and> list_all is_digit (hdr_value h) \<and> dec_value (hdr_value h) = unat cl"
    "is_cl h \<Longrightarrow> rq_has_content_length req \<Longrightarrow> rq_content_length req = cl"
  shows "parse_header_line req (hdr_name h @ '': '' @ hdr_value h) =
    Some (if is_cl h then req\<lparr>rq_headers := rq_headers req @ [h], rq_has_content_length := True, rq_content_length := cl\<rparr>
          else req\<lparr>rq_headers := rq_headers req @ [h]\<rparr>)"
proof -
  have m: "memchr CHR '':'' (hdr_name h @ '': '' @ hdr_value h) = Some (length (hdr_name h))"
    using token_not_special(4) [OF assms(1)] by simp
  have t: "ntc_slice_trim (CHR '' '' # hdr_value h) = hdr_value h"
    using assms(2) by (simp add: ntc_slice_trim_blank is_space_def)
  have h: "\<lparr>hdr_name = hdr_name h, hdr_value = hdr_value h\<rparr> = h" by simp
  show ?thesis
  proof (cases "is_cl h")
    case True
    with assms(4) have v: "parse_cl 0 (hdr_value h) = Some cl" "hdr_value h \<noteq> []"
      using unsigned_less [of cl, where ?'a = nat] by (auto simp: parse_cl_value)
    with True assms(1,3,5) show ?thesis
      unfolding parse_header_line_def m option.case
      by (auto simp: t h Let_def is_cl_def)
  next
    case False
    with assms(1,3) show ?thesis
      unfolding parse_header_line_def m option.case
      by (auto simp: t h Let_def is_cl_def)
  qed
qed

lemma parse_headers_render:
  assumes "\<forall>h \<in> set hs. is_token (hdr_name h) \<and> ntc_slice_trim (hdr_value h) = hdr_value h \<and> wire_clean (hdr_value h)"
    "\<forall>h \<in> set hs. is_cl h \<longrightarrow> hdr_value h \<noteq> [] \<and> list_all is_digit (hdr_value h) \<and> dec_value (hdr_value h) = unat cl"
    "length (rq_headers req) + length hs \<le> NTC_MAX_HEADERS"
    "rq_has_content_length req \<longrightarrow> rq_content_length req = cl"
  shows "parse_headers req (concat (map render_header hs)) =
    Some (req\<lparr>rq_headers := rq_headers req @ hs,
              rq_has_content_length := (rq_has_content_length req \<or> (\<exists>h \<in> set hs. is_cl h)),
              rq_content_length := (if \<exists>h \<in> set hs. is_cl h then cl else rq_content_length req)\<rparr>)"
  using assms
proof (induction hs arbitrary: req)
  case Nil
  then show ?case by (simp add: parse_headers.simps)
next
  case (Cons h hs)
  let ?line = "hdr_name h @ '': '' @ hdr_value h"
  let ?rest = "concat (map render_header hs)"
  let ?req = "if is_cl h then req\<lparr>rq_headers := rq_headers req @ [h], rq_has_content_length := True, rq_content_length := cl\<rparr>
          else req\<lparr>rq_headers := rq_headers req @ [h]\<rparr>"
  have in_eq: "concat (map render_header (h # hs)) = ?line @ CR # LF # ?rest"
    by (simp add: render_header_def)
  have "CR \<notin> set ?line" using Cons.prems(1) token_not_special(2) by (auto simp: wire_clean_def)
  then have f: "find_crlf (?line @ CR # LF # ?rest) = Some (length ?line)" by (rule find_crlf_line)
  have l: "parse_header_line req ?line = Some ?req"
    using Cons.prems by (intro parse_header_line_render) auto
  have d: "drop (length ?line + 2) (?line @ CR # LF # ?rest) = ?rest" by (rule drop_line)
  have t: "take (length ?line) (?line @ CR # LF # ?rest) = ?line" by (rule take_append_same)
  have "parse_headers req (?line @ CR # LF # ?rest) = parse_headers ?req ?rest"
    by (subst parse_headers.simps) (simp only: f option.case t d l, simp)
  also have "\<dots> = Some (?req\<lparr>rq_headers := rq_headers ?req @ hs,
              rq_has_content_length := (rq_has_content_length ?req \<or> (\<exists>h \<in> set hs. is_cl h)),
              rq_content_length := (if \<exists>h \<in> set hs. is_cl h then cl else rq_content_length ?req)\<rparr>)"
    using Cons.prems by (intro Cons.IH) auto
  finally show ?case unfolding in_eq by (auto split: if_splits)
qed

lemma find_eoh_headers:
  assumes "\<forall>h \<in> set hs. is_token (hdr_name h) \<and> wire_clean (hdr_value h)" "CR \<notin> set line"
  shows "find_eoh (line @ CRLF @ concat (map render_header hs) @ CRLF @ body) =
     Some (length (line @ CRLF @ concat (map render_header hs)) - 2)"
  using assms
proof (induction hs arbitrary: line)
  case (Cons h hs)
  let ?line = "hdr_name h @ '': '' @ hdr_value h"
  have cr: "CR \<notin> set ?line" using Cons.prems(1) token_not_special(2) by (auto simp: wire_clean_def)
  have ne: "hdr_name h \<noteq> []" using Cons.prems(1) token_not_special(1) by auto
  then have hd: "hd (hdr_name h) \<noteq> CR" using cr by (metis hd_in_set set_append UnI1)
  have eq: "concat (map render_header (h # hs)) @ CRLF @ body = ?line @ CRLF @ concat (map render_header hs) @ CRLF @ body"
    by (simp add: render_header_def)
  have "find_eoh (line @ CR # LF # ?line @ CRLF @ concat (map render_header hs) @ CRLF @ body) =
     map_option (\<lambda>i. i + length line + 2) (find_eoh (?line @ CRLF @ concat (map render_header hs) @ CRLF @ body))"
    using Cons.prems(2) ne hd by (intro find_eoh_line) auto
  also have "find_eoh (?line @ CRLF @ concat (map render_header hs) @ CRLF @ body) =
     Some (length (?line @ CRLF @ concat (map render_header hs)) - 2)"
    using Cons.prems(1) cr by (intro Cons.IH) auto
  finally show ?case by (simp add: render_header_def [of h])
qed simp

lemma parse_request_line_render:
  assumes "request_ok r"
  shows "parse_request_line (rq_method r @ '' '' @ rq_target r @ '' HTTP/1.'' @ fmt_int (rq_minor_version r)) =
     Some (zero_request\<lparr>rq_method := rq_method r, rq_target := rq_target r, rq_path := rq_path r,
       rq_query := rq_query r, rq_minor_version := rq_minor_version r\<rparr>)"
proof -
  note d = fmt_int_01
  have v: "rq_minor_version r = 0 \<or> rq_minor_version r = 1" using assms by (simp add: request_ok_def)
  have sp: "CHR '' '' \<notin> set (rq_method r)" "CHR '' '' \<notin> set (rq_target r)" "is_token (rq_method r)" "rq_target r \<noteq> []"
    using assms token_not_special(3) by (auto simp: request_ok_def)
  have m1: "memchr CHR '' '' (rq_method r @ '' '' @ rq_target r @ '' HTTP/1.'' @ x) = Some (length (rq_method r))" for x
    using sp by simp
  have m2: "memchr CHR '' '' (rq_target r @ '' HTTP/1.'' @ x) = Some (length (rq_target r))" for x
    using sp by simp
  have pq: "rq_path r = takeWhile (\<lambda>c. c \<noteq> CHR ''?'') (rq_target r)"
     "rq_query r = drop 1 (dropWhile (\<lambda>c. c \<noteq> CHR ''?'') (rq_target r))"
    using assms by (simp_all add: request_ok_def)
  show ?thesis
  proof (cases "memchr CHR ''?'' (rq_target r)")
    case None
    then have "CHR ''?'' \<notin> set (rq_target r)" by (simp add: memchr_None)
    then have tw: "takeWhile (\<lambda>c. c \<noteq> CHR ''?'') (rq_target r) = rq_target r"
       "dropWhile (\<lambda>c. c \<noteq> CHR ''?'') (rq_target r) = []"
      by (auto simp: takeWhile_eq_all_conv dropWhile_eq_Nil_conv)
    show ?thesis unfolding parse_request_line_def m1 option.case pq tw
      using v None by (auto simp: m2 [simplified] sp Let_def d ccode_def)
  next
    case (Some q)
    note tw = memchr_takeWhile [OF Some]
    show ?thesis unfolding parse_request_line_def m1 option.case pq
      using v Some tw by (auto simp: m2 [simplified] sp Let_def d ccode_def)
  qed
qed

lemma parse_render:
  assumes "render_ok r"
  shows "ntc_http_parse_request (Some (render_request r)) =
     NTC_PARSE_OK r (length (render_request r) - length (rq_body r))"
proof -
  let ?line = "rq_method r @ '' '' @ rq_target r @ '' HTTP/1.'' @ fmt_int (rq_minor_version r)"
  let ?hs = "concat (map render_header (rq_headers r))"
  have ok: "request_ok r" using assms by (simp add: render_ok_def)
  have hs: "\<forall>h \<in> set (rq_headers r). is_token (hdr_name h) \<and> wire_clean (hdr_value h)"
    using assms by (auto simp: render_ok_def request_ok_def)
  have v: "rq_minor_version r = 0 \<or> rq_minor_version r = 1" using ok by (simp add: request_ok_def)
  note d = fmt_int_01
  have cr: "CR \<notin> set ?line"
    using v assms token_not_special(2) by (auto simp: render_ok_def request_ok_def wire_clean_def d)
  have buf: "render_request r = ?line @ CRLF @ ?hs @ CRLF @ rq_body r" by (simp add: render_request_def)
  have e: "find_eoh (render_request r) = Some (length (?line @ CRLF @ ?hs) - 2)"
    unfolding buf by (rule find_eoh_headers [OF hs cr])
  define eoh where "eoh = length (?line @ CRLF @ ?hs) - 2"
  have eoh: "eoh + 2 = length (?line @ CRLF @ ?hs)" by (simp add: eoh_def)
  have eoh4: "eoh + 4 = length (?line @ CRLF @ ?hs @ CRLF)" by (simp add: eoh_def)
  have buf2: "render_request r = (?line @ CRLF @ ?hs) @ CRLF @ rq_body r"
    and buf4: "render_request r = (?line @ CRLF @ ?hs @ CRLF) @ rq_body r"
    by (simp_all add: render_request_def)
  have t: "take (eoh + 2) (render_request r) = ?line @ CR # LF # ?hs"
    unfolding eoh buf2 take_append_same by simp
  have b: "drop (eoh + 4) (render_request r) = rq_body r"
    unfolding eoh4 buf4 by (rule drop_append_same)
  have c: "find_crlf (?line @ CR # LF # ?hs) = Some (length ?line)" using cr by (rule find_crlf_line)
  have h: "parse_headers (zero_request\<lparr>rq_method := rq_method r, rq_target := rq_target r, rq_path := rq_path r,
       rq_query := rq_query r, rq_minor_version := rq_minor_version r\<rparr>) ?hs = Some (r\<lparr>rq_body := []\<rparr>)"
    using assms by (subst parse_headers_render [where cl = "rq_content_length r"])
      (auto simp: render_ok_def request_ok_def zero_request_def)
  have tk: "take (length ?line) (?line @ CR # LF # ?hs) = ?line"
    and dr: "drop (length ?line + 2) (?line @ CR # LF # ?hs) = ?hs"
    by (rule take_append_same, rule drop_line)
  show ?thesis
    unfolding ntc_http_parse_request_def option.case e [folded eoh_def] Let_def t c tk dr
      parse_request_line_render [OF ok] h b
    by (simp add: eoh_def buf)
qed

lemma parse_request_incomplete:
  "ntc_http_parse_request (Some buf) = NTC_PARSE_INCOMPLETE \<longleftrightarrow>
     find_eoh buf = None \<and> length buf \<le> NTC_MAX_HEADER_BYTES"
  by (auto simp: ntc_http_parse_request_def Let_def split: option.splits)

subsection \<open>Properties\<close>

text \<open>
  C6 (\<open>http_parse_sound\<close>): whatever bytes arrive, an accepted request has a token as its method, a
  non-empty target split at the first question mark, version 1.0 or 1.1, at most
  64 headers with token names and trimmed values, and, if any Content-Length header
  is present, all of them denote the one value in \<open>content_length\<close> (the request
  smuggling guard). The reported length covers the header block exactly up to its
  final blank line and stays inside the buffer, and the body is what follows.
\<close>

theorem http_parse_sound:
  assumes "ntc_http_parse_request (Some buf) = NTC_PARSE_OK req n"
  shows "request_ok req \<and> n \<le> length buf \<and> suffix (CRLF @ CRLF) (take n buf) \<and> rq_body req = drop n buf"
  using parse_request_sound [OF assms] by simp

definition sample_request :: ntc_request where
  "sample_request = \<lparr>rq_method = ''POST'', rq_target = ''/u?a=1'', rq_path = ''/u'', rq_query = ''a=1'',
     rq_minor_version = 1, rq_headers = [\<lparr>hdr_name = ''Content-Length'', hdr_value = ''5''\<rparr>],
     rq_params = [], rq_auth_sub = [], rq_auth_scope = [], rq_has_content_length = True,
     rq_content_length = 5, rq_body = ''hello''\<rparr>"

lemma sample_request_parses:
  "ntc_http_parse_request (Some (''POST /u?a=1 HTTP/1.1'' @ CRLF @ ''Content-Length: 5'' @ CRLF @ CRLF @ ''hello''))
     = NTC_PARSE_OK sample_request 43"
  by code_simp

theorem http_parse_sound_witness:
  "request_ok sample_request \<and> suffix (CRLF @ CRLF) (''POST /u?a=1 HTTP/1.1'' @ CRLF @ ''Content-Length: 5'' @ CRLF @ CRLF)"
  using http_parse_sound [OF sample_request_parses] by simp

text \<open>
  C29 (\<open>http_parse_render\<close>): the parser inverts the wire format. Every well-formed request, printed as a
  client sends it, is accepted, comes back field by field, and exactly the header
  block is consumed.
\<close>

theorem http_parse_render:
  assumes "render_ok r"
  shows "ntc_http_parse_request (Some (render_request r)) =
     NTC_PARSE_OK r (length (render_request r) - length (rq_body r))"
  using assms by (rule parse_render)

theorem http_parse_render_witness:
  "ntc_http_parse_request (Some (render_request sample_request)) = NTC_PARSE_OK sample_request 43"
proof -
  have ok: "render_ok sample_request" by code_simp
  have len: "length (render_request sample_request) - length (rq_body sample_request) = 43" by code_simp
  show ?thesis using http_parse_render [OF ok] unfolding len .
qed

text \<open>
  C28 (\<open>http_parse_incremental\<close>): the verdict does not depend on how the bytes were split by the
  network. Once a buffer parses, appending bytes changes nothing but the body; and the
  parser asks for more exactly while no blank line has arrived and the buffer is
  within the header limit.
\<close>

theorem http_parse_incremental:
  assumes "ntc_http_parse_request (Some buf) = NTC_PARSE_OK req n"
  shows "ntc_http_parse_request (Some (buf @ rest)) = NTC_PARSE_OK (req\<lparr>rq_body := rq_body req @ rest\<rparr>) n \<and>
     (ntc_http_parse_request (Some buf') = NTC_PARSE_INCOMPLETE \<longleftrightarrow>
        find_eoh buf' = None \<and> length buf' \<le> NTC_MAX_HEADER_BYTES)"
  using parse_request_stable [OF assms] by (auto simp: parse_request_incomplete)

theorem http_parse_incremental_witness:
  "ntc_http_parse_request (Some ((''POST /u?a=1 HTTP/1.1'' @ CRLF @ ''Content-Length: 5'' @ CRLF @ CRLF @ ''hello'') @ ''!!''))
     = NTC_PARSE_OK (sample_request\<lparr>rq_body := ''hello!!''\<rparr>) 43 \<and>
   ntc_http_parse_request (Some ''GET / HT'') = NTC_PARSE_INCOMPLETE"
proof -
  have a: "ntc_http_parse_request (Some ((''POST /u?a=1 HTTP/1.1'' @ CRLF @ ''Content-Length: 5'' @ CRLF @ CRLF @ ''hello'') @ ''!!''))
     = NTC_PARSE_OK (sample_request\<lparr>rq_body := rq_body sample_request @ ''!!''\<rparr>) 43"
    by (rule http_parse_incremental [OF sample_request_parses, THEN conjunct1])
  have b: "ntc_http_parse_request (Some ''GET / HT'') = NTC_PARSE_INCOMPLETE"
    by (subst http_parse_incremental [OF sample_request_parses, THEN conjunct2]) (simp add: NTC_MAX_HEADER_BYTES_def)
  show ?thesis using a b by (simp add: sample_request_def)
qed

end
