(* ===== verification/Router.thy ===== *)
theory Router
  imports Http_Request
begin

text \<open>
  Method and path routing (\<open>src/common/router.c\<close>). A route is a record of its
  method, its pattern split into segments, and the handler with its user data; the
  router is the growable array of routes in registration order. The handler and
  \<open>udata\<close> are opaque (type variables). \<open>realloc\<close> and the two \<open>malloc\<close>s of
  \<open>ntc_router_add\<close> may fail: whether each succeeds is an argument.
\<close>

definition NTC_MAX_SEGMENTS :: nat where "NTC_MAX_SEGMENTS = 16"

record seg_t =
  seg_s :: ntc_slice
  seg_is_param :: bool

record ('h, 'u) route_t =
  rt_method :: string
  rt_pattern :: string
  rt_segs :: "seg_t list"
  rt_handler :: 'h
  rt_udata :: 'u

record ('h, 'u) ntc_router =
  routes :: "('h, 'u) route_t list"
  rcap :: nat

type_synonym ntc_route_params = "ntc_header list"

datatype ntc_route_status = NTC_ROUTE_FOUND | NTC_ROUTE_NOT_FOUND | NTC_ROUTE_METHOD_NOT_ALLOWED

fun ntc_params_get :: "ntc_route_params \<Rightarrow> string \<Rightarrow> ntc_slice" where
  "ntc_params_get [] name = []"
| "ntc_params_get (p # ps) name =
     (if ntc_slice_eq (hdr_name p) (ntc_slice_cstr name) then hdr_value p else ntc_params_get ps name)"

definition ntc_router_create :: "bool \<Rightarrow> ntc_err + ('h, 'u) ntc_router" where
  "ntc_router_create calloc_ok =
     (if calloc_ok then Inr \<lparr>routes = [], rcap = 0\<rparr> else Inl NTC_ERR_OOM)"

text \<open>One segment: a leading colon, if something follows it, marks a parameter and is stripped.\<close>

definition mk_seg :: "ntc_slice \<Rightarrow> seg_t" where
  "mk_seg seg =
     (let is_param = (length seg > 1 \<and> seg ! 0 = CHR '':'')
      in \<lparr>seg_s = (if is_param then tl seg else seg), seg_is_param = is_param\<rparr>)"

text \<open>
  The loop of \<open>split_segments\<close> from position \<open>i\<close> (the argument \<open>s\<close> is what is left)
  with \<open>n\<close> segments already stored; \<open>None\<close> is the return value -1.
\<close>

function split_from :: "nat \<Rightarrow> nat \<Rightarrow> string \<Rightarrow> seg_t list option" where
  "split_from mx n s =
     (let s1 = dropWhile (\<lambda>c. c = CHR ''/'') s
      in if s1 = [] then Some []
         else if n \<ge> mx then None
         else map_option (\<lambda>r. mk_seg (takeWhile (\<lambda>c. c \<noteq> CHR ''/'') s1) # r)
                (split_from mx (n + 1) (dropWhile (\<lambda>c. c \<noteq> CHR ''/'') s1)))"
  by pat_completeness auto
termination
proof (relation "measure (\<lambda>(mx, n, s). mx - n)", goal_cases)
  case 1
  show ?case by simp
next
  case (2 mx n s s1)
  then show ?case by simp
qed

declare split_from.simps [simp del, loop_simps]

definition split_segments :: "string \<Rightarrow> nat \<Rightarrow> seg_t list option" where
  "split_segments s mx = split_from mx 0 s"

definition ntc_router_add ::
  "bool \<Rightarrow> bool \<Rightarrow> bool \<Rightarrow> ('h, 'u) ntc_router option \<Rightarrow> string option \<Rightarrow> string option \<Rightarrow> 'h option \<Rightarrow> 'u
     \<Rightarrow> ntc_err \<times> ('h, 'u) ntc_router option" where
  "ntc_router_add realloc_ok dup_method_ok dup_pattern_ok r method pattern h udata =
     (case (r, method, pattern, h) of
        (Some r0, Some m, Some p, Some hnd) \<Rightarrow>
          (if length (routes r0) \<ge> rcap r0 \<and> \<not> realloc_ok then (NTC_ERR_OOM, Some r0)
           else
             let r1 = (if length (routes r0) \<ge> rcap r0
                       then r0\<lparr>rcap := (if rcap r0 \<noteq> 0 then rcap r0 * 2 else 8)\<rparr> else r0)
             in if \<not> dup_method_ok \<or> \<not> dup_pattern_ok then (NTC_ERR_OOM, Some r1)
                else case split_segments (cstr p) NTC_MAX_SEGMENTS of
                  None \<Rightarrow> (NTC_ERR_INVALID, Some r1)
                | Some sgs \<Rightarrow>
                    (NTC_OK, Some (r1\<lparr>routes := routes r1 @
                       [\<lparr>rt_method = cstr m, rt_pattern = cstr p, rt_segs = sgs, rt_handler = hnd, rt_udata = udata\<rparr>]\<rparr>)))
      | _ \<Rightarrow> (NTC_ERR_INVALID, r))"

text \<open>The inner loop of \<open>ntc_router_match\<close> over the segments of one route.\<close>

fun segs_ok :: "seg_t list \<Rightarrow> seg_t list \<Rightarrow> bool" where
  "segs_ok [] ps = True"
| "segs_ok (s # ss) (p # ps) =
     (if seg_is_param s then segs_ok ss ps
      else if \<not> ntc_slice_eq (seg_s s) (seg_s p) then False
      else segs_ok ss ps)"
| "segs_ok (s # ss) [] = False" \<comment> \<open>not reached: the lengths are equal\<close>

text \<open>The capture loop, with at most \<open>NTC_MAX_PARAMS\<close> stored.\<close>

fun capture :: "ntc_route_params \<Rightarrow> seg_t list \<Rightarrow> seg_t list \<Rightarrow> ntc_route_params" where
  "capture acc (s # ss) (p # ps) =
     (if seg_is_param s \<and> length acc < NTC_MAX_PARAMS
      then capture (acc @ [\<lparr>hdr_name = seg_s s, hdr_value = seg_s p\<rparr>]) ss ps
      else capture acc ss ps)"
| "capture acc _ _ = acc"

fun match_loop ::
  "('h, 'u) route_t list \<Rightarrow> ntc_slice \<Rightarrow> seg_t list option \<Rightarrow> bool
     \<Rightarrow> ntc_route_status \<times> ('h \<times> 'u \<times> ntc_route_params) option" where
  "match_loop [] method pn mm = (if mm then NTC_ROUTE_METHOD_NOT_ALLOWED else NTC_ROUTE_NOT_FOUND, None)"
| "match_loop (rt # rts) method pn mm =
     (case pn of
        None \<Rightarrow> match_loop rts method pn mm
      | Some ps \<Rightarrow>
          if length ps \<noteq> length (rt_segs rt) then match_loop rts method pn mm
          else if \<not> segs_ok (rt_segs rt) ps then match_loop rts method pn mm
          else if \<not> ntc_slice_eq_cstr method (rt_method rt) then match_loop rts method pn True
          else (NTC_ROUTE_FOUND, Some (rt_handler rt, rt_udata rt, capture [] (rt_segs rt) ps)))"

definition ntc_router_match ::
  "('h, 'u) ntc_router \<Rightarrow> ntc_slice \<Rightarrow> ntc_slice
     \<Rightarrow> ntc_route_status \<times> ('h \<times> 'u \<times> ntc_route_params) option" where
  "ntc_router_match r method path =
     match_loop (routes r) method (split_segments path NTC_MAX_SEGMENTS) False"

definition ntc_router_count :: "('h, 'u) ntc_router option \<Rightarrow> nat" where
  "ntc_router_count r = (case r of Some r0 \<Rightarrow> length (routes r0) | None \<Rightarrow> 0)"

subsection \<open>Reference notions\<close>

text \<open>Splitting at a separator, empty pieces included; a path's segments are the non-empty ones.\<close>

fun split_on :: "'a \<Rightarrow> 'a list \<Rightarrow> 'a list list" where
  "split_on c [] = [[]]"
| "split_on c (x # xs) =
     (if x = c then [] # split_on c xs
      else case split_on c xs of [] \<Rightarrow> [[x]] | p # ps \<Rightarrow> (x # p) # ps)"

definition path_segments :: "string \<Rightarrow> string list" where
  "path_segments s = filter (\<lambda>p. p \<noteq> []) (split_on CHR ''/'' s)"

definition join_path :: "string list \<Rightarrow> string" where
  "join_path segs = concat (map (\<lambda>s. CHR ''/'' # s) segs)"

definition seg_match :: "seg_t \<Rightarrow> seg_t \<Rightarrow> bool" where
  "seg_match s p \<longleftrightarrow> seg_is_param s \<or> seg_s s = seg_s p"

text \<open>A route matches a path whose segments (at most 16) agree with it, parameters matching anything.\<close>

definition route_matches :: "('h, 'u) route_t \<Rightarrow> string \<Rightarrow> bool" where
  "route_matches rt path \<longleftrightarrow> length (path_segments path) \<le> NTC_MAX_SEGMENTS \<and>
     list_all2 seg_match (rt_segs rt) (map mk_seg (path_segments path))"

definition route_params :: "('h, 'u) route_t \<Rightarrow> string \<Rightarrow> ntc_route_params" where
  "route_params rt path =
     take NTC_MAX_PARAMS (map (\<lambda>(s, p). \<lparr>hdr_name = seg_s s, hdr_value = seg_s p\<rparr>)
       (filter (\<lambda>(s, p). seg_is_param s) (zip (rt_segs rt) (map mk_seg (path_segments path)))))"

definition router_ok :: "('h, 'u) ntc_router \<Rightarrow> bool" where
  "router_ok r \<longleftrightarrow> length (routes r) \<le> rcap r \<and>
     (\<forall>rt \<in> set (routes r). NUL \<notin> set (rt_method rt) \<and>
        rt_segs rt = map mk_seg (path_segments (rt_pattern rt)) \<and> length (rt_segs rt) \<le> NTC_MAX_SEGMENTS)"

subsection \<open>Lemmas\<close>

lemma split_on_ne [simp]: "split_on c xs \<noteq> []"
  by (cases xs) (auto split: list.splits)

lemma split_on_sep [simp]: "path_segments (CHR ''/'' # s) = path_segments s"
  by (simp add: path_segments_def)

lemma path_segments_dropWhile: "path_segments (dropWhile (\<lambda>c. c = CHR ''/'') s) = path_segments s"
  by (induction s) auto

lemma split_on_unfold:
  "split_on c (x # xs) = (if x = c then [] # split_on c xs
     else (x # hd (split_on c xs)) # tl (split_on c xs))"
  by (cases "split_on c xs") auto

lemma split_on_word:
  assumes "c \<notin> set w"
  shows "split_on c (w @ c # r) = w # split_on c r" and "split_on c w = [w]"
  using assms by (induction w) (auto split: list.splits)

lemma path_segments_word:
  assumes "s1 \<noteq> []" "hd s1 \<noteq> CHR ''/''"
  shows "path_segments s1 = takeWhile (\<lambda>c. c \<noteq> CHR ''/'') s1 #
     path_segments (dropWhile (\<lambda>c. c \<noteq> CHR ''/'') s1)"
proof -
  let ?w = "takeWhile (\<lambda>c. c \<noteq> CHR ''/'') s1" and ?d = "dropWhile (\<lambda>c. c \<noteq> CHR ''/'') s1"
  have eq: "s1 = ?w @ ?d" by simp
  have w: "CHR ''/'' \<notin> set ?w" by (auto dest: set_takeWhileD)
  have ne: "?w \<noteq> []" using assms by (cases s1) auto
  show ?thesis
  proof (cases ?d)
    case Nil
    then have "s1 = ?w" using eq by (metis append_Nil2)
    then have "split_on CHR ''/'' s1 = [?w]" using split_on_word(2) [OF w] by simp
    then show ?thesis using ne unfolding Nil by (simp add: path_segments_def)
  next
    case (Cons x r)
    then have x: "x = CHR ''/''" by (metis (mono_tags, lifting) dropWhile_eq_Cons_conv)
    then have s1: "s1 = ?w @ CHR ''/'' # r" using eq Cons by metis
    have "split_on CHR ''/'' s1 = ?w # split_on CHR ''/'' r"
      by (subst s1) (rule split_on_word(1) [OF w])
    then show ?thesis using ne unfolding Cons x by (simp add: path_segments_def)
  qed
qed

lemma path_segments_Nil [simp]: "path_segments [] = []"
  by (simp add: path_segments_def)

lemma split_from_spec:
  "split_from mx n s =
     (if n + length (path_segments s) \<le> mx \<or> path_segments s = []
      then Some (map mk_seg (path_segments s)) else None)"
proof (induction mx n s rule: split_from.induct)
  case (1 mx n s)
  let ?s1 = "dropWhile (\<lambda>c. c = CHR ''/'') s"
  have p: "path_segments s = path_segments ?s1" by (simp add: path_segments_dropWhile)
  show ?case
  proof (cases "?s1 = []")
    case True
    then show ?thesis unfolding p True by (subst split_from.simps) (simp add: True)
  next
    case False
    then have "hd ?s1 \<noteq> CHR ''/''" using hd_dropWhile [of "\<lambda>c. c = CHR ''/''" s] by simp
    note w = path_segments_word [OF False this]
    show ?thesis
    proof (cases "n \<ge> mx")
      case True
      then show ?thesis unfolding p w using False by (subst split_from.simps) (auto simp: Let_def)
    next
      case lt: False
      note IH = "1.IH" [OF refl False lt]
      show ?thesis unfolding p w
        by (subst split_from.simps) (use False lt IH in \<open>auto simp: Let_def\<close>)
    qed
  qed
qed

lemma split_segments_spec:
  "split_segments s mx =
     (if length (path_segments s) \<le> mx then Some (map mk_seg (path_segments s)) else None)"
  by (auto simp: split_segments_def split_from_spec)

lemma segs_ok_iff: "length ps = length ss \<Longrightarrow> segs_ok ss ps \<longleftrightarrow> list_all2 seg_match ss ps"
  by (induction ss ps rule: segs_ok.induct) (auto simp: seg_match_def)

lemma capture_spec:
  "length acc \<le> NTC_MAX_PARAMS \<Longrightarrow>
   capture acc ss ps = take NTC_MAX_PARAMS (acc @ map (\<lambda>(s, p). \<lparr>hdr_name = seg_s s, hdr_value = seg_s p\<rparr>)
     (filter (\<lambda>(s, p). seg_is_param s) (zip ss ps)))"
  by (induction acc ss ps rule: capture.induct) (auto simp: le_Suc_eq)

lemma match_loop_spec:
  "match_loop rts method (split_segments path NTC_MAX_SEGMENTS) mm =
     (case find (\<lambda>rt. route_matches rt path \<and> method = cstr (rt_method rt)) rts of
        Some rt \<Rightarrow> (NTC_ROUTE_FOUND, Some (rt_handler rt, rt_udata rt, route_params rt path))
      | None \<Rightarrow> (if mm \<or> (\<exists>rt \<in> set rts. route_matches rt path)
                then NTC_ROUTE_METHOD_NOT_ALLOWED else NTC_ROUTE_NOT_FOUND, None))"
proof (induction rts arbitrary: mm)
  case (Cons rt rts)
  let ?ps = "map mk_seg (path_segments path)"
  show ?case
  proof (cases "length (path_segments path) \<le> NTC_MAX_SEGMENTS")
    case True
    then have sp: "split_segments path NTC_MAX_SEGMENTS = Some ?ps" by (simp add: split_segments_spec)
    have m: "route_matches rt path \<longleftrightarrow> length ?ps = length (rt_segs rt) \<and> segs_ok (rt_segs rt) ?ps"
      using True segs_ok_iff [of ?ps "rt_segs rt"]
      by (metis length_map list_all2_lengthD route_matches_def)
    have c: "capture [] (rt_segs rt) ?ps = route_params rt path"
      by (simp add: capture_spec route_params_def NTC_MAX_PARAMS_def)
    have e: "ntc_slice_eq_cstr method (rt_method rt) \<longleftrightarrow> method = cstr (rt_method rt)"
      by (simp add: ntc_slice_eq_cstr_def ntc_slice_cstr_def)
    show ?thesis using Cons.IH m unfolding sp by (auto simp: c e)
  next
    case False
    then have "split_segments path NTC_MAX_SEGMENTS = None" by (simp add: split_segments_spec)
    moreover from False have "\<not> route_matches rt path" by (simp add: route_matches_def)
    ultimately show ?thesis using Cons.IH by (auto split: option.splits)
  qed
qed simp

lemma match_spec:
  "ntc_router_match r method path =
     (case find (\<lambda>rt. route_matches rt path \<and> method = cstr (rt_method rt)) (routes r) of
        Some rt \<Rightarrow> (NTC_ROUTE_FOUND, Some (rt_handler rt, rt_udata rt, route_params rt path))
      | None \<Rightarrow> (if \<exists>rt \<in> set (routes r). route_matches rt path
                then NTC_ROUTE_METHOD_NOT_ALLOWED else NTC_ROUTE_NOT_FOUND, None))"
  by (simp only: ntc_router_match_def match_loop_spec simp_thms)

text \<open>Only the segments, with their marker stripped, decide a match.\<close>

lemma match_cong:
  fixes r :: "('h, 'u) ntc_router"
  assumes "map (seg_s \<circ> mk_seg) (path_segments p) = map (seg_s \<circ> mk_seg) (path_segments p')"
  shows "ntc_router_match r method p = ntc_router_match r method p'"
proof -
  have len: "length (path_segments p) = length (path_segments p')"
    using arg_cong [OF assms, of length] by simp
  have z0: "map (\<lambda>(s, q). (s, seg_s q)) (zip ss (map mk_seg qs)) = zip ss (map (seg_s \<circ> mk_seg) qs)" for ss qs
    by (simp add: zip_map2 comp_def case_prod_unfold)
  have z: "map (\<lambda>(s, q). (s, seg_s q)) (zip ss (map mk_seg (path_segments p))) =
           map (\<lambda>(s, q). (s, seg_s q)) (zip ss (map mk_seg (path_segments p')))" for ss
    unfolding z0 assms ..
  have la: "list_all2 seg_match ss (map mk_seg (path_segments p)) =
            list_all2 seg_match ss (map mk_seg (path_segments p'))" for ss
    using len assms unfolding list_all2_conv_all_nth seg_match_def
    by (auto simp: list_eq_iff_nth_eq)
  have m: "route_matches rt p = route_matches rt p'" for rt :: "('h, 'u) route_t"
    using la len by (simp add: route_matches_def)
  have q: "map (\<lambda>(s, q). \<lparr>hdr_name = seg_s s, hdr_value = seg_s q\<rparr>) (filter (\<lambda>(s, q). seg_is_param s) zs) =
       map (\<lambda>(s, v). \<lparr>hdr_name = seg_s s, hdr_value = v\<rparr>)
         (filter (\<lambda>(s, v). seg_is_param s) (map (\<lambda>(s, q). (s, seg_s q)) zs))" for zs :: "(seg_t \<times> seg_t) list"
    by (induction zs) auto
  have pr: "route_params rt p = route_params rt p'" for rt :: "('h, 'u) route_t"
    unfolding route_params_def q z ..
  show ?thesis unfolding match_spec m pr ..
qed

lemma path_segments_ne: "p \<in> set (path_segments s) \<Longrightarrow> p \<noteq> []"
  by (simp add: path_segments_def)

lemma path_segments_join:
  "\<forall>s \<in> set segs. s \<noteq> [] \<and> CHR ''/'' \<notin> set s \<Longrightarrow> path_segments (join_path segs) = segs"
proof (induction segs)
  case (Cons s segs)
  let ?r = "join_path segs"
  have IH: "path_segments ?r = segs" using Cons by simp
  have s: "s \<noteq> []" "CHR ''/'' \<notin> set s" using Cons.prems by auto
  have "join_path (s # segs) = CHR ''/'' # s @ ?r" by (simp add: join_path_def)
  then have "path_segments (join_path (s # segs)) = path_segments (s @ ?r)" by simp
  also have "\<dots> = s # segs"
  proof (cases segs)
    case Nil
    then show ?thesis using s split_on_word(2) [OF s(2)] by (simp add: path_segments_def join_path_def)
  next
    case (Cons t ts)
    then have r: "?r = CHR ''/'' # t @ join_path ts" by (simp add: join_path_def)
    then have "path_segments ?r = path_segments (t @ join_path ts)" by simp
    moreover have "split_on CHR ''/'' (s @ ?r) = s # split_on CHR ''/'' (t @ join_path ts)"
      unfolding r using split_on_word(1) [OF s(2)] by simp
    ultimately show ?thesis using s IH by (simp add: path_segments_def)
  qed
  finally show ?case .
qed (simp add: join_path_def)

lemma find_append: "find P (xs @ ys) = (case find P xs of Some x \<Rightarrow> Some x | None \<Rightarrow> find P ys)"
  by (induction xs) auto

lemma ntc_router_add_OK:
  "ntc_router_add ra dm dp r m p h u = (NTC_OK, r') \<longleftrightarrow>
     (\<exists>r0 m0 p0 h0. r = Some r0 \<and> m = Some m0 \<and> p = Some p0 \<and> h = Some h0 \<and>
        (length (routes r0) < rcap r0 \<or> ra) \<and> dm \<and> dp \<and>
        length (path_segments (cstr p0)) \<le> NTC_MAX_SEGMENTS \<and>
        r' = Some (r0\<lparr>rcap := (if length (routes r0) \<ge> rcap r0 then (if rcap r0 \<noteq> 0 then rcap r0 * 2 else 8) else rcap r0),
            routes := routes r0 @ [\<lparr>rt_method = cstr m0, rt_pattern = cstr p0,
              rt_segs = map mk_seg (path_segments (cstr p0)), rt_handler = h0, rt_udata = u\<rparr>]\<rparr>))"
  by (cases r; cases m; cases p; cases h)
    (auto simp: ntc_router_add_def split_segments_spec Let_def not_less)

lemma ntc_router_add_fail:
  "ntc_router_add ra dm dp (Some r) m p h u = (e, r') \<Longrightarrow> e \<noteq> NTC_OK \<Longrightarrow>
     \<exists>r1. r' = Some r1 \<and> routes r1 = routes r \<and> rcap r \<le> rcap r1 \<and> e \<in> {NTC_ERR_OOM, NTC_ERR_INVALID}"
  by (cases m; cases p; cases h)
    (auto simp: ntc_router_add_def Let_def split: option.splits if_splits)

lemma router_ok_add:
  assumes "router_ok r" "ntc_router_add ra dm dp (Some r) m p h u = (e, Some r')"
  shows "router_ok r'"
proof (cases "e = NTC_OK")
  case True
  with assms(2) obtain m0 p0 h0 where "m = Some m0" "p = Some p0" "h = Some h0"
    and r': "r' = r\<lparr>rcap := (if length (routes r) \<ge> rcap r then (if rcap r \<noteq> 0 then rcap r * 2 else 8) else rcap r),
            routes := routes r @ [\<lparr>rt_method = cstr m0, rt_pattern = cstr p0,
              rt_segs = map mk_seg (path_segments (cstr p0)), rt_handler = h0, rt_udata = u\<rparr>]\<rparr>"
    and l: "length (path_segments (cstr p0)) \<le> NTC_MAX_SEGMENTS"
    by (auto simp: ntc_router_add_OK)
  have "length (routes r) + 1 \<le> rcap r'" using assms(1) by (auto simp: r' router_ok_def)
  with assms(1) l show ?thesis by (auto simp: r' router_ok_def)
next
  case False
  with ntc_router_add_fail [OF assms(2)] assms(1) show ?thesis by (auto simp: router_ok_def)
qed

subsection \<open>Properties\<close>

text \<open>
  C7 (\<open>router_match_spec\<close>): matching is the declarative first-match rule. The first route in
  registration order whose segments agree with the path (a parameter agreeing with
  any segment) and whose method is the request's is found, with the captured
  parameters, at most 8 of them; if only other methods have such a route the
  answer is 405, and otherwise 404. Empty segments, hence doubled and trailing
  slashes, play no role.
\<close>

theorem router_match_spec:
  "ntc_router_match r method path =
     (case find (\<lambda>rt. route_matches rt path \<and> method = cstr (rt_method rt)) (routes r) of
        Some rt \<Rightarrow> (NTC_ROUTE_FOUND, Some (rt_handler rt, rt_udata rt, route_params rt path))
      | None \<Rightarrow> (if \<exists>rt \<in> set (routes r). route_matches rt path
                then NTC_ROUTE_METHOD_NOT_ALLOWED else NTC_ROUTE_NOT_FOUND, None))"
  by (rule match_spec)


definition sample_router :: "(nat, nat) ntc_router" where
  "sample_router = \<lparr>routes = [\<lparr>rt_method = ''GET'', rt_pattern = ''/a/:id'',
     rt_segs = [\<lparr>seg_s = ''a'', seg_is_param = False\<rparr>, \<lparr>seg_s = ''id'', seg_is_param = True\<rparr>],
     rt_handler = 1, rt_udata = 7\<rparr>], rcap = 8\<rparr>"


text \<open>
  Substituting values into a registered pattern and requesting the result
  finds the route and gives those values back, by name and in order, up to the
  limit of 8 parameters. A value must be a non-empty segment without a leading
  colon (the splitter strips one from request paths too).
\<close>

lemma router_capture_roundtrip:
  assumes "\<forall>(ps, v) \<in> set bs. ps \<noteq> [] \<and> CHR ''/'' \<notin> set ps \<and> v \<noteq> [] \<and> CHR ''/'' \<notin> set v \<and> hd v \<noteq> CHR '':'' \<and>
             (seg_is_param (mk_seg ps) \<or> v = ps)"
    and "length bs \<le> NTC_MAX_SEGMENTS" and "NUL \<notin> set (join_path (map fst bs))" and "NUL \<notin> set m"
  shows "\<exists>r. ntc_router_add True True True (Some \<lparr>routes = [], rcap = 0\<rparr>) (Some m) (Some (join_path (map fst bs))) (Some h) u = (NTC_OK, Some r) \<and>
     ntc_router_match r m (join_path (map snd bs)) =
       (NTC_ROUTE_FOUND, Some (h, u, take NTC_MAX_PARAMS
          (map (\<lambda>(ps, v). \<lparr>hdr_name = seg_s (mk_seg ps), hdr_value = v\<rparr>) (filter (\<lambda>(ps, v). seg_is_param (mk_seg ps)) bs))))"
proof -
  have A: "ps \<noteq> [] \<and> CHR ''/'' \<notin> set ps \<and> v \<noteq> [] \<and> CHR ''/'' \<notin> set v \<and> hd v \<noteq> CHR '':'' \<and>
             (seg_is_param (mk_seg ps) \<or> v = ps)" if "(ps, v) \<in> set bs" for ps v
    using bspec [OF assms(1) that] by simp
  have pp: "path_segments (join_path (map fst bs)) = map fst bs"
    and pv: "path_segments (join_path (map snd bs)) = map snd bs"
    using A by (force intro!: path_segments_join)+
  have v: "mk_seg v = \<lparr>seg_s = v, seg_is_param = False\<rparr>" if "(ps, v) \<in> set bs" for ps v
    using A [OF that] by (cases v) (auto simp: mk_seg_def)
  let ?rt = "\<lparr>rt_method = cstr m, rt_pattern = cstr (join_path (map fst bs)), rt_segs = map mk_seg (map fst bs),
                 rt_handler = h, rt_udata = u\<rparr>"
  define r where "r = \<lparr>routes = [?rt], rcap = 8\<rparr>"
  have add: "ntc_router_add True True True (Some \<lparr>routes = [], rcap = 0\<rparr>) (Some m) (Some (join_path (map fst bs))) (Some h) u = (NTC_OK, Some r)"
    using assms(2,3) pp by (simp add: ntc_router_add_OK r_def)
  have la: "list_all2 seg_match (map mk_seg (map fst bs)) (map mk_seg (map snd bs))"
  proof (rule list_all2_all_nthI)
    fix n assume "n < length (map mk_seg (map fst bs))"
    then have "bs ! n \<in> set bs" by simp
    then have "(fst (bs ! n), snd (bs ! n)) \<in> set bs" by simp
    from A [OF this] v [OF this] \<open>n < _\<close>
    show "seg_match (map mk_seg (map fst bs) ! n) (map mk_seg (map snd bs) ! n)"
      by (auto simp: seg_match_def)
  qed simp
  have z: "map (\<lambda>(s, p). \<lparr>hdr_name = seg_s s, hdr_value = seg_s p\<rparr>)
       (filter (\<lambda>(s, p). seg_is_param s) (zip (map mk_seg (map fst bs)) (map mk_seg (map snd bs)))) =
     map (\<lambda>(ps, v). \<lparr>hdr_name = seg_s (mk_seg ps), hdr_value = v\<rparr>) (filter (\<lambda>(ps, v). seg_is_param (mk_seg ps)) bs)"
    using v by (induction bs) force+
  have "ntc_router_match r m (join_path (map snd bs)) =
     (NTC_ROUTE_FOUND, Some (h, u, take NTC_MAX_PARAMS
          (map (\<lambda>(ps, v). \<lparr>hdr_name = seg_s (mk_seg ps), hdr_value = v\<rparr>) (filter (\<lambda>(ps, v). seg_is_param (mk_seg ps)) bs))))"
    using la assms(2,4) z by (simp add: match_spec r_def route_matches_def route_params_def pv)
  with add show ?thesis by blast
qed

end
