(* ===== verification/Wire.thy ===== *)
theory Wire
  imports Http_Request
begin

text \<open>
  The gateway/controller wire protocol (\<open>src/common/wire.c\<close>,
  \<open>include/ntc/wire.h\<close>): big-endian primitives, the bounded writer and reader, the
  16-byte frame header and the payload codecs.

  A writer holds the bytes written so far (so \<open>off\<close> is their number), the capacity
  of the destination and the sticky error flag; a reader holds the whole input, the
  offset and the flag. An encoder returns \<open>None\<close> for -1, a decoder \<open>None\<close> for false.
  Buffer offsets are natural numbers: their sums stay far below \<open>SIZE_MAX\<close> for
  buffers that exist in memory.

  The laws that the primitive codecs satisfy are the locale \<open>wire_codec\<close>; the
  lemmas on sequences of items are proved in it once and used for every payload.
\<close>

definition NTC_WIRE_MAGIC :: u32 where "NTC_WIRE_MAGIC = 0x4E544331"
definition NTC_WIRE_VERSION :: byte where "NTC_WIRE_VERSION = 2"
definition NTC_WIRE_VERSION_MAX :: byte where "NTC_WIRE_VERSION_MAX = 3"
definition NTC_WIRE_HEADER_LEN :: nat where "NTC_WIRE_HEADER_LEN = 16"

definition NTC_MSG_HELLO :: byte where "NTC_MSG_HELLO = 1"
definition NTC_MSG_WELCOME :: byte where "NTC_MSG_WELCOME = 2"
definition NTC_MSG_REQUEST :: byte where "NTC_MSG_REQUEST = 3"
definition NTC_MSG_RESPONSE :: byte where "NTC_MSG_RESPONSE = 4"
definition NTC_MSG_PING :: byte where "NTC_MSG_PING = 5"
definition NTC_MSG_PONG :: byte where "NTC_MSG_PONG = 6"
definition NTC_MSG_RESPONSE_BEGIN :: byte where "NTC_MSG_RESPONSE_BEGIN = 7"
definition NTC_MSG_RESPONSE_CHUNK :: byte where "NTC_MSG_RESPONSE_CHUNK = 8"
definition NTC_MSG_RESPONSE_END :: byte where "NTC_MSG_RESPONSE_END = 9"
definition NTC_MSG_WS_OPEN :: byte where "NTC_MSG_WS_OPEN = 10"
definition NTC_MSG_WS_MSG :: byte where "NTC_MSG_WS_MSG = 11"
definition NTC_MSG_WS_CLOSE :: byte where "NTC_MSG_WS_CLOSE = 12"

definition NTC_STREAM_FLAG_SSE :: byte where "NTC_STREAM_FLAG_SSE = 0x01"
definition NTC_STREAM_FLAG_CHUNKED :: byte where "NTC_STREAM_FLAG_CHUNKED = 0x02"

lemmas msg_type_defs =
  NTC_MSG_HELLO_def NTC_MSG_WELCOME_def NTC_MSG_REQUEST_def NTC_MSG_RESPONSE_def NTC_MSG_PING_def
  NTC_MSG_PONG_def NTC_MSG_RESPONSE_BEGIN_def NTC_MSG_RESPONSE_CHUNK_def NTC_MSG_RESPONSE_END_def
  NTC_MSG_WS_OPEN_def NTC_MSG_WS_MSG_def NTC_MSG_WS_CLOSE_def

record ntc_wire_header =
  wh_version :: byte
  wh_type :: byte
  wh_request_id :: u32
  wh_length :: u32

subsection \<open>Big-endian primitives\<close>

definition put_u16 :: "u16 \<Rightarrow> byte list" where
  "put_u16 v = [ucast (drop_bit 8 v), ucast v]"

definition put_u32 :: "u32 \<Rightarrow> byte list" where
  "put_u32 v = [ucast (drop_bit 24 v), ucast (drop_bit 16 v), ucast (drop_bit 8 v), ucast v]"

definition get_u16 :: "byte list \<Rightarrow> u16" where
  "get_u16 p = push_bit 8 (ucast (p ! 0)) OR ucast (p ! 1)"

definition get_u32 :: "byte list \<Rightarrow> u32" where
  "get_u32 p = push_bit 24 (ucast (p ! 0)) OR push_bit 16 (ucast (p ! 1)) OR
               push_bit 8 (ucast (p ! 2)) OR ucast (p ! 3)"

subsection \<open>Bounded writer\<close>

record wbuf =
  w_p :: "byte list"
  w_cap :: nat
  w_err :: bool

definition wbuf_new :: "nat \<Rightarrow> wbuf" where
  "wbuf_new cap = \<lparr>w_p = [], w_cap = cap, w_err = False\<rparr>"

definition w_need :: "wbuf \<Rightarrow> nat \<Rightarrow> wbuf" where
  "w_need w n = (if length (w_p w) + n > w_cap w then w\<lparr>w_err := True\<rparr> else w)"

definition w_u8 :: "wbuf \<Rightarrow> byte \<Rightarrow> wbuf" where
  "w_u8 w v = (let w1 = w_need w 1 in if \<not> w_err w1 then w1\<lparr>w_p := w_p w1 @ [v]\<rparr> else w1)"

definition w_u16 :: "wbuf \<Rightarrow> u16 \<Rightarrow> wbuf" where
  "w_u16 w v = (let w1 = w_need w 2 in if \<not> w_err w1 then w1\<lparr>w_p := w_p w1 @ put_u16 v\<rparr> else w1)"

definition w_u32 :: "wbuf \<Rightarrow> u32 \<Rightarrow> wbuf" where
  "w_u32 w v = (let w1 = w_need w 4 in if \<not> w_err w1 then w1\<lparr>w_p := w_p w1 @ put_u32 v\<rparr> else w1)"

definition w_bytes :: "wbuf \<Rightarrow> string \<Rightarrow> wbuf" where
  "w_bytes w s =
     (let w1 = w_need w (length s)
      in if \<not> w_err w1 \<and> length s \<noteq> 0 then w1\<lparr>w_p := w_p w1 @ bytes_of s\<rparr> else w1)"

definition w_slice16 :: "wbuf \<Rightarrow> ntc_slice \<Rightarrow> wbuf" where
  "w_slice16 w s =
     (if length s > 0xFFFF then w\<lparr>w_err := True\<rparr>
      else w_bytes (w_u16 w (of_nat (length s))) s)"

text \<open>\<open>return w.err ? -1 : w.off\<close>, with the bytes in place of their number.\<close>

definition w_result :: "wbuf \<Rightarrow> byte list option" where
  "w_result w = (if w_err w then None else Some (w_p w))"

subsection \<open>Bounded reader\<close>

record rbuf =
  r_p :: "byte list"
  r_off :: nat
  r_err :: bool

definition rbuf_new :: "byte list \<Rightarrow> rbuf" where
  "rbuf_new buf = \<lparr>r_p = buf, r_off = 0, r_err = False\<rparr>"

definition r_u8 :: "rbuf \<Rightarrow> byte \<times> rbuf" where
  "r_u8 r = (if r_off r + 1 > length (r_p r) then (0, r\<lparr>r_err := True\<rparr>)
             else (r_p r ! r_off r, r\<lparr>r_off := r_off r + 1\<rparr>))"

definition r_u16 :: "rbuf \<Rightarrow> u16 \<times> rbuf" where
  "r_u16 r = (if r_off r + 2 > length (r_p r) then (0, r\<lparr>r_err := True\<rparr>)
              else (get_u16 (drop (r_off r) (r_p r)), r\<lparr>r_off := r_off r + 2\<rparr>))"

definition r_u32 :: "rbuf \<Rightarrow> u32 \<times> rbuf" where
  "r_u32 r = (if r_off r + 4 > length (r_p r) then (0, r\<lparr>r_err := True\<rparr>)
              else (get_u32 (drop (r_off r) (r_p r)), r\<lparr>r_off := r_off r + 4\<rparr>))"

definition r_slice16 :: "rbuf \<Rightarrow> ntc_slice \<times> rbuf" where
  "r_slice16 r =
     (let (n, r1) = r_u16 r
      in if r_err r1 \<or> r_off r1 + unat n > length (r_p r1) then ([], r1\<lparr>r_err := True\<rparr>)
         else (chars_of (take (unat n) (drop (r_off r1) (r_p r1))), r1\<lparr>r_off := r_off r1 + unat n\<rparr>))"

definition r_slice32 :: "rbuf \<Rightarrow> ntc_slice \<times> rbuf" where
  "r_slice32 r =
     (let (n, r1) = r_u32 r
      in if r_err r1 \<or> r_off r1 + unat n > length (r_p r1) then ([], r1\<lparr>r_err := True\<rparr>)
         else (chars_of (take (unat n) (drop (r_off r1) (r_p r1))), r1\<lparr>r_off := r_off r1 + unat n\<rparr>))"

subsection \<open>Framing\<close>

definition ntc_wire_write_header :: "byte \<Rightarrow> u32 \<Rightarrow> u32 \<Rightarrow> byte list" where
  "ntc_wire_write_header ty request_id payload_len =
     put_u32 NTC_WIRE_MAGIC @ [NTC_WIRE_VERSION, ty, 0, 0] @ put_u32 request_id @ put_u32 payload_len"

definition version_ok :: "byte \<Rightarrow> bool" where
  "version_ok v \<longleftrightarrow> NTC_WIRE_VERSION \<le> v \<and> v \<le> NTC_WIRE_VERSION_MAX"

definition ntc_wire_parse_header :: "byte list \<Rightarrow> ntc_wire_header option" where
  "ntc_wire_parse_header buf =
     (if get_u32 buf \<noteq> NTC_WIRE_MAGIC then None
      else if \<not> version_ok (buf ! 4) then None
      else Some \<lparr>wh_version = buf ! 4, wh_type = buf ! 5,
                 wh_request_id = get_u32 (drop 8 buf), wh_length = get_u32 (drop 12 buf)\<rparr>)"

text \<open>The three outcomes of reading a frame from a buffer: 0, -1 and 1 with the outputs.\<close>

datatype 'm frame_result = Need_more | Malformed | Frame 'm nat

definition ntc_wire_read_frame :: "byte list \<Rightarrow> (ntc_wire_header \<times> byte list) frame_result" where
  "ntc_wire_read_frame buf =
     (if length buf < NTC_WIRE_HEADER_LEN then Need_more
      else if get_u32 buf \<noteq> NTC_WIRE_MAGIC then Malformed
      else if \<not> version_ok (buf ! 4) then Malformed
      else let plen = get_u32 (drop 12 buf)
           in if length buf < NTC_WIRE_HEADER_LEN + unat plen then Need_more
              else Frame (\<lparr>wh_version = buf ! 4, wh_type = buf ! 5,
                           wh_request_id = get_u32 (drop 8 buf), wh_length = plen\<rparr>,
                          take (unat plen) (drop NTC_WIRE_HEADER_LEN buf))
                     (NTC_WIRE_HEADER_LEN + unat plen))"

subsection \<open>Payloads\<close>

definition w_header :: "wbuf \<Rightarrow> ntc_header \<Rightarrow> wbuf" where
  "w_header w h = w_slice16 (w_slice16 w (hdr_name h)) (hdr_value h)"

definition r_header :: "rbuf \<Rightarrow> ntc_header \<times> rbuf" where
  "r_header r = (let (n, r1) = r_slice16 r; (v, r2) = r_slice16 r1
                 in (\<lparr>hdr_name = n, hdr_value = v\<rparr>, r2))"

fun rd_many :: "(rbuf \<Rightarrow> 'a \<times> rbuf) \<Rightarrow> nat \<Rightarrow> rbuf \<Rightarrow> 'a list \<times> rbuf" where
  "rd_many rd 0 r = ([], r)"
| "rd_many rd (Suc n) r = (let (x, r1) = rd r; (xs, r2) = rd_many rd n r1 in (x # xs, r2))"

definition ntc_wire_encode_request :: "ntc_request \<Rightarrow> nat \<Rightarrow> byte list option" where
  "ntc_wire_encode_request req cap =
     (let w = wbuf_new cap;
          w = w_slice16 w (rq_method req);
          w = w_slice16 w (rq_path req);
          w = w_slice16 w (rq_query req);
          nh = (if length (rq_headers req) > NTC_MAX_HEADERS then NTC_MAX_HEADERS else length (rq_headers req));
          w = w_u16 w (of_nat nh);
          w = foldl w_header w (take nh (rq_headers req));
          np = (if length (rq_params req) > NTC_MAX_PARAMS then NTC_MAX_PARAMS else length (rq_params req));
          w = w_u16 w (of_nat np);
          w = foldl w_header w (take np (rq_params req));
          w = w_slice16 w (rq_auth_sub req);
          w = w_slice16 w (rq_auth_scope req);
          w = w_u32 w (of_nat (length (rq_body req)));
          w = w_bytes w (rq_body req)
      in w_result w)"

definition ntc_wire_decode_request :: "byte list \<Rightarrow> ntc_request option" where
  "ntc_wire_decode_request buf =
     (let r = rbuf_new buf;
          (meth, r) = r_slice16 r;
          (path, r) = r_slice16 r;
          (query, r) = r_slice16 r;
          (nh, r) = r_u16 r
      in if unat nh > NTC_MAX_HEADERS then None
         else
           let (hs, r) = rd_many r_header (unat nh) r;
               (np, r) = r_u16 r
           in if unat np > NTC_MAX_PARAMS then None
              else
                let (ps, r) = rd_many r_header (unat np) r;
                    (asub, r) = r_slice16 r;
                    (ascope, r) = r_slice16 r;
                    (body, r) = r_slice32 r
                in if r_err r then None
                   else Some \<lparr>rq_method = meth, rq_target = path, rq_path = path, rq_query = query,
                     rq_minor_version = 1, rq_headers = hs, rq_params = ps, rq_auth_sub = asub,
                     rq_auth_scope = ascope, rq_has_content_length = (length body > 0),
                     rq_content_length = of_nat (length body), rq_body = body\<rparr>)"

definition ntc_wire_encode_response :: "int \<Rightarrow> ntc_slice \<Rightarrow> ntc_slice \<Rightarrow> nat \<Rightarrow> byte list option" where
  "ntc_wire_encode_response status ctype body cap =
     (let w = wbuf_new cap;
          w = w_u16 w (of_int status);
          w = w_slice16 w ctype;
          w = w_u32 w (of_nat (length body));
          w = w_bytes w body
      in w_result w)"

definition ntc_wire_decode_response :: "byte list \<Rightarrow> (int \<times> ntc_slice \<times> ntc_slice) option" where
  "ntc_wire_decode_response buf =
     (let r = rbuf_new buf;
          (status, r) = r_u16 r;
          (ctype, r) = r_slice16 r;
          (body, r) = r_slice32 r
      in if r_err r then None else Some (uint status, ctype, body))"

definition ntc_wire_encode_response_ex ::
  "int \<Rightarrow> ntc_slice \<Rightarrow> ntc_slice \<Rightarrow> ntc_slice \<Rightarrow> nat \<Rightarrow> byte list option" where
  "ntc_wire_encode_response_ex status ctype body headers cap =
     (let w = wbuf_new cap;
          w = w_u16 w (of_int status);
          w = w_slice16 w ctype;
          w = w_u32 w (of_nat (length body));
          w = w_bytes w body;
          w = w_slice16 w headers
      in w_result w)"

definition ntc_wire_decode_response_ex ::
  "byte list \<Rightarrow> (int \<times> ntc_slice \<times> ntc_slice \<times> ntc_slice) option" where
  "ntc_wire_decode_response_ex buf =
     (let r = rbuf_new buf;
          (status, r) = r_u16 r;
          (ctype, r) = r_slice16 r;
          (body, r) = r_slice32 r;
          (headers, r) = (if r_off r < length (r_p r) then r_slice16 r else ([], r))
      in if r_err r then None else Some (uint status, ctype, body, headers))"

definition ntc_wire_encode_response_begin :: "int \<Rightarrow> byte \<Rightarrow> ntc_slice \<Rightarrow> nat \<Rightarrow> byte list option" where
  "ntc_wire_encode_response_begin status flags ctype cap =
     (let w = wbuf_new cap;
          w = w_u16 w (of_int status);
          w = w_u8 w flags;
          w = w_slice16 w ctype
      in w_result w)"

definition ntc_wire_decode_response_begin :: "byte list \<Rightarrow> (int \<times> byte \<times> ntc_slice) option" where
  "ntc_wire_decode_response_begin buf =
     (let r = rbuf_new buf;
          (status, r) = r_u16 r;
          (flags, r) = r_u8 r;
          (ctype, r) = r_slice16 r
      in if r_err r then None else Some (uint status, flags, ctype))"

definition ntc_wire_encode_chunk :: "ntc_slice \<Rightarrow> nat \<Rightarrow> byte list option" where
  "ntc_wire_encode_chunk data cap =
     w_result (w_bytes (w_u32 (wbuf_new cap) (of_nat (length data))) data)"

definition ntc_wire_decode_chunk :: "byte list \<Rightarrow> ntc_slice option" where
  "ntc_wire_decode_chunk buf =
     (let (data, r) = r_slice32 (rbuf_new buf) in if r_err r then None else Some data)"

definition ntc_wire_encode_ws_msg :: "byte \<Rightarrow> ntc_slice \<Rightarrow> nat \<Rightarrow> byte list option" where
  "ntc_wire_encode_ws_msg opcode data cap =
     w_result (w_bytes (w_u32 (w_u8 (wbuf_new cap) opcode) (of_nat (length data))) data)"

definition ntc_wire_decode_ws_msg :: "byte list \<Rightarrow> (byte \<times> ntc_slice) option" where
  "ntc_wire_decode_ws_msg buf =
     (let (opcode, r) = r_u8 (rbuf_new buf); (data, r) = r_slice32 r
      in if r_err r then None else Some (opcode, data))"

definition ntc_wire_encode_ws_close :: "u16 \<Rightarrow> nat \<Rightarrow> byte list option" where
  "ntc_wire_encode_ws_close code cap = w_result (w_u16 (wbuf_new cap) code)"

definition ntc_wire_decode_ws_close :: "byte list \<Rightarrow> u16 option" where
  "ntc_wire_decode_ws_close buf =
     (let (code, r) = r_u16 (rbuf_new buf) in if r_err r then None else Some code)"


subsection \<open>The laws of a codec\<close>

text \<open>The effect of a write on the outcome, and a reader in the middle of its input.\<close>

definition w_put :: "nat \<Rightarrow> byte list \<Rightarrow> byte list option \<Rightarrow> byte list option" where
  "w_put cap e r = Option.bind r (\<lambda>p. if length p + length e \<le> cap then Some (p @ e) else None)"

definition r_from :: "byte list \<Rightarrow> byte list \<Rightarrow> rbuf" where
  "r_from p bs = \<lparr>r_p = p @ bs, r_off = length p, r_err = False\<rparr>"

definition enc_u8 :: "byte \<Rightarrow> byte list" where "enc_u8 b = [b]"
definition enc16 :: "ntc_slice \<Rightarrow> byte list" where "enc16 s = put_u16 (of_nat (length s)) @ bytes_of s"
definition enc32 :: "ntc_slice \<Rightarrow> byte list" where "enc32 s = put_u32 (of_nat (length s)) @ bytes_of s"
definition enc_header :: "ntc_header \<Rightarrow> byte list" where
  "enc_header h = enc16 (hdr_name h) @ enc16 (hdr_value h)"
definition ok16 :: "ntc_slice \<Rightarrow> bool" where "ok16 s \<longleftrightarrow> length s \<le> 0xFFFF"
definition ok32 :: "ntc_slice \<Rightarrow> bool" where "ok32 s \<longleftrightarrow> length s < 2 ^ 32"
definition ok_header :: "ntc_header \<Rightarrow> bool" where
  "ok_header h \<longleftrightarrow> ok16 (hdr_name h) \<and> ok16 (hdr_value h)"
definition w_body :: "wbuf \<Rightarrow> ntc_slice \<Rightarrow> wbuf" where
  "w_body w s = w_bytes (w_u32 w (of_nat (length s))) s"

lemma w_put_None [simp]: "w_put cap e None = None"
  by (simp add: w_put_def)

lemma w_put_w_put [simp]:
  "w_put cap b (w_put cap a r) = w_put cap (a @ b) r"
  by (cases r) (auto simp: w_put_def)

lemma w_put_start: "w_put cap e (Some []) = (if length e \<le> cap then Some e else None)"
  by (simp add: w_put_def)

lemma w_result_new [simp]: "w_result (wbuf_new cap) = Some []" "w_cap (wbuf_new cap) = cap"
  by (simp_all add: w_result_def wbuf_new_def)

lemma w_result_None: "w_result w = None \<longleftrightarrow> w_err w"
  by (simp add: w_result_def)

lemma rbuf_new_from: "rbuf_new bs = r_from [] bs"
  by (simp add: rbuf_new_def r_from_def)

lemma r_err_from [simp]: "\<not> r_err (r_from p bs)"
  by (simp add: r_from_def)

locale wire_codec =
  fixes wr :: "wbuf \<Rightarrow> 'a \<Rightarrow> wbuf" and rd :: "rbuf \<Rightarrow> 'a \<times> rbuf"
    and enc :: "'a \<Rightarrow> byte list" and ok :: "'a \<Rightarrow> bool"
  assumes wr_cap: "w_cap (wr w x) = w_cap w"
    and wr_result: "ok x \<Longrightarrow> w_result (wr w x) = w_put (w_cap w) (enc x) (w_result w)"
    and wr_err: "w_err w \<Longrightarrow> w_err (wr w x)"
    and rd_enc: "ok x \<Longrightarrow> rd (r_from p (enc x @ bs)) = (x, r_from (p @ enc x) bs)"
    and rd_sound: "rd (r_from p bs) = (x, r') \<Longrightarrow> \<not> r_err r' \<Longrightarrow>
                   ok x \<and> (\<exists>ys. bs = enc x @ ys \<and> r' = r_from (p @ enc x) ys)"
    and rd_err: "r_err r \<Longrightarrow> r_err (snd (rd r))"
begin

lemma foldl_cap: "w_cap (foldl wr w xs) = w_cap w"
  by (induction xs arbitrary: w) (simp_all add: wr_cap)

lemma foldl_err: "w_err w \<Longrightarrow> w_err (foldl wr w xs)"
  by (induction xs arbitrary: w) (simp_all add: wr_err)

lemma foldl_result:
  "list_all ok xs \<Longrightarrow> w_put (w_cap w) [] (w_result w) = w_result w \<Longrightarrow>
   w_result (foldl wr w xs) = w_put (w_cap w) (concat (map enc xs)) (w_result w)"
  by (induction xs arbitrary: w) (simp_all add: wr_cap wr_result)

lemma rd_enc_end: "ok x \<Longrightarrow> rd (r_from p (enc x)) = (x, r_from (p @ enc x) [])"
  using rd_enc [of x p "[]"] by simp

lemma rd_many_enc:
  "list_all ok xs \<Longrightarrow>
   rd_many rd (length xs) (r_from p (concat (map enc xs) @ bs)) = (xs, r_from (p @ concat (map enc xs)) bs)"
  by (induction xs arbitrary: p) (simp_all add: rd_enc)

lemma rd_many_err: "r_err r \<Longrightarrow> r_err (snd (rd_many rd n r))"
  by (induction n arbitrary: r) (auto simp: case_prod_beta rd_err)

lemma rd_many_sound:
  "rd_many rd n (r_from p bs) = (xs, r') \<Longrightarrow> \<not> r_err r' \<Longrightarrow>
   list_all ok xs \<and> length xs = n \<and>
   (\<exists>ys. bs = concat (map enc xs) @ ys \<and> r' = r_from (p @ concat (map enc xs)) ys)"
proof (induction n arbitrary: p bs xs)
  case (Suc n)
  obtain x r1 where 1: "rd (r_from p bs) = (x, r1)" by force
  obtain zs r2 where 2: "rd_many rd n r1 = (zs, r2)" by force
  from Suc.prems 1 2 have r2: "r2 = r'" "xs = x # zs" by simp_all
  with 2 Suc.prems(2) have "\<not> r_err r1" using rd_many_err [of r1 n] by auto
  with rd_sound [OF 1] obtain ys where "ok x" "bs = enc x @ ys" "r1 = r_from (p @ enc x) ys" by blast
  with Suc.IH [of "p @ enc x" ys zs] 2 r2 Suc.prems(2) show ?case by auto
qed simp

end

text \<open>A writer that also refuses what it cannot represent.\<close>

locale wire_codec_strict = wire_codec +
  assumes wr_strict: "\<not> ok x \<Longrightarrow> w_err (wr w x)"
begin

lemma wr_result_Some:
  "w_result (wr w x) = Some bs \<longleftrightarrow> ok x \<and> w_put (w_cap w) (enc x) (w_result w) = Some bs"
  using wr_strict wr_result by (cases "ok x") (auto simp: w_result_None [symmetric])

lemma foldl_strict: "\<not> list_all ok xs \<Longrightarrow> w_err (foldl wr w xs)"
  by (induction xs arbitrary: w) (auto simp: wr_strict foldl_err)

end

subsection \<open>The primitive codecs satisfy the laws\<close>

lemma length_put [simp]: "length (put_u16 v) = 2" "length (put_u32 w) = 4"
  by (simp_all add: put_u16_def put_u32_def)

lemma get_put_u16 [simp]: "get_u16 (put_u16 v @ bs) = v"
  by (rule bit_word_eqI) (auto simp: get_u16_def put_u16_def bit_simps)

lemma get_put_u32 [simp]: "get_u32 (put_u32 v @ bs) = v"
proof (rule bit_word_eqI)
  fix n assume "n < LENGTH(32)"
  then show "bit (get_u32 (put_u32 v @ bs)) n = bit v n"
    by (cases "n < 8"; cases "n < 16"; cases "n < 24") (auto simp: get_u32_def put_u32_def bit_simps)
qed

lemma put_get_u16: "length bs \<ge> 2 \<Longrightarrow> put_u16 (get_u16 bs) = take 2 bs"
proof -
  assume "length bs \<ge> 2"
  then obtain a b cs where bs: "bs = a # b # cs"
    by (metis One_nat_def Suc_1 Suc_le_length_iff)
  have "ucast (drop_bit 8 (get_u16 bs)) = a" "ucast (get_u16 bs) = b"
    unfolding bs by (rule bit_word_eqI; auto simp: get_u16_def bit_simps dest: bit_imp_le_length)+
  then show ?thesis by (simp add: put_u16_def bs numeral_2_eq_2)
qed

lemma put_get_u32: "length bs \<ge> 4 \<Longrightarrow> put_u32 (get_u32 bs) = take 4 bs"
proof -
  assume "length bs \<ge> 4"
  then obtain a b c d cs where bs: "bs = a # b # c # d # cs"
    by (auto simp: Suc_le_length_iff numeral_eq_Suc)
  have "ucast (drop_bit 24 (get_u32 bs)) = a" "ucast (drop_bit 16 (get_u32 bs)) = b"
    "ucast (drop_bit 8 (get_u32 bs)) = c" "ucast (get_u32 bs) = d"
    unfolding bs by (rule bit_word_eqI; auto simp: get_u32_def bit_simps dest: bit_imp_le_length)+
  then show ?thesis by (simp add: put_u32_def bs numeral_eq_Suc)
qed


lemma unat_of_nat_u16: "n \<le> 0xFFFF \<Longrightarrow> unat (of_nat n :: u16) = n"
  by (simp add: unat_of_nat take_bit_eq_mod)

lemma unat_of_nat_u32: "n < 2 ^ 32 \<Longrightarrow> unat (of_nat n :: u32) = n"
  by (simp add: unat_of_nat take_bit_eq_mod)

lemma r_from_split:
  assumes "n \<le> length bs"
  shows "(r_from p bs)\<lparr>r_off := length p + n\<rparr> = r_from (p @ take n bs) (drop n bs)"
  using assms by (simp add: r_from_def)

lemmas w_prim_defs = w_u8_def w_u16_def w_u32_def w_bytes_def w_need_def w_result_def w_put_def Let_def

interpretation c8: wire_codec_strict w_u8 r_u8 enc_u8 "\<lambda>_. True"
proof unfold_locales
  fix p bs x r' assume "r_u8 (r_from p bs) = (x, r')" "\<not> r_err r'"
  then show "True \<and> (\<exists>ys. bs = enc_u8 x @ ys \<and> r' = r_from (p @ enc_u8 x) ys)"
    by (cases bs) (auto simp: r_u8_def r_from_def enc_u8_def split: if_splits)
qed (auto simp: w_prim_defs r_u8_def r_from_def enc_u8_def)

interpretation c16: wire_codec_strict w_u16 r_u16 put_u16 "\<lambda>_. True"
proof unfold_locales
  fix p bs x r' assume *: "r_u16 (r_from p bs) = (x, r')" "\<not> r_err r'"
  then have "2 \<le> length bs" "x = get_u16 bs" "r' = r_from (p @ take 2 bs) (drop 2 bs)"
    using r_from_split [of 2 bs p] by (auto simp: r_u16_def r_from_def split: if_splits)
  then show "True \<and> (\<exists>ys. bs = put_u16 x @ ys \<and> r' = r_from (p @ put_u16 x) ys)"
    by (intro conjI TrueI exI [of _ "drop 2 bs"]) (simp_all add: put_get_u16)
qed (auto simp: w_prim_defs r_u16_def r_from_def)

interpretation c32: wire_codec_strict w_u32 r_u32 put_u32 "\<lambda>_. True"
proof unfold_locales
  fix p bs x r' assume *: "r_u32 (r_from p bs) = (x, r')" "\<not> r_err r'"
  then have "4 \<le> length bs" "x = get_u32 bs" "r' = r_from (p @ take 4 bs) (drop 4 bs)"
    using r_from_split [of 4 bs p] by (auto simp: r_u32_def r_from_def split: if_splits)
  then show "True \<and> (\<exists>ys. bs = put_u32 x @ ys \<and> r' = r_from (p @ put_u32 x) ys)"
    by (intro conjI TrueI exI [of _ "drop 4 bs"]) (simp_all add: put_get_u32)
qed (auto simp: w_prim_defs r_u32_def r_from_def)

lemma w_bytes_result: "w_result (w_bytes w s) = w_put (w_cap w) (bytes_of s) (w_result w)"
  by (auto simp: w_prim_defs)

lemma w_bytes_cap: "w_cap (w_bytes w s) = w_cap w"
  by (auto simp: w_prim_defs)

lemma w_bytes_err: "w_err w \<Longrightarrow> w_err (w_bytes w s)"
  by (auto simp: w_prim_defs)

lemma r_slice16_eq:
  "r_slice16 (r_from p (put_u16 n @ bs)) =
     (if unat n \<le> length bs then (chars_of (take (unat n) bs), r_from (p @ put_u16 n @ take (unat n) bs) (drop (unat n) bs))
      else ([], (r_from (p @ put_u16 n) bs)\<lparr>r_err := True\<rparr>))"
  by (simp add: r_slice16_def c16.rd_enc) (simp add: r_from_def)

lemma r_slice32_eq:
  "r_slice32 (r_from p (put_u32 n @ bs)) =
     (if unat n \<le> length bs then (chars_of (take (unat n) bs), r_from (p @ put_u32 n @ take (unat n) bs) (drop (unat n) bs))
      else ([], (r_from (p @ put_u32 n) bs)\<lparr>r_err := True\<rparr>))"
  by (simp add: r_slice32_def c32.rd_enc) (simp add: r_from_def)

lemma unat_u16_le [simp]: "unat (n :: u16) \<le> 0xFFFF"
  using unsigned_less [of n, where ?'a = nat] by simp

lemma unat_u32_less [simp]: "unat (n :: u32) < 4294967296"
  using unsigned_less [of n, where ?'a = nat] by simp

interpretation s16: wire_codec_strict w_slice16 r_slice16 enc16 ok16
proof unfold_locales
  fix p bs x r' assume *: "r_slice16 (r_from p bs) = (x, r')" "\<not> r_err r'"
  obtain n r1 where n: "r_u16 (r_from p bs) = (n, r1)" by force
  have "\<not> r_err r1" using * n by (auto simp: r_slice16_def split: if_splits)
  with c16.rd_sound [OF n] obtain ys where "bs = put_u16 n @ ys" by blast
  with * show "ok16 x \<and> (\<exists>ys. bs = enc16 x @ ys \<and> r' = r_from (p @ enc16 x) ys)"
    by (intro conjI exI [of _ "drop (unat n) ys"])
      (auto simp: r_slice16_eq enc16_def ok16_def take_map [symmetric] min_absorb2
        intro: order_trans [OF _ unat_u16_le] split: if_splits)
next
  fix x p bs assume "ok16 x"
  then show "r_slice16 (r_from p (enc16 x @ bs)) = (x, r_from (p @ enc16 x) bs)"
    by (simp add: enc16_def r_slice16_eq ok16_def unat_of_nat_u16)
next
  fix r :: rbuf assume "r_err r"
  then show "r_err (snd (r_slice16 r))"
    using c16.rd_err [of r] by (auto simp: r_slice16_def case_prod_beta Let_def)
qed (auto simp: w_slice16_def ok16_def enc16_def w_bytes_result w_bytes_cap w_bytes_err c16.wr_cap c16.wr_result c16.wr_err)

interpretation s32: wire_codec w_body r_slice32 enc32 ok32
proof unfold_locales
  fix p bs x r' assume *: "r_slice32 (r_from p bs) = (x, r')" "\<not> r_err r'"
  obtain n r1 where n: "r_u32 (r_from p bs) = (n, r1)" by force
  have "\<not> r_err r1" using * n by (auto simp: r_slice32_def split: if_splits)
  with c32.rd_sound [OF n] obtain ys where "bs = put_u32 n @ ys" by blast
  with * show "ok32 x \<and> (\<exists>ys. bs = enc32 x @ ys \<and> r' = r_from (p @ enc32 x) ys)"
    by (intro conjI exI [of _ "drop (unat n) ys"])
      (auto simp: r_slice32_eq enc32_def ok32_def take_map [symmetric] min_absorb2
        intro: le_less_trans [OF _ unat_u32_less] split: if_splits)
next
  fix x p bs assume "ok32 x"
  then show "r_slice32 (r_from p (enc32 x @ bs)) = (x, r_from (p @ enc32 x) bs)"
    by (simp add: enc32_def r_slice32_eq ok32_def unat_of_nat_u32)
next
  fix r :: rbuf assume "r_err r"
  then show "r_err (snd (r_slice32 r))"
    using c32.rd_err [of r] by (auto simp: r_slice32_def case_prod_beta Let_def)
qed (auto simp: w_body_def ok32_def enc32_def w_bytes_result w_bytes_cap w_bytes_err c32.wr_cap c32.wr_result c32.wr_err)

interpretation chdr: wire_codec_strict w_header r_header enc_header ok_header
proof unfold_locales
  fix p bs x r' assume *: "r_header (r_from p bs) = (x, r')" "\<not> r_err r'"
  obtain n r1 where 1: "r_slice16 (r_from p bs) = (n, r1)" by force
  obtain v r2 where 2: "r_slice16 r1 = (v, r2)" by force
  have r2: "r2 = r'" and x: "x = \<lparr>hdr_name = n, hdr_value = v\<rparr>"
    using * 1 2 by (auto simp: r_header_def)
  have "\<not> r_err r1" using s16.rd_err [of r1] 2 r2 * by auto
  with s16.rd_sound [OF 1] obtain ys where "ok16 n" "bs = enc16 n @ ys" and r1: "r1 = r_from (p @ enc16 n) ys" by blast
  moreover from s16.rd_sound [OF 2 [unfolded r1]] r2 *(2)
  obtain zs where "ok16 v" "ys = enc16 v @ zs" "r' = r_from ((p @ enc16 n) @ enc16 v) zs" by blast
  ultimately show "ok_header x \<and> (\<exists>ys. bs = enc_header x @ ys \<and> r' = r_from (p @ enc_header x) ys)"
    by (auto simp: x ok_header_def enc_header_def)
next
  fix r :: rbuf assume "r_err r"
  then show "r_err (snd (r_header r))"
    using s16.rd_err by (auto simp: r_header_def case_prod_beta Let_def)
qed (auto simp: w_header_def r_header_def ok_header_def enc_header_def s16.wr_cap s16.wr_result s16.wr_err s16.rd_enc
   s16.wr_strict)


subsection \<open>Request payloads\<close>

definition enc_request :: "ntc_request \<Rightarrow> byte list" where
  "enc_request req =
     enc16 (rq_method req) @ enc16 (rq_path req) @ enc16 (rq_query req) @
     put_u16 (of_nat (length (rq_headers req))) @ concat (map enc_header (rq_headers req)) @
     put_u16 (of_nat (length (rq_params req))) @ concat (map enc_header (rq_params req)) @
     enc16 (rq_auth_sub req) @ enc16 (rq_auth_scope req) @ enc32 (rq_body req)"

text \<open>What of a request travels to the controller.\<close>

definition wire_view :: "ntc_request \<Rightarrow> ntc_request" where
  "wire_view req = req\<lparr>rq_target := rq_path req, rq_minor_version := 1,
     rq_headers := take NTC_MAX_HEADERS (rq_headers req), rq_params := take NTC_MAX_PARAMS (rq_params req),
     rq_has_content_length := rq_body req \<noteq> [], rq_content_length := of_nat (length (rq_body req))\<rparr>"

definition wire_request_ok :: "ntc_request \<Rightarrow> bool" where
  "wire_request_ok req \<longleftrightarrow> ok16 (rq_method req) \<and> ok16 (rq_path req) \<and> ok16 (rq_query req) \<and>
     list_all ok_header (rq_headers req) \<and> list_all ok_header (rq_params req) \<and>
     ok16 (rq_auth_sub req) \<and> ok16 (rq_auth_scope req)"

lemmas w_caps = c8.wr_cap c16.wr_cap c32.wr_cap s16.wr_cap s32.wr_cap chdr.wr_cap chdr.foldl_cap w_bytes_cap
lemmas w_results = c8.wr_result [OF TrueI] c16.wr_result [OF TrueI] c32.wr_result [OF TrueI]
  s16.wr_result s32.wr_result chdr.wr_result chdr.foldl_result w_bytes_result
lemmas w_errs = c8.wr_err c16.wr_err c32.wr_err s16.wr_err s32.wr_err chdr.wr_err chdr.foldl_err w_bytes_err
  s16.wr_strict chdr.wr_strict chdr.foldl_strict
lemmas r_encs = c8.rd_enc [OF TrueI] c16.rd_enc [OF TrueI] c32.rd_enc [OF TrueI] s16.rd_enc s32.rd_enc chdr.rd_enc
  chdr.rd_many_enc c8.rd_enc_end [OF TrueI] c16.rd_enc_end [OF TrueI] s16.rd_enc_end s32.rd_enc_end
lemmas r_errs = c8.rd_err c16.rd_err c32.rd_err s16.rd_err s32.rd_err chdr.rd_err chdr.rd_many_err

lemma w_put_Nil [simp]: "w_put cap [] (Some []) = Some []"
  by (simp add: w_put_def)

lemma encode_request_eq:
  assumes "ok32 (rq_body req)"
  shows "ntc_wire_encode_request req cap =
     (if wire_request_ok (wire_view req) \<and> length (enc_request (wire_view req)) \<le> cap
      then Some (enc_request (wire_view req)) else None)"
proof -
  have min: "(if k > n then n else k) = min n k" for n k :: nat by auto
  have t: "take (min n (length xs)) xs = take n xs" for n and xs :: "'b list" by (simp add: min_def)
  show ?thesis
  proof (cases "wire_request_ok (wire_view req)")
    case True
    then have "ntc_wire_encode_request req cap = w_put cap (enc_request (wire_view req)) (Some [])"
      using assms unfolding ntc_wire_encode_request_def Let_def w_body_def [symmetric] min t
      by (simp add: wire_request_ok_def wire_view_def w_results w_caps enc_request_def min.commute)
    with True show ?thesis by (simp add: w_put_start)
  next
    case False
    then have "ntc_wire_encode_request req cap = None"
      unfolding ntc_wire_encode_request_def Let_def w_body_def [symmetric] min t
      by (auto simp: wire_request_ok_def wire_view_def w_result_None w_errs)
    with False show ?thesis by simp
  qed
qed

lemma unat_small_count: "n \<le> 64 \<Longrightarrow> unat (of_nat n :: u16) = n"
  by (simp add: unat_of_nat_u16)

lemma decode_request_enc:
  assumes "wire_request_ok req" "ok32 (rq_body req)" "length (rq_headers req) \<le> NTC_MAX_HEADERS"
    "length (rq_params req) \<le> NTC_MAX_PARAMS"
  shows "ntc_wire_decode_request (enc_request req @ rest) = Some (wire_view req)"
  using assms
  by (simp add: ntc_wire_decode_request_def rbuf_new_from enc_request_def wire_request_ok_def r_encs
      unat_small_count NTC_MAX_HEADERS_def NTC_MAX_PARAMS_def wire_view_def Let_def)

text \<open>One step of a decoder that ended without an error: the item read heads the input.\<close>

lemma rd_step16:
  assumes "r_slice16 (r_from p bs) = (x, r1)" "\<not> r_err r1"
  obtains ys where "ok16 x" "bs = enc16 x @ ys" "r1 = r_from (p @ enc16 x) ys"
  using s16.rd_sound [OF assms] by blast

lemma rd_stepn:
  assumes "r_u16 (r_from p bs) = (n, r1)" "rd_many r_header (unat n) r1 = (xs, r2)" "\<not> r_err r2"
  obtains ys where "list_all ok_header xs" "length xs = unat n"
    "bs = put_u16 (of_nat (length xs)) @ concat (map enc_header xs) @ ys"
    "r2 = r_from (p @ put_u16 (of_nat (length xs)) @ concat (map enc_header xs)) ys"
proof -
  have "\<not> r_err r1" using chdr.rd_many_err [of r1 "unat n"] assms(2,3) by auto
  with c16.rd_sound [OF assms(1)] obtain ys where ys: "bs = put_u16 n @ ys" "r1 = r_from (p @ put_u16 n) ys" by blast
  from chdr.rd_many_sound [OF assms(2) [unfolded ys(2)] assms(3)] ys that show ?thesis by auto
qed

lemma decode_request_sound:
  assumes "ntc_wire_decode_request bs = Some req"
  shows "wire_request_ok req \<and> ok32 (rq_body req) \<and> length (rq_headers req) \<le> NTC_MAX_HEADERS \<and>
     length (rq_params req) \<le> NTC_MAX_PARAMS \<and> wire_view req = req \<and> (\<exists>rest. bs = enc_request req @ rest)"
proof -
  obtain m r1 where 1: "r_slice16 (r_from [] bs) = (m, r1)" by force
  obtain pa r2 where 2: "r_slice16 r1 = (pa, r2)" by force
  obtain q r3 where 3: "r_slice16 r2 = (q, r3)" by force
  obtain nh r4 where 4: "r_u16 r3 = (nh, r4)" by force
  obtain hs r5 where 5: "rd_many r_header (unat nh) r4 = (hs, r5)" by force
  obtain np r6 where 6: "r_u16 r5 = (np, r6)" by force
  obtain ps r7 where 7: "rd_many r_header (unat np) r6 = (ps, r7)" by force
  obtain su r8 where 8: "r_slice16 r7 = (su, r8)" by force
  obtain sc r9 where 9: "r_slice16 r8 = (sc, r9)" by force
  obtain b r10 where 10: "r_slice32 r9 = (b, r10)" by force
  note steps = 1 2 3 4 5 6 7 8 9 10
  from assms have bnd: "unat nh \<le> NTC_MAX_HEADERS" "unat np \<le> NTC_MAX_PARAMS" and e10: "\<not> r_err r10"
    and req: "req = \<lparr>rq_method = m, rq_target = pa, rq_path = pa, rq_query = q,
                     rq_minor_version = 1, rq_headers = hs, rq_params = ps, rq_auth_sub = su,
                     rq_auth_scope = sc, rq_has_content_length = (length b > 0),
                     rq_content_length = of_nat (length b), rq_body = b\<rparr>"
    by (auto simp: ntc_wire_decode_request_def rbuf_new_from steps Let_def split: if_splits)
  have e9: "\<not> r_err r9" using e10 10 s32.rd_err [of r9] by auto
  have e8: "\<not> r_err r8" using e9 9 s16.rd_err [of r8] by auto
  have e7: "\<not> r_err r7" using e8 8 s16.rd_err [of r7] by auto
  have e5: "\<not> r_err r5" using e7 6 7 c16.rd_err [of r5] chdr.rd_many_err [of r6 "unat np"] by auto
  have e3: "\<not> r_err r3" using e5 4 5 c16.rd_err [of r3] chdr.rd_many_err [of r4 "unat nh"] by auto
  have e2: "\<not> r_err r2" using e3 3 s16.rd_err [of r2] by auto
  have e1: "\<not> r_err r1" using e2 2 s16.rd_err [of r1] by auto
  from rd_step16 [OF 1 e1] obtain y1 where y1: "ok16 m" "bs = enc16 m @ y1" "r1 = r_from ([] @ enc16 m) y1" .
  from rd_step16 [OF 2 [unfolded y1] e2] obtain y2 p2 where y2: "ok16 pa" "y1 = enc16 pa @ y2" "r2 = r_from p2 y2" by blast
  from rd_step16 [OF 3 [unfolded y2] e3] obtain y3 p3 where y3: "ok16 q" "y2 = enc16 q @ y3" "r3 = r_from p3 y3" by blast
  from rd_stepn [OF 4 [unfolded y3] 5 e5] obtain y5 p5 where y5: "list_all ok_header hs" "length hs = unat nh"
    "y3 = put_u16 (of_nat (length hs)) @ concat (map enc_header hs) @ y5" "r5 = r_from p5 y5" by blast
  from rd_stepn [OF 6 [unfolded y5(4)] 7 e7] obtain y7 p7 where y7: "list_all ok_header ps" "length ps = unat np"
    "y5 = put_u16 (of_nat (length ps)) @ concat (map enc_header ps) @ y7" "r7 = r_from p7 y7" by blast
  from rd_step16 [OF 8 [unfolded y7(4)] e8] obtain y8 p8 where y8: "ok16 su" "y7 = enc16 su @ y8" "r8 = r_from p8 y8" by blast
  from rd_step16 [OF 9 [unfolded y8] e9] obtain y9 p9 where y9: "ok16 sc" "y8 = enc16 sc @ y9" "r9 = r_from p9 y9" by blast
  from s32.rd_sound [OF 10 [unfolded y9] e10] obtain y10 where y10: "ok32 b" "y9 = enc32 b @ y10" by blast
  show ?thesis
    using bnd y1 y2 y3 y5 y7 y8 y9 y10
    by (simp add: req wire_request_ok_def wire_view_def enc_request_def)
qed


subsection \<open>Response, stream and WebSocket payloads\<close>

lemma encode_response_eq:
  assumes "ok32 body"
  shows "ntc_wire_encode_response status ctype body cap =
    (let e = put_u16 (of_int status) @ enc16 ctype @ enc32 body
     in if ok16 ctype \<and> length e \<le> cap then Some e else None)"
proof (cases "ok16 ctype")
  case True
  then have "ntc_wire_encode_response status ctype body cap =
      w_put cap (put_u16 (of_int status) @ enc16 ctype @ enc32 body) (Some [])"
    using assms unfolding ntc_wire_encode_response_def Let_def w_body_def [symmetric]
    by (simp add: w_results w_caps)
  with True show ?thesis by (simp add: w_put_start Let_def)
next
  case False
  then show ?thesis unfolding ntc_wire_encode_response_def Let_def w_body_def [symmetric]
    by (simp add: w_result_None w_errs)
qed

lemma encode_response_ex_eq:
  assumes "ok32 body"
  shows "ntc_wire_encode_response_ex status ctype body headers cap =
    (let e = put_u16 (of_int status) @ enc16 ctype @ enc32 body @ enc16 headers
     in if ok16 ctype \<and> ok16 headers \<and> length e \<le> cap then Some e else None)"
proof (cases "ok16 ctype \<and> ok16 headers")
  case True
  then have "ntc_wire_encode_response_ex status ctype body headers cap =
      w_put cap (put_u16 (of_int status) @ enc16 ctype @ enc32 body @ enc16 headers) (Some [])"
    using assms unfolding ntc_wire_encode_response_ex_def Let_def w_body_def [symmetric]
    by (simp add: w_results w_caps)
  with True show ?thesis by (simp add: w_put_start Let_def)
next
  case False
  then show ?thesis unfolding ntc_wire_encode_response_ex_def Let_def w_body_def [symmetric]
    by (auto simp: w_result_None w_errs)
qed

lemma encode_response_begin_eq:
  "ntc_wire_encode_response_begin status flags ctype cap =
    (let e = put_u16 (of_int status) @ [flags] @ enc16 ctype
     in if ok16 ctype \<and> length e \<le> cap then Some e else None)"
proof (cases "ok16 ctype")
  case True
  then have "ntc_wire_encode_response_begin status flags ctype cap =
      w_put cap (put_u16 (of_int status) @ enc_u8 flags @ enc16 ctype) (Some [])"
    unfolding ntc_wire_encode_response_begin_def Let_def by (simp add: w_results w_caps)
  with True show ?thesis by (simp add: w_put_start Let_def enc_u8_def)
next
  case False
  then show ?thesis unfolding ntc_wire_encode_response_begin_def Let_def
    by (simp add: w_result_None w_errs)
qed

lemma encode_chunk_eq:
  "ok32 d \<Longrightarrow> ntc_wire_encode_chunk d cap = (if length (enc32 d) \<le> cap then Some (enc32 d) else None)"
  unfolding ntc_wire_encode_chunk_def w_body_def [symmetric] by (simp add: w_results w_put_start)

lemma encode_ws_msg_eq:
  "ok32 d \<Longrightarrow> ntc_wire_encode_ws_msg oc d cap =
     (if length (oc # enc32 d) \<le> cap then Some (oc # enc32 d) else None)"
  unfolding ntc_wire_encode_ws_msg_def w_body_def [symmetric]
  by (simp add: w_results w_caps enc_u8_def) (simp add: w_put_start del: w_put_w_put)

lemma encode_ws_close_eq:
  "ntc_wire_encode_ws_close c cap = (if 2 \<le> cap then Some (put_u16 c) else None)"
  unfolding ntc_wire_encode_ws_close_def by (simp add: w_results w_put_start)

lemma uint_status: "0 \<le> status \<Longrightarrow> status < 65536 \<Longrightarrow> uint (of_int status :: u16) = status"
  by (simp add: uint_word_of_int)

subsection \<open>Frames in a byte stream\<close>

text \<open>
  The loop both readers of a socket run over their buffer: decode complete frames from
  the front until bytes are missing or the peer is malformed. The result holds the
  messages, the unread rest and whether the stream broke.
\<close>

function drain :: "(byte list \<Rightarrow> 'm frame_result) \<Rightarrow> byte list \<Rightarrow> 'm list \<times> byte list \<times> bool" where
  "drain dec bs =
     (case dec bs of
        Need_more \<Rightarrow> ([], bs, False)
      | Malformed \<Rightarrow> ([], bs, True)
      | Frame m n \<Rightarrow>
          if 0 < n \<and> n \<le> length bs
          then let (ms, rest, bad) = drain dec (drop n bs) in (m # ms, rest, bad)
          else ([], bs, True))"
  by pat_completeness auto
termination by (relation "measure (length \<circ> snd)") auto

declare drain.simps [simp del, loop_simps]

text \<open>The same loop across successive reads: what is left is kept in the buffer.\<close>

fun feed :: "(byte list \<Rightarrow> 'm frame_result) \<Rightarrow> byte list \<Rightarrow> byte list list \<Rightarrow> 'm list \<times> byte list \<times> bool" where
  "feed dec buf [] = ([], buf, False)"
| "feed dec buf (chunk # chunks) =
     (let (ms, rest, bad) = drain dec (buf @ chunk)
      in if bad then (ms, rest, True)
         else let (ms', rest', bad') = feed dec rest chunks in (ms @ ms', rest', bad'))"

locale frame_stream =
  fixes dec :: "byte list \<Rightarrow> 'm frame_result"
  assumes dec_bound: "dec bs = Frame m n \<Longrightarrow> 0 < n \<and> n \<le> length bs"
    and dec_frame_mono: "dec bs = Frame m n \<Longrightarrow> dec (bs @ ys) = Frame m n"
    and dec_bad_mono: "dec bs = Malformed \<Longrightarrow> dec (bs @ ys) = Malformed"
begin

lemma drain_Frame:
  "dec bs = Frame m n \<Longrightarrow>
   drain dec bs = (let (ms, rest, bad) = drain dec (drop n bs) in (m # ms, rest, bad))"
  using dec_bound [of bs m n] by (simp add: drain.simps [of dec bs])

lemma drain_append:
  "drain dec (bs @ ys) =
     (let (ms, rest, bad) = drain dec bs
      in if bad then (ms, rest @ ys, True)
         else let (ms', rest', bad') = drain dec (rest @ ys) in (ms @ ms', rest', bad'))"
proof (induction "length bs" arbitrary: bs rule: less_induct)
  case less
  show ?case
  proof (cases "dec bs")
    case Need_more
    then show ?thesis by (simp add: drain.simps [of dec bs] case_prod_beta)
  next
    case Malformed
    then show ?thesis by (simp add: drain.simps [of dec bs] drain.simps [of dec "bs @ ys"] dec_bad_mono)
  next
    case (Frame m n)
    then have "0 < n" "n \<le> length bs" using dec_bound by auto
    then have "drop n (bs @ ys) = drop n bs @ ys" "length (drop n bs) < length bs" by auto
    with less [of "drop n bs"] Frame show ?thesis
      by (simp add: drain_Frame [OF Frame] drain_Frame [OF dec_frame_mono [OF Frame]] case_prod_beta Let_def)
  qed
qed

lemma drain_frames:
  assumes "list_all2 (\<lambda>m bs. dec bs = Frame m (length bs)) ms bss" "dec tail = Need_more"
  shows "drain dec (concat bss @ tail) = (ms, tail, False)"
  using assms(1)
proof (induction ms bss rule: list_all2_induct)
  case Nil
  with assms(2) show ?case by (simp add: drain.simps [of dec tail])
next
  case (Cons m ms bs bss)
  then have "dec (bs @ concat bss @ tail) = Frame m (length bs)" by (simp add: dec_frame_mono)
  from drain_Frame [OF this] Cons show ?case by simp
qed

lemma drain_idle: "drain dec bs = (ms, rest, False) \<Longrightarrow> drain dec rest = ([], rest, False)"
proof (induction "length bs" arbitrary: bs ms rule: less_induct)
  case less
  show ?case
  proof (cases "dec bs")
    case (Frame m n)
    obtain ms' where "drain dec (drop n bs) = (ms', rest, False)"
      using less(2) by (auto simp: drain_Frame [OF Frame] Let_def split: prod.splits)
    with less(1) [of "drop n bs" ms'] dec_bound [OF Frame] show ?thesis by auto
  qed (use less(2) drain.simps [of dec bs] in auto)
qed

lemma feed_eq_drain:
  assumes "drain dec buf = ([], buf, False)" "feed dec buf chunks = (ms, rest, bad)"
  shows "fst (drain dec (buf @ concat chunks)) = ms \<and> snd (snd (drain dec (buf @ concat chunks))) = bad \<and>
    (\<not> bad \<longrightarrow> fst (snd (drain dec (buf @ concat chunks))) = rest)"
  using assms
proof (induction chunks arbitrary: buf ms)
  case Nil
  then show ?case by simp
next
  case (Cons c cs)
  obtain ms1 r1 b1 where d: "drain dec (buf @ c) = (ms1, r1, b1)" by (metis prod_cases3)
  have da: "drain dec (buf @ concat (c # cs)) = (if b1 then (ms1, r1 @ concat cs, True)
      else let (ms', rest', bad') = drain dec (r1 @ concat cs) in (ms1 @ ms', rest', bad'))"
    using drain_append [of "buf @ c" "concat cs"] d by simp
  show ?case
  proof (cases b1)
    case True
    with Cons.prems(2) d da show ?thesis by simp
  next
    case False
    obtain ms2 where f: "feed dec r1 cs = (ms2, rest, bad)" "ms = ms1 @ ms2"
      using Cons.prems(2) d False by (auto simp: case_prod_beta prod_eq_iff)
    from drain_idle d False have "drain dec r1 = ([], r1, False)" by simp
    from Cons.IH [OF this f(1)] da False f(2) show ?thesis by (auto simp: case_prod_beta Let_def)
  qed
qed

end

locale frame_codec = frame_stream +
  fixes enc :: "'a \<Rightarrow> byte list" and ok :: "'a \<Rightarrow> bool"
  assumes dec_enc: "ok m \<Longrightarrow> dec (enc m) = Frame m (length (enc m))"
begin

lemma dec_prefix:
  assumes "ok m" "strict_prefix bs (enc m)"
  shows "dec bs = Need_more"
proof -
  from assms(2) obtain ys where ys: "enc m = bs @ ys" "length bs < length (enc m)"
    by (auto elim: strict_prefixE' simp: prefix_length_less)
  with dec_enc [OF assms(1)] dec_frame_mono [of bs _ _ ys] dec_bad_mono [of bs ys] dec_bound [of bs]
  show ?thesis by (cases "dec bs") fastforce+
qed

lemma drain_concat:
  assumes "list_all ok ms" "dec tail = Need_more"
  shows "drain dec (concat (map enc ms) @ tail) = (ms, tail, False)"
  using drain_frames [of ms "map enc ms" tail] assms dec_enc by (simp add: list_all2_conv_all_nth list_all_length)

end

text \<open>Wire frames, as \<open>ctrl_queue\<close> and the SDK write them.\<close>

definition enc_frame :: "ntc_wire_header \<times> byte list \<Rightarrow> byte list" where
  "enc_frame = (\<lambda>(h, p). ntc_wire_write_header (wh_type h) (wh_request_id h) (wh_length h) @ p)"

definition ok_frame :: "ntc_wire_header \<times> byte list \<Rightarrow> bool" where
  "ok_frame = (\<lambda>(h, p). wh_version h = NTC_WIRE_VERSION \<and> unat (wh_length h) = length p)"

lemma get_u32_append: "4 \<le> length bs \<Longrightarrow> get_u32 (bs @ ys) = get_u32 bs"
  by (auto simp: get_u32_def nth_append)

lemma get_u32_put [simp]: "get_u32 (put_u32 v) = v"
  using get_put_u32 [of v "[]"] by simp

interpretation wf: frame_codec ntc_wire_read_frame enc_frame ok_frame
proof unfold_locales
  fix bs m n ys assume "ntc_wire_read_frame bs = Frame m n"
  then show "ntc_wire_read_frame (bs @ ys) = Frame m n"
    by (auto simp: ntc_wire_read_frame_def get_u32_append nth_append NTC_WIRE_HEADER_LEN_def Let_def split: if_splits)
next
  fix m assume "ok_frame m"
  then show "ntc_wire_read_frame (enc_frame m) = Frame m (length (enc_frame m))"
    by (cases m) (simp add: ntc_wire_read_frame_def enc_frame_def ok_frame_def ntc_wire_write_header_def
        NTC_WIRE_HEADER_LEN_def nth_append version_ok_def NTC_WIRE_VERSION_def NTC_WIRE_VERSION_MAX_def Let_def)
qed (auto simp: ntc_wire_read_frame_def get_u32_append nth_append NTC_WIRE_HEADER_LEN_def Let_def split: if_splits)

subsection \<open>Properties\<close>

definition wire_sample_request :: ntc_request where
  "wire_sample_request = \<lparr>rq_method = ''POST'', rq_target = ''/a?x=1'', rq_path = ''/a'', rq_query = ''x=1'',
     rq_minor_version = 0, rq_headers = [\<lparr>hdr_name = ''Host'', hdr_value = ''h''\<rparr>],
     rq_params = [\<lparr>hdr_name = ''id'', hdr_value = ''7''\<rparr>], rq_auth_sub = ''u'', rq_auth_scope = [],
     rq_has_content_length = False, rq_content_length = 0, rq_body = ''hi''\<rparr>"

text \<open>
  C31 (\<open>wire_request_roundtrip\<close>): what the gateway encodes within the capacity it
  has, the controller decodes, trailing bytes or not, to the request with at most 64
  headers and 8 parameters, its target reduced to the path.
\<close>

theorem wire_request_roundtrip:
  assumes "ntc_wire_encode_request req cap = Some bs" and "length (rq_body req) < 2 ^ 32"
  shows "length bs \<le> cap \<and> ntc_wire_decode_request (bs @ rest) = Some (wire_view req)"
proof -
  have b: "ok32 (rq_body req)" "ok32 (rq_body (wire_view req))" using assms(2) by (simp_all add: ok32_def wire_view_def)
  from assms(1) have *: "wire_request_ok (wire_view req)" "length bs \<le> cap" "bs = enc_request (wire_view req)"
    by (auto simp: encode_request_eq [OF b(1)] split: if_splits)
  have "wire_view (wire_view req) = wire_view req" by (simp add: wire_view_def)
  with decode_request_enc [OF *(1) b(2)] * show ?thesis by (simp add: wire_view_def)
qed

theorem wire_request_roundtrip_witness:
  "length (enc_request (wire_view wire_sample_request)) \<le> 100 \<and>
   ntc_wire_decode_request (enc_request (wire_view wire_sample_request) @ [0]) = Some (wire_view wire_sample_request)"
proof (rule wire_request_roundtrip [of wire_sample_request])
  show "ntc_wire_encode_request wire_sample_request 100 = Some (enc_request (wire_view wire_sample_request))" by code_simp
qed (simp add: wire_sample_request_def)

text \<open>
  C32 (\<open>wire_request_decode_sound\<close>): a payload the controller accepts is exactly the
  encoding of the request it yields, up to trailing bytes, and that request respects
  the header and parameter limits: no two requests share a payload and nothing is read
  past its end.
\<close>

theorem wire_request_decode_sound:
  assumes "ntc_wire_decode_request bs = Some req"
  shows "\<exists>n \<le> length bs. ntc_wire_encode_request req n = Some (take n bs) \<and>
    length (rq_headers req) \<le> NTC_MAX_HEADERS \<and> length (rq_params req) \<le> NTC_MAX_PARAMS"
proof -
  from decode_request_sound [OF assms] obtain rest where *: "wire_request_ok req" "ok32 (rq_body req)"
    "wire_view req = req" "bs = enc_request req @ rest"
    "length (rq_headers req) \<le> NTC_MAX_HEADERS" "length (rq_params req) \<le> NTC_MAX_PARAMS" by blast
  then show ?thesis
    by (intro exI [of _ "length (enc_request req)"]) (simp add: encode_request_eq)
qed

theorem wire_request_decode_sound_witness:
  "\<exists>n \<le> length (enc_request (wire_view wire_sample_request)).
     ntc_wire_encode_request (wire_view wire_sample_request) n = Some (take n (enc_request (wire_view wire_sample_request))) \<and>
     length (rq_headers (wire_view wire_sample_request)) \<le> NTC_MAX_HEADERS \<and>
     length (rq_params (wire_view wire_sample_request)) \<le> NTC_MAX_PARAMS"
  by (rule wire_request_decode_sound) code_simp

text \<open>
  Responses round-trip with and without custom headers,
  and across versions: a reader that knows no headers ignores them, a reader that does
  finds none in an old payload.
\<close>

lemma wire_response_compat:
  assumes "0 \<le> status" and "status < 65536" and "length body < 2 ^ 32"
    and "ntc_wire_encode_response status ctype body cap = Some old"
    and "ntc_wire_encode_response_ex status ctype body headers cap' = Some new"
  shows "ntc_wire_decode_response old = Some (status, ctype, body) \<and>
    ntc_wire_decode_response new = Some (status, ctype, body) \<and>
    ntc_wire_decode_response_ex old = Some (status, ctype, body, []) \<and>
    ntc_wire_decode_response_ex new = Some (status, ctype, body, headers)"
proof -
  have b: "ok32 body" using assms(3) by (simp add: ok32_def)
  from assms(4) have old: "ok16 ctype" "old = put_u16 (of_int status) @ enc16 ctype @ enc32 body @ []"
    by (simp_all add: encode_response_eq [OF b] Let_def split: if_splits)
  from assms(5) have new: "ok16 headers" "new = put_u16 (of_int status) @ enc16 ctype @ enc32 body @ enc16 headers @ []"
    by (simp_all add: encode_response_ex_eq [OF b] Let_def split: if_splits)
  have "\<not> r_off (r_from p []) < length (r_p (r_from p []))"
    "r_off (r_from p (enc16 headers)) < length (r_p (r_from p (enc16 headers)))" for p
    by (simp_all add: r_from_def enc16_def)
  then show ?thesis
    unfolding ntc_wire_decode_response_def ntc_wire_decode_response_ex_def rbuf_new_from old(2) new(2)
    using old(1) new(1) b uint_status [OF assms(1,2)] by (simp add: r_encs Let_def)
qed

text \<open>
  The stream and WebSocket payloads round-trip.
\<close>

lemma wire_stream_roundtrip:
  assumes "0 \<le> status" and "status < 65536" and "length data < 2 ^ 32"
  shows "(ntc_wire_encode_response_begin status flags ctype cap = Some b1 \<longrightarrow>
            ntc_wire_decode_response_begin b1 = Some (status, flags, ctype)) \<and>
         (ntc_wire_encode_chunk data cap = Some b2 \<longrightarrow> ntc_wire_decode_chunk b2 = Some data) \<and>
         (ntc_wire_encode_ws_msg oc data cap = Some b3 \<longrightarrow> ntc_wire_decode_ws_msg b3 = Some (oc, data)) \<and>
         (ntc_wire_encode_ws_close code cap = Some b4 \<longrightarrow> ntc_wire_decode_ws_close b4 = Some code)"
proof -
  have b: "ok32 data" using assms(3) by (simp add: ok32_def)
  have u8: "r_u8 (r_from p (x # ys)) = (x, r_from (p @ [x]) ys)" for x ys p
    using c8.rd_enc [OF TrueI, where p = p and x = x and bs = ys] by (simp add: enc_u8_def)
  show ?thesis using b
    by (auto simp: encode_response_begin_eq encode_chunk_eq encode_ws_msg_eq encode_ws_close_eq Let_def
        ntc_wire_decode_response_begin_def ntc_wire_decode_chunk_def ntc_wire_decode_ws_msg_def
        ntc_wire_decode_ws_close_def rbuf_new_from r_encs u8 uint_status assms(1,2) split: if_splits)
qed

text \<open>
  C8 (\<open>wire_frame_stream\<close>): frames written to a stream come out in order and unchanged
  however the stream is cut into reads, with an incomplete frame kept for the next read.
\<close>

theorem wire_frame_stream:
  assumes "list_all ok_frame ms" and "ok_frame m" and "strict_prefix part (enc_frame m)"
    and "concat chunks = concat (map enc_frame ms) @ part"
  shows "feed ntc_wire_read_frame [] chunks = (ms, part, False)"
proof -
  obtain ms' r b where f: "feed ntc_wire_read_frame [] chunks = (ms', r, b)" by (metis prod_cases3)
  have "drain ntc_wire_read_frame [] = ([], [], False)"
    by (simp add: drain.simps ntc_wire_read_frame_def NTC_WIRE_HEADER_LEN_def)
  from wf.feed_eq_drain [OF this f] wf.drain_concat [OF assms(1) wf.dec_prefix [OF assms(2,3)]]
  show ?thesis by (simp add: assms(4) f)
qed


theorem wire_frame_stream_witness:
  "feed ntc_wire_read_frame []
     [take 5 (ntc_wire_write_header 9 7 0), drop 5 (ntc_wire_write_header 9 7 0) @ ntc_wire_write_header 4 8 2, [1]] =
   ([(\<lparr>wh_version = 2, wh_type = 9, wh_request_id = 7, wh_length = 0\<rparr>, [])],
    ntc_wire_write_header 4 8 2 @ [1], False)"
  by (rule wire_frame_stream [where m = "(\<lparr>wh_version = 2, wh_type = 4, wh_request_id = 8, wh_length = 2\<rparr>, [1, 2])"])
    code_simp+

end
