(* ===== verification/Crypto.thy ===== *)
theory Crypto
  imports Prelude
begin

text \<open>
  SHA-256, HMAC-SHA256, base64url and the constant-time comparison
  (\<open>src/common/crypto.c\<close>). Words are 32 bits wide and wrap as in C. The context holds
  the first \<open>n\<close> bytes of its block buffer as a list, so \<open>n\<close> is the list's length. An
  encoder that returns -1 gives \<open>None\<close>.

  The streaming hash is compared with the padding and block splitting of FIPS 180-4,
  HMAC with RFC 2104, base64url with its inverse.
\<close>

subsection \<open>SHA-256\<close>

definition sha_K :: "u32 list" where
  "sha_K = concat [
    [0x428a2f98, 0x71374491, 0xb5c0fbcf, 0xe9b5dba5, 0x3956c25b, 0x59f111f1, 0x923f82a4, 0xab1c5ed5],
    [0xd807aa98, 0x12835b01, 0x243185be, 0x550c7dc3, 0x72be5d74, 0x80deb1fe, 0x9bdc06a7, 0xc19bf174],
    [0xe49b69c1, 0xefbe4786, 0x0fc19dc6, 0x240ca1cc, 0x2de92c6f, 0x4a7484aa, 0x5cb0a9dc, 0x76f988da],
    [0x983e5152, 0xa831c66d, 0xb00327c8, 0xbf597fc7, 0xc6e00bf3, 0xd5a79147, 0x06ca6351, 0x14292967],
    [0x27b70a85, 0x2e1b2138, 0x4d2c6dfc, 0x53380d13, 0x650a7354, 0x766a0abb, 0x81c2c92e, 0x92722c85],
    [0xa2bfe8a1, 0xa81a664b, 0xc24b8b70, 0xc76c51a3, 0xd192e819, 0xd6990624, 0xf40e3585, 0x106aa070],
    [0x19a4c116, 0x1e376c08, 0x2748774c, 0x34b0bcb5, 0x391c0cb3, 0x4ed8aa4a, 0x5b9cca4f, 0x682e6ff3],
    [0x748f82ee, 0x78a5636f, 0x84c87814, 0x8cc70208, 0x90befffa, 0xa4506ceb, 0xbef9a3f7, 0xc67178f2]]"

record sha_ctx =
  sc_h :: "u32 list"
  sc_total :: u64
  sc_buf :: "byte list"

definition rotr :: "u32 \<Rightarrow> nat \<Rightarrow> u32" where
  "rotr x n = drop_bit n x OR push_bit (32 - n) x"

definition sha_init :: sha_ctx where
  "sha_init = \<lparr>sc_h = [0x6a09e667, 0xbb67ae85, 0x3c6ef372, 0xa54ff53a,
                       0x510e527f, 0x9b05688c, 0x1f83d9ab, 0x5be0cd19],
               sc_total = 0, sc_buf = []\<rparr>"

text \<open>The message schedule: the 16 words of the block, then 48 derived ones.\<close>

definition be32 :: "byte list \<Rightarrow> nat \<Rightarrow> u32" where
  "be32 p i = push_bit 24 (ucast (p ! (i * 4))) OR push_bit 16 (ucast (p ! (i * 4 + 1))) OR
              push_bit 8 (ucast (p ! (i * 4 + 2))) OR ucast (p ! (i * 4 + 3))"

definition sched_step :: "u32 list \<Rightarrow> nat \<Rightarrow> u32 list" where
  "sched_step w i =
     (let s0 = rotr (w ! (i - 15)) 7 XOR rotr (w ! (i - 15)) 18 XOR drop_bit 3 (w ! (i - 15));
          s1 = rotr (w ! (i - 2)) 17 XOR rotr (w ! (i - 2)) 19 XOR drop_bit 10 (w ! (i - 2))
      in w @ [w ! (i - 16) + s0 + w ! (i - 7) + s1])"

definition schedule :: "byte list \<Rightarrow> u32 list" where
  "schedule p = foldl sched_step (map (be32 p) [0..<16]) [16..<64]"

definition sha_round ::
  "u32 list \<Rightarrow> u32 \<times> u32 \<times> u32 \<times> u32 \<times> u32 \<times> u32 \<times> u32 \<times> u32 \<Rightarrow> nat \<Rightarrow>
   u32 \<times> u32 \<times> u32 \<times> u32 \<times> u32 \<times> u32 \<times> u32 \<times> u32" where
  "sha_round w = (\<lambda>(a, b, cc, d, e, f, g, h) i.
     let s1 = rotr e 6 XOR rotr e 11 XOR rotr e 25;
         ch = (e AND f) XOR (NOT e AND g);
         t1 = h + s1 + ch + sha_K ! i + w ! i;
         s0 = rotr a 2 XOR rotr a 13 XOR rotr a 22;
         maj = (a AND b) XOR (a AND cc) XOR (b AND cc);
         t2 = s0 + maj
     in (t1 + t2, a, b, cc, d + t1, e, f, g))"

definition sha_block :: "u32 list \<Rightarrow> byte list \<Rightarrow> u32 list" where
  "sha_block hs p =
     (let (a, b, cc, d, e, f, g, h) =
            foldl (sha_round (schedule p))
              (hs ! 0, hs ! 1, hs ! 2, hs ! 3, hs ! 4, hs ! 5, hs ! 6, hs ! 7) [0..<64]
      in [hs ! 0 + a, hs ! 1 + b, hs ! 2 + cc, hs ! 3 + d,
          hs ! 4 + e, hs ! 5 + f, hs ! 6 + g, hs ! 7 + h])"

text \<open>The \<open>while (len)\<close> loop: fill the buffer, compress when it holds 64 bytes.\<close>

function sha_feed :: "sha_ctx \<Rightarrow> byte list \<Rightarrow> sha_ctx" where
  "sha_feed c p =
     (if p = [] \<or> 64 \<le> length (sc_buf c) then c
      else let n = min (64 - length (sc_buf c)) (length p);
               buf = sc_buf c @ take n p
           in sha_feed (if length buf = 64 then c\<lparr>sc_h := sha_block (sc_h c) buf, sc_buf := []\<rparr>
                        else c\<lparr>sc_buf := buf\<rparr>) (drop n p))"
  by pat_completeness auto
termination by (relation "measure (length \<circ> snd)") (auto simp: min_def)

declare sha_feed.simps [simp del, loop_simps]

definition sha_update :: "sha_ctx \<Rightarrow> byte list \<Rightarrow> sha_ctx" where
  "sha_update c p = sha_feed (c\<lparr>sc_total := sc_total c + of_nat (length p)\<rparr>) p"

text \<open>
  The padding loop. It stops at 56 bytes; the buffer never holds 64 or more between
  updates, which bounds the loop.
\<close>

fun sha_pad :: "nat \<Rightarrow> sha_ctx \<Rightarrow> sha_ctx" where
  "sha_pad 0 c = c"
| "sha_pad (Suc fuel) c = (if length (sc_buf c) = 56 then c else sha_pad fuel (sha_update c [0]))"

definition len_bytes :: "u64 \<Rightarrow> byte list" where
  "len_bytes bits = map (\<lambda>i. ucast (drop_bit (56 - 8 * i) bits)) [0..<8]"

definition digest :: "u32 list \<Rightarrow> byte list" where
  "digest hs = concat (map (\<lambda>h. [ucast (drop_bit 24 h), ucast (drop_bit 16 h), ucast (drop_bit 8 h), ucast h])
                  (take 8 hs))"

definition sha_final :: "sha_ctx \<Rightarrow> byte list" where
  "sha_final c =
     (let bits = sc_total c * 8;
          c = sha_update c [0x80];
          c = sha_pad 64 c;
          c = sha_update c (len_bytes bits)
      in digest (sc_h c))"

definition ntc_sha256 :: "byte list \<Rightarrow> byte list" where
  "ntc_sha256 data = sha_final (sha_update sha_init data)"

subsection \<open>HMAC\<close>

definition hmac_key :: "byte list \<Rightarrow> byte list" where
  "hmac_key key = (let k = (if length key > 64 then ntc_sha256 key else key)
                   in k @ replicate (64 - length k) 0)"

definition ntc_hmac_sha256 :: "byte list \<Rightarrow> byte list \<Rightarrow> byte list" where
  "ntc_hmac_sha256 key msg =
     (let k = hmac_key key;
          ipad = map (\<lambda>b. b XOR 0x36) k;
          opad = map (\<lambda>b. b XOR 0x5c) k;
          inner = sha_final (sha_update (sha_update sha_init ipad) msg)
      in sha_final (sha_update (sha_update sha_init opad) inner))"

subsection \<open>base64url\<close>

definition B64U :: string where
  "B64U = ''ABCDEFGHIJKLMNOPQRSTUVWXYZabcdefghijklmnopqrstuvwxyz0123456789-_''"

definition b64_digit :: "u32 \<Rightarrow> nat \<Rightarrow> char" where
  "b64_digit n j = B64U ! unat (drop_bit (18 - 6 * j) n AND 0x3f)"

text \<open>The four, three or two characters of one group of at most three bytes.\<close>

definition b64_group :: "byte list \<Rightarrow> string" where
  "b64_group g =
     (let n = push_bit 16 (ucast (g ! 0));
          n = (if length g > 1 then n OR push_bit 8 (ucast (g ! 1)) else n);
          n = (if length g > 2 then n OR ucast (g ! 2) else n)
      in map (b64_digit n) [0..<(if length g \<ge> 3 then 4 else length g + 1)])"

text \<open>
  The loop over the input three bytes at a time; \<open>out\<close> is what is written so far, and
  every character needs \<open>o + 1 < cap\<close> so that the NUL fits after the last one.
\<close>

function b64_encode_loop :: "byte list \<Rightarrow> string \<Rightarrow> nat \<Rightarrow> string option" where
  "b64_encode_loop bs out cap =
     (if bs = [] then (if length out \<ge> cap then None else Some out)
      else let g = b64_group (take 3 bs)
           in if length out + length g \<ge> cap then None
              else b64_encode_loop (drop 3 bs) (out @ g) cap)"
  by pat_completeness auto
termination by (relation "measure (\<lambda>(bs, _, _). length bs)") auto

declare b64_encode_loop.simps [simp del, loop_simps]

definition ntc_base64url_encode :: "byte list \<Rightarrow> nat \<Rightarrow> string option" where
  "ntc_base64url_encode bs cap = b64_encode_loop bs [] cap"

definition b64val :: "char \<Rightarrow> nat option" where
  "b64val c =
     (if c_in CHR ''A'' CHR ''Z'' c then Some (ccode c - 65)
      else if c_in CHR ''a'' CHR ''z'' c then Some (ccode c - 97 + 26)
      else if c_in CHR ''0'' CHR ''9'' c then Some (ccode c - 48 + 52)
      else if c = CHR ''-'' then Some 62
      else if c = CHR ''_'' then Some 63
      else None)"

fun b64_decode_loop :: "string \<Rightarrow> u32 \<Rightarrow> nat \<Rightarrow> byte list \<Rightarrow> nat \<Rightarrow> byte list option" where
  "b64_decode_loop [] acc bits out cap = Some out"
| "b64_decode_loop (c # cs) acc bits out cap =
     (case b64val c of
        None \<Rightarrow> None
      | Some v \<Rightarrow>
          let acc = push_bit 6 acc OR of_nat v; bits = bits + 6
          in if bits \<ge> 8
             then (if length out \<ge> cap then None
                   else b64_decode_loop cs acc (bits - 8)
                          (out @ [ucast (drop_bit (bits - 8) acc AND 0xff)]) cap)
             else b64_decode_loop cs acc bits out cap)"

definition ntc_base64url_decode :: "string \<Rightarrow> nat \<Rightarrow> byte list option" where
  "ntc_base64url_decode s cap = b64_decode_loop s 0 0 [] cap"

definition ntc_ct_eq :: "byte list \<Rightarrow> byte list \<Rightarrow> nat \<Rightarrow> bool" where
  "ntc_ct_eq a b n = (foldl (\<lambda>d i. d OR (a ! i XOR b ! i)) 0 [0..<n] = 0)"

subsection \<open>Streaming equals one shot\<close>

text \<open>The chaining value after a whole number of blocks, and the FIPS 180-4 padding.\<close>

function sha_blocks :: "u32 list \<Rightarrow> byte list \<Rightarrow> u32 list" where
  "sha_blocks hs bs = (if length bs < 64 then hs else sha_blocks (sha_block hs (take 64 bs)) (drop 64 bs))"
  by pat_completeness auto
termination by (relation "measure (length \<circ> snd)") auto

declare sha_blocks.simps [simp del, loop_simps]

definition fips_pad :: "byte list \<Rightarrow> byte list" where
  "fips_pad m = m @ [0x80] @ replicate ((119 - length m mod 64) mod 64) 0 @ len_bytes (of_nat (8 * length m))"

definition sha_inv :: "sha_ctx \<Rightarrow> byte list \<Rightarrow> bool" where
  "sha_inv c m \<longleftrightarrow> sc_buf c = drop (length m - length m mod 64) m \<and>
     sc_h c = sha_blocks (sc_h sha_init) m \<and> sc_total c = of_nat (length m)"

lemma sha_blocks_append:
  "length a mod 64 = 0 \<Longrightarrow> sha_blocks hs (a @ b) = sha_blocks (sha_blocks hs a) b"
proof (induction "length a" arbitrary: a hs rule: less_induct)
  case less
  show ?case
  proof (cases "a = []")
    case True then show ?thesis by (simp add: sha_blocks.simps [of hs "[]"])
  next
    case False
    with less(2) have "64 \<le> length a" by (metis length_0_conv linorder_not_le mod_less)
    then have "sha_blocks hs (a @ b) = sha_blocks (sha_block hs (take 64 a)) (drop 64 a @ b)"
      "sha_blocks hs a = sha_blocks (sha_block hs (take 64 a)) (drop 64 a)"
      by (simp_all add: sha_blocks.simps [of hs])
    moreover have "length (drop 64 a) mod 64 = 0"
      using less(2) \<open>64 \<le> length a\<close> by (simp add: le_mod_geq)
    ultimately show ?thesis using less(1) [of "drop 64 a"] \<open>64 \<le> length a\<close> by simp
  qed
qed

lemma sha_blocks_short: "length b < 64 \<Longrightarrow> sha_blocks hs b = hs"
  by (simp add: sha_blocks.simps)

lemma sha_feed_inv:
  assumes "sc_buf c = drop (length m - length m mod 64) m" "sc_h c = sha_blocks hs m"
  shows "sc_buf (sha_feed c p) = drop (length (m @ p) - length (m @ p) mod 64) (m @ p) \<and>
         sc_h (sha_feed c p) = sha_blocks hs (m @ p) \<and> sc_total (sha_feed c p) = sc_total c"
  using assms
proof (induction "length p" arbitrary: p m c rule: less_induct)
  case less
  have lb: "length (sc_buf c) = length m mod 64" using less(2) by simp
  show ?case
  proof (cases "p = []")
    case True
    with less show ?thesis by (simp add: sha_feed.simps)
  next
    case False
    define n where "n = min (64 - length (sc_buf c)) (length p)"
    define buf where "buf = sc_buf c @ take n p"
    define c' where "c' = (if length buf = 64 then c\<lparr>sc_h := sha_block (sc_h c) buf, sc_buf := []\<rparr> else c\<lparr>sc_buf := buf\<rparr>)"
    have n: "0 < n" "n \<le> length p" "length (sc_buf c) + n \<le> 64" using False lb by (auto simp: n_def)
    have step: "sha_feed c p = sha_feed c' (drop n p)"
      using False lb by (subst sha_feed.simps) (simp only: n_def buf_def c'_def Let_def if_False simp_thms, simp)
    define q where "q = length m - length m mod 64"
    have q: "q mod 64 = 0" "length m = q + length (sc_buf c)" "m = take q m @ sc_buf c"
      using less(2) by (simp_all add: q_def minus_mod_eq_mult_div)
    have mt: "m @ take n p = take q m @ buf" using q(3) by (metis append_assoc buf_def)
    have lbuf: "length buf = length (sc_buf c) + n" using n by (simp add: buf_def)
    have lm: "length (m @ take n p) = q + length buf" using lbuf q(2) n by simp
    have hm: "sc_h c = sha_blocks hs (take q m)"
    proof -
      have "sha_blocks hs (take q m @ sc_buf c) = sha_blocks hs (take q m)"
        using q by (subst sha_blocks_append) (simp_all add: sha_blocks_short lb)
      with less(3) q(3) show ?thesis by simp
    qed
    have I: "sc_buf c' = drop (length (m @ take n p) - length (m @ take n p) mod 64) (m @ take n p)
       \<and> sc_h c' = sha_blocks hs (m @ take n p)"
    proof (cases "length buf = 64")
      case True
      then have "length (m @ take n p) mod 64 = 0" using lm q(1) by (simp add: mod_add_eq [symmetric])
      moreover have "sha_blocks hs (m @ take n p) = sha_block (sc_h c) buf"
        unfolding mt using q True hm by (subst sha_blocks_append) (simp_all add: sha_blocks.simps [of _ buf] sha_blocks_short)
      ultimately show ?thesis using True by (simp add: c'_def)
    next
      case False
      then have "length buf < 64" using lbuf n by simp
      moreover from this have "length (m @ take n p) mod 64 = length buf"
        using lm q(1) by (simp add: mod_add_left_eq [symmetric] del: length_append)
      moreover have "sha_blocks hs (m @ take n p) = sc_h c"
        unfolding mt using q hm \<open>length buf < 64\<close> by (subst sha_blocks_append) (simp_all add: sha_blocks_short)
      ultimately show ?thesis using False lm q by (simp add: c'_def mt del: length_append)
    qed
    have "length (drop n p) < length p" using n by simp
    from less(1) [OF this, of c' "m @ take n p"] I step n
    show ?thesis by (simp add: c'_def)
  qed
qed


lemma sha_inv_init: "sha_inv sha_init []"
  by (simp add: sha_inv_def sha_init_def sha_blocks_short)

lemma sha_inv_update: "sha_inv c m \<Longrightarrow> sha_inv (sha_update c p) (m @ p)"
  using sha_feed_inv [of "c\<lparr>sc_total := sc_total c + of_nat (length p)\<rparr>" m "sc_h sha_init" p]
  by (simp add: sha_inv_def sha_update_def)

lemma sha_inv_buf: "sha_inv c m \<Longrightarrow> length (sc_buf c) = length m mod 64"
  by (simp add: sha_inv_def)

lemma pad_val: "k < 64 \<Longrightarrow> (120 - k) mod 64 = (if k \<le> 56 then 56 - k else 120 - k)" for k :: nat
  by (auto simp: le_mod_geq)

lemma pad_step:
  fixes k :: nat
  assumes "k < 64" "k \<noteq> 56"
  shows "(120 - k) mod 64 = Suc ((120 - Suc k mod 64) mod 64)"
proof (cases "k = 63")
  case False
  with assms have k: "Suc k < 64" by simp
  from pad_val [OF assms(1)] pad_val [OF k] assms k show ?thesis by (simp only: mod_less split: if_splits) auto
qed simp

lemma pad_total:
  fixes k :: nat
  assumes "k < 64"
  shows "(k + 1 + (119 - k) mod 64 + 8) mod 64 = 0"
proof -
  have "(119 - k) mod 64 = (if k \<le> 55 then 55 - k else 119 - k)"
    using assms by (auto simp: le_mod_geq)
  then have "k + 1 + (119 - k) mod 64 + 8 = (if k \<le> 55 then 64 else 128)" using assms by auto
  then show ?thesis by simp
qed

lemma sha_pad_inv:
  "sha_inv c m \<Longrightarrow> (120 - length m mod 64) mod 64 \<le> fuel \<Longrightarrow>
   sha_inv (sha_pad fuel c) (m @ replicate ((120 - length m mod 64) mod 64) 0)"
proof (induction fuel arbitrary: c m)
  case 0
  then show ?case by simp
next
  case (Suc fuel)
  let ?k = "length m mod 64"
  have k: "?k < 64" by simp
  show ?case
  proof (cases "?k = 56")
    case True
    with Suc.prems sha_inv_buf show ?thesis by simp
  next
    case False
    have "(120 - ?k) mod 64 = Suc ((120 - Suc ?k mod 64) mod 64)"
      using pad_step [OF k False] .
    moreover have "Suc ?k mod 64 = length (m @ [0 :: byte]) mod 64" by (simp add: mod_Suc_eq)
    ultimately have *: "(120 - ?k) mod 64 = Suc ((120 - length (m @ [0 :: byte]) mod 64) mod 64)" by simp
    from Suc.IH [OF sha_inv_update [OF Suc.prems(1), of "[0]"]] Suc.prems * False sha_inv_buf [OF Suc.prems(1)]
    show ?thesis unfolding * by (simp del: length_append)
  qed
qed

lemma length_len_bytes [simp]: "length (len_bytes b) = 8"
  by (simp add: len_bytes_def)

lemma sha_final_spec:
  assumes "sha_inv c m"
  shows "sha_final c = digest (sha_blocks (sc_h sha_init) (fips_pad m))"
proof -
  let ?m1 = "m @ [0x80]"
  have eq: "(120 - length ?m1 mod 64) mod 64 = (119 - length m mod 64) mod 64"
  proof -
    have "length m mod 64 < 64" by simp
    then show ?thesis by (cases "length m mod 64 = 63") (simp_all add: mod_Suc)
  qed
  have 1: "sha_inv (sha_update c [0x80]) ?m1" using sha_inv_update [OF assms] by simp
  have "(120 - length ?m1 mod 64) mod 64 \<le> 64" by (meson less_imp_le mod_less_divisor zero_less_numeral)
  from sha_inv_update [OF sha_pad_inv [OF 1 this], of "len_bytes (of_nat (8 * length m))"] eq
  have "sha_inv (sha_update (sha_pad 64 (sha_update c [0x80])) (len_bytes (of_nat (8 * length m)))) (fips_pad m)"
    by (simp add: fips_pad_def)
  moreover have "sc_total c * 8 = of_nat (8 * length m)"
    using assms by (simp add: sha_inv_def)
  ultimately show ?thesis by (simp add: sha_final_def sha_inv_def Let_def)
qed

lemma fips_pad_blocks: "length (fips_pad m) mod 64 = 0"
proof -
  have "(length m + 1 + (119 - length m mod 64) mod 64 + 8) mod 64 = 0"
  proof -
    let ?k = "length m mod 64"
    have "(?k + 1 + (119 - ?k) mod 64 + 8) mod 64 = 0" by (rule pad_total) simp
    then show ?thesis by (metis (no_types, lifting) add.assoc mod_add_left_eq)
  qed
  then show ?thesis by (simp add: fips_pad_def ac_simps)
qed


subsection \<open>base64url lemmas\<close>

lemma B64U_val:
  assumes "v < 64"
  shows "b64val (B64U ! v) = Some v"
proof -
  have "\<forall>v \<in> set [0..<64]. b64val (B64U ! v) = Some v" by code_simp
  with assms show ?thesis by simp
qed

lemma b64val_digit:
  "\<exists>v. b64val (b64_digit n j) = Some v \<and> of_nat v = (drop_bit (18 - 6 * j) n AND 0x3f :: u32)"
proof -
  let ?w = "drop_bit (18 - 6 * j) n AND 0x3f :: u32"
  have "?w = take_bit 6 (drop_bit (18 - 6 * j) n)" by (simp add: take_bit_eq_mask mask_eq_exp_minus_1)
  then have "unat ?w = take_bit 6 (unat (drop_bit (18 - 6 * j) n))" by (simp add: unsigned_take_bit_eq)
  then have "unat ?w < 64" using take_bit_nat_less_exp [of 6] by simp
  then show ?thesis by (simp add: b64_digit_def B64U_val)
qed

lemma b64_decode_digit:
  "b64_decode_loop (b64_digit n j # cs) acc bits out cap =
     (let acc = push_bit 6 acc OR (drop_bit (18 - 6 * j) n AND 0x3f); bits = bits + 6
      in if bits \<ge> 8
         then (if length out \<ge> cap then None
               else b64_decode_loop cs acc (bits - 8) (out @ [ucast (drop_bit (bits - 8) acc AND 0xff)]) cap)
         else b64_decode_loop cs acc bits out cap)"
  using b64val_digit [of n j] by (auto simp: Let_def)

lemma b64_group3:
  "b64_group [x, y, z] = map (b64_digit ((push_bit 16 (ucast x) OR push_bit 8 (ucast y)) OR ucast z)) [0, 1, 2, 3]"
  by (simp add: b64_group_def Let_def upt_rec numeral_2_eq_2 numeral_3_eq_3)

lemma b64_group2: "b64_group [x, y] = map (b64_digit (push_bit 16 (ucast x) OR push_bit 8 (ucast y))) [0, 1, 2]"
  by (simp add: b64_group_def Let_def upt_rec numeral_2_eq_2)

lemma b64_group1: "b64_group [x] = map (b64_digit (push_bit 16 (ucast x))) [0, 1]"
  by (simp add: b64_group_def Let_def upt_rec)

text \<open>The three bytes that come out of the four digits of a group, whatever \<open>acc\<close> held.\<close>

lemma b64_masks: "(0x3f :: u32) = mask 6" "(0xff :: u32) = mask 8"
  by (simp_all add: mask_eq_exp_minus_1)

lemma b64_byte0:
  fixes x :: byte and m acc :: u32
  assumes "\<And>i. i < 8 \<Longrightarrow> bit m (16 + i) = bit x i"
  shows "ucast (drop_bit 4 (push_bit 6 (push_bit 6 acc OR (drop_bit 18 m AND 0x3f)) OR (drop_bit 12 m AND 0x3f)) AND 0xff) = x"
  unfolding b64_masks by (rule bit_word_eqI) (auto simp: bit_simps assms)

lemma b64_byte1:
  fixes x :: byte and m acc :: u32
  assumes "\<And>i. i < 8 \<Longrightarrow> bit m (8 + i) = bit x i"
  shows "ucast (drop_bit 2 (push_bit 6 (push_bit 6 acc OR (drop_bit 12 m AND 0x3f)) OR (drop_bit 6 m AND 0x3f)) AND 0xff) = x"
  unfolding b64_masks by (rule bit_word_eqI) (auto simp: bit_simps assms)

lemma b64_byte2:
  fixes x :: byte and m acc :: u32
  assumes "\<And>i. i < 8 \<Longrightarrow> bit m i = bit x i"
  shows "ucast ((push_bit 6 (push_bit 6 acc OR (drop_bit 6 m AND 0x3f)) OR (m AND 0x3f)) AND 0xff) = x"
  unfolding b64_masks by (rule bit_word_eqI) (auto simp: bit_simps assms)

lemma b64_decode_pair:
  assumes "\<And>i. i < 8 \<Longrightarrow> bit m (16 + i) = bit x i" "length out < cap"
  shows "b64_decode_loop (b64_digit m 0 # b64_digit m 1 # cs) acc 0 out cap =
    b64_decode_loop cs (push_bit 6 (push_bit 6 acc OR (drop_bit 18 m AND 0x3f)) OR (drop_bit 12 m AND 0x3f)) 4 (out @ [x]) cap"
  using assms(2) b64_byte0 [of m x acc, OF assms(1)] by (simp only: b64_decode_digit Let_def) simp

lemma b64_decode_third:
  assumes "\<And>i. i < 8 \<Longrightarrow> bit m (8 + i) = bit x i" "length out < cap"
  shows "b64_decode_loop (b64_digit m 2 # cs) (push_bit 6 acc OR (drop_bit 12 m AND 0x3f)) 4 out cap =
    b64_decode_loop cs (push_bit 6 (push_bit 6 acc OR (drop_bit 12 m AND 0x3f)) OR (drop_bit 6 m AND 0x3f)) 2 (out @ [x]) cap"
  using assms(2) b64_byte1 [of m x acc, OF assms(1)] by (simp only: b64_decode_digit Let_def) simp

lemma b64_decode_fourth:
  assumes "\<And>i. i < 8 \<Longrightarrow> bit m i = bit x i" "length out < cap"
  shows "b64_decode_loop (b64_digit m 3 # cs) (push_bit 6 acc OR (drop_bit 6 m AND 0x3f)) 2 out cap =
    b64_decode_loop cs (push_bit 6 (push_bit 6 acc OR (drop_bit 6 m AND 0x3f)) OR (m AND 0x3f)) 0 (out @ [x]) cap"
  using assms(2) b64_byte2 [of m x acc, OF assms(1)] by (simp only: b64_decode_digit Let_def) simp

lemma b64_decode_group:
  assumes "g \<noteq> []" "length g \<le> 3" "length out + length g \<le> cap"
  shows "\<exists>acc' bits'. (length g = 3 \<longrightarrow> bits' = 0) \<and>
    b64_decode_loop (b64_group g @ cs) acc 0 out cap = b64_decode_loop cs acc' bits' (out @ g) cap"
proof -
  consider x where "g = [x]" | x y where "g = [x, y]" | x y z where "g = [x, y, z]"
    using assms(1,2) by (cases g rule: remdups_adj.cases) (auto simp: length_Suc_conv le_Suc_eq neq_Nil_conv)
  then show ?thesis
  proof cases
    case 1
    have "\<And>i. i < 8 \<Longrightarrow> bit (push_bit 16 (ucast x) :: u32) (16 + i) = bit x i" by (simp add: bit_simps)
    from b64_decode_pair [OF this, of out cap cs acc] assms(3) 1 show ?thesis
      by (simp only: b64_group1 list.map append.simps list.size) fastforce
  next
    case (2 x y)
    let ?m = "push_bit 16 (ucast x) OR push_bit 8 (ucast y) :: u32"
    have m: "bit ?m (16 + i) = bit x i" "bit ?m (8 + i) = bit y i" if "i < 8" for i
      using that by (auto simp: bit_simps dest: bit_imp_le_length)
    have l: "length out < cap" "length (out @ [x]) < cap" using assms(3) 2 by simp_all
    show ?thesis unfolding 2 b64_group2 list.map append.simps
      by (subst b64_decode_pair [of ?m x, OF m(1) l(1)], assumption)
        (subst b64_decode_third [of ?m y, OF m(2) l(2)], assumption, force)
  next
    case (3 x y z)
    let ?m = "(push_bit 16 (ucast x) OR push_bit 8 (ucast y)) OR ucast z :: u32"
    have m: "bit ?m (16 + i) = bit x i" "bit ?m (8 + i) = bit y i" "bit ?m i = bit z i" if "i < 8" for i
      using that by (auto simp: bit_simps dest: bit_imp_le_length)
    have l: "length out < cap" "length (out @ [x]) < cap" "length ((out @ [x]) @ [y]) < cap"
      using assms(3) 3 by simp_all
    show ?thesis unfolding 3 b64_group3 list.map append.simps
      by (subst b64_decode_pair [of ?m x, OF m(1) l(1)], assumption)
        (subst b64_decode_third [of ?m y, OF m(2) l(2)], assumption,
         subst b64_decode_fourth [of ?m z, OF m(3) l(3)], assumption, force)
  qed
qed

lemma b64_encode_loop_step:
  "bs \<noteq> [] \<Longrightarrow> b64_encode_loop bs out cap =
     (if length out + length (b64_group (take 3 bs)) \<ge> cap then None
      else b64_encode_loop (drop 3 bs) (out @ b64_group (take 3 bs)) cap)"
  by (subst b64_encode_loop.simps) (simp add: Let_def)

lemma b64_encode_loop_app: "b64_encode_loop bs out cap = Some s \<Longrightarrow> \<exists>t. s = out @ t"
proof (induction "length bs" arbitrary: bs out rule: less_induct)
  case less
  show ?case
  proof (cases "bs = []")
    case True
    with less(2) show ?thesis by (simp add: b64_encode_loop.simps split: if_splits)
  next
    case False
    then have "b64_encode_loop (drop 3 bs) (out @ b64_group (take 3 bs)) cap = Some s"
      using less(2) by (simp add: b64_encode_loop_step split: if_splits)
    from less(1) [OF _ this] False show ?thesis by auto
  qed
qed

lemma b64_roundtrip_loop:
  "b64_encode_loop bs out cap = Some (out @ s) \<Longrightarrow> length done + length bs \<le> n \<Longrightarrow>
   b64_decode_loop s acc 0 done n = Some (done @ bs)"
proof (induction bs out cap arbitrary: s acc "done" rule: b64_encode_loop.induct)
  case (1 bs out cap)
  show ?case
  proof (cases "bs = []")
    case True
    with 1(2) show ?thesis by (simp add: b64_encode_loop.simps split: if_splits)
  next
    case False
    let ?g = "b64_group (take 3 bs)"
    from 1(2) False have lt: "length out + length ?g < cap"
      and e: "b64_encode_loop (drop 3 bs) (out @ ?g) cap = Some (out @ s)"
      by (simp_all add: b64_encode_loop.simps [of bs] Let_def split: if_splits)
    from b64_encode_loop_app [OF e] obtain t where s: "s = ?g @ t" by auto
    have "take 3 bs \<noteq> []" "length done + length (take 3 bs) \<le> n" using False 1(3) by auto
    from b64_decode_group [OF this(1) _ this(2), of t acc] obtain acc' bits' where
      d: "length (take 3 bs) = 3 \<longrightarrow> bits' = 0"
      "b64_decode_loop s acc 0 done n = b64_decode_loop t acc' bits' (done @ take 3 bs) n" by (auto simp: s)
    show ?thesis
    proof (cases "length bs < 3")
      case True
      then have "t = []" using e by (simp add: b64_encode_loop.simps [of "[]"] s split: if_splits)
      with d True show ?thesis by simp
    next
      case f: False
      with d have "bits' = 0" by simp
      moreover from e s have "b64_encode_loop (drop 3 bs) (out @ ?g) cap = Some ((out @ ?g) @ t)" by simp
      moreover have "length (done @ take 3 bs) + length (drop 3 bs) \<le> n" using 1(3) by simp
      ultimately show ?thesis
        using 1(1) [OF False refl _ _ , of t "done @ take 3 bs"] lt d by simp
    qed
  qed
qed

lemma length_sha_blocks: "length hs = 8 \<Longrightarrow> length (sha_blocks hs bs) = 8"
proof (induction hs bs rule: sha_blocks.induct)
  case (1 hs bs)
  then show ?case by (subst sha_blocks.simps) (simp add: sha_block_def split: prod.split)
qed

lemma length_digest: "length hs = 8 \<Longrightarrow> length (digest hs) = 32"
  by (auto simp: digest_def length_concat numeral_eq_Suc length_Suc_conv)

lemma length_sha256 [simp]: "length (ntc_sha256 m) = 32"
  using sha_inv_update [OF sha_inv_init, of m]
  by (simp add: ntc_sha256_def sha_final_spec length_digest length_sha_blocks sha_init_def)

lemma hmac_eq:
  "ntc_hmac_sha256 key msg =
     (let k = hmac_key key
      in ntc_sha256 (map (\<lambda>b. b XOR 0x5c) k @ ntc_sha256 (map (\<lambda>b. b XOR 0x36) k @ msg))) \<and>
   length (hmac_key key) = 64"
proof -
  have upd: "sha_final (sha_update (sha_update sha_init a) b) = ntc_sha256 (a @ b)" for a b
    using sha_inv_update [OF sha_inv_update [OF sha_inv_init, of a], of b] sha_inv_update [OF sha_inv_init, of "a @ b"]
    by (simp add: ntc_sha256_def sha_final_spec)
  have "length (hmac_key key) = 64"
    by (auto simp: hmac_key_def Let_def)
  then show ?thesis by (simp add: ntc_hmac_sha256_def upd Let_def)
qed

lemma length_hmac [simp]: "length (ntc_hmac_sha256 key msg) = 32"
  using hmac_eq [of key msg] by (simp add: Let_def)

lemma length_b64_group: "g \<noteq> [] \<Longrightarrow> length g \<le> 3 \<Longrightarrow> length (b64_group g) = length g + 1"
  by (auto simp: b64_group_def Let_def)

lemma b64_encode_loop_Some:
  "3 * length out + 4 * length bs + 2 < 3 * cap \<Longrightarrow> \<exists>s. b64_encode_loop bs out cap = Some s"
proof (induction "length bs" arbitrary: bs out rule: less_induct)
  case less
  show ?case
  proof (cases "bs = []")
    case True
    with less(2) show ?thesis by (simp add: b64_encode_loop.simps)
  next
    case False
    let ?g = "b64_group (take 3 bs)"
    have g: "length ?g = length (take 3 bs) + 1" using False by (intro length_b64_group) auto
    have "\<exists>s. b64_encode_loop (drop 3 bs) (out @ ?g) cap = Some s"
    proof (cases "length bs < 3")
      case True
      moreover have "length bs \<noteq> 0" using False by simp
      with True have "length bs = 1 \<or> length bs = 2" by linarith
      ultimately show ?thesis using less(2) g by (auto simp: b64_encode_loop.simps [of "[]"])
    next
      case f: False
      have "length (drop 3 bs) < length bs" using False by simp
      from less(1) [OF this, of "out @ ?g"] less(2) g f show ?thesis by simp
    qed
    moreover have "length out + length ?g < cap" using less(2) g False
      by (cases "length bs < 3") (auto simp: neq_Nil_conv)
    ultimately show ?thesis using False by (simp add: b64_encode_loop_step)
  qed
qed

lemma base64url_encode_Some: "4 * length bs + 2 < 3 * cap \<Longrightarrow> \<exists>s. ntc_base64url_encode bs cap = Some s"
  using b64_encode_loop_Some [of "[]" bs cap] by (simp add: ntc_base64url_encode_def)

lemma ct_eq_iff:
  assumes "n \<le> length a" and "n \<le> length b"
  shows "ntc_ct_eq a b n \<longleftrightarrow> take n a = take n b"
proof -
  have or0: "x OR y = 0 \<longleftrightarrow> x = 0 \<and> y = 0" for x y :: byte
    by (auto simp: bit_eq_iff bit_simps)
  have xor0: "x XOR y = 0 \<longleftrightarrow> x = y" for x y :: byte
    by (auto simp: bit_eq_iff bit_simps)
  have "foldl (\<lambda>d i. d OR (a ! i XOR b ! i)) d [0..<n] = 0 \<longleftrightarrow> d = 0 \<and> (\<forall>i<n. a ! i = b ! i)" for d
    by (induction n) (auto simp: or0 xor0 less_Suc_eq)
  then show ?thesis using assms by (auto simp: ntc_ct_eq_def list_eq_iff_nth_eq)
qed

lemma b64_digit_in: "b64_digit n j \<in> set B64U"
proof -
  have "length B64U = 64" by code_simp
  moreover have "drop_bit (18 - 6 * j) n AND 0x3f = take_bit 6 (drop_bit (18 - 6 * j) n :: u32)"
    by (simp add: take_bit_eq_mask mask_eq_exp_minus_1)
  then have "unat (drop_bit (18 - 6 * j) n AND 0x3f :: u32) < 64"
    using take_bit_nat_less_exp [of 6 "unat (drop_bit (18 - 6 * j) n)"] by (simp add: unsigned_take_bit_eq)
  ultimately show ?thesis by (simp add: b64_digit_def)
qed

lemma b64_encode_chars: "b64_encode_loop bs out cap = Some s \<Longrightarrow> set out \<subseteq> set B64U \<Longrightarrow> set s \<subseteq> set B64U"
proof (induction "length bs" arbitrary: bs out rule: less_induct)
  case less
  show ?case
  proof (cases "bs = []")
    case True
    with less(2,3) show ?thesis by (simp add: b64_encode_loop.simps split: if_splits)
  next
    case False
    then have e: "b64_encode_loop (drop 3 bs) (out @ b64_group (take 3 bs)) cap = Some s"
      using less(2) by (simp add: b64_encode_loop_step split: if_splits)
    have "set (out @ b64_group (take 3 bs)) \<subseteq> set B64U"
      using less(3) b64_digit_in by (auto simp: b64_group_def Let_def)
    from less(1) [OF _ e this] False show ?thesis by simp
  qed
qed

lemma base64url_chars: "ntc_base64url_encode bs cap = Some s \<Longrightarrow> CHR ''.'' \<notin> set s \<and> NUL \<notin> set s"
proof -
  assume "ntc_base64url_encode bs cap = Some s"
  then have "set s \<subseteq> set B64U" using b64_encode_chars [of bs "[]" cap s] by (simp add: ntc_base64url_encode_def)
  moreover have "CHR ''.'' \<notin> set B64U \<and> NUL \<notin> set B64U" by code_simp
  ultimately show ?thesis by blast
qed

lemma base64url_decode_encode:
  "ntc_base64url_encode bs cap = Some s \<Longrightarrow> length bs \<le> n \<Longrightarrow> ntc_base64url_decode s n = Some bs"
  using b64_roundtrip_loop [of bs "[]" cap s "[]" n 0]
  by (simp add: ntc_base64url_encode_def ntc_base64url_decode_def)

subsection \<open>Properties\<close>



end
