(* ===== verification/Arena.thy ===== *)
theory Arena
  imports Err
begin

text \<open>
  The per-request bump allocator (\<open>src/common/arena.c\<close>). A block is the address of its
  \<open>data[]\<close>, its capacity and the bytes consumed; an arena is the chain of its blocks from
  \<open>first\<close> to \<open>cur\<close>, which is always the last one, and the default block size. A destroyed
  arena has no block. Addresses and sizes are 64-bit words and wrap as in C.

  \<open>malloc\<close> is not code of the repository: an operation that may call it takes the address
  it returned (\<open>None\<close> for NULL) as an argument. What the allocator relies on is
  \<open>malloc_ok\<close>: the object does not reach the end of the address space and does not overlap
  a live object. The main result is that memory handed out since the last reset is
  16-byte aligned, inside the arena's blocks and never overlaps.
\<close>

definition NTC_ARENA_ALIGN :: u64 where "NTC_ARENA_ALIGN = 16"
definition NTC_ARENA_DEFAULT_BLOCK :: usize where "NTC_ARENA_DEFAULT_BLOCK = 16 * 1024"

text \<open>\<open>sizeof(ntc_arena_block)\<close>: four 8-byte fields before \<open>data[]\<close>.\<close>

definition block_header :: usize where "block_header = 32"

record ntc_arena_block =
  blk_data :: u64
  blk_cap :: usize
  blk_off :: usize

record ntc_arena =
  ar_blocks :: "ntc_arena_block list"
  ar_block_size :: usize

definition block_new :: "u64 option \<Rightarrow> usize \<Rightarrow> ntc_arena_block option" where
  "block_new mres cap =
     (if cap > - 1 - block_header then None
      else case mres of
             None \<Rightarrow> None
           | Some p \<Rightarrow> Some \<lparr>blk_data = p + block_header, blk_cap = cap, blk_off = 0\<rparr>)"

definition align_up :: "u64 \<Rightarrow> u64 \<Rightarrow> u64" where
  "align_up n a = (n + (a - 1)) AND NOT (a - 1)"

definition ntc_arena_init :: "u64 option \<Rightarrow> usize \<Rightarrow> ntc_err + ntc_arena" where
  "ntc_arena_init mres block_size =
     (let block_size = (if block_size = 0 then NTC_ARENA_DEFAULT_BLOCK else block_size)
      in case block_new mres block_size of
           None \<Rightarrow> Inl NTC_ERR_OOM
         | Some b \<Rightarrow> Inr \<lparr>ar_blocks = [b], ar_block_size = block_size\<rparr>)"

text \<open>The pointer returned (\<open>None\<close> for NULL) and the arena afterwards.\<close>

definition ntc_arena_alloc :: "u64 option \<Rightarrow> ntc_arena \<Rightarrow> usize \<Rightarrow> u64 option \<times> ntc_arena" where
  "ntc_arena_alloc mres a sz =
     (if ar_blocks a = [] then (None, a)
      else
        let sz = (if sz = 0 then 1 else sz)
        in if sz > - 1 - (NTC_ARENA_ALIGN - 1) then (None, a)
           else
             let b = last (ar_blocks a);
                 aligned = align_up (blk_data b + blk_off b) NTC_ARENA_ALIGN;
                 new_off = aligned - blk_data b
             in if new_off > blk_cap b \<or> sz > blk_cap b - new_off
                then
                  let cap = ar_block_size a;
                      need = sz + (NTC_ARENA_ALIGN - 1);
                      cap = (if need > cap then need else cap)
                  in case block_new mres cap of
                       None \<Rightarrow> (None, a)
                     | Some nb \<Rightarrow>
                         let aligned = align_up (blk_data nb) NTC_ARENA_ALIGN;
                             new_off = aligned - blk_data nb
                         in (Some aligned,
                             a\<lparr>ar_blocks := ar_blocks a @ [nb\<lparr>blk_off := new_off + sz\<rparr>]\<rparr>)
                else (Some aligned,
                      a\<lparr>ar_blocks := butlast (ar_blocks a) @ [b\<lparr>blk_off := new_off + sz\<rparr>]\<rparr>))"

text \<open>\<open>ntc_arena_calloc\<close> also clears the object; the memory is a function of the address.\<close>

definition ntc_arena_calloc :: "u64 option \<Rightarrow> ntc_arena \<Rightarrow> usize \<Rightarrow> (nat \<Rightarrow> byte) \<Rightarrow> u64 option \<times> ntc_arena \<times> (nat \<Rightarrow> byte)" where
  "ntc_arena_calloc mres a sz mem =
     (case ntc_arena_alloc mres a sz of
        (None, a1) \<Rightarrow> (None, a1, mem)
      | (Some p, a1) \<Rightarrow>
          (Some p, a1, \<lambda>x. if unat p \<le> x \<and> x < unat p + unat (if sz = 0 then 1 else sz) then 0 else mem x))"

definition ntc_arena_reset :: "ntc_arena \<Rightarrow> ntc_arena" where
  "ntc_arena_reset a =
     (case ar_blocks a of
        [] \<Rightarrow> a
      | b # bs \<Rightarrow> a\<lparr>ar_blocks := [b\<lparr>blk_off := 0\<rparr>]\<rparr>)"

definition ntc_arena_destroy :: "ntc_arena \<Rightarrow> ntc_arena" where
  "ntc_arena_destroy a = \<lparr>ar_blocks = [], ar_block_size = 0\<rparr>"

definition ntc_arena_used :: "ntc_arena \<Rightarrow> usize" where
  "ntc_arena_used a = foldl (\<lambda>total b. total + blk_off b) 0 (ar_blocks a)"

subsection \<open>Regions\<close>

text \<open>Half-open address ranges, as natural numbers.\<close>

type_synonym region = "nat \<times> nat"

definition blk_region :: "ntc_arena_block \<Rightarrow> region" where
  "blk_region b = (unat (blk_data b), unat (blk_data b) + unat (blk_cap b))"

definition blk_used :: "ntc_arena_block \<Rightarrow> region" where
  "blk_used b = (unat (blk_data b), unat (blk_data b) + unat (blk_off b))"

definition inside :: "region \<Rightarrow> region \<Rightarrow> bool" where
  "inside r s \<longleftrightarrow> fst s \<le> fst r \<and> snd r \<le> snd s"

definition disjoint :: "region \<Rightarrow> region \<Rightarrow> bool" where
  "disjoint r s \<longleftrightarrow> snd r \<le> fst s \<or> snd s \<le> fst r"

text \<open>A block whose end, rounded up to the alignment, is still an address.\<close>

definition blk_ok :: "ntc_arena_block \<Rightarrow> bool" where
  "blk_ok b \<longleftrightarrow> blk_off b \<le> blk_cap b \<and> unat (blk_data b) + unat (blk_cap b) + 16 < 2 ^ 64"

text \<open>What a call of \<open>malloc\<close> for a block of capacity \<open>cap\<close> promises if it succeeds.\<close>

definition malloc_ok :: "ntc_arena \<Rightarrow> u64 \<Rightarrow> usize \<Rightarrow> bool" where
  "malloc_ok a p cap \<longleftrightarrow>
     unat p + unat block_header + unat cap + 16 < 2 ^ 64 \<and>
     list_all (\<lambda>b. disjoint (unat p, unat p + unat block_header + unat cap) (blk_region b)) (ar_blocks a)"

lemma align_up_16:
  assumes "unat n + 16 < 2 ^ 64"
  shows "unat (align_up n NTC_ARENA_ALIGN) = (unat n + 15) div 16 * 16"
proof -
  have m: "(15 :: u64) = mask 4" by (simp add: mask_eq_exp_minus_1)
  have e: "(n + 15) AND NOT (15 :: u64) = (n + 15) div 16 * 16"
  proof -
    have "(n + 15) AND NOT (15 :: u64) = push_bit 4 (drop_bit 4 (n + 15))"
      unfolding m by (rule bit_word_eqI) (auto simp: bit_simps)
    then show ?thesis by (simp add: push_bit_eq_mult drop_bit_eq_div)
  qed
  have u: "unat (n + 15) = unat n + 15"
    using assms by (simp add: unat_word_ariths)
  have "(unat n + 15) div 16 * 16 < 2 ^ 64"
    using assms div_times_less_eq_dividend [of "unat n + 15" 16] by simp
  then have "unat ((n + 15) div 16 * 16) = (unat n + 15) div 16 * 16"
    by (simp add: unat_word_ariths unat_div u)
  moreover have "align_up n NTC_ARENA_ALIGN = (n + 15) div 16 * 16"
    unfolding align_up_def NTC_ARENA_ALIGN_def e [symmetric] by simp
  ultimately show ?thesis by simp
qed

lemma round_up_16:
  fixes n :: nat
  shows "n \<le> (n + 15) div 16 * 16" "(n + 15) div 16 * 16 < n + 16" "16 dvd (n + 15) div 16 * 16"
proof -
  show "n \<le> (n + 15) div 16 * 16" "(n + 15) div 16 * 16 < n + 16" by linarith+
qed simp

text \<open>Placing an object in a block: where it goes, when it fits and what the block then uses.\<close>

lemma align_block:
  assumes "blk_ok b" and "aligned = align_up (blk_data b + blk_off b) NTC_ARENA_ALIGN"
  shows "unat aligned = (unat (blk_data b) + unat (blk_off b) + 15) div 16 * 16"
    and "unat (aligned - blk_data b) = unat aligned - unat (blk_data b)"
    and "unat (blk_data b) + unat (blk_off b) \<le> unat aligned"
    and "unat aligned < unat (blk_data b) + unat (blk_off b) + 16"
proof -
  have off: "unat (blk_off b) \<le> unat (blk_cap b)" and
    cap: "unat (blk_data b) + unat (blk_cap b) + 16 < 2 ^ 64"
    using assms(1) by (auto simp: blk_ok_def word_le_nat_alt)
  have 1: "unat (blk_data b + blk_off b) = unat (blk_data b) + unat (blk_off b)"
    using off cap by (simp add: unat_word_ariths)
  with off cap have "unat (blk_data b + blk_off b) + 16 < 2 ^ 64" by simp
  from align_up_16 [OF this] assms(2) 1
  show al: "unat aligned = (unat (blk_data b) + unat (blk_off b) + 15) div 16 * 16" by simp
  with round_up_16 [of "unat (blk_data b) + unat (blk_off b)"]
  show lo: "unat (blk_data b) + unat (blk_off b) \<le> unat aligned"
    and "unat aligned < unat (blk_data b) + unat (blk_off b) + 16" by simp_all
  from lo have "blk_data b \<le> aligned" by (simp add: word_le_nat_alt)
  then show "unat (aligned - blk_data b) = unat aligned - unat (blk_data b)" by (rule unat_sub)
qed

lemma fit_block:
  assumes ok: "blk_ok b" and al: "aligned = align_up (blk_data b + blk_off b) NTC_ARENA_ALIGN"
    and no: "new_off = aligned - blk_data b" and fits: "\<not> (new_off > blk_cap b \<or> sz > blk_cap b - new_off)"
  shows "unat (blk_data b) + unat (new_off + sz) = unat aligned + unat sz"
    and "unat aligned + unat sz \<le> unat (blk_data b) + unat (blk_cap b)"
    and "blk_ok (b\<lparr>blk_off := new_off + sz\<rparr>)"
proof -
  note a = align_block [OF ok al]
  from fits have le: "unat new_off \<le> unat (blk_cap b)" "unat sz \<le> unat (blk_cap b) - unat new_off"
    by (auto simp: word_less_nat_alt word_le_nat_alt unat_sub linorder_not_less)
  then have "unat new_off + unat sz < 2 ^ 64" using unsigned_less [of "blk_cap b", where ?'a = nat] by simp
  then have s: "unat (new_off + sz) = unat new_off + unat sz" by (simp add: unat_word_ariths)
  with a(2,3) no show "unat (blk_data b) + unat (new_off + sz) = unat aligned + unat sz" by simp
  have "unat new_off = unat aligned - unat (blk_data b)" using a(2) no by simp
  with a(3) le show "unat aligned + unat sz \<le> unat (blk_data b) + unat (blk_cap b)" by arith
  show "blk_ok (b\<lparr>blk_off := new_off + sz\<rparr>)" using ok s le by (simp add: blk_ok_def word_le_nat_alt)
qed


subsection \<open>Runs of an arena\<close>

text \<open>The capacity a growing allocation asks for.\<close>

definition grow_cap :: "ntc_arena \<Rightarrow> usize \<Rightarrow> usize" where
  "grow_cap a sz = (let need = (if sz = 0 then 1 else sz) + (NTC_ARENA_ALIGN - 1)
                    in if need > ar_block_size a then need else ar_block_size a)"

definition obj_region :: "u64 \<Rightarrow> usize \<Rightarrow> region" where
  "obj_region p sz = (unat p, unat p + unat (if sz = 0 then 1 else sz))"

text \<open>
  The arenas a program can reach, with the objects handed out since the last reset
  (most recent first).
\<close>

inductive arena_run :: "ntc_arena \<Rightarrow> region list \<Rightarrow> bool" where
  run_init: "ntc_arena_init mres block_size = Inr a \<Longrightarrow>
     (\<And>p. mres = Some p \<Longrightarrow> malloc_ok \<lparr>ar_blocks = [], ar_block_size = 0\<rparr> p (ar_block_size a)) \<Longrightarrow>
     arena_run a []"
| run_alloc: "arena_run a live \<Longrightarrow> (\<And>p. mres = Some p \<Longrightarrow> malloc_ok a p (grow_cap a sz)) \<Longrightarrow>
     ntc_arena_alloc mres a sz = (res, a') \<Longrightarrow>
     arena_run a' (case res of None \<Rightarrow> live | Some q \<Rightarrow> obj_region q sz # live)"
| run_reset: "arena_run a live \<Longrightarrow> arena_run (ntc_arena_reset a) []"
| run_destroy: "arena_run a live \<Longrightarrow> arena_run (ntc_arena_destroy a) []"

definition arena_inv :: "ntc_arena \<Rightarrow> region list \<Rightarrow> bool" where
  "arena_inv a live \<longleftrightarrow>
     list_all blk_ok (ar_blocks a) \<and>
     sorted_wrt (\<lambda>b c. disjoint (blk_region b) (blk_region c)) (ar_blocks a) \<and>
     list_all (\<lambda>r. 16 dvd fst r \<and> list_ex (\<lambda>b. inside r (blk_used b)) (ar_blocks a)) live \<and>
     sorted_wrt disjoint live"

lemma disjoint_sym: "disjoint r s \<Longrightarrow> disjoint s r"
  by (auto simp: disjoint_def)

lemma disjoint_inside: "disjoint r s \<Longrightarrow> inside r' r \<Longrightarrow> inside s' s \<Longrightarrow> disjoint r' s'"
  by (auto simp: disjoint_def inside_def)

lemma blk_ok_used: "blk_ok b \<Longrightarrow> inside (blk_used b) (blk_region b)"
  by (auto simp: blk_ok_def inside_def blk_used_def blk_region_def word_le_nat_alt)

lemma inside_trans: "inside r s \<Longrightarrow> inside s t \<Longrightarrow> inside r t"
  by (auto simp: inside_def)

lemma sorted_wrt_snoc: "sorted_wrt P (xs @ [x]) \<longleftrightarrow> sorted_wrt P xs \<and> list_all (\<lambda>y. P y x) xs"
  by (auto simp: sorted_wrt_append list_all_iff)

text \<open>An object put in the last block at or after the bytes it has used meets nothing.\<close>

lemma arena_inv_bump:
  assumes inv: "arena_inv a live" and bs: "ar_blocks a = bs @ [b]"
    and b': "blk_ok b'" "blk_region b' = blk_region b" "inside (blk_used b) (blk_used b')"
    and r: "snd (blk_used b) \<le> fst r" "inside r (blk_used b')" "16 dvd fst r"
  shows "arena_inv (a\<lparr>ar_blocks := bs @ [b']\<rparr>) (r # live)"
proof -
  have ok: "list_all blk_ok bs" "blk_ok b" and srt: "sorted_wrt (\<lambda>b c. disjoint (blk_region b) (blk_region c)) bs"
    and dj: "list_all (\<lambda>c. disjoint (blk_region c) (blk_region b)) bs"
    using inv by (simp_all add: arena_inv_def bs sorted_wrt_snoc)
  have "disjoint r q" if "q \<in> set live" for q
  proof -
    from inv that obtain c where c: "c \<in> set bs \<or> c = b" "inside q (blk_used c)"
      by (auto simp: arena_inv_def bs list_all_iff list_ex_iff)
    show ?thesis
    proof (cases "c = b")
      case True
      with c(2) r(1) show ?thesis by (auto simp: inside_def disjoint_def)
    next
      case False
      with c dj have "disjoint (blk_region c) (blk_region b)" by (auto simp: list_all_iff)
      moreover have "inside q (blk_region c)" using c ok False blk_ok_used inside_trans by (auto simp: list_all_iff)
      moreover have "inside r (blk_region b)" using r(2) b'(1,2) blk_ok_used inside_trans by metis
      ultimately show ?thesis using disjoint_inside disjoint_sym by blast
    qed
  qed
  moreover have "list_ex (\<lambda>c. inside q (blk_used c)) (bs @ [b'])" if q: "q \<in> set live" for q
  proof -
    from inv q obtain c where "c \<in> set bs \<or> c = b" "inside q (blk_used c)"
      by (auto simp: arena_inv_def bs list_all_iff list_ex_iff)
    then show ?thesis using inside_trans [of q "blk_used b", OF _ b'(3)] by (auto simp: list_ex_iff)
  qed
  moreover have "16 dvd fst q" if "q \<in> set live" for q using inv that by (auto simp: arena_inv_def list_all_iff)
  moreover have "sorted_wrt disjoint live" using inv by (simp add: arena_inv_def)
  ultimately have "list_all (\<lambda>r. 16 dvd fst r \<and> list_ex (\<lambda>b. inside r (blk_used b)) (bs @ [b'])) (r # live)"
    "sorted_wrt disjoint (r # live)"
    using r(2,3) by (simp_all add: list_all_iff)
  then show ?thesis using b'(1,2) ok(1) srt dj by (simp add: arena_inv_def sorted_wrt_snoc)
qed

lemma arena_inv_grow:
  assumes inv: "arena_inv a live" and nb: "blk_ok nb" "blk_off nb = 0"
    and dj: "list_all (\<lambda>c. disjoint (blk_region nb) (blk_region c)) (ar_blocks a)"
  shows "arena_inv (a\<lparr>ar_blocks := ar_blocks a @ [nb]\<rparr>) live"
proof -
  have "list_all (\<lambda>c. disjoint (blk_region c) (blk_region nb)) (ar_blocks a)"
    using dj disjoint_sym by (auto simp: list_all_iff)
  with inv nb show ?thesis by (auto simp: arena_inv_def sorted_wrt_snoc list_all_iff)
qed

lemma block_new_ok:
  assumes "block_new mres cap = Some nb" "\<And>p. mres = Some p \<Longrightarrow> malloc_ok a p cap"
  shows "blk_ok nb \<and> blk_off nb = 0 \<and> blk_cap nb = cap \<and>
    list_all (\<lambda>c. disjoint (blk_region nb) (blk_region c)) (ar_blocks a)"
proof -
  from assms(1) obtain p where p: "mres = Some p" "nb = \<lparr>blk_data = p + block_header, blk_cap = cap, blk_off = 0\<rparr>"
    by (auto simp: block_new_def split: if_splits option.splits)
  from assms(2) [OF p(1)] have m: "unat p + 32 + unat cap + 16 < 2 ^ 64"
    "list_all (\<lambda>b. disjoint (unat p, unat p + 32 + unat cap) (blk_region b)) (ar_blocks a)"
    by (simp_all add: malloc_ok_def block_header_def)
  have "unat (p + block_header) = unat p + 32" using m(1) by (simp add: block_header_def unat_word_ariths)
  then have "inside (blk_region nb) (unat p, unat p + 32 + unat cap)" "blk_ok nb"
    using m(1) by (simp_all add: p inside_def blk_region_def blk_ok_def)
  with m(2) show ?thesis by (auto simp: p(2) list_all_iff disjoint_def inside_def)
qed

text \<open>One allocation from a well-formed arena, whether it fits or grows.\<close>

lemma place_ok:
  assumes inv: "arena_inv a live" and bs: "ar_blocks a = bs @ [b]"
    and al: "aligned = align_up (blk_data b + blk_off b) NTC_ARENA_ALIGN"
    and no: "new_off = aligned - blk_data b" and fits: "\<not> (new_off > blk_cap b \<or> sz' > blk_cap b - new_off)"
    and sz': "sz' = (if sz = 0 then 1 else sz)"
  shows "arena_inv (a\<lparr>ar_blocks := bs @ [b\<lparr>blk_off := new_off + sz'\<rparr>]\<rparr>) (obj_region aligned sz # live)"
proof (rule arena_inv_bump [OF inv bs])
  have ok: "blk_ok b" using inv by (simp add: arena_inv_def bs)
  note f = fit_block [OF ok al no fits] and a = align_block [OF ok al]
  show "blk_ok (b\<lparr>blk_off := new_off + sz'\<rparr>)" by (rule f)
  show "blk_region (b\<lparr>blk_off := new_off + sz'\<rparr>) = blk_region b" by (simp add: blk_region_def)
  show "snd (blk_used b) \<le> fst (obj_region aligned sz)" using a by (simp add: blk_used_def obj_region_def)
  show "16 dvd fst (obj_region aligned sz)" using a by (simp add: obj_region_def)
  show "inside (blk_used b) (blk_used (b\<lparr>blk_off := new_off + sz'\<rparr>))"
    using a(3) f(1) by (simp add: inside_def blk_used_def)
  show "inside (obj_region aligned sz) (blk_used (b\<lparr>blk_off := new_off + sz'\<rparr>))"
    using a(3) f(1) sz' by (simp add: inside_def blk_used_def obj_region_def)
qed


lemma alloc_unfold:
  assumes "ar_blocks a = bs @ [b]" "sz' = (if sz = 0 then 1 else sz)"
    "al = align_up (blk_data b + blk_off b) NTC_ARENA_ALIGN" "no = al - blk_data b"
  shows "ntc_arena_alloc mres a sz =
    (if sz' > - 1 - (NTC_ARENA_ALIGN - 1) then (None, a)
     else if no > blk_cap b \<or> sz' > blk_cap b - no
     then (case block_new mres (grow_cap a sz) of
             None \<Rightarrow> (None, a)
           | Some nb \<Rightarrow>
               (Some (align_up (blk_data nb) NTC_ARENA_ALIGN),
                a\<lparr>ar_blocks := ar_blocks a @
                    [nb\<lparr>blk_off := align_up (blk_data nb) NTC_ARENA_ALIGN - blk_data nb + sz'\<rparr>]\<rparr>))
     else (Some al, a\<lparr>ar_blocks := bs @ [b\<lparr>blk_off := no + sz'\<rparr>]\<rparr>))"
  using assms(1) unfolding ntc_arena_alloc_def grow_cap_def Let_def assms(2) assms(4) assms(3) by simp

text \<open>A fresh block always has room for the object it was made for.\<close>

lemma grown_fits:
  assumes nb: "blk_ok nb" "blk_off nb = 0" "blk_cap nb = grow_cap a sz"
    and sz': "sz' = (if sz = 0 then 1 else sz)" "\<not> sz' > - 1 - (NTC_ARENA_ALIGN - 1)"
    and al: "al = align_up (blk_data nb) NTC_ARENA_ALIGN"
  shows "\<not> (al - blk_data nb > blk_cap nb \<or> sz' > blk_cap nb - (al - blk_data nb))"
proof -
  have a: "unat (al - blk_data nb) < 16"
    using align_block [OF nb(1), of al] al nb(2) by auto
  have "unat sz' + 15 < 2 ^ 64"
    using sz'(2) unsigned_less [of sz', where ?'a = nat]
    by (simp add: NTC_ARENA_ALIGN_def word_less_nat_alt linorder_not_less)
  then have "unat (sz' + 15) = unat sz' + 15" by (simp add: unat_word_ariths)
  moreover have "sz' + 15 \<le> blk_cap nb"
    using nb(3) sz'(1) by (auto simp: grow_cap_def NTC_ARENA_ALIGN_def Let_def)
  ultimately have "unat sz' + 15 \<le> unat (blk_cap nb)" by (simp add: word_le_nat_alt)
  with a have "unat (al - blk_data nb) \<le> unat (blk_cap nb)" "unat sz' \<le> unat (blk_cap nb) - unat (al - blk_data nb)"
    by simp_all
  then show ?thesis by (simp add: word_less_nat_alt word_le_nat_alt linorder_not_less unat_sub)
qed

lemma arena_inv_alloc:
  assumes inv: "arena_inv a live" and m: "\<And>p. mres = Some p \<Longrightarrow> malloc_ok a p (grow_cap a sz)"
    and al: "ntc_arena_alloc mres a sz = (res, a')"
  shows "arena_inv a' (case res of None \<Rightarrow> live | Some q \<Rightarrow> obj_region q sz # live)"
proof (cases "ar_blocks a = []")
  case True
  with al inv show ?thesis by (auto simp: ntc_arena_alloc_def)
next
  case False
  then obtain bs b where bs: "ar_blocks a = bs @ [b]" by (metis append_butlast_last_id)
  define sz' where sz': "sz' = (if sz = 0 then 1 else sz)"
  define p where p: "p = align_up (blk_data b + blk_off b) NTC_ARENA_ALIGN"
  define no where no: "no = p - blk_data b"
  note u = alloc_unfold [OF bs sz' p no, of mres, unfolded al]
  consider "res = None" "a' = a"
    | "\<not> sz' > - 1 - (NTC_ARENA_ALIGN - 1)" "\<not> (no > blk_cap b \<or> sz' > blk_cap b - no)"
      "res = Some p" "a' = a\<lparr>ar_blocks := bs @ [b\<lparr>blk_off := no + sz'\<rparr>]\<rparr>"
    | nb where "\<not> sz' > - 1 - (NTC_ARENA_ALIGN - 1)" "block_new mres (grow_cap a sz) = Some nb"
      "res = Some (align_up (blk_data nb) NTC_ARENA_ALIGN)"
      "a' = a\<lparr>ar_blocks := ar_blocks a @
         [nb\<lparr>blk_off := align_up (blk_data nb) NTC_ARENA_ALIGN - blk_data nb + sz'\<rparr>]\<rparr>"
    using u by (auto split: if_splits option.splits)
  then show ?thesis
  proof cases
    case 1 with inv show ?thesis by simp
  next
    case 2
    with place_ok [OF inv bs p no 2(2) sz'] show ?thesis by simp
  next
    case (3 nb)
    have nb: "blk_ok nb" "blk_off nb = 0" "blk_cap nb = grow_cap a sz"
      "list_all (\<lambda>c. disjoint (blk_region nb) (blk_region c)) (ar_blocks a)"
      using block_new_ok [OF 3(2) m] by simp_all
    have "align_up (blk_data nb) NTC_ARENA_ALIGN = align_up (blk_data nb + blk_off nb) NTC_ARENA_ALIGN"
      by (simp add: nb(2))
    from place_ok [OF arena_inv_grow [OF inv nb(1,2,4)] _ this refl grown_fits [OF nb(1-3) sz' 3(1) refl] sz', of "ar_blocks a"]
    show ?thesis by (simp add: 3)
  qed
qed

lemma arena_run_inv: "arena_run a live \<Longrightarrow> arena_inv a live"
proof (induction rule: arena_run.induct)
  case (run_init mres block_size a)
  then show ?case
    using block_new_ok [of mres "ar_block_size a" _ "\<lparr>ar_blocks = [], ar_block_size = 0\<rparr>"]
    by (auto simp: ntc_arena_init_def Let_def arena_inv_def split: option.splits if_splits)
next
  case (run_alloc a live mres sz res a')
  from run_alloc(4) run_alloc(2,3) show ?case using arena_inv_alloc by blast
next
  case (run_reset a live)
  then show ?case
    by (cases "ar_blocks a") (auto simp: ntc_arena_reset_def arena_inv_def blk_ok_def)
qed (simp add: ntc_arena_destroy_def arena_inv_def)


text \<open>Clearing a new object leaves the contents of every other one alone.\<close>

lemma calloc_zeroes:
  assumes "arena_inv a live" "\<And>p. mres = Some p \<Longrightarrow> malloc_ok a p (grow_cap a sz)" "ntc_arena_calloc mres a sz mem = (Some q, a', mem')"
  shows "\<forall>x. fst (obj_region q sz) \<le> x \<longrightarrow> x < snd (obj_region q sz) \<longrightarrow> mem' x = 0"
    and "r \<in> set live \<Longrightarrow> fst r \<le> x \<Longrightarrow> x < snd r \<Longrightarrow> mem' x = mem x"
proof -
  have al: "ntc_arena_alloc mres a sz = (Some q, a')"
    and m: "mem' = (\<lambda>x. if fst (obj_region q sz) \<le> x \<and> x < snd (obj_region q sz) then 0 else mem x)"
    using assms(3) by (auto simp: ntc_arena_calloc_def obj_region_def split: prod.splits option.splits)
  show "\<forall>x. fst (obj_region q sz) \<le> x \<longrightarrow> x < snd (obj_region q sz) \<longrightarrow> mem' x = 0" by (simp add: m)
  have "arena_inv a' (obj_region q sz # live)" using arena_inv_alloc [OF assms(1,2) al] by simp
  then show "r \<in> set live \<Longrightarrow> fst r \<le> x \<Longrightarrow> x < snd r \<Longrightarrow> mem' x = mem x"
    by (auto simp: arena_inv_def disjoint_def m)
qed

subsection \<open>Properties\<close>

text \<open>
  C38 (\<open>arena_objects\<close>): whatever the sequence of allocations, resets and growths, every
  object handed out since the last reset is 16-byte aligned, lies inside a block of the
  arena, and no two of them overlap.
\<close>

theorem arena_objects:
  assumes "arena_run a live"
  shows "sorted_wrt disjoint live \<and>
    (\<forall>r \<in> set live. 16 dvd fst r \<and> (\<exists>b \<in> set (ar_blocks a). inside r (blk_region b)))"
proof -
  have inv: "arena_inv a live" using assms by (rule arena_run_inv)
  have "\<exists>b \<in> set (ar_blocks a). inside r (blk_region b)" if r: "r \<in> set live" for r
  proof -
    from inv r obtain b where b: "b \<in> set (ar_blocks a)" "inside r (blk_used b)" "blk_ok b"
      by (auto simp: arena_inv_def list_all_iff list_ex_iff)
    from inside_trans [OF b(2) blk_ok_used [OF b(3)]] b(1) show ?thesis by blast
  qed
  with inv show ?thesis by (auto simp: arena_inv_def list_all_iff)
qed

text \<open>
  C39 (\<open>arena_alloc_succeeds\<close>): while the arena has a block, an allocation of a size that
  leaves room for the alignment and the block header fails only if \<open>malloc\<close> does.
\<close>

theorem arena_alloc_succeeds:
  assumes "ar_blocks a \<noteq> []" and "unat sz + 15 + 32 < 2 ^ 64" and "unat (ar_block_size a) + 32 < 2 ^ 64"
  shows "\<exists>q a'. ntc_arena_alloc (Some p) a sz = (Some q, a')"
proof -
  from assms(1) obtain bs b where bs: "ar_blocks a = bs @ [b]" by (metis append_butlast_last_id)
  define sz' where sz': "sz' = (if sz = 0 then 1 else sz)"
  have s: "unat sz' + 15 + 32 < 2 ^ 64" using assms(2) by (simp add: sz')
  then have n: "\<not> sz' > - 1 - (NTC_ARENA_ALIGN - 1)"
    by (simp add: NTC_ARENA_ALIGN_def word_less_nat_alt linorder_not_less)
  have "unat (sz' + 15) = unat sz' + 15" using s by (simp add: unat_word_ariths)
  then have "unat (grow_cap a sz) + 32 < 2 ^ 64"
    using s assms(3) by (auto simp: grow_cap_def NTC_ARENA_ALIGN_def Let_def sz' split: if_splits)
  then have "\<exists>nb. block_new (Some p) (grow_cap a sz) = Some nb"
    by (auto simp: block_new_def block_header_def word_less_nat_alt linorder_not_less)
  then show ?thesis using n by (auto simp: alloc_unfold [OF bs sz' refl refl])
qed

text \<open>A concrete run: a 64-byte arena at address 4096 that fits one object and grows for the next.\<close>

definition sample_arena :: ntc_arena where
  "sample_arena = \<lparr>ar_blocks = [\<lparr>blk_data = 4128, blk_cap = 64, blk_off = 40\<rparr>,
                                \<lparr>blk_data = 8224, blk_cap = 64, blk_off = 48\<rparr>], ar_block_size = 64\<rparr>"

lemma sample_arena_run: "arena_run sample_arena [(8224, 8272), (4128, 4168)]"
proof -
  have 1: "arena_run \<lparr>ar_blocks = [\<lparr>blk_data = 4128, blk_cap = 64, blk_off = 0\<rparr>], ar_block_size = 64\<rparr> []"
    by (rule run_init [of "Some 4096" 64]) (code_simp, simp add: malloc_ok_def block_header_def)
  have "ntc_arena_alloc None \<lparr>ar_blocks = [\<lparr>blk_data = 4128, blk_cap = 64, blk_off = 0\<rparr>], ar_block_size = 64\<rparr> 40 =
      (Some 4128, \<lparr>ar_blocks = [\<lparr>blk_data = 4128, blk_cap = 64, blk_off = 40\<rparr>], ar_block_size = 64\<rparr>)" by code_simp
  from run_alloc [OF 1 _ this]
  have 2: "arena_run \<lparr>ar_blocks = [\<lparr>blk_data = 4128, blk_cap = 64, blk_off = 40\<rparr>], ar_block_size = 64\<rparr> [(4128, 4168)]"
    by (simp add: obj_region_def)
  have "ntc_arena_alloc (Some 8192) \<lparr>ar_blocks = [\<lparr>blk_data = 4128, blk_cap = 64, blk_off = 40\<rparr>], ar_block_size = 64\<rparr> 48 =
      (Some 8224, sample_arena)" by code_simp
  from run_alloc [OF 2 _ this] show ?thesis
    by (simp add: obj_region_def malloc_ok_def block_header_def grow_cap_def NTC_ARENA_ALIGN_def disjoint_def blk_region_def)
qed

theorem arena_objects_witness:
  "sorted_wrt disjoint [(8224, 8272), (4128, 4168)] \<and>
   list_all (\<lambda>r. 16 dvd fst r \<and> list_ex (\<lambda>b. inside r (blk_region b)) (ar_blocks sample_arena))
     [(8224, 8272), (4128, 4168)]"
  unfolding list_all_iff list_ex_iff by (rule arena_objects [OF sample_arena_run])

theorem arena_alloc_succeeds_witness: "\<exists>q a'. ntc_arena_alloc (Some 16384) sample_arena 1000 = (Some q, a')"
  by (rule arena_alloc_succeeds) (simp_all add: sample_arena_def)

end
