(* ===== verification/Json.thy ===== *)
theory Json
  imports Complex_Main Slice
begin

text \<open>
  The JSON parser, escaper and serialiser (\<open>src/common/json.c\<close>). A parsed value is a tree
  with the source's six node types; \<open>P\<close>, the parser's cursor, is the input that is left,
  and \<open>err\<close> is the value \<open>None\<close>: once the flag is set no call of the parser gives a value
  any more. The arena's allocations are taken to succeed (a failed one sets \<open>err\<close>).

  A C \<open>double\<close> is a finite rational or an infinity (the number syntax the parser admits
  gives no NaN). \<open>strtod\<close> is the exact decimal value of the longest numeric prefix,
  rounded by \<open>rnd\<close>, the rounding of the floating-point format, which is a parameter of the
  parser; \<open>%g\<close> is the parameter \<open>fmt_g\<close> of the serialiser.
\<close>

definition NTC_JSON_MAX_MEMBERS :: nat where "NTC_JSON_MAX_MEMBERS = 64"
definition NTC_JSON_MAX_DEPTH :: nat where "NTC_JSON_MAX_DEPTH = 32"

datatype double_t = Fin rat | Infty bool \<comment> \<open>\<open>Infty True\<close> is the negative infinity\<close>

datatype ntc_json =
    NTC_JSON_NULL
  | NTC_JSON_BOOL bool
  | NTC_JSON_NUM double_t
  | NTC_JSON_STR ntc_slice
  | NTC_JSON_ARR "ntc_json list"
  | NTC_JSON_OBJ "(ntc_slice \<times> ntc_json) list"

subsection \<open>Numbers\<close>

definition dig :: "char \<Rightarrow> bool" where
  "dig c = c_in CHR ''0'' CHR ''9'' c"

definition digits_val :: "string \<Rightarrow> nat" where
  "digits_val ds = foldl (\<lambda>n c. n * 10 + (ccode c - 48)) 0 ds"

text \<open>
  The decimal subject sequence of \<open>strtod\<close>: sign, digits with an optional point (at least
  one digit), then an exponent if \<open>e\<close> is followed by an optional sign and a digit. Without a
  digit there is no conversion and the value is 0.
\<close>

definition take_sign :: "string \<Rightarrow> bool \<times> string" where
  "take_sign s = (case s of c # r \<Rightarrow> if c = CHR ''-'' then (True, r) else if c = CHR ''+'' then (False, r) else (False, s)
                          | [] \<Rightarrow> (False, s))"

definition exponent :: "string \<Rightarrow> int" where
  "exponent s =
     (case s of
        c # r \<Rightarrow>
          if c = CHR ''e'' \<or> c = CHR ''E''
          then (let (neg, r) = take_sign r; ds = takeWhile dig r
                in (if neg then - 1 else 1) * int (digits_val ds))
          else 0
      | [] \<Rightarrow> 0)"

definition decimal_value :: "string \<Rightarrow> rat" where
  "decimal_value s =
     (let (neg, s) = take_sign s;
          ip = takeWhile dig s; s = dropWhile dig s;
          (fp, s) = (case s of
                       c # r \<Rightarrow> if c = CHR ''.'' then (takeWhile dig r, dropWhile dig r) else ([], s)
                     | [] \<Rightarrow> ([], s))
      in if ip = [] \<and> fp = [] then 0
         else
           let m = of_nat (digits_val (ip @ fp)) / 10 ^ length fp;
               e = exponent s;
               v = (if e \<ge> 0 then m * 10 ^ nat e else m / 10 ^ nat (- e))
           in if neg then - v else v)"

definition strtod :: "(rat \<Rightarrow> double_t) \<Rightarrow> string \<Rightarrow> double_t" where
  "strtod rnd s = rnd (decimal_value s)"

subsection \<open>Strings\<close>

definition json_ws :: "char \<Rightarrow> bool" where
  "json_ws c \<longleftrightarrow> c = CHR '' '' \<or> c = CHR 0x09 \<or> c = LF \<or> c = CR"

definition skip_ws :: "string \<Rightarrow> string" where
  "skip_ws s = dropWhile json_ws s"

definition json_hex :: "char \<Rightarrow> nat option" where
  "json_hex h =
     (if c_in CHR ''0'' CHR ''9'' h then Some (ccode h - 48)
      else if c_in CHR ''a'' CHR ''f'' h then Some (ccode h - 97 + 10)
      else if c_in CHR ''A'' CHR ''F'' h then Some (ccode h - 65 + 10)
      else None)"

text \<open>
  The four hex digits of \<open>\u\<close>: the code point so far, the input after the digits read and
  whether one was not hexadecimal (which ends the loop with \<open>cp\<close> already shifted).
\<close>

fun hex_loop :: "nat \<Rightarrow> nat \<Rightarrow> string \<Rightarrow> nat \<times> string \<times> bool" where
  "hex_loop 0 cp s = (cp, s, False)"
| "hex_loop (Suc n) cp s =
     (case s of
        [] \<Rightarrow> (cp, [], False)
      | h # s' \<Rightarrow>
          (case json_hex h of
             Some v \<Rightarrow> hex_loop n (cp * 16 + v) s'
           | None \<Rightarrow> (cp * 16, s', True)))"

definition utf8 :: "nat \<Rightarrow> string" where
  "utf8 cp =
     (if cp < 0x80 then [char_of cp]
      else if cp < 0x800 then [char_of (0xC0 + cp div 64), char_of (0x80 + cp mod 64)]
      else [char_of (0xE0 + cp div 4096), char_of (0x80 + (cp div 64) mod 64), char_of (0x80 + cp mod 64)])"

text \<open>The two-character escapes.\<close>

definition unescape :: "char \<Rightarrow> char option" where
  "unescape e =
     (if e = DQ then Some DQ
      else if e = BSL then Some BSL
      else if e = CHR ''/'' then Some CHR ''/''
      else if e = CHR ''b'' then Some CHR 0x08
      else if e = CHR ''f'' then Some CHR 0x0C
      else if e = CHR ''n'' then Some LF
      else if e = CHR ''r'' then Some CR
      else if e = CHR ''t'' then Some CHR 0x09
      else None)"

lemma hex_loop_shrinks: "length (fst (snd (hex_loop n cp s))) \<le> length s"
proof (induction n arbitrary: cp s)
  case (Suc n)
  show ?case
  proof (cases s)
    case (Cons h t)
    with Suc [of _ t] show ?thesis by (auto split: option.split intro: le_SucI)
  qed simp
qed simp

text \<open>The body of a string: what is in the buffer, the input left at the loop's end, the flag.\<close>

function str_loop :: "string \<Rightarrow> string \<Rightarrow> bool \<Rightarrow> string \<times> string \<times> bool" where
  "str_loop [] out err = (out, [], err)"
| "str_loop (c # s) out err =
     (if c = DQ then (out, c # s, err)
      else if c \<noteq> BSL then str_loop s (out @ [c]) err
      else
        case s of
          [] \<Rightarrow> (out, [], True)
        | e # s' \<Rightarrow>
            (case unescape e of
               Some x \<Rightarrow> str_loop s' (out @ [x]) err
             | None \<Rightarrow>
                 if e = CHR ''u''
                 then (if length s' < 4 then str_loop s' out True
                       else str_loop (fst (snd (hex_loop 4 0 s'))) (out @ utf8 (fst (hex_loop 4 0 s')))
                              (err \<or> snd (snd (hex_loop 4 0 s'))))
                 else str_loop s' out True))"
  by pat_completeness auto
termination
  by (relation "measure (\<lambda>(s, _, _). length s)") (auto simp: less_Suc_eq_le intro!: le_SucI hex_loop_shrinks)

text \<open>From the opening quote: the string and the input after the closing quote.\<close>

definition parse_string :: "string \<Rightarrow> (ntc_slice \<times> string) option" where
  "parse_string s =
     (case str_loop (tl s) [] False of
        (out, r, err) \<Rightarrow>
          (case r of
             c # r' \<Rightarrow> if err then None else Some (out, r')
           | [] \<Rightarrow> None))"

subsection \<open>Values\<close>

definition num_char :: "char \<Rightarrow> bool" where
  "num_char c \<longleftrightarrow> c = CHR ''-'' \<or> c = CHR ''+'' \<or> c = CHR ''.'' \<or> c = CHR ''e'' \<or> c = CHR ''E'' \<or> dig c"

lemma str_loop_shrinks: "length (fst (snd (str_loop s out err))) \<le> length s"
proof (induction "length s" arbitrary: s out err rule: less_induct)
  case less
  have step: "length (fst (snd (str_loop t o' e'))) \<le> length s" if "length t < length s" for t o' e'
    using less [OF that] that by (meson le_trans less_imp_le)
  consider "s = []" | c where "s = [c]" | c e u where "s = c # e # u"
    by (metis neq_Nil_conv)
  then show ?case
  proof cases
    case (2 c)
    with step [of "[]"] show ?thesis by simp
  next
    case (3 c e u)
    have "length (fst (snd (hex_loop 4 0 u))) < length s" using hex_loop_shrinks [of 4 0 u] 3 by simp
    then have "length (fst (snd (str_loop (fst (snd (hex_loop 4 0 u))) o' e'))) \<le> Suc (Suc (length u))"
      "length (fst (snd (str_loop u o' e'))) \<le> Suc (Suc (length u))"
      "length (fst (snd (str_loop (e # u) o' e'))) \<le> Suc (Suc (length u))" for o' e'
      using step [of "fst (snd (hex_loop 4 0 u))"] step [of u] step [of "e # u"] 3 by simp_all
    then show ?thesis unfolding 3 by (simp del: str_loop.simps add: str_loop.simps(2) [of c] split: option.split)
  qed simp
qed

lemma parse_string_shrinks: "parse_string s = Some (k, r) \<Longrightarrow> length r < length s"
proof -
  assume "parse_string s = Some (k, r)"
  then obtain out err c where l: "str_loop (tl s) [] False = (out, c # r, err)"
    by (auto simp: parse_string_def split: list.splits prod.splits if_splits)
  then have "length (c # r) \<le> length (tl s)" using str_loop_shrinks [of "tl s" "[]" False] by simp
  then show ?thesis by simp
qed

lemma skip_ws_shrinks: "length (skip_ws s) \<le> length s"
  unfolding skip_ws_def by (rule length_dropWhile_le)

lemma skip_ws_Cons_shrinks: "skip_ws s = c # r \<Longrightarrow> length r < length s"
  using skip_ws_shrinks [of s] by simp

definition add_member :: "'a list \<Rightarrow> 'a \<Rightarrow> 'a list" where
  "add_member acc x = (if length acc < NTC_JSON_MAX_MEMBERS then acc @ [x] else acc)"

text \<open>
  \<open>parse_value\<close> and its two member loops. \<open>d\<close> is \<open>s->depth\<close> on entry. The comparisons of
  lengths hold always (\<open>parse_value_shrinks\<close>): they make the recursion on the input
  visible.
\<close>

function parse_value :: "(rat \<Rightarrow> double_t) \<Rightarrow> nat \<Rightarrow> string \<Rightarrow> (ntc_json \<times> string) option"
and obj_loop :: "(rat \<Rightarrow> double_t) \<Rightarrow> nat \<Rightarrow> (ntc_slice \<times> ntc_json) list \<Rightarrow> string \<Rightarrow> (ntc_json \<times> string) option"
and arr_loop :: "(rat \<Rightarrow> double_t) \<Rightarrow> nat \<Rightarrow> ntc_json list \<Rightarrow> string \<Rightarrow> (ntc_json \<times> string) option" where
  "parse_value rnd d s =
     (if d + 1 > NTC_JSON_MAX_DEPTH then None
      else
        case skip_ws s of
          [] \<Rightarrow> None
        | c # r \<Rightarrow>
            if c = CHR ''{''
            then (if take 1 (skip_ws r) = ''}'' then Some (NTC_JSON_OBJ [], drop 1 (skip_ws r))
                  else obj_loop rnd (d + 1) [] r)
            else if c = CHR ''[''
            then (if take 1 (skip_ws r) = '']'' then Some (NTC_JSON_ARR [], drop 1 (skip_ws r))
                  else arr_loop rnd (d + 1) [] r)
            else if c = DQ then map_option (\<lambda>(x, r'). (NTC_JSON_STR x, r')) (parse_string (c # r))
            else if c = CHR ''t''
            then (if take 4 (c # r) = ''true'' then Some (NTC_JSON_BOOL True, drop 4 (c # r)) else None)
            else if c = CHR ''f''
            then (if take 5 (c # r) = ''false'' then Some (NTC_JSON_BOOL False, drop 5 (c # r)) else None)
            else if c = CHR ''n''
            then (if take 4 (c # r) = ''null'' then Some (NTC_JSON_NULL, drop 4 (c # r)) else None)
            else if c = CHR ''-'' \<or> dig c
            then Some (NTC_JSON_NUM (strtod rnd (take 63 (takeWhile num_char (c # r)))),
                       dropWhile num_char (c # r))
            else None)"
| "obj_loop rnd d acc s =
     (if take 1 (skip_ws s) \<noteq> [DQ] then None
      else
        case parse_string (skip_ws s) of
          None \<Rightarrow> None
        | Some (k, r) \<Rightarrow>
            (case skip_ws r of
               [] \<Rightarrow> None
             | c # r' \<Rightarrow>
                 if c \<noteq> CHR '':'' \<or> \<not> length r' < length s then None
                 else
                   case parse_value rnd d r' of
                     None \<Rightarrow> None
                   | Some (v, t) \<Rightarrow>
                       (case skip_ws t of
                          [] \<Rightarrow> None
                        | c # t' \<Rightarrow>
                            if c = CHR '','' \<and> length t' < length s
                            then obj_loop rnd d (add_member acc (k, v)) t'
                            else if c = CHR ''}'' then Some (NTC_JSON_OBJ (add_member acc (k, v)), t')
                            else None)))"
| "arr_loop rnd d acc s =
     (case parse_value rnd d s of
        None \<Rightarrow> None
      | Some (v, t) \<Rightarrow>
          (case skip_ws t of
             [] \<Rightarrow> None
           | c # t' \<Rightarrow>
               if c = CHR '','' \<and> length t' < length s
               then arr_loop rnd d (add_member acc v) t'
               else if c = CHR '']'' then Some (NTC_JSON_ARR (add_member acc v), t')
               else None))"
  by pat_completeness auto
termination
  by (relation "measure (\<lambda>x. case x of Inl (_, _, s) \<Rightarrow> 2 * length s
        | Inr (Inl (_, _, _, s)) \<Rightarrow> 2 * length s + 1 | Inr (Inr (_, _, _, s)) \<Rightarrow> 2 * length s + 1)")
    (auto dest: skip_ws_Cons_shrinks)

declare parse_value.simps [simp del, loop_simps] obj_loop.simps [simp del, loop_simps] arr_loop.simps [simp del, loop_simps]

definition ntc_json_parse :: "(rat \<Rightarrow> double_t) \<Rightarrow> string \<Rightarrow> ntc_json option" where
  "ntc_json_parse rnd buf = map_option fst (parse_value rnd 0 buf)"

subsection \<open>Accessors\<close>

fun ntc_json_get :: "ntc_json \<Rightarrow> string \<Rightarrow> ntc_json option" where
  "ntc_json_get (NTC_JSON_OBJ ms) key = map_of ms (ntc_slice_cstr key)"
| "ntc_json_get _ key = None"

fun ntc_json_str :: "ntc_json option \<Rightarrow> ntc_slice" where
  "ntc_json_str (Some (NTC_JSON_STR s)) = s"
| "ntc_json_str _ = []"

fun ntc_json_num :: "ntc_json option \<Rightarrow> double_t" where
  "ntc_json_num (Some (NTC_JSON_NUM n)) = n"
| "ntc_json_num _ = Fin 0"

subsection \<open>Escaping and serialisation\<close>

definition fmt_u04x :: "nat \<Rightarrow> string" where
  \<comment> \<open>the conversion of \<open>\u%04x\<close> for a code below 256\<close>
  "fmt_u04x n = BSL # ''u00'' @ [hex_digit (n div 16), hex_digit (n mod 16)]"

definition esc_char :: "char \<Rightarrow> string" where
  "esc_char c =
     (if c = DQ then [BSL, DQ]
      else if c = BSL then [BSL, BSL]
      else if c = LF then BSL # ''n''
      else if c = CR then BSL # ''r''
      else if c = CHR 0x09 then BSL # ''t''
      else if c = CHR 0x08 then BSL # ''b''
      else if c = CHR 0x0C then BSL # ''f''
      else if ccode c < 0x20 then fmt_u04x (ccode c)
      else [c])"

fun escape_loop :: "nat \<Rightarrow> string \<Rightarrow> ntc_slice \<Rightarrow> string option" where
  "escape_loop cap out [] = (if length out \<ge> cap then None else Some out)"
| "escape_loop cap out (c # cs) =
     (if length out + length (esc_char c) \<ge> cap then None else escape_loop cap (out @ esc_char c) cs)"

definition ntc_json_escape :: "nat \<Rightarrow> ntc_slice \<Rightarrow> string option" where
  "ntc_json_escape cap src = escape_loop cap [] src"

definition app :: "nat \<Rightarrow> string \<Rightarrow> string option \<Rightarrow> string option" where
  \<comment> \<open>\<open>APP\<close> and \<open>APC\<close>: append unless the terminating NUL would not fit\<close>
  "app cap s o' = (case o' of None \<Rightarrow> None | Some out \<Rightarrow> if length out + length s \<ge> cap then None else Some (out @ s))"

definition app_escaped :: "nat \<Rightarrow> ntc_slice \<Rightarrow> string option \<Rightarrow> string option" where
  "app_escaped cap s o' =
     (case o' of None \<Rightarrow> None
               | Some out \<Rightarrow> (case ntc_json_escape (cap - length out) s of None \<Rightarrow> None | Some e \<Rightarrow> Some (out @ e)))"

definition fmt_num :: "(rat \<Rightarrow> string) \<Rightarrow> double_t \<Rightarrow> string" where
  "fmt_num fmt_g v =
     (case v of
        Fin q \<Rightarrow> if q = of_int \<lfloor>q\<rfloor> \<and> \<bar>q\<bar> < 10 ^ 15 then fmt_int \<lfloor>q\<rfloor> else fmt_g q
      | Infty neg \<Rightarrow> if neg then ''-inf'' else ''inf'')"

fun emit_rec :: "(rat \<Rightarrow> string) \<Rightarrow> nat \<Rightarrow> ntc_json \<Rightarrow> string option \<Rightarrow> string option"
and emit_items :: "(rat \<Rightarrow> string) \<Rightarrow> nat \<Rightarrow> bool \<Rightarrow> ntc_json list \<Rightarrow> string option \<Rightarrow> string option"
and emit_members :: "(rat \<Rightarrow> string) \<Rightarrow> nat \<Rightarrow> bool \<Rightarrow> (ntc_slice \<times> ntc_json) list \<Rightarrow> string option \<Rightarrow> string option" where
  "emit_rec g cap NTC_JSON_NULL o' = app cap ''null'' o'"
| "emit_rec g cap (NTC_JSON_BOOL b) o' = app cap (if b then ''true'' else ''false'') o'"
| "emit_rec g cap (NTC_JSON_NUM n) o' = app cap (fmt_num g n) o'"
| "emit_rec g cap (NTC_JSON_STR s) o' = app cap [DQ] (app_escaped cap s (app cap [DQ] o'))"
| "emit_rec g cap (NTC_JSON_ARR vs) o' = app cap '']'' (emit_items g cap True vs (app cap ''['' o'))"
| "emit_rec g cap (NTC_JSON_OBJ ms) o' = app cap ''}'' (emit_members g cap True ms (app cap ''{'' o'))"
| "emit_items g cap first [] o' = o'"
| "emit_items g cap first (v # vs) o' =
     emit_items g cap False vs (emit_rec g cap v (if first then o' else app cap '','' o'))"
| "emit_members g cap first [] o' = o'"
| "emit_members g cap first ((k, v) # ms) o' =
     emit_members g cap False ms
       (emit_rec g cap v (app cap '':'' (app cap [DQ] (app_escaped cap k
          (app cap [DQ] (if first then o' else app cap '','' o'))))))"

definition ntc_json_emit :: "(rat \<Rightarrow> string) \<Rightarrow> ntc_json \<Rightarrow> nat \<Rightarrow> string option" where
  "ntc_json_emit fmt_g v cap =
     (if cap = 0 then None
      else case emit_rec fmt_g cap v (Some []) of
             None \<Rightarrow> None
           | Some out \<Rightarrow> if length out \<ge> cap then None else Some out)"

subsection \<open>Bounds of the parser\<close>

lemma hex_loop_bound:
  "cp < 16 ^ k \<Longrightarrow> fst (hex_loop n cp s) < 16 ^ (k + (length s - length (fst (snd (hex_loop n cp s)))))"
proof (induction n arbitrary: cp s k)
  case (Suc n)
  show ?case
  proof (cases s)
    case (Cons h t)
    show ?thesis
    proof (cases "json_hex h")
      case None
      with Cons Suc.prems show ?thesis by (simp add: Suc_diff_le)
    next
      case (Some v)
      then have "v < 16" by (auto simp: json_hex_def c_in_def ccode_def split: if_splits)
      then have "cp * 16 + v < 16 ^ Suc k" using Suc.prems by simp
      from Suc.IH [OF this, of t] hex_loop_shrinks [of n "cp * 16 + v" t] Some Cons show ?thesis
        by (simp add: Suc_diff_le)
    qed
  qed (use Suc.prems in simp)
qed simp

lemma utf8_length: "length (utf8 cp) \<le> 3" "cp < 16 ^ 2 \<Longrightarrow> length (utf8 cp) \<le> 2" "cp < 16 ^ 1 \<Longrightarrow> length (utf8 cp) \<le> 1"
  by (simp_all add: utf8_def)

lemma str_loop_bound:
  "length (fst (str_loop s out err)) + length (fst (snd (str_loop s out err))) \<le> length out + length s"
proof (induction "length s" arbitrary: s out err rule: less_induct)
  case less
  consider "s = []" | c where "s = [c]" | c e u where "s = c # e # u" by (metis neq_Nil_conv)
  then show ?case
  proof cases
    case (2 c)
    with less [of "[]"] show ?thesis by simp
  next
    case (3 c e u)
    let ?cp = "fst (hex_loop 4 0 u)" and ?r = "fst (snd (hex_loop 4 0 u))"
    have r: "length ?r \<le> length u" by (rule hex_loop_shrinks)
    have b: "?cp < 16 ^ (length u - length ?r)" using hex_loop_bound [of 0 0 4 u] by simp
    have "length (utf8 ?cp) + length ?r \<le> length u + 2"
    proof (cases "length u - length ?r")
      case 0 with b r utf8_length(3) [of ?cp] show ?thesis by simp
    next
      case (Suc k)
      with r utf8_length(1) [of ?cp] show ?thesis by (cases k) auto
    qed
    then have c: "length (out @ utf8 ?cp) + length ?r \<le> length out + Suc (Suc (length u))" by simp
    have "length (fst (str_loop ?r (out @ utf8 ?cp) e')) + length (fst (snd (str_loop ?r (out @ utf8 ?cp) e')))
        \<le> length (out @ utf8 ?cp) + length ?r" for e'
      using less [of ?r "out @ utf8 ?cp" e'] r 3 by simp
    from le_trans [OF this c] have 1: "length (fst (str_loop ?r (out @ utf8 ?cp) e')) + length (fst (snd (str_loop ?r (out @ utf8 ?cp) e')))
        \<le> length out + Suc (Suc (length u))" for e'
      by simp
    have 2: "length (fst (str_loop u out e')) + length (fst (snd (str_loop u out e'))) \<le> length out + Suc (Suc (length u))"
      "length (fst (str_loop u (out @ [x]) e')) + length (fst (snd (str_loop u (out @ [x]) e'))) \<le> length out + Suc (Suc (length u))"
      "length (fst (str_loop (e # u) (out @ [x]) e')) + length (fst (snd (str_loop (e # u) (out @ [x]) e'))) \<le> length out + Suc (Suc (length u))"
      for x e' using less [of u out e'] less [of u "out @ [x]" e'] less [of "e # u" "out @ [x]" e'] 3 by simp_all
    from 1 2 show ?thesis unfolding 3 by (simp del: str_loop.simps add: str_loop.simps(2) [of c] split: option.split)
  qed simp
qed

lemma dropWhile_num_shrinks: "num_char c \<Longrightarrow> length (dropWhile num_char (c # r)) < length (c # r)"
  using length_dropWhile_le [of num_char r] by (simp add: less_Suc_eq_le)

lemma parse_shrinks:
  "parse_value rnd d s = Some (v, r) \<Longrightarrow> length r < length s"
  "obj_loop rnd d acc s = Some (v, r) \<Longrightarrow> length r < length s"
  "arr_loop rnd d acc' s = Some (v, r) \<Longrightarrow> length r < length s"
proof (induction rnd d s and rnd d acc s and rnd d acc' s arbitrary: v r and v r and v r
    rule: parse_value_obj_loop_arr_loop.induct)
  case (1 rnd d s)
  note IH = 1(1,2) and prem = 1(3)
  obtain c t where ct: "skip_ws s = c # t" and d: "\<not> NTC_JSON_MAX_DEPTH < d + 1"
    using prem by (cases "skip_ws s") (auto simp: parse_value.simps split: if_splits)
  have t: "length t < length s" using skip_ws_Cons_shrinks [OF ct] .
  have lt: "length (drop n (skip_ws t)) < length s" "length (drop (Suc n) (c # t)) < length s"
    "num_char c \<Longrightarrow> length (dropWhile num_char (c # t)) < length s"
    "parse_string (c # t) = Some (k, u) \<Longrightarrow> length u < length s" for n k u
    using t skip_ws_shrinks [of t] skip_ws_shrinks [of s] ct dropWhile_num_shrinks [of c t]
      parse_string_shrinks [of "c # t" k u] by auto
  show ?case
    using prem IH [OF d ct] t lt(1) [of 1] lt(2) [of 3] lt(2) [of 4] lt(3,4)
    by (subst (asm) parse_value.simps) (auto simp: ct num_char_def split: if_splits)
next
  case (2 rnd d acc s)
  obtain k t where k: "take 1 (skip_ws s) = [DQ]" "parse_string (skip_ws s) = Some (k, t)"
    using 2(3) by (subst (asm) obj_loop.simps) (auto split: if_splits option.splits)
  obtain u where u: "skip_ws t = CHR '':'' # u" "length u < length s"
    using 2(3) k by (subst (asm) obj_loop.simps) (auto split: if_splits list.splits)
  obtain w x where w: "parse_value rnd d u = Some (w, x)"
    using 2(3) k u by (subst (asm) obj_loop.simps) (auto split: if_splits option.splits)
  have x: "length x < length s" using 2(1) [OF _ k(2) refl u(1) _ w] k u by auto
  show ?case
    using 2(3) k u w x 2(2) [OF _ k(2) refl u(1) _ w refl] skip_ws_Cons_shrinks [of x]
    by (subst (asm) obj_loop.simps) (auto split: if_splits list.splits)
next
  case (3 rnd d acc s)
  obtain w x where w: "parse_value rnd d s = Some (w, x)"
    using 3(3) by (subst (asm) arr_loop.simps) (auto split: option.splits)
  show ?case
    using 3(3) w 3(1) [OF w] 3(2) [OF w refl] skip_ws_Cons_shrinks [of x]
    by (subst (asm) arr_loop.simps) (auto split: if_splits list.splits)
qed


text \<open>The length comparisons in the loops are redundant.\<close>

lemma arr_loop_step:
  assumes "parse_value rnd d s = Some (v, c # t)" "\<not> json_ws c"
  shows "arr_loop rnd d acc s =
    (if c = CHR '','' then arr_loop rnd d (add_member acc v) t
     else if c = CHR '']'' then Some (NTC_JSON_ARR (add_member acc v), t) else None)"
  using assms parse_shrinks(1) [OF assms(1)] by (subst arr_loop.simps) (simp add: skip_ws_def)

lemma obj_loop_step:
  assumes "parse_string (DQ # q) = Some (k, CHR '':'' # u)" "parse_value rnd d u = Some (v, c # t)" "\<not> json_ws c"
  shows "obj_loop rnd d acc (DQ # q) =
    (if c = CHR '','' then obj_loop rnd d (add_member acc (k, v)) t
     else if c = CHR ''}'' then Some (NTC_JSON_OBJ (add_member acc (k, v)), t) else None)"
proof -
  have "length u < length (DQ # q)" using parse_string_shrinks [OF assms(1)] by simp
  moreover have "length t < length u" using parse_shrinks(1) [OF assms(2)] by simp
  ultimately show ?thesis using assms
    by (subst obj_loop.simps) (simp add: skip_ws_def json_ws_def)
qed

subsection \<open>Printing and parsing back\<close>

definition esc_text :: "string \<Rightarrow> string" where
  "esc_text s = concat (map esc_char s)"

fun json_text :: "(rat \<Rightarrow> string) \<Rightarrow> ntc_json \<Rightarrow> string"
and items_text :: "(rat \<Rightarrow> string) \<Rightarrow> bool \<Rightarrow> ntc_json list \<Rightarrow> string"
and members_text :: "(rat \<Rightarrow> string) \<Rightarrow> bool \<Rightarrow> (ntc_slice \<times> ntc_json) list \<Rightarrow> string" where
  "json_text g NTC_JSON_NULL = ''null''"
| "json_text g (NTC_JSON_BOOL b) = (if b then ''true'' else ''false'')"
| "json_text g (NTC_JSON_NUM n) = fmt_num g n"
| "json_text g (NTC_JSON_STR s) = [DQ] @ esc_text s @ [DQ]"
| "json_text g (NTC_JSON_ARR vs) = ''['' @ items_text g True vs @ '']''"
| "json_text g (NTC_JSON_OBJ ms) = ''{'' @ members_text g True ms @ ''}''"
| "items_text g first [] = []"
| "items_text g first (v # vs) = (if first then [] else '','') @ json_text g v @ items_text g False vs"
| "members_text g first [] = []"
| "members_text g first ((k, v) # ms) =
     (if first then [] else '','') @ [DQ] @ esc_text k @ [DQ] @ '':'' @ json_text g v @ members_text g False ms"

definition fit :: "nat \<Rightarrow> string \<Rightarrow> string \<Rightarrow> string option" where
  "fit cap out t = (if length out + length t < cap then Some (out @ t) else None)"

lemma app_fit [simp]: "app cap s (fit cap out t) = fit cap out (t @ s)"
  by (auto simp: app_def fit_def)

lemma escape_loop_fit: "escape_loop cap out s = fit cap out (esc_text s)"
  by (induction s arbitrary: out) (auto simp: fit_def esc_text_def)

lemma app_escaped_fit [simp]: "app_escaped cap s (fit cap out t) = fit cap out (t @ esc_text s)"
  by (auto simp: app_escaped_def ntc_json_escape_def escape_loop_fit fit_def)



lemma emit_fit:
  "emit_rec g cap v (fit cap out t) = fit cap out (t @ json_text g v)"
  "emit_items g cap first vs (fit cap out t) = fit cap out (t @ items_text g first vs)"
  "emit_members g cap first ms (fit cap out t) = fit cap out (t @ members_text g first ms)"
  by (induction g v and g first vs and g first ms arbitrary: t and t and t
      rule: json_text_items_text_members_text.induct) simp_all

lemma emit_text:
  "ntc_json_emit g v cap = (if length (json_text g v) < cap then Some (json_text g v) else None)"
proof (cases "cap = 0")
  case False
  then have "emit_rec g cap v (Some []) = fit cap [] (json_text g v)"
    using emit_fit(1) [of g cap v "[]" "[]"] by (simp add: fit_def)
  with False show ?thesis by (simp add: ntc_json_emit_def fit_def)
qed (simp add: ntc_json_emit_def)

lemma str_loop_plain: "c \<noteq> DQ \<Longrightarrow> c \<noteq> BSL \<Longrightarrow> str_loop (c # t) out err = str_loop t (out @ [c]) err"
  by simp

lemma str_loop_escape: "unescape e = Some x \<Longrightarrow> str_loop (BSL # e # t) out err = str_loop t (out @ [x]) err"
  by simp

lemma json_hex_digit: "n < 16 \<Longrightarrow> json_hex (hex_digit n) = Some n"
proof -
  assume "n < 16"
  moreover have "\<forall>n \<in> set [0..<16]. json_hex (hex_digit n) = Some n" by code_simp
  ultimately show ?thesis by simp
qed

lemma hex_loop_u00:
  assumes "n < 256"
  shows "hex_loop 4 0 (''00'' @ [hex_digit (n div 16), hex_digit (n mod 16)] @ t) = (n, t, False)"
proof -
  have "json_hex CHR ''0'' = Some 0" by code_simp
  moreover have "n div 16 < 16" "n mod 16 < 16" using assms by simp_all
  moreover have 4: "4 = Suc (Suc (Suc (Suc 0)))" by simp
  ultimately show ?thesis unfolding 4 by (simp add: json_hex_digit)
qed

lemma str_loop_u:
  assumes "4 \<le> length s" "hex_loop 4 0 s = (cp, r, e)"
  shows "str_loop (BSL # CHR ''u'' # s) out err = str_loop r (out @ utf8 cp) (err \<or> e)"
proof -
  have "unescape CHR ''u'' = None" by code_simp
  with assms show ?thesis by (subst str_loop.simps(2)) simp
qed

lemma str_loop_u00:
  assumes "n < 128"
  shows "str_loop (fmt_u04x n @ t) out err = str_loop t (out @ [char_of n]) err"
  using str_loop_u [OF _ hex_loop_u00 [of n t]] assms by (simp add: fmt_u04x_def utf8_def del: str_loop.simps)

lemma str_loop_esc_char: "str_loop (esc_char c @ t) out err = str_loop t (out @ [c]) err"
proof -
  have "\<forall>(e, x) \<in> set [(DQ, DQ), (BSL, BSL), (CHR ''n'', LF), (CHR ''r'', CR), (CHR ''t'', CHR 0x09),
      (CHR ''b'', CHR 0x08), (CHR ''f'', CHR 0x0C)]. unescape e = Some x" by code_simp
  then have u: "unescape DQ = Some DQ" "unescape BSL = Some BSL" "unescape CHR ''n'' = Some LF" "unescape CHR ''r'' = Some CR"
    "unescape CHR ''t'' = Some CHR 0x09" "unescape CHR ''b'' = Some CHR 0x08" "unescape CHR ''f'' = Some CHR 0x0C" by simp_all
  show ?thesis
    using str_loop_u00 [of "ccode c" t] u
    by (simp only: esc_char_def append.simps split: if_splits)
      (simp add: str_loop_escape str_loop_plain ccode_def del: str_loop.simps)
qed

lemma parse_string_esc: "parse_string (DQ # esc_text s @ DQ # r) = Some (s, r)"
proof -
  have "str_loop (esc_text s @ DQ # r) out False = (out @ s, DQ # r, False)" for out
  proof (induction s arbitrary: out)
    case (Cons c s)
    then show ?case by (simp add: esc_text_def str_loop_esc_char del: str_loop.simps)
  qed (simp add: esc_text_def)
  then show ?thesis by (simp add: parse_string_def)
qed


lemma fmt_nat_unfold: "fmt_nat n = (if n < 10 then [fmt_digit n] else fmt_nat (n div 10) @ [fmt_digit (n mod 10)])"
  by (rule fmt_nat.simps)

lemma dig_fmt_digit: "d < 10 \<Longrightarrow> dig (fmt_digit d) \<and> ccode (fmt_digit d) - 48 = d"
proof -
  assume "d < 10"
  moreover have "\<forall>d \<in> set [0..<10]. dig (fmt_digit d) \<and> ccode (fmt_digit d) - 48 = d" by code_simp
  ultimately show ?thesis by simp
qed

lemma fmt_nat_digits: "fmt_nat n \<noteq> [] \<and> list_all dig (fmt_nat n) \<and> digits_val (fmt_nat n) = n"
proof (induction n rule: less_induct)
  case (less n)
  show ?case
  proof (cases "n < 10")
    case True
    then show ?thesis using dig_fmt_digit [of n] by (simp add: fmt_nat_unfold [of n] digits_val_def)
  next
    case False
    then have "n div 10 < n" by simp
    from less [OF this] False dig_fmt_digit [of "n mod 10"] show ?thesis
      by (simp add: fmt_nat_unfold [of n] digits_val_def)
  qed
qed

lemma fmt_nat_length: "n < 10 ^ Suc k \<Longrightarrow> length (fmt_nat n) \<le> Suc k"
proof (induction k arbitrary: n)
  case 0
  then show ?case by (simp add: fmt_nat_unfold [of n])
next
  case (Suc k)
  then have "n div 10 < 10 ^ Suc k" by (simp add: div_less_iff_less_mult)
  from Suc.IH [OF this] show ?case by (simp add: fmt_nat_unfold [of n])
qed

lemma takeWhile_all: "list_all P xs \<Longrightarrow> takeWhile P xs = xs \<and> dropWhile P xs = []"
  by (induction xs) auto

lemma decimal_value_fmt_int: "decimal_value (fmt_int i) = of_int i"
proof -
  define ds where "ds = fmt_nat (nat \<bar>i\<bar>)"
  have ds: "ds \<noteq> []" "list_all dig ds" "digits_val ds = nat \<bar>i\<bar>"
    using fmt_nat_digits by (simp_all add: ds_def)
  have hd: "hd ds \<noteq> CHR ''-''" "hd ds \<noteq> CHR ''+''"
    using ds(1,2) by (cases ds; auto simp: dig_def c_in_def ccode_def)+
  have "fmt_int i = (if i < 0 then CHR ''-'' # ds else ds)" by (simp add: fmt_int_def ds_def)
  then have sg: "take_sign (fmt_int i) = (i < 0, ds)"
    using hd ds(1) by (cases ds) (auto simp: take_sign_def)
  have tw: "takeWhile dig ds = ds" "dropWhile dig ds = []" using takeWhile_all [OF ds(2)] by blast+
  show ?thesis using ds(1,3) by (simp add: decimal_value_def sg exponent_def Let_def tw)
qed

text \<open>
  Values that print to what parses back to them: within the depth and member limits, with
  integral numbers below \<open>10\<^sup>15\<close>.
\<close>

fun json_ok :: "nat \<Rightarrow> ntc_json \<Rightarrow> bool" where
  "json_ok n (NTC_JSON_NUM x) \<longleftrightarrow> 0 < n \<and> (case x of Fin q \<Rightarrow> q = of_int \<lfloor>q\<rfloor> \<and> \<bar>q\<bar> < 10 ^ 15 | Infty _ \<Rightarrow> False)"
| "json_ok n (NTC_JSON_ARR vs) \<longleftrightarrow> 0 < n \<and> length vs \<le> NTC_JSON_MAX_MEMBERS \<and> (\<forall>v \<in> set vs. json_ok (n - 1) v)"
| "json_ok n (NTC_JSON_OBJ ms) \<longleftrightarrow> 0 < n \<and> length ms \<le> NTC_JSON_MAX_MEMBERS \<and> (\<forall>(k, v) \<in> set ms. json_ok (n - 1) v)"
| "json_ok n _ \<longleftrightarrow> 0 < n"


lemma fmt_int_num:
  assumes "\<bar>i\<bar> < 10 ^ 15"
  shows "fmt_int i \<noteq> []" "list_all num_char (fmt_int i)" "length (fmt_int i) \<le> 63"
    "hd (fmt_int i) = CHR ''-'' \<or> dig (hd (fmt_int i))"
proof -
  have d: "fmt_nat n \<noteq> []" "list_all num_char (fmt_nat n)" "dig (hd (fmt_nat n))" for n
    using fmt_nat_digits [of n] by (auto simp: list_all_iff num_char_def)
  have "nat \<bar>i\<bar> < 10 ^ Suc 14" using assms by simp
  from fmt_nat_length [OF this] have "length (fmt_nat (nat \<bar>i\<bar>)) \<le> 62" by simp
  with d show "fmt_int i \<noteq> []" "list_all num_char (fmt_int i)" "length (fmt_int i) \<le> 63"
    "hd (fmt_int i) = CHR ''-'' \<or> dig (hd (fmt_int i))"
    by (auto simp: fmt_int_def num_char_def)
qed

definition delim :: "string \<Rightarrow> bool" where
  "delim r \<longleftrightarrow> r = [] \<or> \<not> num_char (hd r)"

lemma takeWhile_delim:
  assumes "list_all P xs" "r = [] \<or> \<not> P (hd r)"
  shows "takeWhile P (xs @ r) = xs" "dropWhile P (xs @ r) = r"
  using assms by (cases r; auto simp: list_all_iff)+

lemma num_ok:
  assumes "json_ok n (NTC_JSON_NUM x)"
  obtains i where "x = Fin (of_int i)" "\<bar>i\<bar> < 10 ^ 15" "fmt_num g x = fmt_int i"
proof -
  from assms obtain q where q: "x = Fin q" "q = of_int \<lfloor>q\<rfloor>" "\<bar>q\<bar> < 10 ^ 15" by (cases x) auto
  then have "\<bar>of_int \<lfloor>q\<rfloor> :: rat\<bar> < of_int (10 ^ 15)" by simp
  then have "\<bar>\<lfloor>q\<rfloor>\<bar> < 10 ^ 15" by (simp only: of_int_abs [symmetric] of_int_less_iff)
  with q that [of "\<lfloor>q\<rfloor>"] show ?thesis by (simp add: fmt_num_def)
qed

lemma text_head:
  assumes "json_ok n v"
  shows "\<exists>c t. json_text g v = c # t \<and> \<not> json_ws c \<and> c \<noteq> CHR '']'' \<and> c \<noteq> CHR ''}''"
proof (cases v)
  case (NTC_JSON_NUM x)
  with assms obtain i where i: "x = Fin (of_int i)" "\<bar>i\<bar> < 10 ^ 15" "fmt_num g x = fmt_int i"
    using num_ok by metis
  then obtain c t where ct: "fmt_int i = c # t" by (cases "fmt_int i") (use fmt_int_num(1) [OF i(2)] in auto)
  with fmt_int_num(4) [OF i(2)] have "c = CHR ''-'' \<or> dig c" by simp
  then have "\<not> json_ws c \<and> c \<noteq> CHR '']'' \<and> c \<noteq> CHR ''}''" by (auto simp: json_ws_def dig_def c_in_def ccode_def)
  with ct i(3) NTC_JSON_NUM show ?thesis by simp
qed (auto simp: json_ws_def)

definition exact_ints :: "(rat \<Rightarrow> double_t) \<Rightarrow> bool" where
  "exact_ints rnd \<longleftrightarrow> (\<forall>i. \<bar>i\<bar> < 10 ^ 15 \<longrightarrow> rnd (of_int i) = Fin (of_int i))"

lemma parse_num:
  assumes "exact_ints rnd" "d < NTC_JSON_MAX_DEPTH" "json_ok n (NTC_JSON_NUM x)" "delim r"
  shows "parse_value rnd d (fmt_num g x @ r) = Some (NTC_JSON_NUM x, r)"
proof -
  from assms(3) obtain i where i: "x = Fin (of_int i)" "\<bar>i\<bar> < 10 ^ 15" "fmt_num g x = fmt_int i" by (rule num_ok)
  note f = fmt_int_num [OF i(2)]
  from f(1) obtain c t where ct: "fmt_int i = c # t" by (cases "fmt_int i") auto
  with f(4) have c: "c = CHR ''-'' \<or> dig c" by simp
  then have ne: "c \<notin> {CHR ''{'', CHR ''['', DQ, CHR ''t'', CHR ''f'', CHR ''n''}" "\<not> json_ws c"
    by (auto simp: dig_def c_in_def ccode_def json_ws_def)
  have "takeWhile num_char (fmt_int i @ r) = fmt_int i" "dropWhile num_char (fmt_int i @ r) = r"
    using takeWhile_delim [OF f(2)] assms(4) by (simp_all add: delim_def)
  moreover have "strtod rnd (take 63 (fmt_int i)) = x"
    using f(3) assms(1) i(1,2) by (simp add: strtod_def decimal_value_fmt_int exact_ints_def)
  ultimately show ?thesis
    unfolding i(3) using ne c assms(2) by (subst parse_value.simps) (simp add: ct skip_ws_def)
qed

lemma arr_items:
  assumes "\<And>v r. v \<in> set vs \<Longrightarrow> delim r \<Longrightarrow> parse_value rnd d (json_text g v @ r) = Some (v, r)"
    and "vs \<noteq> []" "length acc + length vs \<le> NTC_JSON_MAX_MEMBERS"
  shows "arr_loop rnd d acc (items_text g True vs @ CHR '']'' # r) = Some (NTC_JSON_ARR (acc @ vs), r)"
  using assms
proof (induction vs arbitrary: acc)
  case (Cons v ws)
  have nc: "\<not> num_char CHR '']''" "\<not> num_char CHR '',''" "\<not> json_ws CHR '']''" "\<not> json_ws CHR '',''" by code_simp+
  show ?case
  proof (cases ws)
    case Nil
    have "parse_value rnd d (json_text g v @ CHR '']'' # r) = Some (v, CHR '']'' # r)"
      using Cons.prems(1) [of v] nc by (simp add: delim_def)
    from arr_loop_step [OF this nc(3)] Nil Cons.prems(3) show ?thesis by (simp add: add_member_def)
  next
    case ws: (Cons w ws')
    have "parse_value rnd d (json_text g v @ CHR '','' # items_text g True ws @ CHR '']'' # r) =
        Some (v, CHR '','' # items_text g True ws @ CHR '']'' # r)"
      using Cons.prems(1) [of v] nc by (simp add: delim_def)
    moreover have "arr_loop rnd d (acc @ [v]) (items_text g True ws @ CHR '']'' # r) = Some (NTC_JSON_ARR ((acc @ [v]) @ ws), r)"
      by (rule Cons.IH) (use Cons.prems ws in auto)
    ultimately show ?thesis using arr_loop_step [OF _ nc(4)] ws Cons.prems(3) by (simp add: add_member_def)
  qed
qed simp

lemma obj_members:
  assumes "\<And>k v r. (k, v) \<in> set ms \<Longrightarrow> delim r \<Longrightarrow> parse_value rnd d (json_text g v @ r) = Some (v, r)"
    and "ms \<noteq> []" "length acc + length ms \<le> NTC_JSON_MAX_MEMBERS"
  shows "obj_loop rnd d acc (members_text g True ms @ CHR ''}'' # r) = Some (NTC_JSON_OBJ (acc @ ms), r)"
  using assms
proof (induction ms arbitrary: acc)
  case (Cons m ws)
  obtain k v where m: "m = (k, v)" by force
  have nc: "\<not> num_char CHR ''}''" "\<not> num_char CHR '',''" "\<not> json_ws CHR ''}''" "\<not> json_ws CHR '',''" by code_simp+
  show ?case
  proof (cases ws)
    case Nil
    have "parse_value rnd d (json_text g v @ CHR ''}'' # r) = Some (v, CHR ''}'' # r)"
      using Cons.prems(1) [of k v] nc m by (simp add: delim_def)
    from obj_loop_step [OF parse_string_esc this nc(3)] Nil Cons.prems(3) m show ?thesis by (simp add: add_member_def)
  next
    case ws: (Cons w ws')
    have "parse_value rnd d (json_text g v @ CHR '','' # members_text g True ws @ CHR ''}'' # r) =
        Some (v, CHR '','' # members_text g True ws @ CHR ''}'' # r)"
      using Cons.prems(1) [of k v] nc m by (simp add: delim_def)
    note step = obj_loop_step [OF parse_string_esc this nc(4), of acc]
    have "obj_loop rnd d (acc @ [m]) (members_text g True ws @ CHR ''}'' # r) = Some (NTC_JSON_OBJ ((acc @ [m]) @ ws), r)"
      by (rule Cons.IH) (use Cons.prems ws in auto)
    with step m ws Cons.prems(3) show ?thesis by (cases w) (simp add: add_member_def)
  qed
qed simp


lemma skip_ws_head: "\<not> json_ws c \<Longrightarrow> skip_ws (c # t) = c # t"
  by (simp add: skip_ws_def)

lemma parse_text:
  assumes rnd: "exact_ints rnd"
  shows "json_ok (NTC_JSON_MAX_DEPTH - d) v \<Longrightarrow> delim r \<Longrightarrow> parse_value rnd d (json_text g v @ r) = Some (v, r)"
proof (induction v arbitrary: d r)
  case (NTC_JSON_NUM x)
  then have "d < NTC_JSON_MAX_DEPTH" by simp
  from parse_num [OF rnd this NTC_JSON_NUM] show ?case by simp
next
  case (NTC_JSON_ARR vs)
  then have d: "d < NTC_JSON_MAX_DEPTH" and vs: "length vs \<le> NTC_JSON_MAX_MEMBERS"
    "\<And>v. v \<in> set vs \<Longrightarrow> json_ok (NTC_JSON_MAX_DEPTH - Suc d) v" by auto
  have nw: "\<not> json_ws CHR ''[''" "\<not> json_ws CHR '']''" by code_simp+
  show ?case
  proof (cases vs)
    case Nil
    then show ?thesis using d nw by (subst parse_value.simps) (simp add: skip_ws_head)
  next
    case (Cons v ws)
    have "arr_loop rnd (Suc d) [] (items_text g True vs @ CHR '']'' # r) = Some (NTC_JSON_ARR ([] @ vs), r)"
      by (rule arr_items) (use NTC_JSON_ARR.IH vs Cons in auto)
    moreover from vs(2) [of v] Cons text_head obtain c t where "json_text g v = c # t" "\<not> json_ws c" "c \<noteq> CHR '']''"
      by (metis list.set_intros(1))
    ultimately show ?thesis using d nw Cons by (subst parse_value.simps) (simp add: skip_ws_head)
  qed
next
  case (NTC_JSON_OBJ ms)
  then have d: "d < NTC_JSON_MAX_DEPTH" and ms: "length ms \<le> NTC_JSON_MAX_MEMBERS"
    "\<And>k v. (k, v) \<in> set ms \<Longrightarrow> json_ok (NTC_JSON_MAX_DEPTH - Suc d) v" by auto
  have nw: "\<not> json_ws CHR ''{''" "\<not> json_ws CHR ''}''" "\<not> json_ws DQ" by code_simp+
  show ?case
  proof (cases ms)
    case Nil
    then show ?thesis using d nw by (subst parse_value.simps) (simp add: skip_ws_head)
  next
    case (Cons m ws)
    have "obj_loop rnd (Suc d) [] (members_text g True ms @ CHR ''}'' # r) = Some (NTC_JSON_OBJ ([] @ ms), r)"
      by (rule obj_members) (use NTC_JSON_OBJ.IH ms Cons in fastforce)+
    then show ?thesis using d nw Cons by (cases m) (subst parse_value.simps, simp add: skip_ws_head)
  qed
next
  case (NTC_JSON_STR x)
  have "\<not> json_ws DQ" by code_simp
  with NTC_JSON_STR show ?case by (subst parse_value.simps) (simp add: skip_ws_head parse_string_esc)
next
  case (NTC_JSON_BOOL b)
  have "\<not> json_ws CHR ''t''" "\<not> json_ws CHR ''f''" by code_simp+
  with NTC_JSON_BOOL show ?case by (subst parse_value.simps) (simp add: skip_ws_head)
next
  case NTC_JSON_NULL
  have "\<not> json_ws CHR ''n''" by code_simp
  with NTC_JSON_NULL show ?case by (subst parse_value.simps) (simp add: skip_ws_head)
qed


subsection \<open>Properties\<close>



text \<open>
  An escaped string stands between quotes as one string
  token that reads back as the original bytes, whatever they are, and holds no raw quote
  or control character that would end or break it.
\<close>

lemma json_escape_injective:
  assumes "ntc_json_escape cap s = Some e"
  shows "length e < cap \<and> parse_string ([DQ] @ e @ [DQ] @ r) = Some (s, r) \<and> list_all (\<lambda>c. 0x20 \<le> ccode c) e"
proof -
  from assms have e: "length e < cap" "e = esc_text s"
    by (auto simp: ntc_json_escape_def escape_loop_fit fit_def split: if_splits)
  have hx: "0x20 \<le> ccode (hex_digit n)" if "n < 16" for n
  proof -
    have "\<forall>n \<in> set [0..<16]. 0x20 \<le> ccode (hex_digit n)" by code_simp
    with that show ?thesis by simp
  qed
  have l: "\<forall>c \<in> set (''u00nrtbf'' @ [DQ, BSL]). 0x20 \<le> ccode c" by code_simp
  have "list_all (\<lambda>c. 0x20 \<le> ccode c) (esc_char c)" for c
    using l hx by (auto simp: esc_char_def fmt_u04x_def)
  then have "list_all (\<lambda>c. 0x20 \<le> ccode c) e" by (simp add: e esc_text_def list_all_iff)
  with e parse_string_esc [of s r] show ?thesis by simp
qed

text \<open>
  The string buffer of \<open>end - p + 1\<close> bytes is never overrun,
  even on malformed input, and every value consumes input, so the member loops end.
\<close>

lemma json_parser_bounds:
  "length (fst (str_loop (tl s) [] False)) \<le> length (tl s) \<and>
   (case parse_value rnd d s of Some (v, r) \<Rightarrow> length r < length s | None \<Rightarrow> True)"
  using str_loop_bound [of "tl s" "[]" False] parse_shrinks(1) [of rnd d s] by (auto split: option.split)

end
