(* ===== verification/Schema.thy ===== *)
theory Schema
  imports Json
begin

text \<open>
  The JSON-Schema subset that guards request bodies (\<open>src/common/schema.c\<close>). A check
  returns \<open>None\<close> when the instance is accepted and the message that \<open>fail\<close> is given
  otherwise. Property names and type names pass through the fixed buffers \<open>key[96]\<close> and
  \<open>tn[24]\<close>. The conversion of a \<open>double\<close> to \<open>size_t\<close> is undefined in C outside the range of
  the type, so it is the parameter \<open>cast\<close> of the validator and of its specification. The
  instance is present: the NULL instance (\<open>missing value\<close>) is the caller's failed parse.

  \<open>conforms\<close> states what the keywords mean, without order and buffers; the validator is
  shown to decide it for names that fit.
\<close>

definition fail_msg :: "nat \<Rightarrow> string \<Rightarrow> string" where
  \<comment> \<open>\<open>snprintf(err, cap, "%s", msg)\<close>\<close>
  "fail_msg cap msg = snprintf cap (cstr msg)"

fun is_int :: "double_t \<Rightarrow> bool" where
  "is_int (Fin q) = (q = of_int \<lfloor>q\<rfloor>)"
| "is_int (Infty _) = True"

fun dlt :: "double_t \<Rightarrow> double_t \<Rightarrow> bool" where
  "dlt (Fin p) (Fin q) = (p < q)"
| "dlt (Fin p) (Infty neg) = (\<not> neg)"
| "dlt (Infty neg) (Fin q) = neg"
| "dlt (Infty n) (Infty m) = (n \<and> \<not> m)"

fun is_obj :: "ntc_json \<Rightarrow> bool" where "is_obj (NTC_JSON_OBJ _) = True" | "is_obj _ = False"
fun is_arr :: "ntc_json \<Rightarrow> bool" where "is_arr (NTC_JSON_ARR _) = True" | "is_arr _ = False"
fun is_str :: "ntc_json \<Rightarrow> bool" where "is_str (NTC_JSON_STR _) = True" | "is_str _ = False"
fun is_bool :: "ntc_json \<Rightarrow> bool" where "is_bool (NTC_JSON_BOOL _) = True" | "is_bool _ = False"
fun is_num :: "ntc_json \<Rightarrow> bool" where "is_num (NTC_JSON_NUM _) = True" | "is_num _ = False"
fun is_integer :: "ntc_json \<Rightarrow> bool" where "is_integer (NTC_JSON_NUM n) = is_int n" | "is_integer _ = False"

definition type_ok :: "string \<Rightarrow> ntc_json \<Rightarrow> bool" where
  "type_ok t v =
     (if t = ''object'' then is_obj v
      else if t = ''array'' then is_arr v
      else if t = ''string'' then is_str v
      else if t = ''boolean'' then is_bool v
      else if t = ''null'' then v = NTC_JSON_NULL
      else if t = ''number'' then is_num v
      else if t = ''integer'' then is_integer v
      else True)"

fun json_eq :: "ntc_json \<Rightarrow> ntc_json \<Rightarrow> bool" where
  "json_eq NTC_JSON_NULL NTC_JSON_NULL = True"
| "json_eq (NTC_JSON_BOOL a) (NTC_JSON_BOOL b) = (a = b)"
| "json_eq (NTC_JSON_NUM a) (NTC_JSON_NUM b) = (a = b)"
| "json_eq (NTC_JSON_STR a) (NTC_JSON_STR b) = (a = b)"
| "json_eq _ _ = False"

text \<open>\<open>snprintf(key, sizeof key, "%.*s", ...)\<close> for the 96-byte buffers.\<close>

definition key_buf :: "ntc_slice \<Rightarrow> string" where
  "key_buf s = snprintf 96 (fmt_slice s)"

definition check_type :: "ntc_json \<Rightarrow> ntc_json \<Rightarrow> string option" where
  "check_type schema v =
     (case ntc_json_get schema ''type'' of
        Some (NTC_JSON_STR s) \<Rightarrow>
          let tn = snprintf 24 (fmt_slice s)
          in if type_ok tn v then None else Some (snprintf 64 (''expected type '' @ tn))
      | _ \<Rightarrow> None)"

definition check_enum :: "ntc_json \<Rightarrow> ntc_json \<Rightarrow> string option" where
  "check_enum schema v =
     (case ntc_json_get schema ''enum'' of
        Some (NTC_JSON_ARR es) \<Rightarrow> if list_ex (\<lambda>e. json_eq e v) es then None else Some ''value not in enum''
      | _ \<Rightarrow> None)"

text \<open>One numeric keyword: the check applies when the keyword holds a number.\<close>

definition bound :: "ntc_json \<Rightarrow> string \<Rightarrow> (double_t \<Rightarrow> bool) \<Rightarrow> string \<Rightarrow> string option" where
  "bound schema kw bad msg =
     (case ntc_json_get schema kw of
        Some (NTC_JSON_NUM n) \<Rightarrow> if bad n then Some msg else None
      | _ \<Rightarrow> None)"

text \<open>The first message of two checks made in order.\<close>

definition orelse :: "string option \<Rightarrow> string option \<Rightarrow> string option" where
  "orelse a b = (case a of None \<Rightarrow> b | Some m \<Rightarrow> Some m)"

definition check_scalar :: "(double_t \<Rightarrow> nat) \<Rightarrow> ntc_json \<Rightarrow> ntc_json \<Rightarrow> string option" where
  "check_scalar cast schema v =
     (case v of
        NTC_JSON_NUM x \<Rightarrow>
          orelse (bound schema ''minimum'' (\<lambda>n. dlt x n) ''below minimum'')
                 (bound schema ''maximum'' (\<lambda>n. dlt n x) ''above maximum'')
      | NTC_JSON_STR s \<Rightarrow>
          orelse (bound schema ''minLength'' (\<lambda>n. length s < cast n) ''string too short'')
                 (bound schema ''maxLength'' (\<lambda>n. length s > cast n) ''string too long'')
      | NTC_JSON_ARR vs \<Rightarrow>
          orelse (bound schema ''minItems'' (\<lambda>n. length vs < cast n) ''too few items'')
                 (bound schema ''maxItems'' (\<lambda>n. length vs > cast n) ''too many items'')
      | _ \<Rightarrow> None)"

fun check_required :: "ntc_json \<Rightarrow> ntc_json list \<Rightarrow> string option" where
  "check_required v [] = None"
| "check_required v (NTC_JSON_STR name # ns) =
     (case ntc_json_get v (key_buf name) of
        None \<Rightarrow> Some (snprintf 128 (''missing required property '' @ [CHR 0x27] @ key_buf name @ [CHR 0x27]))
      | Some _ \<Rightarrow> check_required v ns)"
| "check_required v (_ # ns) = check_required v ns"

fun check_additional :: "ntc_json \<Rightarrow> (ntc_slice \<times> ntc_json) list \<Rightarrow> string option" where
  "check_additional props [] = None"
| "check_additional props ((k, _) # ms) =
     (case ntc_json_get props (key_buf k) of
        None \<Rightarrow> Some (snprintf 128 (''unexpected property '' @ [CHR 0x27] @ key_buf k @ [CHR 0x27]))
      | Some _ \<Rightarrow> check_additional props ms)"

lemma get_size: "ntc_json_get v key = Some iv \<Longrightarrow> size iv < size v"
proof (cases v)
  case (NTC_JSON_OBJ ms)
  assume "ntc_json_get v key = Some iv"
  then have "(ntc_slice_cstr key, iv) \<in> set ms" using NTC_JSON_OBJ map_of_SomeD by fastforce
  then have "size iv \<le> size_list (size_prod (\<lambda>_. 0) size) ms"
    by (induction ms) auto
  with NTC_JSON_OBJ show ?thesis by simp
qed simp_all

text \<open>
  The validator and its loops over array items and over the declared properties. The
  instance gets smaller at every call.
\<close>

function ntc_schema_validate :: "(double_t \<Rightarrow> nat) \<Rightarrow> ntc_json \<Rightarrow> ntc_json \<Rightarrow> string option"
and validate_items :: "(double_t \<Rightarrow> nat) \<Rightarrow> ntc_json \<Rightarrow> ntc_json list \<Rightarrow> string option"
and validate_props :: "(double_t \<Rightarrow> nat) \<Rightarrow> (ntc_slice \<times> ntc_json) list \<Rightarrow> ntc_json \<Rightarrow> string option" where
  "ntc_schema_validate cast schema v =
     (if \<not> is_obj schema then None
      else
        orelse (check_type schema v)
       (orelse (check_enum schema v)
       (orelse (check_scalar cast schema v)
        (case v of
           NTC_JSON_ARR vs \<Rightarrow>
             (case ntc_json_get schema ''items'' of
                Some items \<Rightarrow> if is_obj items then validate_items cast items vs else None
              | None \<Rightarrow> None)
         | NTC_JSON_OBJ ms \<Rightarrow>
             orelse (case ntc_json_get schema ''required'' of
                       Some (NTC_JSON_ARR ns) \<Rightarrow> check_required v ns
                     | _ \<Rightarrow> None)
            (orelse (case ntc_json_get schema ''properties'' of
                       Some (NTC_JSON_OBJ ps) \<Rightarrow> validate_props cast ps v
                     | _ \<Rightarrow> None)
                    (case ntc_json_get schema ''additionalProperties'' of
                       Some (NTC_JSON_BOOL b) \<Rightarrow>
                         if \<not> b then
                           (case ntc_json_get schema ''properties'' of
                              Some (NTC_JSON_OBJ ps) \<Rightarrow> check_additional (NTC_JSON_OBJ ps) ms
                            | _ \<Rightarrow> None)
                         else None
                     | _ \<Rightarrow> None))
         | _ \<Rightarrow> None))))"
| "validate_items cast items [] = None"
| "validate_items cast items (v # vs) =
     orelse (ntc_schema_validate cast items v) (validate_items cast items vs)"
| "validate_props cast [] v = None"
| "validate_props cast ((k, sub) # ps) v =
     orelse (case ntc_json_get v (key_buf k) of
               None \<Rightarrow> None
             | Some iv \<Rightarrow> ntc_schema_validate cast sub iv)
            (validate_props cast ps v)"
  by pat_completeness auto
termination
  by (relation "measures [\<lambda>x. case x of Inl (_, _, v) \<Rightarrow> size v
        | Inr (Inl (_, _, vs)) \<Rightarrow> size_list size vs | Inr (Inr (_, _, v)) \<Rightarrow> size v,
      \<lambda>x. case x of Inl (_, _, v) \<Rightarrow> Suc 0
        | Inr (Inl (_, _, vs)) \<Rightarrow> 0 | Inr (Inr (_, ps, v)) \<Rightarrow> 0,
      \<lambda>x. case x of Inr (Inr (_, ps, _)) \<Rightarrow> length ps | _ \<Rightarrow> 0]")
    (auto dest: get_size)

declare ntc_schema_validate.simps [simp del, loop_simps]

subsection \<open>What the keywords mean\<close>

definition type_spec :: "ntc_json \<Rightarrow> ntc_json \<Rightarrow> bool" where
  "type_spec schema v \<longleftrightarrow> (\<forall>t. ntc_json_get schema ''type'' = Some (NTC_JSON_STR t) \<longrightarrow> type_ok t v)"

definition enum_spec :: "ntc_json \<Rightarrow> ntc_json \<Rightarrow> bool" where
  "enum_spec schema v \<longleftrightarrow>
     (\<forall>es. ntc_json_get schema ''enum'' = Some (NTC_JSON_ARR es) \<longrightarrow> (\<exists>e \<in> set es. json_eq e v))"

definition bound_spec :: "ntc_json \<Rightarrow> string \<Rightarrow> (double_t \<Rightarrow> bool) \<Rightarrow> bool" where
  "bound_spec schema kw good \<longleftrightarrow> (\<forall>n. ntc_json_get schema kw = Some (NTC_JSON_NUM n) \<longrightarrow> good n)"

definition scalar_spec :: "(double_t \<Rightarrow> nat) \<Rightarrow> ntc_json \<Rightarrow> ntc_json \<Rightarrow> bool" where
  "scalar_spec cast schema v \<longleftrightarrow>
     (\<forall>x. v = NTC_JSON_NUM x \<longrightarrow>
        bound_spec schema ''minimum'' (\<lambda>n. \<not> dlt x n) \<and> bound_spec schema ''maximum'' (\<lambda>n. \<not> dlt n x)) \<and>
     (\<forall>s. v = NTC_JSON_STR s \<longrightarrow>
        bound_spec schema ''minLength'' (\<lambda>n. cast n \<le> length s) \<and>
        bound_spec schema ''maxLength'' (\<lambda>n. length s \<le> cast n)) \<and>
     (\<forall>vs. v = NTC_JSON_ARR vs \<longrightarrow>
        bound_spec schema ''minItems'' (\<lambda>n. cast n \<le> length vs) \<and>
        bound_spec schema ''maxItems'' (\<lambda>n. length vs \<le> cast n))"

function conforms :: "(double_t \<Rightarrow> nat) \<Rightarrow> ntc_json \<Rightarrow> ntc_json \<Rightarrow> bool" where
  "conforms cast schema v \<longleftrightarrow>
     (is_obj schema \<longrightarrow>
        type_spec schema v \<and> enum_spec schema v \<and> scalar_spec cast schema v \<and>
        (case v of
           NTC_JSON_ARR vs \<Rightarrow>
             (\<forall>items. ntc_json_get schema ''items'' = Some items \<longrightarrow> is_obj items \<longrightarrow>
                (\<forall>x \<in> set vs. conforms cast items x))
         | NTC_JSON_OBJ ms \<Rightarrow>
             (\<forall>ns. ntc_json_get schema ''required'' = Some (NTC_JSON_ARR ns) \<longrightarrow>
                (\<forall>n. NTC_JSON_STR n \<in> set ns \<longrightarrow> n \<in> fst ` set ms)) \<and>
             (\<forall>ps. ntc_json_get schema ''properties'' = Some (NTC_JSON_OBJ ps) \<longrightarrow>
                (\<forall>(k, sub) \<in> set ps. \<forall>x. map_of ms k = Some x \<longrightarrow> conforms cast sub x) \<and>
                (ntc_json_get schema ''additionalProperties'' = Some (NTC_JSON_BOOL False) \<longrightarrow>
                   fst ` set ms \<subseteq> fst ` set ps))
         | _ \<Rightarrow> True))"
  by pat_completeness auto
termination
proof (relation "measure (\<lambda>(_, _, v). size v)"; clarsimp)
  fix vs :: "ntc_json list" and x assume "x \<in> set vs"
  then show "size x < Suc (size_list size vs)" by (induction vs) auto
next
  fix ms :: "(ntc_slice \<times> ntc_json) list" and k x assume "map_of ms k = Some x"
  then have "(k, x) \<in> set ms" by (rule map_of_SomeD)
  then show "size x < Suc (size_list (size_prod (\<lambda>x. 0) size) ms)" by (induction ms) auto
qed

declare conforms.simps [simp del]

definition short_name :: "string \<Rightarrow> bool" where
  "short_name s \<longleftrightarrow> length s < 96 \<and> NUL \<notin> set s"

text \<open>Names that fit the buffers: every key, and (in a schema) every string.\<close>

fun names_ok :: "bool \<Rightarrow> ntc_json \<Rightarrow> bool" where
  "names_ok strs (NTC_JSON_STR s) = (strs \<longrightarrow> short_name s)"
| "names_ok strs (NTC_JSON_ARR vs) = (\<forall>v \<in> set vs. names_ok strs v)"
| "names_ok strs (NTC_JSON_OBJ ms) = (\<forall>(k, v) \<in> set ms. short_name k \<and> names_ok strs v)"
| "names_ok strs _ = True"

lemma key_buf_short: "short_name k \<Longrightarrow> key_buf k = k"
  by (simp add: short_name_def key_buf_def fmt_slice_def)

lemma cstr_short: "short_name k \<Longrightarrow> ntc_slice_cstr k = k"
  by (simp add: short_name_def ntc_slice_cstr_def)

lemma names_ok_get: "names_ok b v \<Longrightarrow> ntc_json_get v k = Some x \<Longrightarrow> names_ok b x"
  by (cases v) (auto dest!: map_of_SomeD)

lemma type_ok_short:
  assumes "short_name s"
  shows "type_ok (snprintf 24 (fmt_slice s)) v = type_ok s v"
proof (cases "length s < 24")
  case True
  with assms show ?thesis by (simp add: short_name_def fmt_slice_def)
next
  case False
  have "type_ok t v" if t: "length t \<ge> 23" for t
  proof -
    have "t \<notin> {''object'', ''array'', ''string'', ''boolean'', ''null'', ''number'', ''integer''}"
      using t by (simp, intro conjI notI) simp_all
    then show ?thesis by (simp add: type_ok_def)
  qed
  with False assms show ?thesis by (simp add: short_name_def fmt_slice_def snprintf_def)
qed

lemma orelse_None [simp]: "orelse a b = None \<longleftrightarrow> a = None \<and> b = None"
  by (simp add: orelse_def split: option.split)

lemma check_type_iff:
  assumes "names_ok True schema"
  shows "check_type schema v = None \<longleftrightarrow> type_spec schema v"
proof (cases "\<exists>t. ntc_json_get schema ''type'' = Some (NTC_JSON_STR t)")
  case True
  then obtain t where t: "ntc_json_get schema ''type'' = Some (NTC_JSON_STR t)" by blast
  with names_ok_get [OF assms t] show ?thesis
    by (simp add: check_type_def type_spec_def Let_def type_ok_short)
qed (auto simp: check_type_def type_spec_def split: option.split ntc_json.split)

lemma check_enum_iff: "check_enum schema v = None \<longleftrightarrow> enum_spec schema v"
  by (auto simp: check_enum_def enum_spec_def list_ex_iff split: option.split ntc_json.split)

lemma bound_iff: "bound schema kw bad msg = None \<longleftrightarrow> bound_spec schema kw (\<lambda>n. \<not> bad n)"
  by (auto simp: bound_def bound_spec_def split: option.split ntc_json.split)

lemma check_scalar_iff: "check_scalar cast schema v = None \<longleftrightarrow> scalar_spec cast schema v"
  by (cases v) (simp_all add: check_scalar_def scalar_spec_def bound_iff linorder_not_less)

lemma map_of_Some_fst: "map_of ms k = Some x \<Longrightarrow> k \<in> fst ` set ms"
  by (force dest: map_of_SomeD)

lemma check_required_iff:
  "\<forall>n. NTC_JSON_STR n \<in> set ns \<longrightarrow> short_name n \<Longrightarrow>
   check_required (NTC_JSON_OBJ ms) ns = None \<longleftrightarrow> (\<forall>n. NTC_JSON_STR n \<in> set ns \<longrightarrow> n \<in> fst ` set ms)"
  by (induction "NTC_JSON_OBJ ms" ns rule: check_required.induct)
    (auto simp: key_buf_short cstr_short map_of_eq_None_iff dest: map_of_Some_fst split: option.split)

lemma check_additional_iff:
  "\<forall>(k, v) \<in> set ms. short_name k \<Longrightarrow>
   check_additional (NTC_JSON_OBJ ps) ms = None \<longleftrightarrow> fst ` set ms \<subseteq> fst ` set ps"
  by (induction "NTC_JSON_OBJ ps" ms rule: check_additional.induct)
    (auto simp: key_buf_short cstr_short map_of_eq_None_iff dest: map_of_Some_fst split: option.split)


lemma validate_iff:
  "names_ok True schema \<Longrightarrow> names_ok False v \<Longrightarrow>
     ntc_schema_validate cast schema v = None \<longleftrightarrow> conforms cast schema v"
  "names_ok True items \<Longrightarrow> \<forall>v \<in> set vs. names_ok False v \<Longrightarrow>
     validate_items cast items vs = None \<longleftrightarrow> (\<forall>v \<in> set vs. conforms cast items v)"
  "\<forall>(k, sub) \<in> set ps. short_name k \<and> names_ok True sub \<Longrightarrow> names_ok False v' \<Longrightarrow>
     validate_props cast ps v' = None \<longleftrightarrow>
       (\<forall>(k, sub) \<in> set ps. \<forall>x. ntc_json_get v' k = Some x \<longrightarrow> conforms cast sub x)"
proof (induction cast schema v and cast items vs and cast ps v' rule: ntc_schema_validate_validate_items_validate_props.induct)
  case (1 cast schema v)
  note prem = 1(3,4)
  show ?case
  proof (cases "is_obj schema")
    case True
    note spec = check_type_iff [OF prem(1)] check_enum_iff check_scalar_iff
    show ?thesis
    proof (cases v)
      case (NTC_JSON_ARR vs)
      have "names_ok True items" if "ntc_json_get schema ''items'' = Some items" for items
        using names_ok_get [OF prem(1) that] .
      with True NTC_JSON_ARR prem(2) 1(1) [OF _ NTC_JSON_ARR] show ?thesis
        by (subst ntc_schema_validate.simps, subst conforms.simps) (auto simp: spec split: option.split)
    next
      case (NTC_JSON_OBJ ms)
      have ns: "\<forall>n. NTC_JSON_STR n \<in> set ns \<longrightarrow> short_name n" if "ntc_json_get schema ''required'' = Some (NTC_JSON_ARR ns)" for ns
        using names_ok_get [OF prem(1) that] by fastforce
      have ps: "\<forall>(k, sub) \<in> set ps. short_name k \<and> names_ok True sub"
        if "ntc_json_get schema ''properties'' = Some (NTC_JSON_OBJ ps)" for ps
        using names_ok_get [OF prem(1) that] by simp
      have ms: "\<forall>(k, v) \<in> set ms. short_name k" using prem(2) NTC_JSON_OBJ by auto
      have pr: "validate_props cast ps v = None \<longleftrightarrow> (\<forall>(k, sub) \<in> set ps. \<forall>x. map_of ms k = Some x \<longrightarrow> conforms cast sub x)"
        if p: "ntc_json_get schema ''properties'' = Some (NTC_JSON_OBJ ps)" for ps
        using 1(2) [OF _ NTC_JSON_OBJ p refl ps [OF p] prem(2)] True ps [OF p] NTC_JSON_OBJ
        by (auto simp: cstr_short split_beta)
      show ?thesis using True NTC_JSON_OBJ
        by (subst ntc_schema_validate.simps, subst conforms.simps)
          (auto simp: spec check_required_iff [OF ns] check_additional_iff [OF ms] pr [unfolded NTC_JSON_OBJ]
            split: option.split ntc_json.split)
    qed (use True in \<open>simp_all add: ntc_schema_validate.simps [of cast schema] conforms.simps [of cast schema] spec\<close>)
  qed (simp add: ntc_schema_validate.simps [of cast schema v] conforms.simps [of cast schema v])
next
  case (5 cast k sub ps v)
  then show ?case
    using names_ok_get [OF 5(4)] by (auto simp: key_buf_short split: option.split)
qed simp_all


subsection \<open>Properties\<close>


definition sample_schema :: ntc_json where
  "sample_schema = NTC_JSON_OBJ [(''type'', NTC_JSON_STR ''object''),
     (''required'', NTC_JSON_ARR [NTC_JSON_STR ''id'']),
     (''properties'', NTC_JSON_OBJ [(''id'', NTC_JSON_OBJ [(''type'', NTC_JSON_STR ''integer''),
        (''minimum'', NTC_JSON_NUM (Fin 1))])]),
     (''additionalProperties'', NTC_JSON_BOOL False)]"


lemma sample_schema_checks:
  "ntc_schema_validate (\<lambda>_. 0) sample_schema (NTC_JSON_OBJ [(''id'', NTC_JSON_NUM (Fin 7))]) = None"
  "ntc_schema_validate (\<lambda>_. 0) sample_schema (NTC_JSON_OBJ [(''id'', NTC_JSON_NUM (Fin 0))]) = Some ''below minimum''"
  "ntc_schema_validate (\<lambda>_. 0) sample_schema (NTC_JSON_OBJ []) \<noteq> None"
  by code_simp+

end
