(* ===== verification/Jwt.thy ===== *)
theory Jwt
  imports Json Crypto
begin

text \<open>
  JSON Web Tokens and JWK sets (\<open>src/common/jwt.c\<close>, \<open>include/ntc/jwt.h\<close>). A token is a
  string, a failed verification is \<open>None\<close> and a successful one the claims.

  What is outside the repository is the record \<open>jwt_env\<close>: the rounding of \<open>strtod\<close>, the
  conversion of a \<open>double\<close> to \<open>long\<close>, and BearSSL's two signature primitives,
  \<open>br_rsa_i31_pkcs1_vrfy\<close> (the hash it recovers from a signature, if any) and
  \<open>br_ecdsa_i31_vrfy_raw\<close>. The arenas of the JSON parser are taken to be granted.
\<close>

record jwt_env =
  je_rnd :: "rat \<Rightarrow> double_t"
  je_long :: "double_t \<Rightarrow> int"
  je_rsa_vrfy :: "byte list \<Rightarrow> byte list \<Rightarrow> byte list \<Rightarrow> byte list option" \<comment> \<open>signature, n, e\<close>
  je_ecdsa_vrfy :: "byte list \<Rightarrow> byte list \<Rightarrow> byte list \<Rightarrow> bool" \<comment> \<open>hash, q, signature\<close>

record ntc_jwt_claims =
  cl_sub :: string
  cl_scope :: string
  cl_exp :: int
  cl_iat :: int

record ntc_rsa_pubkey =
  pk_n :: "byte list"
  pk_e :: "byte list"
  pk_present :: bool

datatype ntc_jwk_kty = NTC_JWK_RSA | NTC_JWK_EC

record ntc_jwk_key =
  k_kty :: ntc_jwk_kty
  k_kid :: string
  k_alg :: string
  k_n :: "byte list"
  k_e :: "byte list"
  k_q :: "byte list"

definition NTC_JWKS_MAX_KEYS :: nat where "NTC_JWKS_MAX_KEYS = 16"

type_synonym ntc_jwks = "ntc_jwk_key list"

record jwt_parts =
  jp_h :: string
  jp_p :: string
  jp_sig :: string
  jp_signed :: string \<comment> \<open>the first \<open>signed_len\<close> bytes of the token\<close>

subsection \<open>Splitting and claims\<close>

definition jwt_split :: "string \<Rightarrow> jwt_parts option" where
  "jwt_split token =
     (case memchr CHR ''.'' token of
        None \<Rightarrow> None
      | Some d1 \<Rightarrow>
          (case memchr CHR ''.'' (drop (d1 + 1) token) of
             None \<Rightarrow> None
           | Some n \<Rightarrow>
               Some \<lparr>jp_h = take d1 token, jp_p = take n (drop (d1 + 1) token),
                     jp_sig = drop (d1 + 1 + n + 1) token, jp_signed = take (d1 + 1 + n) token\<rparr>))"

text \<open>A base64url segment that decodes to at least one byte, as JSON.\<close>

definition seg_json :: "jwt_env \<Rightarrow> string \<Rightarrow> nat \<Rightarrow> ntc_json option" where
  "seg_json env seg cap =
     (case ntc_base64url_decode seg cap of
        None \<Rightarrow> None
      | Some bs \<Rightarrow> if bs = [] then None else ntc_json_parse (je_rnd env) (chars_of bs))"

definition json_str_of :: "ntc_json \<Rightarrow> string \<Rightarrow> ntc_slice" where
  "json_str_of j key = ntc_json_str (ntc_json_get j key)"

definition json_long_of :: "jwt_env \<Rightarrow> ntc_json \<Rightarrow> string \<Rightarrow> int" where
  "json_long_of env j key = je_long env (ntc_json_num (ntc_json_get j key))"

definition jwt_parse_claims :: "jwt_env \<Rightarrow> jwt_parts \<Rightarrow> string \<Rightarrow> int \<Rightarrow> ntc_jwt_claims option" where
  "jwt_parse_claims env jp expect_alg now =
     (case seg_json env (jp_h jp) 1024 of
        None \<Rightarrow> None
      | Some hj \<Rightarrow>
          if \<not> ntc_slice_eq_cstr (json_str_of hj ''alg'') expect_alg then None
          else
            case seg_json env (jp_p jp) 4096 of
              Some (NTC_JSON_OBJ ms) \<Rightarrow>
                let pj = NTC_JSON_OBJ ms; ex = json_long_of env pj ''exp''
                in if ex \<noteq> 0 \<and> now > 0 \<and> now \<ge> ex then None
                   else Some \<lparr>cl_sub = snprintf 128 (fmt_slice (json_str_of pj ''sub'')),
                              cl_scope = snprintf 256 (fmt_slice (json_str_of pj ''scope'')),
                              cl_exp = ex, cl_iat = json_long_of env pj ''iat''\<rparr>
            | _ \<Rightarrow> None)"

definition ntc_jwt_peek_alg :: "jwt_env \<Rightarrow> string \<Rightarrow> nat \<Rightarrow> string option" where
  "ntc_jwt_peek_alg env token cap =
     (case jwt_split token of
        None \<Rightarrow> None
      | Some jp \<Rightarrow>
          (case seg_json env (jp_h jp) 1024 of
             None \<Rightarrow> None
           | Some hj \<Rightarrow>
               let alg = json_str_of hj ''alg''
               in if alg \<noteq> [] \<and> length alg < cap then Some (snprintf cap (fmt_slice alg)) else None))"

text \<open>The algorithm and the key id; the key id is empty when it is absent or too long.\<close>

definition ntc_jwt_peek_header :: "jwt_env \<Rightarrow> string \<Rightarrow> nat \<Rightarrow> nat \<Rightarrow> (string \<times> string) option" where
  "ntc_jwt_peek_header env token algcap kidcap =
     (case jwt_split token of
        None \<Rightarrow> None
      | Some jp \<Rightarrow>
          (case seg_json env (jp_h jp) 1024 of
             None \<Rightarrow> None
           | Some hj \<Rightarrow>
               let alg = json_str_of hj ''alg''; kid = json_str_of hj ''kid''
               in if alg \<noteq> [] \<and> length alg < algcap
                  then Some (snprintf algcap (fmt_slice alg),
                             if kid \<noteq> [] \<and> length kid < kidcap then snprintf kidcap (fmt_slice kid) else [])
                  else None))"

subsection \<open>Signatures\<close>

definition ntc_jwt_verify_hs256 :: "jwt_env \<Rightarrow> string \<Rightarrow> string \<Rightarrow> int \<Rightarrow> ntc_jwt_claims option" where
  "ntc_jwt_verify_hs256 env token secret now =
     (case jwt_split token of
        None \<Rightarrow> None
      | Some jp \<Rightarrow>
          let mac = ntc_hmac_sha256 (bytes_of (cstr secret)) (bytes_of (jp_signed jp))
          in case ntc_base64url_encode mac 64 of
               None \<Rightarrow> None
             | Some macb64 \<Rightarrow>
                 if length macb64 \<noteq> length (jp_sig jp) then None
                 else if \<not> ntc_ct_eq (bytes_of macb64) (bytes_of (jp_sig jp)) (length (jp_sig jp)) then None
                 else jwt_parse_claims env jp ''HS256'' now)"

definition ntc_jwt_verify_rs256 :: "jwt_env \<Rightarrow> string \<Rightarrow> ntc_rsa_pubkey \<Rightarrow> int \<Rightarrow> ntc_jwt_claims option" where
  "ntc_jwt_verify_rs256 env token key now =
     (if \<not> pk_present key then None
      else
        case jwt_split token of
          None \<Rightarrow> None
        | Some jp \<Rightarrow>
            (case ntc_base64url_decode (jp_sig jp) 512 of
               None \<Rightarrow> None
             | Some sig \<Rightarrow>
                 if sig = [] then None
                 else
                   let hash = ntc_sha256 (bytes_of (jp_signed jp))
                   in case je_rsa_vrfy env sig (pk_n key) (pk_e key) of
                        None \<Rightarrow> None
                      | Some hout \<Rightarrow>
                          if \<not> ntc_ct_eq hout hash 32 then None
                          else jwt_parse_claims env jp ''RS256'' now))"

definition ntc_jwt_verify_es256 :: "jwt_env \<Rightarrow> string \<Rightarrow> byte list \<Rightarrow> int \<Rightarrow> ntc_jwt_claims option" where
  "ntc_jwt_verify_es256 env token q now =
     (if q = [] then None
      else
        case jwt_split token of
          None \<Rightarrow> None
        | Some jp \<Rightarrow>
            (case ntc_base64url_decode (jp_sig jp) 160 of
               None \<Rightarrow> None
             | Some sig \<Rightarrow>
                 if length sig \<noteq> 64 then None
                 else
                   let hash = ntc_sha256 (bytes_of (jp_signed jp))
                   in if \<not> je_ecdsa_vrfy env hash q sig then None
                      else jwt_parse_claims env jp ''ES256'' now))"

subsection \<open>JWK sets\<close>

text \<open>Leading zero bytes go, but one byte always stays.\<close>

fun strip_zeros :: "byte list \<Rightarrow> byte list" where
  "strip_zeros (a # b # bs) = (if a = 0 then strip_zeros (b # bs) else a # b # bs)"
| "strip_zeros bs = bs"

definition jwk_b64u_field :: "ntc_json \<Rightarrow> string \<Rightarrow> nat \<Rightarrow> byte list option" where
  "jwk_b64u_field obj name cap =
     (let s = json_str_of obj name
      in if s = [] then None
         else case ntc_base64url_decode s cap of
                None \<Rightarrow> None
              | Some bs \<Rightarrow> if bs = [] then None else Some (strip_zeros bs))"

definition json_is_obj :: "ntc_json \<Rightarrow> bool" where
  "json_is_obj j \<longleftrightarrow> (case j of NTC_JSON_OBJ _ \<Rightarrow> True | _ \<Rightarrow> False)"

definition jwk_load_rsa :: "ntc_json \<Rightarrow> ntc_rsa_pubkey option" where
  "jwk_load_rsa jwk =
     (if \<not> json_is_obj jwk then None
      else if \<not> ntc_slice_eq_cstr (json_str_of jwk ''kty'') ''RSA'' then None
      else case (jwk_b64u_field jwk ''n'' 512, jwk_b64u_field jwk ''e'' 16) of
             (Some n, Some e) \<Rightarrow> Some \<lparr>pk_n = n, pk_e = e, pk_present = True\<rparr>
           | _ \<Rightarrow> None)"

text \<open>The first element that loads.\<close>

fun first_some :: "('a \<Rightarrow> 'b option) \<Rightarrow> 'a list \<Rightarrow> 'b option" where
  "first_some f [] = None"
| "first_some f (x # xs) = (case f x of None \<Rightarrow> first_some f xs | Some y \<Rightarrow> Some y)"

definition ntc_jwk_parse :: "jwt_env \<Rightarrow> string \<Rightarrow> ntc_rsa_pubkey option" where
  "ntc_jwk_parse env json =
     (case ntc_json_parse (je_rnd env) json of
        None \<Rightarrow> None
      | Some rt \<Rightarrow>
          (case ntc_json_get rt ''keys'' of
             Some (NTC_JSON_ARR items) \<Rightarrow> first_some jwk_load_rsa items
           | _ \<Rightarrow> jwk_load_rsa rt))"

definition jwk_ec_coord :: "ntc_json \<Rightarrow> string \<Rightarrow> byte list option" where
  "jwk_ec_coord jwk name =
     (let s = json_str_of jwk name
      in if s = [] then None
         else case ntc_base64url_decode s 48 of
                None \<Rightarrow> None
              | Some bs \<Rightarrow>
                  if bs = [] \<or> length bs > 32 then None
                  else Some (replicate (32 - length bs) 0 @ bs))"

definition jwk_load_one :: "ntc_json \<Rightarrow> ntc_jwk_key option" where
  "jwk_load_one jwk =
     (if \<not> json_is_obj jwk then None
      else
        let kty = json_str_of jwk ''kty'';
            kid = json_str_of jwk ''kid'';
            alg = json_str_of jwk ''alg'';
            kid' = (if kid \<noteq> [] \<and> length kid < 80 then snprintf 80 (fmt_slice kid) else []);
            alg' = (if alg \<noteq> [] \<and> length alg < 16 then snprintf 16 (fmt_slice alg) else [])
        in if ntc_slice_eq_cstr kty ''RSA''
           then (case (jwk_b64u_field jwk ''n'' 512, jwk_b64u_field jwk ''e'' 16) of
                   (Some n, Some e) \<Rightarrow>
                     Some \<lparr>k_kty = NTC_JWK_RSA, k_kid = kid', k_alg = alg', k_n = n, k_e = e, k_q = []\<rparr>
                 | _ \<Rightarrow> None)
           else if ntc_slice_eq_cstr kty ''EC''
           then (if \<not> ntc_slice_eq_cstr (json_str_of jwk ''crv'') ''P-256'' then None
                 else
                   case jwk_ec_coord jwk ''x'' of
                     None \<Rightarrow> None
                   | Some x \<Rightarrow>
                       (case jwk_ec_coord jwk ''y'' of
                          None \<Rightarrow> None
                        | Some y \<Rightarrow>
                            Some \<lparr>k_kty = NTC_JWK_EC, k_kid = kid', k_alg = alg', k_n = [], k_e = [],
                                  k_q = 0x04 # x @ y\<rparr>))
           else None)"

fun jwks_collect :: "ntc_jwks \<Rightarrow> ntc_json list \<Rightarrow> ntc_jwks" where
  "jwks_collect keys [] = keys"
| "jwks_collect keys (j # js) =
     (if length keys < NTC_JWKS_MAX_KEYS
      then jwks_collect (case jwk_load_one j of None \<Rightarrow> keys | Some k \<Rightarrow> keys @ [k]) js
      else keys)"

text \<open>The keys loaded; the call returns true when there is at least one.\<close>

definition ntc_jwks_parse :: "jwt_env \<Rightarrow> string \<Rightarrow> ntc_jwks" where
  "ntc_jwks_parse env json =
     (case ntc_json_parse (je_rnd env) json of
        None \<Rightarrow> []
      | Some rt \<Rightarrow>
          (case ntc_json_get rt ''keys'' of
             Some (NTC_JSON_ARR items) \<Rightarrow> jwks_collect [] items
           | _ \<Rightarrow> (case jwk_load_one rt of None \<Rightarrow> [] | Some k \<Rightarrow> [k])))"

definition want_kty :: "string \<Rightarrow> ntc_jwk_kty option" where
  "want_kty alg = (if alg = ''RS256'' then Some NTC_JWK_RSA
                   else if alg = ''ES256'' then Some NTC_JWK_EC else None)"

fun find_loop :: "ntc_jwk_kty option \<Rightarrow> string \<Rightarrow> ntc_jwk_key option \<Rightarrow> ntc_jwks \<Rightarrow> ntc_jwk_key option" where
  "find_loop want kid fallback [] = (if kid \<noteq> [] then None else fallback)"
| "find_loop want kid fallback (k # ks) =
     (if want \<noteq> None \<and> Some (k_kty k) \<noteq> want then find_loop want kid fallback ks
      else if kid \<noteq> [] then (if k_kid k = kid then Some k else find_loop want kid fallback ks)
      else find_loop want kid (if fallback = None then Some k else fallback) ks)"

definition ntc_jwks_find :: "ntc_jwks \<Rightarrow> string \<Rightarrow> string \<Rightarrow> ntc_jwk_key option" where
  "ntc_jwks_find ks kid alg = find_loop (want_kty alg) kid None ks"

definition ntc_jwt_verify_jwks :: "jwt_env \<Rightarrow> string \<Rightarrow> ntc_jwks \<Rightarrow> int \<Rightarrow> ntc_jwt_claims option" where
  "ntc_jwt_verify_jwks env token ks now =
     (case ntc_jwt_peek_header env token 16 80 of
        None \<Rightarrow> None
      | Some (alg, kid) \<Rightarrow>
          (case ntc_jwks_find ks kid alg of
             None \<Rightarrow> None
           | Some k \<Rightarrow>
               if alg = ''RS256'' \<and> k_kty k = NTC_JWK_RSA
               then ntc_jwt_verify_rs256 env token \<lparr>pk_n = k_n k, pk_e = k_e k, pk_present = True\<rparr> now
               else if alg = ''ES256'' \<and> k_kty k = NTC_JWK_EC
               then ntc_jwt_verify_es256 env token (k_q k) now
               else None))"

subsection \<open>Lemmas\<close>

lemma jwt_split_spec:
  "jwt_split token = Some jp \<longleftrightarrow>
     token = jp_h jp @ CHR ''.'' # jp_p jp @ CHR ''.'' # jp_sig jp \<and>
     CHR ''.'' \<notin> set (jp_h jp) \<and> CHR ''.'' \<notin> set (jp_p jp) \<and>
     jp_signed jp = jp_h jp @ CHR ''.'' # jp_p jp" (is "?L = ?R")
proof
  assume ?L
  then obtain d1 n where d1: "memchr CHR ''.'' token = Some d1" and n: "memchr CHR ''.'' (drop (d1 + 1) token) = Some n"
    and jp: "jp = \<lparr>jp_h = take d1 token, jp_p = take n (drop (d1 + 1) token),
       jp_sig = drop (d1 + 1 + n + 1) token, jp_signed = take (d1 + 1 + n) token\<rparr>"
    by (auto simp: jwt_split_def split: option.splits)
  have 1: "token = take d1 token @ CHR ''.'' # drop (d1 + 1) token" "CHR ''.'' \<notin> set (take d1 token)"
    using memchr_split [OF d1] by simp_all
  have 2: "drop (d1 + 1) token = take n (drop (d1 + 1) token) @ CHR ''.'' # drop (Suc n) (drop (d1 + 1) token)"
    "CHR ''.'' \<notin> set (take n (drop (d1 + 1) token))"
    using memchr_split [OF n] by simp_all
  have l: "length (take d1 token) = d1" using memchr_less [OF d1] by simp
  have "take (d1 + 1 + n) token = take d1 token @ CHR ''.'' # take n (drop (d1 + 1) token)"
    by (subst 1(1)) (simp add: l min_def)
  with 1 2 show ?R by (simp add: jp add.commute)
next
  assume R: ?R
  then have "memchr CHR ''.'' token = Some (length (jp_h jp))"
    "memchr CHR ''.'' (drop (length (jp_h jp) + 1) token) = Some (length (jp_p jp))" by simp_all
  with R show ?L by (cases jp) (simp add: jwt_split_def)
qed

lemma bytes_of_inj [simp]: "bytes_of a = bytes_of b \<longleftrightarrow> a = b"
  by (metis map_chars_of_bytes_of)

lemma ct_eq_string:
  "length m = length sig \<Longrightarrow> ntc_ct_eq (bytes_of m) (bytes_of sig) (length sig) \<longleftrightarrow> m = sig"
  by (subst ct_eq_iff) simp_all

text \<open>What a successful check of the header and the payload establishes.\<close>

definition claims_spec :: "jwt_env \<Rightarrow> string \<Rightarrow> string \<Rightarrow> string \<Rightarrow> int \<Rightarrow> ntc_jwt_claims \<Rightarrow> bool" where
  "claims_spec env h p alg now cl \<longleftrightarrow>
     (\<exists>hj ms. seg_json env h 1024 = Some hj \<and> json_str_of hj ''alg'' = alg \<and>
        seg_json env p 4096 = Some (NTC_JSON_OBJ ms) \<and>
        (cl_exp cl = 0 \<or> now \<le> 0 \<or> now < cl_exp cl) \<and>
        cl = \<lparr>cl_sub = snprintf 128 (fmt_slice (json_str_of (NTC_JSON_OBJ ms) ''sub'')),
              cl_scope = snprintf 256 (fmt_slice (json_str_of (NTC_JSON_OBJ ms) ''scope'')),
              cl_exp = json_long_of env (NTC_JSON_OBJ ms) ''exp'',
              cl_iat = json_long_of env (NTC_JSON_OBJ ms) ''iat''\<rparr>)"

lemma parse_claims_iff:
  assumes "ntc_slice_cstr alg = alg"
  shows "jwt_parse_claims env jp alg now = Some cl \<longleftrightarrow> claims_spec env (jp_h jp) (jp_p jp) alg now cl"
proof -
  have eq: "ntc_slice_eq_cstr s alg \<longleftrightarrow> s = alg" for s using assms by (simp add: ntc_slice_eq_cstr_def ntc_slice_eq_def)
  show ?thesis
    by (auto simp: jwt_parse_claims_def claims_spec_def eq Let_def split: option.splits ntc_json.splits if_splits)
qed

lemma alg_literals: "ntc_slice_cstr ''HS256'' = ''HS256''" "ntc_slice_cstr ''RS256'' = ''RS256''" "ntc_slice_cstr ''ES256'' = ''ES256''"
  by code_simp+

lemma verify_hs256_iff:
  "ntc_jwt_verify_hs256 env token secret now = Some cl \<longleftrightarrow>
     (\<exists>h p s. token = h @ CHR ''.'' # p @ CHR ''.'' # s \<and> CHR ''.'' \<notin> set h \<and> CHR ''.'' \<notin> set p \<and>
        ntc_base64url_encode (ntc_hmac_sha256 (bytes_of (cstr secret)) (bytes_of (h @ CHR ''.'' # p))) 64 = Some s \<and>
        claims_spec env h p ''HS256'' now cl)" (is "?L = ?R")
proof
  assume ?L
  then obtain jp m where jp: "jwt_split token = Some jp"
    and m: "ntc_base64url_encode (ntc_hmac_sha256 (bytes_of (cstr secret)) (bytes_of (jp_signed jp))) 64 = Some m"
    "length m = length (jp_sig jp)" "ntc_ct_eq (bytes_of m) (bytes_of (jp_sig jp)) (length (jp_sig jp))"
    and c: "jwt_parse_claims env jp ''HS256'' now = Some cl"
    by (auto simp: ntc_jwt_verify_hs256_def Let_def split: option.splits if_splits)
  from m(2,3) have "m = jp_sig jp" by (simp add: ct_eq_string)
  with jp m(1) c show ?R
    by (intro exI [of _ "jp_h jp"] exI [of _ "jp_p jp"] exI [of _ "jp_sig jp"])
      (simp add: jwt_split_spec parse_claims_iff alg_literals)
next
  assume ?R
  then obtain h p s where t: "token = h @ CHR ''.'' # p @ CHR ''.'' # s" "CHR ''.'' \<notin> set h" "CHR ''.'' \<notin> set p"
    and m: "ntc_base64url_encode (ntc_hmac_sha256 (bytes_of (cstr secret)) (bytes_of (h @ CHR ''.'' # p))) 64 = Some s"
    and c: "claims_spec env h p ''HS256'' now cl" by blast
  define jp where "jp = \<lparr>jp_h = h, jp_p = p, jp_sig = s, jp_signed = h @ CHR ''.'' # p\<rparr>"
  have "jwt_split token = Some jp" using t by (simp add: jwt_split_spec jp_def)
  moreover have "jwt_parse_claims env jp ''HS256'' now = Some cl" using c by (simp add: parse_claims_iff alg_literals jp_def)
  ultimately show ?L using m by (simp add: ntc_jwt_verify_hs256_def jp_def ct_eq_string)
qed

lemma find_loop_sound:
  "find_loop want kid fb ks = Some k \<Longrightarrow> (\<forall>f. fb = Some f \<longrightarrow> want = None \<or> Some (k_kty f) = want) \<Longrightarrow>
   (k \<in> set ks \<or> fb = Some k) \<and> (want = None \<or> Some (k_kty k) = want) \<and> (kid \<noteq> [] \<longrightarrow> k_kid k = kid)"
  by (induction want kid fb ks rule: find_loop.induct) (auto split: if_splits)


subsection \<open>Minting\<close>

text \<open>A token as an issuer builds it: two JSON texts in base64url and the MAC over them.\<close>

definition b64u :: "string \<Rightarrow> string" where
  "b64u t = the (ntc_base64url_encode (bytes_of t) (2 * length t + 2))"

definition mint_hs256 :: "(rat \<Rightarrow> string) \<Rightarrow> string \<Rightarrow> ntc_json \<Rightarrow> ntc_json \<Rightarrow> string" where
  "mint_hs256 g secret hdr payload =
     (let h = b64u (json_text g hdr); p = b64u (json_text g payload);
          mac = ntc_hmac_sha256 (bytes_of secret) (bytes_of (h @ CHR ''.'' # p))
      in h @ CHR ''.'' # p @ CHR ''.'' # the (ntc_base64url_encode mac 64))"

lemma b64u_enc: "ntc_base64url_encode (bytes_of t) (2 * length t + 2) = Some (b64u t)"
proof -
  have "\<exists>s. ntc_base64url_encode (bytes_of t) (2 * length t + 2) = Some s"
    by (rule base64url_encode_Some) simp
  then show ?thesis by (auto simp: b64u_def)
qed

lemma seg_json_b64u:
  assumes "t \<noteq> []" "length t \<le> cap"
  shows "seg_json env (b64u t) cap = ntc_json_parse (je_rnd env) t"
  using base64url_decode_encode [OF b64u_enc, of t cap] assms by (simp add: seg_json_def comp_def)

lemma seg_json_text:
  assumes "exact_ints (je_rnd env)" "json_ok NTC_JSON_MAX_DEPTH v" "length (json_text g v) \<le> cap"
  shows "seg_json env (b64u (json_text g v)) cap = Some v"
proof -
  have "json_text g v \<noteq> []" using text_head [OF assms(2), of g] by auto
  with parse_text [OF assms(1), of 0 v "[]" g] assms(2,3) show ?thesis
    by (simp add: seg_json_b64u ntc_json_parse_def delim_def)
qed

subsection \<open>Properties\<close>

text \<open>
  C12 (\<open>jwt_hs256_sound\<close>): an HS256 token is accepted exactly when it is three segments,
  the third being the base64url of the HMAC of the first two under the secret, the header
  names HS256, the payload is a JSON object and it has not expired; the claims are then
  those of the payload, cut to their buffers.
\<close>

theorem jwt_hs256_sound:
  "ntc_jwt_verify_hs256 env token secret now = Some cl \<longleftrightarrow>
     (\<exists>h p s. token = h @ CHR ''.'' # p @ CHR ''.'' # s \<and> CHR ''.'' \<notin> set h \<and> CHR ''.'' \<notin> set p \<and>
        ntc_base64url_encode (ntc_hmac_sha256 (bytes_of (cstr secret)) (bytes_of (h @ CHR ''.'' # p))) 64 = Some s \<and>
        claims_spec env h p ''HS256'' now cl)"
  by (rule verify_hs256_iff)

text \<open>
  A token minted with the same secret from a header naming HS256 and
  a payload object is accepted until it expires, with the payload's claims.
\<close>

lemma jwt_hs256_mint:
  assumes "exact_ints (je_rnd env)" and "NUL \<notin> set secret"
    and "json_ok NTC_JSON_MAX_DEPTH hdr" and "length (json_text g hdr) \<le> 1024"
    and "json_str_of hdr ''alg'' = ''HS256''"
    and "json_ok NTC_JSON_MAX_DEPTH (NTC_JSON_OBJ ms)" and "length (json_text g (NTC_JSON_OBJ ms)) \<le> 4096"
    and "ex = json_long_of env (NTC_JSON_OBJ ms) ''exp''" and "ex = 0 \<or> now \<le> 0 \<or> now < ex"
  shows "ntc_jwt_verify_hs256 env (mint_hs256 g secret hdr (NTC_JSON_OBJ ms)) secret now =
    Some \<lparr>cl_sub = snprintf 128 (fmt_slice (json_str_of (NTC_JSON_OBJ ms) ''sub'')),
          cl_scope = snprintf 256 (fmt_slice (json_str_of (NTC_JSON_OBJ ms) ''scope'')),
          cl_exp = ex, cl_iat = json_long_of env (NTC_JSON_OBJ ms) ''iat''\<rparr>"
proof -
  let ?h = "b64u (json_text g hdr)" and ?p = "b64u (json_text g (NTC_JSON_OBJ ms))"
  let ?mac = "ntc_hmac_sha256 (bytes_of secret) (bytes_of (?h @ CHR ''.'' # ?p))"
  have m: "ntc_base64url_encode ?mac 64 = Some (the (ntc_base64url_encode ?mac 64))"
    using base64url_encode_Some [of ?mac 64] by auto
  have "CHR ''.'' \<notin> set ?h" "CHR ''.'' \<notin> set ?p" using base64url_chars [OF b64u_enc] by blast+
  moreover have "claims_spec env ?h ?p ''HS256'' now \<lparr>cl_sub = snprintf 128 (fmt_slice (json_str_of (NTC_JSON_OBJ ms) ''sub'')),
          cl_scope = snprintf 256 (fmt_slice (json_str_of (NTC_JSON_OBJ ms) ''scope'')),
          cl_exp = ex, cl_iat = json_long_of env (NTC_JSON_OBJ ms) ''iat''\<rparr>"
    using assms seg_json_text [OF assms(1,3,4)] seg_json_text [OF assms(1,6,7)] by (simp add: claims_spec_def)
  ultimately show ?thesis
    unfolding verify_hs256_iff mint_hs256_def Let_def using m assms(2)
    by (intro exI [of _ ?h] exI [of _ ?p] exI [of _ "the (ntc_base64url_encode ?mac 64)"]) simp
qed

definition sample_env :: jwt_env where
  "sample_env = \<lparr>je_rnd = Fin, je_long = (\<lambda>d. case d of Fin q \<Rightarrow> \<lfloor>q\<rfloor> | Infty _ \<Rightarrow> 0),
     je_rsa_vrfy = (\<lambda>sig n e. Some (take 32 sig)), je_ecdsa_vrfy = (\<lambda>h q sig. take 32 sig = h)\<rparr>"

text \<open>
  A key is selected only if it is in the set and fits the
  algorithm, and with a key id only the first fitting key with exactly that id is.
\<close>

lemma jwks_find_spec:
  "ntc_jwks_find ks kid alg =
     find (\<lambda>k. (want_kty alg = None \<or> want_kty alg = Some (k_kty k)) \<and> (kid = [] \<or> k_kid k = kid)) ks"
proof -
  have fb: "find_loop want [] (Some f) ks = Some f" for want f ks
    by (induction ks) auto
  have "find_loop want kid None ks =
      find (\<lambda>k. (want = None \<or> want = Some (k_kty k)) \<and> (kid = [] \<or> k_kid k = kid)) ks" for want
    by (induction ks) (auto simp: fb)
  then show ?thesis by (simp add: ntc_jwks_find_def)
qed

text \<open>
  C13 (\<open>jwt_jwks_no_confusion\<close>): against a key set, a token is accepted only if the
  algorithm its header names is RS256 or ES256, some key of the set of the matching type
  (with the token's key id when it has one) verifies the signature over the SHA-256 of
  header and payload, and the claims hold. In particular no HS256 or unsigned token passes.
\<close>

theorem jwt_jwks_no_confusion:
  assumes "ntc_jwt_verify_jwks env token ks now = Some cl"
  shows "\<exists>h p s sig k. token = h @ CHR ''.'' # p @ CHR ''.'' # s \<and> k \<in> set ks \<and>
    ((ntc_base64url_decode s 512 = Some sig \<and> k_kty k = NTC_JWK_RSA \<and> claims_spec env h p ''RS256'' now cl \<and>
      (\<exists>hout. je_rsa_vrfy env sig (k_n k) (k_e k) = Some hout \<and>
         ntc_ct_eq hout (ntc_sha256 (bytes_of (h @ CHR ''.'' # p))) 32)) \<or>
     (ntc_base64url_decode s 160 = Some sig \<and> k_kty k = NTC_JWK_EC \<and> length sig = 64 \<and>
      claims_spec env h p ''ES256'' now cl \<and>
      je_ecdsa_vrfy env (ntc_sha256 (bytes_of (h @ CHR ''.'' # p))) (k_q k) sig))"
proof -
  from assms obtain alg kid k where f: "ntc_jwks_find ks kid alg = Some k"
    and v: "alg = ''RS256'' \<and> k_kty k = NTC_JWK_RSA \<and>
        ntc_jwt_verify_rs256 env token \<lparr>pk_n = k_n k, pk_e = k_e k, pk_present = True\<rparr> now = Some cl \<or>
      k_kty k = NTC_JWK_EC \<and> ntc_jwt_verify_es256 env token (k_q k) now = Some cl"
    by (auto simp: ntc_jwt_verify_jwks_def split: option.splits if_splits)
  from f have k: "k \<in> set ks" using find_loop_sound [of "want_kty alg" kid None ks k] by (simp add: ntc_jwks_find_def)
  from v show ?thesis
  proof
    assume "alg = ''RS256'' \<and> k_kty k = NTC_JWK_RSA \<and>
        ntc_jwt_verify_rs256 env token \<lparr>pk_n = k_n k, pk_e = k_e k, pk_present = True\<rparr> now = Some cl"
    then obtain jp sig hout where "jwt_split token = Some jp" "ntc_base64url_decode (jp_sig jp) 512 = Some sig"
      "je_rsa_vrfy env sig (k_n k) (k_e k) = Some hout" "ntc_ct_eq hout (ntc_sha256 (bytes_of (jp_signed jp))) 32"
      "jwt_parse_claims env jp ''RS256'' now = Some cl" "k_kty k = NTC_JWK_RSA"
      by (auto simp: ntc_jwt_verify_rs256_def Let_def split: option.splits if_splits)
    with k show ?thesis
      by (intro exI [of _ "jp_h jp"] exI [of _ "jp_p jp"] exI [of _ "jp_sig jp"] exI [of _ sig] exI [of _ k])
        (auto simp: jwt_split_spec parse_claims_iff alg_literals)
  next
    assume "k_kty k = NTC_JWK_EC \<and> ntc_jwt_verify_es256 env token (k_q k) now = Some cl"
    then obtain jp sig where "jwt_split token = Some jp" "ntc_base64url_decode (jp_sig jp) 160 = Some sig"
      "length sig = 64" "je_ecdsa_vrfy env (ntc_sha256 (bytes_of (jp_signed jp))) (k_q k) sig"
      "jwt_parse_claims env jp ''ES256'' now = Some cl" "k_kty k = NTC_JWK_EC"
      by (auto simp: ntc_jwt_verify_es256_def Let_def split: option.splits if_splits)
    with k show ?thesis
      by (intro exI [of _ "jp_h jp"] exI [of _ "jp_p jp"] exI [of _ "jp_sig jp"] exI [of _ sig] exI [of _ k])
        (auto simp: jwt_split_spec parse_claims_iff alg_literals)
  qed
qed


text \<open>A set with one EC key, a verifier that accepts, and the token \<open>{"alg":"ES256"}.{}.0...0\<close>.\<close>

definition sample_key :: ntc_jwk_key where
  "sample_key = \<lparr>k_kty = NTC_JWK_EC, k_kid = [], k_alg = [], k_n = [], k_e = [], k_q = [4]\<rparr>"

definition ec_env :: jwt_env where
  "ec_env = sample_env\<lparr>je_ecdsa_vrfy := (\<lambda>_ _ _. True)\<rparr>"

definition ec_token :: string where
  "ec_token = ''eyJhbGciOiJFUzI1NiJ9.e30.'' @ the (ntc_base64url_encode (replicate 64 0) 100)"

lemma ec_token_accepted:
  "ntc_jwt_verify_jwks ec_env ec_token [sample_key] 0 = Some \<lparr>cl_sub = [], cl_scope = [], cl_exp = 0, cl_iat = 0\<rparr>"
proof -
  define jp where "jp = \<lparr>jp_h = ''eyJhbGciOiJFUzI1NiJ9'', jp_p = ''e30'',
      jp_sig = the (ntc_base64url_encode (replicate 64 0) 100), jp_signed = ''eyJhbGciOiJFUzI1NiJ9.e30''\<rparr>"
  have 1: "jwt_split ec_token = Some jp" by (simp add: jwt_split_spec jp_def ec_token_def)
  have "\<exists>s. ntc_base64url_encode (replicate 64 0) 100 = Some s" by (rule base64url_encode_Some) simp
  then have 2: "ntc_base64url_decode (jp_sig jp) 160 = Some (replicate 64 0)"
    using base64url_decode_encode [of "replicate 64 0" 100 _ 160] by (auto simp: jp_def)
  have h: "seg_json ec_env (jp_h jp) 1024 = Some (NTC_JSON_OBJ [(''alg'', NTC_JSON_STR ''ES256'')])"
    "seg_json ec_env (jp_p jp) 4096 = Some (NTC_JSON_OBJ [])"
    unfolding jp_def jwt_parts.simps by code_simp+
  have 3: "jwt_parse_claims ec_env jp ''ES256'' 0 = Some \<lparr>cl_sub = [], cl_scope = [], cl_exp = 0, cl_iat = 0\<rparr>"
    unfolding jwt_parse_claims_def h option.case by code_simp
  have 4: "ntc_jwt_peek_header ec_env ec_token 16 80 = Some (''ES256'', [])"
    unfolding ntc_jwt_peek_header_def 1 option.case h by code_simp
  have 5: "ntc_jwks_find [sample_key] [] ''ES256'' = Some sample_key" by code_simp
  have v: "je_ecdsa_vrfy ec_env hash q sig" for hash q sig by (simp add: ec_env_def)
  have q: "k_q sample_key \<noteq> []" and ty: "k_kty sample_key = NTC_JWK_EC" by (simp_all add: sample_key_def)
  have l: "length (replicate 64 (0 :: byte)) = 64" by simp
  have "ntc_jwt_verify_es256 ec_env ec_token (k_q sample_key) 0 = Some \<lparr>cl_sub = [], cl_scope = [], cl_exp = 0, cl_iat = 0\<rparr>"
    unfolding ntc_jwt_verify_es256_def Let_def 1 option.case 2 3 using q l by (simp add: v)
  with 4 5 ty show ?thesis by (simp add: ntc_jwt_verify_jwks_def)
qed

theorem jwt_jwks_no_confusion_witness:
  "\<exists>h p s sig k. ec_token = h @ CHR ''.'' # p @ CHR ''.'' # s \<and> k \<in> set [sample_key] \<and>
    ((ntc_base64url_decode s 512 = Some sig \<and> k_kty k = NTC_JWK_RSA \<and>
      claims_spec ec_env h p ''RS256'' 0 \<lparr>cl_sub = [], cl_scope = [], cl_exp = 0, cl_iat = 0\<rparr> \<and>
      (\<exists>hout. je_rsa_vrfy ec_env sig (k_n k) (k_e k) = Some hout \<and>
         ntc_ct_eq hout (ntc_sha256 (bytes_of (h @ CHR ''.'' # p))) 32)) \<or>
     (ntc_base64url_decode s 160 = Some sig \<and> k_kty k = NTC_JWK_EC \<and> length sig = 64 \<and>
      claims_spec ec_env h p ''ES256'' 0 \<lparr>cl_sub = [], cl_scope = [], cl_exp = 0, cl_iat = 0\<rparr> \<and>
      je_ecdsa_vrfy ec_env (ntc_sha256 (bytes_of (h @ CHR ''.'' # p))) (k_q k) sig))"
  by (rule jwt_jwks_no_confusion [OF ec_token_accepted])

end
