(* ===== verification/Session.thy ===== *)
theory Session
  imports Crypto
begin

text \<open>
  Sessions and login state (\<open>src/core/session.c\<close>): the in-memory key/value store with
  expiry, cookies, random tokens and PKCE. C strings are lists without NUL. The store is
  the list of its \<open>cap\<close> entries; an operation that the C code performs in place returns the
  store afterwards. Randomness (\<open>/dev/urandom\<close>) is an argument: the bytes read, or \<open>None\<close>
  when the read fails.

  The contract of such a store is the locale \<open>ttl_store\<close>; the login flow's one-time use of
  a pending state is proved in it and holds of the store by interpretation.
\<close>

definition NTC_KV_KEYLEN :: nat where "NTC_KV_KEYLEN = 96"
definition NTC_KV_VALLEN :: nat where "NTC_KV_VALLEN = 1024"

record kv_entry =
  kv_key :: string
  kv_val :: string
  kv_expiry :: int

type_synonym ntc_kvstore = "kv_entry list"

definition ntc_kv_new :: "nat \<Rightarrow> ntc_kvstore" where
  "ntc_kv_new cap = replicate (if cap = 0 then 1024 else cap) \<lparr>kv_key = [], kv_val = [], kv_expiry = 0\<rparr>"

fun kv_find :: "ntc_kvstore \<Rightarrow> string \<Rightarrow> nat option" where
  "kv_find [] key = None"
| "kv_find (e # es) key =
     (if kv_expiry e \<noteq> 0 \<and> kv_key e = key then Some 0 else map_option Suc (kv_find es key))"

text \<open>
  The scan for a slot, from index \<open>i\<close> on: the first empty entry, else the entry that
  expires soonest (\<open>victim\<close> and its expiry so far).
\<close>

fun kv_slot :: "nat \<Rightarrow> (nat \<times> int) option \<Rightarrow> ntc_kvstore \<Rightarrow> nat option" where
  "kv_slot i victim [] = map_option fst victim"
| "kv_slot i victim (e # es) =
     (if kv_expiry e = 0 then Some i
      else kv_slot (i + 1)
             (case victim of
                None \<Rightarrow> Some (i, kv_expiry e)
              | Some (j, x) \<Rightarrow> if kv_expiry e < x then Some (i, kv_expiry e) else Some (j, x)) es)"

definition ntc_kv_put :: "ntc_kvstore \<Rightarrow> string \<Rightarrow> string \<Rightarrow> int \<Rightarrow> ntc_kvstore" where
  "ntc_kv_put kv key val expiry =
     (if length key \<ge> NTC_KV_KEYLEN \<or> length val \<ge> NTC_KV_VALLEN then kv
      else
        case (case kv_find kv key of Some i \<Rightarrow> Some i | None \<Rightarrow> kv_slot 0 None kv) of
          None \<Rightarrow> kv
        | Some i \<Rightarrow> kv[i := \<lparr>kv_key = snprintf NTC_KV_KEYLEN key, kv_val = snprintf NTC_KV_VALLEN val,
                             kv_expiry = (if expiry \<noteq> 0 then expiry else 1)\<rparr>])"

definition ntc_kv_get :: "ntc_kvstore \<Rightarrow> string \<Rightarrow> int \<Rightarrow> nat \<Rightarrow> string option \<times> ntc_kvstore" where
  "ntc_kv_get kv key now cap =
     (case kv_find kv key of
        None \<Rightarrow> (None, kv)
      | Some i \<Rightarrow>
          if now > 0 \<and> kv_expiry (kv ! i) \<le> now then (None, kv[i := (kv ! i)\<lparr>kv_expiry := 0\<rparr>])
          else (Some (snprintf cap (kv_val (kv ! i))), kv))"

definition ntc_kv_del :: "ntc_kvstore \<Rightarrow> string \<Rightarrow> ntc_kvstore" where
  "ntc_kv_del kv key =
     (case kv_find kv key of
        None \<Rightarrow> kv
      | Some i \<Rightarrow> kv[i := \<lparr>kv_key = [], kv_val = [], kv_expiry = 0\<rparr>])"

subsection \<open>Cookies\<close>

definition cookie_sep :: "char \<Rightarrow> bool" where
  "cookie_sep c \<longleftrightarrow> c = CHR '' '' \<or> c = CHR '';''"

lemma cookie_next_shrinks:
  assumes "dropWhile cookie_sep p \<noteq> []"
  shows "length (dropWhile (\<lambda>c. c \<noteq> CHR '';'') (dropWhile cookie_sep p)) < length p"
proof -
  from assms obtain c r where q: "dropWhile cookie_sep p = c # r" by (cases "dropWhile cookie_sep p") auto
  have c: "\<not> cookie_sep c" using q hd_dropWhile [of cookie_sep p] by simp
  have "length (dropWhile (\<lambda>c. c \<noteq> CHR '';'') (c # r)) \<le> length r"
    using c length_dropWhile_le [of "\<lambda>c. c \<noteq> CHR '';''" r] by (simp add: cookie_sep_def)
  also have "length r < length p" using q length_dropWhile_le [of cookie_sep p] by simp
  finally show ?thesis by (simp add: q)
qed

text \<open>The loop over the header; the name is compared only where a cookie starts.\<close>

function cookie_scan :: "string \<Rightarrow> string \<Rightarrow> string option" where
  "cookie_scan p name =
     (if p = [] then None
      else
        let q = dropWhile cookie_sep p
        in if take (length name + 1) q = name @ ''=''
           then Some (takeWhile (\<lambda>c. c \<noteq> CHR '';'') (drop (length name + 1) q))
           else if q = [] then None
           else cookie_scan (dropWhile (\<lambda>c. c \<noteq> CHR '';'') q) name)"
  by pat_completeness auto
termination by (relation "measure (length \<circ> fst)") (auto intro: cookie_next_shrinks)

declare cookie_scan.simps [simp del, loop_simps]

definition ntc_cookie_get :: "string \<Rightarrow> string \<Rightarrow> nat \<Rightarrow> string option" where
  "ntc_cookie_get header name cap = map_option (\<lambda>v. take (cap - 1) v) (cookie_scan header name)"

text \<open>The text written and the return value (\<open>None\<close> for -1).\<close>

definition ntc_cookie_format :: "nat \<Rightarrow> string \<Rightarrow> string \<Rightarrow> bool \<Rightarrow> int \<Rightarrow> string \<times> nat option" where
  "ntc_cookie_format cap name val secure max_age =
     (let s = name @ ''='' @ val @ ''; Path=/; HttpOnly; SameSite=Lax'' @ (if secure then ''; Secure'' else '''')
      in if length s \<ge> cap then (snprintf cap s, None)
         else if max_age \<ge> 0
         then (let t = ''; Max-Age='' @ fmt_int max_age
               in (s @ snprintf (cap - length s) t, Some (length s + length t)))
         else (s, Some (length s)))"

subsection \<open>Random tokens and PKCE\<close>

definition ntc_random_token :: "byte list option \<Rightarrow> nat \<Rightarrow> nat \<Rightarrow> string option" where
  \<comment> \<open>the first argument is what \<open>fill_random\<close> delivers for \<open>nbytes\<close> bytes\<close>
  "ntc_random_token rand cap nbytes =
     (if nbytes > 64 \<or> cap < nbytes * 2 + 1 then None
      else case rand of
             None \<Rightarrow> None
           | Some b \<Rightarrow> Some (concat (map fmt_02x b)))"

definition ntc_pkce_verifier :: "byte list option \<Rightarrow> nat \<Rightarrow> string option" where
  "ntc_pkce_verifier rand cap =
     (if cap < 44 then None
      else case rand of
             None \<Rightarrow> None
           | Some b \<Rightarrow> (case ntc_base64url_encode b cap of
                          Some s \<Rightarrow> if s \<noteq> [] then Some s else None
                        | None \<Rightarrow> None))"

definition ntc_pkce_challenge :: "string \<Rightarrow> nat \<Rightarrow> string option" where
  "ntc_pkce_challenge verifier cap =
     (if cap < 44 then None
      else case ntc_base64url_encode (ntc_sha256 (bytes_of verifier)) cap of
             Some s \<Rightarrow> if s \<noteq> [] then Some s else None
           | None \<Rightarrow> None)"

subsection \<open>The contract of the store\<close>

datatype kv_op = Put string string int | Get string int | Del string

fun kv_step :: "('s \<Rightarrow> string \<Rightarrow> string \<Rightarrow> int \<Rightarrow> 's) \<Rightarrow> ('s \<Rightarrow> string \<Rightarrow> int \<Rightarrow> string option \<times> 's) \<Rightarrow>
    ('s \<Rightarrow> string \<Rightarrow> 's) \<Rightarrow> 's \<Rightarrow> kv_op \<Rightarrow> 's" where
  "kv_step put get del s (Put k v x) = put s k v x"
| "kv_step put get del s (Get k now) = snd (get s k now)"
| "kv_step put get del s (Del k) = del s k"

fun puts_key :: "string \<Rightarrow> kv_op \<Rightarrow> bool" where
  "puts_key k (Put k' v x) = (k' = k)"
| "puts_key k _ = False"

locale ttl_store =
  fixes inv :: "'s \<Rightarrow> bool" and lookup :: "'s \<Rightarrow> string \<Rightarrow> (string \<times> int) option"
    and put :: "'s \<Rightarrow> string \<Rightarrow> string \<Rightarrow> int \<Rightarrow> 's"
    and get :: "'s \<Rightarrow> string \<Rightarrow> int \<Rightarrow> string option \<times> 's"
    and del :: "'s \<Rightarrow> string \<Rightarrow> 's"
    and entry_ok :: "string \<Rightarrow> string \<Rightarrow> bool"
  assumes put_inv: "inv s \<Longrightarrow> inv (put s k v x)"
    and get_inv: "inv s \<Longrightarrow> inv (snd (get s k now))"
    and del_inv: "inv s \<Longrightarrow> inv (del s k)"
    and lookup_put: "inv s \<Longrightarrow> entry_ok k v \<Longrightarrow> lookup (put s k v x) k = Some (v, if x \<noteq> 0 then x else 1)"
    and lookup_put_other: "inv s \<Longrightarrow> k' \<noteq> k \<Longrightarrow> lookup (put s k v x) k' = lookup s k' \<or> lookup (put s k v x) k' = None"
    and lookup_del: "inv s \<Longrightarrow> lookup (del s k) k' = (if k' = k then None else lookup s k')"
    and get_value: "inv s \<Longrightarrow> fst (get s k now) =
          (case lookup s k of None \<Rightarrow> None | Some (v, x) \<Rightarrow> if now > 0 \<and> x \<le> now then None else Some v)"
    and lookup_get: "inv s \<Longrightarrow> lookup (snd (get s k now)) k' = (if k' = k \<and> fst (get s k now) = None then None else lookup s k')"
begin

lemma get_put: "inv s \<Longrightarrow> entry_ok k v \<Longrightarrow> now \<le> 0 \<or> now < x \<Longrightarrow> x \<noteq> 0 \<Longrightarrow> fst (get (put s k v x) k now) = Some v"
  by (auto simp: get_value put_inv lookup_put)

lemma get_expired: "inv s \<Longrightarrow> entry_ok k v \<Longrightarrow> 0 < now \<Longrightarrow> x \<le> now \<Longrightarrow> fst (get (put s k v x) k now) = None"
  by (auto simp: get_value put_inv lookup_put)

lemma step_inv: "inv s \<Longrightarrow> inv (kv_step put get del s a)"
  by (cases a) (simp_all add: put_inv get_inv del_inv)

lemma step_gone: "inv s \<Longrightarrow> lookup s k = None \<Longrightarrow> \<not> puts_key k a \<Longrightarrow> lookup (kv_step put get del s a) k = None"
proof (cases a)
  case (Put k' v x)
  moreover assume "inv s" "lookup s k = None" "\<not> puts_key k a"
  ultimately show ?thesis using lookup_put_other [of s k k' v x] by auto
qed (simp_all add: lookup_get lookup_del)

lemma run_gone:
  "inv s \<Longrightarrow> lookup s k = None \<Longrightarrow> \<forall>a \<in> set as. \<not> puts_key k a \<Longrightarrow>
   inv (foldl (kv_step put get del) s as) \<and> lookup (foldl (kv_step put get del) s as) k = None"
  by (induction as arbitrary: s) (simp_all add: step_inv step_gone)

lemma one_time:
  assumes "inv s" "\<forall>a \<in> set as. \<not> puts_key k a"
  shows "fst (get (foldl (kv_step put get del) (del s k) as) k now) = None"
  using run_gone [OF del_inv [OF assms(1)], of k k as] assms by (auto simp: get_value lookup_del)

end

subsection \<open>The array satisfies it\<close>

definition kv_live :: "kv_entry \<Rightarrow> bool" where "kv_live e \<longleftrightarrow> kv_expiry e \<noteq> 0"

definition kv_inv :: "ntc_kvstore \<Rightarrow> bool" where
  "kv_inv kv \<longleftrightarrow> kv \<noteq> [] \<and> distinct (map kv_key (filter kv_live kv)) \<and> list_all (\<lambda>e. length (kv_val e) < NTC_KV_VALLEN) kv"

definition kv_lookup :: "ntc_kvstore \<Rightarrow> string \<Rightarrow> (string \<times> int) option" where
  "kv_lookup kv key = map_option (\<lambda>i. (kv_val (kv ! i), kv_expiry (kv ! i))) (kv_find kv key)"

lemma kv_find_Some: "kv_find kv key = Some i \<Longrightarrow> i < length kv \<and> kv_live (kv ! i) \<and> kv_key (kv ! i) = key"
  by (induction kv arbitrary: i) (auto simp: kv_live_def split: if_splits)

lemma kv_lookup_eq:
  "kv_lookup kv key = map_option (\<lambda>e. (kv_val e, kv_expiry e)) (find (\<lambda>e. kv_live e \<and> kv_key e = key) kv)"
  by (induction kv) (auto simp: kv_lookup_def kv_live_def option.map_comp comp_def)

lemma kv_lookup_None: "kv_lookup kv key = None \<longleftrightarrow> (\<forall>e \<in> set kv. \<not> (kv_live e \<and> kv_key e = key))"
  by (auto simp: kv_lookup_eq find_None_iff)

lemma kv_lookup_Some:
  assumes "kv_inv kv"
  shows "kv_lookup kv key = Some (v, x) \<longleftrightarrow> (\<exists>e \<in> set kv. kv_live e \<and> kv_key e = key \<and> kv_val e = v \<and> kv_expiry e = x)"
proof
  assume "kv_lookup kv key = Some (v, x)"
  then show "\<exists>e \<in> set kv. kv_live e \<and> kv_key e = key \<and> kv_val e = v \<and> kv_expiry e = x"
    by (auto simp: kv_lookup_eq find_Some_iff)
next
  assume "\<exists>e \<in> set kv. kv_live e \<and> kv_key e = key \<and> kv_val e = v \<and> kv_expiry e = x"
  then obtain e where e: "e \<in> set kv" "kv_live e" "kv_key e = key" "kv_val e = v" "kv_expiry e = x" by blast
  have "find (\<lambda>e. kv_live e \<and> kv_key e = key) kv \<noteq> None" using e by (auto simp: find_None_iff)
  then obtain e' where e': "find (\<lambda>e. kv_live e \<and> kv_key e = key) kv = Some e'" by blast
  then have "e' \<in> set kv" "kv_live e'" "kv_key e' = key" by (auto simp: find_Some_iff)
  then have "e' = e" using assms e by (auto simp: kv_inv_def distinct_map dest: inj_onD)
  with e' e show "kv_lookup kv key = Some (v, x)" by (simp add: kv_lookup_eq)
qed

text \<open>Replacing one entry: what the invariant and a lookup need of the others.\<close>

lemma distinct_live_update:
  assumes "distinct (map kv_key (filter kv_live kv))" "i < length kv"
    and "kv_live e' \<Longrightarrow> kv_key e' \<notin> kv_key ` set (filter kv_live (take i kv @ drop (Suc i) kv))"
  shows "distinct (map kv_key (filter kv_live (kv[i := e'])))"
proof -
  have kv: "kv = take i kv @ kv ! i # drop (Suc i) kv" using assms(2) by (rule id_take_nth_drop)
  have "distinct (map kv_key (filter kv_live (take i kv @ drop (Suc i) kv)))"
    using assms(1) by (subst (asm) kv) (auto split: if_splits)
  then show ?thesis using assms(3) by (auto simp: upd_conv_take_nth_drop [OF assms(2)])
qed


definition kv_others :: "ntc_kvstore \<Rightarrow> nat \<Rightarrow> kv_entry set" where
  "kv_others kv i = set (take i kv @ drop (Suc i) kv)"

lemma set_kv_update: "i < length kv \<Longrightarrow> set (kv[i := e']) = insert e' (kv_others kv i)"
  by (auto simp: upd_conv_take_nth_drop kv_others_def)

lemma set_kv_others: "i < length kv \<Longrightarrow> set kv = insert (kv ! i) (kv_others kv i)"
  by (metis set_kv_update list_update_id)

lemma kv_inv_update:
  assumes "kv_inv kv" "i < length kv" "length (kv_val e') < NTC_KV_VALLEN"
    and "kv_live e' \<Longrightarrow> \<forall>e \<in> kv_others kv i. \<not> (kv_live e \<and> kv_key e = kv_key e')"
  shows "kv_inv (kv[i := e'])"
proof -
  have "distinct (map kv_key (filter kv_live (kv[i := e'])))"
    by (rule distinct_live_update) (use assms in \<open>auto simp: kv_inv_def kv_others_def\<close>)
  moreover have "list_all (\<lambda>e. length (kv_val e) < NTC_KV_VALLEN) (kv[i := e'])"
    using assms(1,3) by (auto simp: kv_inv_def list_all_iff dest: set_update_subset_insert [THEN subsetD])
  ultimately show ?thesis using assms(1) by (simp add: kv_inv_def)
qed

lemma kv_find_None: "kv_find kv key = None \<longleftrightarrow> kv_lookup kv key = None"
  by (simp add: kv_lookup_def)

lemma kv_others_unique:
  assumes "kv_inv kv" "i < length kv" "kv_live (kv ! i)" "e \<in> kv_others kv i" "kv_live e"
  shows "kv_key e \<noteq> kv_key (kv ! i)"
proof -
  have "kv = take i kv @ kv ! i # drop (Suc i) kv" using assms(2) by (rule id_take_nth_drop)
  then have "distinct (map kv_key (filter kv_live (take i kv @ kv ! i # drop (Suc i) kv)))"
    using assms(1) by (simp add: kv_inv_def)
  then have "kv_key (kv ! i) \<notin> kv_key ` {x \<in> set (take i kv @ drop (Suc i) kv). kv_live x}"
    using assms(3) by auto
  with assms(4,5) show ?thesis unfolding kv_others_def by (metis (mono_tags, lifting) image_eqI mem_Collect_eq)
qed

lemma kv_slot_spec:
  "kv_slot i vic es = Some r \<Longrightarrow>
     (i \<le> r \<and> r < i + length es \<and>
        (\<not> kv_live (es ! (r - i)) \<or>
         (\<forall>e \<in> set es. kv_live e \<and> kv_expiry (es ! (r - i)) \<le> kv_expiry e) \<and>
         (\<forall>j x. vic = Some (j, x) \<longrightarrow> kv_expiry (es ! (r - i)) \<le> x))) \<or>
     (\<exists>x. vic = Some (r, x) \<and> (\<forall>e \<in> set es. kv_live e \<and> x \<le> kv_expiry e))"
proof (induction es arbitrary: i vic)
  case (Cons e es)
  show ?case
  proof (cases "kv_live e")
    case False
    with Cons.prems show ?thesis by (auto simp: kv_live_def)
  next
    case True
    define vic' where "vic' = (case vic of None \<Rightarrow> Some (i, kv_expiry e)
        | Some (j, x) \<Rightarrow> if kv_expiry e < x then Some (i, kv_expiry e) else Some (j, x))"
    have "kv_slot (i + 1) vic' es = Some r" using Cons.prems True by (simp add: kv_live_def vic'_def)
    from Cons.IH [OF this] show ?thesis
    proof
      assume *: "i + 1 \<le> r \<and> r < i + 1 + length es \<and>
        (\<not> kv_live (es ! (r - (i + 1))) \<or>
         (\<forall>e \<in> set es. kv_live e \<and> kv_expiry (es ! (r - (i + 1))) \<le> kv_expiry e) \<and>
         (\<forall>j x. vic' = Some (j, x) \<longrightarrow> kv_expiry (es ! (r - (i + 1))) \<le> x))"
      then have "(e # es) ! (r - i) = es ! (r - (i + 1))" by (simp add: nth_Cons' )
      with * True show ?thesis by (auto simp: vic'_def split: option.splits if_splits)
    next
      assume "\<exists>x. vic' = Some (r, x) \<and> (\<forall>e \<in> set es. kv_live e \<and> x \<le> kv_expiry e)"
      with True show ?thesis by (auto simp: vic'_def split: option.splits if_splits)
    qed
  qed
qed auto

lemma kv_slot_some: "es \<noteq> [] \<or> vic \<noteq> None \<Longrightarrow> \<exists>r. kv_slot i vic es = Some r"
  by (induction es arbitrary: i vic) (auto split: option.splits)

lemma kv_slot_ok:
  assumes "kv \<noteq> []"
  obtains r where "kv_slot 0 None kv = Some r" "r < length kv"
    "\<not> kv_live (kv ! r) \<or> (\<forall>e \<in> set kv. kv_live e \<and> kv_expiry (kv ! r) \<le> kv_expiry e)"
  using kv_slot_some [of kv None 0] kv_slot_spec [of 0 None kv] assms by fastforce

text \<open>The slot a \<open>put\<close> writes: no other live entry has its key.\<close>

lemma kv_put_cases:
  assumes "kv_inv kv" "length key < NTC_KV_KEYLEN" "length val < NTC_KV_VALLEN"
  obtains i where "i < length kv"
    "ntc_kv_put kv key val expiry = kv[i := \<lparr>kv_key = key, kv_val = val, kv_expiry = (if expiry \<noteq> 0 then expiry else 1)\<rparr>]"
    "\<forall>e \<in> kv_others kv i. \<not> (kv_live e \<and> kv_key e = key)"
    "kv_live (kv ! i) \<longrightarrow> kv_key (kv ! i) = key \<or> (\<forall>e \<in> set kv. kv_live e \<and> kv_expiry (kv ! i) \<le> kv_expiry e)"
proof (cases "kv_find kv key")
  case (Some i)
  then have i: "i < length kv" "kv_live (kv ! i)" "kv_key (kv ! i) = key" using kv_find_Some by auto
  with that [of i] Some assms kv_others_unique [OF assms(1) i(1,2)] show ?thesis by (auto simp: ntc_kv_put_def)
next
  case None
  obtain r where r: "kv_slot 0 None kv = Some r" "r < length kv"
    "\<not> kv_live (kv ! r) \<or> (\<forall>e \<in> set kv. kv_live e \<and> kv_expiry (kv ! r) \<le> kv_expiry e)"
    using kv_slot_ok assms(1) by (metis kv_inv_def)
  have "\<forall>e \<in> set kv. \<not> (kv_live e \<and> kv_key e = key)" using None by (simp add: kv_find_None kv_lookup_None)
  with that [of r] r None assms set_kv_others [OF r(2)] show ?thesis by (auto simp: ntc_kv_put_def)
qed


lemma kv_lookup_update:
  assumes "kv_inv kv" "kv_inv (kv[i := e'])" "i < length kv"
    and "\<forall>e \<in> insert (kv ! i) (set (if kv_live e' then [e'] else [])). kv_live e \<longrightarrow> kv_key e \<noteq> k"
  shows "kv_lookup (kv[i := e']) k = kv_lookup kv k"
proof -
  have "kv_lookup (kv[i := e']) k = Some p \<longleftrightarrow> kv_lookup kv k = Some p" for p
    using assms by (cases p) (auto simp: kv_lookup_Some set_kv_update set_kv_others [OF assms(3)] split: if_splits)
  then show ?thesis by (metis not_None_eq)
qed

abbreviation kv_get :: "ntc_kvstore \<Rightarrow> string \<Rightarrow> int \<Rightarrow> string option \<times> ntc_kvstore" where
  "kv_get kv k now \<equiv> ntc_kv_get kv k now NTC_KV_VALLEN"

definition kv_entry_ok :: "string \<Rightarrow> string \<Rightarrow> bool" where
  "kv_entry_ok k v \<longleftrightarrow> length k < NTC_KV_KEYLEN \<and> length v < NTC_KV_VALLEN"

lemma kv_put_bad: "\<not> kv_entry_ok k v \<Longrightarrow> ntc_kv_put kv k v x = kv"
  by (auto simp: kv_entry_ok_def ntc_kv_put_def)

lemma kv_put_ok:
  assumes inv: "kv_inv kv" and ok: "kv_entry_ok k v"
  shows "kv_inv (ntc_kv_put kv k v x)"
    and "kv_lookup (ntc_kv_put kv k v x) k = Some (v, if x \<noteq> 0 then x else 1)"
    and "k' \<noteq> k \<Longrightarrow> kv_lookup (ntc_kv_put kv k v x) k' = kv_lookup kv k' \<or>
          kv_lookup (ntc_kv_put kv k v x) k' = None \<and>
          (\<forall>e \<in> set kv. kv_live e) \<and> (\<exists>w y. kv_lookup kv k' = Some (w, y) \<and> (\<forall>e \<in> set kv. y \<le> kv_expiry e))"
proof -
  have l: "length k < NTC_KV_KEYLEN" "length v < NTC_KV_VALLEN" using ok by (simp_all add: kv_entry_ok_def)
  let ?e = "\<lparr>kv_key = k, kv_val = v, kv_expiry = (if x \<noteq> 0 then x else 1)\<rparr>"
  from kv_put_cases [OF inv l, of x] obtain i where i: "i < length kv"
    "ntc_kv_put kv k v x = kv[i := ?e]" "\<forall>e \<in> kv_others kv i. \<not> (kv_live e \<and> kv_key e = k)"
    "kv_live (kv ! i) \<longrightarrow> kv_key (kv ! i) = k \<or> (\<forall>e \<in> set kv. kv_live e \<and> kv_expiry (kv ! i) \<le> kv_expiry e)" by metis
  show inv': "kv_inv (ntc_kv_put kv k v x)" using kv_inv_update [OF inv i(1)] l i(2,3) by simp
  note upd = kv_lookup_Some [OF inv] kv_lookup_Some [OF inv' [unfolded i(2)]] i(2) set_kv_update [OF i(1)] set_kv_others [OF i(1)]
  show "kv_lookup (ntc_kv_put kv k v x) k = Some (v, if x \<noteq> 0 then x else 1)"
    by (subst kv_lookup_Some [OF inv']) (auto simp: i(2) set_kv_update [OF i(1)] kv_live_def)
  assume ne: "k' \<noteq> k"
  have sub: "kv_lookup kv k' = Some p" if "kv_lookup (ntc_kv_put kv k v x) k' = Some p" for p
    using that ne by (cases p) (auto simp: upd)
  show "kv_lookup (ntc_kv_put kv k v x) k' = kv_lookup kv k' \<or>
          kv_lookup (ntc_kv_put kv k v x) k' = None \<and>
          (\<forall>e \<in> set kv. kv_live e) \<and> (\<exists>w y. kv_lookup kv k' = Some (w, y) \<and> (\<forall>e \<in> set kv. y \<le> kv_expiry e))"
  proof (cases "kv_lookup (ntc_kv_put kv k v x) k'")
    case None
    show ?thesis
    proof (cases "kv_lookup kv k'")
      case (Some p)
      obtain w y where p: "p = (w, y)" by force
      with Some obtain e where e: "e \<in> set kv" "kv_live e" "kv_key e = k'" "kv_val e = w" "kv_expiry e = y"
        by (auto simp: kv_lookup_Some [OF inv])
      have "e \<notin> kv_others kv i"
        using None e by (auto simp: kv_lookup_None i(2) set_kv_update [OF i(1)])
      then have "e = kv ! i" using e(1) by (simp add: set_kv_others [OF i(1)])
      with i(4) e ne have "\<forall>e \<in> set kv. kv_live e \<and> y \<le> kv_expiry e" by auto
      with None Some p show ?thesis by simp
    qed (simp add: None)
  qed (use sub in auto)
qed

text \<open>Clearing an entry removes exactly its key.\<close>

lemma kv_clear:
  assumes inv: "kv_inv kv" and f: "kv_find kv k = Some i" and e: "kv_expiry e' = 0" "length (kv_val e') < NTC_KV_VALLEN"
  shows "kv_inv (kv[i := e'])" and "kv_lookup (kv[i := e']) k' = (if k' = k then None else kv_lookup kv k')"
proof -
  have i: "i < length kv" "kv_live (kv ! i)" "kv_key (kv ! i) = k" using kv_find_Some [OF f] by auto
  have d: "\<not> kv_live e'" using e by (simp add: kv_live_def)
  show inv': "kv_inv (kv[i := e'])" using kv_inv_update [OF inv i(1) e(2)] d by simp
  show "kv_lookup (kv[i := e']) k' = (if k' = k then None else kv_lookup kv k')"
  proof (cases "k' = k")
    case True
    then show ?thesis
      using d kv_others_unique [OF inv i(1,2)] i(3) by (auto simp: kv_lookup_None set_kv_update [OF i(1)])
  next
    case False
    then show ?thesis using kv_lookup_update [OF inv inv' i(1), of k'] d i(3) by simp
  qed
qed

lemma kv_val_short: "kv_inv kv \<Longrightarrow> kv_find kv k = Some i \<Longrightarrow> length (kv_val (kv ! i)) < NTC_KV_VALLEN"
  using kv_find_Some [of kv k i] by (simp add: kv_inv_def list_all_length)

lemma kv_del_ok:
  assumes "kv_inv kv"
  shows "kv_inv (ntc_kv_del kv k)" and "kv_lookup (ntc_kv_del kv k) k' = (if k' = k then None else kv_lookup kv k')"
  using kv_clear [OF assms, of k _ "\<lparr>kv_key = [], kv_val = [], kv_expiry = 0\<rparr>"] assms
  by (auto simp: ntc_kv_del_def NTC_KV_VALLEN_def kv_find_None split: option.split)

lemma kv_get_ok:
  assumes "kv_inv kv"
  shows "kv_inv (snd (kv_get kv k now))"
    and "fst (kv_get kv k now) =
      (case kv_lookup kv k of None \<Rightarrow> None | Some (v, x) \<Rightarrow> if now > 0 \<and> x \<le> now then None else Some v)"
    and "kv_lookup (snd (kv_get kv k now)) k' = (if k' = k \<and> fst (kv_get kv k now) = None then None else kv_lookup kv k')"
proof -
  show inv': "kv_inv (snd (kv_get kv k now))"
    using assms kv_clear(1) [OF assms, of k _ "(kv ! i)\<lparr>kv_expiry := 0\<rparr>" for i] kv_val_short [OF assms, of k]
    by (auto simp: ntc_kv_get_def split: option.split)
  show v: "fst (kv_get kv k now) =
      (case kv_lookup kv k of None \<Rightarrow> None | Some (v, x) \<Rightarrow> if now > 0 \<and> x \<le> now then None else Some v)"
    using kv_val_short [OF assms, of k] by (auto simp: ntc_kv_get_def kv_lookup_def split: option.split)
  show "kv_lookup (snd (kv_get kv k now)) k' = (if k' = k \<and> fst (kv_get kv k now) = None then None else kv_lookup kv k')"
    using kv_clear(2) [OF assms, of k _ "(kv ! i)\<lparr>kv_expiry := 0\<rparr>" k' for i] kv_val_short [OF assms, of k] kv_find_None [of kv k]
    by (auto simp: ntc_kv_get_def split: option.split)
qed

interpretation kv: ttl_store kv_inv kv_lookup ntc_kv_put kv_get ntc_kv_del kv_entry_ok
proof unfold_locales
  show "kv_inv (ntc_kv_put s k v x)" if "kv_inv s" for s k v x
    using that kv_put_ok(1) kv_put_bad by (cases "kv_entry_ok k v") auto
  show "kv_lookup (ntc_kv_put s k v x) k' = kv_lookup s k' \<or> kv_lookup (ntc_kv_put s k v x) k' = None"
    if "kv_inv s" "k' \<noteq> k" for s k k' v x
    using that kv_put_ok(3) [of s k v k' x] kv_put_bad by (cases "kv_entry_ok k v") auto
qed (simp_all add: kv_put_ok kv_get_ok kv_del_ok)


subsection \<open>Properties\<close>

text \<open>
  After a put, the value is read back until it expires and not after;
  another key keeps its value unless the store was full of live entries and that key's
  expired soonest. The keys stay distinct.
\<close>

lemma kv_put_get:
  assumes "kv_inv kv" and "kv_entry_ok k v" and "x \<noteq> 0" and "k' \<noteq> k"
  shows "kv_inv (ntc_kv_put kv k v x) \<and>
    fst (kv_get (ntc_kv_put kv k v x) k now) = (if 0 < now \<and> x \<le> now then None else Some v) \<and>
    (kv_lookup (ntc_kv_put kv k v x) k' = kv_lookup kv k' \<or>
     kv_lookup (ntc_kv_put kv k v x) k' = None \<and> (\<forall>e \<in> set kv. kv_live e) \<and>
     (\<exists>w y. kv_lookup kv k' = Some (w, y) \<and> (\<forall>e \<in> set kv. y \<le> kv_expiry e)))"
  using kv_put_ok(1) [OF assms(1,2)] kv_put_ok(3) [OF assms(1,2,4)] kv.get_put [OF assms(1,2), of now x]
    kv.get_expired [OF assms(1,2), of now x] assms(3) by auto

text \<open>
  Once an entry is deleted, no later sequence of operations
  makes it readable again unless it is put again: a login state cannot be replayed.
\<close>

lemma kv_state_single_use:
  assumes "kv_inv kv" and "\<forall>a \<in> set ops. \<not> puts_key k a"
  shows "fst (kv_get (foldl (kv_step ntc_kv_put kv_get ntc_kv_del) (ntc_kv_del kv k) ops) k now) = None"
  by (rule kv.one_time [OF assms])

text \<open>A Cookie header as a client sends it.\<close>

fun render_cookies :: "(string \<times> string) list \<Rightarrow> string" where
  "render_cookies [] = []"
| "render_cookies [(n, v)] = n @ ''='' @ v"
| "render_cookies ((n, v) # cs) = n @ ''='' @ v @ ''; '' @ render_cookies cs"

definition cookie_ok :: "string \<times> string \<Rightarrow> bool" where
  "cookie_ok c \<longleftrightarrow> fst c \<noteq> [] \<and> list_all (\<lambda>x. \<not> cookie_sep x \<and> x \<noteq> CHR ''='') (fst c) \<and> CHR '';'' \<notin> set (snd c)"

lemma cookie_name_match:
  assumes "CHR ''='' \<notin> set m" "CHR ''='' \<notin> set n"
  shows "take (length n + 1) (m @ CHR ''='' # r) = n @ ''='' \<longleftrightarrow> m = n"
proof
  assume *: "take (length n + 1) (m @ CHR ''='' # r) = n @ ''=''"
  have "takeWhile (\<lambda>c. c \<noteq> CHR ''='') (m @ CHR ''='' # r) = m" using assms(1) by (auto simp: takeWhile_append)
  moreover have "m @ CHR ''='' # r = n @ CHR ''='' # drop (length n + 1) (m @ CHR ''='' # r)"
    using * append_take_drop_id [of "length n + 1" "m @ CHR ''='' # r"] by simp
  moreover have "takeWhile (\<lambda>c. c \<noteq> CHR ''='') (n @ CHR ''='' # x) = n" for x
    using assms(2) by (auto simp: takeWhile_append)
  ultimately show "m = n" by metis
qed simp

lemma span_semi:
  "CHR '';'' \<notin> set a \<Longrightarrow> t = [] \<or> (\<exists>u. t = CHR '';'' # u) \<Longrightarrow>
   takeWhile (\<lambda>c. c \<noteq> CHR '';'') (a @ t) = a \<and> dropWhile (\<lambda>c. c \<noteq> CHR '';'') (a @ t) = t"
  by (induction a) auto

lemma cookie_scan_one:
  assumes "cookie_ok (m, v)" "list_all (\<lambda>x. \<not> cookie_sep x \<and> x \<noteq> CHR ''='') n" "t = [] \<or> (\<exists>u. t = CHR '';'' # u)"
  shows "cookie_scan (m @ CHR ''='' # v @ t) n = (if m = n then Some v else cookie_scan t n)"
proof -
  let ?p = "m @ CHR ''='' # v @ t"
  have m: "m \<noteq> []" "CHR ''='' \<notin> set m" "CHR ''='' \<notin> set n" "CHR '';'' \<notin> set m" "CHR '';'' \<notin> set v"
    using assms(1,2) by (auto simp: cookie_ok_def list_all_iff cookie_sep_def)
  have "\<not> cookie_sep (hd m)" using assms(1) m(1) by (cases m) (auto simp: cookie_ok_def)
  then have q: "dropWhile cookie_sep ?p = ?p" using m(1) by (cases m) auto
  have tw: "takeWhile (\<lambda>c. c \<noteq> CHR '';'') (v @ t) = v" using span_semi [OF m(5) assms(3)] by blast
  have dw: "dropWhile (\<lambda>c. c \<noteq> CHR '';'') ?p = t"
    using span_semi [of "m @ CHR ''='' # v", OF _ assms(3)] m(4,5) by simp
  have mt: "take (Suc (length n)) (m @ CHR ''='' # v @ t) = n @ ''='' \<longleftrightarrow> m = n"
    using cookie_name_match [OF m(2,3), of "v @ t"] by simp
  show ?thesis
  proof (cases "m = n")
    case True
    then show ?thesis using q mt tw by (subst cookie_scan.simps) (simp add: Let_def)
  next
    case False
    then have ne: "take (length n + 1) ?p \<noteq> n @ ''=''" using mt by simp
    show ?thesis using q ne dw False m(1) by (subst cookie_scan.simps) (simp add: Let_def)
  qed
qed

lemma cookie_scan_unfold:
  "cookie_scan p n =
     (let q = dropWhile cookie_sep p
      in if take (length n + 1) q = n @ ''='' then Some (takeWhile (\<lambda>c. c \<noteq> CHR '';'') (drop (length n + 1) q))
         else if q = [] then None else cookie_scan (dropWhile (\<lambda>c. c \<noteq> CHR '';'') q) n)"
  by (cases "p = []") (simp_all add: cookie_scan.simps [of p] cookie_scan.simps [of "[]"])

lemma cookie_scan_sep: "cookie_scan (CHR '';'' # CHR '' '' # s) n = cookie_scan s n"
proof -
  have "dropWhile cookie_sep (CHR '';'' # CHR '' '' # s) = dropWhile cookie_sep s" by (simp add: cookie_sep_def)
  then show ?thesis
    by (simp only: cookie_scan_unfold [of "CHR '';'' # CHR '' '' # s"] cookie_scan_unfold [of s])
qed

lemma cookie_scan_render:
  "list_all cookie_ok cs \<Longrightarrow> list_all (\<lambda>x. \<not> cookie_sep x \<and> x \<noteq> CHR ''='') n \<Longrightarrow>
   cookie_scan (render_cookies cs) n = map_of cs n"
proof (induction cs rule: render_cookies.induct)
  case 1
  then show ?case by (simp add: cookie_scan.simps)
next
  case (2 m v)
  then show ?case using cookie_scan_one [of m v n "[]"] by (simp add: cookie_scan.simps [of "[]"])
next
  case (3 m v c cs)
  then show ?case using cookie_scan_one [of m v n "CHR '';'' # CHR '' '' # render_cookies (c # cs)"]
    by (simp add: cookie_scan_sep)
qed

text \<open>
  Reading a cookie from a header made of several gives the value
  of the first one with exactly that name, cut to the buffer, and nothing when there is none.
\<close>

lemma cookie_get_render:
  assumes "list_all cookie_ok cs" and "cookie_ok (n, [])"
  shows "ntc_cookie_get (render_cookies cs) n cap = map_option (take (cap - 1)) (map_of cs n)"
  using cookie_scan_render [of cs n] assms by (simp add: ntc_cookie_get_def cookie_ok_def)

text \<open>
  The challenge is always produced and is the base64url of the
  SHA-256 of the verifier; a verifier, when the randomness is there, decodes to it.
\<close>

lemma pkce_challenge_spec:
  assumes "44 \<le> cap" and "length rand = 32"
  shows "(\<exists>c. ntc_pkce_challenge verifier cap = Some c \<and>
            ntc_base64url_decode c 32 = Some (ntc_sha256 (bytes_of verifier))) \<and>
         (\<exists>v. ntc_pkce_verifier (Some rand) cap = Some v \<and> ntc_base64url_decode v 32 = Some rand)"
proof -
  have enc: "\<exists>s. ntc_base64url_encode b cap = Some s \<and> s \<noteq> [] \<and> ntc_base64url_decode s 32 = Some b" if "length b = 32" for b
  proof -
    from base64url_encode_Some [of b cap] that assms(1) obtain s where s: "ntc_base64url_encode b cap = Some s" by auto
    then have d: "ntc_base64url_decode s 32 = Some b" using base64url_decode_encode [OF s] that by simp
    have "s \<noteq> []" using d that by (auto simp: ntc_base64url_decode_def)
    with s d show ?thesis by blast
  qed
  from enc [of "ntc_sha256 (bytes_of verifier)"] enc [OF assms(2)] assms(1) show ?thesis
    by (auto simp: ntc_pkce_challenge_def ntc_pkce_verifier_def)
qed

end
