(* ===== verification/Ws.thy ===== *)
theory Ws
  imports Wire
begin

text \<open>
  WebSocket handshake key and frame codec (\<open>src/core/ws.c\<close>). SHA-1 is BearSSL's and a
  parameter. The decoder returns the unmasked payload; the C code unmasks it in place,
  which touches only bytes of the frame it reports as consumed. The decoder is an instance
  of \<open>frame_stream\<close>, so the reassembly lemmas of the wire frames hold for it as well.
\<close>

definition NTC_WS_CONT :: byte where "NTC_WS_CONT = 0x0"
definition NTC_WS_TEXT :: byte where "NTC_WS_TEXT = 0x1"
definition NTC_WS_BIN :: byte where "NTC_WS_BIN = 0x2"
definition NTC_WS_CLOSE :: byte where "NTC_WS_CLOSE = 0x8"
definition NTC_WS_PING :: byte where "NTC_WS_PING = 0x9"
definition NTC_WS_PONG :: byte where "NTC_WS_PONG = 0xA"

lemmas ws_opcode_defs = NTC_WS_CONT_def NTC_WS_TEXT_def NTC_WS_BIN_def NTC_WS_CLOSE_def NTC_WS_PING_def NTC_WS_PONG_def

definition NTC_WS_MAX_PAYLOAD :: nat where "NTC_WS_MAX_PAYLOAD = 1024 * 1024"

subsection \<open>The accept key\<close>

definition B64_STD :: string where
  "B64_STD = ''ABCDEFGHIJKLMNOPQRSTUVWXYZabcdefghijklmnopqrstuvwxyz0123456789+/''"

definition b64_std_group :: "byte list \<Rightarrow> string" where
  "b64_std_group g =
     (let v = push_bit 16 (ucast (g ! 0) :: u32);
          v = (if length g > 1 then v OR push_bit 8 (ucast (g ! 1)) else v);
          v = (if length g > 2 then v OR ucast (g ! 2) else v);
          t = (\<lambda>k. B64_STD ! unat (drop_bit k v AND 0x3f))
      in [t 18, t 12, if length g > 1 then t 6 else CHR ''='', if length g > 2 then t 0 else CHR ''=''])"

text \<open>Every group of three bytes; characters that do not fit before the NUL are dropped.\<close>

function b64_std_text :: "byte list \<Rightarrow> string" where
  "b64_std_text bs = (if bs = [] then [] else b64_std_group (take 3 bs) @ b64_std_text (drop 3 bs))"
  by pat_completeness auto
termination by (relation "measure length") auto

declare b64_std_text.simps [simp del, loop_simps]

definition b64_std :: "byte list \<Rightarrow> nat \<Rightarrow> string" where
  "b64_std bs cap = take (cap - 1) (b64_std_text bs)"

definition WS_GUID :: string where
  "WS_GUID = ''258EAFA5-E914-47DA-95CA-C5AB0DC85B11''"

definition ntc_ws_accept_key :: "(byte list \<Rightarrow> byte list) \<Rightarrow> string \<Rightarrow> nat \<Rightarrow> string" where
  "ntc_ws_accept_key sha1 client_key cap = b64_std (sha1 (bytes_of client_key @ bytes_of WS_GUID)) cap"

subsection \<open>Frames\<close>

record ws_frame =
  ws_fin :: bool
  ws_opcode :: byte
  ws_payload :: "byte list"

text \<open>The big-endian length fields, accumulated in a 64-bit word.\<close>

definition be_len :: "byte list \<Rightarrow> nat" where
  "be_len bs = unat (foldl (\<lambda>p b. push_bit 8 p OR ucast b) (0 :: u64) bs)"

definition ws_unmask :: "byte list \<Rightarrow> byte list \<Rightarrow> byte list" where
  "ws_unmask mk bs = map (\<lambda>i. bs ! i XOR mk ! (i mod 4)) [0..<length bs]"

text \<open>The payload length and the offset after it; \<open>None\<close> while its bytes are missing.\<close>

definition ws_length :: "byte list \<Rightarrow> (nat \<times> nat) option" where
  "ws_length buf =
     (let plen = unat (buf ! 1 AND 0x7f)
      in if plen = 126 then (if length buf < 4 then None else Some (be_len (take 2 (drop 2 buf)), 4))
         else if plen = 127 then (if length buf < 10 then None else Some (be_len (take 8 (drop 2 buf)), 10))
         else Some (plen, 2))"

definition ntc_ws_decode :: "byte list \<Rightarrow> ws_frame frame_result" where
  "ntc_ws_decode buf =
     (if length buf < 2 then Need_more
      else
        let fin = (buf ! 0 AND 0x80 \<noteq> 0); opcode = buf ! 0 AND 0x0f; masked = (buf ! 1 AND 0x80 \<noteq> 0)
        in case ws_length buf of
             None \<Rightarrow> Need_more
           | Some (plen, off) \<Rightarrow>
               if plen > NTC_WS_MAX_PAYLOAD then Malformed
               else if masked \<and> length buf < off + 4 then Need_more
               else
                 let mk = take 4 (drop off buf); off = (if masked then off + 4 else off)
                 in if length buf < off + plen then Need_more
                    else
                      let pay = take plen (drop off buf)
                      in Frame \<lparr>ws_fin = fin, ws_opcode = opcode,
                                ws_payload = (if masked then ws_unmask mk pay else pay)\<rparr>
                               (off + plen))"

definition ws_header :: "byte \<Rightarrow> byte \<Rightarrow> nat \<Rightarrow> byte list" where
  \<comment> \<open>FIN and the opcode, then the length with the given mask bit\<close>
  "ws_header opcode mbit len =
     (if len > 0xffff
      then [0x80 OR (opcode AND 0x0f), mbit OR 127] @
           map (\<lambda>i. ucast (drop_bit (56 - 8 * i) (of_nat len :: u64))) [0..<8]
      else if len > 125
      then [0x80 OR (opcode AND 0x0f), mbit OR 126, ucast (drop_bit 8 (of_nat len :: u64)), of_nat len]
      else [0x80 OR (opcode AND 0x0f), mbit OR of_nat len])"

definition ntc_ws_encode :: "byte \<Rightarrow> byte list \<Rightarrow> nat \<Rightarrow> byte list option" where
  "ntc_ws_encode opcode data cap =
     (let hdr = (if length data > 0xffff then 10 else if length data > 125 then 4 else 2)
      in if cap < hdr + length data then None
         else Some (ws_header opcode 0 (length data) @ data))"

text \<open>A client's frame: the same header with the mask bit, the mask, the masked bytes.\<close>

definition ws_client_frame :: "byte list \<Rightarrow> ws_frame \<Rightarrow> byte list" where
  "ws_client_frame mk f = ws_header (ws_opcode f) 0x80 (length (ws_payload f)) @ mk @ ws_unmask mk (ws_payload f)"

definition ws_frame_ok :: "ws_frame \<Rightarrow> bool" where
  "ws_frame_ok f \<longleftrightarrow> ws_fin f \<and> ws_opcode f < 16 \<and> length (ws_payload f) \<le> NTC_WS_MAX_PAYLOAD"

lemma length_ws_unmask [simp]: "length (ws_unmask mk bs) = length bs"
  by (simp add: ws_unmask_def)

lemma ws_unmask_unmask: "ws_unmask mk (ws_unmask mk bs) = bs"
  by (rule nth_equalityI) (simp_all add: ws_unmask_def xor.assoc)

lemma length_ws_header:
  "length (ws_header op m n) = (if n > 0xffff then 10 else if n > 125 then 4 else 2)"
  by (simp add: ws_header_def)

lemma byte_masks: "(0x0f :: byte) = mask 4" "(0x7f :: byte) = mask 7"
  by (simp_all add: mask_eq_exp_minus_1)

lemma bit_0x80: "bit (0x80 :: byte) i \<longleftrightarrow> i = 7" "bit (0x80 :: int) i \<longleftrightarrow> i = 7" "bit (0x80 :: nat) i \<longleftrightarrow> i = 7"
  using bit_exp_iff [of 7 i, where ?'a = byte] bit_exp_iff [of 7 i, where ?'a = int] bit_exp_iff [of 7 i, where ?'a = nat]
  by auto

lemma take_bit_of_nat_small: "n < 2 ^ k \<Longrightarrow> take_bit k (of_nat n :: 'a :: len word) = of_nat n"
  by (simp add: take_bit_of_nat take_bit_nat_eq_self)

lemma ws_byte0:
  assumes "op < (16 :: byte)"
  shows "(0x80 OR (op AND 0x0f)) AND 0x80 \<noteq> 0" "(0x80 OR (op AND 0x0f)) AND 0x0f = op"
proof -
  have "bit ((0x80 OR (op AND 0x0f)) AND 0x80) 7" by (simp add: bit_simps bit_0x80)
  then show "(0x80 OR (op AND 0x0f)) AND 0x80 \<noteq> 0" by force
  have "unat op < 2 ^ 4" using assms by (simp add: word_less_nat_alt)
  from take_bit_of_nat_small [OF this, where ?'a = 8] have "op = take_bit 4 op" by simp
  moreover have "(0x80 OR (op AND 0x0f)) AND 0x0f = take_bit 4 op"
    unfolding byte_masks by (rule bit_word_eqI) (auto simp: bit_simps bit_0x80)
  ultimately show "(0x80 OR (op AND 0x0f)) AND 0x0f = op" by simp
qed

lemma ws_byte1:
  assumes "n < 128" "m = (0 :: byte) \<or> m = 0x80"
  shows "unat ((m OR of_nat n) AND 0x7f) = n" "(m OR of_nat n) AND 0x80 \<noteq> 0 \<longleftrightarrow> m = 0x80"
proof -
  have t: "take_bit 7 (of_nat n :: byte) = of_nat n" using assms(1) by (simp add: take_bit_of_nat_small)
  have "(m OR of_nat n) AND 0x7f = take_bit 7 (of_nat n)"
    using assms(2) unfolding byte_masks by (intro bit_word_eqI) (auto simp: bit_simps bit_0x80)
  then show "unat ((m OR of_nat n) AND 0x7f) = n" using t assms(1) by (simp add: unat_of_nat take_bit_nat_eq_self)
  have "\<not> bit (of_nat n :: byte) 7" using t by (metis bit_take_bit_iff less_irrefl)
  then have "(m OR of_nat n) AND 0x80 = (if m = 0x80 then 0x80 else 0)"
    using assms(2) by (intro bit_word_eqI) (auto simp: bit_simps bit_0x80)
  then show "(m OR of_nat n) AND 0x80 \<noteq> 0 \<longleftrightarrow> m = 0x80" by simp
qed

lemma be_step: "push_bit 8 (drop_bit (j + 8) L) OR ucast (ucast (drop_bit j L) :: byte) = drop_bit j (L :: u64)"
  by (rule bit_word_eqI) (auto simp: bit_simps)

lemma be_len8: "be_len (map (\<lambda>i. ucast (drop_bit (56 - 8 * i) L)) [0..<8]) = unat (L :: u64)"
proof -
  have u: "[0..<8] = [0, 1, 2, 3, 4, 5, 6, 7 :: nat]" by code_simp
  have z: "(0 :: u64) = drop_bit 64 L" by (rule bit_word_eqI) (simp add: bit_simps)
  show ?thesis
    unfolding be_len_def u z
    using be_step [of 56 L] be_step [of 48 L] be_step [of 40 L] be_step [of 32 L]
      be_step [of 24 L] be_step [of 16 L] be_step [of 8 L] be_step [of 0 L]
    by (simp del: drop_bit_0) simp
qed

lemma be_len2:
  assumes "n \<le> 0xffff"
  shows "be_len [ucast (drop_bit 8 (of_nat n :: u64)), of_nat n] = n"
proof -
  have t: "take_bit 16 (of_nat n :: u64) = of_nat n" using assms by (simp add: take_bit_of_nat_small)
  have b: "(of_nat n :: byte) = ucast (of_nat n :: u64)" by (rule bit_word_eqI) (simp add: bit_simps)
  have "push_bit 8 (push_bit 8 0 OR ucast (ucast (drop_bit 8 (of_nat n :: u64)) :: byte)) OR ucast (of_nat n :: byte) = take_bit 16 (of_nat n :: u64)"
    unfolding b by (rule bit_word_eqI) (auto simp: bit_simps)
  then show ?thesis using assms t by (simp add: be_len_def unat_of_nat take_bit_nat_eq_self)
qed

lemma ws_length_header:
  assumes "n < 2 ^ 64" "m = 0 \<or> m = 0x80"
  shows "ws_length (ws_header op m n @ r) = Some (n, length (ws_header op m n))"
    and "(ws_header op m n @ r) ! 1 AND 0x80 \<noteq> 0 \<longleftrightarrow> m = 0x80"
proof -
  consider "n \<le> 125" | "n > 125" "n \<le> 0xffff" | "n > 0xffff" by linarith
  then show "ws_length (ws_header op m n @ r) = Some (n, length (ws_header op m n))"
    "(ws_header op m n @ r) ! 1 AND 0x80 \<noteq> 0 \<longleftrightarrow> m = 0x80"
  proof (atomize(full), cases)
    case 1
    then show "ws_length (ws_header op m n @ r) = Some (n, length (ws_header op m n)) \<and>
      ((ws_header op m n @ r) ! 1 AND 0x80 \<noteq> 0 \<longleftrightarrow> m = 0x80)"
      using ws_byte1 [of n m] assms(2) by (simp add: ws_header_def ws_length_def)
  next
    case 2
    then show "ws_length (ws_header op m n @ r) = Some (n, length (ws_header op m n)) \<and>
      ((ws_header op m n @ r) ! 1 AND 0x80 \<noteq> 0 \<longleftrightarrow> m = 0x80)"
      using ws_byte1 [of 126 m] assms(2) be_len2 [of n] by (simp add: ws_header_def ws_length_def)
  next
    case 3
    have "unat (of_nat n :: u64) = n" using assms(1) by (rule unat_of_nat_small)
    with 3 show "ws_length (ws_header op m n @ r) = Some (n, length (ws_header op m n)) \<and>
      ((ws_header op m n @ r) ! 1 AND 0x80 \<noteq> 0 \<longleftrightarrow> m = 0x80)"
      using ws_byte1 [of 127 m] assms(2) be_len8 [of "of_nat n"] by (simp add: ws_header_def ws_length_def)
  qed
qed


lemma ws_header_byte0: "(ws_header op m n @ r) ! 0 = 0x80 OR (op AND 0x0f)" "2 \<le> length (ws_header op m n)"
  by (simp_all add: ws_header_def)

lemma ws_payload_limit: "ws_frame_ok f \<Longrightarrow> length (ws_payload f) < 2 ^ 64"
  by (auto simp: ws_frame_ok_def NTC_WS_MAX_PAYLOAD_def)

lemma ws_decode_server:
  assumes "ws_frame_ok f"
  shows "ntc_ws_decode (ws_header (ws_opcode f) 0 (length (ws_payload f)) @ ws_payload f) =
    Frame f (length (ws_header (ws_opcode f) 0 (length (ws_payload f))) + length (ws_payload f))"
proof -
  let ?h = "ws_header (ws_opcode f) 0 (length (ws_payload f))"
  note l = ws_length_header [OF ws_payload_limit [OF assms], where m = 0 and op = "ws_opcode f" and r = "ws_payload f"]
  have op: "ws_opcode f < 16" "length (ws_payload f) \<le> NTC_WS_MAX_PAYLOAD" "ws_fin f" using assms by (simp_all add: ws_frame_ok_def)
  have "\<not> length (?h @ ws_payload f) < 2" using ws_header_byte0(2) [of "ws_opcode f" 0 "length (ws_payload f)"] by simp
  then show ?thesis
    using l op(2,3) ws_byte0 [OF op(1)]
    by (cases f) (simp add: ntc_ws_decode_def ws_header_byte0(1) Let_def)
qed

lemma ws_decode_client:
  assumes "ws_frame_ok f" "length mk = 4"
  shows "ntc_ws_decode (ws_client_frame mk f) = Frame f (length (ws_client_frame mk f))"
proof -
  let ?h = "ws_header (ws_opcode f) 0x80 (length (ws_payload f))" and ?r = "mk @ ws_unmask mk (ws_payload f)"
  note l = ws_length_header [OF ws_payload_limit [OF assms(1)], where m = "0x80" and op = "ws_opcode f" and r = ?r]
  have op: "ws_opcode f < 16" "length (ws_payload f) \<le> NTC_WS_MAX_PAYLOAD" "ws_fin f" using assms(1) by (simp_all add: ws_frame_ok_def)
  have "\<not> length (?h @ ?r) < 2" using ws_header_byte0(2) [of "ws_opcode f" "0x80" "length (ws_payload f)"] by simp
  then show ?thesis
    using l op(2,3) ws_byte0 [OF op(1)] assms(2)
    by (cases f) (simp add: ntc_ws_decode_def ws_client_frame_def ws_header_byte0(1) Let_def ws_unmask_unmask)
qed

lemma ws_length_append: "2 \<le> length bs \<Longrightarrow> ws_length bs = Some p \<Longrightarrow> ws_length (bs @ ys) = Some p"
  by (auto simp: ws_length_def Let_def nth_append split: if_splits)

lemma ws_length_off: "ws_length bs = Some (n, off) \<Longrightarrow> 2 \<le> off"
  by (auto simp: ws_length_def Let_def split: if_splits)

interpretation wsf: frame_stream ntc_ws_decode
proof unfold_locales
  fix bs m n assume "ntc_ws_decode bs = Frame m n"
  then show "0 < n \<and> n \<le> length bs"
    using ws_length_off [of bs] by (fastforce simp: ntc_ws_decode_def Let_def split: if_splits option.splits prod.splits)
next
  fix bs m n ys assume *: "ntc_ws_decode bs = Frame m n"
  then have "2 \<le> length bs" by (auto simp: ntc_ws_decode_def split: if_splits)
  moreover from this have "(bs @ ys) ! 0 = bs ! 0" "(bs @ ys) ! 1 = bs ! 1" by (auto simp: nth_append)
  moreover obtain plen off where "ws_length bs = Some (plen, off)"
    using * by (auto simp: ntc_ws_decode_def Let_def split: if_splits option.splits)
  ultimately show "ntc_ws_decode (bs @ ys) = Frame m n"
    using * ws_length_append [of bs "(plen, off)" ys] by (auto simp: ntc_ws_decode_def Let_def split: if_splits)
next
  fix bs ys assume *: "ntc_ws_decode bs = Malformed"
  then have "2 \<le> length bs" by (auto simp: ntc_ws_decode_def split: if_splits)
  moreover obtain plen off where "ws_length bs = Some (plen, off)"
    using * by (auto simp: ntc_ws_decode_def Let_def split: if_splits option.splits)
  ultimately show "ntc_ws_decode (bs @ ys) = Malformed"
    using * ws_length_append [of bs "(plen, off)" ys] by (auto simp: ntc_ws_decode_def Let_def split: if_splits)
qed

subsection \<open>Properties\<close>

text \<open>
  A frame the gateway encodes is written in the capacity given,
  with the shortest length field, and decodes to the same opcode and payload; encoding fails
  only for lack of room.
\<close>

lemma ws_encode_decode:
  assumes "opcode < 16" and "length data \<le> NTC_WS_MAX_PAYLOAD"
  shows "case ntc_ws_encode opcode data cap of
      Some bs \<Rightarrow> length bs \<le> cap \<and>
        ntc_ws_decode bs = Frame \<lparr>ws_fin = True, ws_opcode = opcode, ws_payload = data\<rparr> (length bs)
    | None \<Rightarrow> cap < length data + 10"
proof -
  have "ws_frame_ok \<lparr>ws_fin = True, ws_opcode = opcode, ws_payload = data\<rparr>" using assms by (simp add: ws_frame_ok_def)
  from ws_decode_server [OF this] show ?thesis by (simp add: ntc_ws_encode_def length_ws_header Let_def)
qed

text \<open>
  C33 (\<open>ws_client_stream\<close>): frames a client masks, each with its own key, come out of the
  gateway's decoder unmasked and in order however the bytes are cut into reads.
\<close>

theorem ws_client_stream:
  assumes "list_all ws_frame_ok fs" and "length keys = length fs" and "list_all (\<lambda>k. length k = 4) keys"
    and "concat chunks = concat (map2 ws_client_frame keys fs)"
  shows "feed ntc_ws_decode [] chunks = (fs, [], False)"
proof -
  obtain ms r b where f: "feed ntc_ws_decode [] chunks = (ms, r, b)" by (metis prod_cases3)
  have n: "ntc_ws_decode [] = Need_more" by (simp add: ntc_ws_decode_def)
  then have "drain ntc_ws_decode [] = ([], [], False)" by (simp add: drain.simps)
  moreover have "list_all2 (\<lambda>m bs. ntc_ws_decode bs = Frame m (length bs)) fs (map2 ws_client_frame keys fs)"
    using assms(1-3) ws_decode_client by (auto simp: list_all2_conv_all_nth list_all_length)
  ultimately show ?thesis
    using wsf.feed_eq_drain [OF _ f] wsf.drain_frames [of fs _ "[]"] n assms(4) f by simp
qed

theorem ws_client_stream_witness:
  "feed ntc_ws_decode []
     [[0x81, 0x82], [1, 2, 3, 4, 0x49] , [0x6b, 0x88, 0x80, 9, 9, 9, 9]] =
   ([\<lparr>ws_fin = True, ws_opcode = 1, ws_payload = [72, 105]\<rparr>, \<lparr>ws_fin = True, ws_opcode = 8, ws_payload = []\<rparr>], [], False)"
  by (rule ws_client_stream [of _ "[[1, 2, 3, 4], [9, 9, 9, 9]]"]) code_simp+

end
