(* ===== verification/Http.thy ===== *)
theory Http
  imports Http_Request
begin

text \<open>
  The response formatter (\<open>src/common/http.c\<close>): the status texts, the response with
  \<open>Content-Length\<close> and the head of a streamed response. The header is built in a buffer of
  1024 bytes; one that does not fit is an overflow error. The argument \<open>grant\<close> says
  whether the arena grants a given number of bytes. Custom header lines are a C string, or
  NULL (\<open>None\<close>). The pointer arguments that the C code checks for NULL are always present.
\<close>

definition NTC_NAME :: string where "NTC_NAME = ''naitron-c''"
definition NTC_VERSION :: string where "NTC_VERSION = ''0.0.1''"

definition ntc_http_status_text :: "int \<Rightarrow> string" where
  "ntc_http_status_text status =
     (if status = 200 then ''OK''
      else if status = 201 then ''Created''
      else if status = 204 then ''No Content''
      else if status = 400 then ''Bad Request''
      else if status = 401 then ''Unauthorized''
      else if status = 403 then ''Forbidden''
      else if status = 404 then ''Not Found''
      else if status = 405 then ''Method Not Allowed''
      else if status = 413 then ''Payload Too Large''
      else if status = 431 then ''Request Header Fields Too Large''
      else if status = 500 then ''Internal Server Error''
      else if status = 502 then ''Bad Gateway''
      else if status = 503 then ''Service Unavailable''
      else if status = 504 then ''Gateway Timeout''
      else ''OK'')"

definition opt_cstr :: "string option \<Rightarrow> string" where
  "opt_cstr h = (case h of None \<Rightarrow> [] | Some s \<Rightarrow> cstr s)"

definition status_line :: "int \<Rightarrow> string \<Rightarrow> string" where
  "status_line status text = ''HTTP/1.1 '' @ fmt_int status @ '' '' @ cstr text @ CRLF @
     ''Server: '' @ NTC_NAME @ ''/'' @ NTC_VERSION @ CRLF"

text \<open>The JSON literals \<open>{"error":"..."}\<close> of the error answers.\<close>

definition json_error :: "string \<Rightarrow> string" where
  "json_error msg = ''{'' @ [DQ] @ ''error'' @ [DQ] @ '':'' @ [DQ] @ msg @ [DQ] @ ''}''"

definition HTTP_HEAD_CAP :: nat where "HTTP_HEAD_CAP = 1024"

definition ntc_http_format_response_ex ::
  "(nat \<Rightarrow> bool) \<Rightarrow> int \<Rightarrow> string \<Rightarrow> ntc_slice \<Rightarrow> string option \<Rightarrow> ntc_slice \<Rightarrow> ntc_err + ntc_slice" where
  "ntc_http_format_response_ex grant status text ctype extra body =
     (let header = status_line status text @
            ''Content-Type: '' @ fmt_slice ctype @ CRLF @
            ''Content-Length: '' @ fmt_nat (length body) @ CRLF @
            ''Connection: close'' @ CRLF @
            opt_cstr extra @ CRLF
      in if length header \<ge> HTTP_HEAD_CAP then Inl NTC_ERR_OVERFLOW
         else ntc_try (ntc_size_add (of_nat (length header)) (of_nat (length body)))
                (\<lambda>total. if \<not> grant (unat total) then Inl NTC_ERR_OOM else Inr (header @ body)))"

definition ntc_http_format_response ::
  "(nat \<Rightarrow> bool) \<Rightarrow> int \<Rightarrow> string \<Rightarrow> ntc_slice \<Rightarrow> ntc_slice \<Rightarrow> ntc_err + ntc_slice" where
  "ntc_http_format_response grant status text ctype body =
     ntc_http_format_response_ex grant status text ctype None body"

definition ntc_http_format_stream_head ::
  "(nat \<Rightarrow> bool) \<Rightarrow> int \<Rightarrow> string \<Rightarrow> ntc_slice \<Rightarrow> bool \<Rightarrow> string option \<Rightarrow> ntc_err + ntc_slice" where
  "ntc_http_format_stream_head grant status text ctype sse extra =
     (let header =
            (if sse
             then status_line status text @
                  ''Content-Type: text/event-stream'' @ CRLF @
                  ''Cache-Control: no-cache'' @ CRLF @
                  ''Connection: close'' @ CRLF @
                  opt_cstr extra @ CRLF
             else status_line status text @
                  ''Content-Type: '' @ fmt_slice ctype @ CRLF @
                  ''Transfer-Encoding: chunked'' @ CRLF @
                  ''Connection: close'' @ CRLF @
                  opt_cstr extra @ CRLF)
      in if length header \<ge> HTTP_HEAD_CAP then Inl NTC_ERR_OVERFLOW
         else if \<not> grant (length header) then Inl NTC_ERR_OOM
         else Inr header)"

subsection \<open>Reference notions\<close>

text \<open>The headers of a response, and the values that a header line can carry unchanged.\<close>

definition response_headers :: "ntc_slice \<Rightarrow> nat \<Rightarrow> ntc_header list \<Rightarrow> ntc_header list" where
  "response_headers ctype n extra =
     [\<lparr>hdr_name = ''Server'', hdr_value = NTC_NAME @ ''/'' @ NTC_VERSION\<rparr>,
      \<lparr>hdr_name = ''Content-Type'', hdr_value = ctype\<rparr>,
      \<lparr>hdr_name = ''Content-Length'', hdr_value = fmt_nat n\<rparr>,
      \<lparr>hdr_name = ''Connection'', hdr_value = ''close''\<rparr>] @ extra"

definition clean_line :: "string \<Rightarrow> bool" where
  "clean_line s \<longleftrightarrow> CR \<notin> set s \<and> NUL \<notin> set s"

definition clean_header :: "ntc_header \<Rightarrow> bool" where
  "clean_header h \<longleftrightarrow> is_token (hdr_name h) \<and> clean_line (hdr_value h) \<and> ntc_slice_trim (hdr_value h) = hdr_value h"

definition response_line :: "int \<Rightarrow> string \<Rightarrow> string" where
  "response_line status text = ''HTTP/1.1 '' @ fmt_int status @ '' '' @ text"

subsection \<open>Lemmas\<close>

lemma fmt_digit_dec: "d < 10 \<Longrightarrow> is_digit (fmt_digit d) \<and> ccode (fmt_digit d) - 48 = d"
proof -
  assume "d < 10"
  moreover have "\<forall>d \<in> set [0..<10]. is_digit (fmt_digit d) \<and> ccode (fmt_digit d) - 48 = d" by code_simp
  ultimately show ?thesis by simp
qed

lemma fmt_nat_dec: "fmt_nat n \<noteq> [] \<and> list_all is_digit (fmt_nat n) \<and> dec_value (fmt_nat n) = n"
proof (induction n rule: less_induct)
  case (less n)
  show ?case
  proof (cases "n < 10")
    case True
    then show ?thesis using fmt_digit_dec [of n] by (simp add: fmt_nat.simps [of n] dec_value_def dec_step_def)
  next
    case False
    then have "n div 10 < n" by simp
    from less [OF this] False fmt_digit_dec [of "n mod 10"] show ?thesis
      by (simp add: fmt_nat.simps [of n] dec_value_def dec_step_def)
  qed
qed

lemma digit_clean: "is_digit c \<Longrightarrow> c \<noteq> CR \<and> c \<noteq> NUL \<and> \<not> is_space c"
  by (auto simp: is_digit_def c_in_def ccode_def is_space_def)

lemma fmt_nat_clean [simp]: "clean_line (fmt_nat n)" "ntc_slice_trim (fmt_nat n) = fmt_nat n"
proof -
  have d: "fmt_nat n \<noteq> []" "\<forall>c \<in> set (fmt_nat n). is_digit c"
    using fmt_nat_dec [of n] by (auto simp: list_all_iff)
  then show "clean_line (fmt_nat n)" using digit_clean by (auto simp: clean_line_def)
  from d show "ntc_slice_trim (fmt_nat n) = fmt_nat n"
    using digit_clean by (intro ntc_slice_trim_id) auto
qed

lemma fmt_int_clean [simp]: "clean_line (fmt_int i)"
  using fmt_nat_clean(1) by (auto simp: fmt_int_def clean_line_def)

lemma tchar_not_NUL: "is_token s \<Longrightarrow> NUL \<notin> set s"
proof -
  have "\<not> is_tchar NUL" by (simp add: is_tchar_def c_in_def ccode_def)
  then show "is_token s \<Longrightarrow> NUL \<notin> set s" by (auto simp: is_token_def list_all_iff split: if_splits)
qed

lemma cstr_headers:
  "\<forall>h \<in> set hs. clean_header h \<Longrightarrow> cstr (concat (map render_header hs)) = concat (map render_header hs)"
  using tchar_not_NUL by (intro cstr_idem) (auto simp: render_header_def clean_header_def clean_line_def)

lemma response_line_clean: "clean_line text \<Longrightarrow> CR \<notin> set (response_line status text)"
  using fmt_int_clean [of status] by (auto simp: response_line_def clean_line_def)

lemma status_line_eq:
  "clean_line text \<Longrightarrow> status_line status text = response_line status text @ CRLF @
     render_header \<lparr>hdr_name = ''Server'', hdr_value = NTC_NAME @ ''/'' @ NTC_VERSION\<rparr>"
  by (simp add: status_line_def response_line_def render_header_def clean_line_def)

lemma format_response_Inr:
  assumes "clean_line text" "clean_line ctype" "\<forall>h \<in> set hs. clean_header h"
    "ntc_http_format_response_ex grant status text ctype (Some (concat (map render_header hs))) body = Inr resp"
  shows "resp = response_line status text @ CRLF @
           concat (map render_header (response_headers ctype (length body) hs)) @ CRLF @ body"
    and "length resp - length body < HTTP_HEAD_CAP"
proof -
  have c: "fmt_slice ctype = ctype" using assms(2) by (simp add: fmt_slice_def clean_line_def)
  note d = assms(4) [unfolded ntc_http_format_response_ex_def Let_def opt_cstr_def option.case
      cstr_headers [OF assms(3)] c status_line_eq [OF assms(1)]]
  show "resp = response_line status text @ CRLF @
           concat (map render_header (response_headers ctype (length body) hs)) @ CRLF @ body"
    using d by (auto simp: ntc_try_eq_Inr response_headers_def render_header_def split: if_splits)
  then show "length resp - length body < HTTP_HEAD_CAP"
    using d by (auto simp: response_headers_def render_header_def split: if_splits)
qed

lemma response_headers_clean:
  assumes "clean_line ctype" "ntc_slice_trim ctype = ctype" "\<forall>h \<in> set hs. clean_header h"
  shows "\<forall>h \<in> set (response_headers ctype n hs). clean_header h"
proof -
  have "is_token ''Server''" "is_token ''Content-Type''" "is_token ''Content-Length''" "is_token ''Connection''"
    "ntc_slice_trim (NTC_NAME @ ''/'' @ NTC_VERSION) = NTC_NAME @ ''/'' @ NTC_VERSION"
    "clean_line (NTC_NAME @ ''/'' @ NTC_VERSION)" "ntc_slice_trim ''close'' = ''close''" "clean_line ''close''"
    by code_simp+
  with assms show ?thesis by (simp add: response_headers_def clean_header_def)
qed

lemma response_headers_cl:
  assumes "\<forall>h \<in> set hs. \<not> is_cl h" "h \<in> set (response_headers ctype n hs)" "is_cl h"
  shows "hdr_value h = fmt_nat n"
proof -
  have "\<not> islabel_eq ''Server'' ''content-length''" "\<not> islabel_eq ''Content-Type'' ''content-length''"
    "\<not> islabel_eq ''Connection'' ''content-length''" by code_simp+
  with assms show ?thesis by (auto simp: response_headers_def is_cl_def)
qed

lemma response_headers_has_cl: "\<exists>h \<in> set (response_headers ctype n hs). is_cl h"
proof -
  have "is_cl \<lparr>hdr_name = ''Content-Length'', hdr_value = fmt_nat n\<rparr>"
    unfolding is_cl_def ntc_header.simps by code_simp
  then show ?thesis by (auto simp: response_headers_def)
qed



end
