(* ===== verification/Https_Client.thy ===== *)
theory Https_Client
  imports Http
begin

text \<open>
  The outbound HTTPS client (\<open>src/core/https_client.c\<close>) that fetches key sets and exchanges
  OAuth codes: URL parsing, the request it writes, the loop that collects the response and
  the extraction of its body, with chunked transfer coding. Sockets and the TLS engine are
  the record \<open>https_env\<close>: whether each call succeeds and what the peer's reads return. A set
  of trust anchors is the list of their encodings; loading it from PEM is BearSSL's work.

  The response buffer is not NUL-terminated, so the numeric conversions read what the buffer
  holds and no further. \<open>strtol\<close> saturates to the range of \<open>long\<close>, and \<open>atoi\<close> keeps the low 32
  bits of it, as glibc does.
\<close>

subsection \<open>Numeric conversions of the C library\<close>

definition digit_val :: "nat \<Rightarrow> char \<Rightarrow> nat option" where
  "digit_val base c =
     (let d = (if c_in CHR ''0'' CHR ''9'' c then ccode c - 48
               else if c_in CHR ''a'' CHR ''z'' c then ccode c - 87
               else if c_in CHR ''A'' CHR ''Z'' c then ccode c - 55
               else base)
      in if d < base then Some d else None)"

fun strtol_digits :: "nat \<Rightarrow> nat \<Rightarrow> string \<Rightarrow> nat" where
  "strtol_digits base acc [] = acc"
| "strtol_digits base acc (c # cs) =
     (case digit_val base c of Some d \<Rightarrow> strtol_digits base (acc * base + d) cs | None \<Rightarrow> acc)"

definition hex_prefix :: "string \<Rightarrow> bool" where
  "hex_prefix s = (case s of a # b # c # _ \<Rightarrow> a = CHR ''0'' \<and> (b = CHR ''x'' \<or> b = CHR ''X'') \<and> digit_val 16 c \<noteq> None
                   | _ \<Rightarrow> False)"

definition strtol :: "string \<Rightarrow> nat \<Rightarrow> int" where
  "strtol s base =
     (let s1 = dropWhile is_space s;
          neg = (take 1 s1 = ''-'');
          s2 = (if neg \<or> take 1 s1 = ''+'' then drop 1 s1 else s1);
          s3 = (if base = 16 \<and> hex_prefix s2 then drop 2 s2 else s2);
          v = int (strtol_digits base 0 s3)
      in if neg then max (- (2 ^ 63)) (- v) else min (2 ^ 63 - 1) v)"

definition atoi :: "string \<Rightarrow> int" where
  "atoi s = sint (word_of_int (strtol s 10) :: 32 word)"

subsection \<open>URLs\<close>

text \<open>Result: host, port and path, each cut or refused by its buffer.\<close>

definition parse_https_url :: "string \<Rightarrow> nat \<Rightarrow> nat \<Rightarrow> nat \<Rightarrow> (string \<times> string \<times> string) option" where
  "parse_https_url url hcap pcap pathcap =
     (if take 8 url \<noteq> ''https://'' then None
      else
        let h = drop 8 url;
            hostpart = (case memchr CHR ''/'' h of Some i \<Rightarrow> take i h | None \<Rightarrow> h);
            path = snprintf pathcap (case memchr CHR ''/'' h of Some i \<Rightarrow> drop i h | None \<Rightarrow> ''/'')
        in case memchr CHR '':'' hostpart of
             Some colon \<Rightarrow>
               (if colon = 0 \<or> colon \<ge> hcap then None
                else let port = drop (colon + 1) hostpart
                     in if length port = 0 \<or> length port \<ge> pcap then None
                        else Some (take colon hostpart, port, path))
           | None \<Rightarrow>
               (if length hostpart = 0 \<or> length hostpart \<ge> hcap then None
                else Some (hostpart, snprintf pcap ''443'', path)))"

subsection \<open>Responses\<close>

definition set_err :: "nat \<Rightarrow> string \<Rightarrow> string" where
  "set_err cap msg = snprintf cap msg"

text \<open>The search for \<open>chunked\<close> over the whole header block, ignoring case.\<close>

definition has_chunked :: "string \<Rightarrow> nat \<Rightarrow> bool" where
  "has_chunked resp hdr_len =
     list_ex (\<lambda>i. map lc (take 7 (drop i resp)) = ''chunked'') [0 ..< hdr_len - 7]"

text \<open>
  The de-chunking loop; the first argument is \<open>[p, end)\<close>, the second what is written so far.
  \<open>None\<close> is the overflow of the output.
\<close>

function dechunk :: "string \<Rightarrow> string \<Rightarrow> nat \<Rightarrow> string option" where
  "dechunk p out cap =
     (case memchr LF p of
        None \<Rightarrow> Some out
      | Some eol \<Rightarrow>
          (let sz = strtol p 16;
               q = drop (eol + 1) p
           in if sz \<le> 0 then Some out
              else if nat sz > length q then Some out
              else if length out + nat sz \<ge> cap then None
              else let r = drop (nat sz) q
                   in dechunk (if take 2 r = CRLF then drop 2 r else r) (out @ take (nat sz) q) cap))"
  by pat_completeness auto
termination
  by (relation "measure (\<lambda>(p, out, cap). length p)") (auto simp: memchr_Some_iff)

declare dechunk.simps [simp del, loop_simps]

definition extract_body :: "string \<Rightarrow> nat \<Rightarrow> nat \<Rightarrow> string + string" where
  "extract_body resp cap errcap =
     (if length resp < 12 \<or> take 7 resp \<noteq> ''HTTP/1.'' then Inl (set_err errcap ''bad response'')
      else
        let status = atoi (drop 9 resp)
        in case find_eoh resp of
             None \<Rightarrow> Inl (set_err errcap ''no header terminator'')
           | Some i \<Rightarrow>
               (if status \<noteq> 200 then Inl (set_err errcap (snprintf 64 (''http status '' @ fmt_int status)))
                else
                  let hdr_len = i + 4; body = drop hdr_len resp
                  in if \<not> has_chunked resp hdr_len then
                       (if length body \<ge> cap then Inl (set_err errcap ''body too large'') else Inr body)
                     else (case dechunk body [] cap of
                             None \<Rightarrow> Inl (set_err errcap ''body too large'')
                           | Some out \<Rightarrow> Inr out)))"

subsection \<open>The exchange\<close>

type_synonym ntc_ca = "byte list list"

record https_env =
  he_connect :: "string \<Rightarrow> string \<Rightarrow> int \<Rightarrow> bool"  \<comment> \<open>\<open>connect_timeout(host, port, timeout) >= 0\<close>\<close>
  he_box :: bool                                  \<comment> \<open>\<open>calloc\<close> of the TLS state\<close>
  he_reset :: "ntc_ca \<Rightarrow> string \<Rightarrow> bool"            \<comment> \<open>\<open>br_ssl_client_reset\<close> for these anchors and host\<close>
  he_write :: "ntc_ca \<Rightarrow> string \<Rightarrow> string \<Rightarrow> bool"  \<comment> \<open>\<open>br_sslio_write_all\<close>, handshake included\<close>
  he_flush :: "ntc_ca \<Rightarrow> string \<Rightarrow> bool"            \<comment> \<open>\<open>br_sslio_flush\<close>\<close>
  he_buf :: bool                                  \<comment> \<open>\<open>malloc\<close> of the response buffer\<close>
  he_reads :: "string \<Rightarrow> string list"              \<comment> \<open>results of \<open>br_sslio_read\<close> after these bytes were sent\<close>
  he_error :: int                                 \<comment> \<open>\<open>br_ssl_engine_last_error\<close>\<close>

definition RESP_CAP :: nat where "RESP_CAP = 256 * 1024"

fun read_loop :: "string \<Rightarrow> string list \<Rightarrow> string" where
  "read_loop resp [] = resp"
| "read_loop resp (r # rs) =
     (if length resp < RESP_CAP - 1 then
        (if r = [] then resp else read_loop (resp @ take (RESP_CAP - 1 - length resp) r) rs)
      else resp)"

definition REQ_CAP :: nat where "REQ_CAP = 1400"

definition https_request :: "string \<Rightarrow> string \<Rightarrow> string \<Rightarrow> string option \<Rightarrow> string option \<Rightarrow> string" where
  "https_request meth path host ctype body =
     meth @ '' '' @ path @ '' HTTP/1.1'' @ CRLF @
     ''Host: '' @ host @ CRLF @ ''User-Agent: naitron-c'' @ CRLF @
     ''Accept: application/json'' @ CRLF @ ''Connection: close'' @ CRLF @
     (case body of None \<Rightarrow> []
      | Some b \<Rightarrow>
          ''Content-Type: '' @ (case ctype of None \<Rightarrow> ''application/x-www-form-urlencoded'' | Some t \<Rightarrow> t) @ CRLF @
          ''Content-Length: '' @ fmt_nat (length b) @ CRLF) @
     CRLF"

definition https_do ::
  "https_env \<Rightarrow> ntc_ca option \<Rightarrow> string \<Rightarrow> string \<Rightarrow> string option \<Rightarrow> string option \<Rightarrow> nat \<Rightarrow> int \<Rightarrow> nat \<Rightarrow> string + string" where
  "https_do env ca meth url ctype body cap timeout errcap =
     (case ca of
        None \<Rightarrow> Inl (set_err errcap ''no trust anchors (fail closed)'')
      | Some anchors \<Rightarrow>
          if anchors = [] then Inl (set_err errcap ''no trust anchors (fail closed)'')
          else if cap = 0 then Inl (set_err errcap ''bad args'')
          else
            (case parse_https_url url 256 16 1024 of
               None \<Rightarrow> Inl (set_err errcap ''bad https url'')
             | Some (host, port, path) \<Rightarrow>
                 if \<not> he_connect env host port (if timeout \<le> 0 then 5000 else timeout)
                 then Inl (set_err errcap ''connect failed'')
                 else if \<not> he_box env then Inl (set_err errcap ''oom'')
                 else if \<not> he_reset env anchors host then Inl (set_err errcap ''tls reset failed'')
                 else
                   let req = https_request meth path host ctype body
                   in if length req < REQ_CAP \<and> he_write env anchors host req \<and>
                         (case body of None \<Rightarrow> True | Some b \<Rightarrow> he_write env anchors host b) \<and>
                         he_flush env anchors host
                      then
                        (if he_buf env then
                           let resp = read_loop [] (he_reads env (req @ (case body of None \<Rightarrow> [] | Some b \<Rightarrow> b)))
                           in if resp \<noteq> [] then extract_body resp cap errcap
                              else if he_error env \<noteq> 0
                              then Inl (set_err errcap (snprintf 64 (''tls error '' @ fmt_int (he_error env))))
                              else Inl (set_err errcap ''empty response'')
                         else Inl (set_err errcap ''oom''))
                      else Inl (set_err errcap ''tls handshake/write failed'')))"

definition ntc_https_get :: "https_env \<Rightarrow> ntc_ca option \<Rightarrow> string \<Rightarrow> nat \<Rightarrow> int \<Rightarrow> nat \<Rightarrow> string + string" where
  "ntc_https_get env ca url cap timeout errcap = https_do env ca ''GET'' url None None cap timeout errcap"

definition ntc_https_post ::
  "https_env \<Rightarrow> ntc_ca option \<Rightarrow> string \<Rightarrow> string \<Rightarrow> string option \<Rightarrow> nat \<Rightarrow> int \<Rightarrow> nat \<Rightarrow> string + string" where
  "ntc_https_post env ca url ctype body cap timeout errcap =
     https_do env ca ''POST'' url (Some ctype) (Some (case body of None \<Rightarrow> [] | Some b \<Rightarrow> b)) cap timeout errcap"

subsection \<open>Reference notions\<close>

text \<open>One chunk of a chunked body, and the headers of a chunked response.\<close>

definition chunk_frame :: "string \<Rightarrow> string" where
  "chunk_frame d = fmt_hex (length d) @ CRLF @ d @ CRLF"

definition last_chunk :: string where
  "last_chunk = ''0'' @ CRLF @ CRLF"

definition stream_headers :: "ntc_slice \<Rightarrow> ntc_header list \<Rightarrow> ntc_header list" where
  "stream_headers ctype extra =
     [\<lparr>hdr_name = ''Server'', hdr_value = NTC_NAME @ ''/'' @ NTC_VERSION\<rparr>,
      \<lparr>hdr_name = ''Content-Type'', hdr_value = ctype\<rparr>,
      \<lparr>hdr_name = ''Transfer-Encoding'', hdr_value = ''chunked''\<rparr>,
      \<lparr>hdr_name = ''Connection'', hdr_value = ''close''\<rparr>] @ extra"

subsection \<open>Lemmas\<close>

lemma hex_digit_val:
  assumes "d < 16"
  shows "digit_val 16 (hex_digit d) = Some d" and "\<not> is_space (hex_digit d)"
    and "hex_digit d \<notin> {CHR ''x'', CHR ''X'', CHR ''-'', CHR ''+'', CR, LF}"
proof -
  have "\<forall>d \<in> set [0..<16]. digit_val 16 (hex_digit d) = Some d \<and> \<not> is_space (hex_digit d) \<and>
      hex_digit d \<notin> {CHR ''x'', CHR ''X'', CHR ''-'', CHR ''+'', CR, LF}" by code_simp
  with assms show "digit_val 16 (hex_digit d) = Some d" "\<not> is_space (hex_digit d)"
    "hex_digit d \<notin> {CHR ''x'', CHR ''X'', CHR ''-'', CHR ''+'', CR, LF}" by simp_all
qed

lemma fmt_hex_digits: "fmt_hex n \<noteq> [] \<and> (\<forall>c \<in> set (fmt_hex n). \<exists>d < 16. c = hex_digit d)"
proof (induction n rule: less_induct)
  case (less n)
  show ?case
  proof (cases "n < 16")
    case True
    then show ?thesis by (auto simp: fmt_hex.simps [of n])
  next
    case False
    then have "n div 16 < n" by simp
    from less [OF this] False show ?thesis
      by (auto simp: fmt_hex.simps [of n] intro: exI [of _ "n mod 16"])
  qed
qed

lemma strtol_digits_append:
  "\<forall>c \<in> set s. digit_val b c \<noteq> None \<Longrightarrow> strtol_digits b a (s @ t) = strtol_digits b (strtol_digits b a s) t"
  by (induction s arbitrary: a) (auto split: option.splits)

lemma fmt_hex_digit_val: "c \<in> set (fmt_hex n) \<Longrightarrow> digit_val 16 c \<noteq> None"
  using fmt_hex_digits [of n] hex_digit_val(1) by fastforce

lemma strtol_digits_hex: "strtol_digits 16 0 (fmt_hex n) = n"
proof (induction n rule: less_induct)
  case (less n)
  show ?case
  proof (cases "n < 16")
    case True
    then show ?thesis by (simp add: fmt_hex.simps [of n] hex_digit_val(1))
  next
    case False
    then have "n div 16 < n" by simp
    note IH = less [OF this]
    have "strtol_digits 16 0 (fmt_hex (n div 16) @ [hex_digit (n mod 16)]) =
        strtol_digits 16 (strtol_digits 16 0 (fmt_hex (n div 16))) [hex_digit (n mod 16)]"
      using fmt_hex_digit_val [of _ "n div 16"] by (intro strtol_digits_append) blast
    then show ?thesis using False IH hex_digit_val(1) [of "n mod 16"] by (simp add: fmt_hex.simps [of n])
  qed
qed

lemma hex_prefix_second: "hex_prefix (a # b # r) \<Longrightarrow> b = CHR ''x'' \<or> b = CHR ''X''"
  by (cases r) (auto simp: hex_prefix_def)

lemma hex_prefix_fmt_hex: "\<not> hex_prefix (fmt_hex n @ CR # t)"
proof -
  have nx: "c \<noteq> CHR ''x''" "c \<noteq> CHR ''X''" if "c \<in> set (fmt_hex n)" for c
  proof -
    from that fmt_hex_digits [of n] obtain d where "d < 16" "c = hex_digit d" by metis
    then show "c \<noteq> CHR ''x''" "c \<noteq> CHR ''X''" using hex_digit_val(3) [of d] by simp_all
  qed
  obtain x xs where x: "fmt_hex n = x # xs" using fmt_hex_digits [of n] by (cases "fmt_hex n") auto
  show ?thesis
  proof (cases xs)
    case Nil
    then show ?thesis unfolding x using hex_prefix_second [of x CR t] by auto
  next
    case (Cons y ys)
    have "y \<in> set (fmt_hex n)" unfolding x Cons by simp
    then have "y \<noteq> CHR ''x''" "y \<noteq> CHR ''X''" by (rule nx)+
    then show ?thesis unfolding x Cons using hex_prefix_second [of x y "ys @ CR # t"] by auto
  qed
qed

lemma strtol_fmt_hex:
  assumes "n < 2 ^ 63"
  shows "strtol (fmt_hex n @ CR # t) 16 = int n"
proof -
  obtain x xs where x: "fmt_hex n = x # xs" using fmt_hex_digits [of n] by (cases "fmt_hex n") auto
  then obtain d where d: "d < 16" "x = hex_digit d" using fmt_hex_digits [of n] by auto
  have ns: "\<not> is_space x" "x \<noteq> CHR ''-''" "x \<noteq> CHR ''+''" using hex_digit_val(2,3) [OF d(1)] d(2) by auto
  have "digit_val 16 CR = None" by code_simp
  moreover have "strtol_digits 16 0 (fmt_hex n @ CR # t) = strtol_digits 16 (strtol_digits 16 0 (fmt_hex n)) (CR # t)"
    using fmt_hex_digit_val [of _ n] by (intro strtol_digits_append) blast
  ultimately have "strtol_digits 16 0 (fmt_hex n @ CR # t) = n" by (simp add: strtol_digits_hex)
  then show ?thesis using ns assms hex_prefix_fmt_hex [of n t]
    unfolding strtol_def x by (simp add: Let_def min_def)
qed

lemma memchr_LF_hex: "memchr LF (fmt_hex n @ CR # LF # t) = Some (length (fmt_hex n) + 1)"
proof -
  have "c \<noteq> LF" if c: "c \<in> set (fmt_hex n)" for c
  proof -
    from c fmt_hex_digits [of n] obtain d where "d < 16" "c = hex_digit d" by metis
    then show ?thesis using hex_digit_val(3) [of d] by simp
  qed
  then have "LF \<notin> set (fmt_hex n @ [CR])" by auto
  then have "memchr LF ((fmt_hex n @ [CR]) @ LF # t) = Some (length (fmt_hex n @ [CR]))" by (rule memchr_append)
  then show ?thesis by simp
qed

lemma dechunk_chunk:
  assumes "d \<noteq> []" "length d < 2 ^ 63"
  shows "dechunk (chunk_frame d @ t) out cap =
    (if length out + length d \<ge> cap then None else dechunk t (out @ d) cap)"
proof -
  have p: "chunk_frame d @ t = fmt_hex (length d) @ CR # LF # d @ CR # LF # t" by (simp add: chunk_frame_def)
  have "drop (length (fmt_hex (length d)) + 1 + 1) (chunk_frame d @ t) = d @ CR # LF # t"
    unfolding p by simp
  with assms(1) show ?thesis
    by (subst dechunk.simps) (simp add: p memchr_LF_hex strtol_fmt_hex [OF assms(2)] Let_def)
qed

lemma dechunk_last: "dechunk last_chunk out cap = Some out"
proof -
  have "memchr LF last_chunk = Some 2" "strtol last_chunk 16 = 0" by code_simp+
  then show ?thesis by (subst dechunk.simps) (simp add: Let_def)
qed

lemma dechunk_stream:
  assumes "\<forall>d \<in> set ds. d \<noteq> [] \<and> length d < 2 ^ 63" "length out < cap"
  shows "dechunk (concat (map chunk_frame ds) @ last_chunk) out cap =
    (if length out + length (concat ds) < cap then Some (out @ concat ds) else None)"
  using assms
proof (induction ds arbitrary: out)
  case Nil
  then show ?case by (simp add: dechunk_last)
next
  case (Cons d ds)
  then have "dechunk (chunk_frame d @ concat (map chunk_frame ds) @ last_chunk) out cap =
    (if length out + length d \<ge> cap then None else dechunk (concat (map chunk_frame ds) @ last_chunk) (out @ d) cap)"
    by (intro dechunk_chunk) auto
  then show ?case using Cons by auto
qed

text \<open>The status line of a 200 response reads back as 200.\<close>

lemma status_200:
  "atoi (drop 9 (response_line 200 text @ t)) = 200" "take 7 (response_line 200 text @ t) = ''HTTP/1.''"
  "12 \<le> length (response_line 200 text @ t)"
proof -
  have i: "fmt_int 200 = ''200''" by code_simp
  have "drop 9 (response_line 200 text @ t) = ''200 '' @ text @ t" by (simp add: response_line_def i)
  moreover have "strtol (''200 '' @ text @ t) 10 = 200"
    by (simp add: strtol_def Let_def is_space_def digit_val_def c_in_def ccode_def)
  ultimately show "atoi (drop 9 (response_line 200 text @ t)) = 200" by (simp add: atoi_def)
  show "12 \<le> length (response_line 200 text @ t)" by (simp add: response_line_def i)
qed (simp add: response_line_def)

lemma has_chunked_at:
  assumes "map lc w = ''chunked''" "length a + 7 < n"
  shows "has_chunked (a @ w @ b) n"
proof -
  have "length w = 7" using arg_cong [OF assms(1), of length] by simp
  then have "map lc (take 7 (drop (length a) (a @ w @ b))) = ''chunked''" using assms(1) by simp
  then show ?thesis using assms(2) by (auto simp: has_chunked_def list_ex_iff intro!: bexI [of _ "length a"])
qed

lemma extract_body_head:
  assumes "clean_line text" "\<forall>h \<in> set hs. clean_header h"
  defines "head \<equiv> response_line 200 text @ CRLF @ concat (map render_header hs) @ CRLF"
  shows "extract_body (head @ body) cap errcap =
    (if \<not> has_chunked (head @ body) (length head) then
       (if length body \<ge> cap then Inl (set_err errcap ''body too large'') else Inr body)
     else (case dechunk body [] cap of None \<Rightarrow> Inl (set_err errcap ''body too large'') | Some out \<Rightarrow> Inr out))"
proof -
  let ?l = "response_line 200 text" and ?h = "concat (map render_header hs)"
  have e: "find_eoh (?l @ CRLF @ ?h @ CRLF @ body) = Some (length (?l @ CRLF @ ?h) - 2)"
    using assms(2) response_line_clean [OF assms(1)]
    by (intro find_eoh_headers) (auto simp: clean_header_def clean_line_def wire_clean_def)
  have n: "length (?l @ CRLF @ ?h) - 2 + 4 = length head" by (simp add: head_def)
  have hb: "head @ body = ?l @ CRLF @ ?h @ CRLF @ body" by (simp add: head_def)
  have s: "atoi (drop 9 (head @ body)) = 200" "take 7 (head @ body) = ''HTTP/1.''" "\<not> length (head @ body) < 12"
    using status_200 [of "text" "CRLF @ ?h @ CRLF @ body"] by (auto simp: hb)
  have d: "drop (length head) (head @ body) = body" by simp
  have e': "find_eoh (head @ body) = Some (length (?l @ CRLF @ ?h) - 2)" unfolding hb by (rule e)
  show ?thesis unfolding extract_body_def s(1,2) e' option.case Let_def n d using s(3) by simp
qed

lemma format_stream_head_Inr:
  assumes "clean_line text" "clean_line ctype" "\<forall>h \<in> set hs. clean_header h"
    "ntc_http_format_stream_head grant status text ctype False (Some (concat (map render_header hs))) = Inr head"
  shows "head = response_line status text @ CRLF @ concat (map render_header (stream_headers ctype hs)) @ CRLF"
proof -
  have c: "fmt_slice ctype = ctype" using assms(2) by (simp add: fmt_slice_def clean_line_def)
  show ?thesis
    using assms(4) [unfolded ntc_http_format_stream_head_def Let_def opt_cstr_def option.case
      cstr_headers [OF assms(3)] c status_line_eq [OF assms(1)]]
    by (auto simp: stream_headers_def render_header_def split: if_splits)
qed

lemma stream_headers_clean:
  assumes "clean_line ctype" "ntc_slice_trim ctype = ctype" "\<forall>h \<in> set hs. clean_header h"
  shows "\<forall>h \<in> set (stream_headers ctype hs). clean_header h"
proof -
  have "is_token ''Transfer-Encoding''" "ntc_slice_trim ''chunked'' = ''chunked''" "clean_line ''chunked''" by code_simp+
  with response_headers_clean [OF assms, of 0] show ?thesis
    by (auto simp: stream_headers_def response_headers_def clean_header_def)
qed

lemma stream_head_chunked:
  assumes "head = response_line 200 text @ CRLF @ concat (map render_header (stream_headers ctype hs)) @ CRLF"
  shows "has_chunked (head @ body) (length head)"
proof -
  let ?a = "response_line 200 text @ CRLF @
    render_header \<lparr>hdr_name = ''Server'', hdr_value = NTC_NAME @ ''/'' @ NTC_VERSION\<rparr> @
    render_header \<lparr>hdr_name = ''Content-Type'', hdr_value = ctype\<rparr> @ ''Transfer-Encoding: ''"
  let ?b = "CRLF @ render_header \<lparr>hdr_name = ''Connection'', hdr_value = ''close''\<rparr> @ concat (map render_header hs) @ CRLF"
  have h: "head = ?a @ ''chunked'' @ ?b" by (simp add: assms stream_headers_def render_header_def)
  have "has_chunked (?a @ ''chunked'' @ ?b @ body) (length head)"
  proof (rule has_chunked_at)
    show "map lc ''chunked'' = ''chunked''" by code_simp
    show "length ?a + 7 < length head" unfolding h by simp
  qed
  then show ?thesis unfolding h by simp
qed

lemma dechunk_bound: "dechunk p out cap = Some r \<Longrightarrow> length out < cap \<Longrightarrow> length r < cap"
proof (induction p out cap rule: dechunk.induct)
  case (1 p out cap)
  from "1.prems"(1) show ?case
    by (subst (asm) dechunk.simps) (use 1 in \<open>auto simp: Let_def split: option.splits if_splits\<close>)
qed

lemma extract_body_Inr:
  assumes "extract_body resp cap errcap = Inr out" "0 < cap"
  shows "take 7 resp = ''HTTP/1.'' \<and> atoi (drop 9 resp) = 200 \<and> find_eoh resp \<noteq> None \<and> length out < cap"
  using assms dechunk_bound [of _ "[]" cap]
  by (auto simp: extract_body_def Let_def split: option.splits if_splits)

text \<open>
  A 200 response as the server formats it, with its length, is
  read by the client as exactly its body when it fits the caller's buffer and is refused
  otherwise (provided nothing in the headers spells \<open>chunked\<close>, which the client would take for
  the transfer coding).
\<close>

lemma https_body_roundtrip:
  assumes "clean_line text" and "clean_line ctype" and "ntc_slice_trim ctype = ctype" and "list_all clean_header hs"
    and "ntc_http_format_response_ex grant 200 text ctype (Some (concat (map render_header hs))) body = Inr resp"
    and "\<not> has_chunked resp (length resp - length body)"
  shows "extract_body resp cap errcap =
    (if length body < cap then Inr body else Inl (set_err errcap ''body too large''))"
proof -
  have hs: "\<forall>h \<in> set hs. clean_header h" using assms(4) by (simp add: list_all_iff)
  define head where "head = response_line 200 text @ CRLF @
    concat (map render_header (response_headers ctype (length body) hs)) @ CRLF"
  have r: "resp = head @ body" using format_response_Inr(1) [OF assms(1,2) hs assms(5)] by (simp add: head_def)
  have "\<not> has_chunked (head @ body) (length head)" using assms(6) by (simp add: r)
  then show ?thesis unfolding r
    using extract_body_head [OF assms(1) response_headers_clean [OF assms(2,3) hs], of "length body", folded head_def]
    by simp
qed

text \<open>
  A chunked response, its head as the gateway formats a
  stream and each chunk as it frames it, ended by the last chunk, is read back as the
  concatenation of the chunks, however they were cut, or refused when that does not fit.
\<close>

lemma https_chunked_roundtrip:
  assumes "clean_line text" and "clean_line ctype" and "ntc_slice_trim ctype = ctype" and "list_all clean_header hs"
    and "ntc_http_format_stream_head grant 200 text ctype False (Some (concat (map render_header hs))) = Inr head"
    and "list_all (\<lambda>d. d \<noteq> [] \<and> length d < 2 ^ 63) ds" and "0 < cap"
  shows "extract_body (head @ concat (map chunk_frame ds) @ last_chunk) cap errcap =
    (if length (concat ds) < cap then Inr (concat ds) else Inl (set_err errcap ''body too large''))"
proof -
  have hs: "\<forall>h \<in> set hs. clean_header h" using assms(4) by (simp add: list_all_iff)
  note h = format_stream_head_Inr [OF assms(1,2) hs assms(5)]
  let ?b = "concat (map chunk_frame ds) @ last_chunk"
  have "extract_body (head @ ?b) cap errcap =
    (if \<not> has_chunked (head @ ?b) (length head) then
       (if length ?b \<ge> cap then Inl (set_err errcap ''body too large'') else Inr ?b)
     else (case dechunk ?b [] cap of None \<Rightarrow> Inl (set_err errcap ''body too large'') | Some out \<Rightarrow> Inr out))"
    unfolding h using assms(1) stream_headers_clean [OF assms(2,3) hs] by (rule extract_body_head)
  moreover have "dechunk ?b [] cap = (if length (concat ds) < cap then Some (concat ds) else None)"
    using dechunk_stream [of ds "[]" cap] assms(6,7) by (simp add: list_all_iff)
  ultimately show ?thesis using stream_head_chunked [OF h, of ?b] by simp
qed


definition sample_https :: https_env where
  "sample_https = \<lparr>he_connect = (\<lambda>_ _ _. True), he_box = True, he_reset = (\<lambda>_ _. True),
     he_write = (\<lambda>_ _ _. True), he_flush = (\<lambda>_ _. True), he_buf = True,
     he_reads = (\<lambda>_. [''HTTP/1.1 200 OK'' @ CRLF @ CRLF, ''{}'']), he_error = 0\<rparr>"


end
