(* ===== verification/Middleware.thy ===== *)
theory Middleware
  imports Https_Client Jwt Router
begin

text \<open>
  The gateway's middleware chain (\<open>src/core/middleware.c\<close>): request ids, CORS, bearer
  authentication, rate limiting, and the key set with its refresh from a URL. The state is
  the record \<open>ntc_mw\<close>; the chain returns whether it answers the request itself, the result
  and the new state.

  The world is the record \<open>mw_env\<close>: clock readings, random bytes, files, trust anchors, the
  HTTPS exchange and the signature primitives. The token bucket computes with exact
  rationals where the C code uses \<open>double\<close>. A C string in an array is a list without NUL;
  \<open>long\<close> times are integers.
\<close>

definition NTC_RL_BUCKETS :: nat where "NTC_RL_BUCKETS = 1024"
definition NTC_JWKS_MIN_REFRESH_MS :: int where "NTC_JWKS_MIN_REFRESH_MS = 60000"
definition NTC_JWKS_FETCH_TIMEOUT_MS :: int where "NTC_JWKS_FETCH_TIMEOUT_MS = 4000"
definition EXTRA_CAP :: nat where "EXTRA_CAP = 512"

record ntc_mw_config =
  cf_request_id :: bool
  cf_access_log :: bool
  cf_cors_origin :: string
  cf_rate_per_sec :: int
  cf_rate_burst :: int
  cf_auth_mode :: string
  cf_auth_secret :: string
  cf_auth_protect :: string
  cf_auth_jwks_file :: string
  cf_auth_jwks_url :: string
  cf_auth_jwks_ca :: string

record ntc_bucket =
  bk_tokens :: rat
  bk_last_ms :: int

record ntc_mw =
  mw_cfg :: ntc_mw_config
  mw_jwks :: ntc_jwks
  mw_jwks_ca :: "ntc_ca option"
  mw_jwks_last_fetch_ms :: int
  mw_buckets :: "ntc_bucket list"

record ntc_mw_result =
  mr_short_circuit :: bool
  mr_status :: int
  mr_content_type :: ntc_slice
  mr_body :: ntc_slice
  mr_extra_headers :: string
  mr_request_id :: string
  mr_auth_sub :: string
  mr_auth_scope :: string

record mw_env =
  me_jwt :: jwt_env
  me_https :: https_env
  me_mono_ms :: int                     \<comment> \<open>\<open>mono_ms()\<close> read by \<open>mw_maybe_refresh\<close>\<close>
  me_fetch_ms :: int                    \<comment> \<open>\<open>mono_ms()\<close> read by \<open>mw_fetch_jwks\<close>\<close>
  me_time :: int                        \<comment> \<open>\<open>time(NULL)\<close>\<close>
  me_random :: "byte list option"       \<comment> \<open>eight bytes of \<open>/dev/urandom\<close>\<close>
  me_alloc :: bool                      \<comment> \<open>\<open>malloc\<close> and \<open>calloc\<close> succeed\<close>
  me_file :: "string \<Rightarrow> string option"   \<comment> \<open>contents of a readable file\<close>
  me_ca_load :: "string \<Rightarrow> ntc_ca option" \<comment> \<open>\<open>ntc_ca_load_pem\<close>\<close>
  me_ca_default :: "ntc_ca option"      \<comment> \<open>\<open>ntc_ca_default\<close>\<close>

subsection \<open>Key set\<close>

text \<open>\<open>fread\<close> of \<open>cap - 1\<close> bytes only meets the end of the file when it is shorter.\<close>

definition slurp_file :: "mw_env \<Rightarrow> string \<Rightarrow> nat \<Rightarrow> string option" where
  "slurp_file env path cap =
     (case me_file env path of
        None \<Rightarrow> None
      | Some s \<Rightarrow> if length s \<ge> cap - 1 then None else Some s)"

definition mw_fetch_jwks :: "mw_env \<Rightarrow> ntc_mw \<Rightarrow> bool \<times> ntc_mw" where
  "mw_fetch_jwks env m =
     (if cf_auth_jwks_url (mw_cfg m) = [] \<or> mw_jwks_ca m = None then (False, m)
      else
        let m1 = m\<lparr>mw_jwks_last_fetch_ms := me_fetch_ms env\<rparr>
        in if \<not> me_alloc env then (False, m1)
           else
             case ntc_https_get (me_https env) (mw_jwks_ca m) (cf_auth_jwks_url (mw_cfg m)) (64 * 1024)
                    NTC_JWKS_FETCH_TIMEOUT_MS 80 of
               Inl _ \<Rightarrow> (False, m1)
             | Inr doc \<Rightarrow>
                 if doc = [] then (False, m1)
                 else
                   let fresh = ntc_jwks_parse (me_jwt env) doc
                   in if fresh \<noteq> [] then (True, m1\<lparr>mw_jwks := fresh\<rparr>) else (False, m1))"

definition mw_maybe_refresh :: "mw_env \<Rightarrow> ntc_mw \<Rightarrow> ntc_mw" where
  "mw_maybe_refresh env m =
     (if cf_auth_jwks_url (mw_cfg m) = [] \<or> mw_jwks_ca m = None then m
      else if mw_jwks_last_fetch_ms m \<noteq> 0 \<and>
              me_mono_ms env - mw_jwks_last_fetch_ms m < NTC_JWKS_MIN_REFRESH_MS then m
      else snd (mw_fetch_jwks env m))"

definition ntc_mw_new :: "mw_env \<Rightarrow> ntc_mw_config \<Rightarrow> ntc_mw option" where
  "ntc_mw_new env cfg =
     (if \<not> me_alloc env then None
      else
        let m = \<lparr>mw_cfg = cfg, mw_jwks = [], mw_jwks_ca = None, mw_jwks_last_fetch_ms = 0,
                 mw_buckets = replicate NTC_RL_BUCKETS \<lparr>bk_tokens = 0, bk_last_ms = 0\<rparr>\<rparr>
        in if cf_auth_jwks_file cfg \<noteq> [] then
             (case slurp_file env (cf_auth_jwks_file cfg) 16384 of
                None \<Rightarrow> Some m
              | Some doc \<Rightarrow>
                  if doc = [] then Some m else Some (m\<lparr>mw_jwks := ntc_jwks_parse (me_jwt env) doc\<rparr>))
           else if cf_auth_jwks_url cfg \<noteq> [] then
             let m1 = m\<lparr>mw_jwks_ca := (if cf_auth_jwks_ca cfg \<noteq> [] then me_ca_load env (cf_auth_jwks_ca cfg)
                                     else me_ca_default env)\<rparr>
             in Some (snd (mw_fetch_jwks env m1))
           else Some m)"

subsection \<open>Rate limiting\<close>

definition ntc_bucket_allow :: "ntc_bucket \<Rightarrow> int \<Rightarrow> rat \<Rightarrow> rat \<Rightarrow> bool \<times> ntc_bucket" where
  "ntc_bucket_allow b now rate burst =
     (let b1 = (if bk_last_ms b = 0 then b\<lparr>bk_tokens := burst, bk_last_ms := now\<rparr> else b);
          elapsed = rat_of_int (now - bk_last_ms b1) / 1000;
          b2 = (if elapsed > 0
                then let t = bk_tokens b1 + elapsed * rate
                     in b1\<lparr>bk_tokens := (if t > burst then burst else t), bk_last_ms := now\<rparr>
                else b1)
      in if bk_tokens b2 \<ge> 1 then (True, b2\<lparr>bk_tokens := bk_tokens b2 - 1\<rparr>) else (False, b2))"

definition hash_str :: "string \<Rightarrow> u32" where
  "hash_str s = foldl (\<lambda>h c. (h XOR ucast (byte_of_char c)) * 16777619) 2166136261 (cstr s)"

definition rl_index :: "string \<Rightarrow> nat" where
  "rl_index ip = unat (hash_str ip) mod NTC_RL_BUCKETS"

subsection \<open>The chain\<close>

definition gen_request_id :: "mw_env \<Rightarrow> nat \<Rightarrow> string" where
  "gen_request_id env cap =
     (case me_random env of
        Some b \<Rightarrow> concat (map (\<lambda>i. if 2 * i + 2 < cap then fmt_02x (b ! i) else []) [0..<8])
      | None \<Rightarrow> snprintf cap ''req-0000000000000000'')"

text \<open>\<open>off += snprintf(eh + off, cap - off, ...)\<close> on the header buffer and \<open>off\<close>.\<close>

definition eh_put :: "string \<Rightarrow> string \<times> nat \<Rightarrow> string \<times> nat" where
  "eh_put s ehoff = (case ehoff of (eh, off) \<Rightarrow> (take off eh @ snprintf (EXTRA_CAP - off) s, off + length s))"

definition cors_headers :: "string \<Rightarrow> string" where
  "cors_headers origin =
     ''Access-Control-Allow-Origin: '' @ origin @ CRLF @
     ''Access-Control-Allow-Methods: GET,POST,PUT,PATCH,DELETE,OPTIONS'' @ CRLF @
     ''Access-Control-Allow-Headers: Authorization,Content-Type'' @ CRLF"

definition zero_mw_result :: ntc_mw_result where
  "zero_mw_result = \<lparr>mr_short_circuit = False, mr_status = 0, mr_content_type = [], mr_body = [],
     mr_extra_headers = [], mr_request_id = [], mr_auth_sub = [], mr_auth_scope = []\<rparr>"

definition mw_answer :: "ntc_mw_result \<Rightarrow> int \<Rightarrow> string \<Rightarrow> string \<Rightarrow> ntc_mw_result" where
  "mw_answer r status ctype body =
     r\<lparr>mr_short_circuit := True, mr_status := status, mr_content_type := ctype, mr_body := body\<rparr>"

text \<open>The request id and CORS headers.\<close>

definition mw_headers :: "mw_env \<Rightarrow> ntc_mw_config \<Rightarrow> ntc_mw_result" where
  "mw_headers env cfg =
     (let rid = (if cf_request_id cfg then gen_request_id env 40 else []);
          eh1 = (if cf_request_id cfg then eh_put (''X-Request-Id: '' @ rid @ CRLF) ([], 0) else ([], 0));
          eh2 = (if cf_cors_origin cfg \<noteq> [] then eh_put (cors_headers (cf_cors_origin cfg)) eh1 else eh1)
      in zero_mw_result\<lparr>mr_request_id := rid, mr_extra_headers := fst eh2\<rparr>)"

text \<open>The JWT branch: the algorithm the token names selects the secret or the key set.\<close>

definition mw_jwt :: "mw_env \<Rightarrow> ntc_mw \<Rightarrow> string \<Rightarrow> ntc_jwt_claims option \<times> ntc_mw" where
  "mw_jwt env m tok =
     (case ntc_jwt_peek_header (me_jwt env) tok 16 80 of
        None \<Rightarrow> (None, m)
      | Some (alg, kid) \<Rightarrow>
          if alg = ''RS256'' \<or> alg = ''ES256'' then
            let m1 = (if cf_auth_jwks_url (mw_cfg m) \<noteq> [] \<and> ntc_jwks_find (mw_jwks m) kid alg = None
                      then mw_maybe_refresh env m else m)
            in (if mw_jwks m1 \<noteq> [] then ntc_jwt_verify_jwks (me_jwt env) tok (mw_jwks m1) (me_time env) else None, m1)
          else if alg = ''HS256'' \<and> cf_auth_secret (mw_cfg m) \<noteq> []
          then (ntc_jwt_verify_hs256 (me_jwt env) tok (cf_auth_secret (mw_cfg m)) (me_time env), m)
          else (None, m))"

text \<open>The credential check of a protected path: the identity when it passes.\<close>

definition mw_auth :: "mw_env \<Rightarrow> ntc_mw \<Rightarrow> ntc_request \<Rightarrow> (string \<times> string) option \<times> ntc_mw" where
  "mw_auth env m req =
     (let a = ntc_http_header req ''authorization''
      in if length a > 7 \<and> take 7 a = ''Bearer '' then
           let tok = drop 7 a
           in if cf_auth_mode (mw_cfg m) = ''apikey'' then
                let sl = length (cf_auth_secret (mw_cfg m))
                in (if length tok = sl \<and> ntc_ct_eq (bytes_of tok) (bytes_of (cf_auth_secret (mw_cfg m))) sl
                    then Some ([], []) else None, m)
              else if cf_auth_mode (mw_cfg m) = ''jwt'' then
                (case mw_jwt env m tok of
                   (Some cl, m1) \<Rightarrow> (Some (snprintf 128 (cl_sub cl), snprintf 256 (cl_scope cl)), m1)
                 | (None, m1) \<Rightarrow> (None, m1))
              else (None, m)
         else (None, m))"

definition mw_protected :: "ntc_mw_config \<Rightarrow> ntc_request \<Rightarrow> bool" where
  "mw_protected cfg req \<longleftrightarrow>
     cf_auth_protect cfg = [] \<or> ntc_slice_starts_with (rq_path req) (ntc_slice_cstr (cf_auth_protect cfg))"

definition mw_rate :: "ntc_mw \<Rightarrow> string \<Rightarrow> int \<Rightarrow> bool \<times> ntc_mw" where
  "mw_rate m ip now =
     (let idx = rl_index ip;
          rate = cf_rate_per_sec (mw_cfg m);
          burst = (if cf_rate_burst (mw_cfg m) > 0 then cf_rate_burst (mw_cfg m) else rate)
      in case ntc_bucket_allow (mw_buckets m ! idx) now (rat_of_int rate) (rat_of_int burst) of
           (ok, b) \<Rightarrow> (ok, m\<lparr>mw_buckets := (mw_buckets m)[idx := b]\<rparr>))"

definition ntc_mw_before ::
  "mw_env \<Rightarrow> ntc_mw \<Rightarrow> ntc_request \<Rightarrow> string \<Rightarrow> int \<Rightarrow> bool \<Rightarrow> bool \<times> ntc_mw_result \<times> ntc_mw" where
  "ntc_mw_before env m req ip now pre_authed =
     (let cfg = mw_cfg m; r = mw_headers env cfg
      in if cf_cors_origin cfg \<noteq> [] \<and> ntc_slice_eq_cstr (rq_method req) ''OPTIONS''
         then (True, mw_answer r 204 ''text/plain'' [], m)
         else
           let check = (if cf_auth_mode cfg \<noteq> [] \<and> cf_auth_mode cfg \<noteq> ''none'' \<and> \<not> pre_authed \<and> mw_protected cfg req
                        then mw_auth env m req else (Some ([], []), m))
           in case check of
                (None, m1) \<Rightarrow>
                  (True, mw_answer r 401 ''application/json'' (json_error ''unauthorized''), m1)
              | (Some (sub, scope), m1) \<Rightarrow>
                  let r1 = r\<lparr>mr_auth_sub := sub, mr_auth_scope := scope\<rparr>
                  in if cf_rate_per_sec cfg > 0
                     then (case mw_rate m1 ip now of
                             (True, m2) \<Rightarrow> (False, r1, m2)
                           | (False, m2) \<Rightarrow>
                               (True, mw_answer r1 429 ''application/json'' (json_error ''rate limited''), m2))
                     else (False, r1, m1))"

text \<open>The access-log line, when there is one.\<close>

definition ntc_mw_after :: "ntc_mw \<Rightarrow> string \<Rightarrow> string \<Rightarrow> string \<Rightarrow> int \<Rightarrow> int \<Rightarrow> string option" where
  "ntc_mw_after m meth path rid status duration =
     (if \<not> cf_access_log (mw_cfg m) then None
      else Some (meth @ '' '' @ path @ '' -> '' @ fmt_int status @ '' ('' @ fmt_int duration @ ''ms) rid='' @
                 (if rid \<noteq> [] then rid else ''-'')))"

subsection \<open>Reference notions\<close>

text \<open>
  A bucket as the limiter keeps it: unused, or last touched at a positive time with at most
  a burst of tokens. \<open>refilled\<close> is what it holds at a later time, clamped to the burst.
\<close>

definition bucket_ok :: "rat \<Rightarrow> int \<Rightarrow> ntc_bucket \<Rightarrow> bool" where
  "bucket_ok burst t b \<longleftrightarrow>
     bk_last_ms b = 0 \<or> (0 < bk_last_ms b \<and> bk_last_ms b \<le> t \<and> 0 \<le> bk_tokens b \<and> bk_tokens b \<le> burst)"

definition refilled :: "rat \<Rightarrow> rat \<Rightarrow> ntc_bucket \<Rightarrow> int \<Rightarrow> rat" where
  "refilled rate burst b t =
     (if bk_last_ms b = 0 then burst
      else min burst (bk_tokens b + rate * rat_of_int (t - bk_last_ms b) / 1000))"

definition mw_burst :: "ntc_mw \<Rightarrow> rat" where
  "mw_burst m = rat_of_int (if cf_rate_burst (mw_cfg m) > 0 then cf_rate_burst (mw_cfg m) else cf_rate_per_sec (mw_cfg m))"

definition mw_rate_of :: "ntc_mw \<Rightarrow> rat" where
  "mw_rate_of m = rat_of_int (cf_rate_per_sec (mw_cfg m))"

definition mw_ok :: "ntc_mw \<Rightarrow> int \<Rightarrow> bool" where
  "mw_ok m t \<longleftrightarrow> length (mw_buckets m) = NTC_RL_BUCKETS \<and> list_all (bucket_ok (mw_burst m) t) (mw_buckets m)"

text \<open>A sequence of requests through the chain, and how many of those of one bucket it lets pass.\<close>

type_synonym mw_call = "mw_env \<times> ntc_request \<times> string \<times> int \<times> bool"

definition call_ms :: "mw_call \<Rightarrow> int" where
  "call_ms c = (case c of (env, req, ip, now, pre) \<Rightarrow> now)"

fun admitted :: "nat \<Rightarrow> ntc_mw \<Rightarrow> mw_call list \<Rightarrow> nat" where
  "admitted i m [] = 0"
| "admitted i m ((env, req, ip, now, pre) # cs) =
     (case ntc_mw_before env m req ip now pre of
        (sc, r, m') \<Rightarrow> (if \<not> sc \<and> rl_index ip = i then 1 else 0) + admitted i m' cs)"

subsection \<open>Lemmas: what the chain leaves alone\<close>

lemma mw_fetch_frame [simp]:
  "mw_cfg (snd (mw_fetch_jwks env m)) = mw_cfg m" "mw_buckets (snd (mw_fetch_jwks env m)) = mw_buckets m"
  "mw_jwks_ca (snd (mw_fetch_jwks env m)) = mw_jwks_ca m"
  by (auto simp: mw_fetch_jwks_def Let_def split: sum.splits)

lemma mw_refresh_frame [simp]:
  "mw_cfg (mw_maybe_refresh env m) = mw_cfg m" "mw_buckets (mw_maybe_refresh env m) = mw_buckets m"
  "mw_jwks_ca (mw_maybe_refresh env m) = mw_jwks_ca m"
  by (auto simp: mw_maybe_refresh_def)

lemma mw_jwt_frame:
  "mw_jwt env m tok = (c, m') \<Longrightarrow> mw_cfg m' = mw_cfg m \<and> mw_buckets m' = mw_buckets m"
  by (auto simp: mw_jwt_def Let_def split: option.splits prod.splits if_splits)

lemma mw_auth_frame:
  "mw_auth env m req = (c, m') \<Longrightarrow> mw_cfg m' = mw_cfg m \<and> mw_buckets m' = mw_buckets m"
  by (auto simp: mw_auth_def Let_def dest!: mw_jwt_frame split: if_splits prod.splits option.splits)

lemma mw_rate_frame: "mw_rate m ip now = (ok, m') \<Longrightarrow>
    mw_cfg m' = mw_cfg m \<and> mw_jwks m' = mw_jwks m \<and> mw_jwks_last_fetch_ms m' = mw_jwks_last_fetch_ms m"
  by (auto simp: mw_rate_def Let_def split: prod.splits)

text \<open>When a credential is required, the check of it, and the ways a call can go.\<close>

definition auth_required :: "ntc_mw_config \<Rightarrow> ntc_request \<Rightarrow> bool \<Rightarrow> bool" where
  "auth_required cfg req pre \<longleftrightarrow>
     cf_auth_mode cfg \<noteq> [] \<and> cf_auth_mode cfg \<noteq> ''none'' \<and> \<not> pre \<and> mw_protected cfg req"

definition mw_check :: "mw_env \<Rightarrow> ntc_mw \<Rightarrow> ntc_request \<Rightarrow> bool \<Rightarrow> (string \<times> string) option \<times> ntc_mw" where
  "mw_check env m req pre = (if auth_required (mw_cfg m) req pre then mw_auth env m req else (Some ([], []), m))"

lemma mw_before_cases:
  assumes "ntc_mw_before env m req ip now pre = (sc, r, m')"
  obtains (preflight) "sc" "m' = m"
    | (refused) "sc" "mw_check env m req pre = (None, m')"
    | (unlimited) "\<not> sc" "mw_check env m req pre = (Some (mr_auth_sub r, mr_auth_scope r), m')" "cf_rate_per_sec (mw_cfg m) \<le> 0"
    | (limited) m1 where "mw_check env m req pre = (Some (mr_auth_sub r, mr_auth_scope r), m1)" "mw_rate m1 ip now = (\<not> sc, m')"
        "cf_rate_per_sec (mw_cfg m) > 0"
proof -
  obtain c m1 where c: "mw_check env m req pre = (c, m1)" by fastforce
  obtain ok m2 where k: "mw_rate m1 ip now = (ok, m2)" by fastforce
  note d = assms [unfolded ntc_mw_before_def Let_def auth_required_def [symmetric],
    folded mw_check_def, unfolded c]
  show ?thesis
  proof (cases c)
    case None
    then show ?thesis using d c preflight refused by (auto split: if_splits)
  next
    case (Some who)
    then show ?thesis using d c k preflight unlimited limited [of m1]
      by (cases who; cases ok) (auto simp: mw_answer_def split: if_splits)
  qed
qed

lemma mw_check_frame: "mw_check env m req pre = (c, m') \<Longrightarrow> mw_cfg m' = mw_cfg m \<and> mw_buckets m' = mw_buckets m"
  by (auto simp: mw_check_def dest: mw_auth_frame split: if_splits)

text \<open>One call either stops before the limiter or makes one draw from the caller's bucket.\<close>

lemma mw_before_buckets:
  assumes "ntc_mw_before env m req ip now pre = (sc, r, m')" and "cf_rate_per_sec (mw_cfg m) > 0"
  shows "mw_cfg m' = mw_cfg m \<and>
    (mw_buckets m' = mw_buckets m \<and> sc \<or>
     (\<exists>ok b. ntc_bucket_allow (mw_buckets m ! rl_index ip) now (mw_rate_of m) (mw_burst m) = (ok, b) \<and>
        mw_buckets m' = (mw_buckets m)[rl_index ip := b] \<and> sc = (\<not> ok)))"
  using assms(1)
proof (cases rule: mw_before_cases)
  case (limited m1)
  have m1: "mw_cfg m1 = mw_cfg m" "mw_buckets m1 = mw_buckets m" using mw_check_frame [OF limited(1)] by simp_all
  obtain ok b where b: "ntc_bucket_allow (mw_buckets m ! rl_index ip) now (mw_rate_of m) (mw_burst m) = (ok, b)"
    by fastforce
  then have "mw_rate m1 ip now = (ok, m1\<lparr>mw_buckets := (mw_buckets m)[rl_index ip := b]\<rparr>)"
    by (auto simp: mw_rate_def Let_def m1 mw_rate_of_def mw_burst_def split: if_splits)
  then show ?thesis using limited(2) m1 b by auto
qed (use assms(2) mw_check_frame in auto)

subsection \<open>Lemmas: the token bucket\<close>

lemma bucket_allow_step:
  assumes "ntc_bucket_allow b now rate burst = (ok, b')" "bucket_ok burst now b" "0 < now" "0 \<le> rate" "0 \<le> burst"
  shows "bucket_ok burst now b'" and "bk_last_ms b' = now"
    and "bk_tokens b' = refilled rate burst b now - (if ok then 1 else 0)"
proof -
  have e: "0 < rat_of_int (now - bk_last_ms b) / 1000 \<longleftrightarrow> bk_last_ms b < now" by simp
  have "bk_last_ms b' = now \<and> bk_tokens b' = refilled rate burst b now - (if ok then 1 else 0) \<and>
      0 \<le> bk_tokens b' \<and> bk_tokens b' \<le> burst"
  proof (cases "bk_last_ms b = 0")
    case True
    then show ?thesis using assms by (auto simp: ntc_bucket_allow_def Let_def refilled_def split: if_splits)
  next
    case False
    then have b: "0 < bk_last_ms b" "bk_last_ms b \<le> now" "0 \<le> bk_tokens b" "bk_tokens b \<le> burst"
      using assms(2) by (auto simp: bucket_ok_def)
    then have g: "0 \<le> rate * rat_of_int (now - bk_last_ms b) / 1000" using assms(4) by simp
    show ?thesis
    proof (cases "bk_last_ms b = now")
      case True
      then show ?thesis using assms(1,3) b
        by (auto simp: ntc_bucket_allow_def Let_def refilled_def split: if_splits)
    next
      case n: False
      then have "bk_last_ms b < now" using b by simp
      then show ?thesis using assms(1,5) False b g
        unfolding ntc_bucket_allow_def Let_def
        by (auto simp: e refilled_def min_def mult.commute split: if_splits)
    qed
  qed
  then show "bucket_ok burst now b'" "bk_last_ms b' = now"
    "bk_tokens b' = refilled rate burst b now - (if ok then 1 else 0)"
    using assms(3) by (auto simp: bucket_ok_def)
qed

lemma refilled_later:
  assumes "t \<le> t'" "0 \<le> rate" "bucket_ok burst t b"
  shows "refilled rate burst b t' \<le> refilled rate burst b t + rate * rat_of_int (t' - t) / 1000"
proof -
  define x where "x = rate * rat_of_int (t - bk_last_ms b) / 1000"
  define y where "y = rate * rat_of_int (t' - t) / 1000"
  define z where "z = rate * rat_of_int (t' - bk_last_ms b) / 1000"
  have "0 \<le> y" using assms by (simp add: y_def)
  moreover have "z = x + y" by (simp add: field_simps x_def y_def z_def)
  ultimately show ?thesis unfolding refilled_def x_def [symmetric] y_def [symmetric] z_def [symmetric] by (auto simp: min_def)
qed

lemma bucket_ok_later: "bucket_ok burst t b \<Longrightarrow> t \<le> t' \<Longrightarrow> bucket_ok burst t' b"
  by (auto simp: bucket_ok_def)

lemma mw_ok_later: "mw_ok m t \<Longrightarrow> t \<le> t' \<Longrightarrow> mw_ok m t'"
  using bucket_ok_later by (auto simp: mw_ok_def list_all_iff)

lemma rl_index_less: "rl_index ip < NTC_RL_BUCKETS"
  by (simp add: rl_index_def NTC_RL_BUCKETS_def)

text \<open>What one call lets pass is paid for out of the bucket.\<close>

lemma mw_before_draw:
  assumes "ntc_mw_before env m req ip now pre = (sc, r, m')" "cf_rate_per_sec (mw_cfg m) > 0" "mw_ok m now" "0 < now"
    "i < NTC_RL_BUCKETS"
  shows "mw_ok m' now" and "mw_cfg m' = mw_cfg m"
    and "(if \<not> sc \<and> rl_index ip = i then 1 else 0) + refilled (mw_rate_of m) (mw_burst m) (mw_buckets m' ! i) now \<le>
           refilled (mw_rate_of m) (mw_burst m) (mw_buckets m ! i) now"
proof -
  let ?r = "mw_rate_of m" and ?B = "mw_burst m"
  note d = mw_before_buckets [OF assms(1,2)]
  then show cfg: "mw_cfg m' = mw_cfg m" by simp
  have nn: "0 \<le> ?r" "0 \<le> ?B" using assms(2) by (auto simp: mw_rate_of_def mw_burst_def)
  have len: "length (mw_buckets m) = NTC_RL_BUCKETS" "\<forall>b \<in> set (mw_buckets m). bucket_ok ?B now b"
    using assms(3) by (auto simp: mw_ok_def list_all_iff)
  have B: "mw_burst m' = ?B" using cfg by (simp add: mw_burst_def)
  show "mw_ok m' now" "(if \<not> sc \<and> rl_index ip = i then 1 else 0) + refilled ?r ?B (mw_buckets m' ! i) now \<le>
           refilled ?r ?B (mw_buckets m ! i) now"
  proof -
    consider (same) "mw_buckets m' = mw_buckets m" "sc"
      | (draw) ok b where "ntc_bucket_allow (mw_buckets m ! rl_index ip) now ?r ?B = (ok, b)"
          "mw_buckets m' = (mw_buckets m)[rl_index ip := b]" "sc = (\<not> ok)"
      using d by blast
    then have "mw_ok m' now \<and> (if \<not> sc \<and> rl_index ip = i then 1 else 0) + refilled ?r ?B (mw_buckets m' ! i) now \<le>
           refilled ?r ?B (mw_buckets m ! i) now"
    proof cases
      case same
      then show ?thesis using len B by (simp add: mw_ok_def list_all_iff)
    next
      case draw
      have ok: "bucket_ok ?B now (mw_buckets m ! rl_index ip)" using len rl_index_less [of ip] by simp
      note s = bucket_allow_step [OF draw(1) ok assms(4) nn]
      have "mw_ok m' now" using len B draw(2) s(1)
        by (auto simp: mw_ok_def list_all_iff dest: set_update_subset_insert [THEN subsetD])
      moreover have "refilled ?r ?B b now \<le> bk_tokens b" using s(2) assms(4) by (simp add: refilled_def)
      ultimately show ?thesis using draw(2,3) s(3) len(1) assms(5) rl_index_less [of ip]
        by (auto simp: nth_list_update)
    qed
    then show "mw_ok m' now" "(if \<not> sc \<and> rl_index ip = i then 1 else 0) + refilled ?r ?B (mw_buckets m' ! i) now \<le>
           refilled ?r ?B (mw_buckets m ! i) now" by simp_all
  qed
qed

lemma admitted_le:
  assumes "sorted (map call_ms cs)" "\<forall>c \<in> set cs. t \<le> call_ms c \<and> call_ms c \<le> t1" "t \<le> t1"
    "cf_rate_per_sec (mw_cfg m) > 0" "mw_ok m t" "0 < t" "i < NTC_RL_BUCKETS"
  shows "rat_of_nat (admitted i m cs) \<le>
    refilled (mw_rate_of m) (mw_burst m) (mw_buckets m ! i) t + mw_rate_of m * rat_of_int (t1 - t) / 1000"
  using assms
proof (induction cs arbitrary: m t)
  case Nil
  have b: "bucket_ok (mw_burst m) t (mw_buckets m ! i)" using Nil by (simp add: mw_ok_def list_all_length)
  have r: "0 \<le> mw_rate_of m" "0 \<le> mw_burst m" using Nil by (auto simp: mw_rate_of_def mw_burst_def)
  have "0 \<le> refilled (mw_rate_of m) (mw_burst m) (mw_buckets m ! i) t"
    using b r by (auto simp: refilled_def bucket_ok_def)
  moreover have "0 \<le> mw_rate_of m * rat_of_int (t1 - t) / 1000" using r(1) Nil.prems(3) by simp
  ultimately show ?case by simp
next
  case (Cons c cs)
  obtain env req ip now pre where c: "c = (env, req, ip, now, pre)" by (cases c)
  obtain sc r m' where s: "ntc_mw_before env m req ip now pre = (sc, r, m')" by (cases "ntc_mw_before env m req ip now pre")
  have now: "t \<le> now" "now \<le> t1" "0 < now" using Cons.prems(2,6) by (auto simp: c call_ms_def)
  have okn: "mw_ok m now" using Cons.prems(5) now(1) by (rule mw_ok_later)
  note d = mw_before_draw [OF s Cons.prems(4) okn now(3) Cons.prems(7)]
  have bt: "bucket_ok (mw_burst m) t (mw_buckets m ! i)"
    using Cons.prems(5,7) by (simp add: mw_ok_def list_all_length)
  have eq: "mw_rate_of m' = mw_rate_of m" "mw_burst m' = mw_burst m" using d(2) by (simp_all add: mw_rate_of_def mw_burst_def)
  define x y z where "x = mw_rate_of m * rat_of_int (t1 - now) / 1000"
    and "y = mw_rate_of m * rat_of_int (now - t) / 1000" and "z = mw_rate_of m * rat_of_int (t1 - t) / 1000"
  have xyz: "x + y = z" by (simp add: field_simps x_def y_def z_def)
  have "rat_of_nat (admitted i m' cs) \<le>
    refilled (mw_rate_of m') (mw_burst m') (mw_buckets m' ! i) now + mw_rate_of m' * rat_of_int (t1 - now) / 1000"
    using Cons.prems now d by (intro Cons.IH) (auto simp: c call_ms_def)
  then have "rat_of_nat (admitted i m' cs) \<le> refilled (mw_rate_of m) (mw_burst m) (mw_buckets m' ! i) now + x"
    by (simp only: eq x_def)
  moreover have "refilled (mw_rate_of m) (mw_burst m) (mw_buckets m ! i) now \<le>
      refilled (mw_rate_of m) (mw_burst m) (mw_buckets m ! i) t + y"
    unfolding y_def using now(1) _ bt by (rule refilled_later) (use Cons.prems(4) in \<open>simp add: mw_rate_of_def\<close>)
  ultimately show ?case using d(3) xyz unfolding z_def [symmetric] by (auto simp: c s split: if_splits)
qed

subsection \<open>Lemmas: authentication, headers and refresh\<close>

text \<open>A bearer token that proves an identity under the configuration and the current key set.\<close>

definition bearer_proves :: "mw_env \<Rightarrow> ntc_mw \<Rightarrow> string \<Rightarrow> string \<times> string \<Rightarrow> bool" where
  "bearer_proves env m tok who \<longleftrightarrow>
     (cf_auth_mode (mw_cfg m) = ''apikey'' \<and> tok = cf_auth_secret (mw_cfg m) \<and> who = ([], [])) \<or>
     (cf_auth_mode (mw_cfg m) = ''jwt'' \<and>
      (\<exists>cl. who = (snprintf 128 (cl_sub cl), snprintf 256 (cl_scope cl)) \<and>
        (cf_auth_secret (mw_cfg m) \<noteq> [] \<and>
           ntc_jwt_verify_hs256 (me_jwt env) tok (cf_auth_secret (mw_cfg m)) (me_time env) = Some cl \<or>
         mw_jwks m \<noteq> [] \<and> ntc_jwt_verify_jwks (me_jwt env) tok (mw_jwks m) (me_time env) = Some cl)))"

lemma ct_eq_bytes: "length s = length t \<Longrightarrow> ntc_ct_eq (bytes_of s) (bytes_of t) (length t) \<Longrightarrow> s = t"
  using ct_eq_iff [of "length t" "bytes_of s" "bytes_of t"] by simp

lemma mw_jwt_proves:
  assumes "mw_jwt env m tok = (Some cl, m')" "cf_auth_mode (mw_cfg m) = ''jwt''"
  shows "bearer_proves env m' tok (snprintf 128 (cl_sub cl), snprintf 256 (cl_scope cl))"
proof -
  have cfg: "mw_cfg m' = mw_cfg m" using mw_jwt_frame [OF assms(1)] by simp
  obtain alg kid where p: "ntc_jwt_peek_header (me_jwt env) tok 16 80 = Some (alg, kid)"
    using assms(1) by (auto simp: mw_jwt_def split: option.splits)
  note d = assms(1) [unfolded mw_jwt_def p option.case prod.case Let_def]
  have "cf_auth_secret (mw_cfg m) \<noteq> [] \<and> ntc_jwt_verify_hs256 (me_jwt env) tok (cf_auth_secret (mw_cfg m)) (me_time env) = Some cl \<or>
        mw_jwks m' \<noteq> [] \<and> ntc_jwt_verify_jwks (me_jwt env) tok (mw_jwks m') (me_time env) = Some cl"
  proof (cases "alg = ''RS256'' \<or> alg = ''ES256''")
    case True
    then show ?thesis using d by (auto split: if_splits)
  next
    case False
    then show ?thesis using d by (auto split: if_splits)
  qed
  then show ?thesis using assms(2) unfolding bearer_proves_def cfg by blast
qed

lemma mw_auth_proves:
  assumes "mw_auth env m req = (Some who, m')"
  shows "\<exists>tok. ntc_http_header req ''authorization'' = ''Bearer '' @ tok \<and> bearer_proves env m' tok who"
proof -
  let ?a = "ntc_http_header req ''authorization''"
  from assms have "take 7 ?a = ''Bearer ''" by (auto simp: mw_auth_def Let_def split: if_splits)
  then have a: "?a = ''Bearer '' @ drop 7 ?a" by (metis append_take_drop_id)
  from assms consider
      (key) "cf_auth_mode (mw_cfg m) = ''apikey''" "m' = m" "who = ([], [])" "length (drop 7 ?a) = length (cf_auth_secret (mw_cfg m))"
        "ntc_ct_eq (bytes_of (drop 7 ?a)) (bytes_of (cf_auth_secret (mw_cfg m))) (length (cf_auth_secret (mw_cfg m)))"
    | (jwt) cl where "cf_auth_mode (mw_cfg m) = ''jwt''" "mw_jwt env m (drop 7 ?a) = (Some cl, m')"
        "who = (snprintf 128 (cl_sub cl), snprintf 256 (cl_scope cl))"
    unfolding mw_auth_def Let_def by (auto split: if_splits prod.splits option.splits)
  then have "bearer_proves env m' (drop 7 ?a) who"
  proof cases
    case key
    then show ?thesis using ct_eq_bytes [OF key(4,5)] by (simp add: bearer_proves_def)
  next
    case jwt
    then show ?thesis using mw_jwt_proves by blast
  qed
  with a show ?thesis by blast
qed

lemma bearer_proves_cong:
  "mw_cfg m = mw_cfg m' \<Longrightarrow> mw_jwks m = mw_jwks m' \<Longrightarrow> bearer_proves env m tok who = bearer_proves env m' tok who"
  by (simp add: bearer_proves_def)

lemma mw_before_passes:
  assumes "ntc_mw_before env m req ip now pre = (False, r, m')" "auth_required (mw_cfg m) req pre"
  shows "\<exists>m1. mw_auth env m req = (Some (mr_auth_sub r, mr_auth_scope r), m1) \<and> mw_cfg m' = mw_cfg m1 \<and> mw_jwks m' = mw_jwks m1"
  using assms(1)
proof (cases rule: mw_before_cases)
  case (limited m1)
  then show ?thesis using assms(2) mw_rate_frame by (auto simp: mw_check_def)
qed (use assms(2) in \<open>auto simp: mw_check_def\<close>)

text \<open>The headers the chain adds, as a list of header lines.\<close>

definition mw_header_list :: "mw_env \<Rightarrow> ntc_mw_config \<Rightarrow> ntc_header list" where
  "mw_header_list env cfg =
     (if cf_request_id cfg then [\<lparr>hdr_name = ''X-Request-Id'', hdr_value = gen_request_id env 40\<rparr>] else []) @
     (if cf_cors_origin cfg \<noteq> [] then
        [\<lparr>hdr_name = ''Access-Control-Allow-Origin'', hdr_value = cf_cors_origin cfg\<rparr>,
         \<lparr>hdr_name = ''Access-Control-Allow-Methods'', hdr_value = ''GET,POST,PUT,PATCH,DELETE,OPTIONS''\<rparr>,
         \<lparr>hdr_name = ''Access-Control-Allow-Headers'', hdr_value = ''Authorization,Content-Type''\<rparr>] else [])"

lemma fmt_02x_clean: "c \<in> set (fmt_02x b) \<Longrightarrow> \<not> is_space c \<and> c \<noteq> CR \<and> c \<noteq> NUL"
proof -
  have "\<forall>d \<in> set [0..<16]. \<not> is_space (hex_digit d) \<and> hex_digit d \<noteq> CR \<and> hex_digit d \<noteq> NUL" by code_simp
  then have d: "d < 16 \<Longrightarrow> \<not> is_space (hex_digit d) \<and> hex_digit d \<noteq> CR \<and> hex_digit d \<noteq> NUL" for d by simp
  have "unat b div 16 < 16" using unat_byte_less [of b] by (simp add: less_mult_imp_div_less)
  moreover assume "c \<in> set (fmt_02x b)"
  ultimately show ?thesis using d [of "unat b div 16"] d [of "unat b mod 16"] by (auto simp: fmt_02x_def)
qed

lemma gen_request_id_eq:
  "gen_request_id env 40 = (case me_random env of Some b \<Rightarrow> concat (map (\<lambda>i. fmt_02x (b ! i)) [0..<8])
     | None \<Rightarrow> ''req-0000000000000000'')"
  by (auto simp: gen_request_id_def snprintf_def intro!: arg_cong [of _ _ concat] split: option.splits)

lemma gen_request_id_ok:
  "length (gen_request_id env 40) \<le> 20" "clean_line (gen_request_id env 40)"
  "ntc_slice_trim (gen_request_id env 40) = gen_request_id env 40"
proof -
  have c: "\<forall>c \<in> set (gen_request_id env 40). \<not> is_space c \<and> c \<noteq> CR \<and> c \<noteq> NUL"
    using fmt_02x_clean by (cases "me_random env") (auto simp: gen_request_id_eq is_space_def)
  show "length (gen_request_id env 40) \<le> 20"
    by (cases "me_random env") (simp_all add: gen_request_id_eq length_concat comp_def sum_list_triv)
  from c show "clean_line (gen_request_id env 40)" by (auto simp: clean_line_def)
  from c show "ntc_slice_trim (gen_request_id env 40) = gen_request_id env 40"
    by (intro ntc_slice_trim_id) auto
qed

lemma cors_headers_render:
  "cors_headers origin = concat (map render_header
     [\<lparr>hdr_name = ''Access-Control-Allow-Origin'', hdr_value = origin\<rparr>,
      \<lparr>hdr_name = ''Access-Control-Allow-Methods'', hdr_value = ''GET,POST,PUT,PATCH,DELETE,OPTIONS''\<rparr>,
      \<lparr>hdr_name = ''Access-Control-Allow-Headers'', hdr_value = ''Authorization,Content-Type''\<rparr>])"
  by (simp add: cors_headers_def render_header_def)

lemma eh_put_fits: "length eh = off \<Longrightarrow> off + length s < EXTRA_CAP \<Longrightarrow> eh_put s (eh, off) = (eh @ s, off + length s)"
  by (simp add: eh_put_def)

lemma mw_headers_eq:
  assumes "length (cf_cors_origin cfg) < 128"
  shows "mr_extra_headers (mw_headers env cfg) = concat (map render_header (mw_header_list env cfg))"
    and "length (concat (map render_header (mw_header_list env cfg))) < 320"
proof -
  let ?x = "if cf_request_id cfg then render_header \<lparr>hdr_name = ''X-Request-Id'', hdr_value = gen_request_id env 40\<rparr> else []"
  let ?y = "if cf_cors_origin cfg \<noteq> [] then cors_headers (cf_cors_origin cfg) else []"
  have l: "length ?x \<le> 36" "length ?y < 284"
    using gen_request_id_ok(1) [of env] assms by (simp_all add: render_header_def cors_headers_def)
  have e: "(if cf_request_id cfg then eh_put (''X-Request-Id: '' @ gen_request_id env 40 @ CRLF) ([], 0) else ([], 0)) = (?x, length ?x)"
    using gen_request_id_ok(1) [of env] by (simp add: eh_put_fits render_header_def EXTRA_CAP_def)
  have "(if cf_cors_origin cfg \<noteq> [] then eh_put (cors_headers (cf_cors_origin cfg)) (?x, length ?x) else (?x, length ?x)) =
      (?x @ ?y, length ?x + length ?y)"
    using l by (auto simp: eh_put_fits EXTRA_CAP_def)
  moreover have xy: "?x @ ?y = concat (map render_header (mw_header_list env cfg))"
    by (simp add: mw_header_list_def cors_headers_render)
  ultimately show "mr_extra_headers (mw_headers env cfg) = concat (map render_header (mw_header_list env cfg))"
    unfolding mw_headers_def Let_def using e by (simp add: zero_mw_result_def split: if_splits)
  show "length (concat (map render_header (mw_header_list env cfg))) < 320" using l unfolding xy [symmetric] by simp
qed

lemma mw_header_list_clean:
  assumes "clean_line (cf_cors_origin cfg)" "ntc_slice_trim (cf_cors_origin cfg) = cf_cors_origin cfg"
  shows "list_all clean_header (mw_header_list env cfg)"
proof -
  have "is_token ''X-Request-Id''" "is_token ''Access-Control-Allow-Origin''" "is_token ''Access-Control-Allow-Methods''"
    "is_token ''Access-Control-Allow-Headers''"
    "clean_header \<lparr>hdr_name = ''Access-Control-Allow-Methods'', hdr_value = ''GET,POST,PUT,PATCH,DELETE,OPTIONS''\<rparr>"
    "clean_header \<lparr>hdr_name = ''Access-Control-Allow-Headers'', hdr_value = ''Authorization,Content-Type''\<rparr>"
    by code_simp+
  with assms gen_request_id_ok [of env] show ?thesis by (auto simp: mw_header_list_def clean_header_def)
qed

lemma mw_before_headers: "ntc_mw_before env m req ip now pre = (sc, r, m') \<Longrightarrow>
    mr_extra_headers r = mr_extra_headers (mw_headers env (mw_cfg m))"
  by (auto simp: ntc_mw_before_def Let_def mw_answer_def split: if_splits option.splits prod.splits bool.splits)

text \<open>The stamp of the last fetch moves only when a refresh is due.\<close>

definition stamp_step :: "mw_env \<Rightarrow> ntc_mw \<Rightarrow> ntc_mw \<Rightarrow> bool" where
  "stamp_step env m m' \<longleftrightarrow>
     mw_jwks_last_fetch_ms m' = mw_jwks_last_fetch_ms m \<or>
     (mw_jwks_last_fetch_ms m' = me_fetch_ms env \<and>
      (mw_jwks_last_fetch_ms m = 0 \<or> me_mono_ms env - mw_jwks_last_fetch_ms m \<ge> NTC_JWKS_MIN_REFRESH_MS))"

lemma mw_fetch_stamp: "mw_jwks_last_fetch_ms (snd (mw_fetch_jwks env m)) \<in> {mw_jwks_last_fetch_ms m, me_fetch_ms env}"
  by (auto simp: mw_fetch_jwks_def Let_def split: sum.splits)

lemma refresh_stamp: "stamp_step env m (mw_maybe_refresh env m)"
  using mw_fetch_stamp [of env m] by (auto simp: mw_maybe_refresh_def stamp_step_def)

lemma mw_before_stamp:
  assumes "ntc_mw_before env m req ip now pre = (sc, r, m')"
  shows "stamp_step env m m'"
proof -
  have j: "stamp_step env m m1" if "mw_jwt env m tok = (c, m1)" for tok c m1
    using that refresh_stamp [of env m]
    by (auto simp: mw_jwt_def Let_def stamp_step_def split: option.splits prod.splits if_splits)
  have a: "stamp_step env m m1" if "mw_auth env m req = (c, m1)" for c m1
    using that j unfolding mw_auth_def Let_def
    by (auto simp: stamp_step_def split: if_splits prod.splits option.splits)
  have c: "stamp_step env m m1" if "mw_check env m req pre = (c, m1)" for c m1
    using that a by (auto simp: mw_check_def stamp_step_def split: if_splits)
  from assms show ?thesis
  proof (cases rule: mw_before_cases)
    case (limited m1)
    then show ?thesis using c [OF limited(1)] mw_rate_frame [OF limited(2)] by (simp add: stamp_step_def)
  qed (use c in \<open>auto simp: stamp_step_def\<close>)
qed

fun fetch_times :: "ntc_mw \<Rightarrow> mw_call list \<Rightarrow> int list" where
  "fetch_times m [] = []"
| "fetch_times m ((env, req, ip, now, pre) # cs) =
     (case ntc_mw_before env m req ip now pre of
        (sc, r, m') \<Rightarrow>
          (if mw_jwks_last_fetch_ms m' \<noteq> mw_jwks_last_fetch_ms m then [mw_jwks_last_fetch_ms m'] else []) @
          fetch_times m' cs)"

text \<open>The monotonic clock over a sequence of calls: each call's readings follow those before it.\<close>

fun clock_ok :: "int \<Rightarrow> mw_call list \<Rightarrow> bool" where
  "clock_ok t [] = True"
| "clock_ok t ((env, req, ip, now, pre) # cs) =
     (t \<le> me_mono_ms env \<and> me_mono_ms env \<le> me_fetch_ms env \<and> clock_ok (me_fetch_ms env) cs)"

lemma fetch_times_spaced:
  assumes "clock_ok t cs" "0 < t" "mw_jwks_last_fetch_ms m = 0 \<or> 0 < mw_jwks_last_fetch_ms m"
  shows "sorted_wrt (\<lambda>a b. b - a \<ge> NTC_JWKS_MIN_REFRESH_MS) (fetch_times m cs) \<and>
    (mw_jwks_last_fetch_ms m \<noteq> 0 \<longrightarrow> (\<forall>f \<in> set (fetch_times m cs). f - mw_jwks_last_fetch_ms m \<ge> NTC_JWKS_MIN_REFRESH_MS))"
  using assms
proof (induction cs arbitrary: m t)
  case (Cons c cs)
  obtain env req ip now pre where c: "c = (env, req, ip, now, pre)" by (cases c)
  obtain sc r m' where s: "ntc_mw_before env m req ip now pre = (sc, r, m')" by (cases "ntc_mw_before env m req ip now pre")
  have clk: "t \<le> me_mono_ms env" "me_mono_ms env \<le> me_fetch_ms env" "clock_ok (me_fetch_ms env) cs"
    using Cons.prems(1) by (auto simp: c)
  have st: "stamp_step env m m'" using mw_before_stamp [OF s] .
  have pos: "mw_jwks_last_fetch_ms m' = 0 \<or> 0 < mw_jwks_last_fetch_ms m'"
    using st clk Cons.prems(2,3) by (auto simp: stamp_step_def)
  have IH: "sorted_wrt (\<lambda>a b. b - a \<ge> NTC_JWKS_MIN_REFRESH_MS) (fetch_times m' cs) \<and>
    (mw_jwks_last_fetch_ms m' \<noteq> 0 \<longrightarrow> (\<forall>f \<in> set (fetch_times m' cs). f - mw_jwks_last_fetch_ms m' \<ge> NTC_JWKS_MIN_REFRESH_MS))"
    using clk Cons.prems(2) pos by (intro Cons.IH [of "me_fetch_ms env"]) auto
  show ?case
  proof (cases "mw_jwks_last_fetch_ms m' = mw_jwks_last_fetch_ms m")
    case True
    then show ?thesis using IH by (simp add: c s)
  next
    case False
    then have n: "mw_jwks_last_fetch_ms m' = me_fetch_ms env" "mw_jwks_last_fetch_ms m' \<noteq> 0"
      "mw_jwks_last_fetch_ms m = 0 \<or> me_mono_ms env - mw_jwks_last_fetch_ms m \<ge> NTC_JWKS_MIN_REFRESH_MS"
      using st clk Cons.prems(2) by (auto simp: stamp_step_def)
    moreover have "f - mw_jwks_last_fetch_ms m \<ge> NTC_JWKS_MIN_REFRESH_MS"
      if "f \<in> set (fetch_times m' cs)" "mw_jwks_last_fetch_ms m \<noteq> 0" for f
    proof -
      have "f - mw_jwks_last_fetch_ms m' \<ge> NTC_JWKS_MIN_REFRESH_MS" using IH n(2) that(1) by blast
      moreover have "0 < NTC_JWKS_MIN_REFRESH_MS" by (simp add: NTC_JWKS_MIN_REFRESH_MS_def)
      ultimately show ?thesis using n that clk by auto
    qed
    ultimately show ?thesis using IH False clk by (auto simp: c s)
  qed
qed simp

subsection \<open>Properties\<close>

text \<open>
  C2 (\<open>auth_gate\<close>): when authentication is on and the path is protected, a request without
  a session gets past the chain only with a bearer token that is the API key, or a JWT that
  verifies under the shared secret or under the current key set; the identity passed on is
  the one in that token.
\<close>

theorem auth_gate:
  assumes "ntc_mw_before env m req ip now False = (False, r, m')"
    and "cf_auth_mode (mw_cfg m) \<notin> {[], ''none''}" and "mw_protected (mw_cfg m) req"
  shows "\<exists>tok. ntc_http_header req ''authorization'' = ''Bearer '' @ tok \<and>
     bearer_proves env m' tok (mr_auth_sub r, mr_auth_scope r)"
proof -
  have "auth_required (mw_cfg m) req False" using assms(2,3) by (simp add: auth_required_def)
  from mw_before_passes [OF assms(1) this] obtain m1 where
    m1: "mw_auth env m req = (Some (mr_auth_sub r, mr_auth_scope r), m1)" "mw_cfg m' = mw_cfg m1" "mw_jwks m' = mw_jwks m1"
    by blast
  from mw_auth_proves [OF m1(1)] bearer_proves_cong [OF m1(2,3)] show ?thesis by blast
qed

text \<open>
  C11 (\<open>rate_limit_window\<close>): in any window of time, whatever other requests come in between,
  the requests let through of all clients that share a bucket number at most the burst plus
  the rate times the length of the window.
\<close>

theorem rate_limit_window:
  assumes "mw_ok m t0" and "0 < t0" and "cf_rate_per_sec (mw_cfg m) > 0"
    and "sorted (map call_ms cs)" and "list_all (\<lambda>c. t0 \<le> call_ms c \<and> call_ms c \<le> t1) cs" and "t0 \<le> t1"
  shows "rat_of_nat (admitted (rl_index ip) m cs) \<le> mw_burst m + mw_rate_of m * rat_of_int (t1 - t0) / 1000"
proof -
  let ?b = "mw_buckets m ! rl_index ip"
  have "refilled (mw_rate_of m) (mw_burst m) ?b t0 \<le> mw_burst m" by (simp add: refilled_def)
  moreover have "rat_of_nat (admitted (rl_index ip) m cs) \<le>
      refilled (mw_rate_of m) (mw_burst m) ?b t0 + mw_rate_of m * rat_of_int (t1 - t0) / 1000"
    using assms rl_index_less by (intro admitted_le) (auto simp: list_all_iff)
  ultimately show ?thesis by linarith
qed

text \<open>
  The headers the chain adds to every response are never cut by
  their 512-byte buffer, whatever the configuration holds in its own arrays, and with a clean
  CORS origin they are well-formed header lines.
\<close>

lemma mw_extra_headers:
  assumes "ntc_mw_before env m req ip now pre = (sc, r, m')" and "length (cf_cors_origin (mw_cfg m)) < 128"
    and "clean_line (cf_cors_origin (mw_cfg m))"
    and "ntc_slice_trim (cf_cors_origin (mw_cfg m)) = cf_cors_origin (mw_cfg m)"
  shows "mr_extra_headers r = concat (map render_header (mw_header_list env (mw_cfg m))) \<and>
     length (mr_extra_headers r) < 320 \<and> list_all clean_header (mw_header_list env (mw_cfg m))"
  using mw_before_headers [OF assms(1)] mw_headers_eq [OF assms(2), of env] mw_header_list_clean [OF assms(3,4), of env]
  by simp

text \<open>
  However many tokens with unknown key ids arrive, live fetches
  of the key set are at least a minute apart.
\<close>

lemma jwks_refresh_spacing:
  assumes "clock_ok t cs" and "0 < t" and "0 \<le> mw_jwks_last_fetch_ms m"
  shows "sorted_wrt (\<lambda>a b. b - a \<ge> 60000) (fetch_times m cs)"
proof -
  have "mw_jwks_last_fetch_ms m = 0 \<or> 0 < mw_jwks_last_fetch_ms m" using assms(3) by linarith
  from fetch_times_spaced [OF assms(1,2) this] show ?thesis by (simp add: NTC_JWKS_MIN_REFRESH_MS_def)
qed

text \<open>A gateway with an API key for everything under \<open>/api\<close>, and one that limits to two a second.\<close>

definition sample_mw_env :: mw_env where
  "sample_mw_env = \<lparr>me_jwt = sample_env, me_https = sample_https, me_mono_ms = 5000, me_fetch_ms = 5000, me_time = 1,
     me_random = Some [1, 2, 3, 4, 5, 6, 7, 8], me_alloc = True, me_file = (\<lambda>_. None), me_ca_load = (\<lambda>_. None),
     me_ca_default = None\<rparr>"

definition sample_cfg :: ntc_mw_config where
  "sample_cfg = \<lparr>cf_request_id = True, cf_access_log = False, cf_cors_origin = ''*'', cf_rate_per_sec = 0, cf_rate_burst = 0,
     cf_auth_mode = ''apikey'', cf_auth_secret = ''k3y'', cf_auth_protect = ''/api'', cf_auth_jwks_file = [],
     cf_auth_jwks_url = [], cf_auth_jwks_ca = []\<rparr>"

definition sample_mw :: "ntc_mw_config \<Rightarrow> ntc_mw" where
  "sample_mw cfg = \<lparr>mw_cfg = cfg, mw_jwks = [], mw_jwks_ca = None, mw_jwks_last_fetch_ms = 0,
     mw_buckets = replicate NTC_RL_BUCKETS \<lparr>bk_tokens = 0, bk_last_ms = 0\<rparr>\<rparr>"

definition sample_api_request :: ntc_request where
  "sample_api_request = zero_request\<lparr>rq_method := ''GET'', rq_path := ''/api/x'',
     rq_headers := [\<lparr>hdr_name = ''Authorization'', hdr_value = ''Bearer k3y''\<rparr>]\<rparr>"

lemma sample_mw_new: "ntc_mw_new sample_mw_env sample_cfg = Some (sample_mw sample_cfg)"
  by (simp add: ntc_mw_new_def sample_mw_env_def sample_cfg_def sample_mw_def)

lemma sample_mw_before:
  "ntc_mw_before sample_mw_env (sample_mw sample_cfg) sample_api_request ''10.0.0.1'' 5000 False =
     (False, (mw_headers sample_mw_env sample_cfg)\<lparr>mr_auth_sub := [], mr_auth_scope := []\<rparr>, sample_mw sample_cfg)"
proof -
  have c: "\<not> (cf_cors_origin sample_cfg \<noteq> [] \<and> ntc_slice_eq_cstr (rq_method sample_api_request) ''OPTIONS'')"
    "cf_auth_mode sample_cfg \<noteq> [] \<and> cf_auth_mode sample_cfg \<noteq> ''none'' \<and> \<not> False \<and> mw_protected sample_cfg sample_api_request"
    "\<not> 0 < cf_rate_per_sec sample_cfg"
    by code_simp+
  have h: "ntc_http_header sample_api_request ''authorization'' = ''Bearer k3y''" by code_simp
  have k: "ntc_ct_eq (bytes_of ''k3y'') (bytes_of (cf_auth_secret sample_cfg)) 3"
    "cf_auth_mode sample_cfg = ''apikey''" "cf_auth_secret sample_cfg = ''k3y''" by code_simp+
  have "mw_auth sample_mw_env (sample_mw sample_cfg) sample_api_request = (Some ([], []), sample_mw sample_cfg)"
    using k by (simp add: mw_auth_def Let_def h sample_mw_def numeral_3_eq_3)
  then show ?thesis using c by (simp add: ntc_mw_before_def Let_def sample_mw_def)
qed

theorem auth_gate_witness:
  "\<exists>tok. ntc_http_header sample_api_request ''authorization'' = ''Bearer '' @ tok \<and>
     bearer_proves sample_mw_env (sample_mw sample_cfg) tok ([], [])"
proof -
  have "cf_auth_mode (mw_cfg (sample_mw sample_cfg)) \<notin> {[], ''none''}" "mw_protected (mw_cfg (sample_mw sample_cfg)) sample_api_request"
    by (simp add: sample_mw_def sample_cfg_def, code_simp)
  from auth_gate [OF sample_mw_before this] show ?thesis by simp
qed

theorem rate_limit_window_witness:
  "rat_of_nat (admitted (rl_index ''10.0.0.1'') (sample_mw (sample_cfg\<lparr>cf_rate_per_sec := 2, cf_rate_burst := 3\<rparr>))
     [(sample_mw_env, sample_api_request, ''10.0.0.1'', 5000, False),
      (sample_mw_env, sample_api_request, ''10.0.0.1'', 6000, False)]) \<le> 3 + 2 * 1000 / 1000"
proof -
  let ?m = "sample_mw (sample_cfg\<lparr>cf_rate_per_sec := 2, cf_rate_burst := 3\<rparr>)"
  have "rat_of_nat (admitted (rl_index ''10.0.0.1'') ?m
     [(sample_mw_env, sample_api_request, ''10.0.0.1'', 5000, False),
      (sample_mw_env, sample_api_request, ''10.0.0.1'', 6000, False)]) \<le>
      mw_burst ?m + mw_rate_of ?m * rat_of_int (6000 - 5000) / 1000"
    by (rule rate_limit_window) (simp_all add: mw_ok_def sample_mw_def list_all_iff bucket_ok_def call_ms_def)
  then show ?thesis by (simp add: mw_burst_def mw_rate_of_def sample_mw_def)
qed

end
