(* ===== verification/Inflight.thy ===== *)
theory Inflight
  imports Prelude
begin

text \<open>
  The table of requests in flight (\<open>src/core/server.c\<close>, the slot functions): 4096 slots, each
  with a generation that counts how often it was freed. A request id is the low 20 bits of
  the generation and the slot number; a response is delivered only if both still agree. The
  part of \<open>free_slots\<close> below \<open>free_top\<close> is the list \<open>sl_free\<close>, its last element the top.
\<close>

definition NTC_INFLIGHT_BITS :: nat where "NTC_INFLIGHT_BITS = 12"
definition NTC_MAX_INFLIGHT :: nat where "NTC_MAX_INFLIGHT = 4096"
definition NTC_INFLIGHT_MASK :: u32 where "NTC_INFLIGHT_MASK = 0xFFF"

record 'c slots =
  sl_pending :: "'c option list"
  sl_gen :: "u32 list"
  sl_free :: "nat list"

definition gw_slots_init :: "'c slots" where
  "gw_slots_init = \<lparr>sl_pending = replicate NTC_MAX_INFLIGHT None, sl_gen = replicate NTC_MAX_INFLIGHT 0,
     sl_free = [0..<NTC_MAX_INFLIGHT]\<rparr>"

definition slot_id :: "u32 \<Rightarrow> nat \<Rightarrow> u32" where
  "slot_id gen slot = push_bit NTC_INFLIGHT_BITS (gen AND 0xFFFFF) OR of_nat slot"

definition id_slot :: "u32 \<Rightarrow> nat" where
  "id_slot rid = unat (rid AND NTC_INFLIGHT_MASK)"

definition id_gen :: "u32 \<Rightarrow> u32" where
  "id_gen rid = drop_bit NTC_INFLIGHT_BITS rid"

definition gw_alloc_id :: "'c slots \<Rightarrow> 'c \<Rightarrow> (u32 \<times> 'c slots) option" where
  "gw_alloc_id s c =
     (if sl_free s = [] then None
      else let slot = last (sl_free s)
           in Some (slot_id (sl_gen s ! slot) slot,
                    s\<lparr>sl_pending := (sl_pending s)[slot := Some c], sl_free := butlast (sl_free s)\<rparr>))"

definition gw_free_slot :: "'c slots \<Rightarrow> nat \<Rightarrow> 'c slots" where
  "gw_free_slot s slot =
     s\<lparr>sl_pending := (sl_pending s)[slot := None], sl_gen := (sl_gen s)[slot := sl_gen s ! slot + 1],
       sl_free := sl_free s @ [slot]\<rparr>"

definition gw_conn_for_id :: "'c slots \<Rightarrow> u32 \<Rightarrow> 'c option" where
  "gw_conn_for_id s rid =
     (let slot = id_slot rid
      in case sl_pending s ! slot of
           None \<Rightarrow> None
         | Some c \<Rightarrow> if sl_gen s ! slot AND 0xFFFFF \<noteq> id_gen rid then None else Some c)"

subsection \<open>Request ids\<close>

lemma u32_FFF: "(0xFFF :: u32) = mask 12" "(0xFFFFF :: u32) = mask 20"
  by (simp_all add: mask_eq_exp_minus_1)

lemma slot_id_split:
  assumes "slot < NTC_MAX_INFLIGHT"
  shows "id_slot (slot_id g slot) = slot" and "id_gen (slot_id g slot) = g AND 0xFFFFF"
proof -
  have s: "unat (of_nat slot :: u32) = slot" using assms by (simp add: unat_of_nat take_bit_eq_mod NTC_MAX_INFLIGHT_def)
  have "take_bit 12 (push_bit 12 (g AND mask 20) OR of_nat slot :: u32) = take_bit 12 (of_nat slot)"
    by (simp add: take_bit_push_bit)
  moreover have "unat (take_bit 12 (of_nat slot :: u32)) = slot"
    unfolding unsigned_take_bit_eq s using assms by (simp add: take_bit_eq_mod NTC_MAX_INFLIGHT_def)
  ultimately show "id_slot (slot_id g slot) = slot"
    by (simp add: id_slot_def slot_id_def NTC_INFLIGHT_BITS_def NTC_INFLIGHT_MASK_def u32_FFF flip: take_bit_eq_mask)
  have "unat (drop_bit 12 (of_nat slot :: u32)) = 0"
    unfolding unsigned_drop_bit_eq s using assms by (simp add: drop_bit_eq_div take_bit_eq_mod NTC_MAX_INFLIGHT_def)
  then have z: "drop_bit 12 (of_nat slot :: u32) = 0" by (simp add: unat_eq_0)
  have "drop_bit 12 (push_bit 12 (g AND mask 20) :: u32) = g AND mask 20"
    by (rule bit_word_eqI) (auto simp: bit_simps)
  with z show "id_gen (slot_id g slot) = g AND 0xFFFFF"
    by (simp add: id_gen_def slot_id_def NTC_INFLIGHT_BITS_def u32_FFF)
qed

lemma id_determined: "rid = slot_id (id_gen rid) (id_slot rid)"
proof -
  have "of_nat (unat (rid AND mask 12)) = rid AND (mask 12 :: u32)" by simp
  moreover have "rid = push_bit 12 (drop_bit 12 rid AND mask 20) OR (rid AND mask 12)"
    by (rule bit_word_eqI) (auto simp: bit_simps)
  ultimately show ?thesis
    by (simp add: slot_id_def id_gen_def id_slot_def NTC_INFLIGHT_BITS_def NTC_INFLIGHT_MASK_def u32_FFF)
qed

lemma id_slot_less: "id_slot rid < NTC_MAX_INFLIGHT"
proof -
  have "unat (rid AND mask 12) = take_bit 12 (unat rid)"
    unfolding take_bit_eq_mask [symmetric] by (rule unsigned_take_bit_eq)
  then show ?thesis
    by (simp add: id_slot_def NTC_INFLIGHT_MASK_def u32_FFF take_bit_eq_mod NTC_MAX_INFLIGHT_def)
qed

subsection \<open>The contract of an id table\<close>

text \<open>
  To its clients the table is a finite map from request ids to connections: an allocation
  binds a fresh id, a release unbinds one, and nothing else changes.
\<close>

locale id_map =
  fixes inv :: "'t \<Rightarrow> bool" and find_id :: "'t \<Rightarrow> u32 \<Rightarrow> 'c option"
    and alloc :: "'t \<Rightarrow> 'c \<Rightarrow> (u32 \<times> 't) option" and release :: "'t \<Rightarrow> u32 \<Rightarrow> 't"
  assumes alloc_map: "inv t \<Longrightarrow> alloc t c = Some (rid, t') \<Longrightarrow>
      inv t' \<and> find_id t rid = None \<and> find_id t' = (find_id t)(rid \<mapsto> c)"
    and release_map: "inv t \<Longrightarrow> find_id t rid = Some c \<Longrightarrow>
      inv (release t rid) \<and> find_id (release t rid) = (find_id t)(rid := None)"
begin

lemma alloc_finds: "inv t \<Longrightarrow> alloc t c = Some (rid, t') \<Longrightarrow> find_id t' rid = Some c"
  using alloc_map by fastforce

lemma alloc_keeps: "inv t \<Longrightarrow> alloc t c = Some (rid, t') \<Longrightarrow> find_id t k = Some d \<Longrightarrow> k \<noteq> rid \<and> find_id t' k = Some d"
  using alloc_map by fastforce

lemma release_other: "inv t \<Longrightarrow> find_id t rid = Some c \<Longrightarrow> k \<noteq> rid \<Longrightarrow> find_id (release t rid) k = find_id t k"
  using release_map by fastforce

lemma alloc_release: "inv t \<Longrightarrow> alloc t c = Some (rid, t') \<Longrightarrow> find_id (release t' rid) = find_id t"
  using alloc_map release_map [of t' rid c] by (fastforce simp: fun_eq_iff)

end

definition slots_inv :: "'c slots \<Rightarrow> bool" where
  "slots_inv s \<longleftrightarrow> length (sl_pending s) = NTC_MAX_INFLIGHT \<and> length (sl_gen s) = NTC_MAX_INFLIGHT \<and>
     distinct (sl_free s) \<and> set (sl_free s) = {i. i < NTC_MAX_INFLIGHT \<and> sl_pending s ! i = None}"

definition gw_free_id :: "'c slots \<Rightarrow> u32 \<Rightarrow> 'c slots" where
  "gw_free_id s rid = gw_free_slot s (id_slot rid)"

lemma slots_init_inv: "slots_inv gw_slots_init" "gw_conn_for_id gw_slots_init rid = None"
  using id_slot_less [of rid] by (auto simp: slots_inv_def gw_slots_init_def gw_conn_for_id_def Let_def)

lemma conn_for_id_Some:
  "gw_conn_for_id s rid = Some c \<longleftrightarrow>
     sl_pending s ! id_slot rid = Some c \<and> sl_gen s ! id_slot rid AND 0xFFFFF = id_gen rid"
  by (auto simp: gw_conn_for_id_def Let_def split: option.splits)

lemma alloc_id_inv:
  assumes "slots_inv s" "gw_alloc_id s c = Some (rid, s')"
  shows "slots_inv s'" and "sl_pending s ! id_slot rid = None" and "sl_gen s' = sl_gen s"
    and "sl_pending s' = (sl_pending s)[id_slot rid := Some c]"
    and "sl_gen s ! id_slot rid AND 0xFFFFF = id_gen rid"
proof -
  let ?slot = "last (sl_free s)"
  have ne: "sl_free s \<noteq> []" and rid: "rid = slot_id (sl_gen s ! ?slot) ?slot"
    and s': "s' = s\<lparr>sl_pending := (sl_pending s)[?slot := Some c], sl_free := butlast (sl_free s)\<rparr>"
    using assms(2) by (auto simp: gw_alloc_id_def Let_def split: if_splits)
  have last: "?slot \<in> set (sl_free s)" using ne by simp
  then have lt: "?slot < NTC_MAX_INFLIGHT" and none: "sl_pending s ! ?slot = None"
    using assms(1) by (auto simp: slots_inv_def)
  have id: "id_slot rid = ?slot" "id_gen rid = sl_gen s ! ?slot AND 0xFFFFF" using slot_id_split [OF lt] by (simp_all add: rid)
  have fr: "sl_free s = butlast (sl_free s) @ [?slot]" using ne by simp
  then have "distinct (butlast (sl_free s) @ [?slot])" using assms(1) by (simp add: slots_inv_def)
  then have "set (butlast (sl_free s)) = set (sl_free s) - {?slot}" by (subst (2) fr) auto
  moreover have "distinct (butlast (sl_free s))" using assms(1) by (simp add: slots_inv_def distinct_butlast)
  ultimately show "slots_inv s'" using assms(1) lt by (auto simp: slots_inv_def s' nth_list_update)
  show "sl_pending s ! id_slot rid = None" "sl_gen s' = sl_gen s" "sl_pending s' = (sl_pending s)[id_slot rid := Some c]"
    "sl_gen s ! id_slot rid AND 0xFFFFF = id_gen rid"
    using none by (simp_all add: id s')
qed

lemma free_slot_inv:
  assumes "slots_inv s" "sl_pending s ! i = Some c" "i < NTC_MAX_INFLIGHT"
  shows "slots_inv (gw_free_slot s i)"
  using assms by (auto simp: slots_inv_def gw_free_slot_def nth_list_update)

lemma id_eqI: "id_slot a = id_slot b \<Longrightarrow> id_gen a = id_gen b \<Longrightarrow> a = b"
  using id_determined by metis

interpretation infl: id_map slots_inv gw_conn_for_id gw_alloc_id gw_free_id
proof
  fix s :: "'c slots" and c rid s'
  assume s: "slots_inv s" and a: "gw_alloc_id s c = Some (rid, s')"
  note d = alloc_id_inv [OF s a]
  have len: "id_slot rid < length (sl_pending s)" using s id_slot_less by (simp add: slots_inv_def)
  have "gw_conn_for_id s' k = ((gw_conn_for_id s)(rid \<mapsto> c)) k" for k
  proof (cases "id_slot k = id_slot rid")
    case True
    then show ?thesis using len d id_eqI [of k rid] by (auto simp: gw_conn_for_id_def Let_def)
  next
    case False
    then show ?thesis by (auto simp: gw_conn_for_id_def Let_def d(3,4) split: option.splits)
  qed
  then show "slots_inv s' \<and> gw_conn_for_id s rid = None \<and> gw_conn_for_id s' = (gw_conn_for_id s)(rid \<mapsto> c)"
    using d by (auto simp: gw_conn_for_id_def Let_def)
next
  fix s :: "'c slots" and rid c
  assume s: "slots_inv s" and f: "gw_conn_for_id s rid = Some c"
  have len: "id_slot rid < length (sl_pending s)" "id_slot rid < NTC_MAX_INFLIGHT"
    using s id_slot_less by (simp_all add: slots_inv_def)
  have "gw_conn_for_id (gw_free_id s rid) k = ((gw_conn_for_id s)(rid := None)) k" for k
  proof (cases "id_slot k = id_slot rid")
    case True
    then show ?thesis using len f id_eqI [of k rid]
      by (auto simp: gw_conn_for_id_def gw_free_id_def gw_free_slot_def Let_def split: option.splits if_splits)
  next
    case False
    then show ?thesis by (auto simp: gw_conn_for_id_def gw_free_id_def gw_free_slot_def Let_def split: option.splits)
  qed
  then show "slots_inv (gw_free_id s rid) \<and> gw_conn_for_id (gw_free_id s rid) = (gw_conn_for_id s)(rid := None)"
    using free_slot_inv [OF s _ len(2)] f by (auto simp: gw_free_id_def conn_for_id_Some)
qed

subsection \<open>Stale ids\<close>

datatype 'c slot_op = Alloc 'c | Release u32

fun slot_step :: "'c slots \<Rightarrow> 'c slot_op \<Rightarrow> 'c slots" where
  "slot_step s (Alloc c) = (case gw_alloc_id s c of None \<Rightarrow> s | Some (rid, s') \<Rightarrow> s')"
| "slot_step s (Release rid) = (if gw_conn_for_id s rid = None then s else gw_free_id s rid)"

fun releases :: "'c slot_op list \<Rightarrow> nat" where
  "releases [] = 0"
| "releases (Alloc c # ops) = releases ops"
| "releases (Release rid # ops) = Suc (releases ops)"

lemma slot_step_inv: "slots_inv s \<Longrightarrow> slots_inv (slot_step s a)"
  using infl.alloc_map infl.release_map by (cases a) (fastforce split: option.splits)+

lemma slot_step_gen:
  assumes "slots_inv s"
  shows "\<exists>k \<le> releases [a]. sl_gen (slot_step s a) ! i = sl_gen s ! i + of_nat k"
proof (cases a)
  case (Alloc c)
  then show ?thesis using alloc_id_inv(3) [OF assms] by (auto split: option.splits)
next
  case (Release rid)
  have "id_slot rid < length (sl_gen s)" using assms id_slot_less by (simp add: slots_inv_def)
  then show ?thesis unfolding Release
    by (cases "i = id_slot rid") (auto simp: gw_free_id_def gw_free_slot_def intro: exI [of _ "1 :: nat"] exI [of _ "0 :: nat"])
qed

lemma releases_Cons: "releases (a # ops) = releases [a] + releases ops"
  by (cases a) simp_all

lemma slot_run_gen:
  "slots_inv s \<Longrightarrow> \<exists>k \<le> releases ops. sl_gen (foldl slot_step s ops) ! i = sl_gen s ! i + of_nat k"
proof (induction ops arbitrary: s)
  case (Cons a ops)
  obtain k where k: "k \<le> releases [a]" "sl_gen (slot_step s a) ! i = sl_gen s ! i + of_nat k"
    using slot_step_gen [OF Cons.prems] by blast
  obtain l where l: "l \<le> releases ops" "sl_gen (foldl slot_step (slot_step s a) ops) ! i = sl_gen (slot_step s a) ! i + of_nat l"
    using Cons.IH [OF slot_step_inv [OF Cons.prems]] by blast
  have "sl_gen (foldl slot_step s (a # ops)) ! i = sl_gen s ! i + of_nat (k + l)" using k l by simp
  moreover have "k + l \<le> releases (a # ops)" using k(1) l(1) releases_Cons [of a ops] by linarith
  ultimately show ?case by blast
qed simp

lemma gen_20_same:
  assumes "(g + of_nat j) AND 0xFFFFF = g AND (0xFFFFF :: u32)"
  shows "2 ^ 20 dvd j"
proof -
  have u: "unat (w AND (0xFFFFF :: u32)) = unat w mod 2 ^ 20" for w :: u32
  proof -
    have "unat (take_bit 20 w) = take_bit 20 (unat w)" by (rule unsigned_take_bit_eq)
    then show ?thesis by (simp add: u32_FFF take_bit_eq_mask [symmetric] take_bit_nat_def)
  qed
  have "unat (g + of_nat j) mod 2 ^ 20 = (unat g + j) mod 2 ^ 20"
    by (simp add: unat_word_ariths unat_of_nat take_bit_eq_mod mod_add_right_eq mod_mod_cancel)
  then have "(unat g + j) mod 2 ^ 20 = unat g mod 2 ^ 20" using arg_cong [OF assms, of unat] unfolding u by simp
  then show ?thesis by (metis add_diff_cancel_left' le_add1 mod_eq_dvd_iff_nat)
qed

text \<open>
  C14 (\<open>inflight_refines_map\<close>): to its clients the slot table is a map from request ids to
  connections. An allocation, which fails only with 4096 requests in flight, binds an id that
  was not bound, a release removes just that binding, and both keep the table consistent.
\<close>

theorem inflight_refines_map:
  assumes "slots_inv s"
  shows "(case gw_alloc_id s c of
       None \<Rightarrow> (\<forall>i < NTC_MAX_INFLIGHT. sl_pending s ! i \<noteq> None)
     | Some (rid, s') \<Rightarrow> slots_inv s' \<and> gw_conn_for_id s rid = None \<and> gw_conn_for_id s' = (gw_conn_for_id s)(rid \<mapsto> c)) \<and>
   (gw_conn_for_id s k \<noteq> None \<longrightarrow>
      slots_inv (gw_free_slot s (id_slot k)) \<and> gw_conn_for_id (gw_free_slot s (id_slot k)) = (gw_conn_for_id s)(k := None))"
proof -
  have "\<forall>i < NTC_MAX_INFLIGHT. sl_pending s ! i \<noteq> None" if "gw_alloc_id s c = None"
    using that assms by (auto simp: gw_alloc_id_def slots_inv_def Let_def split: if_splits)
  then show ?thesis
    using infl.alloc_map [OF assms] infl.release_map [OF assms, unfolded gw_free_id_def]
    by (auto split: option.splits)
qed

text \<open>
  C10 (\<open>inflight_no_aba\<close>): once a request's slot is released, its id resolves to no connection
  through any later sequence of allocations and releases with fewer than \<open>2\<^sup>20 - 1\<close> releases:
  a late or forged response of a controller cannot reach another client's connection.
\<close>

theorem inflight_no_aba:
  assumes "slots_inv s" and "gw_conn_for_id s rid = Some c" and "releases ops < 2 ^ 20 - 1"
  shows "gw_conn_for_id (foldl slot_step (gw_free_slot s (id_slot rid)) ops) rid = None"
proof (rule ccontr)
  let ?s1 = "gw_free_slot s (id_slot rid)" and ?i = "id_slot rid"
  let ?s2 = "foldl slot_step ?s1 ops"
  assume "gw_conn_for_id ?s2 rid \<noteq> None"
  then have g2: "sl_gen ?s2 ! ?i AND 0xFFFFF = id_gen rid" by (auto simp: conn_for_id_Some)
  have g: "sl_gen s ! ?i AND 0xFFFFF = id_gen rid" using assms(2) by (simp add: conn_for_id_Some)
  have len: "?i < length (sl_gen s)" using assms(1) id_slot_less by (simp add: slots_inv_def)
  have "slots_inv ?s1" using infl.release_map [OF assms(1,2)] by (simp add: gw_free_id_def)
  then obtain k where k: "k \<le> releases ops" "sl_gen ?s2 ! ?i = sl_gen ?s1 ! ?i + of_nat k"
    using slot_run_gen by blast
  have "sl_gen ?s2 ! ?i = sl_gen s ! ?i + of_nat (k + 1)" using k(2) len by (simp add: gw_free_slot_def add.assoc)
  then have "2 ^ 20 dvd k + 1" using g g2 by (intro gen_20_same [of "sl_gen s ! ?i"]) simp
  then have "2 ^ 20 \<le> k + 1" by (rule dvd_imp_le) simp
  then show False using k(1) assms(3) by linarith
qed

definition sample_slots :: "nat slots" where
  "sample_slots = (case gw_alloc_id gw_slots_init 7 of Some (rid, s) \<Rightarrow> s | None \<Rightarrow> gw_slots_init)"

lemma sample_slots_alloc: "\<exists>rid. gw_alloc_id gw_slots_init (7 :: nat) = Some (rid, sample_slots)"
  by (simp add: sample_slots_def gw_alloc_id_def gw_slots_init_def NTC_MAX_INFLIGHT_def Let_def)

lemma sample_slots_ok: "slots_inv sample_slots" "\<exists>rid. gw_conn_for_id sample_slots rid = Some 7"
proof -
  obtain rid where a: "gw_alloc_id gw_slots_init (7 :: nat) = Some (rid, sample_slots)" using sample_slots_alloc by blast
  show "slots_inv sample_slots" using infl.alloc_map [OF slots_init_inv(1) a] by simp
  show "\<exists>rid. gw_conn_for_id sample_slots rid = Some 7" using infl.alloc_finds [OF slots_init_inv(1) a] by blast
qed

theorem inflight_refines_map_witness:
  "case gw_alloc_id sample_slots 8 of
     None \<Rightarrow> False
   | Some (rid, s') \<Rightarrow> slots_inv s' \<and> gw_conn_for_id sample_slots rid = None \<and>
       gw_conn_for_id s' = (gw_conn_for_id sample_slots)(rid \<mapsto> 8)"
proof -
  have "length (sl_free sample_slots) > 0"
    by (simp add: sample_slots_def gw_alloc_id_def gw_slots_init_def NTC_MAX_INFLIGHT_def Let_def)
  then have "gw_alloc_id sample_slots 8 \<noteq> None" by (auto simp: gw_alloc_id_def Let_def)
  then show ?thesis using inflight_refines_map [OF sample_slots_ok(1), of 8 0] by (auto split: option.splits)
qed

theorem inflight_no_aba_witness:
  "\<exists>rid. gw_conn_for_id (foldl slot_step (gw_free_slot sample_slots (id_slot rid)) [Alloc 9, Release 3, Alloc 10]) rid = None"
proof -
  obtain rid where "gw_conn_for_id sample_slots rid = Some 7" using sample_slots_ok(2) by blast
  moreover have "releases [Alloc 9, Release 3, Alloc (10 :: nat)] < 2 ^ 20 - 1" by simp
  ultimately show ?thesis using inflight_no_aba [OF sample_slots_ok(1)] by blast
qed

end
