(* ===== verification/Gateway.thy ===== *)
theory Gateway
  imports Inflight Wire Ws Middleware Session Schema "HOL-Library.Monad_Syntax"
begin

text \<open>
  The connection plumbing of the gateway (\<open>src/core/server.c\<close>): client connections, controller
  sockets, the requests in flight between them, responses, streams and WebSockets.

  Heap objects (\<open>conn\<close>, \<open>ctrl\<close>) live in partial maps from addresses, and a pointer is an
  address; addresses are never reused. An operation returns \<open>None\<close> when it would touch an
  object that was freed, so that \<open>Some\<close> means memory-safe. The return code of the C function is
  the first component of the result.

  The kernel is deterministic data: each connection carries the results that the coming
  \<open>send\<close> and \<open>recv\<close> calls on its socket will return (and a TLS connection what its engine will
  answer), and the record \<open>gw_env\<close> says which allocations and poller calls succeed during a
  handler. \<open>c_sent\<close>, \<open>g_closed\<close>, \<open>g_replies\<close>, \<open>g_builds\<close> and \<open>g_log\<close> record output; no code reads them.
  Arena memory that a response points to lives as long as its connection, so a response is
  its bytes.
\<close>

definition NTC_CONN_RBUF :: nat where "NTC_CONN_RBUF = 64 * 1024"
definition NTC_CTRL_MAX_RBUF :: nat where "NTC_CTRL_MAX_RBUF = 4 * 1024 * 1024"
definition NTC_BACKOFF_BASE :: int where "NTC_BACKOFF_BASE = 200"
definition NTC_BACKOFF_MAX :: int where "NTC_BACKOFF_MAX = 5000"
definition NTC_STREAM_MAX_BUF :: nat where "NTC_STREAM_MAX_BUF = 4 * 1024 * 1024"
definition NTC_MAX_REPLICAS :: nat where "NTC_MAX_REPLICAS = 8"
definition NTC_GZIP_MIN :: nat where "NTC_GZIP_MIN = 256"

datatype conn_state = CS_READ | CS_WAIT | CS_WRITE | CS_STREAM | CS_WS

datatype send_res = Sent nat | Send_eintr | Send_again | Send_err
datatype recv_res = Rcvd string | Rcv_eof | Rcv_eintr | Rcv_again | Rcv_err

record tls_round =
  tr_accept :: "nat list"  \<comment> \<open>results of \<open>ntc_tls_send\<close>, up to one that is not positive\<close>
  tr_pump :: bool          \<comment> \<open>\<open>ntc_tls_pump_socket >= 0\<close>\<close>
  tr_closed :: bool        \<comment> \<open>\<open>ntc_tls_closed\<close>\<close>
  tr_wants :: bool         \<comment> \<open>\<open>ntc_tls_wants_write\<close>\<close>

type_synonym conn_ptr = nat
type_synonym ctrl_ptr = nat

record conn =
  c_state :: conn_state
  c_is_admin :: bool
  c_tls :: "tls_round list option"
  c_inflight :: bool
  c_req_id :: u32
  c_wait_ctrl :: "ctrl_ptr option"
  c_client_ip :: string
  c_request_id :: string
  c_extra_headers :: string
  c_log_method :: string
  c_log_path :: string
  c_auth_sub :: string
  c_auth_scope :: string
  c_req_start :: int
  c_logged :: bool
  c_accept_gzip :: bool
  c_rbuf :: string         \<comment> \<open>the first \<open>rlen\<close> bytes\<close>
  c_wbuf :: string
  c_wsent :: nat
  c_streaming :: bool
  c_stream_sse :: bool
  c_stream_head_sent :: bool
  c_stream_ended :: bool
  c_is_ws :: bool
  c_swbuf :: string        \<comment> \<open>the first \<open>swlen\<close> bytes\<close>
  c_swsent :: nat
  c_swcap :: nat
  c_sock :: "send_res list"
  c_peer :: "recv_res list"
  c_sent :: string

record ctrl =
  ct_svc :: nat            \<comment> \<open>index of its service\<close>
  ct_rbuf :: "byte list"
  ct_rcap :: nat
  ct_wbuf :: "byte list"
  ct_wsent :: nat
  ct_wcap :: nat
  ct_sock :: "send_res list"
  ct_peer :: "recv_res list"
  ct_sent :: "byte list"

text \<open>A control client's connection.\<close>

record cctrl =
  cc_buf :: string
  cc_peer :: "recv_res list"

text \<open>A child process as the core meets it: what it writes first, and which calls succeed.\<close>

record child =
  ch_fork :: bool            \<comment> \<open>\<open>socketpair\<close> and \<open>fork\<close>\<close>
  ch_hello :: "byte list"    \<comment> \<open>what can be read from it before the time-out\<close>
  ch_welcome :: bool         \<comment> \<open>the WELCOME is written in full\<close>
  ch_setup :: bool           \<comment> \<open>\<open>set_nonblocking\<close>, \<open>calloc\<close>, \<open>ntc_poller_add\<close>\<close>
  ch_ptr :: ctrl_ptr         \<comment> \<open>the new object's address\<close>
  ch_sock :: "send_res list"
  ch_peer :: "recv_res list"

text \<open>A directory tree with modification times.\<close>

datatype fs_node = Fs_file int | Fs_dir "(string \<times> fs_node) list" | Fs_other | Fs_unreadable

record service =
  sv_name :: string
  sv_bin :: string
  sv_conns :: "ctrl_ptr option list"
  sv_replicas :: int
  sv_rr :: nat
  sv_disabled :: bool
  sv_restart_count :: int
  sv_restart_at :: "int list"
  sv_spawned_at :: "int list"
  sv_backoff_ms :: "int list"
  sv_bin_mtime :: int

record metrics =
  m_start_ms :: int
  m_requests_total :: u64
  m_status_2xx :: u64
  m_status_4xx :: u64
  m_status_5xx :: u64
  m_forwarded :: u64
  m_builtin :: u64

datatype gw_handler = Forward_marker | H_health | H_version | H_echo

record oauth_config =
  oa_enabled :: bool
  oa_authorize_url :: string
  oa_token_url :: string
  oa_client_id :: string
  oa_client_secret :: string
  oa_redirect_uri :: string
  oa_scopes :: string
  oa_success :: string
  oa_ca :: "ntc_ca option"

text \<open>
  The two SQLite databases are parameters here: the state keeps the writes they were given,
  and \<open>gw_env\<close> holds what a query answers after these writes (\<open>Persistence\<close> instantiates it).
\<close>

datatype sess_op = Sess_put string string string int | Sess_del string | Sess_sweep int
datatype reg_op = Reg_add_service string string | Reg_remove_service string
  | Reg_add_route string string string | Reg_set_config string string

record ntc_service_row =
  sr_name :: string
  sr_bin :: string

record ntc_route_row =
  rr_method :: string
  rr_pattern :: string
  rr_service :: string

record gateway =
  g_conns :: "conn_ptr \<Rightarrow> conn option"
  g_ctrls :: "ctrl_ptr \<Rightarrow> ctrl option"
  g_services :: "service list"
  g_slots :: "conn_ptr slots"
  g_m :: metrics
  g_mw :: "ntc_mw option"
  g_router :: "(gw_handler, nat) ntc_router"
  g_token :: string
  g_app_name :: string
  g_static_dir :: string
  g_oauth :: oauth_config
  g_oauth_pending :: ntc_kvstore
  g_sessions :: "sess_op list option"      \<comment> \<open>\<open>None\<close>: no store\<close>
  g_schemas :: "ntc_json option"
  g_max_body :: usize
  g_reg :: "reg_op list"
  g_dev_watch :: bool
  g_dev_build :: "string option"
  g_dev_paths :: "(string \<times> int) list"
  g_dev_last_poll :: int
  g_sess_sweep :: int
  g_stop :: bool
  g_cctrls :: "nat \<Rightarrow> cctrl option"
  g_replies :: "(nat \<times> string) list"
  g_builds :: "string list"               \<comment> \<open>commands given to \<open>system\<close>\<close>
  g_closed :: "(conn_ptr \<times> string) list"
  g_log :: "string list"

record gw_env =
  ge_now_ms :: int
  ge_time :: int
  ge_poll :: "conn_ptr \<Rightarrow> bool"            \<comment> \<open>\<open>ntc_poller_mod\<close> on a connection succeeds\<close>
  ge_alloc :: "nat \<Rightarrow> bool"               \<comment> \<open>\<open>malloc\<close>, \<open>realloc\<close>\<close>
  ge_grant :: "nat \<Rightarrow> bool"               \<comment> \<open>\<open>ntc_arena_alloc\<close>\<close>
  ge_gzip :: "string \<Rightarrow> string option"     \<comment> \<open>\<open>ntc_gzip\<close> (miniz)\<close>
  ge_sha1 :: "byte list \<Rightarrow> byte list"      \<comment> \<open>SHA-1 of the TLS library\<close>
  ge_mw :: mw_env
  ge_random :: "nat \<Rightarrow> byte list option"   \<comment> \<open>so many bytes of \<open>/dev/urandom\<close>\<close>
  ge_file :: "string \<Rightarrow> (bool \<times> string) option" \<comment> \<open>an open file: regular, and its contents\<close>
  ge_round :: "rat \<Rightarrow> double_t"            \<comment> \<open>decimal to double\<close>
  ge_fmt :: "rat \<Rightarrow> string"                \<comment> \<open>\<open>%g\<close> of a double\<close>
  ge_len :: "double_t \<Rightarrow> nat"             \<comment> \<open>double to \<open>size_t\<close>\<close>
  ge_i64 :: "double_t \<Rightarrow> int"             \<comment> \<open>double to \<open>long long\<close>\<close>
  ge_dashboard :: string                  \<comment> \<open>\<open>DASHBOARD_HTML\<close>\<close>
  ge_sess_get :: "sess_op list \<Rightarrow> string \<Rightarrow> int \<Rightarrow> (string \<times> string) option"
  ge_reg_ok :: "reg_op list \<Rightarrow> reg_op \<Rightarrow> bool"
  ge_services :: "reg_op list \<Rightarrow> ntc_service_row list"
  ge_routes :: "reg_op list \<Rightarrow> ntc_route_row list"
  ge_config :: "reg_op list \<Rightarrow> string \<Rightarrow> string option"
  ge_backend :: string
  ge_spawn :: "nat \<Rightarrow> nat \<Rightarrow> child"          \<comment> \<open>the process started for a service's slot\<close>
  ge_mtime :: "string \<Rightarrow> int option"       \<comment> \<open>\<open>stat\<close> of a path: its modification time\<close>
  ge_tree :: "string \<Rightarrow> fs_node option"    \<comment> \<open>the tree below a path\<close>
  ge_dup :: bool                          \<comment> \<open>\<open>strdup\<close>\<close>

abbreviation set_conn :: "gateway \<Rightarrow> conn_ptr \<Rightarrow> conn \<Rightarrow> gateway" where
  "set_conn g c x \<equiv> g\<lparr>g_conns := (g_conns g)(c \<mapsto> x)\<rparr>"

abbreviation set_ctrl :: "gateway \<Rightarrow> ctrl_ptr \<Rightarrow> ctrl \<Rightarrow> gateway" where
  "set_ctrl g t x \<equiv> g\<lparr>g_ctrls := (g_ctrls g)(t \<mapsto> x)\<rparr>"

subsection \<open>Buffers and sockets\<close>

function grow_to :: "nat \<Rightarrow> nat \<Rightarrow> nat" where
  "grow_to ncap need = (if 0 < ncap \<and> ncap < need then grow_to (2 * ncap) need else ncap)"
  by pat_completeness auto
termination
  by (relation "measure (\<lambda>(ncap, need). need - ncap)") auto

declare grow_to.simps [simp del, loop_simps]

text \<open>The new capacity, or \<open>None\<close> when \<open>realloc\<close> fails.\<close>

definition buf_reserve :: "gw_env \<Rightarrow> nat \<Rightarrow> nat \<Rightarrow> nat option" where
  "buf_reserve env cap need =
     (if need \<le> cap then Some cap
      else let ncap = grow_to (if cap > 0 then cap else 4096) need
           in if ge_alloc env ncap then Some ncap else None)"

datatype drive = Drained | Blocked | Failed

text \<open>The \<open>send\<close> loop: how it ends, the bytes sent so far and the results left.\<close>

fun send_loop :: "send_res list \<Rightarrow> 'a list \<Rightarrow> nat \<Rightarrow> drive \<times> nat \<times> send_res list" where
  "send_loop [] buf sent = (if sent < length buf then Blocked else Drained, sent, [])"
| "send_loop (r # rs) buf sent =
     (if sent < length buf then
        (case r of
           Sent n \<Rightarrow> if n > 0 then send_loop rs buf (sent + min n (length buf - sent)) else (Failed, sent, rs)
         | Send_eintr \<Rightarrow> send_loop rs buf sent
         | Send_again \<Rightarrow> (Blocked, sent, rs)
         | Send_err \<Rightarrow> (Failed, sent, rs))
      else (Drained, sent, r # rs))"

text \<open>One \<open>recv\<close> into the given room: what is left of a longer delivery comes next time.\<close>

fun recv1 :: "nat \<Rightarrow> recv_res list \<Rightarrow> recv_res \<times> recv_res list" where
  "recv1 room [] = (Rcv_again, [])"
| "recv1 room (Rcvd s # rs) = (if length s \<le> room then (Rcvd s, rs) else (Rcvd (take room s), Rcvd (drop room s) # rs))"
| "recv1 room (r # rs) = (r, rs)"

fun tls_send_loop :: "nat list \<Rightarrow> nat \<Rightarrow> nat \<Rightarrow> nat" where
  "tls_send_loop [] len sent = sent"
| "tls_send_loop (n # ns) len sent =
     (if sent < len \<and> n > 0 then tls_send_loop ns len (sent + min n (len - sent)) else sent)"

text \<open>The rounds of \<open>tls_drive_write\<close>; \<open>final\<close> says that the connection ends when all is sent.\<close>

fun tls_rounds :: "tls_round list \<Rightarrow> string \<Rightarrow> nat \<Rightarrow> bool \<Rightarrow> drive \<times> nat \<times> tls_round list" where
  "tls_rounds [] buf sent final = (Blocked, sent, [])"
| "tls_rounds (r # rs) buf sent final =
     (let sent' = tls_send_loop (tr_accept r) (length buf) sent
      in if \<not> tr_pump r then (Failed, sent', rs)
         else if tr_closed r then (Failed, sent', rs)
         else if tr_wants r then (Blocked, sent', rs)
         else if sent' \<ge> length buf then (if final then Failed else Drained, sent', rs)
         else if sent' = sent then (Blocked, sent', rs)
         else tls_rounds rs buf sent' final)"

subsection \<open>Controller queue and closing a connection\<close>

definition ctrl_queue :: "gw_env \<Rightarrow> gateway \<Rightarrow> ctrl_ptr \<Rightarrow> byte \<Rightarrow> u32 \<Rightarrow> byte list \<Rightarrow> (int \<times> gateway) option" where
  "ctrl_queue env g t ty rid payload = do {
     ct \<leftarrow> g_ctrls g t;
     (case buf_reserve env (ct_wcap ct) (length (ct_wbuf ct) + NTC_WIRE_HEADER_LEN + length payload) of
        None \<Rightarrow> Some (-1, g)
      | Some cap \<Rightarrow>
          Some (0, set_ctrl g t (ct\<lparr>ct_wcap := cap,
            ct_wbuf := ct_wbuf ct @ ntc_wire_write_header ty rid (of_nat (length payload)) @ payload\<rparr>)))
   }"

text \<open>The poller interest is not state of the model; the call reads the controller.\<close>

definition ctrl_update_poll :: "gateway \<Rightarrow> ctrl_ptr \<Rightarrow> gateway option" where
  "ctrl_update_poll g t = do { ct \<leftarrow> g_ctrls g t; Some g }"

definition gw_release :: "gateway \<Rightarrow> u32 \<Rightarrow> gateway" where
  "gw_release g rid = g\<lparr>g_slots := gw_free_slot (g_slots g) (id_slot rid)\<rparr>"

definition conn_close :: "gw_env \<Rightarrow> gateway \<Rightarrow> conn_ptr \<Rightarrow> gateway option" where
  "conn_close env g c = do {
     x \<leftarrow> g_conns g c;
     g1 \<leftarrow> (if c_is_ws x \<and> c_inflight x then
              (case c_wait_ctrl x of
                 None \<Rightarrow> Some g
               | Some t \<Rightarrow>
                   (case ntc_wire_encode_ws_close 1000 2 of
                      None \<Rightarrow> Some g
                    | Some cb \<Rightarrow> do {
                        (rc, g') \<leftarrow> ctrl_queue env g t NTC_MSG_WS_CLOSE (c_req_id x) cb;
                        if rc = 0 then ctrl_update_poll g' t else Some g'
                      }))
            else Some g);
     let g2 = (if c_inflight x then gw_release g1 (c_req_id x) else g1);
     Some (g2\<lparr>g_conns := (g_conns g2)(c := None), g_closed := (c, c_sent x) # g_closed g2\<rparr>)
   }"

definition close_ret :: "gw_env \<Rightarrow> gateway \<Rightarrow> conn_ptr \<Rightarrow> (int \<times> gateway) option" where
  "close_ret env g c = do { g' \<leftarrow> conn_close env g c; Some (-1, g') }"

subsection \<open>Writing\<close>

definition tls_drive_write :: "gw_env \<Rightarrow> gateway \<Rightarrow> conn_ptr \<Rightarrow> (int \<times> gateway) option" where
  "tls_drive_write env g c = do {
     x \<leftarrow> g_conns g c;
     rounds \<leftarrow> c_tls x;
     let buf = (if c_streaming x then c_swbuf x else c_wbuf x);
     let sent0 = (if c_streaming x then c_swsent x else c_wsent x);
     let (d, sent, rest) = tls_rounds rounds buf sent0 (\<not> c_streaming x \<or> c_stream_ended x);
     let x1 = x\<lparr>c_tls := Some rest, c_sent := c_sent x @ take (sent - sent0) (drop sent0 buf)\<rparr>;
     let x2 = (if c_streaming x then x1\<lparr>c_swsent := sent\<rparr> else x1\<lparr>c_wsent := sent\<rparr>);
     (case d of
        Failed \<Rightarrow> close_ret env (set_conn g c x2) c
      | Blocked \<Rightarrow> Some (0, set_conn g c x2)
      | Drained \<Rightarrow> Some (0, set_conn g c (x2\<lparr>c_swbuf := [], c_swsent := 0\<rparr>)))
   }"

definition tls_set_interest :: "gw_env \<Rightarrow> gateway \<Rightarrow> conn_ptr \<Rightarrow> (int \<times> gateway) option" where
  "tls_set_interest env g c = do {
     x \<leftarrow> g_conns g c;
     if \<not> ge_poll env c then close_ret env g c else Some (0, g)
   }"

definition on_writable :: "gw_env \<Rightarrow> gateway \<Rightarrow> conn_ptr \<Rightarrow> (int \<times> gateway) option" where
  "on_writable env g c = do {
     x \<leftarrow> g_conns g c;
     if c_tls x \<noteq> None then tls_drive_write env g c
     else if c_streaming x then
       (let (d, sent, sock) = send_loop (c_sock x) (c_swbuf x) (c_swsent x);
            x1 = x\<lparr>c_sock := sock, c_swsent := sent,
                   c_sent := c_sent x @ take (sent - c_swsent x) (drop (c_swsent x) (c_swbuf x))\<rparr>
        in case d of
             Blocked \<Rightarrow> Some (0, set_conn g c x1)
           | Failed \<Rightarrow> close_ret env (set_conn g c x1) c
           | Drained \<Rightarrow>
               (let x2 = x1\<lparr>c_swbuf := [], c_swsent := 0\<rparr>
                in if c_stream_ended x then close_ret env (set_conn g c x2) c
                   else if \<not> ge_poll env c then close_ret env (set_conn g c x2) c
                   else Some (0, set_conn g c x2)))
     else
       (let (d, sent, sock) = send_loop (c_sock x) (c_wbuf x) (c_wsent x);
            x1 = x\<lparr>c_sock := sock, c_wsent := sent,
                   c_sent := c_sent x @ take (sent - c_wsent x) (drop (c_wsent x) (c_wbuf x))\<rparr>
        in case d of
             Blocked \<Rightarrow> Some (0, set_conn g c x1)
           | _ \<Rightarrow> close_ret env (set_conn g c x1) c)
   }"

definition conn_flush :: "gw_env \<Rightarrow> gateway \<Rightarrow> conn_ptr \<Rightarrow> (int \<times> gateway) option" where
  "conn_flush env g c = do {
     x \<leftarrow> g_conns g c;
     if c_tls x \<noteq> None then do {
       (rc, g1) \<leftarrow> tls_drive_write env g c;
       if rc < 0 then Some (rc, g1) else tls_set_interest env g1 c
     }
     else if \<not> ge_poll env c then close_ret env g c
     else on_writable env g c
   }"

subsection \<open>Responses\<close>

definition rec_status :: "gateway \<Rightarrow> int \<Rightarrow> gateway" where
  "rec_status g status =
     (let m = (g_m g)\<lparr>m_requests_total := m_requests_total (g_m g) + 1\<rparr>
      in g\<lparr>g_m :=
           (if status \<ge> 500 then m\<lparr>m_status_5xx := m_status_5xx m + 1\<rparr>
            else if status \<ge> 400 then m\<lparr>m_status_4xx := m_status_4xx m + 1\<rparr>
            else if status \<ge> 200 \<and> status < 300 then m\<lparr>m_status_2xx := m_status_2xx m + 1\<rparr>
            else m)\<rparr>)"

definition slice_has :: "ntc_slice \<Rightarrow> string \<Rightarrow> bool" where
  "slice_has hay needle =
     (let m = length needle
      in if m = 0 \<or> length hay < m then False
         else list_ex (\<lambda>i. take m (drop i hay) = needle) [0 ..< length hay - m + 1])"

definition ctype_compressible :: "ntc_slice \<Rightarrow> bool" where
  "ctype_compressible ct \<longleftrightarrow>
     ntc_slice_starts_with ct ''text/'' \<or> slice_has ct ''json'' \<or> slice_has ct ''javascript'' \<or>
     slice_has ct ''xml'' \<or> slice_has ct ''svg''"

text \<open>The body to send and the extra headers, compressed when that applies.\<close>

definition conn_compress :: "gw_env \<Rightarrow> conn \<Rightarrow> ntc_slice \<Rightarrow> ntc_slice \<Rightarrow> ntc_slice \<times> string" where
  "conn_compress env x ctype body =
     (let eh = cstr (c_extra_headers x)
      in if c_accept_gzip x \<and> length body \<ge> NTC_GZIP_MIN \<and> ctype_compressible ctype \<and>
            memmem eh ''Content-Encoding'' = None
         then (case ge_gzip env body of
                 None \<Rightarrow> (body, eh)
               | Some gz \<Rightarrow>
                   if ge_grant env (length gz)
                   then (gz, eh @ snprintf (EXTRA_CAP - length eh) (''Content-Encoding: gzip'' @ CRLF))
                   else (body, eh))
         else (body, eh))"

definition access_log :: "gw_env \<Rightarrow> gateway \<Rightarrow> conn \<Rightarrow> int \<Rightarrow> conn \<times> string list" where
  "access_log env g x status =
     (case g_mw g of
        None \<Rightarrow> (x, g_log g)
      | Some mw \<Rightarrow>
          if \<not> c_is_admin x \<and> \<not> c_logged x
          then (x\<lparr>c_logged := True\<rparr>,
                (case ntc_mw_after mw (c_log_method x) (c_log_path x) (c_request_id x) status
                        (ge_now_ms env - c_req_start x) of
                   None \<Rightarrow> g_log g | Some line \<Rightarrow> g_log g @ [line]))
          else (x, g_log g))"

definition conn_respond :: "gw_env \<Rightarrow> gateway \<Rightarrow> conn_ptr \<Rightarrow> int \<Rightarrow> ntc_slice \<Rightarrow> ntc_slice \<Rightarrow> (int \<times> gateway) option" where
  "conn_respond env g c status ctype body = do {
     x \<leftarrow> g_conns g c;
     let (body1, eh) = conn_compress env x ctype body;
     let x1 = x\<lparr>c_extra_headers := eh\<rparr>;
     (case ntc_http_format_response_ex (ge_grant env) status (ntc_http_status_text status) ctype
             (if eh \<noteq> [] then Some eh else None) body1 of
        Inl _ \<Rightarrow> Some (-1, set_conn g c x1)
      | Inr resp \<Rightarrow>
          (let (x2, log) = access_log env g (x1\<lparr>c_wbuf := resp, c_wsent := 0, c_state := CS_WRITE\<rparr>) status
           in Some (0, (set_conn g c x2)\<lparr>g_log := log\<rparr>)))
   }"

definition send_resp :: "gw_env \<Rightarrow> gateway \<Rightarrow> conn_ptr \<Rightarrow> int \<Rightarrow> ntc_slice \<Rightarrow> ntc_slice \<Rightarrow> (int \<times> gateway) option" where
  "send_resp env g c status ctype body = do {
     (rc, g1) \<leftarrow> conn_respond env g c status ctype body;
     if rc \<noteq> 0 then close_ret env g1 c else conn_flush env g1 c
   }"

definition respond_and_flush :: "gw_env \<Rightarrow> gateway \<Rightarrow> conn_ptr \<Rightarrow> int \<Rightarrow> ntc_slice \<Rightarrow> (int \<times> gateway) option" where
  "respond_and_flush env g c status json = do {
     x \<leftarrow> g_conns g c;
     let g1 = (if \<not> c_is_admin x then rec_status g status else g);
     (rc, g2) \<leftarrow> conn_respond env g1 c status ''application/json'' json;
     if rc \<noteq> 0 then close_ret env g2 c else conn_flush env g2 c
   }"

text \<open>
  Delivery of a controller's messages. The lookup comes first; a connection that is gone is no
  error. The flag \<open>inflight\<close> is cleared together with the slot.
\<close>

definition gw_detach :: "gateway \<Rightarrow> u32 \<Rightarrow> conn_ptr \<Rightarrow> gateway option" where
  "gw_detach g rid c = do {
     x \<leftarrow> g_conns g c;
     Some (set_conn (gw_release g rid) c (x\<lparr>c_inflight := False\<rparr>))
   }"

definition merge_headers :: "string \<Rightarrow> ntc_slice \<Rightarrow> string" where
  "merge_headers eh hdrs =
     (if hdrs = [] then eh
      else let el = length (cstr eh); room = EXTRA_CAP - el;
               n = (if length hdrs < room - 1 then length hdrs else if room > 0 then room - 1 else 0)
           in cstr eh @ take n hdrs)"

definition gw_deliver :: "gw_env \<Rightarrow> gateway \<Rightarrow> u32 \<Rightarrow> byte list \<Rightarrow> gateway option" where
  "gw_deliver env g rid payload =
     (case gw_conn_for_id (g_slots g) rid of
        None \<Rightarrow> Some g
      | Some c \<Rightarrow> do {
          g1 \<leftarrow> gw_detach g rid c;
          (case ntc_wire_decode_response_ex payload of
             None \<Rightarrow> do {
               (rc, g2) \<leftarrow> respond_and_flush env g1 c 502 (json_error ''bad upstream response'');
               Some g2 }
           | Some (status, ctype, body, hdrs) \<Rightarrow> do {
               x \<leftarrow> g_conns g1 c;
               let g2 = rec_status (set_conn g1 c (x\<lparr>c_extra_headers := merge_headers (c_extra_headers x) hdrs\<rparr>)) status;
               (rc, g3) \<leftarrow> send_resp env g2 c status ctype body;
               Some g3 })
        })"

subsection \<open>Streams\<close>

definition stream_kick :: "gw_env \<Rightarrow> gateway \<Rightarrow> conn_ptr \<Rightarrow> (int \<times> gateway) option" where
  "stream_kick env g c = do {
     x \<leftarrow> g_conns g c;
     if c_tls x \<noteq> None then do {
       (rc, g1) \<leftarrow> tls_drive_write env g c;
       if rc < 0 then Some (-1, g1) else tls_set_interest env g1 c
     }
     else if \<not> ge_poll env c then close_ret env g c
     else on_writable env g c
   }"

definition stream_push :: "gw_env \<Rightarrow> gateway \<Rightarrow> conn_ptr \<Rightarrow> string \<Rightarrow> (int \<times> gateway) option" where
  "stream_push env g c data =
     (if data = [] then stream_kick env g c
      else do {
        x \<leftarrow> g_conns g c;
        let x1 = x\<lparr>c_swbuf := drop (c_swsent x) (c_swbuf x), c_swsent := 0\<rparr>;
        if length (c_swbuf x1) + length data > NTC_STREAM_MAX_BUF then close_ret env (set_conn g c x1) c
        else (case buf_reserve env (c_swcap x1) (length (c_swbuf x1) + length data) of
                None \<Rightarrow> close_ret env (set_conn g c x1) c
              | Some cap \<Rightarrow>
                  stream_kick env (set_conn g c (x1\<lparr>c_swcap := cap, c_swbuf := c_swbuf x1 @ data\<rparr>)) c)
      })"

definition gw_deliver_begin :: "gw_env \<Rightarrow> gateway \<Rightarrow> u32 \<Rightarrow> byte list \<Rightarrow> gateway option" where
  "gw_deliver_begin env g rid payload =
     (case gw_conn_for_id (g_slots g) rid of
        None \<Rightarrow> Some g
      | Some c \<Rightarrow>
          (case ntc_wire_decode_response_begin payload of
             None \<Rightarrow> do {
               g1 \<leftarrow> gw_detach g rid c;
               (rc, g2) \<leftarrow> respond_and_flush env g1 c 502 (json_error ''bad stream begin'');
               Some g2 }
           | Some (status, flags, ctype) \<Rightarrow> do {
               x \<leftarrow> g_conns g c;
               let g1 = rec_status g status;
               let x1 = x\<lparr>c_streaming := True, c_stream_sse := (flags AND NTC_STREAM_FLAG_SSE \<noteq> 0), c_state := CS_STREAM\<rparr>;
               let eh = cstr (c_extra_headers x1);
               (case ntc_http_format_stream_head (ge_grant env) status (ntc_http_status_text status) ctype
                       (c_stream_sse x1) (if eh \<noteq> [] then Some eh else None) of
                  Inl _ \<Rightarrow> conn_close env (set_conn g1 c x1) c
                | Inr hdr \<Rightarrow> do {
                    let (x2, log) = access_log env g1 x1 status;
                    (rc, g2) \<leftarrow> stream_push env ((set_conn g1 c (x2\<lparr>c_stream_head_sent := True\<rparr>))\<lparr>g_log := log\<rparr>) c hdr;
                    Some g2 })
             }))"

definition gw_deliver_chunk :: "gw_env \<Rightarrow> gateway \<Rightarrow> u32 \<Rightarrow> byte list \<Rightarrow> gateway option" where
  "gw_deliver_chunk env g rid payload =
     (case gw_conn_for_id (g_slots g) rid of
        None \<Rightarrow> Some g
      | Some c \<Rightarrow> do {
          x \<leftarrow> g_conns g c;
          if \<not> c_streaming x then Some g
          else
            (case ntc_wire_decode_chunk payload of
               None \<Rightarrow> Some g
             | Some data \<Rightarrow>
                 if data = [] then Some g
                 else if c_stream_sse x then do { (rc, g1) \<leftarrow> stream_push env g c data; Some g1 }
                 else do {
                   (rc, g1) \<leftarrow> stream_push env g c (fmt_hex (length data) @ CRLF);
                   if rc < 0 then Some g1
                   else do {
                     (rc, g2) \<leftarrow> stream_push env g1 c data;
                     if rc < 0 then Some g2
                     else do { (rc, g3) \<leftarrow> stream_push env g2 c CRLF; Some g3 }
                   }
                 })
        })"

definition gw_deliver_end :: "gw_env \<Rightarrow> gateway \<Rightarrow> u32 \<Rightarrow> gateway option" where
  "gw_deliver_end env g rid =
     (case gw_conn_for_id (g_slots g) rid of
        None \<Rightarrow> Some g
      | Some c \<Rightarrow> do {
          g1 \<leftarrow> gw_detach g rid c;
          x \<leftarrow> g_conns g1 c;
          if \<not> c_streaming x then conn_close env g1 c
          else do {
            let g2 = set_conn g1 c (x\<lparr>c_stream_ended := True\<rparr>);
            (rc, g3) \<leftarrow> stream_push env g2 c (if \<not> c_stream_sse x then last_chunk else []);
            Some g3
          }
        })"

subsection \<open>WebSockets\<close>

definition gw_ws_deliver :: "gw_env \<Rightarrow> gateway \<Rightarrow> u32 \<Rightarrow> byte list \<Rightarrow> gateway option" where
  "gw_ws_deliver env g rid payload =
     (case gw_conn_for_id (g_slots g) rid of
        None \<Rightarrow> Some g
      | Some c \<Rightarrow> do {
          x \<leftarrow> g_conns g c;
          if \<not> c_is_ws x then Some g
          else
            (case ntc_wire_decode_ws_msg payload of
               None \<Rightarrow> Some g
             | Some (opcode, data) \<Rightarrow>
                 let wsop = (if opcode = NTC_WS_BIN then NTC_WS_BIN else NTC_WS_TEXT); cap = length data + 16
                 in if \<not> ge_alloc env cap then Some g
                    else
                      (case ntc_ws_encode wsop (bytes_of data) cap of
                         None \<Rightarrow> Some g
                       | Some fr \<Rightarrow> do { (rc, g1) \<leftarrow> stream_push env g c (chars_of fr); Some g1 }))
        })"

definition gw_ws_deliver_close :: "gw_env \<Rightarrow> gateway \<Rightarrow> u32 \<Rightarrow> gateway option" where
  "gw_ws_deliver_close env g rid =
     (case gw_conn_for_id (g_slots g) rid of
        None \<Rightarrow> Some g
      | Some c \<Rightarrow> do {
          g1 \<leftarrow> gw_detach g rid c;
          (case ntc_ws_encode NTC_WS_CLOSE [] 4 of
             None \<Rightarrow> conn_close env g1 c
           | Some cf \<Rightarrow> do {
               x \<leftarrow> g_conns g1 c;
               (rc, g2) \<leftarrow> stream_push env (set_conn g1 c (x\<lparr>c_stream_ended := True\<rparr>)) c (chars_of cf);
               Some g2 })
        })"

text \<open>The \<open>recv\<close> loop into a fixed buffer: why it stopped, the buffer, the results left.\<close>

datatype recv_end = Recv_full | Recv_eof | Recv_wait | Recv_fail

fun recv_loop :: "nat \<Rightarrow> recv_res list \<Rightarrow> string \<Rightarrow> recv_end \<times> string \<times> recv_res list" where
  "recv_loop cap [] buf = (if length buf \<ge> cap then Recv_full else Recv_wait, buf, [])"
| "recv_loop cap (r # rs) buf =
     (if length buf \<ge> cap then (Recv_full, buf, r # rs)
      else case r of
             Rcvd s \<Rightarrow>
               if s = [] then (Recv_eof, buf, rs)
               else if length s \<le> cap - length buf then recv_loop cap rs (buf @ s)
               else (Recv_full, buf @ take (cap - length buf) s, Rcvd (drop (cap - length buf) s) # rs)
           | Rcv_eof \<Rightarrow> (Recv_eof, buf, rs)
           | Rcv_eintr \<Rightarrow> recv_loop cap rs buf
           | Rcv_again \<Rightarrow> (Recv_wait, buf, rs)
           | Rcv_err \<Rightarrow> (Recv_fail, buf, rs))"

text \<open>One decoded frame of a client.\<close>

definition ws_relay :: "gw_env \<Rightarrow> gateway \<Rightarrow> conn_ptr \<Rightarrow> ws_frame \<Rightarrow> (int \<times> gateway) option" where
  "ws_relay env g c f = do {
     x \<leftarrow> g_conns g c;
     if ws_opcode f = NTC_WS_CLOSE then close_ret env g c
     else if ws_opcode f = NTC_WS_PING then
       (case ntc_ws_encode NTC_WS_PONG (if length (ws_payload f) > 125 then [] else ws_payload f) 160 of
          None \<Rightarrow> Some (0, g)
        | Some pong \<Rightarrow> do {
            (rc, g1) \<leftarrow> stream_push env g c (chars_of pong);
            Some (if rc < 0 then -1 else 0, g1) })
     else if ws_opcode f = NTC_WS_PONG then Some (0, g)
     else if c_inflight x then
       (case c_wait_ctrl x of
          None \<Rightarrow> Some (0, g)
        | Some t \<Rightarrow>
            let opcode = (if ws_opcode f = NTC_WS_BIN then NTC_WS_BIN else NTC_WS_TEXT);
                cap = length (ws_payload f) + 16
            in if \<not> ge_alloc env cap then Some (0, g)
               else
                 (case ntc_wire_encode_ws_msg opcode (chars_of (ws_payload f)) cap of
                    None \<Rightarrow> Some (0, g)
                  | Some enc \<Rightarrow> do {
                      (rc, g1) \<leftarrow> ctrl_queue env g t NTC_MSG_WS_MSG (c_req_id x) enc;
                      g2 \<leftarrow> (if rc = 0 then ctrl_update_poll g1 t else Some g1);
                      Some (0, g2) }))
     else Some (0, g)
   }"

lemma ws_decode_consumes: "ntc_ws_decode buf = Frame f n \<Longrightarrow> 0 < n \<and> n \<le> length buf"
  by (auto simp: ntc_ws_decode_def ws_length_def Let_def split: if_splits option.splits)

text \<open>The frame loop, from the bytes at \<open>off\<close>; it yields the bytes that stay in the buffer.\<close>

function ws_frames :: "gw_env \<Rightarrow> gateway \<Rightarrow> conn_ptr \<Rightarrow> byte list \<Rightarrow> (int \<times> byte list \<times> gateway) option" where
  "ws_frames env g c buf =
     (if buf = [] then Some (0, buf, g)
      else case ntc_ws_decode buf of
             Need_more \<Rightarrow> Some (0, buf, g)
           | Malformed \<Rightarrow> do { (rc, g1) \<leftarrow> close_ret env g c; Some (rc, buf, g1) }
           | Frame f n \<Rightarrow>
               (case ws_relay env g c f of
                  None \<Rightarrow> None
                | Some (rc, g1) \<Rightarrow> if rc < 0 then Some (-1, buf, g1) else ws_frames env g1 c (drop n buf)))"
  by pat_completeness auto
termination
  by (relation "measure (\<lambda>(env, g, c, buf). length buf)") (auto dest: ws_decode_consumes)

declare ws_frames.simps [simp del, loop_simps]

definition on_ws_readable :: "gw_env \<Rightarrow> gateway \<Rightarrow> conn_ptr \<Rightarrow> (int \<times> gateway) option" where
  "on_ws_readable env g c = do {
     x \<leftarrow> g_conns g c;
     let (e, buf, peer) = recv_loop NTC_CONN_RBUF (c_peer x) (c_rbuf x);
     let g1 = set_conn g c (x\<lparr>c_rbuf := buf, c_peer := peer\<rparr>);
     if e \<noteq> Recv_wait then close_ret env g1 c
     else do {
       (rc, rest, g2) \<leftarrow> ws_frames env g1 c (bytes_of buf);
       if rc < 0 then Some (-1, g2)
       else do {
         y \<leftarrow> g_conns g2 c;
         Some (0, set_conn g2 c (y\<lparr>c_rbuf := chars_of rest\<rparr>))
       }
     }
   }"

subsection \<open>Services and forwarding\<close>

definition svc_n :: "service \<Rightarrow> nat" where
  "svc_n svc = (if sv_replicas svc > 0 then nat (sv_replicas svc) else 1)"

definition svc_pick :: "service \<Rightarrow> ctrl_ptr option \<times> service" where
  "svc_pick svc =
     (let n = svc_n svc
      in case find (\<lambda>k. sv_conns svc ! ((sv_rr svc + k) mod n) \<noteq> None) [0 ..< n] of
           None \<Rightarrow> (None, svc)
         | Some k \<Rightarrow> let i = (sv_rr svc + k) mod n in (sv_conns svc ! i, svc\<lparr>sv_rr := (i + 1) mod n\<rparr>))"

definition svc_any_live :: "service \<Rightarrow> bool" where
  "svc_any_live svc = list_ex (\<lambda>i. sv_conns svc ! i \<noteq> None) [0 ..< svc_n svc]"

definition svc_live_count :: "service \<Rightarrow> nat" where
  "svc_live_count svc = length (filter (\<lambda>i. sv_conns svc ! i \<noteq> None) [0 ..< svc_n svc])"

definition svc_slot_of :: "service \<Rightarrow> ctrl_ptr \<Rightarrow> nat option" where
  "svc_slot_of svc t = find (\<lambda>i. sv_conns svc ! i = Some t) [0 ..< NTC_MAX_REPLICAS]"

abbreviation set_svc :: "gateway \<Rightarrow> nat \<Rightarrow> service \<Rightarrow> gateway" where
  "set_svc g i s \<equiv> g\<lparr>g_services := (g_services g)[i := s]\<rparr>"

text \<open>The target of a forward, with the round-robin cursor moved.\<close>

definition gw_target :: "gateway \<Rightarrow> nat \<Rightarrow> ctrl_ptr option \<times> gateway" where
  "gw_target g i =
     (let svc = g_services g ! i
      in if sv_disabled svc then (None, g)
         else let (t, svc') = svc_pick svc in (t, set_svc g i svc'))"

definition gw_forward :: "gw_env \<Rightarrow> gateway \<Rightarrow> conn_ptr \<Rightarrow> ntc_request \<Rightarrow> nat \<Rightarrow> (int \<times> gateway) option" where
  "gw_forward env g0 c req svc =
     (let (target, g) = gw_target g0 svc
      in case target of
           None \<Rightarrow> respond_and_flush env g c 503 (json_error ''service unavailable'')
         | Some t \<Rightarrow>
             if \<not> ge_grant env (NTC_CONN_RBUF + 1024) then respond_and_flush env g c 500 (json_error ''oom'')
             else
               (case ntc_wire_encode_request req (NTC_CONN_RBUF + 1024) of
                  None \<Rightarrow> respond_and_flush env g c 500 (json_error ''encode failed'')
                | Some enc \<Rightarrow>
                    (case gw_alloc_id (g_slots g) c of
                       None \<Rightarrow> respond_and_flush env g c 503 (json_error ''too many in-flight'')
                     | Some (rid, slots') \<Rightarrow> do {
                         (rc, g1) \<leftarrow> ctrl_queue env (g\<lparr>g_slots := slots'\<rparr>) t NTC_MSG_REQUEST rid enc;
                         if rc \<noteq> 0 then respond_and_flush env (gw_release g1 rid) c 503 (json_error ''queue full'')
                         else do {
                           x \<leftarrow> g_conns g1 c;
                           g2 \<leftarrow> ctrl_update_poll
                                   (set_conn g1 c (x\<lparr>c_state := CS_WAIT, c_req_id := rid, c_inflight := True, c_wait_ctrl := Some t\<rparr>)) t;
                           Some (0, g2)
                         }
                       })))"

definition ws_response_head :: "string \<Rightarrow> string" where
  "ws_response_head accept = snprintf 256
     (''HTTP/1.1 101 Switching Protocols'' @ CRLF @ ''Upgrade: websocket'' @ CRLF @ ''Connection: Upgrade'' @ CRLF @
      ''Sec-WebSocket-Accept: '' @ accept @ CRLF @ CRLF)"

definition gw_ws_upgrade :: "gw_env \<Rightarrow> gateway \<Rightarrow> conn_ptr \<Rightarrow> ntc_request \<Rightarrow> nat \<Rightarrow> (int \<times> gateway) option" where
  "gw_ws_upgrade env g0 c req svc = do {
     x0 \<leftarrow> g_conns g0 c;
     if c_tls x0 \<noteq> None then respond_and_flush env g0 c 400 (json_error ''wss not supported yet'')
     else
       (let (target, g) = gw_target g0 svc
        in case target of
             None \<Rightarrow> respond_and_flush env g c 503 (json_error ''service unavailable'')
           | Some t \<Rightarrow>
               let key = ntc_http_header req ''sec-websocket-key''
               in if key = [] \<or> length key > 64
                  then respond_and_flush env g c 400 (json_error ''missing Sec-WebSocket-Key'')
                  else if \<not> ge_alloc env (NTC_CONN_RBUF + 1024) then respond_and_flush env g c 500 (json_error ''oom'')
                  else
                    (case ntc_wire_encode_request req (NTC_CONN_RBUF + 1024) of
                       None \<Rightarrow> respond_and_flush env g c 500 (json_error ''encode failed'')
                     | Some enc \<Rightarrow>
                         (case gw_alloc_id (g_slots g) c of
                            None \<Rightarrow> respond_and_flush env g c 503 (json_error ''too many in-flight'')
                          | Some (rid, slots') \<Rightarrow> do {
                              (rc, g1) \<leftarrow> ctrl_queue env (g\<lparr>g_slots := slots'\<rparr>) t NTC_MSG_WS_OPEN rid enc;
                              if rc \<noteq> 0 then respond_and_flush env (gw_release g1 rid) c 503 (json_error ''queue full'')
                              else do {
                                g2 \<leftarrow> ctrl_update_poll g1 t;
                                x \<leftarrow> g_conns g2 c;
                                let (x1, log) = access_log env g2
                                  (x\<lparr>c_req_id := rid, c_inflight := True, c_wait_ctrl := Some t, c_is_ws := True,
                                     c_streaming := True, c_stream_head_sent := True, c_state := CS_WS, c_rbuf := []\<rparr>) 101;
                                stream_push env ((set_conn g2 c x1)\<lparr>g_log := log\<rparr>) c
                                  (ws_response_head (ntc_ws_accept_key (ge_sha1 env) key 40))
                              }
                            })))
   }"

subsection \<open>Controller sockets\<close>

fun fold_opt :: "('s \<Rightarrow> 'a \<Rightarrow> 's option) \<Rightarrow> 's \<Rightarrow> 'a list \<Rightarrow> 's option" where
  "fold_opt f s [] = Some s"
| "fold_opt f s (a # as) = (case f s a of None \<Rightarrow> None | Some s' \<Rightarrow> fold_opt f s' as)"

text \<open>One turn of the loop that fails the requests waiting for a dead controller.\<close>

definition fail_waiter :: "gw_env \<Rightarrow> ctrl_ptr \<Rightarrow> string \<Rightarrow> gateway \<Rightarrow> nat \<Rightarrow> gateway option" where
  "fail_waiter env t why g i =
     (case sl_pending (g_slots g) ! i of
        None \<Rightarrow> Some g
      | Some c \<Rightarrow> do {
          x \<leftarrow> g_conns g c;
          if c_wait_ctrl x \<noteq> Some t then Some g
          else
            (let g1 = set_conn (g\<lparr>g_slots := gw_free_slot (g_slots g) i\<rparr>) c (x\<lparr>c_inflight := False\<rparr>)
             in if c_stream_head_sent x then conn_close env g1 c
                else do { (rc, g2) \<leftarrow> respond_and_flush env g1 c 502 (json_error why); Some g2 })
        })"

definition next_backoff :: "int \<Rightarrow> int" where
  "next_backoff b = (let b' = (if b \<noteq> 0 then b * 2 else NTC_BACKOFF_BASE) in if b' > NTC_BACKOFF_MAX then NTC_BACKOFF_MAX else b')"

text \<open>The service loses a replica: restart it after the next backoff.\<close>

definition svc_lost :: "gw_env \<Rightarrow> ctrl_ptr \<Rightarrow> service \<Rightarrow> service" where
  "svc_lost env t svc =
     (case svc_slot_of svc t of
        None \<Rightarrow> svc
      | Some s \<Rightarrow>
          let b = next_backoff (sv_backoff_ms svc ! s)
          in svc\<lparr>sv_conns := (sv_conns svc)[s := None], sv_restart_count := sv_restart_count svc + 1,
                 sv_backoff_ms := (sv_backoff_ms svc)[s := b],
                 sv_restart_at := (sv_restart_at svc)[s := ge_now_ms env + b]\<rparr>)"

definition controller_died :: "gw_env \<Rightarrow> gateway \<Rightarrow> ctrl_ptr \<Rightarrow> gateway option" where
  "controller_died env g t = do {
     ct \<leftarrow> g_ctrls g t;
     g1 \<leftarrow> fold_opt (fail_waiter env t ''controller died'') g [0 ..< NTC_MAX_INFLIGHT];
     let g2 = set_svc g1 (ct_svc ct) (svc_lost env t (g_services g1 ! ct_svc ct));
     Some (g2\<lparr>g_ctrls := (g_ctrls g2)(t := None)\<rparr>)
   }"

definition on_ctrl_writable :: "gw_env \<Rightarrow> gateway \<Rightarrow> ctrl_ptr \<Rightarrow> gateway option" where
  "on_ctrl_writable env g t = do {
     ct \<leftarrow> g_ctrls g t;
     let (d, sent, sock) = send_loop (ct_sock ct) (ct_wbuf ct) (ct_wsent ct);
     let ct1 = ct\<lparr>ct_sock := sock, ct_wsent := sent,
                  ct_sent := ct_sent ct @ take (sent - ct_wsent ct) (drop (ct_wsent ct) (ct_wbuf ct))\<rparr>;
     (case d of
        Failed \<Rightarrow> controller_died env (set_ctrl g t ct1) t
      | Blocked \<Rightarrow> ctrl_update_poll (set_ctrl g t ct1) t
      | Drained \<Rightarrow> ctrl_update_poll (set_ctrl g t (ct1\<lparr>ct_wsent := 0, ct_wbuf := []\<rparr>)) t)
   }"

lemma grow_to_ge: "0 < ncap \<Longrightarrow> need \<le> grow_to ncap need"
proof (induction ncap need rule: grow_to.induct)
  case (1 ncap need)
  then show ?case by (subst grow_to.simps) auto
qed

lemma buf_reserve_ge: "buf_reserve env cap need = Some cap' \<Longrightarrow> need \<le> cap'"
  using grow_to_ge by (auto simp: buf_reserve_def Let_def split: if_splits)

fun recv_size :: "recv_res list \<Rightarrow> nat" where
  "recv_size [] = 0"
| "recv_size (r # rs) = (case r of Rcvd s \<Rightarrow> length s | _ \<Rightarrow> 0) + recv_size rs"

text \<open>The \<open>recv\<close> loop of a controller socket, into a buffer that grows.\<close>

function ctrl_recv :: "gw_env \<Rightarrow> recv_res list \<Rightarrow> nat \<Rightarrow> byte list \<Rightarrow> recv_end \<times> byte list \<times> nat \<times> recv_res list" where
  "ctrl_recv env rs cap buf =
     (case buf_reserve env cap (length buf + 16384) of
        None \<Rightarrow> (Recv_fail, buf, cap, rs)
      | Some cap1 \<Rightarrow>
          (case rs of
             [] \<Rightarrow> (Recv_wait, buf, cap1, [])
           | r # rs1 \<Rightarrow>
               (case r of
                  Rcvd s \<Rightarrow>
                    let room = cap1 - length buf; buf1 = buf @ bytes_of (take room s)
                    in if s = [] then (Recv_eof, buf, cap1, rs1)
                       else if length buf1 > NTC_CTRL_MAX_RBUF then (Recv_full, buf1, cap1, rs1)
                       else ctrl_recv env (if length s \<le> room then rs1 else Rcvd (drop room s) # rs1) cap1 buf1
                | Rcv_eof \<Rightarrow> (Recv_eof, buf, cap1, rs1)
                | Rcv_eintr \<Rightarrow> ctrl_recv env rs1 cap1 buf
                | Rcv_again \<Rightarrow> (Recv_wait, buf, cap1, rs1)
                | Rcv_err \<Rightarrow> (Recv_fail, buf, cap1, rs1))))"
  by pat_completeness auto
termination
  by (relation "measures [\<lambda>(env, rs, cap, buf). recv_size rs, \<lambda>(env, rs, cap, buf). length rs]")
    (auto dest!: buf_reserve_ge)

declare ctrl_recv.simps [simp del, loop_simps]

definition gw_message :: "gw_env \<Rightarrow> gateway \<Rightarrow> ntc_wire_header \<Rightarrow> byte list \<Rightarrow> gateway option" where
  "gw_message env g h pl =
     (if wh_type h = NTC_MSG_RESPONSE then gw_deliver env g (wh_request_id h) pl
      else if wh_type h = NTC_MSG_RESPONSE_BEGIN then gw_deliver_begin env g (wh_request_id h) pl
      else if wh_type h = NTC_MSG_RESPONSE_CHUNK then gw_deliver_chunk env g (wh_request_id h) pl
      else if wh_type h = NTC_MSG_RESPONSE_END then gw_deliver_end env g (wh_request_id h)
      else if wh_type h = NTC_MSG_WS_MSG then gw_ws_deliver env g (wh_request_id h) pl
      else if wh_type h = NTC_MSG_WS_CLOSE then gw_ws_deliver_close env g (wh_request_id h)
      else Some g)"

lemma wire_frame_consumes: "ntc_wire_read_frame buf = Frame m n \<Longrightarrow> 0 < n \<and> n \<le> length buf"
  by (auto simp: ntc_wire_read_frame_def NTC_WIRE_HEADER_LEN_def Let_def split: if_splits)

text \<open>The frame loop; the flag says that the stream is well formed.\<close>

function ctrl_frames :: "gw_env \<Rightarrow> gateway \<Rightarrow> byte list \<Rightarrow> (bool \<times> byte list \<times> gateway) option" where
  "ctrl_frames env g buf =
     (case ntc_wire_read_frame buf of
        Need_more \<Rightarrow> Some (True, buf, g)
      | Malformed \<Rightarrow> Some (False, buf, g)
      | Frame (h, pl) n \<Rightarrow>
          (case gw_message env g h pl of None \<Rightarrow> None | Some g1 \<Rightarrow> ctrl_frames env g1 (drop n buf)))"
  by pat_completeness auto
termination
  by (relation "measure (\<lambda>(env, g, buf). length buf)") (auto dest: wire_frame_consumes)

declare ctrl_frames.simps [simp del, loop_simps]

definition on_ctrl_readable :: "gw_env \<Rightarrow> gateway \<Rightarrow> ctrl_ptr \<Rightarrow> (int \<times> gateway) option" where
  "on_ctrl_readable env g t = do {
     ct \<leftarrow> g_ctrls g t;
     let (e, buf, cap, peer) = ctrl_recv env (ct_peer ct) (ct_rcap ct) (ct_rbuf ct);
     let g1 = set_ctrl g t (ct\<lparr>ct_rbuf := buf, ct_rcap := cap, ct_peer := peer\<rparr>);
     if e \<noteq> Recv_wait then do { g2 \<leftarrow> controller_died env g1 t; Some (-1, g2) }
     else do {
       (ok, rest, g2) \<leftarrow> ctrl_frames env g1 buf;
       if \<not> ok then do { g3 \<leftarrow> controller_died env g2 t; Some (-1, g3) }
       else do {
         ct2 \<leftarrow> g_ctrls g2 t;
         Some (0, set_ctrl g2 t (ct2\<lparr>ct_rbuf := rest\<rparr>))
       }
     }
   }"

subsection \<open>Client events\<close>

definition conn_new :: "gw_env \<Rightarrow> conn" where
  "conn_new env =
     \<lparr>c_state = CS_READ, c_is_admin = False, c_tls = None, c_inflight = False, c_req_id = 0, c_wait_ctrl = None,
      c_client_ip = [], c_request_id = [], c_extra_headers = [], c_log_method = [], c_log_path = [],
      c_auth_sub = [], c_auth_scope = [], c_req_start = ge_now_ms env, c_logged = False, c_accept_gzip = False,
      c_rbuf = [], c_wbuf = [], c_wsent = 0, c_streaming = False, c_stream_sse = False, c_stream_head_sent = False,
      c_stream_ended = False, c_is_ws = False, c_swbuf = [], c_swsent = 0, c_swcap = 0, c_sock = [], c_peer = [],
      c_sent = []\<rparr>"

definition on_wait_readable :: "gw_env \<Rightarrow> gateway \<Rightarrow> conn_ptr \<Rightarrow> gateway option" where
  "on_wait_readable env g c = do {
     x \<leftarrow> g_conns g c;
     let (r, peer) = recv1 256 (c_peer x);
     let g1 = set_conn g c (x\<lparr>c_peer := peer\<rparr>);
     (case r of
        Rcv_eof \<Rightarrow> conn_close env g1 c
      | Rcv_err \<Rightarrow> conn_close env g1 c
      | Rcvd s \<Rightarrow> if s = [] then conn_close env g1 c else Some g1
      | _ \<Rightarrow> Some g1)
   }"

end
