(* ===== verification/Web.thy ===== *)
theory Web
  imports Router Schema
begin

text \<open>
  The text routines of the gateway (\<open>src/core/server.c\<close>): static file names and their types,
  percent-encoding and query parameters of the OAuth login, the lookup of a request schema,
  and output into a bounded buffer.
\<close>

subsection \<open>Static files\<close>

definition strrchr :: "char \<Rightarrow> string \<Rightarrow> string option" where
  \<comment> \<open>the suffix from the last occurrence\<close>
  "strrchr c s = (if c \<in> set s then Some (c # rev (takeWhile (\<lambda>x. x \<noteq> c) (rev s))) else None)"

definition mime_for :: "string \<Rightarrow> string" where
  "mime_for path =
     (case strrchr (CHR ''.'') path of
        None \<Rightarrow> ''application/octet-stream''
      | Some d \<Rightarrow>
          if d = ''.html'' \<or> d = ''.htm'' then ''text/html; charset=utf-8''
          else if d = ''.css'' then ''text/css''
          else if d = ''.js'' \<or> d = ''.mjs'' then ''application/javascript''
          else if d = ''.json'' then ''application/json''
          else if d = ''.svg'' then ''image/svg+xml''
          else if d = ''.png'' then ''image/png''
          else if d = ''.jpg'' \<or> d = ''.jpeg'' then ''image/jpeg''
          else if d = ''.ico'' then ''image/x-icon''
          else if d = ''.txt'' then ''text/plain; charset=utf-8''
          else if d = ''.wasm'' then ''application/wasm''
          else ''application/octet-stream'')"

definition REL_CAP :: nat where "REL_CAP = 512"
definition FULL_CAP :: nat where "FULL_CAP = 800"

text \<open>The check against traversal: a NUL, or two dots in a row.\<close>

fun bad_rel :: "string \<Rightarrow> bool" where
  "bad_rel [] = False"
| "bad_rel (a # s) = (a = NUL \<or> (a = CHR ''.'' \<and> s \<noteq> [] \<and> hd s = CHR ''.'') \<or> bad_rel s)"

definition static_rel :: "ntc_slice \<Rightarrow> string option" where
  "static_rel path =
     (if length path \<le> 1 then Some ''index.html''
      else let p = drop 1 path
           in if length p \<ge> REL_CAP - 12 then None
              else if bad_rel p then None
              else if last p = CHR ''/'' then Some (p @ snprintf (REL_CAP - length p) ''index.html'')
              else Some p)"

definition static_full :: "string \<Rightarrow> string \<Rightarrow> string" where
  "static_full dir rel = snprintf FULL_CAP (dir @ ''/'' @ rel)"

subsection \<open>Percent-encoding and query parameters\<close>

definition hexval :: "char \<Rightarrow> nat option" where
  "hexval ch =
     (if c_in CHR ''0'' CHR ''9'' ch then Some (ccode ch - 48)
      else if c_in CHR ''a'' CHR ''f'' ch then Some (ccode ch - 97 + 10)
      else if c_in CHR ''A'' CHR ''F'' ch then Some (ccode ch - 65 + 10)
      else None)"

definition isalnum :: "char \<Rightarrow> bool" where
  "isalnum ch \<longleftrightarrow> c_in CHR ''0'' CHR ''9'' ch \<or> c_in CHR ''a'' CHR ''z'' ch \<or> c_in CHR ''A'' CHR ''Z'' ch"

definition unreserved :: "char \<Rightarrow> bool" where
  "unreserved ch \<longleftrightarrow> isalnum ch \<or> ch = CHR ''-'' \<or> ch = CHR ''_'' \<or> ch = CHR ''.'' \<or> ch = CHR ''~''"

definition hex_upper :: "nat \<Rightarrow> char" where
  "hex_upper d = ''0123456789ABCDEF'' ! d"

definition url_char :: "char \<Rightarrow> string" where
  "url_char ch = (if unreserved ch then [ch] else [CHR ''%'', hex_upper (ccode ch div 16), hex_upper (ccode ch mod 16)])"

fun url_encode_loop :: "nat \<Rightarrow> string \<Rightarrow> string \<Rightarrow> string" where
  "url_encode_loop cap out [] = out"
| "url_encode_loop cap out (ch # s) = (if length out + 4 < cap then url_encode_loop cap (out @ url_char ch) s else out)"

definition url_encode :: "string \<Rightarrow> nat \<Rightarrow> string" where
  "url_encode s cap = url_encode_loop cap [] (cstr s)"

fun url_decode :: "string \<Rightarrow> string" where
  "url_decode [] = []"
| "url_decode (p # s) =
     (if p = CHR ''%'' then
        (case s of
           a # b # r \<Rightarrow>
             (case (hexval a, hexval b) of
                (Some hi, Some lo) \<Rightarrow> char_of (hi * 16 + lo) # url_decode r
              | _ \<Rightarrow> p # url_decode s)
         | _ \<Rightarrow> p # url_decode s)
      else if p = CHR ''+'' then CHR '' '' # url_decode s
      else p # url_decode s)"

function query_get :: "ntc_slice \<Rightarrow> string \<Rightarrow> nat \<Rightarrow> string option" where
  "query_get q key cap =
     (if q = [] then None
      else
        let seg = takeWhile (\<lambda>x. x \<noteq> CHR ''&'') q; klen = length key
        in if length seg > klen \<and> take klen seg = key \<and> seg ! klen = CHR ''=''
           then Some (let v = drop (klen + 1) seg in if length v \<ge> cap then take (cap - 1) v else v)
           else if length seg = length q then None
           else query_get (drop (length seg + 1) q) key cap)"
  by pat_completeness auto
termination
  by (relation "measure (\<lambda>(q, key, cap). length q)") auto

declare query_get.simps [simp del, loop_simps]

subsection \<open>Request schemas\<close>

function seg_pattern_match :: "string \<Rightarrow> ntc_slice \<Rightarrow> bool" where
  "seg_pattern_match pat path =
     (case (pat, path) of
        (p # pat1, x # path1) \<Rightarrow>
          if p \<noteq> CHR ''/'' \<or> x \<noteq> CHR ''/'' then False
          else
            let ps = takeWhile (\<lambda>c. c \<noteq> CHR ''/'') pat1; xs = takeWhile (\<lambda>c. c \<noteq> CHR ''/'') path1
            in if ps \<noteq> [] \<and> hd ps = CHR '':''
               then (if xs = [] then False else seg_pattern_match (drop (length ps) pat1) (drop (length xs) path1))
               else if ps \<noteq> xs then False
               else seg_pattern_match (drop (length ps) pat1) (drop (length xs) path1)
      | _ \<Rightarrow> pat = [] \<and> path = [])"
  by pat_completeness auto
termination
  by (relation "measure (\<lambda>(pat, path). length pat)") auto

declare seg_pattern_match.simps [simp del, loop_simps]

fun schema_scan :: "(ntc_slice \<times> ntc_json) list \<Rightarrow> ntc_slice \<Rightarrow> ntc_slice \<Rightarrow> ntc_json option" where
  "schema_scan [] meth path = None"
| "schema_scan ((key, sch) # ms) meth path =
     (case memchr CHR '' '' key of
        None \<Rightarrow> schema_scan ms meth path
      | Some mlen \<Rightarrow>
          if mlen \<noteq> length meth \<or> take mlen key \<noteq> meth then schema_scan ms meth path
          else if seg_pattern_match (drop (mlen + 1) key) path then Some sch
          else schema_scan ms meth path)"

definition gw_schema_for :: "ntc_json option \<Rightarrow> ntc_slice \<Rightarrow> ntc_slice \<Rightarrow> ntc_json option" where
  "gw_schema_for schemas meth path =
     (case schemas of Some (NTC_JSON_OBJ ms) \<Rightarrow> schema_scan ms meth path | _ \<Rightarrow> None)"

subsection \<open>Output into a bounded buffer\<close>

text \<open>
  \<open>off += snprintf(buf + off, cap - off, ...)\<close>: the text in the buffer and the offset, which
  counts what did not fit, too. With \<open>off > cap\<close> the size wraps and the call writes outside the
  buffer: \<open>None\<close>.
\<close>

definition buf_printf :: "nat \<Rightarrow> string \<Rightarrow> (string \<times> nat) option \<Rightarrow> (string \<times> nat) option" where
  "buf_printf cap s st =
     (case st of
        None \<Rightarrow> None
      | Some (buf, off) \<Rightarrow> if off > cap then None else Some (buf @ snprintf (cap - off) s, off + length s))"

text \<open>The loop over rows, which goes on while the offset is below the limit.\<close>

fun buf_rows :: "nat \<Rightarrow> nat \<Rightarrow> ('r \<Rightarrow> string) \<Rightarrow> bool \<Rightarrow> 'r list \<Rightarrow> (string \<times> nat) option \<Rightarrow> (string \<times> nat) option" where
  "buf_rows cap limit f first [] st = st"
| "buf_rows cap limit f first (r # rs) st =
     (case st of
        None \<Rightarrow> None
      | Some (buf, off) \<Rightarrow>
          if off < limit then buf_rows cap limit f False rs (buf_printf cap ((if first then [] else '','') @ f r) st)
          else st)"

text \<open>A JSON string literal; the text is not escaped.\<close>

definition jq :: "string \<Rightarrow> string" where
  "jq s = DQ # s @ [DQ]"

subsection \<open>OpenAPI paths\<close>

text \<open>\<open>:id\<close> becomes \<open>{id}\<close>; the output is cut at 158 characters and its closing brace.\<close>

definition OA_CAP :: nat where "OA_CAP = 160"

function openapi_path :: "string \<Rightarrow> string \<Rightarrow> string" where
  "openapi_path out pat =
     (if pat = [] \<or> length out \<ge> OA_CAP - 2 then out
      else if hd pat = CHR '':'' then
        (let out1 = out @ ''{'';
             name = take (OA_CAP - 2 - length out1) (takeWhile (\<lambda>c. c \<noteq> CHR ''/'') (tl pat))
         in openapi_path (out1 @ name @ ''}'') (drop (length name) (tl pat)))
      else openapi_path (out @ [hd pat]) (tl pat))"
  by pat_completeness auto
termination
  by (relation "measure (\<lambda>(out, pat). length pat)") (auto simp: Let_def)

declare openapi_path.simps [simp del, loop_simps]

definition tolower :: "char \<Rightarrow> char" where
  "tolower c = (if c_in CHR ''A'' CHR ''Z'' c then char_of (ccode c + 32) else c)"

end
