(* ===== verification/Supervisor.thy ===== *)
theory Supervisor
  imports Gateway Web
begin

text \<open>
  Controller processes and the control plane (\<open>src/core/server.c\<close>): spawning with the
  handshake, the dev-mode watcher, supervision with backoff, and the commands of the control
  socket. As in \<open>Gateway\<close>, \<open>None\<close> is a memory error.
\<close>

definition NTC_STABLE_MS :: int where "NTC_STABLE_MS = 5000"
definition NTC_MAX_SERVICES :: nat where "NTC_MAX_SERVICES = 256"
definition NTC_DEV_POLL_MS :: int where "NTC_DEV_POLL_MS = 400"

subsection \<open>Spawning\<close>

text \<open>\<open>read_full\<close>: all of the bytes, or failure; and what is left in the stream.\<close>

definition read_full :: "byte list \<Rightarrow> nat \<Rightarrow> (byte list \<times> byte list) option" where
  "read_full inp n = (if length inp < n then None else Some (take n inp, drop n inp))"

definition new_ctrl :: "child \<Rightarrow> nat \<Rightarrow> byte list \<Rightarrow> ctrl" where
  "new_ctrl ch i left =
     \<lparr>ct_svc = i, ct_rbuf = [], ct_rcap = 0, ct_wbuf = [], ct_wsent = 0, ct_wcap = 0, ct_sock = ch_sock ch,
      ct_peer = (if left = [] then ch_peer ch else Rcvd (chars_of left) # ch_peer ch),
      ct_sent = ntc_wire_write_header NTC_MSG_WELCOME 0 0\<rparr>"

definition attach_ctrl :: "gw_env \<Rightarrow> gateway \<Rightarrow> nat \<Rightarrow> nat \<Rightarrow> ctrl_ptr \<Rightarrow> ctrl \<Rightarrow> gateway" where
  "attach_ctrl env g i slot p ct =
     (let svc = g_services g ! i
      in set_svc (set_ctrl g p ct) i
           (svc\<lparr>sv_conns := (sv_conns svc)[slot := Some p],
                sv_spawned_at := (sv_spawned_at svc)[slot := ge_now_ms env]\<rparr>))"

definition spawn_service :: "gw_env \<Rightarrow> gateway \<Rightarrow> nat \<Rightarrow> nat \<Rightarrow> int \<times> gateway" where
  "spawn_service env g i slot =
     (let ch = ge_spawn env i slot
      in if \<not> ch_fork ch then (-1, g)
         else
           case read_full (ch_hello ch) NTC_WIRE_HEADER_LEN of
             None \<Rightarrow> (-1, g)
           | Some (hdr, rest) \<Rightarrow>
               (case ntc_wire_parse_header hdr of
                  None \<Rightarrow> (-1, g)
                | Some h \<Rightarrow>
                    if wh_type h \<noteq> NTC_MSG_HELLO then (-1, g)
                    else
                      let want = (if wh_length h > 256 then 256 else unat (wh_length h));
                          left = (case read_full rest want of None \<Rightarrow> [] | Some (_, r) \<Rightarrow> r)
                      in if \<not> ch_welcome ch then (-1, g)
                         else if \<not> ch_setup ch then (-1, g)
                         else
                           (0, attach_ctrl env g i slot (ch_ptr ch) (new_ctrl ch i left))))"

subsection \<open>Supervision\<close>

definition supervise_slot :: "gw_env \<Rightarrow> nat \<Rightarrow> gateway \<Rightarrow> nat \<Rightarrow> gateway" where
  "supervise_slot env i g s =
     (let svc = g_services g ! i; t = ge_now_ms env
      in case sv_conns svc ! s of
           None \<Rightarrow>
             if t < sv_restart_at svc ! s then g
             else
               (case spawn_service env g i s of
                  (rc, g1) \<Rightarrow>
                    if rc = 0 then g1
                    else let b = next_backoff (sv_backoff_ms svc ! s)
                         in set_svc g1 i (svc\<lparr>sv_backoff_ms := (sv_backoff_ms svc)[s := b],
                                              sv_restart_at := (sv_restart_at svc)[s := t + b]\<rparr>))
         | Some _ \<Rightarrow>
             if sv_backoff_ms svc ! s > NTC_BACKOFF_BASE \<and> t - sv_spawned_at svc ! s > NTC_STABLE_MS
             then set_svc g i (svc\<lparr>sv_backoff_ms := (sv_backoff_ms svc)[s := NTC_BACKOFF_BASE]\<rparr>)
             else g)"

definition supervise_service :: "gw_env \<Rightarrow> gateway \<Rightarrow> nat \<Rightarrow> gateway" where
  "supervise_service env g i =
     (if sv_disabled (g_services g ! i) then g
      else foldl (supervise_slot env i) g [0 ..< svc_n (g_services g ! i)])"

definition supervise :: "gw_env \<Rightarrow> gateway \<Rightarrow> gateway" where
  "supervise env g = foldl (supervise_service env) g [0 ..< length (g_services g)]"

definition slot_timeout :: "int \<Rightarrow> service \<Rightarrow> int \<Rightarrow> nat \<Rightarrow> int" where
  "slot_timeout t svc lim0 s =
     (if sv_conns svc ! s \<noteq> None then lim0
      else let d = sv_restart_at svc ! s - t; d = (if d < 0 then 0 else d)
           in if d < lim0 then d else lim0)"

definition poll_timeout :: "gw_env \<Rightarrow> gateway \<Rightarrow> int" where
  "poll_timeout env g =
     (let lim1 = foldl (\<lambda>lim0 svc. if sv_disabled svc then lim0
                          else foldl (slot_timeout (ge_now_ms env) svc) lim0 [0 ..< svc_n svc])
                   1000 (g_services g)
      in if g_dev_watch g \<and> lim1 > NTC_DEV_POLL_MS then NTC_DEV_POLL_MS else lim1)"

subsection \<open>Dev mode\<close>

definition CHILD_CAP :: nat where "CHILD_CAP = 1024"

definition skip_name :: "string \<Rightarrow> bool" where
  "skip_name name \<longleftrightarrow> (name \<noteq> [] \<and> hd name = CHR ''.'') \<or> name = ''build'' \<or> name = ''node_modules''"

fun tree_max_mtime :: "string \<Rightarrow> fs_node \<Rightarrow> int"
and dir_max_mtime :: "string \<Rightarrow> (string \<times> fs_node) list \<Rightarrow> int \<Rightarrow> int" where
  "tree_max_mtime path (Fs_file m) = m"
| "tree_max_mtime path Fs_other = -1"
| "tree_max_mtime path Fs_unreadable = -1"
| "tree_max_mtime path (Fs_dir es) = dir_max_mtime path es (-1)"
| "dir_max_mtime path [] mx = mx"
| "dir_max_mtime path ((name, node) # es) mx =
     (if skip_name name then dir_max_mtime path es mx
      else if length (path @ ''/'' @ name) \<ge> CHILD_CAP then dir_max_mtime path es mx
      else let m = tree_max_mtime (path @ ''/'' @ name) node
           in dir_max_mtime path es (if m > mx then m else mx))"

definition dev_teardown_slot :: "gw_env \<Rightarrow> gateway \<Rightarrow> nat \<Rightarrow> nat \<Rightarrow> gateway option" where
  "dev_teardown_slot env g i slot =
     (case sv_conns (g_services g ! i) ! slot of
        None \<Rightarrow> Some g
      | Some t \<Rightarrow> do {
          ct \<leftarrow> g_ctrls g t;
          g1 \<leftarrow> fold_opt (fail_waiter env t ''reloading'') g [0 ..< NTC_MAX_INFLIGHT];
          let svc = g_services g1 ! i;
          Some ((set_svc g1 i (svc\<lparr>sv_conns := (sv_conns svc)[slot := None]\<rparr>))\<lparr>g_ctrls := (g_ctrls g1)(t := None)\<rparr>)
        })"

definition dev_reload_slot :: "gw_env \<Rightarrow> nat \<Rightarrow> gateway \<Rightarrow> nat \<Rightarrow> gateway option" where
  "dev_reload_slot env i g s = do {
     g1 \<leftarrow> dev_teardown_slot env g i s;
     let svc = g_services g1 ! i;
     Some (set_svc g1 i (svc\<lparr>sv_backoff_ms := (sv_backoff_ms svc)[s := 0],
                              sv_restart_at := (sv_restart_at svc)[s := ge_now_ms env]\<rparr>))
   }"

definition dev_reload_service :: "gw_env \<Rightarrow> gateway \<Rightarrow> nat \<Rightarrow> gateway option" where
  "dev_reload_service env g i = fold_opt (dev_reload_slot env i) g [0 ..< svc_n (g_services g ! i)]"

definition path_mtime_ns :: "gw_env \<Rightarrow> string \<Rightarrow> int" where
  "path_mtime_ns env path =
     (case ge_mtime env path of None \<Rightarrow> -1 | Some m \<Rightarrow> m)"

text \<open>One watched path: its new last-seen time and whether it changed.\<close>

definition dev_scan_path :: "gw_env \<Rightarrow> string \<times> int \<Rightarrow> (string \<times> int) \<times> bool" where
  "dev_scan_path env pm =
     (case pm of (path, seen) \<Rightarrow>
        let m = (case ge_tree env path of None \<Rightarrow> -1 | Some n \<Rightarrow> tree_max_mtime path n)
        in if m < 0 then (pm, False)
           else if seen = 0 then ((path, m), False)
           else if m > seen then ((path, m), True)
           else (pm, False))"

definition dev_check_service :: "gw_env \<Rightarrow> gateway \<Rightarrow> nat \<Rightarrow> gateway option" where
  "dev_check_service env g i =
     (let svc = g_services g ! i
      in if sv_disabled svc then Some g
         else let m = path_mtime_ns env (sv_bin svc)
              in if m < 0 then Some g
                 else if sv_bin_mtime svc = 0 then Some (set_svc g i (svc\<lparr>sv_bin_mtime := m\<rparr>))
                 else if m \<noteq> sv_bin_mtime svc then dev_reload_service env (set_svc g i (svc\<lparr>sv_bin_mtime := m\<rparr>)) i
                 else Some g)"

definition dev_tick :: "gw_env \<Rightarrow> gateway \<Rightarrow> gateway option" where
  "dev_tick env g =
     (if \<not> g_dev_watch g then Some g
      else let now = ge_now_ms env
           in if g_dev_last_poll g \<noteq> 0 \<and> now - g_dev_last_poll g < NTC_DEV_POLL_MS then Some g
              else
                let rs = map (dev_scan_path env) (g_dev_paths g);
                    g1 = g\<lparr>g_dev_last_poll := now, g_dev_paths := map fst rs\<rparr>;
                    g2 = (if list_ex snd rs
                          then (case g_dev_build g1 of None \<Rightarrow> g1
                                | Some cmd \<Rightarrow> g1\<lparr>g_builds := g_builds g1 @ [cmd]\<rparr>)
                          else g1)
                in fold_opt (dev_check_service env) g2 [0 ..< length (g_services g2)])"

subsection \<open>Services of the registry\<close>

definition find_service :: "gateway \<Rightarrow> string \<Rightarrow> nat option" where
  "find_service g name = find (\<lambda>i. sv_name (g_services g ! i) = name) [0 ..< length (g_services g)]"

definition zero_service :: "string \<Rightarrow> string \<Rightarrow> service" where
  "zero_service name bin =
     \<lparr>sv_name = name, sv_bin = bin, sv_conns = replicate NTC_MAX_REPLICAS None, sv_replicas = 1, sv_rr = 0,
      sv_disabled = False, sv_restart_count = 0, sv_restart_at = replicate NTC_MAX_REPLICAS 0,
      sv_spawned_at = replicate NTC_MAX_REPLICAS 0, sv_backoff_ms = replicate NTC_MAX_REPLICAS 0, sv_bin_mtime = 0\<rparr>"

definition service_add_live :: "gw_env \<Rightarrow> gateway \<Rightarrow> string \<Rightarrow> string \<Rightarrow> nat option \<times> gateway" where
  "service_add_live env g name bin =
     (case find_service g name of
        Some i \<Rightarrow> (Some i, set_svc g i ((g_services g ! i)\<lparr>sv_bin := bin, sv_disabled := False\<rparr>))
      | None \<Rightarrow>
          if length (g_services g) \<ge> NTC_MAX_SERVICES then (None, g)
          else if \<not> ge_dup env then (None, g)
          else let i = length (g_services g);
                   g1 = g\<lparr>g_services := g_services g @ [zero_service name bin]\<rparr>
               in (Some i, snd (spawn_service env g1 i 0)))"

text \<open>Freeing a replica's controller without looking at the requests that wait for it.\<close>

definition free_replica :: "nat \<Rightarrow> gateway \<Rightarrow> nat \<Rightarrow> gateway option" where
  "free_replica i g s =
     (let svc = g_services g ! i
      in case sv_conns svc ! s of
           None \<Rightarrow> Some g
         | Some t \<Rightarrow> do {
             ct \<leftarrow> g_ctrls g t;
             Some ((set_svc g i (svc\<lparr>sv_conns := (sv_conns svc)[s := None]\<rparr>))\<lparr>g_ctrls := (g_ctrls g)(t := None)\<rparr>)
           })"

definition reg_write :: "gw_env \<Rightarrow> gateway \<Rightarrow> reg_op \<Rightarrow> bool \<times> gateway" where
  "reg_write env g op = (if ge_reg_ok env (g_reg g) op then (True, g\<lparr>g_reg := g_reg g @ [op]\<rparr>) else (False, g))"

subsection \<open>Control commands\<close>

text \<open>\<open>strtok_r(..., " ", ...)\<close>: the token and what is saved for the next call.\<close>

definition strtok :: "string \<Rightarrow> string option \<times> string" where
  "strtok s =
     (let s1 = dropWhile (\<lambda>c. c = CHR '' '') s
      in if s1 = [] then (None, [])
         else (Some (takeWhile (\<lambda>c. c \<noteq> CHR '' '') s1), drop 1 (dropWhile (\<lambda>c. c \<noteq> CHR '' '') s1)))"

definition m_u64 :: "u64 \<Rightarrow> string" where "m_u64 w = fmt_nat (unat w)"

definition status_json :: "gw_env \<Rightarrow> gateway \<Rightarrow> string" where
  "status_json env g =
     ''OK {'' @ jq ''app'' @ '':'' @ jq (g_app_name g) @ '','' @
     jq ''uptime_s'' @ '':'' @ fmt_int ((ge_now_ms env - m_start_ms (g_m g)) div 1000) @ '','' @
     jq ''services'' @ '':'' @ fmt_nat (length (g_services g)) @ '','' @
     jq ''routes'' @ '':'' @ fmt_nat (ntc_router_count (Some (g_router g))) @ '','' @
     jq ''backend'' @ '':'' @ jq (ge_backend env) @ '','' @
     jq ''requests'' @ '':'' @ m_u64 (m_requests_total (g_m g)) @ '','' @
     jq ''status_2xx'' @ '':'' @ m_u64 (m_status_2xx (g_m g)) @ '','' @
     jq ''status_4xx'' @ '':'' @ m_u64 (m_status_4xx (g_m g)) @ '','' @
     jq ''status_5xx'' @ '':'' @ m_u64 (m_status_5xx (g_m g)) @ '','' @
     jq ''forwarded'' @ '':'' @ m_u64 (m_forwarded (g_m g)) @ '','' @
     jq ''builtin'' @ '':'' @ m_u64 (m_builtin (g_m g)) @ '','' @
     jq ''inflight_cap'' @ '':'' @ fmt_nat NTC_MAX_INFLIGHT @ ''}'' @ [LF]"

definition service_row_json :: "ntc_service_row \<Rightarrow> string" where
  "service_row_json r = ''{'' @ jq ''name'' @ '':'' @ jq (sr_name r) @ '','' @ jq ''bin'' @ '':'' @ jq (sr_bin r) @ ''}''"

definition route_row_json :: "ntc_route_row \<Rightarrow> string" where
  "route_row_json r =
     ''{'' @ jq ''method'' @ '':'' @ jq (rr_method r) @ '','' @ jq ''pattern'' @ '':'' @ jq (rr_pattern r) @ '','' @
     jq ''service'' @ '':'' @ jq (rr_service r) @ ''}''"

text \<open>The two list commands; \<open>None\<close> when a write leaves the buffer.\<close>

definition list_reply :: "nat \<Rightarrow> nat \<Rightarrow> ('r \<Rightarrow> string) \<Rightarrow> 'r list \<Rightarrow> string option" where
  "list_reply cap slack f rows =
     map_option fst (buf_printf cap ('']'' @ [LF])
       (buf_rows cap (cap - slack) f True rows (buf_printf cap ''OK ['' (Some ([], 0)))))"

abbreviation say :: "nat \<Rightarrow> gateway \<Rightarrow> string \<Rightarrow> (string \<times> gateway) option" where
  "say cap g s \<equiv> Some (snprintf cap (s @ [LF]), g)"

definition cmd_service_add :: "gw_env \<Rightarrow> gateway \<Rightarrow> string \<Rightarrow> nat \<Rightarrow> (string \<times> gateway) option" where
  "cmd_service_add env g save0 cap =
     (case strtok save0 of
        (Some name, save) \<Rightarrow>
          (case fst (strtok save) of
             Some bin \<Rightarrow>
               (case reg_write env g (Reg_add_service name bin) of
                  (False, g1) \<Rightarrow> say cap g1 ''ERR registry write failed''
                | (True, g1) \<Rightarrow>
                    (case service_add_live env g1 name bin of
                       (None, g2) \<Rightarrow> say cap g2 ''ERR too many services''
                     | (Some _, g2) \<Rightarrow> say cap g2 ''OK service added''))
           | None \<Rightarrow> say cap g ''ERR usage: service-add <name> <bin>'')
      | _ \<Rightarrow> say cap g ''ERR usage: service-add <name> <bin>'')"

definition cmd_route_add :: "gw_env \<Rightarrow> gateway \<Rightarrow> string \<Rightarrow> nat \<Rightarrow> (string \<times> gateway) option" where
  "cmd_route_add env g save0 cap =
     (case (strtok save0, strtok (snd (strtok save0)), strtok (snd (strtok (snd (strtok save0))))) of
        ((Some meth, _), (Some pattern, _), (Some svcname, _)) \<Rightarrow>
          (case reg_write env g (Reg_add_route meth pattern svcname) of
             (False, g1) \<Rightarrow> say cap g1 ''ERR unknown service''
           | (True, g1) \<Rightarrow>
               (case find_service g1 svcname of
                  None \<Rightarrow> say cap g1 ''ERR service not loaded''
                | Some i \<Rightarrow>
                    (case ntc_router_add (ge_dup env) (ge_dup env) (ge_dup env) (Some (g_router g1))
                            (Some meth) (Some pattern) (Some Forward_marker) i of
                       (NTC_OK, Some r) \<Rightarrow> say cap (g1\<lparr>g_router := r\<rparr>) ''OK route added''
                     | (_, Some r) \<Rightarrow> say cap (g1\<lparr>g_router := r\<rparr>) ''ERR route register failed''
                     | (_, None) \<Rightarrow> say cap g1 ''ERR route register failed'')))
      | _ \<Rightarrow> say cap g ''ERR usage: route-add <METHOD> <pattern> <service>'')"

definition cmd_service_rm :: "gw_env \<Rightarrow> gateway \<Rightarrow> string \<Rightarrow> nat \<Rightarrow> (string \<times> gateway) option" where
  "cmd_service_rm env g save0 cap =
     (case fst (strtok save0) of
        None \<Rightarrow> say cap g ''ERR usage: service-rm <name>''
      | Some name \<Rightarrow>
          (case reg_write env g (Reg_remove_service name) of
             (ok, g1) \<Rightarrow> do {
               g2 \<leftarrow> (case find_service g1 name of
                        None \<Rightarrow> Some g1
                      | Some i \<Rightarrow>
                          fold_opt (free_replica i) (set_svc g1 i ((g_services g1 ! i)\<lparr>sv_disabled := True\<rparr>))
                            [0 ..< NTC_MAX_REPLICAS]);
               say cap g2 (if ok then ''OK service removed'' else ''ERR not found'')
             }))"

definition cmd_service_scale :: "gw_env \<Rightarrow> gateway \<Rightarrow> string \<Rightarrow> nat \<Rightarrow> (string \<times> gateway) option" where
  "cmd_service_scale env g save0 cap =
     (case (strtok save0, strtok (snd (strtok save0))) of
        ((Some name, _), (Some ns, _)) \<Rightarrow>
          let n = atoi ns
          in if n < 1 \<or> n > int NTC_MAX_REPLICAS
             then say cap g (''ERR replicas must be 1..'' @ fmt_nat NTC_MAX_REPLICAS)
             else
               (case find_service g name of
                  None \<Rightarrow> say cap g ''ERR service not loaded''
                | Some i \<Rightarrow> do {
                    g1 \<leftarrow> fold_opt (free_replica i) g [nat n ..< nat (sv_replicas (g_services g ! i))];
                    let g2 = set_svc g1 i ((g_services g1 ! i)\<lparr>sv_replicas := n\<rparr>);
                    let g3 = snd (reg_write env g2 (Reg_set_config (snprintf 160 (''replicas:'' @ name)) ns));
                    say cap g3 (''OK scaled '' @ name @ '' to '' @ fmt_int n @ '' replicas'')
                  })
      | _ \<Rightarrow> say cap g ''ERR usage: service-scale <name> <replicas>'')"

definition cmd_config_set :: "gw_env \<Rightarrow> gateway \<Rightarrow> string \<Rightarrow> nat \<Rightarrow> (string \<times> gateway) option" where
  "cmd_config_set env g save0 cap =
     (case strtok save0 of
        (Some key, save) \<Rightarrow>
          let v = dropWhile (\<lambda>c. c = CHR '' '') save
          in if v = [] then say cap g ''ERR usage: config-set <key> <value>''
             else
               (case reg_write env g (Reg_set_config key v) of
                  (False, g1) \<Rightarrow> say cap g1 ''ERR write failed''
                | (True, g1) \<Rightarrow>
                    say cap (if key = ''app.name'' then g1\<lparr>g_app_name := snprintf 128 v\<rparr> else g1) ''OK config set'')
      | (None, _) \<Rightarrow> say cap g ''ERR usage: config-set <key> <value>'')"

definition cmd_config_get :: "gw_env \<Rightarrow> gateway \<Rightarrow> string \<Rightarrow> nat \<Rightarrow> (string \<times> gateway) option" where
  "cmd_config_get env g save0 cap =
     (case fst (strtok save0) of
        None \<Rightarrow> say cap g ''ERR usage: config-get <key>''
      | Some key \<Rightarrow>
          (case ge_config env (g_reg g) key of
             Some v \<Rightarrow> say cap g (''OK '' @ snprintf 512 v)
           | None \<Rightarrow> say cap g ''ERR not found''))"

definition exec_control_command :: "gw_env \<Rightarrow> gateway \<Rightarrow> string \<Rightarrow> nat \<Rightarrow> (string \<times> gateway) option" where
  "exec_control_command env g cmdline cap =
     (case strtok cmdline of
        (None, _) \<Rightarrow> say cap g ''ERR empty command''
      | (Some cmd, save) \<Rightarrow>
          if cmd = ''ping'' then say cap g ''OK pong''
          else if cmd = ''status'' then Some (snprintf cap (status_json env g), g)
          else if cmd = ''service-add'' then cmd_service_add env g save cap
          else if cmd = ''route-add'' then cmd_route_add env g save cap
          else if cmd = ''service-rm'' then cmd_service_rm env g save cap
          else if cmd = ''service-scale'' then cmd_service_scale env g save cap
          else if cmd = ''service-list'' then
            map_option (\<lambda>out. (out, g)) (list_reply cap 128 service_row_json (take 64 (ge_services env (g_reg g))))
          else if cmd = ''route-list'' then
            map_option (\<lambda>out. (out, g)) (list_reply cap 160 route_row_json (take 128 (ge_routes env (g_reg g))))
          else if cmd = ''config-set'' then cmd_config_set env g save cap
          else if cmd = ''config-get'' then cmd_config_get env g save cap
          else if cmd = ''stop'' then say cap (g\<lparr>g_stop := True\<rparr>) ''OK stopping''
          else say cap g ''ERR unknown command'')"

definition CONTROL_BUF :: nat where "CONTROL_BUF = 4096"
definition CONTROL_OUT :: nat where "CONTROL_OUT = 8192"

text \<open>The reply to a control client's line: the token up to the first blank, then the command.\<close>

definition process_control :: "gw_env \<Rightarrow> gateway \<Rightarrow> string \<Rightarrow> (string \<times> gateway) option" where
  "process_control env g buf =
     (let line = cstr (takeWhile (\<lambda>c. c \<noteq> LF) buf);
          token = takeWhile (\<lambda>c. c \<noteq> CHR '' '') line;
          rest = drop (length token + 1) line
      in if token \<noteq> g_token g then Some (''ERR unauthorized'' @ [LF], g)
         else exec_control_command env g rest CONTROL_OUT)"

text \<open>Replying closes the control connection.\<close>

definition cctrl_reply :: "gateway \<Rightarrow> nat \<Rightarrow> string \<Rightarrow> gateway option" where
  "cctrl_reply g k msg = do {
     cc \<leftarrow> g_cctrls g k;
     Some (g\<lparr>g_cctrls := (g_cctrls g)(k := None), g_replies := g_replies g @ [(k, msg)]\<rparr>)
   }"

text \<open>The \<open>recv\<close> loop: it stops at a full buffer or as soon as there is a line feed.\<close>

datatype line_end = Line_ready | Line_wait | Line_gone

fun line_loop :: "recv_res list \<Rightarrow> string \<Rightarrow> line_end \<times> string \<times> recv_res list" where
  "line_loop [] buf = (if length buf \<ge> CONTROL_BUF - 1 then Line_ready else Line_wait, buf, [])"
| "line_loop (r # rs) buf =
     (if length buf \<ge> CONTROL_BUF - 1 then (Line_ready, buf, r # rs)
      else case r of
             Rcvd s \<Rightarrow>
               let room = CONTROL_BUF - 1 - length buf; buf1 = buf @ take room s
               in if s = [] then (Line_gone, buf, rs)
                  else if LF \<in> set buf1 then (Line_ready, buf1, rs)
                  else if length s \<le> room then line_loop rs buf1
                  else (Line_ready, buf1, Rcvd (drop room s) # rs)
           | Rcv_eof \<Rightarrow> (Line_gone, buf, rs)
           | Rcv_eintr \<Rightarrow> line_loop rs buf
           | Rcv_again \<Rightarrow> (Line_wait, buf, rs)
           | Rcv_err \<Rightarrow> (Line_gone, buf, rs))"

definition on_control_readable :: "gw_env \<Rightarrow> gateway \<Rightarrow> nat \<Rightarrow> gateway option" where
  "on_control_readable env g k = do {
     cc \<leftarrow> g_cctrls g k;
     (case line_loop (cc_peer cc) (cc_buf cc) of
        (Line_gone, _) \<Rightarrow> Some (g\<lparr>g_cctrls := (g_cctrls g)(k := None)\<rparr>)
      | (Line_wait, buf, peer) \<Rightarrow> Some (g\<lparr>g_cctrls := (g_cctrls g)(k \<mapsto> \<lparr>cc_buf = buf, cc_peer = peer\<rparr>)\<rparr>)
      | (Line_ready, buf, peer) \<Rightarrow> do {
          (out, g1) \<leftarrow> process_control env g buf;
          cctrl_reply g1 k out
        })
   }"

end
