(* ===== verification/Mcp.thy ===== *)
theory Mcp
  imports Json Http Web
begin

text \<open>
  The MCP endpoint (\<open>src/core/mcp.c\<close>): JSON-RPC requests are answered directly or turned into
  one control command, which an executor runs. The executor is a function on a state; the
  reply text is what the memory stream holds.
\<close>

definition tool_json :: "string \<Rightarrow> string \<Rightarrow> string list \<Rightarrow> string" where
  "tool_json name descr args =
     ''{'' @ jq ''name'' @ '':'' @ jq name @ '','' @ jq ''description'' @ '':'' @ jq descr @ '','' @
     jq ''inputSchema'' @ '':{'' @ jq ''type'' @ '':'' @ jq ''object'' @ '','' @ jq ''properties'' @ '':{'' @
     concat (map (\<lambda>(i, a). (if i = 0 then [] else '','') @ jq a @ '':{'' @ jq ''type'' @ '':'' @ jq ''string'' @ ''}'') (enumerate 0 args)) @
     ''}'' @
     (if args = [] then [] else '','' @ jq ''required'' @ '':['' @
        concat (map (\<lambda>(i, a). (if i = 0 then [] else '','') @ jq a) (enumerate 0 args)) @ '']'') @ ''}}''"

definition TOOLS_JSON :: string where
  "TOOLS_JSON =
     ''['' @ tool_json ''naitron_status'' ''Core status: service/route counts and event-loop backend.'' [] @
     '','' @ tool_json ''naitron_list_services'' ''List registered services.'' [] @
     '','' @ tool_json ''naitron_list_routes'' ''List registered routes.'' [] @
     '','' @ tool_json ''naitron_add_service'' ''Register and spawn a controller process (takes effect live).'' [''name'', ''bin''] @
     '','' @ tool_json ''naitron_add_route'' ''Route a method+path to a service (takes effect live).'' [''method'', ''pattern'', ''service''] @
     '','' @ tool_json ''naitron_remove_service'' ''Remove a service.'' [''name''] @ '']''"

definition write_id :: "(double_t \<Rightarrow> int) \<Rightarrow> ntc_json option \<Rightarrow> string" where
  \<comment> \<open>the first argument is the C conversion of a double to \<open>long long\<close>\<close>
  "write_id cast i =
     (case i of
        Some (NTC_JSON_NUM n) \<Rightarrow> fmt_int (cast n)
      | Some (NTC_JSON_STR s) \<Rightarrow>
          (case ntc_json_escape 256 s of Some esc \<Rightarrow> jq (cstr esc) | None \<Rightarrow> ''null'')
      | _ \<Rightarrow> ''null'')"

definition reply_head :: "(double_t \<Rightarrow> int) \<Rightarrow> ntc_json option \<Rightarrow> string" where
  "reply_head cast i = ''{'' @ jq ''jsonrpc'' @ '':'' @ jq ''2.0'' @ '','' @ jq ''id'' @ '':'' @ write_id cast i"

definition reply_result :: "(double_t \<Rightarrow> int) \<Rightarrow> ntc_json option \<Rightarrow> string \<Rightarrow> string" where
  "reply_result cast i result_json = reply_head cast i @ '','' @ jq ''result'' @ '':'' @ result_json @ ''}''"

definition reply_error :: "(double_t \<Rightarrow> int) \<Rightarrow> ntc_json option \<Rightarrow> int \<Rightarrow> string \<Rightarrow> string" where
  "reply_error cast i code msg =
     reply_head cast i @ '','' @ jq ''error'' @ '':{'' @ jq ''code'' @ '':'' @ fmt_int code @ '','' @
     jq ''message'' @ '':'' @ jq msg @ ''}}''"

definition reply_content :: "(double_t \<Rightarrow> int) \<Rightarrow> ntc_json option \<Rightarrow> string \<Rightarrow> bool \<Rightarrow> string" where
  "reply_content cast i txt is_error =
     (let esc = (case ntc_json_escape 16384 (ntc_slice_cstr txt) of Some e \<Rightarrow> e | None \<Rightarrow> [])
      in reply_head cast i @ '','' @ jq ''result'' @ '':{'' @ jq ''content'' @ '':[{'' @ jq ''type'' @ '':'' @ jq ''text'' @ '','' @
         jq ''text'' @ '':'' @ jq esc @ ''}],'' @ jq ''isError'' @ '':'' @ (if is_error then ''true'' else ''false'') @ ''}}'')"

definition get_opt :: "ntc_json option \<Rightarrow> string \<Rightarrow> ntc_json option" where
  "get_opt v key = (case v of None \<Rightarrow> None | Some j \<Rightarrow> ntc_json_get j key)"

definition ARG_CAP :: nat where "ARG_CAP = 256"

definition arg_str :: "ntc_json option \<Rightarrow> string \<Rightarrow> string option" where
  "arg_str args key =
     (let s = ntc_json_str (get_opt args key)
      in if s = [] \<or> length s \<ge> ARG_CAP then None
         else if list_ex (\<lambda>c. c = CHR '' '' \<or> c = LF \<or> c = CR) s then None
         else Some (cstr s))"

text \<open>The control command of a tool call, or the text of the error.\<close>

definition tool_command :: "ntc_slice \<Rightarrow> ntc_json option \<Rightarrow> string + string" where
  "tool_command name args =
     (if ntc_slice_eq_cstr name ''naitron_status'' then Inr ''status''
      else if ntc_slice_eq_cstr name ''naitron_list_services'' then Inr ''service-list''
      else if ntc_slice_eq_cstr name ''naitron_list_routes'' then Inr ''route-list''
      else if ntc_slice_eq_cstr name ''naitron_add_service'' then
        (case (arg_str args ''name'', arg_str args ''bin'') of
           (Some a, Some b) \<Rightarrow> Inr (snprintf 1024 (''service-add '' @ a @ '' '' @ b))
         | _ \<Rightarrow> Inl (''invalid or missing '' @ [CHR 0x27] @ ''name'' @ [CHR 0x27] @ ''/'' @ [CHR 0x27] @ ''bin'' @ [CHR 0x27]))
      else if ntc_slice_eq_cstr name ''naitron_add_route'' then
        (case (arg_str args ''method'', arg_str args ''pattern'', arg_str args ''service'') of
           (Some a, Some b, Some c) \<Rightarrow> Inr (snprintf 1024 (''route-add '' @ a @ '' '' @ b @ '' '' @ c))
         | _ \<Rightarrow> Inl (''invalid or missing '' @ [CHR 0x27] @ ''method'' @ [CHR 0x27] @ ''/'' @ [CHR 0x27] @ ''pattern'' @
                     [CHR 0x27] @ ''/'' @ [CHR 0x27] @ ''service'' @ [CHR 0x27]))
      else if ntc_slice_eq_cstr name ''naitron_remove_service'' then
        (case arg_str args ''name'' of
           Some a \<Rightarrow> Inr (snprintf 1024 (''service-rm '' @ a))
         | None \<Rightarrow> Inl (''invalid or missing '' @ [CHR 0x27] @ ''name'' @ [CHR 0x27]))
      else Inl ''unknown tool'')"

definition strip_eol :: "string \<Rightarrow> string" where
  "strip_eol s = rev (dropWhile (\<lambda>c. c = LF \<or> c = CR) (rev s))"

type_synonym 's mcp_exec = "'s \<Rightarrow> string \<Rightarrow> nat \<Rightarrow> (string \<times> 's) option"

definition handle_tool_call ::
  "(double_t \<Rightarrow> int) \<Rightarrow> ntc_json option \<Rightarrow> ntc_json option \<Rightarrow> 's mcp_exec \<Rightarrow> 's \<Rightarrow> (string \<times> 's) option" where
  "handle_tool_call cast i params exec s =
     (case tool_command (ntc_json_str (get_opt params ''name'')) (get_opt params ''arguments'') of
        Inl msg \<Rightarrow> Some (reply_content cast i msg True, s)
      | Inr command \<Rightarrow>
          (case exec s command 8192 of
             None \<Rightarrow> None
           | Some (out, s1) \<Rightarrow>
               let raw = strip_eol (cstr out)
               in Some (reply_content cast i raw (take 2 raw \<noteq> ''OK''), s1)))"

definition ntc_mcp_handle ::
  "(rat \<Rightarrow> double_t) \<Rightarrow> (double_t \<Rightarrow> int) \<Rightarrow> bool \<Rightarrow> string \<Rightarrow> 's mcp_exec \<Rightarrow> 's \<Rightarrow> nat \<Rightarrow> (string \<times> 's) option" where
  \<comment> \<open>the flag says that the memory stream and the arena could be set up\<close>
  "ntc_mcp_handle rnd cast mem msg exec s out_cap =
     (if \<not> mem then Some ([], s)
      else
        case ntc_json_parse rnd msg of
          Some (NTC_JSON_OBJ ms) \<Rightarrow>
            let root = NTC_JSON_OBJ ms; meth = ntc_json_str (ntc_json_get root ''method''); i = ntc_json_get root ''id''
            in if ntc_slice_eq_cstr meth ''initialize'' then
                 Some (snprintf out_cap (reply_result cast i
                   (''{'' @ jq ''protocolVersion'' @ '':'' @ jq ''2024-11-05'' @ '','' @ jq ''capabilities'' @ '':{'' @ jq ''tools'' @
                    '':{'' @ jq ''listChanged'' @ '':false}},'' @ jq ''serverInfo'' @ '':{'' @ jq ''name'' @ '':'' @ jq NTC_NAME @ '','' @
                    jq ''version'' @ '':'' @ jq NTC_VERSION @ ''}}'')), s)
               else if ntc_slice_eq_cstr meth ''tools/list'' then
                 Some (snprintf out_cap (reply_result cast i (snprintf 8192 (''{'' @ jq ''tools'' @ '':'' @ TOOLS_JSON @ ''}''))), s)
               else if ntc_slice_eq_cstr meth ''tools/call'' then
                 map_option (\<lambda>(out, s1). (snprintf out_cap out, s1))
                   (handle_tool_call cast i (ntc_json_get root ''params'') exec s)
               else if ntc_slice_eq_cstr meth ''ping'' then Some (snprintf out_cap (reply_result cast i ''{}''), s)
               else if ntc_slice_eq_cstr meth ''notifications/initialized'' then Some ([], s)
               else if i \<noteq> None then Some (snprintf out_cap (reply_error cast i (-32601) ''method not found''), s)
               else Some ([], s)
        | _ \<Rightarrow> Some ([], s))"

end
