(* ===== verification/Dispatch.thy ===== *)
theory Dispatch
  imports Supervisor Mcp
begin

text \<open>
  Request handling (\<open>src/core/server.c\<close>, \<open>src/core/builtin.c\<close>): built-in handlers, static files,
  the OpenAPI document, the OAuth login, body validation, dispatch, the admin port, and the
  reading side of a connection. \<open>None\<close> is a memory error, as in \<open>Gateway\<close>.
\<close>

subsection \<open>Built-in handlers\<close>

record ntc_response =
  rs_status :: int
  rs_content_type :: ntc_slice
  rs_body :: ntc_slice

definition json_kv :: "(string \<times> string) list \<Rightarrow> string" where
  "json_kv kvs = ''{'' @ concat (map (\<lambda>(i, k, v). (if i = 0 then [] else '','') @ jq k @ '':'' @ jq v) (enumerate 0 kvs)) @ ''}''"

fun run_handler :: "gw_env \<Rightarrow> gw_handler \<Rightarrow> ntc_route_params \<Rightarrow> ntc_response option" where
  "run_handler env H_health p =
     Some \<lparr>rs_status = 200, rs_content_type = ''application/json'',
           rs_body = json_kv [(''status'', ''ok''), (''service'', NTC_NAME)]\<rparr>"
| "run_handler env H_version p =
     Some \<lparr>rs_status = 200, rs_content_type = ''application/json'',
           rs_body = json_kv [(''name'', NTC_NAME), (''version'', NTC_VERSION)]\<rparr>"
| "run_handler env H_echo p =
     (let name = ntc_params_get p ''name''; cap = length name + 32
      in if \<not> ge_grant env cap then None
         else Some \<lparr>rs_status = 200, rs_content_type = ''application/json'',
                    rs_body = snprintf cap (json_kv [(''echo'', fmt_slice name)])\<rparr>)"
| "run_handler env Forward_marker p = Some \<lparr>rs_status = 200, rs_content_type = ''application/json'', rs_body = []\<rparr>"

subsection \<open>Static files and the OpenAPI document\<close>

text \<open>\<open>None\<close> inside the result: not served.\<close>

definition serve_static :: "gw_env \<Rightarrow> gateway \<Rightarrow> conn_ptr \<Rightarrow> ntc_request \<Rightarrow> (int option \<times> gateway) option" where
  "serve_static env g c req =
     (if g_static_dir g = [] \<or> \<not> ntc_slice_eq_cstr (rq_method req) ''GET'' then Some (None, g)
      else
        case static_rel (rq_path req) of
          None \<Rightarrow> Some (None, g)
        | Some rel \<Rightarrow>
            (case ge_file env (static_full (g_static_dir g) rel) of
               None \<Rightarrow> Some (None, g)
             | Some (regular, data) \<Rightarrow>
                 if \<not> regular \<or> length data > 10 * 1024 * 1024 then Some (None, g)
                 else if \<not> ge_grant env (if data \<noteq> [] then length data else 1) then Some (None, g)
                 else do {
                   (rc, g1) \<leftarrow> send_resp env g c 200 (ntc_slice_cstr (mime_for rel)) data;
                   Some (Some rc, g1)
                 }))"

definition OPENAPI_CAP :: nat where "OPENAPI_CAP = 64 * 1024"

definition openapi_entry :: "string \<Rightarrow> string \<Rightarrow> string \<Rightarrow> string \<Rightarrow> string" where
  "openapi_entry path m svc emitted =
     jq path @ '':{'' @ jq m @ '':{'' @ jq ''summary'' @ '':'' @ jq (''-> '' @ svc) @ '','' @
     (if emitted \<noteq> [] then
        jq ''requestBody'' @ '':{'' @ jq ''required'' @ '':true,'' @ jq ''content'' @ '':{'' @ jq ''application/json'' @ '':{'' @
        jq ''schema'' @ '':'' @ emitted @ ''}}},''
      else []) @
     jq ''responses'' @ '':{'' @ jq ''200'' @ '':{'' @ jq ''description'' @ '':'' @ jq ''OK'' @ ''}}}}''"

text \<open>One row: its schema is left out when it does not fit.\<close>

definition openapi_row :: "gw_env \<Rightarrow> gateway \<Rightarrow> bool \<Rightarrow> ntc_route_row \<Rightarrow> (string \<times> nat) \<Rightarrow> (string \<times> nat) option" where
  "openapi_row env g first r st =
     (let emitted = (case gw_schema_for (g_schemas g) (rr_method r) (rr_pattern r) of
                       None \<Rightarrow> []
                     | Some sch \<Rightarrow> (case ntc_json_emit (ge_fmt env) sch 8192 of None \<Rightarrow> [] | Some e \<Rightarrow> cstr e));
          fits = (emitted \<noteq> [] \<and> snd st + length emitted + 512 < OPENAPI_CAP)
      in buf_printf OPENAPI_CAP
           ((if first then [] else '','') @
            openapi_entry (openapi_path [] (rr_pattern r)) (map tolower (snprintf 8 (rr_method r))) (rr_service r)
              (if fits then emitted else []))
           (Some st))"

fun openapi_rows :: "gw_env \<Rightarrow> gateway \<Rightarrow> bool \<Rightarrow> ntc_route_row list \<Rightarrow> (string \<times> nat) \<Rightarrow> (string \<times> nat) option" where
  "openapi_rows env g first [] st = Some st"
| "openapi_rows env g first (r # rs) st =
     (if snd st < OPENAPI_CAP - 512
      then (case openapi_row env g first r st of None \<Rightarrow> None | Some st1 \<Rightarrow> openapi_rows env g False rs st1)
      else Some st)"

definition openapi_head :: "gateway \<Rightarrow> string" where
  "openapi_head g =
     ''{'' @ jq ''openapi'' @ '':'' @ jq ''3.0.0'' @ '','' @ jq ''info'' @ '':{'' @ jq ''title'' @ '':'' @ jq (g_app_name g) @ '','' @
     jq ''version'' @ '':'' @ jq NTC_VERSION @ ''},'' @ jq ''paths'' @ '':{''"

definition openapi_text :: "gw_env \<Rightarrow> gateway \<Rightarrow> (string \<times> nat) option" where
  "openapi_text env g = do {
     st \<leftarrow> buf_printf OPENAPI_CAP (openapi_head g) (Some ([], 0));
     st1 \<leftarrow> openapi_rows env g True (take 256 (ge_routes env (g_reg g))) st;
     buf_printf OPENAPI_CAP ''}}'' (Some st1)
   }"

text \<open>The body is \<open>off\<close> bytes of the buffer: reading more than was written is a memory error.\<close>

definition buf_body :: "string \<times> nat \<Rightarrow> string option" where
  "buf_body st = (if snd st \<le> length (fst st) then Some (take (snd st) (fst st)) else None)"

definition serve_openapi :: "gw_env \<Rightarrow> gateway \<Rightarrow> conn_ptr \<Rightarrow> (int \<times> gateway) option" where
  "serve_openapi env g c =
     (if \<not> ge_grant env OPENAPI_CAP then send_resp env g c 500 ''application/json'' ''{}''
      else do {
        st \<leftarrow> openapi_text env g;
        body \<leftarrow> buf_body st;
        send_resp env g c 200 ''application/json'' body
      })"

subsection \<open>OAuth login\<close>

definition oauth_headers :: "string \<Rightarrow> string option \<Rightarrow> string" where
  "oauth_headers location set_cookie =
     (let loc = ''Location: '' @ location @ CRLF; h = snprintf EXTRA_CAP loc
      in case set_cookie of
           None \<Rightarrow> h
         | Some ck \<Rightarrow> if length loc < EXTRA_CAP
                      then h @ snprintf (EXTRA_CAP - length loc) (''Set-Cookie: '' @ ck @ CRLF) else h)"

definition oauth_redirect :: "gw_env \<Rightarrow> gateway \<Rightarrow> conn_ptr \<Rightarrow> string \<Rightarrow> string option \<Rightarrow> (int \<times> gateway) option" where
  "oauth_redirect env g c location set_cookie = do {
     x \<leftarrow> g_conns g c;
     send_resp env (set_conn g c (x\<lparr>c_extra_headers := oauth_headers location set_cookie\<rparr>)) c 302
       ''text/html; charset=utf-8'' (''<a href='' @ jq ''/'' @ ''>redirecting</a>'')
   }"

definition login_url :: "oauth_config \<Rightarrow> string \<Rightarrow> string \<Rightarrow> string" where
  "login_url oa state challenge = snprintf 1000
     (oa_authorize_url oa @ ''?response_type=code&client_id='' @ oa_client_id oa @ ''&redirect_uri='' @
      url_encode (oa_redirect_uri oa) 400 @ ''&scope='' @
      url_encode (if oa_scopes oa \<noteq> [] then oa_scopes oa else ''openid'') 200 @
      ''&state='' @ state @ ''&code_challenge='' @ challenge @ ''&code_challenge_method=S256'')"

definition oauth_login :: "gw_env \<Rightarrow> gateway \<Rightarrow> conn_ptr \<Rightarrow> (int \<times> gateway) option" where
  "oauth_login env g c =
     (case (ntc_random_token (ge_random env 16) 40 16, ntc_pkce_verifier (ge_random env 32) 64) of
        (Some state, Some verifier) \<Rightarrow>
          (case ntc_pkce_challenge verifier 64 of
             Some challenge \<Rightarrow>
               oauth_redirect env
                 (g\<lparr>g_oauth_pending := ntc_kv_put (g_oauth_pending g) state verifier (ge_time env + 600)\<rparr>) c
                 (login_url (g_oauth g) state challenge) None
           | None \<Rightarrow> respond_and_flush env g c 500 (json_error ''pkce''))
      | _ \<Rightarrow> respond_and_flush env g c 500 (json_error ''pkce''))"

definition token_body :: "oauth_config \<Rightarrow> string \<Rightarrow> string \<Rightarrow> string" where
  "token_body oa code verifier =
     (let b = ''grant_type=authorization_code&code='' @ url_encode code 600 @ ''&redirect_uri='' @
              url_encode (oa_redirect_uri oa) 400 @ ''&client_id='' @ oa_client_id oa @ ''&code_verifier='' @ verifier
      in snprintf 1800 b @
         (if oa_client_secret oa \<noteq> [] \<and> length b < 1800
          then snprintf (1800 - length b) (''&client_secret='' @ url_encode (oa_client_secret oa) 400) else []))"

text \<open>The identity in the token endpoint's answer.\<close>

definition token_identity :: "gw_env \<Rightarrow> oauth_config \<Rightarrow> string \<Rightarrow> (string \<times> string) option" where
  "token_identity env oa resp =
     (let idt = (case ntc_json_parse (ge_round env) resp of
                   None \<Rightarrow> [] | Some j \<Rightarrow> ntc_json_str (ntc_json_get j ''id_token''))
      in if idt = [] \<or> oa_client_secret oa = [] then None
         else map_option (\<lambda>cl. (snprintf 128 (cl_sub cl), snprintf 256 (cl_scope cl)))
                (ntc_jwt_verify_hs256 (me_jwt (ge_mw env)) idt (oa_client_secret oa) (ge_time env)))"

definition oauth_done :: "oauth_config \<Rightarrow> string" where
  "oauth_done oa = (if oa_success oa \<noteq> [] then oa_success oa else ''/'')"

definition sess_write :: "gateway \<Rightarrow> sess_op \<Rightarrow> gateway" where
  "sess_write g op = g\<lparr>g_sessions := map_option (\<lambda>ops. ops @ [op]) (g_sessions g)\<rparr>"

definition oauth_callback :: "gw_env \<Rightarrow> gateway \<Rightarrow> conn_ptr \<Rightarrow> ntc_request \<Rightarrow> (int \<times> gateway) option" where
  "oauth_callback env g c req = do {
     x \<leftarrow> g_conns g c;
     let param = (\<lambda>key cap. case query_get (rq_query req) key cap of None \<Rightarrow> [] | Some v \<Rightarrow> cstr (url_decode (cstr v)));
     let code = param ''code'' 512;
     let state = param ''state'' 64;
     if code = [] \<or> state = []
     then respond_and_flush env g c 400 (json_error ''invalid or expired state'')
     else
       (case ntc_kv_get (g_oauth_pending g) state (ge_time env) 64 of
          (None, kv) \<Rightarrow>
            respond_and_flush env (g\<lparr>g_oauth_pending := kv\<rparr>) c 400 (json_error ''invalid or expired state'')
        | (Some verifier, kv) \<Rightarrow>
            let g1 = g\<lparr>g_oauth_pending := ntc_kv_del kv state\<rparr>; oa = g_oauth g
            in case ntc_https_post (me_https (ge_mw env)) (oa_ca oa) (oa_token_url oa) ''application/x-www-form-urlencoded''
                      (Some (token_body oa code verifier)) 8192 5000 80 of
                 Inl _ \<Rightarrow> respond_and_flush env g1 c 502 (json_error ''token exchange failed'')
               | Inr resp \<Rightarrow>
                   if resp = [] then respond_and_flush env g1 c 502 (json_error ''token exchange failed'')
                   else
                     (case token_identity env oa resp of
                        None \<Rightarrow> respond_and_flush env g1 c 401 (json_error ''invalid id_token'')
                      | Some (sub, scope) \<Rightarrow>
                          (case ntc_random_token (ge_random env 24) 80 24 of
                             None \<Rightarrow> respond_and_flush env g1 c 500 (json_error ''sid'')
                           | Some sid \<Rightarrow>
                               oauth_redirect env (sess_write g1 (Sess_put sid sub scope (ge_time env + 8 * 3600))) c
                                 (oauth_done oa)
                                 (Some (fst (ntc_cookie_format 256 ''ntc_session'' sid (c_tls x \<noteq> None) (8 * 3600)))))))
   }"

text \<open>The session id in the request's cookies, read through a buffer of 1024 bytes.\<close>

definition session_cookie :: "ntc_request \<Rightarrow> string option" where
  "session_cookie req =
     (let ck = ntc_http_header req ''cookie''
      in if ck = [] then None else ntc_cookie_get (cstr (take 1023 ck)) ''ntc_session'' 80)"

definition oauth_logout :: "gw_env \<Rightarrow> gateway \<Rightarrow> conn_ptr \<Rightarrow> ntc_request \<Rightarrow> (int \<times> gateway) option" where
  "oauth_logout env g c req = do {
     x \<leftarrow> g_conns g c;
     let g1 = (case session_cookie req of None \<Rightarrow> g | Some sid \<Rightarrow> sess_write g (Sess_del sid));
     oauth_redirect env g1 c (oauth_done (g_oauth g))
       (Some (fst (ntc_cookie_format 256 ''ntc_session'' [] (c_tls x \<noteq> None) 0)))
   }"

definition handle_oauth :: "gw_env \<Rightarrow> gateway \<Rightarrow> conn_ptr \<Rightarrow> ntc_request \<Rightarrow> (int \<times> gateway) option" where
  "handle_oauth env g c req =
     (if ntc_slice_eq_cstr (rq_path req) ''/auth/login'' then oauth_login env g c
      else if ntc_slice_eq_cstr (rq_path req) ''/auth/callback'' then oauth_callback env g c req
      else if ntc_slice_eq_cstr (rq_path req) ''/auth/logout'' then oauth_logout env g c req
      else respond_and_flush env g c 404 (json_error ''not found''))"

subsection \<open>Body validation and dispatch\<close>

definition body_method :: "ntc_request \<Rightarrow> bool" where
  "body_method req \<longleftrightarrow> ntc_slice_eq_cstr (rq_method req) ''POST'' \<or> ntc_slice_eq_cstr (rq_method req) ''PUT'' \<or>
     ntc_slice_eq_cstr (rq_method req) ''PATCH''"

text \<open>
  The text of a failed validation. When the escaped message does not fit its buffer,
  \<open>ntc_json_escape\<close> stops without writing a NUL and its result is not looked at: \<open>%s\<close> reads past
  the buffer, so there is no value.
\<close>

definition validation_body :: "gw_env \<Rightarrow> string \<Rightarrow> string option" where
  "validation_body env verr =
     (if ge_grant env 256
      then map_option (\<lambda>esc. json_kv [(''error'', ''validation failed''), (''detail'', esc)]) (ntc_json_escape 200 (ntc_slice_cstr verr))
      else Some (json_error ''validation failed''))"

definition gw_validate_body :: "gw_env \<Rightarrow> gateway \<Rightarrow> conn_ptr \<Rightarrow> ntc_request \<Rightarrow> (int \<times> gateway) option" where
  "gw_validate_body env g c req =
     (case gw_schema_for (g_schemas g) (rq_method req) (rq_path req) of
        None \<Rightarrow> Some (0, g)
      | Some sch \<Rightarrow>
          if \<not> body_method req then Some (0, g)
          else if rq_body req = [] then respond_and_flush env g c 400 (json_error ''request body required'')
          else
            (case ntc_json_parse (ge_round env) (rq_body req) of
               None \<Rightarrow> respond_and_flush env g c 400 (json_error ''invalid JSON body'')
             | Some inst \<Rightarrow>
                 (case ntc_schema_validate (ge_len env) sch inst of
                    None \<Rightarrow> Some (0, g)
                  | Some msg \<Rightarrow> do {
                      body \<leftarrow> validation_body env (fail_msg 160 msg);
                      respond_and_flush env g c 400 body
                    })))"

definition count_forwarded :: "gateway \<Rightarrow> gateway" where
  "count_forwarded g = g\<lparr>g_m := (g_m g)\<lparr>m_forwarded := m_forwarded (g_m g) + 1\<rparr>\<rparr>"

definition count_builtin :: "gateway \<Rightarrow> gateway" where
  "count_builtin g = g\<lparr>g_m := (g_m g)\<lparr>m_builtin := m_builtin (g_m g) + 1\<rparr>\<rparr>"

definition landing_page :: "gw_env \<Rightarrow> gateway \<Rightarrow> string" where
  "landing_page env g = snprintf 1024
     (''<!doctype html><meta charset=utf-8><title>'' @ g_app_name g @ ''</title>'' @
      ''<body style='' @ [CHR 0x27] @ ''font-family:system-ui;background:#0e1116;color:#e6edf3;'' @
      ''display:flex;height:90vh;align-items:center;justify-content:center;flex-direction:column'' @ [CHR 0x27] @ ''>'' @
      ''<h1 style='' @ [CHR 0x27] @ ''margin:0'' @ [CHR 0x27] @ ''>'' @ g_app_name g @ ''</h1>'' @
      ''<p style='' @ [CHR 0x27] @ ''color:#9aa7b3'' @ [CHR 0x27] @ ''>powered by naitron-c &middot; core uptime '' @
      fmt_int ((ge_now_ms env - m_start_ms (g_m g)) div 1000) @ ''s</p></body>'')"

text \<open>A path without a route: a static file, the landing page, or 404.\<close>

definition gw_not_found :: "gw_env \<Rightarrow> gateway \<Rightarrow> conn_ptr \<Rightarrow> ntc_request \<Rightarrow> (int \<times> gateway) option" where
  "gw_not_found env g c req = do {
     (sr, g1) \<leftarrow> serve_static env g c req;
     (case sr of
        Some rc \<Rightarrow> Some (rc, g1)
      | None \<Rightarrow>
          if ntc_slice_eq_cstr (rq_path req) ''/'' \<and> ge_grant env 1024
          then send_resp env g1 c 200 ''text/html; charset=utf-8'' (landing_page env g1)
          else respond_and_flush env g1 c 404 (json_error ''not found''))
   }"

text \<open>The request a controller gets: with the captured parameters and the caller's identity.\<close>

definition forwarded_request :: "ntc_request \<Rightarrow> ntc_route_params \<Rightarrow> conn \<Rightarrow> ntc_request" where
  "forwarded_request req params x =
     req\<lparr>rq_params := take NTC_MAX_PARAMS params, rq_auth_sub := ntc_slice_cstr (c_auth_sub x),
         rq_auth_scope := ntc_slice_cstr (c_auth_scope x)\<rparr>"

definition gw_forward_route :: "gw_env \<Rightarrow> gateway \<Rightarrow> conn_ptr \<Rightarrow> ntc_request \<Rightarrow> ntc_route_params \<Rightarrow> nat \<Rightarrow> (int \<times> gateway) option" where
  "gw_forward_route env g c req params svc = do {
     (vr, g1) \<leftarrow> gw_validate_body env g c req;
     if vr \<noteq> 0 then Some (vr, g1)
     else do {
       x \<leftarrow> g_conns g1 c;
       let g2 = count_forwarded g1;
       let fr = forwarded_request req params x;
       if ntc_slice_eq_cstr (ntc_http_header fr ''upgrade'') ''websocket'' then gw_ws_upgrade env g2 c fr svc
       else gw_forward env g2 c fr svc
     }
   }"

definition gw_run_builtin :: "gw_env \<Rightarrow> gateway \<Rightarrow> conn_ptr \<Rightarrow> gw_handler \<Rightarrow> ntc_route_params \<Rightarrow> (int \<times> gateway) option" where
  "gw_run_builtin env g c h params =
     (case run_handler env h params of
        None \<Rightarrow> respond_and_flush env (count_builtin g) c 500 (json_error ''internal error'')
      | Some res \<Rightarrow>
          send_resp env (rec_status (count_builtin g) (rs_status res)) c (rs_status res) (rs_content_type res) (rs_body res))"

definition gw_reserved :: "gw_env \<Rightarrow> gateway \<Rightarrow> conn_ptr \<Rightarrow> ntc_request \<Rightarrow> (int \<times> gateway) option" where
  "gw_reserved env g c req =
     (if ntc_slice_eq_cstr (rq_path req) ''/_ntc/health''
      then send_resp env g c 200 ''application/json'' (json_kv [(''status'', ''ok'')])
      else if ntc_slice_eq_cstr (rq_path req) ''/_ntc/ready''
      then send_resp env g c 200 ''application/json'' (json_kv [(''status'', ''ready'')])
      else if ntc_slice_eq_cstr (rq_path req) ''/_ntc/openapi.json'' then serve_openapi env g c
      else send_resp env g c 404 ''application/json'' (json_error ''not found''))"

definition gw_dispatch :: "gw_env \<Rightarrow> gateway \<Rightarrow> conn_ptr \<Rightarrow> ntc_request \<Rightarrow> (int \<times> gateway) option" where
  "gw_dispatch env g c req =
     (if oa_enabled (g_oauth g) \<and> ntc_slice_starts_with (rq_path req) ''/auth/'' then handle_oauth env g c req
      else if ntc_slice_starts_with (rq_path req) ''/_ntc/'' then gw_reserved env g c req
      else
        (case ntc_router_match (g_router g) (rq_method req) (rq_path req) of
           (NTC_ROUTE_FOUND, Some (h, svc, params)) \<Rightarrow>
             if h = Forward_marker then gw_forward_route env g c req params svc
             else gw_run_builtin env g c h params
         | (NTC_ROUTE_METHOD_NOT_ALLOWED, _) \<Rightarrow> respond_and_flush env g c 405 (json_error ''method not allowed'')
         | _ \<Rightarrow> gw_not_found env g c req))"

subsection \<open>The admin port\<close>

definition stats_json :: "gw_env \<Rightarrow> gateway \<Rightarrow> string" where
  "stats_json env g =
     ''{'' @ jq ''uptime_s'' @ '':'' @ fmt_int ((ge_now_ms env - m_start_ms (g_m g)) div 1000) @ '','' @
     jq ''requests_total'' @ '':'' @ m_u64 (m_requests_total (g_m g)) @ '','' @
     jq ''status_2xx'' @ '':'' @ m_u64 (m_status_2xx (g_m g)) @ '','' @
     jq ''status_4xx'' @ '':'' @ m_u64 (m_status_4xx (g_m g)) @ '','' @
     jq ''status_5xx'' @ '':'' @ m_u64 (m_status_5xx (g_m g)) @ '','' @
     jq ''forwarded'' @ '':'' @ m_u64 (m_forwarded (g_m g)) @ '','' @
     jq ''builtin'' @ '':'' @ m_u64 (m_builtin (g_m g)) @ '','' @
     jq ''services'' @ '':'' @ fmt_nat (length (g_services g)) @ '','' @
     jq ''routes'' @ '':'' @ fmt_nat (ntc_router_count (Some (g_router g))) @ '','' @
     jq ''backend'' @ '':'' @ jq (ge_backend env) @ '','' @
     jq ''inflight_cap'' @ '':'' @ fmt_nat NTC_MAX_INFLIGHT @ ''}''"

definition admin_service_json :: "gw_env \<Rightarrow> service \<Rightarrow> string" where
  "admin_service_json env svc =
     (let live = svc_any_live svc
      in ''{'' @ jq ''name'' @ '':'' @ jq (sv_name svc) @ '','' @ jq ''bin'' @ '':'' @ jq (sv_bin svc) @ '','' @
         jq ''status'' @ '':'' @ jq (if sv_disabled svc then ''disabled'' else if live then ''up'' else ''down'') @ '','' @
         jq ''restarts'' @ '':'' @ fmt_int (sv_restart_count svc) @ '','' @
         jq ''replicas'' @ '':'' @ fmt_int (sv_replicas svc) @ '','' @
         jq ''live'' @ '':'' @ fmt_nat (svc_live_count svc) @ '','' @
         jq ''uptime_s'' @ '':'' @ fmt_int (if live then (ge_now_ms env - sv_spawned_at svc ! 0) div 1000 else 0) @ ''}'')"

definition metrics_text :: "gw_env \<Rightarrow> gateway \<Rightarrow> string" where
  "metrics_text env g =
     ''# HELP ntc_requests_total total HTTP requests'' @ [LF] @ ''# TYPE ntc_requests_total counter'' @ [LF] @
     ''ntc_requests_total '' @ m_u64 (m_requests_total (g_m g)) @ [LF] @
     ''ntc_responses_total{class='' @ jq ''2xx'' @ ''} '' @ m_u64 (m_status_2xx (g_m g)) @ [LF] @
     ''ntc_responses_total{class='' @ jq ''4xx'' @ ''} '' @ m_u64 (m_status_4xx (g_m g)) @ [LF] @
     ''ntc_responses_total{class='' @ jq ''5xx'' @ ''} '' @ m_u64 (m_status_5xx (g_m g)) @ [LF] @
     ''ntc_forwarded_total '' @ m_u64 (m_forwarded (g_m g)) @ [LF] @ ''ntc_builtin_total '' @ m_u64 (m_builtin (g_m g)) @ [LF] @
     ''ntc_services '' @ fmt_nat (length (g_services g)) @ [LF] @
     ''ntc_uptime_seconds '' @ fmt_int ((ge_now_ms env - m_start_ms (g_m g)) div 1000) @ [LF]"

text \<open>A JSON array of rows, as the admin port lists services and routes.\<close>

definition ADMIN_CAP :: nat where "ADMIN_CAP = 64 * 1024"

definition admin_list :: "('r \<Rightarrow> string) \<Rightarrow> 'r list \<Rightarrow> string option" where
  "admin_list f rows = Option.bind
     (buf_printf ADMIN_CAP '']'' (buf_rows ADMIN_CAP (ADMIN_CAP - 512) f True rows (buf_printf ADMIN_CAP ''['' (Some ([], 0)))))
     buf_body"

text \<open>A formatted body of \<open>m\<close> bytes out of a buffer of \<open>cap\<close>.\<close>

definition printf_body :: "nat \<Rightarrow> string \<Rightarrow> string option" where
  "printf_body cap s = (if length s < cap then Some s else None)"

definition bearer_ok :: "ntc_request \<Rightarrow> string \<Rightarrow> bool" where
  "bearer_ok req token =
     (let auth = ntc_http_header req ''authorization''
      in length auth > 7 \<and> take 7 auth = ''Bearer '' \<and> ntc_slice_eq_cstr (drop 7 auth) token)"

definition incore_mcp_exec :: "gw_env \<Rightarrow> gateway mcp_exec" where
  "incore_mcp_exec env g command cap = exec_control_command env g (snprintf 1024 command) cap"

definition admin_mcp :: "gw_env \<Rightarrow> gateway \<Rightarrow> conn_ptr \<Rightarrow> ntc_request \<Rightarrow> (int \<times> gateway) option" where
  "admin_mcp env g c req =
     (if \<not> ntc_slice_eq_cstr (rq_method req) ''POST''
      then send_resp env g c 405 ''application/json'' (json_error ''POST only'')
      else if \<not> bearer_ok req (g_token g) then send_resp env g c 401 ''application/json'' (json_error ''unauthorized'')
      else if \<not> ge_grant env (32 * 1024) then send_resp env g c 500 ''application/json'' ''{}''
      else do {
        (out, g1) \<leftarrow> ntc_mcp_handle (ge_round env) (ge_i64 env) (ge_alloc env 0) (rq_body req) (incore_mcp_exec env) g (32 * 1024);
        if out = [] then send_resp env g1 c 202 ''application/json'' []
        else send_resp env g1 c 200 ''application/json'' (cstr out)
      })"

definition handle_admin :: "gw_env \<Rightarrow> gateway \<Rightarrow> conn_ptr \<Rightarrow> ntc_request \<Rightarrow> (int \<times> gateway) option" where
  "handle_admin env g c req =
     (let path = (\<lambda>s. ntc_slice_eq_cstr (rq_path req) s); json = ''application/json''
      in if path ''/_ntc/mcp'' then admin_mcp env g c req
         else if \<not> ntc_slice_eq_cstr (rq_method req) ''GET'' then send_resp env g c 405 json (json_error ''method not allowed'')
         else if path ''/'' \<or> path ''/index.html'' then send_resp env g c 200 ''text/html; charset=utf-8'' (ge_dashboard env)
         else if path ''/api/stats'' then
           (if \<not> ge_grant env 1024 then send_resp env g c 500 json ''{}''
            else do { body \<leftarrow> printf_body 1024 (stats_json env g); send_resp env g c 200 json body })
         else if path ''/api/services'' then
           (if \<not> ge_grant env ADMIN_CAP then send_resp env g c 500 json ''[]''
            else do { body \<leftarrow> admin_list (admin_service_json env) (g_services g); send_resp env g c 200 json body })
         else if path ''/api/routes'' then
           (if \<not> ge_grant env ADMIN_CAP then send_resp env g c 500 json ''[]''
            else do { body \<leftarrow> admin_list route_row_json (take 256 (ge_routes env (g_reg g))); send_resp env g c 200 json body })
         else if path ''/_ntc/metrics'' \<or> path ''/metrics'' then
           (if \<not> ge_grant env 2048 then send_resp env g c 500 json ''{}''
            else do { body \<leftarrow> printf_body 2048 (metrics_text env g); send_resp env g c 200 ''text/plain; version=0.0.4'' body })
         else send_resp env g c 404 json (json_error ''not found''))"

subsection \<open>Requests\<close>

text \<open>The caller's identity from its session cookie, when the store knows it.\<close>

definition session_identity :: "gw_env \<Rightarrow> gateway \<Rightarrow> ntc_request \<Rightarrow> (string \<times> string) option" where
  "session_identity env g req =
     (case g_sessions g of
        None \<Rightarrow> None
      | Some ops \<Rightarrow>
          (case session_cookie req of
             None \<Rightarrow> None
           | Some sid \<Rightarrow> map_option (\<lambda>(sub, scope). (snprintf 128 sub, snprintf 256 scope)) (ge_sess_get env ops sid (ge_time env))))"

text \<open>The before-chain: the gateway with the connection's headers and identity, and an answer if it is over.\<close>

definition run_before :: "gw_env \<Rightarrow> gateway \<Rightarrow> conn_ptr \<Rightarrow> ntc_request \<Rightarrow> (ntc_mw_result option \<times> gateway) option" where
  "run_before env g c req = do {
     x \<leftarrow> g_conns g c;
     let x1 = x\<lparr>c_log_method := cstr (take 15 (rq_method req)), c_log_path := cstr (take 199 (rq_path req))\<rparr>;
     let ident = session_identity env g req;
     (case g_mw g of
        None \<Rightarrow> Some (None, set_conn g c x1)
      | Some mw \<Rightarrow>
          (case ntc_mw_before (ge_mw env) mw req (c_client_ip x1) (ge_now_ms env) (ident \<noteq> None) of
             (sc, r, mw1) \<Rightarrow>
               let (sub, scope) = (case ident of Some id0 \<Rightarrow> id0 | None \<Rightarrow> (mr_auth_sub r, mr_auth_scope r));
                   x2 = x1\<lparr>c_extra_headers := snprintf EXTRA_CAP (cstr (mr_extra_headers r)),
                           c_request_id := snprintf 40 (cstr (mr_request_id r)),
                           c_auth_sub := snprintf 128 (cstr sub), c_auth_scope := snprintf 256 (cstr scope)\<rparr>
               in Some (if sc then Some r else None, (set_conn g c x2)\<lparr>g_mw := Some mw1\<rparr>)))
   }"

text \<open>A complete request: middleware, then the admin port or the dispatcher.\<close>

definition serve_request :: "gw_env \<Rightarrow> gateway \<Rightarrow> conn_ptr \<Rightarrow> ntc_request \<Rightarrow> (int \<times> gateway) option" where
  "serve_request env g0 c req = do {
     x0 \<leftarrow> g_conns g0 c;
     let g = set_conn g0 c (x0\<lparr>c_accept_gzip := slice_has (ntc_http_header req ''accept-encoding'') ''gzip''\<rparr>);
     if c_is_admin x0 then handle_admin env g c req
     else do {
       (answer, g1) \<leftarrow> run_before env g c req;
       (case answer of
          Some r \<Rightarrow> send_resp env (rec_status g1 (mr_status r)) c (mr_status r) (mr_content_type r) (mr_body r)
        | None \<Rightarrow> gw_dispatch env g1 c req)
     }
   }"

definition process_request :: "gw_env \<Rightarrow> gateway \<Rightarrow> conn_ptr \<Rightarrow> bool \<Rightarrow> (int \<times> gateway) option" where
  "process_request env g c eof = do {
     x \<leftarrow> g_conns g c;
     let more = (\<lambda>status msg.
       if eof then close_ret env g c
       else if length (c_rbuf x) < NTC_CONN_RBUF then Some (0, g)
       else respond_and_flush env g c status (json_error msg));
     (case ntc_http_parse_request (Some (c_rbuf x)) of
        NTC_PARSE_INCOMPLETE \<Rightarrow> more 431 ''headers too large''
      | NTC_PARSE_ERROR \<Rightarrow> respond_and_flush env g c 400 (json_error ''bad request'')
      | NTC_PARSE_OK req consumed \<Rightarrow>
          if rq_has_content_length req \<and> g_max_body g \<noteq> 0 \<and> rq_content_length req > g_max_body g
          then respond_and_flush env g c 413 (json_error ''request body too large'')
          else if rq_has_content_length req then
            (case ntc_size_add (of_nat consumed) (rq_content_length req) of
               Inl _ \<Rightarrow> respond_and_flush env g c 400 (json_error ''bad length'')
             | Inr need \<Rightarrow>
                 if unat need > length (c_rbuf x) then more 413 ''body too large''
                 else serve_request env g c req)
          else serve_request env g c req)
   }"

definition on_readable :: "gw_env \<Rightarrow> gateway \<Rightarrow> conn_ptr \<Rightarrow> (int \<times> gateway) option" where
  "on_readable env g c = do {
     x \<leftarrow> g_conns g c;
     let (e, buf, peer) = recv_loop NTC_CONN_RBUF (c_peer x) (c_rbuf x);
     let g1 = set_conn g c (x\<lparr>c_rbuf := buf, c_peer := peer\<rparr>);
     if e = Recv_fail then close_ret env g1 c else process_request env g1 c (e = Recv_eof)
   }"

subsection \<open>TLS connections\<close>

text \<open>What the TLS engine answers in one event.\<close>

record tls_event =
  te_pump :: bool          \<comment> \<open>\<open>ntc_tls_pump_socket >= 0\<close>\<close>
  te_recv :: "string list" \<comment> \<open>results of \<open>ntc_tls_recv\<close>, up to one that is not positive\<close>
  te_closed :: bool        \<comment> \<open>\<open>ntc_tls_closed\<close>\<close>

fun tls_recv_loop :: "string list \<Rightarrow> string \<Rightarrow> string" where
  "tls_recv_loop [] buf = buf"
| "tls_recv_loop (s # ss) buf =
     (if length buf < NTC_CONN_RBUF \<and> s \<noteq> [] then tls_recv_loop ss (buf @ take (NTC_CONN_RBUF - length buf) s) else buf)"

definition tls_drive_read :: "gw_env \<Rightarrow> tls_event \<Rightarrow> gateway \<Rightarrow> conn_ptr \<Rightarrow> (int \<times> gateway) option" where
  "tls_drive_read env te g c = do {
     x \<leftarrow> g_conns g c;
     let buf = tls_recv_loop (te_recv te) (c_rbuf x);
     let g1 = set_conn g c (x\<lparr>c_rbuf := buf\<rparr>);
     if buf = c_rbuf x \<and> \<not> te_closed te then Some (0, g1) else process_request env g1 c (te_closed te)
   }"

definition on_tls_event :: "gw_env \<Rightarrow> tls_event \<Rightarrow> gateway \<Rightarrow> conn_ptr \<Rightarrow> gateway option" where
  "on_tls_event env te g c = do {
     x \<leftarrow> g_conns g c;
     if \<not> te_pump te then conn_close env g c
     else if c_state x = CS_WAIT \<and> te_closed te then conn_close env g c
     else do {
       (rc, g1) \<leftarrow> (if c_state x = CS_READ then tls_drive_read env te g c
                     else if c_state x = CS_WAIT then Some (0, g)
                     else tls_drive_write env g c);
       if rc < 0 then Some g1
       else do { (rc2, g2) \<leftarrow> tls_set_interest env g1 c; Some g2 }
     }
   }"

end
