(* ===== verification/Event_Loop.thy ===== *)
theory Event_Loop
  imports Dispatch
begin

text \<open>
  The event loop of \<open>ntc_server_run\<close> (\<open>src/core/server.c\<close>): new connections, readiness events
  and the periodic work. Events come in batches. An event of a registered descriptor carries
  the object's address, so an event whose object was freed earlier in its batch is a use after
  free: \<open>None\<close>.
\<close>

record accepted =
  ac_ptr :: conn_ptr
  ac_ip :: string
  ac_ok :: bool                  \<comment> \<open>\<open>set_nonblocking\<close>, the allocations and \<open>ntc_poller_add\<close>\<close>
  ac_tls :: "tls_round list"
  ac_sock :: "send_res list"
  ac_peer :: "recv_res list"

definition accept_conn :: "gw_env \<Rightarrow> bool \<Rightarrow> bool \<Rightarrow> gateway \<Rightarrow> accepted \<Rightarrow> gateway" where
  "accept_conn env is_admin is_tls g a =
     (if \<not> ac_ok a then g
      else set_conn g (ac_ptr a)
             ((conn_new env)\<lparr>c_is_admin := is_admin, c_tls := (if is_tls then Some (ac_tls a) else None),
                             c_client_ip := ac_ip a, c_sock := ac_sock a, c_peer := ac_peer a\<rparr>))"

definition accept_conns :: "gw_env \<Rightarrow> gateway \<Rightarrow> accepted list \<Rightarrow> bool \<Rightarrow> bool \<Rightarrow> gateway" where
  "accept_conns env g as is_admin is_tls = foldl (accept_conn env is_admin is_tls) g as"

definition accept_control :: "gateway \<Rightarrow> (nat \<times> recv_res list) list \<Rightarrow> gateway" where
  "accept_control g as =
     foldl (\<lambda>g (k, peer). g\<lparr>g_cctrls := (g_cctrls g)(k \<mapsto> \<lparr>cc_buf = [], cc_peer = peer\<rparr>)\<rparr>) g as"

datatype udata = U_conn conn_ptr tls_event | U_ctrl ctrl_ptr | U_control nat

datatype event =
    Ev_listen "accepted list" | Ev_admin "accepted list" | Ev_tls "accepted list"
  | Ev_control "(nat \<times> recv_res list) list"
  | Ev_ready udata bool bool     \<comment> \<open>the object, readable, writable\<close>

definition conn_event :: "gw_env \<Rightarrow> tls_event \<Rightarrow> gateway \<Rightarrow> conn_ptr \<Rightarrow> bool \<Rightarrow> bool \<Rightarrow> gateway option" where
  "conn_event env te g c rd wr = do {
     x \<leftarrow> g_conns g c;
     if c_tls x \<noteq> None then on_tls_event env te g c
     else
       (case c_state x of
          CS_READ \<Rightarrow> if rd then map_option snd (on_readable env g c) else Some g
        | CS_WAIT \<Rightarrow> if rd then on_wait_readable env g c else Some g
        | CS_STREAM \<Rightarrow> do {
            (rc, g1) \<leftarrow> (if wr then on_writable env g c else Some (0, g));
            if rc < 0 then Some g1 else if rd then on_wait_readable env g1 c else Some g1 }
        | CS_WS \<Rightarrow> do {
            (rc, g1) \<leftarrow> (if wr then on_writable env g c else Some (0, g));
            if rc < 0 then Some g1 else if rd then map_option snd (on_ws_readable env g1 c) else Some g1 }
        | CS_WRITE \<Rightarrow> if wr then map_option snd (on_writable env g c) else Some g)
   }"

definition ctrl_event :: "gw_env \<Rightarrow> gateway \<Rightarrow> ctrl_ptr \<Rightarrow> bool \<Rightarrow> bool \<Rightarrow> gateway option" where
  "ctrl_event env g t rd wr = do {
     ct \<leftarrow> g_ctrls g t;
     (rc, g1) \<leftarrow> (if rd then on_ctrl_readable env g t else Some (0, g));
     if rc < 0 then Some g1 else if wr then on_ctrl_writable env g1 t else Some g1
   }"

fun handle_event :: "gw_env \<Rightarrow> gateway \<Rightarrow> event \<Rightarrow> gateway option" where
  "handle_event env g (Ev_listen as) = Some (accept_conns env g as False False)"
| "handle_event env g (Ev_admin as) = Some (accept_conns env g as True False)"
| "handle_event env g (Ev_tls as) = Some (accept_conns env g as False True)"
| "handle_event env g (Ev_control as) = Some (accept_control g as)"
| "handle_event env g (Ev_ready (U_conn c te) rd wr) = conn_event env te g c rd wr"
| "handle_event env g (Ev_ready (U_ctrl t) rd wr) = ctrl_event env g t rd wr"
| "handle_event env g (Ev_ready (U_control k) rd wr) =
     (if rd then on_control_readable env g k else map_option (\<lambda>_. g) (g_cctrls g k))"

definition sweep_sessions :: "gw_env \<Rightarrow> gateway \<Rightarrow> gateway" where
  "sweep_sessions env g =
     (if g_sessions g \<noteq> None \<and> (g_sess_sweep g = 0 \<or> ge_now_ms env - g_sess_sweep g > 300000)
      then (sess_write g (Sess_sweep (ge_time env)))\<lparr>g_sess_sweep := ge_now_ms env\<rparr> else g)"

text \<open>The work after each batch, and one turn of the loop.\<close>

definition gw_tick :: "gw_env \<Rightarrow> gateway \<Rightarrow> gateway option" where
  "gw_tick env g = do { g1 \<leftarrow> dev_tick env g; Some (sweep_sessions env (supervise env g1)) }"

definition gw_turn :: "gateway \<Rightarrow> (gw_env \<times> event) list \<Rightarrow> gw_env \<Rightarrow> gateway option" where
  "gw_turn g evs env = do {
     g1 \<leftarrow> fold_opt (\<lambda>g (e, ev). handle_event e g ev) g evs;
     gw_tick env g1
   }"

end
