(* ===== verification/Gateway_Inv.thy ===== *)
theory Gateway_Inv
  imports Event_Loop
begin

text \<open>
  The invariant of the gateway and its preservation. The table of requests in flight and the
  connections agree, a request in flight waits for a live controller, services point to their
  own live controllers, and forwarding routes name a service. Every handler then runs without
  touching freed memory and keeps the invariant.
\<close>

subsection \<open>The invariant\<close>

definition svc_shape :: "service \<Rightarrow> bool" where
  "svc_shape svc \<longleftrightarrow>
     length (sv_conns svc) = NTC_MAX_REPLICAS \<and> length (sv_restart_at svc) = NTC_MAX_REPLICAS \<and>
     length (sv_spawned_at svc) = NTC_MAX_REPLICAS \<and> length (sv_backoff_ms svc) = NTC_MAX_REPLICAS \<and>
     sv_replicas svc \<le> int NTC_MAX_REPLICAS \<and>
     (\<forall>s < NTC_MAX_REPLICAS. 0 \<le> sv_backoff_ms svc ! s \<and> sv_backoff_ms svc ! s \<le> NTC_BACKOFF_MAX)"

definition svc_ok :: "(ctrl_ptr \<Rightarrow> ctrl option) \<Rightarrow> nat \<Rightarrow> service \<Rightarrow> bool" where
  "svc_ok ctrls i svc \<longleftrightarrow> svc_shape svc \<and>
     (\<forall>s < NTC_MAX_REPLICAS. \<forall>t. sv_conns svc ! s = Some t \<longrightarrow> map_option ct_svc (ctrls t) = Some i) \<and>
     (\<forall>r < NTC_MAX_REPLICAS. \<forall>s < NTC_MAX_REPLICAS. sv_conns svc ! r \<noteq> None \<longrightarrow> sv_conns svc ! r = sv_conns svc ! s \<longrightarrow> r = s)"

lemma svc_okD:
  assumes "svc_ok ctrls i svc"
  shows "svc_shape svc"
    and "s < NTC_MAX_REPLICAS \<Longrightarrow> sv_conns svc ! s = Some t \<Longrightarrow> map_option ct_svc (ctrls t) = Some i"
    and "r < NTC_MAX_REPLICAS \<Longrightarrow> s < NTC_MAX_REPLICAS \<Longrightarrow> sv_conns svc ! r = Some t \<Longrightarrow> sv_conns svc ! s = Some t \<Longrightarrow> r = s"
  using assms unfolding svc_ok_def by (blast, blast, fastforce)

lemma svc_okI:
  assumes "svc_shape svc"
    and "\<And>s t. s < NTC_MAX_REPLICAS \<Longrightarrow> sv_conns svc ! s = Some t \<Longrightarrow> map_option ct_svc (ctrls t) = Some i"
    and "\<And>r s t. r < NTC_MAX_REPLICAS \<Longrightarrow> s < NTC_MAX_REPLICAS \<Longrightarrow> sv_conns svc ! r = Some t \<Longrightarrow> sv_conns svc ! s = Some t \<Longrightarrow> r = s"
  shows "svc_ok ctrls i svc"
  unfolding svc_ok_def using assms by (metis not_None_eq)

definition gw_inv :: "gateway \<Rightarrow> bool" where
  "gw_inv g \<longleftrightarrow> slots_inv (g_slots g) \<and>
     (\<forall>rid c. gw_conn_for_id (g_slots g) rid = Some c \<longrightarrow>
        (\<exists>x. g_conns g c = Some x \<and> c_inflight x \<and> c_req_id x = rid)) \<and>
     (\<forall>c x. g_conns g c = Some x \<longrightarrow> c_inflight x \<longrightarrow>
        gw_conn_for_id (g_slots g) (c_req_id x) = Some c \<and> (\<exists>t. c_wait_ctrl x = Some t \<and> g_ctrls g t \<noteq> None)) \<and>
     (\<forall>c x. g_conns g c = Some x \<longrightarrow> c_state x = CS_READ \<longrightarrow> \<not> c_inflight x) \<and>
     (\<forall>i < length (g_services g). svc_ok (g_ctrls g) i (g_services g ! i)) \<and>
     (\<forall>t ct. g_ctrls g t = Some ct \<longrightarrow> ct_svc ct < length (g_services g)) \<and>
     (\<forall>rt \<in> set (routes (g_router g)). rt_handler rt = Forward_marker \<longrightarrow> rt_udata rt < length (g_services g))"

text \<open>What the invariant looks at in a connection and in the controllers.\<close>

definition core :: "conn \<Rightarrow> bool \<times> u32 \<times> ctrl_ptr option" where
  "core x = (c_inflight x, c_req_id x, c_wait_ctrl x)"

definition keeps :: "conn \<Rightarrow> conn \<Rightarrow> bool" where
  "keeps x x' \<longleftrightarrow> core x' = core x \<and> (c_state x' = CS_READ \<longrightarrow> c_state x = CS_READ)"

definition no_reread :: "conn option \<Rightarrow> conn option \<Rightarrow> bool" where
  "no_reread m m' \<longleftrightarrow> (\<forall>y. m' = Some y \<longrightarrow> c_state y = CS_READ \<longrightarrow> (\<exists>x. m = Some x \<and> c_state x = CS_READ))"

definition same_rest :: "gateway \<Rightarrow> gateway \<Rightarrow> bool" where
  "same_rest g g' \<longleftrightarrow> (\<forall>t. map_option ct_svc (g_ctrls g' t) = map_option ct_svc (g_ctrls g t)) \<and>
     g_services g' = g_services g \<and> g_router g' = g_router g"

text \<open>
  Work on one connection: it stays with its request, or it is gone and its slot is free.
\<close>

definition quiet :: "conn_ptr \<Rightarrow> gateway \<Rightarrow> gateway \<Rightarrow> bool" where
  "quiet c g g' \<longleftrightarrow> same_rest g g' \<and> (\<forall>d. d \<noteq> c \<longrightarrow> g_conns g' d = g_conns g d) \<and>
     no_reread (g_conns g c) (g_conns g' c) \<and>
     ((map_option core (g_conns g' c) = map_option core (g_conns g c) \<and> g_slots g' = g_slots g) \<or>
      (\<exists>x. g_conns g c = Some x \<and> g_conns g' c = None \<and>
           g_slots g' = (if c_inflight x then gw_free_slot (g_slots g) (id_slot (c_req_id x)) else g_slots g)))"

lemma same_rest_refl [simp]: "same_rest g g"
  by (simp add: same_rest_def)

lemma same_rest_trans [trans]: "same_rest g h \<Longrightarrow> same_rest h k \<Longrightarrow> same_rest g k"
  by (simp add: same_rest_def)

lemma no_reread_simps [simp]: "no_reread m m" "no_reread m None"
  by (simp_all add: no_reread_def)

lemma no_reread_trans: "no_reread a b \<Longrightarrow> no_reread b c \<Longrightarrow> no_reread a c"
  unfolding no_reread_def by blast

lemma quiet_refl [simp]: "quiet c g g"
  by (simp add: quiet_def)

lemma core_eq: "core x = core y \<Longrightarrow> c_inflight x = c_inflight y \<and> c_req_id x = c_req_id y \<and> c_wait_ctrl x = c_wait_ctrl y"
  by (simp add: core_def)

text \<open>The two ways a connection comes out of quiet work.\<close>

lemma quietE:
  assumes "quiet c g g'"
  obtains (stay) "map_option core (g_conns g' c) = map_option core (g_conns g c)" "g_slots g' = g_slots g"
    | (gone) x where "g_conns g c = Some x" "g_conns g' c = None"
        "g_slots g' = (if c_inflight x then gw_free_slot (g_slots g) (id_slot (c_req_id x)) else g_slots g)"
  using assms unfolding quiet_def by blast

lemma quiet_rest: "quiet c g g' \<Longrightarrow> same_rest g g'" "quiet c g g' \<Longrightarrow> d \<noteq> c \<Longrightarrow> g_conns g' d = g_conns g d"
    "quiet c g g' \<Longrightarrow> no_reread (g_conns g c) (g_conns g' c)"
  by (simp_all add: quiet_def)

lemma quiet_trans [trans]:
  assumes "quiet c g h" "quiet c h k"
  shows "quiet c g k"
proof -
  note q = quiet_rest [OF assms(1)] quiet_rest [OF assms(2)]
  have rest: "same_rest g k" "\<And>d. d \<noteq> c \<Longrightarrow> g_conns k d = g_conns g d" "no_reread (g_conns g c) (g_conns k c)"
    using same_rest_trans [OF q(1,4)] no_reread_trans [OF q(3,6)] q(2,5) by simp_all
  from assms(1) show ?thesis
  proof (cases rule: quietE)
    case stay
    from assms(2) show ?thesis
    proof (cases rule: quietE)
      case stay2: stay
      then show ?thesis using rest stay by (simp add: quiet_def)
    next
      case (gone y)
      then obtain x where "g_conns g c = Some x" "core y = core x"
        using stay(1) by (cases "g_conns g c") simp_all
      then show ?thesis using rest stay(2) gone core_eq [of y x] by (simp add: quiet_def)
    qed
  next
    case (gone x)
    from assms(2) have "g_conns k c = None" "g_slots k = g_slots h"
      using gone(2) by (cases rule: quietE, simp_all)+
    then show ?thesis using rest gone by (simp add: quiet_def)
  qed
qed

lemma ctrls_live: "same_rest g g' \<Longrightarrow> g_ctrls g' t = None \<longleftrightarrow> g_ctrls g t = None"
  unfolding same_rest_def by (metis map_option_is_None)

lemma same_rest_parts:
  assumes "same_rest g g'"
  shows "i < length (g_services g) \<Longrightarrow> svc_ok (g_ctrls g') i (g_services g' ! i) \<longleftrightarrow> svc_ok (g_ctrls g) i (g_services g ! i)"
    and "(\<forall>t ct. g_ctrls g' t = Some ct \<longrightarrow> ct_svc ct < length (g_services g')) \<longleftrightarrow>
         (\<forall>t ct. g_ctrls g t = Some ct \<longrightarrow> ct_svc ct < length (g_services g))"
proof -
  show "i < length (g_services g) \<Longrightarrow> svc_ok (g_ctrls g') i (g_services g' ! i) \<longleftrightarrow> svc_ok (g_ctrls g) i (g_services g ! i)"
    using assms by (simp add: svc_ok_def same_rest_def)
  have all: "(\<forall>t ct. m t = Some ct \<longrightarrow> ct_svc ct < n) \<longleftrightarrow> (\<forall>t s. map_option ct_svc (m t) = Some s \<longrightarrow> s < n)" for m :: "ctrl_ptr \<Rightarrow> ctrl option" and n
    by auto
  show "(\<forall>t ct. g_ctrls g' t = Some ct \<longrightarrow> ct_svc ct < length (g_services g')) \<longleftrightarrow>
         (\<forall>t ct. g_ctrls g t = Some ct \<longrightarrow> ct_svc ct < length (g_services g))"
    unfolding all using assms by (simp only: same_rest_def)
qed

text \<open>The invariant with another table and other connections, the rest as it was.\<close>

lemma gw_invI:
  assumes "gw_inv g" "same_rest g g'" "slots_inv (g_slots g')"
    and "\<And>rid c. gw_conn_for_id (g_slots g') rid = Some c \<Longrightarrow> \<exists>x. g_conns g' c = Some x \<and> c_inflight x \<and> c_req_id x = rid"
    and "\<And>c x. g_conns g' c = Some x \<Longrightarrow> c_inflight x \<Longrightarrow>
      gw_conn_for_id (g_slots g') (c_req_id x) = Some c \<and> (\<exists>t. c_wait_ctrl x = Some t \<and> g_ctrls g t \<noteq> None)"
    and "\<And>c x. g_conns g' c = Some x \<Longrightarrow> c_state x = CS_READ \<Longrightarrow> \<not> c_inflight x"
  shows "gw_inv g'"
  using assms same_rest_parts [OF assms(2)] ctrls_live [OF assms(2)]
  unfolding gw_inv_def by (simp add: same_rest_def)

lemma gw_inv_find: "gw_inv g \<Longrightarrow> gw_conn_for_id (g_slots g) rid = Some c \<Longrightarrow> \<exists>x. g_conns g c = Some x \<and> c_inflight x \<and> c_req_id x = rid"
  by (simp add: gw_inv_def)

lemma gw_inv_inflight:
  assumes "gw_inv g" "g_conns g c = Some x" "c_inflight x"
  shows "gw_conn_for_id (g_slots g) (c_req_id x) = Some c" and "\<exists>t ct. c_wait_ctrl x = Some t \<and> g_ctrls g t = Some ct"
  using assms by (auto simp: gw_inv_def)

lemma gw_inv_reading: "gw_inv g \<Longrightarrow> g_conns g c = Some x \<Longrightarrow> c_state x = CS_READ \<Longrightarrow> \<not> c_inflight x"
  by (simp add: gw_inv_def)

lemma gw_inv_ctrl: "gw_inv g \<Longrightarrow> g_ctrls g t = Some ct \<Longrightarrow> ct_svc ct < length (g_services g)"
  by (simp add: gw_inv_def)

lemma gw_inv_svc: "gw_inv g \<Longrightarrow> i < length (g_services g) \<Longrightarrow> svc_ok (g_ctrls g) i (g_services g ! i)"
  by (simp add: gw_inv_def)

lemma gw_inv_route: "gw_inv g \<Longrightarrow> rt \<in> set (routes (g_router g)) \<Longrightarrow> rt_handler rt = Forward_marker \<Longrightarrow> rt_udata rt < length (g_services g)"
  by (simp add: gw_inv_def)

lemma gw_inv_slots: "gw_inv g \<Longrightarrow> slots_inv (g_slots g)"
  by (simp add: gw_inv_def)

lemma quiet_inv:
  assumes "gw_inv g" "quiet c g g'"
  shows "gw_inv g'"
proof -
  have rest: "same_rest g g'" and other: "\<And>d. d \<noteq> c \<Longrightarrow> g_conns g' d = g_conns g d" using assms(2) by (auto simp: quiet_def)
  from assms(2) show ?thesis
  proof (cases rule: quietE)
    case stay
    have same: "map_option core (g_conns g' d) = map_option core (g_conns g d)" for d using stay(1) other by (cases "d = c") auto
    show ?thesis
    proof (rule gw_invI [OF assms(1) rest])
      fix rid d assume "gw_conn_for_id (g_slots g') rid = Some d"
      then obtain x where x: "g_conns g d = Some x" "c_inflight x" "c_req_id x = rid" using gw_inv_find [OF assms(1)] stay(2) by auto
      then obtain y where "g_conns g' d = Some y" "core y = core x" using same [of d] by (cases "g_conns g' d") auto
      then show "\<exists>x. g_conns g' d = Some x \<and> c_inflight x \<and> c_req_id x = rid" using x core_eq [of y x] by simp
    next
      fix d x assume "g_conns g' d = Some x" "c_inflight x"
      then obtain y where "g_conns g d = Some y" "core x = core y" using same [of d] by (cases "g_conns g d") auto
      then show "gw_conn_for_id (g_slots g') (c_req_id x) = Some d \<and> (\<exists>t. c_wait_ctrl x = Some t \<and> g_ctrls g t \<noteq> None)"
        using gw_inv_inflight [OF assms(1), of d y] core_eq [of x y] \<open>c_inflight x\<close> stay(2) by auto
    next
      fix d x assume x: "g_conns g' d = Some x" "c_state x = CS_READ"
      then obtain y where y: "g_conns g d = Some y" "c_state y = CS_READ"
        using quiet_rest(3) [OF assms(2)] other by (cases "d = c") (auto simp: no_reread_def)
      then have "core x = core y" using same [of d] x by simp
      then show "\<not> c_inflight x" using gw_inv_reading [OF assms(1) y] core_eq by blast
    qed (use stay(2) assms(1) gw_inv_slots in auto)
  next
    case (gone x)
    have conns: "g_conns g' = (g_conns g)(c := None)" using gone(2) other by auto
    have "slots_inv (g_slots g') \<and>
        gw_conn_for_id (g_slots g') = (if c_inflight x then (gw_conn_for_id (g_slots g))(c_req_id x := None) else gw_conn_for_id (g_slots g))"
    proof (cases "c_inflight x")
      case True
      then show ?thesis
        using infl.release_map [OF gw_inv_slots [OF assms(1)] gw_inv_inflight(1) [OF assms(1) gone(1) True]] gone(3) by (simp add: gw_free_id_def)
    qed (simp add: gone(3) gw_inv_slots [OF assms(1)])
    then have si: "slots_inv (g_slots g')"
      and find: "gw_conn_for_id (g_slots g') = (if c_inflight x then (gw_conn_for_id (g_slots g))(c_req_id x := None) else gw_conn_for_id (g_slots g))"
      by simp_all
    show ?thesis
    proof (rule gw_invI [OF assms(1) rest si])
      fix rid d assume f: "gw_conn_for_id (g_slots g') rid = Some d"
      then have "gw_conn_for_id (g_slots g) rid = Some d" by (auto simp: find split: if_splits)
      then obtain y where y: "g_conns g d = Some y" "c_inflight y" "c_req_id y = rid" using gw_inv_find [OF assms(1)] by blast
      have "d \<noteq> c" using f y gone(1) by (auto simp: find)
      then show "\<exists>x. g_conns g' d = Some x \<and> c_inflight x \<and> c_req_id x = rid" using y conns by simp
    next
      fix d y assume y: "g_conns g' d = Some y" "c_inflight y"
      then have d: "d \<noteq> c" "g_conns g d = Some y" by (auto simp: conns split: if_splits)
      have "c_req_id y \<noteq> c_req_id x" if "c_inflight x"
        using gw_inv_inflight(1) [OF assms(1) d(2) y(2)] gw_inv_inflight(1) [OF assms(1) gone(1) that] d(1) by auto
      then show "gw_conn_for_id (g_slots g') (c_req_id y) = Some d \<and> (\<exists>t. c_wait_ctrl y = Some t \<and> g_ctrls g t \<noteq> None)"
        using gw_inv_inflight [OF assms(1) d(2) y(2)] by (auto simp: find)
    next
      fix d y assume "g_conns g' d = Some y" "c_state y = CS_READ"
      then show "\<not> c_inflight y" using gw_inv_reading [OF assms(1), of d y] by (auto simp: conns split: if_splits)
    qed
  qed
qed

subsection \<open>Work on one connection\<close>

lemma quiet_fields [simp]:
  "quiet c g (g\<lparr>g_m := a1\<rparr>)" "quiet c g (g\<lparr>g_mw := a2\<rparr>)" "quiet c g (g\<lparr>g_log := a3\<rparr>)" "quiet c g (g\<lparr>g_closed := a4\<rparr>)"
  "quiet c g (g\<lparr>g_oauth_pending := a5\<rparr>)" "quiet c g (g\<lparr>g_sessions := a6\<rparr>)" "quiet c g (g\<lparr>g_stop := a7\<rparr>)"
  "quiet c g (g\<lparr>g_reg := a8\<rparr>)" "quiet c g (g\<lparr>g_app_name := a9\<rparr>)"
  by (simp_all add: quiet_def same_rest_def)

lemma quiet_set_conn: "g_conns g c = Some x \<Longrightarrow> keeps x x' \<Longrightarrow> quiet c g (set_conn g c x')"
  by (simp add: quiet_def same_rest_def keeps_def no_reread_def)

lemma quiet_set_ctrl: "g_ctrls g t = Some ct \<Longrightarrow> ct_svc ct' = ct_svc ct \<Longrightarrow> quiet c g (set_ctrl g t ct')"
  by (simp add: quiet_def same_rest_def)

text \<open>
  A step on a connection is safe when it returns, keeps everything else, and its return code
  is negative exactly when the connection is gone.
\<close>

definition conn_safe :: "conn_ptr \<Rightarrow> gateway \<Rightarrow> (int \<times> gateway) option \<Rightarrow> bool" where
  "conn_safe c g m \<longleftrightarrow> (\<exists>rc g'. m = Some (rc, g') \<and> quiet c g g' \<and> (rc < 0 \<longleftrightarrow> g_conns g' c = None))"

lemma conn_safe_ret [intro]: "quiet c g g' \<Longrightarrow> (rc < 0 \<longleftrightarrow> g_conns g' c = None) \<Longrightarrow> conn_safe c g (Some (rc, g'))"
  by (simp add: conn_safe_def)

lemma conn_safe_quiet: "quiet c g h \<Longrightarrow> conn_safe c h m \<Longrightarrow> conn_safe c g m"
  unfolding conn_safe_def by (elim exE conjE, intro exI conjI) (assumption, rule quiet_trans, assumption+)

lemma conn_safe_bind:
  assumes "gw_inv g" "conn_safe c g m"
    and "\<And>rc g'. gw_inv g' \<Longrightarrow> quiet c g g' \<Longrightarrow> (rc < 0 \<longleftrightarrow> g_conns g' c = None) \<Longrightarrow> conn_safe c g' (f (rc, g'))"
  shows "conn_safe c g (Option.bind m f)"
proof -
  obtain rc g' where m: "m = Some (rc, g')" and q: "quiet c g g'" and rc: "rc < 0 \<longleftrightarrow> g_conns g' c = None"
    using assms(2) by (auto simp: conn_safe_def)
  have "conn_safe c g' (f (rc, g'))" using assms(3) [OF quiet_inv [OF assms(1) q] q rc] .
  then show ?thesis using conn_safe_quiet [OF q] by (simp add: m)
qed

lemma ctrl_queue_safe:
  assumes "g_ctrls g t = Some ct"
  shows "\<exists>rc g'. ctrl_queue env g t ty rid pl = Some (rc, g') \<and> quiet c g g' \<and> g_conns g' = g_conns g \<and> g_slots g' = g_slots g \<and>
    (rc = 0 \<longrightarrow> g_ctrls g' t \<noteq> None)"
  using assms by (auto simp: ctrl_queue_def quiet_set_ctrl split: option.splits)

lemma ctrl_update_poll_live [simp]: "g_ctrls g t = Some ct \<Longrightarrow> ctrl_update_poll g t = Some g"
  by (simp add: ctrl_update_poll_def)

lemma conn_close_safe:
  assumes "gw_inv g" "g_conns g c = Some x"
  shows "\<exists>g'. conn_close env g c = Some g' \<and> quiet c g g' \<and> g_conns g' c = None"
proof -
  let ?tell = "if c_is_ws x \<and> c_inflight x then
       (case c_wait_ctrl x of None \<Rightarrow> Some g
        | Some t \<Rightarrow> (case ntc_wire_encode_ws_close 1000 2 of None \<Rightarrow> Some g
           | Some cb \<Rightarrow> do { (rc, g') \<leftarrow> ctrl_queue env g t NTC_MSG_WS_CLOSE (c_req_id x) cb;
                             if rc = 0 then ctrl_update_poll g' t else Some g' }))
     else Some g"
  have "\<exists>g1. ?tell = Some g1 \<and> quiet c g g1 \<and> g_conns g1 = g_conns g \<and> g_slots g1 = g_slots g"
  proof (cases "c_is_ws x \<and> c_inflight x")
    case True
    then obtain t ct where t: "c_wait_ctrl x = Some t" "g_ctrls g t = Some ct" using gw_inv_inflight(2) [OF assms] by blast
    show ?thesis
    proof (cases "ntc_wire_encode_ws_close 1000 2")
      case (Some cb)
      then show ?thesis using ctrl_queue_safe [OF t(2), of env NTC_MSG_WS_CLOSE "c_req_id x" cb c] True t by auto
    qed (use True t in auto)
  qed auto
  then obtain g1 where tell: "?tell = Some g1" and q: "quiet c g g1" "g_conns g1 = g_conns g" "g_slots g1 = g_slots g" by blast
  have "conn_close env g c = Some (let g2 = (if c_inflight x then gw_release g1 (c_req_id x) else g1)
      in g2\<lparr>g_conns := (g_conns g2)(c := None), g_closed := (c, c_sent x) # g_closed g2\<rparr>)"
    using tell by (simp add: conn_close_def assms(2) Let_def)
  then show ?thesis using q assms(2) by (auto simp: Let_def quiet_def same_rest_def gw_release_def)
qed

lemma close_ret_safe: "gw_inv g \<Longrightarrow> g_conns g c = Some x \<Longrightarrow> conn_safe c g (close_ret env g c)"
  using conn_close_safe [of g c x env] by (auto simp: close_ret_def conn_safe_def)

lemma close_upd_safe:
  assumes "gw_inv g" "g_conns g c = Some x" "keeps x x'"
  shows "conn_safe c g (close_ret env (set_conn g c x') c)"
proof -
  note q = quiet_set_conn [OF assms(2,3)]
  show ?thesis by (rule conn_safe_quiet [OF q close_ret_safe [OF quiet_inv [OF assms(1) q]]]) simp
qed

lemma ret_upd_safe:
  "g_conns g c = Some x \<Longrightarrow> keeps x x' \<Longrightarrow> rc \<ge> 0 \<Longrightarrow> conn_safe c g (Some (rc, set_conn g c x'))"
  by (rule conn_safe_ret) (auto simp: quiet_set_conn)

lemmas conn_step = close_ret_safe close_upd_safe ret_upd_safe

declare keeps_def [simp]

lemma core_upd [simp]:
  "core (x\<lparr>c_state := a1\<rparr>) = core x" "core (x\<lparr>c_tls := a2\<rparr>) = core x" "core (x\<lparr>c_extra_headers := a3\<rparr>) = core x"
  "core (x\<lparr>c_logged := a4\<rparr>) = core x" "core (x\<lparr>c_rbuf := a5\<rparr>) = core x" "core (x\<lparr>c_wbuf := a6\<rparr>) = core x"
  "core (x\<lparr>c_wsent := a7\<rparr>) = core x" "core (x\<lparr>c_streaming := a8\<rparr>) = core x" "core (x\<lparr>c_stream_sse := a9\<rparr>) = core x"
  "core (x\<lparr>c_stream_head_sent := b1\<rparr>) = core x" "core (x\<lparr>c_stream_ended := b2\<rparr>) = core x" "core (x\<lparr>c_is_ws := b3\<rparr>) = core x"
  "core (x\<lparr>c_swbuf := b4\<rparr>) = core x" "core (x\<lparr>c_swsent := b5\<rparr>) = core x" "core (x\<lparr>c_swcap := b6\<rparr>) = core x"
  "core (x\<lparr>c_sock := b7\<rparr>) = core x" "core (x\<lparr>c_peer := b8\<rparr>) = core x" "core (x\<lparr>c_sent := b9\<rparr>) = core x"
  "core (x\<lparr>c_accept_gzip := d1\<rparr>) = core x" "core (x\<lparr>c_log_method := d2\<rparr>) = core x" "core (x\<lparr>c_log_path := d3\<rparr>) = core x"
  "core (x\<lparr>c_request_id := d4\<rparr>) = core x" "core (x\<lparr>c_auth_sub := d5\<rparr>) = core x" "core (x\<lparr>c_auth_scope := d6\<rparr>) = core x"
  by (simp_all add: core_def)

lemma tls_drive_write_safe:
  assumes "gw_inv g" "g_conns g c = Some x" "c_tls x \<noteq> None"
  shows "conn_safe c g (tls_drive_write env g c)"
  using assms by (auto simp: tls_drive_write_def Let_def split: prod.splits drive.splits intro!: conn_step)

lemma tls_set_interest_safe:
  "gw_inv g \<Longrightarrow> g_conns g c = Some x \<Longrightarrow> conn_safe c g (tls_set_interest env g c)"
  by (auto simp: tls_set_interest_def intro: conn_step)

lemma on_writable_safe:
  assumes "gw_inv g" "g_conns g c = Some x"
  shows "conn_safe c g (on_writable env g c)"
  using assms tls_drive_write_safe [OF assms]
  by (auto simp: on_writable_def Let_def split: prod.splits drive.splits intro!: conn_step)

lemma flush_like_safe:
  assumes "gw_inv g" "g_conns g c = Some x" "c_tls x \<noteq> None" "\<And>rc' g'. rc' < 0 \<Longrightarrow> f (rc', g') = Some (- 1, g') \<or> f (rc', g') = Some (rc', g')"
    and "\<And>rc' g'. \<not> rc' < 0 \<Longrightarrow> f (rc', g') = tls_set_interest env g' c"
  shows "conn_safe c g (Option.bind (tls_drive_write env g c) f)"
proof (rule conn_safe_bind [OF assms(1) tls_drive_write_safe [OF assms(1-3)]])
  fix rc :: int and g' assume i: "gw_inv g'" and q: "quiet c g g'" and rc: "rc < 0 \<longleftrightarrow> g_conns g' c = None"
  show "conn_safe c g' (f (rc, g'))"
  proof (cases "rc < 0")
    case True
    then show ?thesis using assms(4) [OF True, of g'] rc by (auto simp: conn_safe_def)
  next
    case False
    then show ?thesis using assms(5) [OF False, of g'] rc i by (auto intro: tls_set_interest_safe)
  qed
qed

lemma conn_flush_safe:
  assumes "gw_inv g" "g_conns g c = Some x"
  shows "conn_safe c g (conn_flush env g c)"
  using assms on_writable_safe [OF assms]
  by (auto simp: conn_flush_def intro!: conn_step flush_like_safe)

lemma stream_kick_safe:
  assumes "gw_inv g" "g_conns g c = Some x"
  shows "conn_safe c g (stream_kick env g c)"
  using assms on_writable_safe [OF assms]
  by (auto simp: stream_kick_def intro!: conn_step flush_like_safe)

lemma conn_upd_then:
  assumes "gw_inv g" "g_conns g c = Some x" "keeps x x'"
    and "\<And>g'. gw_inv g' \<Longrightarrow> g_conns g' c = Some x' \<Longrightarrow> g' = set_conn g c x' \<Longrightarrow> conn_safe c g' (m g')"
  shows "conn_safe c g (m (set_conn g c x'))"
  by (rule conn_safe_quiet [OF quiet_set_conn [OF assms(2,3)]])
    (auto intro!: assms(4) quiet_inv [OF assms(1)] quiet_set_conn [OF assms(2,3)])

lemma stream_push_safe:
  assumes "gw_inv g" "g_conns g c = Some x"
  shows "conn_safe c g (stream_push env g c data)"
proof (cases "data = []")
  case True
  then show ?thesis using stream_kick_safe [OF assms] by (simp add: stream_push_def)
next
  case False
  have "conn_safe c g (stream_kick env (set_conn g c x') c)" if "keeps x x'" for x'
    using conn_upd_then [OF assms that, of "\<lambda>g'. stream_kick env g' c"] stream_kick_safe by blast
  then show ?thesis using False assms
    by (auto simp: stream_push_def Let_def split: option.splits intro!: conn_step)
qed

lemma access_log_keeps: "access_log env g x st = (x', lg) \<Longrightarrow> core x' = core x \<and> c_state x' = c_state x"
  by (auto simp: access_log_def split: option.splits if_splits)

lemma quiet_conn_log:
  assumes "g_conns g c = Some x" "keeps x x'"
  shows "quiet c g ((set_conn g c x')\<lparr>g_log := l\<rparr>)"
  using quiet_trans [OF quiet_set_conn [OF assms] quiet_fields(3)] .

lemma conn_respond_safe:
  assumes "g_conns g c = Some x"
  shows "\<exists>rc g'. conn_respond env g c st ct body = Some (rc, g') \<and> quiet c g g' \<and> g_conns g' c \<noteq> None"
proof -
  obtain b eh where ce: "conn_compress env x ct body = (b, eh)" by fastforce
  show ?thesis
  proof (cases "ntc_http_format_response_ex (ge_grant env) st (ntc_http_status_text st) ct (if eh \<noteq> [] then Some eh else None) b")
    case (Inl e)
    then show ?thesis using assms by (simp add: conn_respond_def ce quiet_set_conn)
  next
    case (Inr resp)
    obtain x' l where al: "access_log env g (x\<lparr>c_extra_headers := eh, c_wbuf := resp, c_wsent := 0, c_state := CS_WRITE\<rparr>) st = (x', l)"
      by fastforce
    then have "keeps x x'" using access_log_keeps [OF al] by (simp add: keeps_def)
    then show ?thesis using assms Inr by (simp add: conn_respond_def ce al quiet_conn_log [OF assms])
  qed
qed

text \<open>Responding and then flushing, which every answer does.\<close>

lemma respond_flush_safe:
  assumes "gw_inv g" "g_conns g c = Some x"
  shows "conn_safe c g (do { (rc, g1) \<leftarrow> conn_respond env g c st ct body;
    if rc \<noteq> 0 then close_ret env g1 c else conn_flush env g1 c })"
proof -
  obtain rc g' where r: "conn_respond env g c st ct body = Some (rc, g')" "quiet c g g'" "g_conns g' c \<noteq> None"
    using conn_respond_safe [OF assms(2)] by blast
  then obtain y where y: "g_conns g' c = Some y" by blast
  have "conn_safe c g' (if rc \<noteq> 0 then close_ret env g' c else conn_flush env g' c)"
    using close_ret_safe [OF quiet_inv [OF assms(1) r(2)] y] conn_flush_safe [OF quiet_inv [OF assms(1) r(2)] y] by simp
  then show ?thesis using conn_safe_quiet [OF r(2)] r(1) by simp
qed

lemma send_resp_safe: "gw_inv g \<Longrightarrow> g_conns g c = Some x \<Longrightarrow> conn_safe c g (send_resp env g c st ct body)"
  unfolding send_resp_def by (rule respond_flush_safe)

lemma quiet_rec_status [simp]: "quiet c g (rec_status g st)" "g_conns (rec_status g st) = g_conns g"
  by (simp_all add: rec_status_def Let_def)

lemma respond_and_flush_safe:
  assumes "gw_inv g" "g_conns g c = Some x"
  shows "conn_safe c g (respond_and_flush env g c st body)"
proof -
  have "conn_safe c h (do { (rc, g1) \<leftarrow> conn_respond env h c st ''application/json'' body;
    if rc \<noteq> 0 then close_ret env g1 c else conn_flush env g1 c })" if "quiet c g h" "g_conns h = g_conns g" for h
    using respond_flush_safe [OF quiet_inv [OF assms(1) that(1)]] assms(2) that(2) by simp
  from conn_safe_quiet [OF _ this] show ?thesis using assms(2) by (simp add: respond_and_flush_def Let_def)
qed

text \<open>Answers after an update that the invariant does not see.\<close>

lemma answer_after:
  assumes "gw_inv g" "quiet c g h" "g_conns h c = Some x"
  shows "conn_safe c g (respond_and_flush env h c st body)" "conn_safe c g (send_resp env h c st ct body)"
    "conn_safe c g (stream_push env h c data)" "conn_safe c g (close_ret env h c)"
proof -
  note h = quiet_inv [OF assms(1,2)] assms(3)
  note q = conn_safe_quiet [OF assms(2)]
  show "conn_safe c g (respond_and_flush env h c st body)" by (rule q [OF respond_and_flush_safe [OF h]])
  show "conn_safe c g (send_resp env h c st ct body)" by (rule q [OF send_resp_safe [OF h]])
  show "conn_safe c g (stream_push env h c data)" by (rule q [OF stream_push_safe [OF h]])
  show "conn_safe c g (close_ret env h c)" by (rule q [OF close_ret_safe [OF h]])
qed

subsection \<open>Delivery\<close>

text \<open>A delivery is safe when it returns, keeps the invariant, and leaves controllers and services alone.\<close>

definition deliver_safe :: "gateway \<Rightarrow> gateway option \<Rightarrow> bool" where
  "deliver_safe g m \<longleftrightarrow> (\<exists>g'. m = Some g' \<and> gw_inv g' \<and> same_rest g g')"

lemma deliver_id: "gw_inv g \<Longrightarrow> deliver_safe g (Some g)"
  by (simp add: deliver_safe_def)

lemma deliver_conn:
  assumes "gw_inv g" "conn_safe c g m"
  shows "deliver_safe g (do { (rc, g1) \<leftarrow> m; Some g1 })"
  using assms quiet_inv quiet_rest(1) by (fastforce simp: conn_safe_def deliver_safe_def)

lemma deliver_close:
  assumes "gw_inv g" "g_conns g c = Some x"
  shows "deliver_safe g (conn_close env g c)"
  using conn_close_safe [OF assms, of env] quiet_inv [OF assms(1)] quiet_rest(1) by (fastforce simp: deliver_safe_def)

lemma deliver_rest: "same_rest g h \<Longrightarrow> deliver_safe h m \<Longrightarrow> deliver_safe g m"
  unfolding deliver_safe_def by (elim exE conjE, intro exI conjI) (assumption, assumption, rule same_rest_trans)

lemma detach_inv:
  assumes "gw_inv g" "gw_conn_for_id (g_slots g) rid = Some c" "g_conns g c = Some x" "\<not> c_inflight x'"
  shows "gw_inv (set_conn (gw_release g rid) c x')"
proof -
  have x: "c_inflight x" "c_req_id x = rid" using gw_inv_find [OF assms(1,2)] assms(3) by auto
  have rel: "slots_inv (gw_free_slot (g_slots g) (id_slot rid))"
    "gw_conn_for_id (gw_free_slot (g_slots g) (id_slot rid)) = (gw_conn_for_id (g_slots g))(rid := None)"
    using infl.release_map [OF gw_inv_slots [OF assms(1)] assms(2)] by (simp_all add: gw_free_id_def)
  show ?thesis
  proof (rule gw_invI [OF assms(1)])
    fix k d assume f: "gw_conn_for_id (g_slots (set_conn (gw_release g rid) c x')) k = Some d"
    then have f2: "k \<noteq> rid" "gw_conn_for_id (g_slots g) k = Some d" by (auto simp: gw_release_def rel split: if_splits)
    then obtain y where y: "g_conns g d = Some y" "c_inflight y" "c_req_id y = k" using gw_inv_find [OF assms(1)] by blast
    then show "\<exists>x. g_conns (set_conn (gw_release g rid) c x') d = Some x \<and> c_inflight x \<and> c_req_id x = k"
      using x f2(1) assms(3) by (cases "d = c") (auto simp: gw_release_def)
  next
    fix d y assume "g_conns (set_conn (gw_release g rid) c x') d = Some y" "c_inflight y"
    then have d: "d \<noteq> c" "g_conns g d = Some y" using assms(4) by (auto simp: gw_release_def split: if_splits)
    have "c_req_id y \<noteq> rid" using gw_inv_inflight(1) [OF assms(1) d(2) \<open>c_inflight y\<close>] assms(2) d(1) by auto
    then show "gw_conn_for_id (g_slots (set_conn (gw_release g rid) c x')) (c_req_id y) = Some d \<and> (\<exists>t. c_wait_ctrl y = Some t \<and> g_ctrls g t \<noteq> None)"
      using gw_inv_inflight [OF assms(1) d(2) \<open>c_inflight y\<close>] by (auto simp: gw_release_def rel)
  next
    fix d y assume "g_conns (set_conn (gw_release g rid) c x') d = Some y" "c_state y = CS_READ"
    then show "\<not> c_inflight y" using gw_inv_reading [OF assms(1), of d y] assms(4) by (auto simp: gw_release_def split: if_splits)
  qed (auto simp: same_rest_def gw_release_def rel)
qed

lemma gw_detach_safe:
  assumes "gw_inv g" "gw_conn_for_id (g_slots g) rid = Some c"
  shows "\<exists>g' x. gw_detach g rid c = Some g' \<and> gw_inv g' \<and> same_rest g g' \<and> g_conns g' c = Some x \<and> \<not> c_inflight x \<and> g_log g' = g_log g"
proof -
  obtain x where x: "g_conns g c = Some x" using gw_inv_find [OF assms] by blast
  have "gw_inv (set_conn (gw_release g rid) c (x\<lparr>c_inflight := False\<rparr>))" by (rule detach_inv [OF assms x]) simp
  then show ?thesis by (simp add: gw_detach_def x) (simp add: same_rest_def gw_release_def)
qed

lemma gw_deliver_safe:
  assumes "gw_inv g"
  shows "deliver_safe g (gw_deliver env g rid payload)"
proof (cases "gw_conn_for_id (g_slots g) rid")
  case (Some c)
  obtain g1 x where d: "gw_detach g rid c = Some g1" "gw_inv g1" "same_rest g g1" "g_conns g1 c = Some x"
    using gw_detach_safe [OF assms Some] by blast
  show ?thesis
  proof (cases "ntc_wire_decode_response_ex payload")
    case None
    then show ?thesis using Some d(1) deliver_rest [OF d(3) deliver_conn [OF d(2) respond_and_flush_safe [OF d(2,4)]]]
      by (simp add: gw_deliver_def)
  next
    case (Some r)
    obtain status ctype body hdrs where r: "r = (status, ctype, body, hdrs)" by (metis prod_cases4)
    let ?h = "rec_status (set_conn g1 c (x\<lparr>c_extra_headers := merge_headers (c_extra_headers x) hdrs\<rparr>)) status"
    have "quiet c g1 ?h" by (rule quiet_trans [OF quiet_set_conn [OF d(4)] quiet_rec_status(1)]) simp
    then have "conn_safe c g1 (send_resp env ?h c status ctype body)" by (rule answer_after(2) [OF d(2)]) simp
    then show ?thesis using \<open>gw_conn_for_id (g_slots g) rid = Some c\<close> Some d(1,4) deliver_rest [OF d(3) deliver_conn [OF d(2)]]
      by (simp add: gw_deliver_def r Let_def)
  qed
qed (use assms in \<open>simp add: gw_deliver_def deliver_id\<close>)

lemma gw_deliver_begin_safe:
  assumes "gw_inv g"
  shows "deliver_safe g (gw_deliver_begin env g rid payload)"
proof (cases "gw_conn_for_id (g_slots g) rid")
  case (Some c)
  note find = Some
  show ?thesis
  proof (cases "ntc_wire_decode_response_begin payload")
    case None
    obtain g1 x where d: "gw_detach g rid c = Some g1" "gw_inv g1" "same_rest g g1" "g_conns g1 c = Some x"
      using gw_detach_safe [OF assms find] by blast
    then show ?thesis using find None deliver_rest [OF d(3) deliver_conn [OF d(2) respond_and_flush_safe [OF d(2,4)]]]
      by (simp add: gw_deliver_begin_def)
  next
    case (Some r)
    obtain status flags ctype where r: "r = (status, flags, ctype)" by (metis prod_cases3)
    obtain x where x: "g_conns g c = Some x" using gw_inv_find [OF assms find] by blast
    let ?x1 = "x\<lparr>c_streaming := True, c_stream_sse := (flags AND NTC_STREAM_FLAG_SSE \<noteq> 0), c_state := CS_STREAM\<rparr>"
    let ?g1 = "rec_status g status"
    have x1: "g_conns ?g1 c = Some x" using x by simp
    have q: "quiet c g (set_conn ?g1 c x')" if "keeps x x'" for x'
      by (rule quiet_trans [OF quiet_rec_status(1) quiet_set_conn [OF x1 that]])
    show ?thesis
    proof (cases "ntc_http_format_stream_head (ge_grant env) status (ntc_http_status_text status) ctype (c_stream_sse ?x1)
        (if cstr (c_extra_headers ?x1) \<noteq> [] then Some (cstr (c_extra_headers ?x1)) else None)")
      case (Inl e)
      have "deliver_safe (set_conn ?g1 c ?x1) (conn_close env (set_conn ?g1 c ?x1) c)"
        by (rule deliver_close [OF quiet_inv [OF assms q]]) simp_all
      then have "deliver_safe g (conn_close env (set_conn ?g1 c ?x1) c)"
        by (rule deliver_rest [OF quiet_rest(1) [OF q], rotated]) simp
      then show ?thesis using find x Some Inl by (simp add: gw_deliver_begin_def r Let_def)
    next
      case (Inr hdr)
      obtain x2 lg where al: "access_log env ?g1 ?x1 status = (x2, lg)" by fastforce
      then have c2: "core x2 = core x" "c_state x2 \<noteq> CS_READ" using access_log_keeps [OF al] by simp_all
      let ?h = "(set_conn ?g1 c (x2\<lparr>c_stream_head_sent := True\<rparr>))\<lparr>g_log := lg\<rparr>"
      have "quiet c g ?h" by (rule quiet_trans [OF q quiet_fields(3)]) (simp add: c2 keeps_def)
      then have "conn_safe c g (stream_push env ?h c hdr)" by (rule answer_after(3) [OF assms]) simp
      then show ?thesis using find x Some Inr al deliver_conn [OF assms]
        by (simp add: gw_deliver_begin_def r Let_def)
    qed
  qed
qed (use assms in \<open>simp add: gw_deliver_begin_def deliver_id\<close>)

text \<open>A sequence of pushes that stops when the connection is closed.\<close>

lemma push_seq:
  assumes "gw_inv g" "conn_safe c g m" "\<And>g' y. gw_inv g' \<Longrightarrow> g_conns g' c = Some y \<Longrightarrow> deliver_safe g' (f g')"
  shows "deliver_safe g (do { (rc, g1) \<leftarrow> m; if rc < 0 then Some g1 else f g1 })"
proof -
  obtain rc g' where m: "m = Some (rc, g')" and q: "quiet c g g'" and rc: "rc < 0 \<longleftrightarrow> g_conns g' c = None"
    using assms(2) by (auto simp: conn_safe_def)
  have i: "gw_inv g'" by (rule quiet_inv [OF assms(1) q])
  show ?thesis
  proof (cases "rc < 0")
    case True
    then show ?thesis using i quiet_rest(1) [OF q] by (simp add: m deliver_safe_def)
  next
    case False
    then obtain y where "g_conns g' c = Some y" using rc by auto
    then show ?thesis using deliver_rest [OF quiet_rest(1) [OF q] assms(3) [OF i]] False by (simp add: m)
  qed
qed

lemma gw_deliver_chunk_safe:
  assumes "gw_inv g"
  shows "deliver_safe g (gw_deliver_chunk env g rid payload)"
proof (cases "gw_conn_for_id (g_slots g) rid")
  case (Some c)
  obtain x where x: "g_conns g c = Some x" using gw_inv_find [OF assms Some] by blast
  have push: "deliver_safe g' (do { (rc, g1) \<leftarrow> stream_push env g' c s; Some g1 })" if "gw_inv g'" "g_conns g' c = Some y" for g' y s
    by (rule deliver_conn [OF that(1) stream_push_safe [OF that]])
  have "deliver_safe g (do { (rc, g1) \<leftarrow> stream_push env g c a; if rc < 0 then Some g1
      else do { (rc, g2) \<leftarrow> stream_push env g1 c b; if rc < 0 then Some g2
        else do { (rc, g3) \<leftarrow> stream_push env g2 c d; Some g3 } } })" for a b d
    by (rule push_seq [OF assms stream_push_safe [OF assms x]], rule push_seq, assumption, rule stream_push_safe, assumption+,
      rule push, assumption+)
  then show ?thesis using Some x push [OF assms x] deliver_id [OF assms]
    by (auto simp: gw_deliver_chunk_def split: option.splits)
qed (use assms in \<open>simp add: gw_deliver_chunk_def deliver_id\<close>)

lemma gw_deliver_end_safe:
  assumes "gw_inv g"
  shows "deliver_safe g (gw_deliver_end env g rid)"
proof (cases "gw_conn_for_id (g_slots g) rid")
  case (Some c)
  obtain g1 x where d: "gw_detach g rid c = Some g1" "gw_inv g1" "same_rest g g1" "g_conns g1 c = Some x"
    using gw_detach_safe [OF assms Some] by blast
  have "conn_safe c g1 (stream_push env (set_conn g1 c (x\<lparr>c_stream_ended := True\<rparr>)) c data)" for data
    by (rule answer_after(3) [OF d(2) quiet_set_conn [OF d(4)]]) simp_all
  then have "deliver_safe g (do { (rc, g3) \<leftarrow> stream_push env (set_conn g1 c (x\<lparr>c_stream_ended := True\<rparr>)) c data; Some g3 })" for data
    using deliver_rest [OF d(3) deliver_conn [OF d(2)]] by blast
  then show ?thesis using Some d deliver_rest [OF d(3) deliver_close [OF d(2,4)]]
    by (simp add: gw_deliver_end_def Let_def)
qed (use assms in \<open>simp add: gw_deliver_end_def deliver_id\<close>)

lemma gw_ws_deliver_safe:
  assumes "gw_inv g"
  shows "deliver_safe g (gw_ws_deliver env g rid payload)"
proof (cases "gw_conn_for_id (g_slots g) rid")
  case (Some c)
  obtain x where x: "g_conns g c = Some x" using gw_inv_find [OF assms Some] by blast
  show ?thesis using Some x deliver_id [OF assms] deliver_conn [OF assms stream_push_safe [OF assms x]]
    by (auto simp: gw_ws_deliver_def Let_def split: option.splits)
qed (use assms in \<open>simp add: gw_ws_deliver_def deliver_id\<close>)

lemma gw_ws_deliver_close_safe:
  assumes "gw_inv g"
  shows "deliver_safe g (gw_ws_deliver_close env g rid)"
proof (cases "gw_conn_for_id (g_slots g) rid")
  case (Some c)
  obtain g1 x where d: "gw_detach g rid c = Some g1" "gw_inv g1" "same_rest g g1" "g_conns g1 c = Some x"
    using gw_detach_safe [OF assms Some] by blast
  have "conn_safe c g1 (stream_push env (set_conn g1 c (x\<lparr>c_stream_ended := True\<rparr>)) c data)" for data
    by (rule answer_after(3) [OF d(2) quiet_set_conn [OF d(4)]]) simp_all
  then have "deliver_safe g (do { (rc, g3) \<leftarrow> stream_push env (set_conn g1 c (x\<lparr>c_stream_ended := True\<rparr>)) c data; Some g3 })" for data
    using deliver_rest [OF d(3) deliver_conn [OF d(2)]] by blast
  then show ?thesis using Some d deliver_rest [OF d(3) deliver_close [OF d(2,4)]]
    by (auto simp: gw_ws_deliver_close_def Let_def split: option.splits)
qed (use assms in \<open>simp add: gw_ws_deliver_close_def deliver_id\<close>)

lemma gw_message_safe: "gw_inv g \<Longrightarrow> deliver_safe g (gw_message env g h pl)"
  by (simp add: gw_message_def gw_deliver_safe gw_deliver_begin_safe gw_deliver_chunk_safe gw_deliver_end_safe
      gw_ws_deliver_safe gw_ws_deliver_close_safe deliver_id)

lemma ctrl_frames_safe:
  "gw_inv g \<Longrightarrow> \<exists>ok rest g'. ctrl_frames env g buf = Some (ok, rest, g') \<and> gw_inv g' \<and> same_rest g g'"
proof (induction env g buf rule: ctrl_frames.induct)
  case (1 env g buf)
  show ?case
  proof (cases "ntc_wire_read_frame buf")
    case (Frame m n)
    obtain h pl where m: "m = (h, pl)" by fastforce
    obtain g1 where g1: "gw_message env g h pl = Some g1" "gw_inv g1" "same_rest g g1"
      using gw_message_safe [OF 1(2), of env h pl] unfolding deliver_safe_def by blast
    show ?thesis using 1(1) [OF Frame m [symmetric] g1(1,2)] same_rest_trans [OF g1(3)] by (subst ctrl_frames.simps) (auto simp: Frame m g1(1))
  qed (subst ctrl_frames.simps, use 1(2) in auto)+
qed

subsection \<open>A controller's death\<close>

text \<open>No request waits for the controller in the first \<open>k\<close> slots.\<close>

definition none_waits :: "ctrl_ptr \<Rightarrow> nat \<Rightarrow> gateway \<Rightarrow> bool" where
  "none_waits t k g \<longleftrightarrow> (\<forall>i < k. \<forall>c x. sl_pending (g_slots g) ! i = Some c \<longrightarrow> g_conns g c = Some x \<longrightarrow> c_wait_ctrl x \<noteq> Some t)"

lemma pending_find:
  assumes "slots_inv s" "i < NTC_MAX_INFLIGHT" "sl_pending s ! i = Some c"
  shows "\<exists>rid. id_slot rid = i \<and> gw_conn_for_id s rid = Some c"
  using assms slot_id_split [OF assms(2), of "sl_gen s ! i"]
  by (intro exI [of _ "slot_id (sl_gen s ! i) i"]) (auto simp: conn_for_id_Some)

lemma find_pending: "gw_conn_for_id s rid = Some c \<Longrightarrow> sl_pending s ! id_slot rid = Some c"
  by (simp add: conn_for_id_Some)

lemma pending_conn:
  assumes "gw_inv g" "i < NTC_MAX_INFLIGHT" "sl_pending (g_slots g) ! i = Some c"
  shows "\<exists>x. g_conns g c = Some x \<and> c_inflight x \<and> id_slot (c_req_id x) = i"
  using pending_find [OF gw_inv_slots [OF assms(1)] assms(2,3)] gw_inv_find [OF assms(1)] by blast

lemma free_slot_pending:
  "slots_inv s \<Longrightarrow> i < NTC_MAX_INFLIGHT \<Longrightarrow> sl_pending (gw_free_slot s i) = (sl_pending s)[i := None]"
  by (simp add: gw_free_slot_def)

text \<open>A step that leaves other connections and other slots alone keeps \<open>none_waits\<close>.\<close>

lemma none_waits_mono:
  assumes "none_waits t k g" "\<And>i d. i < k \<Longrightarrow> sl_pending (g_slots g') ! i = Some d \<Longrightarrow> sl_pending (g_slots g) ! i = Some d \<and> g_conns g' d = g_conns g d"
  shows "none_waits t k g'"
  using assms unfolding none_waits_def by metis

lemma quiet_pending:
  assumes "quiet c g g'" "gw_inv g" "g_conns g c = Some x" "\<not> c_inflight x"
  shows "g_slots g' = g_slots g"
  using assms(1) by (cases rule: quietE) (use assms(3,4) in auto)

lemma fail_waiter_safe:
  assumes inv: "gw_inv g" and k: "k < NTC_MAX_INFLIGHT" and none: "none_waits t k g"
  shows "\<exists>g'. fail_waiter env t why g k = Some g' \<and> gw_inv g' \<and> same_rest g g' \<and> none_waits t (Suc k) g'"
proof (cases "sl_pending (g_slots g) ! k")
  case None
  then show ?thesis using inv none by (auto simp: fail_waiter_def none_waits_def less_Suc_eq)
next
  case (Some c)
  obtain x where x: "g_conns g c = Some x" "c_inflight x" "id_slot (c_req_id x) = k" using pending_conn [OF inv k Some] by blast
  show ?thesis
  proof (cases "c_wait_ctrl x = Some t")
    case False
    then show ?thesis using inv none x Some by (auto simp: fail_waiter_def none_waits_def less_Suc_eq)
  next
    case True
    let ?g1 = "set_conn (g\<lparr>g_slots := gw_free_slot (g_slots g) k\<rparr>) c (x\<lparr>c_inflight := False\<rparr>)"
    have find: "gw_conn_for_id (g_slots g) (c_req_id x) = Some c" using gw_inv_inflight(1) [OF inv x(1,2)] .
    have rel: "?g1 = set_conn (gw_release g (c_req_id x)) c (x\<lparr>c_inflight := False\<rparr>)" by (simp add: gw_release_def x(3))
    have inv1: "gw_inv ?g1" unfolding rel by (rule detach_inv [OF inv find x(1)]) simp
    have rest1: "same_rest g ?g1" by (simp add: same_rest_def)
    have step: "\<exists>g'. m = Some g' \<and> gw_inv g' \<and> same_rest g g' \<and> none_waits t (Suc k) g'" if "m = Some g'" "quiet c ?g1 g'" for m g'
    proof -
      have slots: "g_slots g' = gw_free_slot (g_slots g) k" using quiet_pending [OF that(2) inv1] by simp
      have pend: "sl_pending (g_slots g') = (sl_pending (g_slots g))[k := None]"
        unfolding slots by (rule free_slot_pending [OF gw_inv_slots [OF inv] k])
      have "sl_pending (g_slots g) ! i = Some d \<and> g_conns g' d = g_conns g d" if i: "i < k" "sl_pending (g_slots g') ! i = Some d" for i d
      proof -
        have p: "sl_pending (g_slots g) ! i = Some d" using i by (simp add: pend)
        have "d \<noteq> c" using pending_conn [OF inv _ p] i(1) k x by auto
        then show ?thesis using p quiet_rest(2) [OF \<open>quiet c ?g1 g'\<close>, of d] by simp
      qed
      then have "none_waits t k g'" by (rule none_waits_mono [OF none])
      moreover have "sl_pending (g_slots g') ! k = None" using gw_inv_slots [OF inv] k by (simp add: pend slots_inv_def)
      ultimately have "none_waits t (Suc k) g'" by (auto simp: none_waits_def less_Suc_eq)
      then show ?thesis using that(1) quiet_inv [OF inv1 that(2)] same_rest_trans [OF rest1 quiet_rest(1) [OF that(2)]] by blast
    qed
    have c1: "g_conns ?g1 c = Some (x\<lparr>c_inflight := False\<rparr>)" by simp
    show ?thesis
    proof (cases "c_stream_head_sent x")
      case True
      obtain g' where "conn_close env ?g1 c = Some g'" "quiet c ?g1 g'" using conn_close_safe [OF inv1 c1] by blast
      from step [OF this] show ?thesis using Some x(1) \<open>c_wait_ctrl x = Some t\<close> True by (simp add: fail_waiter_def Let_def)
    next
      case False
      obtain rc g' where r: "respond_and_flush env ?g1 c 502 (json_error why) = Some (rc, g')" "quiet c ?g1 g'"
        using respond_and_flush_safe [OF inv1 c1] unfolding conn_safe_def by blast
      have "do { (rc, g2) \<leftarrow> respond_and_flush env ?g1 c 502 (json_error why); Some g2 } = Some g'" using r(1) by simp
      from step [OF this r(2)] show ?thesis using Some x(1) \<open>c_wait_ctrl x = Some t\<close> False by (simp add: fail_waiter_def Let_def)
    qed
  qed
qed

lemma fail_all_safe:
  assumes "gw_inv g" "k \<le> NTC_MAX_INFLIGHT"
  shows "\<exists>g'. fold_opt (fail_waiter env t why) g [0..<k] = Some g' \<and> gw_inv g' \<and> same_rest g g' \<and> none_waits t k g'"
  using assms(2)
proof (induction k)
  case 0
  then show ?case using assms(1) by (simp add: none_waits_def)
next
  case (Suc k)
  then obtain g1 where g1: "fold_opt (fail_waiter env t why) g [0..<k] = Some g1" "gw_inv g1" "same_rest g g1" "none_waits t k g1" by auto
  obtain g2 where g2: "fail_waiter env t why g1 k = Some g2" "gw_inv g2" "same_rest g1 g2" "none_waits t (Suc k) g2"
    using fail_waiter_safe [OF g1(2) _ g1(4)] Suc.prems by auto
  have app: "fold_opt f s (as @ [a]) = Option.bind (fold_opt f s as) (\<lambda>s. f s a)" for f :: "gateway \<Rightarrow> nat \<Rightarrow> gateway option" and s as a
    by (induction as arbitrary: s) (auto split: option.splits)
  show ?case using g1 g2 same_rest_trans [OF g1(3) g2(3)] by (simp add: app)
qed

lemma next_backoff_range: "0 \<le> b \<Longrightarrow> 0 < next_backoff b \<and> next_backoff b \<le> NTC_BACKOFF_MAX"
  by (auto simp: next_backoff_def NTC_BACKOFF_BASE_def NTC_BACKOFF_MAX_def Let_def)

lemma svc_slot_of_Some: "svc_slot_of svc t = Some s \<Longrightarrow> s < NTC_MAX_REPLICAS \<and> sv_conns svc ! s = Some t"
  unfolding svc_slot_of_def by (auto simp: find_Some_iff)

lemma svc_slot_of_None: "svc_slot_of svc t = None \<Longrightarrow> s < NTC_MAX_REPLICAS \<Longrightarrow> sv_conns svc ! s \<noteq> Some t"
  unfolding svc_slot_of_def by (auto simp: find_None_iff)

text \<open>After the loss of a replica the service points only to other live controllers.\<close>

lemma svc_lost_ok:
  assumes "svc_ok ctrls i svc"
  shows "svc_ok (ctrls(t := None)) i (svc_lost env t svc)"
proof (cases "svc_slot_of svc t")
  case None
  have "t' \<noteq> t" if "s < NTC_MAX_REPLICAS" "sv_conns svc ! s = Some t'" for s t' using svc_slot_of_None [OF None that(1)] that(2) by auto
  then show ?thesis using svc_okD [OF assms] by (intro svc_okI) (auto simp: svc_lost_def None)
next
  case (Some s)
  note s = svc_slot_of_Some [OF Some] and D = svc_okD [OF assms]
  let ?c = "(sv_conns svc)[s := None]"
  have len: "length (sv_conns svc) = NTC_MAX_REPLICAS" using D(1) by (simp add: svc_shape_def)
  have old: "r \<noteq> s \<and> sv_conns svc ! r = Some t'" if "?c ! r = Some t'" "r < NTC_MAX_REPLICAS" for r t'
    using that len s by (cases "r = s") auto
  have "0 \<le> next_backoff (sv_backoff_ms svc ! s) \<and> next_backoff (sv_backoff_ms svc ! s) \<le> NTC_BACKOFF_MAX"
    using next_backoff_range [of "sv_backoff_ms svc ! s"] D(1) s by (simp add: svc_shape_def)
  then have "svc_shape (svc_lost env t svc)"
    using D(1) s by (simp add: svc_shape_def svc_lost_def Some Let_def nth_list_update)
  moreover have c: "sv_conns (svc_lost env t svc) = ?c" by (simp add: svc_lost_def Some Let_def)
  moreover have "map_option ct_svc ((ctrls(t := None)) t') = Some i" if "?c ! r = Some t'" "r < NTC_MAX_REPLICAS" for r t'
    using old [OF that] D(2) [OF that(2), of t'] D(3) [OF that(2), of s t] s by auto
  moreover have "q = r" if "q < NTC_MAX_REPLICAS" "r < NTC_MAX_REPLICAS" "?c ! q = Some t'" "?c ! r = Some t'" for q r t'
    using old [OF that(3,1)] old [OF that(4,2)] D(3) [OF that(1,2)] by blast
  ultimately show ?thesis by (intro svc_okI) (simp_all only: c)
qed

lemma svc_ok_other: "svc_ok ctrls i svc \<Longrightarrow> map_option ct_svc (ctrls t) \<noteq> Some i \<Longrightarrow> svc_ok (ctrls(t := None)) i svc"
  by (rule svc_okI) (auto dest: svc_okD)

lemma none_waits_all:
  assumes "gw_inv g" "none_waits t NTC_MAX_INFLIGHT g" "g_conns g c = Some x" "c_inflight x"
  shows "c_wait_ctrl x \<noteq> Some t"
  using assms find_pending [OF gw_inv_inflight(1) [OF assms(1,3,4)]] id_slot_less by (auto simp: none_waits_def)

text \<open>Freeing a controller that no request waits for, its service being updated.\<close>

lemma ctrl_free_inv:
  assumes inv: "gw_inv g" and none: "none_waits t NTC_MAX_INFLIGHT g" and ct: "g_ctrls g t = Some ct"
    and svc: "svc_ok ((g_ctrls g)(t := None)) (ct_svc ct) svc'"
  shows "gw_inv ((set_svc g (ct_svc ct) svc')\<lparr>g_ctrls := (g_ctrls g)(t := None)\<rparr>)"
proof -
  have i: "ct_svc ct < length (g_services g)" using gw_inv_ctrl [OF inv ct] .
  have "svc_ok ((g_ctrls g)(t := None)) j ((g_services g)[ct_svc ct := svc'] ! j)" if "j < length (g_services g)" for j
    using svc i svc_ok_other [OF gw_inv_svc [OF inv that], of t] ct by (auto simp: nth_list_update)
  moreover have "gw_conn_for_id (g_slots g) (c_req_id x) = Some c \<and> (\<exists>t'. c_wait_ctrl x = Some t' \<and> ((g_ctrls g)(t := None)) t' \<noteq> None)"
    if "g_conns g c = Some x" "c_inflight x" for c x
    using none_waits_all [OF inv none that] gw_inv_inflight [OF inv that] by auto
  moreover have "ct_svc ct' < length (g_services g)" if "((g_ctrls g)(t := None)) t' = Some ct'" for t' ct'
    using gw_inv_ctrl [OF inv, of t'] that by (auto split: if_splits)
  ultimately show ?thesis using gw_inv_slots [OF inv] gw_inv_find [OF inv] gw_inv_route [OF inv] gw_inv_reading [OF inv]
    unfolding gw_inv_def by simp
qed

lemma controller_died_safe:
  assumes "gw_inv g" "g_ctrls g t = Some ct"
  shows "\<exists>g'. controller_died env g t = Some g' \<and> gw_inv g' \<and> g_ctrls g' t = None"
proof -
  obtain g1 where g1: "fold_opt (fail_waiter env t ''controller died'') g [0..<NTC_MAX_INFLIGHT] = Some g1"
    "gw_inv g1" "same_rest g g1" "none_waits t NTC_MAX_INFLIGHT g1"
    using fail_all_safe [OF assms(1) order_refl] by blast
  obtain ct1 where ct1: "g_ctrls g1 t = Some ct1" "ct_svc ct1 = ct_svc ct"
    using g1(3) assms(2) unfolding same_rest_def by (metis map_option_eq_Some)
  have "svc_ok (g_ctrls g1) (ct_svc ct) (g_services g1 ! ct_svc ct)"
    using gw_inv_svc [OF g1(2) gw_inv_ctrl [OF g1(2) ct1(1)]] ct1(2) by simp
  then have "gw_inv ((set_svc g1 (ct_svc ct1) (svc_lost env t (g_services g1 ! ct_svc ct)))\<lparr>g_ctrls := (g_ctrls g1)(t := None)\<rparr>)"
    by (intro ctrl_free_inv [OF g1(2,4) ct1(1)]) (simp add: ct1(2) svc_lost_ok)
  then show ?thesis using assms(2) g1(1) ct1(2) by (simp add: controller_died_def Let_def)
qed

lemma set_ctrl_inv: "gw_inv g \<Longrightarrow> g_ctrls g t = Some ct \<Longrightarrow> ct_svc ct' = ct_svc ct \<Longrightarrow> gw_inv (set_ctrl g t ct')"
  by (rule quiet_inv [OF _ quiet_set_ctrl])

text \<open>A handler that returns and keeps the invariant.\<close>

definition inv_safe :: "gateway option \<Rightarrow> bool" where
  "inv_safe m \<longleftrightarrow> (\<exists>g'. m = Some g' \<and> gw_inv g')"

lemma inv_safe_Some [simp]: "inv_safe (Some g) \<longleftrightarrow> gw_inv g"
  by (simp add: inv_safe_def)

lemma inv_safe_conn: "gw_inv g \<Longrightarrow> conn_safe c g m \<Longrightarrow> inv_safe (map_option snd m)"
  by (auto simp: conn_safe_def inv_safe_def quiet_inv)

lemma on_ctrl_writable_safe:
  assumes "gw_inv g" "g_ctrls g t = Some ct"
  shows "inv_safe (on_ctrl_writable env g t)"
proof -
  have "inv_safe (controller_died env (set_ctrl g t ct') t)" if "ct_svc ct' = ct_svc ct" for ct'
    using controller_died_safe [OF set_ctrl_inv [OF assms that], of t ct' env] by (auto simp: inv_safe_def)
  then show ?thesis using assms set_ctrl_inv [OF assms]
    by (auto simp: on_ctrl_writable_def Let_def split: prod.splits drive.splits)
qed

lemma on_ctrl_readable_safe:
  assumes "gw_inv g" "g_ctrls g t = Some ct"
  shows "\<exists>rc g'. on_ctrl_readable env g t = Some (rc, g') \<and> gw_inv g' \<and> (rc < 0 \<longleftrightarrow> g_ctrls g' t = None)"
proof -
  obtain e buf cap peer where r: "ctrl_recv env (ct_peer ct) (ct_rcap ct) (ct_rbuf ct) = (e, buf, cap, peer)" by (metis prod_cases4)
  let ?g1 = "set_ctrl g t (ct\<lparr>ct_rbuf := buf, ct_rcap := cap, ct_peer := peer\<rparr>)"
  have inv1: "gw_inv ?g1" by (rule set_ctrl_inv [OF assms]) simp
  obtain g2 where died: "controller_died env ?g1 t = Some g2" "gw_inv g2" "g_ctrls g2 t = None"
    using controller_died_safe [OF inv1, of t "ct\<lparr>ct_rbuf := buf, ct_rcap := cap, ct_peer := peer\<rparr>"] by auto
  obtain ok rest g3 where fr: "ctrl_frames env ?g1 buf = Some (ok, rest, g3)" "gw_inv g3" "same_rest ?g1 g3"
    using ctrl_frames_safe [OF inv1] by blast
  obtain ct3 where ct3: "g_ctrls g3 t = Some ct3" using ctrls_live [OF fr(3), of t] by (cases "g_ctrls g3 t") auto
  obtain g4 where died4: "controller_died env g3 t = Some g4" "gw_inv g4" "g_ctrls g4 t = None"
    using controller_died_safe [OF fr(2) ct3] by blast
  have "gw_inv (set_ctrl g3 t (ct3\<lparr>ct_rbuf := rest\<rparr>))" by (rule set_ctrl_inv [OF fr(2) ct3]) simp
  then show ?thesis using assms(2) r died fr(1) ct3 died4 by (simp add: on_ctrl_readable_def Let_def)
qed

lemma ctrl_event_safe:
  assumes "gw_inv g" "g_ctrls g t = Some ct"
  shows "inv_safe (ctrl_event env g t rd wr)"
proof -
  obtain rc g1 where r: "(if rd then on_ctrl_readable env g t else Some (0, g)) = Some (rc, g1)" "gw_inv g1"
    "rc < 0 \<longleftrightarrow> g_ctrls g1 t = None"
    using on_ctrl_readable_safe [OF assms, of env] assms by (cases rd) auto
  show ?thesis
  proof (cases "rc < 0")
    case False
    then obtain ct1 where "g_ctrls g1 t = Some ct1" using r(3) by auto
    then show ?thesis using on_ctrl_writable_safe [OF r(2)] r(1,2) assms(2) False by (simp add: ctrl_event_def)
  qed (use r assms(2) in \<open>simp add: ctrl_event_def\<close>)
qed

subsection \<open>Forwarding\<close>

text \<open>Handling a request on a connection: it returns, and the code says whether the connection is left.\<close>

definition req_safe :: "conn_ptr \<Rightarrow> (int \<times> gateway) option \<Rightarrow> bool" where
  "req_safe c m \<longleftrightarrow> (\<exists>rc g'. m = Some (rc, g') \<and> gw_inv g' \<and> (rc < 0 \<longleftrightarrow> g_conns g' c = None))"

lemma req_safe_conn: "gw_inv g \<Longrightarrow> conn_safe c g m \<Longrightarrow> req_safe c m"
  unfolding conn_safe_def req_safe_def by (elim exE conjE, intro exI conjI) (assumption, rule quiet_inv, assumption+)

lemma req_safe_answer:
  assumes "gw_inv g" "g_conns g c = Some x"
  shows "req_safe c (respond_and_flush env g c st body)" "req_safe c (send_resp env g c st ct body)"
    "req_safe c (stream_push env g c data)" "req_safe c (close_ret env g c)" "0 \<le> rc \<Longrightarrow> req_safe c (Some (rc, g))"
proof -
  note r = req_safe_conn [OF assms(1)]
  show "req_safe c (respond_and_flush env g c st body)" by (rule r [OF respond_and_flush_safe [OF assms]])
  show "req_safe c (send_resp env g c st ct body)" by (rule r [OF send_resp_safe [OF assms]])
  show "req_safe c (stream_push env g c data)" by (rule r [OF stream_push_safe [OF assms]])
  show "req_safe c (close_ret env g c)" by (rule r [OF close_ret_safe [OF assms]])
  show "0 \<le> rc \<Longrightarrow> req_safe c (Some (rc, g))" using assms by (simp add: req_safe_def)
qed

lemma req_safe_inv: "req_safe c m \<Longrightarrow> inv_safe (map_option snd m)"
  by (auto simp: req_safe_def inv_safe_def)

lemma svc_n_range: "svc_shape svc \<Longrightarrow> 0 < svc_n svc \<and> svc_n svc \<le> NTC_MAX_REPLICAS"
  by (auto simp: svc_n_def svc_shape_def NTC_MAX_REPLICAS_def)

lemma svc_pick_live:
  assumes "svc_shape svc" "svc_pick svc = (Some t, svc')"
  shows "\<exists>i < svc_n svc. sv_conns svc ! i = Some t"
proof -
  have n: "0 < svc_n svc" using svc_n_range [OF assms(1)] by simp
  obtain k where "find (\<lambda>k. sv_conns svc ! ((sv_rr svc + k) mod svc_n svc) \<noteq> None) [0 ..< svc_n svc] = Some k"
    "sv_conns svc ! ((sv_rr svc + k) mod svc_n svc) = Some t"
    using assms(2) by (auto simp: svc_pick_def Let_def split: option.splits)
  then show ?thesis using n by (intro exI [of _ "(sv_rr svc + k) mod svc_n svc"]) simp
qed

lemma svc_pick_keeps: "svc_pick svc = (t, svc') \<Longrightarrow> \<exists>r. svc' = svc\<lparr>sv_rr := r\<rparr>"
  by (auto simp: svc_pick_def Let_def split: option.splits intro: exI [of _ "sv_rr svc"])

lemma svc_ok_rr [simp]: "svc_ok ctrls i (svc\<lparr>sv_rr := r\<rparr>) = svc_ok ctrls i svc"
  by (simp add: svc_ok_def svc_shape_def)

lemma set_svc_inv:
  assumes "gw_inv g" "i < length (g_services g)" "svc_ok (g_ctrls g) i svc'"
  shows "gw_inv (set_svc g i svc')"
  using assms unfolding gw_inv_def by (simp add: nth_list_update)

lemma gw_target_safe:
  assumes "gw_inv g" "i < length (g_services g)" "gw_target g i = (tgt, g')"
  shows "gw_inv g'" "g_conns g' = g_conns g" "\<And>t. tgt = Some t \<Longrightarrow> g_ctrls g' t \<noteq> None"
proof -
  let ?svc = "g_services g ! i"
  note ok = gw_inv_svc [OF assms(1,2)]
  obtain t svc' where p: "svc_pick ?svc = (t, svc')" by fastforce
  obtain r where r: "svc' = ?svc\<lparr>sv_rr := r\<rparr>" using svc_pick_keeps [OF p] by blast
  have g': "g' = (if sv_disabled ?svc then g else set_svc g i svc')" "tgt = (if sv_disabled ?svc then None else t)"
    using assms(3) by (auto simp: gw_target_def p Let_def split: if_splits)
  show "gw_inv g'" using set_svc_inv [OF assms(1,2)] ok assms(1) by (simp add: g' r)
  show "g_conns g' = g_conns g" by (simp add: g')
  show "g_ctrls g' u \<noteq> None" if "tgt = Some u" for u
  proof -
    have "t = Some u" using that g'(2) by (simp split: if_splits)
    then obtain k where "k < svc_n ?svc" "sv_conns ?svc ! k = Some u" using svc_pick_live [OF svc_okD(1) [OF ok]] p by blast
    then have "map_option ct_svc (g_ctrls g u) = Some i" using svc_okD(2) [OF ok, of k u] svc_n_range [OF svc_okD(1) [OF ok]] by linarith
    then show ?thesis by (auto simp: g')
  qed
qed

text \<open>Taking a slot for an idle connection and giving it back, or keeping it.\<close>

lemma alloc_undo_inv:
  assumes "gw_inv g" "gw_alloc_id (g_slots g) c = Some (rid, s)" "quiet c (g\<lparr>g_slots := s\<rparr>) g1"
    "g_conns g1 = g_conns g" "g_slots g1 = s"
  shows "gw_inv (gw_release g1 rid)"
proof -
  note a = infl.alloc_map [OF gw_inv_slots [OF assms(1)] assms(2)]
  have "slots_inv (gw_free_slot s (id_slot rid))" "gw_conn_for_id (gw_free_slot s (id_slot rid)) = gw_conn_for_id (g_slots g)"
    using infl.release_map [of s rid c] infl.alloc_release [OF gw_inv_slots [OF assms(1)] assms(2)] a by (simp_all add: gw_free_id_def)
  moreover have "same_rest g g1" using quiet_rest(1) [OF assms(3)] by (simp add: same_rest_def)
  ultimately show ?thesis
    using gw_inv_find [OF assms(1)] gw_inv_inflight [OF assms(1)] gw_inv_reading [OF assms(1)]
    by (intro gw_invI [OF assms(1), of "gw_release g1 rid"]) (auto simp: gw_release_def assms(4,5) same_rest_def)
qed

lemma alloc_keep_inv:
  assumes "gw_inv g" "g_conns g c = Some x" "\<not> c_inflight x" "gw_alloc_id (g_slots g) c = Some (rid, s)"
    "quiet c (g\<lparr>g_slots := s\<rparr>) g1" "g_conns g1 = g_conns g" "g_slots g1 = s" "g_ctrls g t \<noteq> None"
    and x': "c_inflight x'" "c_req_id x' = rid" "c_wait_ctrl x' = Some t" "c_state x' \<noteq> CS_READ"
  shows "gw_inv (set_conn g1 c x')"
proof -
  note a = infl.alloc_map [OF gw_inv_slots [OF assms(1)] assms(4)]
  have rest: "same_rest g (set_conn g1 c x')" using quiet_rest(1) [OF assms(5)] by (simp add: same_rest_def)
  show ?thesis
  proof (rule gw_invI [OF assms(1) rest])
    fix k d assume "gw_conn_for_id (g_slots (set_conn g1 c x')) k = Some d"
    then have "k = rid \<and> d = c \<or> k \<noteq> rid \<and> gw_conn_for_id (g_slots g) k = Some d" using a by (auto simp: assms(7) split: if_splits)
    then show "\<exists>x. g_conns (set_conn g1 c x') d = Some x \<and> c_inflight x \<and> c_req_id x = k"
    proof
      assume k: "k \<noteq> rid \<and> gw_conn_for_id (g_slots g) k = Some d"
      then obtain y where y: "g_conns g d = Some y" "c_inflight y" "c_req_id y = k" using gw_inv_find [OF assms(1)] by blast
      then have "d \<noteq> c" using assms(2,3) by auto
      then show ?thesis using y by (simp add: assms(6))
    qed (simp add: x')
  next
    fix d y assume y: "g_conns (set_conn g1 c x') d = Some y" "c_inflight y"
    show "gw_conn_for_id (g_slots (set_conn g1 c x')) (c_req_id y) = Some d \<and> (\<exists>t. c_wait_ctrl y = Some t \<and> g_ctrls g t \<noteq> None)"
    proof (cases "d = c")
      case True
      then show ?thesis using y x' a assms(8) by (auto simp: assms(7))
    next
      case False
      then have "g_conns g d = Some y" using y(1) by (simp add: assms(6))
      note w = gw_inv_inflight [OF assms(1) this y(2)]
      have "c_req_id y \<noteq> rid" using w(1) a by auto
      then show ?thesis using w a by (auto simp: assms(7))
    qed
  next
    fix d y assume "g_conns (set_conn g1 c x') d = Some y" "c_state y = CS_READ"
    then show "\<not> c_inflight y" using gw_inv_reading [OF assms(1), of d y] x'(4) by (auto simp: assms(6) split: if_splits)
  qed (use a in \<open>simp add: assms(7)\<close>)
qed

text \<open>The two ways of handing a request to a controller share this step.\<close>

lemma enqueue_safe:
  assumes inv: "gw_inv g" and x: "g_conns g c = Some x" "\<not> c_inflight x" and t: "g_ctrls g t = Some ct"
    and al: "gw_alloc_id (g_slots g) c = Some (rid, s)"
  shows "\<exists>rc g1. ctrl_queue env (g\<lparr>g_slots := s\<rparr>) t ty rid enc = Some (rc, g1) \<and> g_conns g1 = g_conns g \<and>
    gw_inv (gw_release g1 rid) \<and> g_conns (gw_release g1 rid) = g_conns g \<and> (\<exists>ct1. g_ctrls g1 t = Some ct1) \<and>
    (\<forall>x'. c_inflight x' \<longrightarrow> c_req_id x' = rid \<longrightarrow> c_wait_ctrl x' = Some t \<longrightarrow> c_state x' \<noteq> CS_READ \<longrightarrow> gw_inv (set_conn g1 c x'))"
proof -
  have "g_ctrls (g\<lparr>g_slots := s\<rparr>) t = Some ct" using t by simp
  then obtain rc g1 where q: "ctrl_queue env (g\<lparr>g_slots := s\<rparr>) t ty rid enc = Some (rc, g1)" "quiet c (g\<lparr>g_slots := s\<rparr>) g1"
    "g_conns g1 = g_conns g" "g_slots g1 = s"
    using ctrl_queue_safe [of "g\<lparr>g_slots := s\<rparr>" t ct env ty rid enc c] by auto
  have "\<exists>ct1. g_ctrls g1 t = Some ct1" using ctrls_live [OF quiet_rest(1) [OF q(2)], of t] t by auto
  moreover have "gw_inv (gw_release g1 rid)" by (rule alloc_undo_inv [OF inv al q(2-4)])
  moreover have "gw_inv (set_conn g1 c x')" if "c_inflight x'" "c_req_id x' = rid" "c_wait_ctrl x' = Some t" "c_state x' \<noteq> CS_READ" for x'
    by (rule alloc_keep_inv [OF inv x al q(2-4) _ that]) (simp add: t)
  ultimately show ?thesis using q by (simp add: gw_release_def)
qed

lemma gw_forward_safe:
  assumes "gw_inv g0" "g_conns g0 c = Some x" "\<not> c_inflight x" "svc < length (g_services g0)"
  shows "req_safe c (gw_forward env g0 c req svc)"
proof -
  obtain tgt g where tg: "gw_target g0 svc = (tgt, g)" by fastforce
  note T = gw_target_safe [OF assms(1,4) tg]
  have x: "g_conns g c = Some x" using T(2) assms(2) by simp
  note ans = req_safe_answer(1) [OF T(1) x]
  show ?thesis
  proof (cases tgt)
    case (Some t)
    then obtain ct where ct: "g_ctrls g t = Some ct" using T(3) by blast
    have "req_safe c (do { (rc, g1) \<leftarrow> ctrl_queue env (g\<lparr>g_slots := s\<rparr>) t NTC_MSG_REQUEST rid enc;
        if rc \<noteq> 0 then respond_and_flush env (gw_release g1 rid) c 503 (json_error ''queue full'')
        else do { x \<leftarrow> g_conns g1 c;
          g2 \<leftarrow> ctrl_update_poll
            (set_conn g1 c (x\<lparr>c_state := CS_WAIT, c_req_id := rid, c_inflight := True, c_wait_ctrl := Some t\<rparr>)) t;
          Some (0, g2) } })" if al: "gw_alloc_id (g_slots g) c = Some (rid, s)" for rid s enc
    proof -
      obtain rc g1 ct1 where q: "ctrl_queue env (g\<lparr>g_slots := s\<rparr>) t NTC_MSG_REQUEST rid enc = Some (rc, g1)" "g_conns g1 = g_conns g"
        "gw_inv (gw_release g1 rid)" "g_conns (gw_release g1 rid) = g_conns g" "g_ctrls g1 t = Some ct1"
        "\<And>x'. c_inflight x' \<Longrightarrow> c_req_id x' = rid \<Longrightarrow> c_wait_ctrl x' = Some t \<Longrightarrow> c_state x' \<noteq> CS_READ \<Longrightarrow> gw_inv (set_conn g1 c x')"
        using enqueue_safe [OF T(1) x assms(3) ct al, of env NTC_MSG_REQUEST enc] by blast
      have "req_safe c (respond_and_flush env (gw_release g1 rid) c 503 (json_error ''queue full''))"
        by (rule req_safe_answer(1) [OF q(3)]) (simp add: q(4) x)
      moreover have "gw_inv (set_conn g1 c (x\<lparr>c_state := CS_WAIT, c_req_id := rid, c_inflight := True, c_wait_ctrl := Some t\<rparr>))"
        by (rule q(6)) simp_all
      ultimately show ?thesis using q(1,2,5) x by (cases "rc = 0") (simp_all add: req_safe_def)
    qed
    then show ?thesis using tg Some ans by (auto simp: gw_forward_def split: option.splits)
  qed (use tg ans in \<open>simp add: gw_forward_def\<close>)
qed

lemma gw_ws_upgrade_safe:
  assumes "gw_inv g0" "g_conns g0 c = Some x" "\<not> c_inflight x" "svc < length (g_services g0)"
  shows "req_safe c (gw_ws_upgrade env g0 c req svc)"
proof (cases "c_tls x")
  case None
  obtain tgt g where tg: "gw_target g0 svc = (tgt, g)" by fastforce
  note T = gw_target_safe [OF assms(1,4) tg]
  have x: "g_conns g c = Some x" using T(2) assms(2) by simp
  note ans = req_safe_answer(1) [OF T(1) x]
  show ?thesis
  proof (cases tgt)
    case (Some t)
    then obtain ct where ct: "g_ctrls g t = Some ct" using T(3) by blast
    have "req_safe c (do { (rc, g1) \<leftarrow> ctrl_queue env (g\<lparr>g_slots := s\<rparr>) t NTC_MSG_WS_OPEN rid enc;
        if rc \<noteq> 0 then respond_and_flush env (gw_release g1 rid) c 503 (json_error ''queue full'')
        else do { g2 \<leftarrow> ctrl_update_poll g1 t;
          x \<leftarrow> g_conns g2 c;
          let (x1, lg) = access_log env g2
            (x\<lparr>c_req_id := rid, c_inflight := True, c_wait_ctrl := Some t, c_is_ws := True,
               c_streaming := True, c_stream_head_sent := True, c_state := CS_WS, c_rbuf := []\<rparr>) 101;
          stream_push env ((set_conn g2 c x1)\<lparr>g_log := lg\<rparr>) c hdr } })"
      if al: "gw_alloc_id (g_slots g) c = Some (rid, s)" for rid s enc hdr
    proof -
      obtain rc g1 ct1 where q: "ctrl_queue env (g\<lparr>g_slots := s\<rparr>) t NTC_MSG_WS_OPEN rid enc = Some (rc, g1)" "g_conns g1 = g_conns g"
        "gw_inv (gw_release g1 rid)" "g_conns (gw_release g1 rid) = g_conns g" "g_ctrls g1 t = Some ct1"
        "\<And>x'. c_inflight x' \<Longrightarrow> c_req_id x' = rid \<Longrightarrow> c_wait_ctrl x' = Some t \<Longrightarrow> c_state x' \<noteq> CS_READ \<Longrightarrow> gw_inv (set_conn g1 c x')"
        using enqueue_safe [OF T(1) x assms(3) ct al, of env NTC_MSG_WS_OPEN enc] by blast
      let ?x = "x\<lparr>c_req_id := rid, c_inflight := True, c_wait_ctrl := Some t, c_is_ws := True,
               c_streaming := True, c_stream_head_sent := True, c_state := CS_WS, c_rbuf := []\<rparr>"
      obtain x1 lg where al: "access_log env g1 ?x 101 = (x1, lg)" by fastforce
      have "core x1 = core ?x" "c_state x1 = CS_WS" using access_log_keeps [OF al] by simp_all
      then have "gw_inv (set_conn g1 c x1)" by (intro q(6)) (simp_all add: core_def)
      then have "gw_inv ((set_conn g1 c x1)\<lparr>g_log := lg\<rparr>)" by (rule quiet_inv) (rule quiet_fields(3))
      then have "req_safe c (stream_push env ((set_conn g1 c x1)\<lparr>g_log := lg\<rparr>) c hdr)" by (rule req_safe_answer(3)) simp
      moreover have "req_safe c (respond_and_flush env (gw_release g1 rid) c 503 (json_error ''queue full''))"
        by (rule req_safe_answer(1) [OF q(3)]) (simp add: q(4) x)
      ultimately show ?thesis using q(1,2,5) x al by (cases "rc = 0") simp_all
    qed
    then show ?thesis using tg Some ans None assms(2) by (auto simp: gw_ws_upgrade_def Let_def split: option.splits)
  qed (use tg ans None assms(2) in \<open>simp add: gw_ws_upgrade_def\<close>)
qed (use req_safe_answer(1) [OF assms(1,2)] assms(2) in \<open>simp add: gw_ws_upgrade_def\<close>)

subsection \<open>Reading from clients\<close>

lemma ws_relay_safe:
  assumes "gw_inv g" "g_conns g c = Some x"
  shows "conn_safe c g (ws_relay env g c f)"
proof -
  have ping: "conn_safe c g (do { (rc, g1) \<leftarrow> stream_push env g c s; Some (if rc < 0 then -1 else 0, g1) })" for s
    by (rule conn_safe_bind [OF assms(1) stream_push_safe [OF assms]]) (auto simp: conn_safe_def)
  have relay: "conn_safe c g (do { (rc, g1) \<leftarrow> ctrl_queue env g t NTC_MSG_WS_MSG (c_req_id x) enc;
      g2 \<leftarrow> (if rc = 0 then ctrl_update_poll g1 t else Some g1); Some (0, g2) })" if "c_inflight x" "c_wait_ctrl x = Some t" for t enc
  proof -
    have "\<exists>ct. g_ctrls g t = Some ct" using gw_inv_inflight(2) [OF assms that(1)] that(2) by auto
    then obtain ct where "g_ctrls g t = Some ct" by blast
    from ctrl_queue_safe [OF this, of env NTC_MSG_WS_MSG "c_req_id x" enc c]
    show ?thesis using assms(2) by (auto simp: conn_safe_def)
  qed
  have skip: "conn_safe c g (Some (0, g))" using assms(2) by (simp add: conn_safe_def)
  show ?thesis using assms(2) ping relay skip close_ret_safe [OF assms]
    by (auto simp: ws_relay_def Let_def split: option.splits)
qed

lemma ws_frames_safe:
  "gw_inv g \<Longrightarrow> g_conns g c = Some x \<Longrightarrow>
     \<exists>rc rest g'. ws_frames env g c buf = Some (rc, rest, g') \<and> quiet c g g' \<and> (rc < 0 \<longleftrightarrow> g_conns g' c = None)"
proof (induction env g c buf arbitrary: x rule: ws_frames.induct)
  case (1 env g c buf)
  consider "buf = [] \<or> ntc_ws_decode buf = Need_more" | "buf \<noteq> []" "ntc_ws_decode buf = Malformed"
    | f n where "buf \<noteq> []" "ntc_ws_decode buf = Frame f n" by (cases "ntc_ws_decode buf") auto
  then show ?case
  proof cases
    case 1
    then show ?thesis using \<open>g_conns g c = Some x\<close> by (subst ws_frames.simps) auto
  next
    case 2
    then show ?thesis using close_ret_safe [OF \<open>gw_inv g\<close> \<open>g_conns g c = Some x\<close>, of env]
      by (subst ws_frames.simps) (auto simp: conn_safe_def)
  next
    case (3 f n)
    obtain rc g1 where r: "ws_relay env g c f = Some (rc, g1)" "quiet c g g1" "rc < 0 \<longleftrightarrow> g_conns g1 c = None"
      using ws_relay_safe [OF \<open>gw_inv g\<close> \<open>g_conns g c = Some x\<close>, of env f] by (auto simp: conn_safe_def)
    show ?thesis
    proof (cases "rc < 0")
      case True
      then show ?thesis using 3 r by (subst ws_frames.simps) auto
    next
      case False
      then obtain y where y: "g_conns g1 c = Some y" using r(3) by auto
      note IH = "1.IH" [OF 3 r(1) refl False quiet_inv [OF \<open>gw_inv g\<close> r(2)] y]
      show ?thesis using IH quiet_trans [OF r(2)] 3 r False by (subst ws_frames.simps) auto
    qed
  qed
qed

lemma on_ws_readable_safe:
  assumes "gw_inv g" "g_conns g c = Some x"
  shows "conn_safe c g (on_ws_readable env g c)"
proof -
  obtain e buf peer where r: "recv_loop NTC_CONN_RBUF (c_peer x) (c_rbuf x) = (e, buf, peer)" by (metis prod_cases3)
  let ?g1 = "set_conn g c (x\<lparr>c_rbuf := buf, c_peer := peer\<rparr>)"
  have q1: "quiet c g ?g1" by (rule quiet_set_conn [OF assms(2)]) simp
  obtain rc rest g2 where f: "ws_frames env ?g1 c (bytes_of buf) = Some (rc, rest, g2)" "quiet c ?g1 g2" "rc < 0 \<longleftrightarrow> g_conns g2 c = None"
    using ws_frames_safe [OF quiet_inv [OF assms(1) q1], of c "x\<lparr>c_rbuf := buf, c_peer := peer\<rparr>" env "bytes_of buf"] by auto
  have q2: "quiet c g g2" by (rule quiet_trans [OF q1 f(2)])
  show ?thesis
  proof (cases "e = Recv_wait \<and> \<not> rc < 0")
    case True
    then obtain y where y: "g_conns g2 c = Some y" using f(3) by auto
    have "quiet c g (set_conn g2 c (y\<lparr>c_rbuf := chars_of rest\<rparr>))"
      by (rule quiet_trans [OF q2 quiet_set_conn [OF y]]) simp
    then show ?thesis using True y r f(1) assms(2) by (simp add: on_ws_readable_def Let_def conn_safe_def)
  next
    case False
    then show ?thesis using assms(2) r f q2 close_upd_safe [OF assms, of "x\<lparr>c_rbuf := buf, c_peer := peer\<rparr>" env]
      by (auto simp: on_ws_readable_def Let_def conn_safe_def)
  qed
qed

lemma on_wait_readable_safe:
  assumes "gw_inv g" "g_conns g c = Some x"
  shows "inv_safe (on_wait_readable env g c)"
proof -
  have q: "quiet c g (set_conn g c (x\<lparr>c_peer := p\<rparr>))" for p by (rule quiet_set_conn [OF assms(2)]) simp
  have inv: "gw_inv (set_conn g c (x\<lparr>c_peer := p\<rparr>))" for p by (rule quiet_inv [OF assms(1) q])
  have "inv_safe (conn_close env (set_conn g c (x\<lparr>c_peer := p\<rparr>)) c)" for p
    using deliver_close [OF inv [of p], where c = c and x = "x\<lparr>c_peer := p\<rparr>" and env = env] by (auto simp: deliver_safe_def inv_safe_def)
  then show ?thesis using assms(2) inv by (auto simp: on_wait_readable_def Let_def split: prod.splits recv_res.splits)
qed

end
