(* ===== verification/Gateway_Safe.thy ===== *)
theory Gateway_Safe
  imports Gateway_Inv
begin

text \<open>
  Memory safety of the event loop: every request handler and every event handler returns and
  keeps the invariant of \<open>Gateway_Inv\<close>, so a run whose events name live objects never touches
  freed memory. The admin port and the runs follow in \<open>Gateway_Run\<close>.
\<close>


subsection \<open>The OpenAPI document fits its buffer\<close>

lemma buf_printf_fits [simp]:
  "length buf = off \<Longrightarrow> off + length s < cap \<Longrightarrow> buf_printf cap s (Some (buf, off)) = Some (buf @ s, off + length s)"
  by (simp add: buf_printf_def snprintf_def)

lemma length_jq [simp]: "length (jq s) = length s + 2"
  by (simp add: jq_def)

lemma openapi_path_length: "length out < OA_CAP \<Longrightarrow> length (openapi_path out pat) < OA_CAP"
proof (induction out pat rule: openapi_path.induct)
  case (1 out pat)
  then show ?case by (subst openapi_path.simps) (auto simp: Let_def OA_CAP_def)
qed

definition row_ok :: "ntc_route_row \<Rightarrow> bool" where
  "row_ok r \<longleftrightarrow> length (rr_method r) < 8 \<and> length (rr_pattern r) < 128 \<and> length (rr_service r) < 64"

lemma openapi_entry_length:
  assumes "length path < OA_CAP" "length m < 8" "length svc < 64"
  shows "length (openapi_entry path m svc em) < length em + 400"
  using assms by (simp add: openapi_entry_def OA_CAP_def)

lemma openapi_row_fits:
  assumes "row_ok r" "length buf = off" "off < OPENAPI_CAP - 512"
  shows "\<exists>buf' off'. openapi_row env g first r (buf, off) = Some (buf', off') \<and> length buf' = off' \<and> off' < OPENAPI_CAP - 100"
proof -
  define em where "em = (case gw_schema_for (g_schemas g) (rr_method r) (rr_pattern r) of None \<Rightarrow> []
    | Some sch \<Rightarrow> (case ntc_json_emit (ge_fmt env) sch 8192 of None \<Rightarrow> [] | Some e \<Rightarrow> cstr e))"
  define fit where "fit \<longleftrightarrow> em \<noteq> [] \<and> off + length em + 512 < OPENAPI_CAP"
  define ent where "ent = (if first then [] else '','') @ openapi_entry (openapi_path [] (rr_pattern r))
    (map tolower (snprintf 8 (rr_method r))) (rr_service r) (if fit then em else [])"
  have "length (openapi_path [] (rr_pattern r)) < OA_CAP" by (rule openapi_path_length) (simp add: OA_CAP_def)
  moreover have "length (map tolower (snprintf 8 (rr_method r))) < 8" by (simp add: snprintf_def)
  moreover have "length (rr_service r) < 64" using assms(1) by (simp add: row_ok_def)
  ultimately have "length (openapi_entry (openapi_path [] (rr_pattern r)) (map tolower (snprintf 8 (rr_method r))) (rr_service r)
      (if fit then em else [])) < (if fit then length em else 0) + 400"
    using openapi_entry_length [of "openapi_path [] (rr_pattern r)" "map tolower (snprintf 8 (rr_method r))" "rr_service r"
      "if fit then em else []"] by (cases fit) simp_all
  then have "length ent < (if fit then length em else 0) + 401" by (cases fit; cases first) (simp_all add: ent_def)
  then have len: "off + length ent < OPENAPI_CAP - 100"
    using assms(3) by (cases fit) (auto simp: fit_def OPENAPI_CAP_def)
  have "openapi_row env g first r (buf, off) = buf_printf OPENAPI_CAP ent (Some (buf, off))"
    by (simp add: openapi_row_def ent_def fit_def em_def Let_def)
  then show ?thesis using len assms(2) by simp
qed

lemma openapi_rows_fit:
  assumes "\<And>r. r \<in> set rs \<Longrightarrow> row_ok r" "length (fst st) = snd st" "snd st < OPENAPI_CAP - 100"
  shows "\<exists>buf off. openapi_rows env g first rs st = Some (buf, off) \<and> length buf = off \<and> off < OPENAPI_CAP - 100"
  using assms
proof (induction rs arbitrary: first st)
  case Nil
  then show ?case by (cases st) auto
next
  case (Cons r rs)
  show ?case
  proof (cases "snd st < OPENAPI_CAP - 512")
    case True
    obtain buf off where st: "openapi_row env g first r st = Some (buf, off)" "length buf = off" "off < OPENAPI_CAP - 100"
      using openapi_row_fits [of r "fst st" "snd st" env g first] Cons.prems True by auto
    then show ?thesis using Cons.IH [of "(buf, off)" False] Cons.prems(1) True by simp
  next
    case False
    then show ?thesis using Cons.prems by (cases st) simp
  qed
qed

text \<open>With the registry's rows and the name within their buffers, the document is written and read in bounds.\<close>

lemma openapi_text_fits:
  assumes "\<And>r. r \<in> set (ge_routes env (g_reg g)) \<Longrightarrow> row_ok r" "length (g_app_name g) < 128"
  shows "\<exists>st body. openapi_text env g = Some st \<and> buf_body st = Some body \<and> length body < OPENAPI_CAP"
proof -
  define h0 where "h0 = openapi_head g"
  have h: "length h0 < OPENAPI_CAP - 100" using assms(2) by (simp add: h0_def openapi_head_def OPENAPI_CAP_def NTC_VERSION_def)
  then have p: "buf_printf OPENAPI_CAP h0 (Some ([], 0)) = Some (h0, length h0)"
    by (subst buf_printf_fits) simp_all
  have rows: "row_ok r" if "r \<in> set (take 256 (ge_routes env (g_reg g)))" for r using assms(1) that by (meson in_set_takeD)
  obtain buf off where r: "openapi_rows env g True (take 256 (ge_routes env (g_reg g))) (h0, length h0) = Some (buf, off)"
    "length buf = off" "off < OPENAPI_CAP - 100"
    using openapi_rows_fit [where rs = "take 256 (ge_routes env (g_reg g))", OF rows, where st = "(h0, length h0)" and first = True and env = env and g = g] h by auto
  have "buf_printf OPENAPI_CAP ''}}'' (Some (buf, off)) = Some (buf @ ''}}'', off + 2)"
    using r(2,3) by (subst buf_printf_fits) (simp_all add: OPENAPI_CAP_def)
  then have "openapi_text env g = Some (buf @ ''}}'', off + 2)" by (simp add: openapi_text_def h0_def [symmetric] p r(1))
  then show ?thesis using r(2,3) by (simp add: buf_body_def OPENAPI_CAP_def)
qed

subsection \<open>Request handling\<close>

text \<open>
  What the handlers rely on beyond the invariant: the registry's rows fit the row buffers, the
  application name fits its own, and every validation message fits its buffer once escaped.
\<close>

definition calm :: "gw_env \<Rightarrow> gateway \<Rightarrow> bool" where
  "calm env g \<longleftrightarrow> (\<forall>r \<in> set (ge_routes env (g_reg g)). row_ok r) \<and> length (g_app_name g) < 128 \<and>
     (\<forall>meth path sch inst msg. gw_schema_for (g_schemas g) meth path = Some sch \<longrightarrow>
        ntc_schema_validate (ge_len env) sch inst = Some msg \<longrightarrow> ntc_json_escape 200 (ntc_slice_cstr (fail_msg 160 msg)) \<noteq> None)"

lemma calm_fields:
  "calm env g \<Longrightarrow> g_reg g' = g_reg g \<Longrightarrow> g_app_name g' = g_app_name g \<Longrightarrow> g_schemas g' = g_schemas g \<Longrightarrow> calm env g'"
  by (simp add: calm_def)

lemma serve_static_safe:
  assumes "gw_inv g" "g_conns g c = Some x"
  shows "serve_static env g c req = Some (None, g) \<or>
    (\<exists>rc g'. serve_static env g c req = Some (Some rc, g') \<and> gw_inv g' \<and> (rc < 0 \<longleftrightarrow> g_conns g' c = None))"
proof -
  have "\<exists>rc g'. do { (rc, g1) \<leftarrow> send_resp env g c st ct body; Some (Some rc, g1) } = Some (Some rc, g') \<and> gw_inv g' \<and>
      (rc < 0 \<longleftrightarrow> g_conns g' c = None)" for st ct body
    using req_safe_answer(2) [OF assms, of env st ct body] by (auto simp: req_safe_def)
  then show ?thesis by (simp add: serve_static_def split: option.splits)
qed

lemma gw_not_found_safe:
  assumes "gw_inv g" "g_conns g c = Some x"
  shows "req_safe c (gw_not_found env g c req)"
  using serve_static_safe [OF assms, of env req] req_safe_answer(1,2) [OF assms]
  by (auto simp: gw_not_found_def req_safe_def)

lemma serve_openapi_safe:
  assumes "gw_inv g" "g_conns g c = Some x" "calm env g"
  shows "req_safe c (serve_openapi env g c)"
  using openapi_text_fits [of env g] assms(3) req_safe_answer(2) [OF assms(1,2)]
  by (fastforce simp: serve_openapi_def calm_def)

lemma gw_reserved_safe:
  "gw_inv g \<Longrightarrow> g_conns g c = Some x \<Longrightarrow> calm env g \<Longrightarrow> req_safe c (gw_reserved env g c req)"
  by (simp add: gw_reserved_def req_safe_answer serve_openapi_safe)

lemma req_after:
  assumes "gw_inv g" "quiet c g h" "g_conns h c = Some x"
  shows "req_safe c (respond_and_flush env h c st body)" "req_safe c (send_resp env h c st ct body)"
  using req_safe_answer [OF quiet_inv [OF assms(1,2)] assms(3)] by blast+

lemma oauth_redirect_safe:
  assumes "gw_inv g" "g_conns g c = Some x"
  shows "req_safe c (oauth_redirect env g c loc ck)"
proof -
  have "quiet c g (set_conn g c (x\<lparr>c_extra_headers := oauth_headers loc ck\<rparr>))" by (rule quiet_set_conn [OF assms(2)]) simp
  from req_after(2) [OF assms(1) this] show ?thesis using assms(2) by (simp add: oauth_redirect_def)
qed

lemma oauth_field_safe:
  assumes "gw_inv g" "g_conns g c = Some x"
  shows "gw_inv (g\<lparr>g_oauth_pending := kv\<rparr>)" "gw_inv (sess_write g op)" "g_conns (sess_write g op) = g_conns g"
  using quiet_inv [OF assms(1) quiet_fields(5)] quiet_inv [OF assms(1) quiet_fields(6)] by (simp_all add: sess_write_def)

lemma oauth_login_safe:
  assumes "gw_inv g" "g_conns g c = Some x"
  shows "req_safe c (oauth_login env g c)"
  using req_safe_answer(1) [OF assms] oauth_redirect_safe [OF oauth_field_safe(1) [OF assms]] assms(2)
  by (auto simp: oauth_login_def split: option.splits)

lemma oauth_callback_safe:
  assumes "gw_inv g" "g_conns g c = Some x"
  shows "req_safe c (oauth_callback env g c req)"
proof -
  have p: "gw_inv (g\<lparr>g_oauth_pending := kv\<rparr>)" for kv by (rule oauth_field_safe(1) [OF assms])
  have a: "req_safe c (respond_and_flush env (g\<lparr>g_oauth_pending := kv\<rparr>) c st body)" for kv st body
    by (rule req_safe_answer(1) [OF p]) (simp add: assms(2))
  have s: "gw_inv (sess_write (g\<lparr>g_oauth_pending := kv\<rparr>) op)" "g_conns (sess_write (g\<lparr>g_oauth_pending := kv\<rparr>) op) c = Some x" for kv op
    using oauth_field_safe(2,3) [OF p [of kv], where c = c and x = x and op = op] assms(2) by simp_all
  show ?thesis using assms(2) req_safe_answer(1) [OF assms] a oauth_redirect_safe [OF s]
    by (simp add: oauth_callback_def Let_def split: option.splits prod.splits sum.splits)
qed

lemma oauth_logout_safe:
  assumes "gw_inv g" "g_conns g c = Some x"
  shows "req_safe c (oauth_logout env g c req)"
proof -
  have "req_safe c (oauth_redirect env (sess_write g op) c loc ck)" for op loc ck
    by (rule oauth_redirect_safe [OF oauth_field_safe(2) [OF assms]]) (simp add: oauth_field_safe(3) [OF assms] assms(2))
  then show ?thesis using oauth_redirect_safe [OF assms] assms(2) by (simp add: oauth_logout_def Let_def split: option.splits)
qed

lemma handle_oauth_safe: "gw_inv g \<Longrightarrow> g_conns g c = Some x \<Longrightarrow> req_safe c (handle_oauth env g c req)"
  by (simp add: handle_oauth_def oauth_login_safe oauth_callback_safe oauth_logout_safe req_safe_answer)

lemma gw_validate_body_safe:
  assumes "gw_inv g" "g_conns g c = Some x" "calm env g"
  shows "conn_safe c g (gw_validate_body env g c req)"
proof -
  have ok: "conn_safe c g (Some (0, g))" using assms(2) by (simp add: conn_safe_def)
  have "\<exists>b. validation_body env (fail_msg 160 msg) = Some b"
    if "gw_schema_for (g_schemas g) (rq_method req) (rq_path req) = Some sch" "ntc_schema_validate (ge_len env) sch inst = Some msg" for sch inst msg
  proof -
    have "ntc_json_escape 200 (ntc_slice_cstr (fail_msg 160 msg)) \<noteq> None" using assms(3) that unfolding calm_def by blast
    then show ?thesis by (auto simp: validation_body_def)
  qed
  then have "conn_safe c g (do { body \<leftarrow> validation_body env (fail_msg 160 msg); respond_and_flush env g c 400 body })"
    if "gw_schema_for (g_schemas g) (rq_method req) (rq_path req) = Some sch" "ntc_schema_validate (ge_len env) sch inst = Some msg" for sch inst msg
    using respond_and_flush_safe [OF assms(1,2)] that by fastforce
  then show ?thesis using ok respond_and_flush_safe [OF assms(1,2)] by (simp add: gw_validate_body_def split: option.splits)
qed

lemma quiet_alive: "quiet c g g' \<Longrightarrow> g_conns g c = Some x \<Longrightarrow> g_conns g' c = Some y \<Longrightarrow> core y = core x"
  by (auto elim!: quietE)

lemma gw_forward_route_safe:
  assumes "gw_inv g" "g_conns g c = Some x" "\<not> c_inflight x" "calm env g" "svc < length (g_services g)"
  shows "req_safe c (gw_forward_route env g c req params svc)"
proof -
  obtain vr g1 where v: "gw_validate_body env g c req = Some (vr, g1)" "quiet c g g1" "vr < 0 \<longleftrightarrow> g_conns g1 c = None"
    using gw_validate_body_safe [OF assms(1,2,4), of req] by (auto simp: conn_safe_def)
  have inv1: "gw_inv g1" by (rule quiet_inv [OF assms(1) v(2)])
  show ?thesis
  proof (cases "vr = 0")
    case True
    then obtain y where y: "g_conns g1 c = Some y" using v(3) by auto
    have "\<not> c_inflight y" using core_eq [OF quiet_alive [OF v(2) assms(2) y]] assms(3) by simp
    moreover have "gw_inv (count_forwarded g1)" "g_conns (count_forwarded g1) c = Some y"
      using quiet_inv [OF inv1 quiet_fields(1)] y by (simp_all add: count_forwarded_def)
    moreover have "svc < length (g_services (count_forwarded g1))"
      using quiet_rest(1) [OF v(2)] assms(5) by (simp add: count_forwarded_def same_rest_def)
    ultimately show ?thesis using True v(1) y gw_ws_upgrade_safe gw_forward_safe by (simp add: gw_forward_route_def Let_def)
  next
    case False
    then show ?thesis using v inv1 by (simp add: gw_forward_route_def req_safe_def)
  qed
qed

lemma gw_run_builtin_safe:
  assumes "gw_inv g" "g_conns g c = Some x"
  shows "req_safe c (gw_run_builtin env g c h params)"
proof -
  have "quiet c g (count_builtin g)" "g_conns (count_builtin g) = g_conns g" by (simp_all add: count_builtin_def)
  moreover from this have "quiet c g (rec_status (count_builtin g) st)" for st using quiet_trans quiet_rec_status(1) by blast
  ultimately show ?thesis using req_after [OF assms(1)] assms(2) by (simp add: gw_run_builtin_def split: option.splits)
qed

text \<open>A found route belongs to the table.\<close>

lemma match_loop_found:
  "match_loop rts meth pn mm = (NTC_ROUTE_FOUND, Some (h, u, ps)) \<Longrightarrow> \<exists>rt \<in> set rts. rt_handler rt = h \<and> rt_udata rt = u"
  by (induction rts meth pn mm rule: match_loop.induct) (auto split: option.splits if_splits)

lemma gw_dispatch_safe:
  assumes "gw_inv g" "g_conns g c = Some x" "\<not> c_inflight x" "calm env g"
  shows "req_safe c (gw_dispatch env g c req)"
proof -
  have "svc < length (g_services g)"
    if "ntc_router_match (g_router g) (rq_method req) (rq_path req) = (NTC_ROUTE_FOUND, Some (Forward_marker, svc, params))" for svc params
    using match_loop_found that gw_inv_route [OF assms(1)] by (fastforce simp: ntc_router_match_def)
  then show ?thesis
    using handle_oauth_safe [OF assms(1,2)] gw_reserved_safe [OF assms(1,2,4)] gw_forward_route_safe [OF assms]
      gw_run_builtin_safe [OF assms(1,2)] req_safe_answer(1) [OF assms(1,2)] gw_not_found_safe [OF assms(1,2)]
    by (auto simp: gw_dispatch_def split: prod.splits option.splits ntc_route_status.splits)
qed

lemma req_safeE:
  assumes "req_safe c m"
  obtains rc g' where "m = Some (rc, g')" "gw_inv g'" "rc < 0 \<longleftrightarrow> g_conns g' c = None"
  using assms unfolding req_safe_def by (elim exE conjE) (rule that)

lemma run_before_safe:
  assumes "g_conns g c = Some x"
  shows "\<exists>answer g1 x1. run_before env g c req = Some (answer, g1) \<and> quiet c g g1 \<and> g_conns g1 c = Some x1 \<and> core x1 = core x \<and>
    g_reg g1 = g_reg g \<and> g_app_name g1 = g_app_name g \<and> g_schemas g1 = g_schemas g"
proof -
  have q: "quiet c g (set_conn g c x')" "quiet c g ((set_conn g c x')\<lparr>g_mw := mw\<rparr>)" if "keeps x x'" for x' mw
    using quiet_set_conn [OF assms that] quiet_trans [OF quiet_set_conn [OF assms that] quiet_fields(2)] by simp_all
  show ?thesis
  proof (cases "g_mw g")
    case None
    then show ?thesis using assms q(1) by (simp add: run_before_def Let_def)
  next
    case (Some mw)
    let ?x1 = "x\<lparr>c_log_method := cstr (take 15 (rq_method req)), c_log_path := cstr (take 199 (rq_path req))\<rparr>"
    obtain sc r mw1 where b: "ntc_mw_before (ge_mw env) mw req (c_client_ip ?x1) (ge_now_ms env) (session_identity env g req \<noteq> None) = (sc, r, mw1)"
      by (metis prod_cases3)
    obtain sub scope where i: "(case session_identity env g req of Some id0 \<Rightarrow> id0 | None \<Rightarrow> (mr_auth_sub r, mr_auth_scope r)) = (sub, scope)"
      by fastforce
    show ?thesis using assms Some b i q(2) by (simp add: run_before_def Let_def)
  qed
qed

lemma serve_request_safe:
  assumes "gw_inv g" "g_conns g c = Some x" "\<not> c_inflight x" "calm env g" "\<not> c_is_admin x"
  shows "req_safe c (serve_request env g c req)"
proof -
  let ?x = "x\<lparr>c_accept_gzip := slice_has (ntc_http_header req ''accept-encoding'') ''gzip''\<rparr>"
  let ?g = "set_conn g c ?x"
  have q0: "quiet c g ?g" by (rule quiet_set_conn [OF assms(2)]) simp
  obtain answer g1 x1 where b: "run_before env ?g c req = Some (answer, g1)" "quiet c ?g g1" "g_conns g1 c = Some x1" "core x1 = core ?x"
    "g_reg g1 = g_reg ?g" "g_app_name g1 = g_app_name ?g" "g_schemas g1 = g_schemas ?g"
    using run_before_safe [of ?g c ?x env req] by auto
  have inv1: "gw_inv g1" by (rule quiet_inv [OF quiet_inv [OF assms(1) q0] b(2)])
  have "calm env g1" by (rule calm_fields [OF assms(4)]) (simp_all add: b(5-7))
  moreover have "\<not> c_inflight x1" using core_eq [OF b(4)] assms(3) by simp
  moreover have "req_safe c (send_resp env (rec_status g1 st) c st ct body)" for st ct body
    by (rule req_after(2) [OF inv1 quiet_rec_status(1)]) (simp add: b(3))
  ultimately show ?thesis using gw_dispatch_safe [OF inv1 b(3)] b(1) assms(2,5) by (auto simp: serve_request_def Let_def split: option.splits)
qed

text \<open>
  The admin port has its own handler: what it must do with a request that stands in the buffer
  is a hypothesis here, discharged in \<open>Gateway_Run\<close>.
\<close>

definition serves :: "gw_env \<Rightarrow> gateway \<Rightarrow> conn_ptr \<Rightarrow> conn \<Rightarrow> string \<Rightarrow> bool" where
  "serves env g c x buf \<longleftrightarrow> (\<forall>x' req n. c_is_admin x' \<longrightarrow> keeps x x' \<longrightarrow> ntc_http_parse_request (Some buf) = NTC_PARSE_OK req n \<longrightarrow>
     req_safe c (serve_request env (set_conn g c x') c req))"

lemma keeps_refl [simp]: "keeps x x"
  by (simp add: keeps_def)

lemma serves_after: "serves env g c x buf \<Longrightarrow> keeps x x' \<Longrightarrow> serves env (set_conn g c x') c x' buf"
  by (simp add: serves_def keeps_def)

lemma process_request_safe:
  assumes "gw_inv g" "g_conns g c = Some x" "\<not> c_inflight x" "calm env g" "c_is_admin x \<longrightarrow> serves env g c x (c_rbuf x)"
  shows "req_safe c (process_request env g c eof)"
proof -
  have "set_conn g c x = g" using assms(2) by (simp add: fun_upd_idem)
  then have "req_safe c (serve_request env g c req)" if "ntc_http_parse_request (Some (c_rbuf x)) = NTC_PARSE_OK req n" for req n
    using serve_request_safe [OF assms(1-4)] assms(5) that unfolding serves_def by (metis keeps_refl)
  then show ?thesis using assms(2) req_safe_answer [OF assms(1,2)]
    by (auto simp: process_request_def Let_def split: ntc_parse_result.splits sum.splits)
qed

text \<open>The same after the read has changed the buffers.\<close>

lemma process_after_read:
  assumes "gw_inv g" "g_conns g c = Some x" "\<not> c_inflight x" "calm env g" "c_is_admin x \<longrightarrow> serves env g c x (c_rbuf x')"
    and x': "keeps x x'" "c_is_admin x' = c_is_admin x"
  shows "req_safe c (process_request env (set_conn g c x') c eof)" "req_safe c (close_ret env (set_conn g c x') c)"
    "gw_inv (set_conn g c x')"
proof -
  have inv: "gw_inv (set_conn g c x')" by (rule quiet_inv [OF assms(1) quiet_set_conn [OF assms(2) x'(1)]])
  have calm: "calm env (set_conn g c x')" by (rule calm_fields [OF assms(4)]) simp_all
  have idle: "\<not> c_inflight x'" using x'(1) assms(3) core_eq [of x' x] by (simp add: keeps_def)
  have adm: "c_is_admin x' \<longrightarrow> serves env (set_conn g c x') c x' (c_rbuf x')" using serves_after [OF _ x'(1)] assms(5) x'(2) by blast
  show "gw_inv (set_conn g c x')" by (rule inv)
  show "req_safe c (process_request env (set_conn g c x') c eof)" by (rule process_request_safe [OF inv _ idle calm adm]) simp
  show "req_safe c (close_ret env (set_conn g c x') c)" by (rule req_safe_answer(4) [OF inv]) simp
qed

text \<open>What a connection holds after the read of an event.\<close>

definition read_buf :: "tls_event \<Rightarrow> conn \<Rightarrow> string" where
  "read_buf te x = (if c_tls x \<noteq> None then tls_recv_loop (te_recv te) (c_rbuf x)
     else fst (snd (recv_loop NTC_CONN_RBUF (c_peer x) (c_rbuf x))))"

lemma on_readable_safe:
  assumes "gw_inv g" "g_conns g c = Some x" "\<not> c_inflight x" "calm env g" "c_is_admin x \<longrightarrow> serves env g c x (read_buf te x)" "c_tls x = None"
  shows "req_safe c (on_readable env g c)"
proof -
  obtain e buf peer where r: "recv_loop NTC_CONN_RBUF (c_peer x) (c_rbuf x) = (e, buf, peer)" by (metis prod_cases3)
  have "c_is_admin x \<longrightarrow> serves env g c x (c_rbuf (x\<lparr>c_rbuf := buf, c_peer := peer\<rparr>))" using assms(5,6) r by (simp add: read_buf_def)
  from process_after_read [OF assms(1-4) this] show ?thesis using assms(2) r by (simp add: on_readable_def Let_def)
qed

lemma tls_drive_read_safe:
  assumes "gw_inv g" "g_conns g c = Some x" "\<not> c_inflight x" "calm env g" "c_is_admin x \<longrightarrow> serves env g c x (read_buf te x)" "c_tls x \<noteq> None"
  shows "req_safe c (tls_drive_read env te g c)"
proof -
  define buf where "buf = tls_recv_loop (te_recv te) (c_rbuf x)"
  have "c_is_admin x \<longrightarrow> serves env g c x (c_rbuf (x\<lparr>c_rbuf := buf\<rparr>))" using assms(5,6) by (simp add: read_buf_def buf_def)
  note p = process_after_read [OF assms(1-4) this]
  have stay: "req_safe c (Some (0, set_conn g c (x\<lparr>c_rbuf := buf\<rparr>)))" by (rule req_safe_answer(5) [OF p(3)]) simp_all
  have go: "req_safe c (process_request env (set_conn g c (x\<lparr>c_rbuf := buf\<rparr>)) c (te_closed te))" by (rule p(1)) simp_all
  have eq: "tls_drive_read env te g c = (if buf = c_rbuf x \<and> \<not> te_closed te then Some (0, set_conn g c (x\<lparr>c_rbuf := buf\<rparr>))
      else process_request env (set_conn g c (x\<lparr>c_rbuf := buf\<rparr>)) c (te_closed te))"
    by (simp only: tls_drive_read_def assms(2) bind.bind_lunit Let_def buf_def)
  show ?thesis unfolding eq if_split [of "req_safe c"] using stay go by blast
qed

lemma on_tls_event_safe:
  assumes "gw_inv g" "g_conns g c = Some x" "calm env g" "c_is_admin x \<longrightarrow> serves env g c x (read_buf te x)" "c_tls x \<noteq> None"
  shows "inv_safe (on_tls_event env te g c)"
proof -
  have close: "inv_safe (conn_close env g c)"
    using deliver_close [OF assms(1,2), of env] by (auto simp: deliver_safe_def inv_safe_def)
  let ?m = "if c_state x = CS_READ then tls_drive_read env te g c else if c_state x = CS_WAIT then Some (0, g) else tls_drive_write env g c"
  have "req_safe c ?m"
    using tls_drive_read_safe [OF assms(1,2) _ assms(3,4,5)] gw_inv_reading [OF assms(1,2)]
      req_safe_answer(5) [OF assms(1,2), of 0] req_safe_conn [OF assms(1) tls_drive_write_safe [OF assms(1,2,5)]] by simp
  then obtain rc g1 where m: "?m = Some (rc, g1)" "gw_inv g1" "rc < 0 \<longleftrightarrow> g_conns g1 c = None" by (rule req_safeE)
  have "inv_safe (do { (rc2, g2) \<leftarrow> tls_set_interest env g1 c; Some g2 })" if "\<not> rc < 0"
  proof -
    have "\<exists>y. g_conns g1 c = Some y" using m(3) that by auto
    then obtain y where "g_conns g1 c = Some y" by blast
    from deliver_conn [OF m(2) tls_set_interest_safe [OF m(2) this], of env] show ?thesis by (auto simp: deliver_safe_def inv_safe_def)
  qed
  then show ?thesis using assms(2) close m(1,2) by (simp add: on_tls_event_def)
qed

lemma conn_event_safe:
  assumes "gw_inv g" "g_conns g c = Some x" "calm env g" "c_is_admin x \<longrightarrow> serves env g c x (read_buf te x)"
  shows "inv_safe (conn_event env te g c rd wr)"
proof (cases "c_tls x")
  case (Some tl)
  then show ?thesis using on_tls_event_safe [OF assms] assms(2) by (simp add: conn_event_def)
next
  case None
  have w: "inv_safe (do { (rc, g1) \<leftarrow> (if wr then on_writable env g c else Some (0, g)); if rc < 0 then Some g1 else f g1 })"
    if f: "\<And>h y. gw_inv h \<Longrightarrow> g_conns h c = Some y \<Longrightarrow> inv_safe (f h)" for f
  proof -
    have "req_safe c (if wr then on_writable env g c else Some (0, g))"
      using req_safe_conn [OF assms(1) on_writable_safe [OF assms(1,2)]] req_safe_answer(5) [OF assms(1,2), of 0] by simp
    then obtain rc h where h: "(if wr then on_writable env g c else Some (0, g)) = Some (rc, h)" "gw_inv h" "rc < 0 \<longleftrightarrow> g_conns h c = None"
      by (rule req_safeE)
    show ?thesis
    proof (cases "rc < 0")
      case False
      then obtain y where "g_conns h c = Some y" using h(3) by auto
      then show ?thesis using f [OF h(2)] h(1) False by simp
    qed (use h in simp)
  qed
  have stream: "inv_safe (if rd then on_wait_readable env h c else Some h)" if "gw_inv h" "g_conns h c = Some y" for h y
    using on_wait_readable_safe [OF that] that(1) by simp
  have ws: "inv_safe (if rd then map_option snd (on_ws_readable env h c) else Some h)" if "gw_inv h" "g_conns h c = Some y" for h y
    using req_safe_inv [OF req_safe_conn [OF that(1) on_ws_readable_safe [OF that]]] that(1) by simp
  show ?thesis
  proof (cases "c_state x")
    case CS_READ
    then show ?thesis using req_safe_inv [OF on_readable_safe [OF assms(1,2) gw_inv_reading [OF assms(1,2) CS_READ] assms(3,4) None]] assms(1,2) None
      by (simp add: conn_event_def)
  next
    case CS_WAIT
    then show ?thesis using on_wait_readable_safe [OF assms(1,2)] assms(1,2) None by (simp add: conn_event_def)
  next
    case CS_WRITE
    then show ?thesis using req_safe_inv [OF req_safe_conn [OF assms(1) on_writable_safe [OF assms(1,2)]]] assms(1,2) None
      by (simp add: conn_event_def)
  next
    case CS_STREAM
    then show ?thesis using w [OF stream] assms(2) None by (simp add: conn_event_def)
  next
    case CS_WS
    then show ?thesis using w [OF ws] assms(2) None by (simp add: conn_event_def)
  qed
qed

subsection \<open>New connections\<close>

lemma accept_conn_inv:
  assumes "gw_inv g" "g_conns g (ac_ptr a) = None"
  shows "gw_inv (accept_conn env ad sec g a)"
proof (cases "ac_ok a")
  case True
  let ?g = "accept_conn env ad sec g a"
  have new: "\<not> c_inflight x" if "g_conns ?g (ac_ptr a) = Some x" for x
    using that True by (auto simp: accept_conn_def conn_new_def)
  have old: "g_conns ?g c = g_conns g c" if "c \<noteq> ac_ptr a" for c using that True by (simp add: accept_conn_def)
  have slots: "g_slots ?g = g_slots g" by (simp add: accept_conn_def)
  show ?thesis
  proof (rule gw_invI [OF assms(1), of ?g])
    fix rid c assume "gw_conn_for_id (g_slots ?g) rid = Some c"
    then obtain x where x: "g_conns g c = Some x" "c_inflight x" "c_req_id x = rid" using gw_inv_find [OF assms(1)] slots by auto
    then have "c \<noteq> ac_ptr a" using assms(2) by auto
    then show "\<exists>x. g_conns ?g c = Some x \<and> c_inflight x \<and> c_req_id x = rid" using x old by simp
  next
    fix c x assume x: "g_conns ?g c = Some x" "c_inflight x"
    then have "c \<noteq> ac_ptr a" using new by auto
    then show "gw_conn_for_id (g_slots ?g) (c_req_id x) = Some c \<and> (\<exists>t. c_wait_ctrl x = Some t \<and> g_ctrls g t \<noteq> None)"
      using gw_inv_inflight [OF assms(1), of c x] x old slots by auto
  next
    fix c x assume x: "g_conns ?g c = Some x" "c_state x = CS_READ"
    then show "\<not> c_inflight x" using new old gw_inv_reading [OF assms(1), of c x] by (cases "c = ac_ptr a") auto
  qed (auto simp: slots same_rest_def accept_conn_def gw_inv_slots [OF assms(1)])
qed (use assms in \<open>simp add: accept_conn_def\<close>)

definition fresh_accepts :: "gateway \<Rightarrow> accepted list \<Rightarrow> bool" where
  "fresh_accepts g as \<longleftrightarrow> distinct (map ac_ptr as) \<and> list_all (\<lambda>a. g_conns g (ac_ptr a) = None) as"

lemma accept_conns_inv: "gw_inv g \<Longrightarrow> fresh_accepts g as \<Longrightarrow> gw_inv (accept_conns env g as ad sec)"
proof (induction as arbitrary: g)
  case (Cons a as)
  have "g_conns (accept_conn env ad sec g a) (ac_ptr b) = None" if "b \<in> set as" for b
  proof -
    have "ac_ptr b \<noteq> ac_ptr a" using Cons.prems(2) image_eqI [OF refl that, of ac_ptr] by (auto simp: fresh_accepts_def)
    then show ?thesis using Cons.prems(2) that by (simp add: fresh_accepts_def accept_conn_def list_all_iff)
  qed
  then have "fresh_accepts (accept_conn env ad sec g a) as"
    using Cons.prems(2) by (simp add: fresh_accepts_def list_all_iff)
  then show ?case using Cons accept_conn_inv [OF Cons.prems(1), of a env ad sec]
    by (simp add: accept_conns_def fresh_accepts_def)
qed (simp add: accept_conns_def)

lemma accept_control_inv: "gw_inv g \<Longrightarrow> gw_inv (accept_control g as)"
proof -
  have "gw_inv g \<Longrightarrow> gw_inv (g\<lparr>g_cctrls := m\<rparr>)" for g m by (simp add: gw_inv_def)
  then show "gw_inv g \<Longrightarrow> gw_inv (accept_control g as)"
    by (induction as arbitrary: g) (auto simp: accept_control_def)
qed

subsection \<open>Spawning and supervision\<close>

text \<open>The processes still to be started get addresses that are not in use.\<close>

definition spawn_fresh :: "gw_env \<Rightarrow> gateway \<Rightarrow> nat \<Rightarrow> nat \<Rightarrow> bool" where
  "spawn_fresh env g i s \<longleftrightarrow>
     (\<forall>j. \<forall>r < NTC_MAX_REPLICAS. (i < j \<or> i = j \<and> s \<le> r) \<longrightarrow> g_ctrls g (ch_ptr (ge_spawn env j r)) = None) \<and>
     (\<forall>j k. \<forall>r < NTC_MAX_REPLICAS. \<forall>q < NTC_MAX_REPLICAS. ch_ptr (ge_spawn env j r) = ch_ptr (ge_spawn env k q) \<longrightarrow> j = k \<and> r = q)"

lemma svc_ok_new:
  assumes "svc_ok ctrls i svc" "ctrls p = None" "ct_svc ct = i" "s < NTC_MAX_REPLICAS" "length sp = NTC_MAX_REPLICAS"
  shows "svc_ok (ctrls(p \<mapsto> ct)) i (svc\<lparr>sv_conns := (sv_conns svc)[s := Some p], sv_spawned_at := sp\<rparr>)"
proof -
  note D = svc_okD [OF assms(1)]
  have len: "length (sv_conns svc) = NTC_MAX_REPLICAS" using D(1) by (simp add: svc_shape_def)
  have old: "sv_conns svc ! r \<noteq> Some p" if "r < NTC_MAX_REPLICAS" for r using D(2) [OF that, of p] assms(2) by auto
  have nth: "(sv_conns svc)[s := Some p] ! r = (if r = s then Some p else sv_conns svc ! r)" if "r < NTC_MAX_REPLICAS" for r
    using len assms(4) that by auto
  show ?thesis
  proof (rule svc_okI)
    show "svc_shape (svc\<lparr>sv_conns := (sv_conns svc)[s := Some p], sv_spawned_at := sp\<rparr>)"
      using D(1) assms(5) by (simp add: svc_shape_def)
  next
    fix r t assume "r < NTC_MAX_REPLICAS" "sv_conns (svc\<lparr>sv_conns := (sv_conns svc)[s := Some p], sv_spawned_at := sp\<rparr>) ! r = Some t"
    then show "map_option ct_svc ((ctrls(p \<mapsto> ct)) t) = Some i"
      using nth [of r] D(2) [of r t] old [of r] assms(3) by (auto split: if_splits)
  next
    fix q r t assume q: "q < NTC_MAX_REPLICAS" "r < NTC_MAX_REPLICAS"
      "sv_conns (svc\<lparr>sv_conns := (sv_conns svc)[s := Some p], sv_spawned_at := sp\<rparr>) ! q = Some t"
      "sv_conns (svc\<lparr>sv_conns := (sv_conns svc)[s := Some p], sv_spawned_at := sp\<rparr>) ! r = Some t"
    then show "q = r" using nth [of q] nth [of r] D(3) [of q r t] old [of q] old [of r] by (auto split: if_splits)
  qed
qed

lemma svc_ok_add: "svc_ok ctrls j svc \<Longrightarrow> ctrls p = None \<Longrightarrow> svc_ok (ctrls(p \<mapsto> ct)) j svc"
proof (rule svc_okI)
  assume ok: "svc_ok ctrls j svc" and p: "ctrls p = None"
  note D = svc_okD [OF ok]
  show "svc_shape svc" by (rule D(1))
  show "map_option ct_svc ((ctrls(p \<mapsto> ct)) t) = Some j" if "s < NTC_MAX_REPLICAS" "sv_conns svc ! s = Some t" for s t
    using D(2) [OF that] p by auto
  show "r = s" if "r < NTC_MAX_REPLICAS" "s < NTC_MAX_REPLICAS" "sv_conns svc ! r = Some t" "sv_conns svc ! s = Some t" for r s t
    using D(3) [OF that] .
qed

lemma spawn_inv:
  assumes inv: "gw_inv g" and i: "i < length (g_services g)" and s: "s < NTC_MAX_REPLICAS"
    and fresh: "g_ctrls g (ch_ptr (ge_spawn env i s)) = None"
  shows "gw_inv (snd (spawn_service env g i s))"
    and "length (g_services (snd (spawn_service env g i s))) = length (g_services g)"
    and "map svc_n (g_services (snd (spawn_service env g i s))) = map svc_n (g_services g)"
    and "t \<noteq> ch_ptr (ge_spawn env i s) \<Longrightarrow> g_ctrls (snd (spawn_service env g i s)) t = g_ctrls g t"
    and "fst (spawn_service env g i s) \<noteq> 0 \<Longrightarrow> snd (spawn_service env g i s) = g"
proof -
  let ?p = "ch_ptr (ge_spawn env i s)" and ?svc = "g_services g ! i"
  have svc: "ct_svc (new_ctrl ch i l) = i" for ch l by (simp add: new_ctrl_def)
  have res: "spawn_service env g i s = (- 1, g) \<or> (\<exists>ct. ct_svc ct = i \<and> spawn_service env g i s = (0, attach_ctrl env g i s ?p ct))"
    using svc by (auto simp: spawn_service_def Let_def split: option.splits prod.splits)
  have "gw_inv (attach_ctrl env g i s ?p ct)" if ct: "ct_svc ct = i" for ct
  proof -
    let ?svc' = "?svc\<lparr>sv_conns := (sv_conns ?svc)[s := Some ?p], sv_spawned_at := (sv_spawned_at ?svc)[s := ge_now_ms env]\<rparr>"
    have "length (sv_spawned_at ?svc) = NTC_MAX_REPLICAS" using svc_okD(1) [OF gw_inv_svc [OF inv i]] by (simp add: svc_shape_def)
    then have new: "svc_ok ((g_ctrls g)(?p \<mapsto> ct)) i ?svc'" by (intro svc_ok_new [OF gw_inv_svc [OF inv i] fresh ct s]) simp
    have "svc_ok ((g_ctrls g)(?p \<mapsto> ct)) j ((g_services g)[i := ?svc'] ! j)" if "j < length (g_services g)" for j
      using new svc_ok_add [OF gw_inv_svc [OF inv that] fresh] that by (cases "j = i") auto
    moreover have "gw_conn_for_id (g_slots g) (c_req_id x) = Some c \<and> (\<exists>t. c_wait_ctrl x = Some t \<and> ((g_ctrls g)(?p \<mapsto> ct)) t \<noteq> None)"
      if "g_conns g c = Some x" "c_inflight x" for c x using gw_inv_inflight [OF inv that] by auto
    moreover have "ct_svc ct' < length (g_services g)" if "((g_ctrls g)(?p \<mapsto> ct)) t = Some ct'" for t ct'
      using that gw_inv_ctrl [OF inv, of t ct'] ct i by (auto split: if_splits)
    ultimately show ?thesis using gw_inv_slots [OF inv] gw_inv_find [OF inv] gw_inv_reading [OF inv] gw_inv_route [OF inv]
      unfolding gw_inv_def attach_ctrl_def by (simp add: Let_def)
  qed
  with res inv show "gw_inv (snd (spawn_service env g i s))" by auto
  show "length (g_services (snd (spawn_service env g i s))) = length (g_services g)" using res by (auto simp: attach_ctrl_def Let_def)
  show "map svc_n (g_services (snd (spawn_service env g i s))) = map svc_n (g_services g)"
    using res i by (auto simp: attach_ctrl_def Let_def map_update svc_n_def nth_list_update intro!: nth_equalityI)
  show "t \<noteq> ?p \<Longrightarrow> g_ctrls (snd (spawn_service env g i s)) t = g_ctrls g t" using res by (auto simp: attach_ctrl_def Let_def)
  show "fst (spawn_service env g i s) \<noteq> 0 \<Longrightarrow> snd (spawn_service env g i s) = g" using res by auto
qed

lemma svc_ok_conns: "svc_ok ctrls i svc \<Longrightarrow> svc_shape svc' \<Longrightarrow> sv_conns svc' = sv_conns svc \<Longrightarrow> svc_ok ctrls i svc'"
proof (rule svc_okI)
  assume "svc_ok ctrls i svc" "svc_shape svc'" "sv_conns svc' = sv_conns svc"
  note D = svc_okD [OF this(1)] this(2,3)
  show "svc_shape svc'" by (rule D(4))
  show "map_option ct_svc (ctrls t) = Some i" if "s < NTC_MAX_REPLICAS" "sv_conns svc' ! s = Some t" for s t
    using D(2) [OF that(1)] that(2) D(5) by simp
  show "r = s" if "r < NTC_MAX_REPLICAS" "s < NTC_MAX_REPLICAS" "sv_conns svc' ! r = Some t" "sv_conns svc' ! s = Some t" for r s t
    using D(3) [OF that(1,2)] that(3,4) D(5) by simp
qed

lemma svc_ok_backoff:
  assumes "svc_ok ctrls i svc" "s < NTC_MAX_REPLICAS" "0 \<le> b" "b \<le> NTC_BACKOFF_MAX" "length ra = NTC_MAX_REPLICAS"
  shows "svc_ok ctrls i (svc\<lparr>sv_backoff_ms := (sv_backoff_ms svc)[s := b]\<rparr>)"
    "svc_ok ctrls i (svc\<lparr>sv_backoff_ms := (sv_backoff_ms svc)[s := b], sv_restart_at := ra\<rparr>)"
  using svc_okD(1) [OF assms(1)] assms(2-) by (auto intro!: svc_ok_conns [OF assms(1)] simp: svc_shape_def nth_list_update)

text \<open>Slots and services are supervised in order; \<open>sup_inv\<close> holds before each.\<close>

definition sup_inv :: "gw_env \<Rightarrow> nat list \<Rightarrow> nat \<Rightarrow> nat \<Rightarrow> gateway \<Rightarrow> bool" where
  "sup_inv env ns i s g \<longleftrightarrow> gw_inv g \<and> spawn_fresh env g i s \<and> map svc_n (g_services g) = ns"

lemma spawn_freshD:
  assumes "spawn_fresh env g i s"
  shows "r < NTC_MAX_REPLICAS \<Longrightarrow> i < j \<or> i = j \<and> s \<le> r \<Longrightarrow> g_ctrls g (ch_ptr (ge_spawn env j r)) = None"
    and "r < NTC_MAX_REPLICAS \<Longrightarrow> q < NTC_MAX_REPLICAS \<Longrightarrow> ch_ptr (ge_spawn env j r) = ch_ptr (ge_spawn env k q) \<Longrightarrow> j = k \<and> r = q"
  using assms [unfolded spawn_fresh_def, THEN conjunct1, rule_format, of r j] assms [unfolded spawn_fresh_def, THEN conjunct2, rule_format, of r q j k]
  by simp_all

lemma spawn_freshI:
  assumes "\<And>j r. r < NTC_MAX_REPLICAS \<Longrightarrow> i < j \<or> i = j \<and> s \<le> r \<Longrightarrow> g_ctrls g (ch_ptr (ge_spawn env j r)) = None" "spawn_fresh env g0 i0 s0"
  shows "spawn_fresh env g i s"
  unfolding spawn_fresh_def
proof (rule conjI)
  show "\<forall>j. \<forall>r < NTC_MAX_REPLICAS. (i < j \<or> i = j \<and> s \<le> r) \<longrightarrow> g_ctrls g (ch_ptr (ge_spawn env j r)) = None"
    by (intro allI impI) (rule assms(1))
  show "\<forall>j k. \<forall>r < NTC_MAX_REPLICAS. \<forall>q < NTC_MAX_REPLICAS. ch_ptr (ge_spawn env j r) = ch_ptr (ge_spawn env k q) \<longrightarrow> j = k \<and> r = q"
    by (intro allI impI) (rule spawn_freshD(2) [OF assms(2)])
qed

lemma sup_inv_mono:
  assumes "sup_inv env ns i s g" "i < j \<or> i = j \<and> s \<le> r"
  shows "sup_inv env ns j r g"
proof -
  have f: "spawn_fresh env g i s" using assms(1) by (simp add: sup_inv_def)
  have "spawn_fresh env g j r" by (rule spawn_freshI [OF spawn_freshD(1) [OF f] f]) (use assms(2) in auto)
  then show ?thesis using assms(1) by (simp add: sup_inv_def)
qed

lemma svc_n_upd [simp]:
  "svc_n (svc\<lparr>sv_conns := a\<rparr>) = svc_n svc" "svc_n (svc\<lparr>sv_backoff_ms := b\<rparr>) = svc_n svc" "svc_n (svc\<lparr>sv_restart_at := c\<rparr>) = svc_n svc"
  "svc_n (svc\<lparr>sv_bin_mtime := d\<rparr>) = svc_n svc"
  by (simp_all add: svc_n_def)

lemma sup_inv_svc:
  assumes "sup_inv env ns i s g" "i < length ns" "svc_ok (g_ctrls g) i svc'" "svc_n svc' = ns ! i"
  shows "sup_inv env ns i s (set_svc g i svc')"
proof -
  have g: "gw_inv g" "spawn_fresh env g i s" and ns: "map svc_n (g_services g) = ns" using assms(1) by (simp_all add: sup_inv_def)
  have i: "i < length (g_services g)" using ns assms(2) by auto
  have "spawn_fresh env (set_svc g i svc') i s" by (rule spawn_freshI [OF _ g(2)]) (simp add: spawn_freshD(1) [OF g(2)])
  moreover have "map svc_n ((g_services g)[i := svc']) = ns" using ns assms(4) by (simp add: map_update)
  ultimately show ?thesis using set_svc_inv [OF g(1) i assms(3)] by (simp add: sup_inv_def)
qed

text \<open>A service with a slot to spawn: the facts the next lemmas share.\<close>

lemma sup_invD:
  assumes "sup_inv env ns i s g" "i < length ns" "s < ns ! i"
  shows "gw_inv g" "spawn_fresh env g i s" "i < length (g_services g)" "svc_n (g_services g ! i) = ns ! i" "s < NTC_MAX_REPLICAS"
    "svc_ok (g_ctrls g) i (g_services g ! i)" "sup_inv env ns i (Suc s) g"
proof -
  show inv: "gw_inv g" and "spawn_fresh env g i s" using assms(1) by (auto simp: sup_inv_def)
  have ns: "map svc_n (g_services g) = ns" using assms(1) by (simp add: sup_inv_def)
  show i: "i < length (g_services g)" using assms(2) ns by auto
  show ok: "svc_ok (g_ctrls g) i (g_services g ! i)" by (rule gw_inv_svc [OF inv i])
  show n: "svc_n (g_services g ! i) = ns ! i" using ns i by auto
  then show "s < NTC_MAX_REPLICAS" using svc_n_range [OF svc_okD(1) [OF ok]] assms(3) by simp
  show "sup_inv env ns i (Suc s) g" using sup_inv_mono [OF assms(1), of i "Suc s"] by simp
qed

lemma spawn_sup_inv:
  assumes "sup_inv env ns i s g" "i < length ns" "s < ns ! i"
  shows "sup_inv env ns i (Suc s) (snd (spawn_service env g i s))"
proof -
  note D = sup_invD [OF assms]
  let ?p = "ch_ptr (ge_spawn env i s)"
  have "g_ctrls g ?p = None" using spawn_freshD(1) [OF D(2,5)] by simp
  note sp = spawn_inv [OF D(1,3,5) this]
  have "g_ctrls (snd (spawn_service env g i s)) (ch_ptr (ge_spawn env j r)) = None" if "r < NTC_MAX_REPLICAS" "i < j \<or> i = j \<and> Suc s \<le> r" for j r
  proof -
    have "ch_ptr (ge_spawn env j r) \<noteq> ?p" using spawn_freshD(2) [OF D(2) that(1) D(5), of j i] that(2) by auto
    then show ?thesis using sp(4) [of "ch_ptr (ge_spawn env j r)"] spawn_freshD(1) [OF D(2) that(1), of j] that(2) by auto
  qed
  then have "spawn_fresh env (snd (spawn_service env g i s)) i (Suc s)" by (rule spawn_freshI [OF _ D(2)])
  then show ?thesis using sp(1,3) assms(1) by (simp add: sup_inv_def)
qed

lemma supervise_slot_inv:
  assumes "sup_inv env ns i s g" "i < length ns" "s < ns ! i"
  shows "sup_inv env ns i (Suc s) (supervise_slot env i g s)"
proof -
  let ?svc = "g_services g ! i"
  note D = sup_invD [OF assms]
  note ok = D(6) and s = D(5) and n = D(4)
  have b: "0 \<le> sv_backoff_ms ?svc ! s" and len: "length (sv_restart_at ?svc) = NTC_MAX_REPLICAS"
    using svc_okD(1) [OF ok] s by (auto simp: svc_shape_def)
  note nb = next_backoff_range [OF b]
  have f: "sup_inv env ns i (Suc s) (set_svc g i (?svc\<lparr>sv_backoff_ms := (sv_backoff_ms ?svc)[s := next_backoff (sv_backoff_ms ?svc ! s)],
      sv_restart_at := (sv_restart_at ?svc)[s := ge_now_ms env + next_backoff (sv_backoff_ms ?svc ! s)]\<rparr>))"
    using nb len n by (intro sup_inv_svc [OF D(7) assms(2)] svc_ok_backoff(2) [OF ok s]) auto
  have st: "sup_inv env ns i (Suc s) (set_svc g i (?svc\<lparr>sv_backoff_ms := (sv_backoff_ms ?svc)[s := NTC_BACKOFF_BASE]\<rparr>))"
    using len n by (intro sup_inv_svc [OF D(7) assms(2)] svc_ok_backoff(1) [OF ok s]) (auto simp: NTC_BACKOFF_BASE_def NTC_BACKOFF_MAX_def)
  obtain rc g1 where r: "spawn_service env g i s = (rc, g1)" by fastforce
  have "rc \<noteq> 0 \<Longrightarrow> g1 = g" using spawn_inv(5) [OF D(1,3,5), of env] spawn_freshD(1) [OF D(2,5), of i] r by simp
  then show ?thesis using D(7) spawn_sup_inv [OF assms] f st r by (auto simp: supervise_slot_def Let_def split: option.splits)
qed

lemma supervise_slots_inv:
  assumes "sup_inv env ns i 0 g" "i < length ns" "k \<le> ns ! i"
  shows "sup_inv env ns i k (foldl (supervise_slot env i) g [0..<k])"
  using assms(3) by (induction k) (use assms(1,2) supervise_slot_inv in auto)

lemma supervise_service_inv:
  assumes "sup_inv env ns i 0 g" "i < length ns"
  shows "sup_inv env ns (Suc i) 0 (supervise_service env g i)"
proof -
  have ns: "map svc_n (g_services g) = ns" using assms(1) by (simp add: sup_inv_def)
  then have "i < length (g_services g)" using assms(2) by auto
  then have "svc_n (g_services g ! i) = ns ! i" using ns by auto
  then show ?thesis using sup_inv_mono [OF supervise_slots_inv [OF assms order_refl], of "Suc i" 0] sup_inv_mono [OF assms(1), of "Suc i" 0]
    by (simp add: supervise_service_def)
qed

lemma supervise_inv:
  assumes "gw_inv g" "spawn_fresh env g 0 0"
  shows "gw_inv (supervise env g)"
proof -
  let ?ns = "map svc_n (g_services g)"
  have "sup_inv env ?ns k 0 (foldl (supervise_service env) g [0..<k])" if "k \<le> length (g_services g)" for k
    using that
  proof (induction k)
    case (Suc k)
    then show ?case using supervise_service_inv [of env ?ns k] by simp
  qed (use assms in \<open>simp add: sup_inv_def\<close>)
  from this [OF order_refl] show ?thesis by (simp add: supervise_def sup_inv_def)
qed

subsection \<open>Reloads\<close>

lemma svc_drop_ok:
  assumes "svc_ok ctrls i svc" "s < NTC_MAX_REPLICAS" "sv_conns svc ! s = Some t"
  shows "svc_ok (ctrls(t := None)) i (svc\<lparr>sv_conns := (sv_conns svc)[s := None]\<rparr>)"
proof -
  note D = svc_okD [OF assms(1)]
  let ?c = "(sv_conns svc)[s := None]"
  have len: "length (sv_conns svc) = NTC_MAX_REPLICAS" using D(1) by (simp add: svc_shape_def)
  have old: "r \<noteq> s \<and> sv_conns svc ! r = Some t'" if "?c ! r = Some t'" "r < NTC_MAX_REPLICAS" for r t'
    using that len assms(2) by (cases "r = s") auto
  have "svc_shape (svc\<lparr>sv_conns := ?c\<rparr>)" using D(1) by (simp add: svc_shape_def)
  moreover have "map_option ct_svc ((ctrls(t := None)) t') = Some i" if "?c ! r = Some t'" "r < NTC_MAX_REPLICAS" for r t'
    using old [OF that] D(2) [OF that(2), of t'] D(3) [OF that(2) assms(2), of t] assms(3) by auto
  moreover have "q = r" if "q < NTC_MAX_REPLICAS" "r < NTC_MAX_REPLICAS" "?c ! q = Some t'" "?c ! r = Some t'" for q r t'
    using old [OF that(3,1)] old [OF that(4,2)] D(3) [OF that(1,2)] by blast
  ultimately show ?thesis by (intro svc_okI) simp_all
qed

lemma dev_teardown_safe:
  assumes "gw_inv g" "i < length (g_services g)" "s < NTC_MAX_REPLICAS"
  shows "\<exists>g'. dev_teardown_slot env g i s = Some g' \<and> gw_inv g' \<and> length (g_services g') = length (g_services g) \<and>
    svc_n (g_services g' ! i) = svc_n (g_services g ! i)"
proof (cases "sv_conns (g_services g ! i) ! s")
  case None
  then show ?thesis using assms by (simp add: dev_teardown_slot_def)
next
  case (Some t)
  have "map_option ct_svc (g_ctrls g t) = Some i" using svc_okD(2) [OF gw_inv_svc [OF assms(1,2)] assms(3) Some] .
  then obtain ct where ct: "g_ctrls g t = Some ct" "ct_svc ct = i" by auto
  obtain g1 where g1: "fold_opt (fail_waiter env t ''reloading'') g [0..<NTC_MAX_INFLIGHT] = Some g1"
    "gw_inv g1" "same_rest g g1" "none_waits t NTC_MAX_INFLIGHT g1"
    using fail_all_safe [OF assms(1) order_refl] by blast
  have svcs: "g_services g1 = g_services g" using g1(3) by (simp add: same_rest_def)
  obtain ct1 where ct1: "g_ctrls g1 t = Some ct1" "ct_svc ct1 = i"
    using g1(3) ct unfolding same_rest_def by (metis map_option_eq_Some)
  have i1: "i < length (g_services g1)" using assms(2) svcs by simp
  let ?svc = "(g_services g1 ! i)\<lparr>sv_conns := (sv_conns (g_services g1 ! i))[s := None]\<rparr>"
  have "svc_ok ((g_ctrls g1)(t := None)) i ?svc" using svc_drop_ok [OF gw_inv_svc [OF g1(2) i1] assms(3)] Some svcs by simp
  then have "gw_inv ((set_svc g1 (ct_svc ct1) ?svc)\<lparr>g_ctrls := (g_ctrls g1)(t := None)\<rparr>)"
    by (intro ctrl_free_inv [OF g1(2,4) ct1(1)]) (simp add: ct1(2))
  then show ?thesis using Some ct g1(1) ct1(2) svcs assms(2) by (simp add: dev_teardown_slot_def Let_def)
qed

lemma dev_reload_slot_safe:
  assumes "gw_inv g" "i < length (g_services g)" "s < NTC_MAX_REPLICAS"
  shows "\<exists>g'. dev_reload_slot env i g s = Some g' \<and> gw_inv g' \<and> length (g_services g') = length (g_services g) \<and>
    svc_n (g_services g' ! i) = svc_n (g_services g ! i)"
proof -
  obtain g1 where g1: "dev_teardown_slot env g i s = Some g1" "gw_inv g1" "length (g_services g1) = length (g_services g)"
    "svc_n (g_services g1 ! i) = svc_n (g_services g ! i)"
    using dev_teardown_safe [OF assms] by blast
  have i: "i < length (g_services g1)" using assms(2) g1(3) by simp
  let ?svc = "(g_services g1 ! i)\<lparr>sv_backoff_ms := (sv_backoff_ms (g_services g1 ! i))[s := 0],
    sv_restart_at := (sv_restart_at (g_services g1 ! i))[s := ge_now_ms env]\<rparr>"
  have "length (sv_restart_at (g_services g1 ! i)) = NTC_MAX_REPLICAS" using svc_okD(1) [OF gw_inv_svc [OF g1(2) i]] by (simp add: svc_shape_def)
  then have "gw_inv (set_svc g1 i ?svc)"
    by (intro set_svc_inv [OF g1(2) i] svc_ok_backoff(2) [OF gw_inv_svc [OF g1(2) i] assms(3)]) (simp_all add: NTC_BACKOFF_MAX_def)
  then show ?thesis using g1 i by (simp add: dev_reload_slot_def Let_def)
qed

lemma fold_opt_append: "fold_opt f s (as @ [a]) = Option.bind (fold_opt f s as) (\<lambda>s. f s a)"
  by (induction as arbitrary: s) (auto split: option.splits)

lemma dev_reload_safe:
  assumes "gw_inv g" "i < length (g_services g)"
  shows "\<exists>g'. dev_reload_service env g i = Some g' \<and> gw_inv g' \<and> length (g_services g') = length (g_services g)"
proof -
  have n: "svc_n (g_services g ! i) \<le> NTC_MAX_REPLICAS" using svc_n_range svc_okD(1) [OF gw_inv_svc [OF assms]] by blast
  have "\<exists>g'. fold_opt (dev_reload_slot env i) g [0..<k] = Some g' \<and> gw_inv g' \<and> length (g_services g') = length (g_services g) \<and>
      svc_n (g_services g' ! i) = svc_n (g_services g ! i)" if "k \<le> svc_n (g_services g ! i)" for k
    using that
  proof (induction k)
    case (Suc k)
    then obtain g1 where g1: "fold_opt (dev_reload_slot env i) g [0..<k] = Some g1" "gw_inv g1" "length (g_services g1) = length (g_services g)"
      "svc_n (g_services g1 ! i) = svc_n (g_services g ! i)" by auto
    then show ?case using dev_reload_slot_safe [of g1 i k env] assms(2) Suc.prems n by (auto simp: fold_opt_append)
  qed (use assms in simp)
  from this [OF order_refl] show ?thesis by (auto simp: dev_reload_service_def)
qed

lemma svc_ok_mtime [simp]: "svc_ok ctrls i (svc\<lparr>sv_bin_mtime := m\<rparr>) = svc_ok ctrls i svc"
  by (simp add: svc_ok_def svc_shape_def)

lemma dev_check_safe:
  assumes "gw_inv g" "i < length (g_services g)"
  shows "\<exists>g'. dev_check_service env g i = Some g' \<and> gw_inv g' \<and> length (g_services g') = length (g_services g)"
proof -
  have inv: "gw_inv (set_svc g i ((g_services g ! i)\<lparr>sv_bin_mtime := m\<rparr>))" for m
    by (rule set_svc_inv [OF assms]) (simp add: gw_inv_svc [OF assms])
  then show ?thesis using assms dev_reload_safe [OF inv, of i _ env] by (auto simp: dev_check_service_def Let_def)
qed

lemma gw_inv_dev [simp]:
  "gw_inv (g\<lparr>g_dev_last_poll := a, g_dev_paths := b\<rparr>) = gw_inv g" "gw_inv (g\<lparr>g_builds := c\<rparr>) = gw_inv g"
  "gw_inv (g\<lparr>g_sess_sweep := d\<rparr>) = gw_inv g"
  by (simp_all add: gw_inv_def)

lemma dev_tick_safe:
  assumes "gw_inv g"
  shows "inv_safe (dev_tick env g)"
proof -
  have all: "inv_safe (fold_opt (dev_check_service env) h [0..<n])" if "gw_inv h" "n = length (g_services h)" for h n
  proof -
    have "\<exists>g'. fold_opt (dev_check_service env) h [0..<k] = Some g' \<and> gw_inv g' \<and> length (g_services g') = length (g_services h)"
      if "k \<le> length (g_services h)" for k
      using that
    proof (induction k)
      case (Suc k)
      then obtain g1 where "fold_opt (dev_check_service env) h [0..<k] = Some g1" "gw_inv g1" "length (g_services g1) = length (g_services h)" by auto
      then show ?case using dev_check_safe [of g1 k env] Suc.prems by (auto simp: fold_opt_append)
    qed (use \<open>gw_inv h\<close> in simp)
    from this [OF order_refl] show ?thesis using that(2) by (auto simp: inv_safe_def)
  qed
  show ?thesis using assms by (auto simp: dev_tick_def Let_def split: option.splits intro!: all)
qed

end
