(* ===== verification/Startup.thy ===== *)
theory Startup
  imports Event_Loop
begin

text \<open>
  Start-up of the gateway (\<open>ntc_server_run\<close> before its loop, \<open>load_registry\<close>, \<open>load_token\<close>,
  \<open>gen_token\<close> in \<open>src/core/server.c\<close>, \<open>ntc_builtin_register\<close> in \<open>src/core/builtin.c\<close>): built-in
  routes, control token, configuration from the registry and the environment, and the
  services with their first processes. The result of \<open>strdup\<close> is not looked at when services are
  loaded, and taken to succeed. The listeners are in \<open>Listen\<close>; here one flag says whether those
  that are needed could be opened.
\<close>

definition NTC_DEV_MAX_WATCH :: nat where "NTC_DEV_MAX_WATCH = 32"

record boot_env =
  bo_getenv :: "string \<Rightarrow> string option"
  bo_alloc :: bool                       \<comment> \<open>\<open>calloc\<close>, \<open>strdup\<close>\<close>
  bo_reg_open :: "string \<Rightarrow> bool"        \<comment> \<open>\<open>ntc_registry_open\<close>\<close>
  bo_services_ok :: bool                 \<comment> \<open>\<open>ntc_registry_list_services\<close>\<close>
  bo_routes_ok :: bool                   \<comment> \<open>\<open>ntc_registry_list_routes\<close>\<close>
  bo_sess_open :: "string \<Rightarrow> bool"       \<comment> \<open>\<open>ntc_session_store_open\<close>\<close>
  bo_sockets :: bool                     \<comment> \<open>listening socket, poller\<close>

record ntc_dev_opts =
  dv_watch :: bool
  dv_build_cmd :: "string option"
  dv_paths :: "string list"

subsection \<open>Built-in routes and the control token\<close>

type_synonym gw_router = "(gw_handler, nat) ntc_router"

text \<open>\<open>ntc_router_add\<close> as a step that may fail.\<close>

definition router_step :: "bool \<Rightarrow> gw_router \<Rightarrow> string \<Rightarrow> string \<Rightarrow> gw_handler \<Rightarrow> ntc_err + gw_router" where
  "router_step ok r m p h =
     (case ntc_router_add ok ok ok (Some r) (Some m) (Some p) (Some h) 0 of
        (NTC_OK, Some r1) \<Rightarrow> Inr r1
      | (e, _) \<Rightarrow> Inl e)"

definition ntc_builtin_register :: "bool \<Rightarrow> gw_router \<Rightarrow> ntc_err + gw_router" where
  "ntc_builtin_register ok r =
     ntc_try (router_step ok r ''GET'' ''/health'' H_health) (\<lambda>r1.
     ntc_try (router_step ok r1 ''GET'' ''/version'' H_version) (\<lambda>r2.
     ntc_try (router_step ok r2 ''GET'' ''/api/echo/:name'' H_echo) (\<lambda>r3. Inr r3)))"

definition gen_token :: "gw_env \<Rightarrow> nat \<Rightarrow> string" where
  "gen_token env cap =
     (case ge_random env 16 of
        None \<Rightarrow> snprintf cap ''ntc-insecure-token''
      | Some b \<Rightarrow> concat (map (\<lambda>i. if 2 * i + 2 < cap then fmt_02x (b ! i) else []) [0..<16]))"

definition load_token :: "gw_env \<Rightarrow> gateway \<Rightarrow> gateway" where
  "load_token env g =
     (case ge_config env (g_reg g) ''control_token'' of
        Some v \<Rightarrow> g\<lparr>g_token := snprintf 65 v\<rparr>
      | None \<Rightarrow> snd (reg_write env (g\<lparr>g_token := gen_token env 65\<rparr>) (Reg_set_config ''control_token'' (gen_token env 65))))"

subsection \<open>Configuration\<close>

text \<open>A text from the environment or else from the registry, through a buffer of \<open>vcap\<close> bytes.\<close>

definition cfg_text :: "boot_env \<Rightarrow> gw_env \<Rightarrow> reg_op list \<Rightarrow> string \<Rightarrow> string \<Rightarrow> nat \<Rightarrow> nat \<Rightarrow> string" where
  "cfg_text be env reg key var vcap cap =
     (case bo_getenv be var of
        Some e \<Rightarrow> snprintf cap e
      | None \<Rightarrow> (case ge_config env reg key of Some v \<Rightarrow> snprintf cap (snprintf vcap v) | None \<Rightarrow> []))"

definition cfg_int :: "boot_env \<Rightarrow> gw_env \<Rightarrow> reg_op list \<Rightarrow> string \<Rightarrow> string \<Rightarrow> int" where
  "cfg_int be env reg key var =
     (case bo_getenv be var of
        Some e \<Rightarrow> atoi e
      | None \<Rightarrow> (case ge_config env reg key of Some v \<Rightarrow> atoi (snprintf 256 v) | None \<Rightarrow> 0))"

definition app_name_of :: "boot_env \<Rightarrow> gw_env \<Rightarrow> reg_op list \<Rightarrow> string" where
  "app_name_of be env reg =
     (case ge_config env reg ''app.name'' of
        Some v \<Rightarrow> snprintf 128 v
      | None \<Rightarrow> snprintf 128 (case bo_getenv be ''NTC_APP_NAME'' of Some e \<Rightarrow> e | None \<Rightarrow> ''naitron-c app''))"

definition mw_config_of :: "boot_env \<Rightarrow> gw_env \<Rightarrow> reg_op list \<Rightarrow> ntc_mw_config" where
  "mw_config_of be env reg =
     \<lparr>cf_request_id = True,
      cf_access_log = (case ge_config env reg ''accesslog'' of Some v \<Rightarrow> atoi (snprintf 256 v) \<noteq> 0 | None \<Rightarrow> True),
      cf_cors_origin = cfg_text be env reg ''cors.origin'' ''NTC_CORS_ORIGIN'' 256 128,
      cf_rate_per_sec = cfg_int be env reg ''ratelimit.per_sec'' ''NTC_RATELIMIT_PER_SEC'',
      cf_rate_burst = cfg_int be env reg ''ratelimit.burst'' ''NTC_RATELIMIT_BURST'',
      cf_auth_mode = cfg_text be env reg ''auth.mode'' ''NTC_AUTH_MODE'' 256 16,
      cf_auth_secret = cfg_text be env reg ''auth.secret'' ''NTC_AUTH_SECRET'' 256 256,
      cf_auth_protect = cfg_text be env reg ''auth.protect'' ''NTC_AUTH_PROTECT'' 256 128,
      cf_auth_jwks_file = cfg_text be env reg ''auth.jwks_file'' ''NTC_AUTH_JWKS_FILE'' 256 256,
      cf_auth_jwks_url = cfg_text be env reg ''auth.jwks_url'' ''NTC_AUTH_JWKS_URL'' 256 256,
      cf_auth_jwks_ca = cfg_text be env reg ''auth.jwks_ca'' ''NTC_AUTH_JWKS_CA'' 256 256\<rparr>"

text \<open>The path of the sessions database: configured, or derived from the registry's.\<close>

definition db_path :: "boot_env \<Rightarrow> string" where
  "db_path be = (case bo_getenv be ''NTC_DB'' of Some e \<Rightarrow> e | None \<Rightarrow> ''ntc.db'')"

definition sessions_path :: "boot_env \<Rightarrow> gw_env \<Rightarrow> reg_op list \<Rightarrow> string" where
  "sessions_path be env reg =
     (let sdb = cfg_text be env reg ''sessions.db'' ''NTC_SESSIONS_DB'' 300 300; mdb = db_path be; ml = length mdb
      in if sdb \<noteq> [] then sdb
         else if ml > 3 \<and> drop (ml - 3) mdb = ''.db'' then snprintf 300 (take (ml - 3) mdb @ ''.sessions.db'')
         else snprintf 300 (mdb @ ''.sessions.db''))"

definition oauth_config_of :: "boot_env \<Rightarrow> gw_env \<Rightarrow> reg_op list \<Rightarrow> oauth_config" where
  "oauth_config_of be env reg =
     (let t = (\<lambda>key var cap. cfg_text be env reg key var 256 cap);
          token_url = t ''oauth.token_url'' ''NTC_OAUTH_TOKEN_URL'' 256;
          authorize_url = t ''oauth.authorize_url'' ''NTC_OAUTH_AUTHORIZE_URL'' 256;
          client_id = t ''oauth.client_id'' ''NTC_OAUTH_CLIENT_ID'' 160;
          on = (token_url \<noteq> [] \<and> authorize_url \<noteq> [] \<and> client_id \<noteq> []);
          ca = cfg_text be env reg ''oauth.ca'' ''NTC_OAUTH_CA'' 256 256
      in \<lparr>oa_enabled = (on \<and> bo_sess_open be (sessions_path be env reg) \<and> bo_alloc be),
          oa_authorize_url = authorize_url, oa_token_url = token_url, oa_client_id = client_id,
          oa_client_secret = t ''oauth.client_secret'' ''NTC_OAUTH_CLIENT_SECRET'' 256,
          oa_redirect_uri = t ''oauth.redirect_uri'' ''NTC_OAUTH_REDIRECT_URI'' 256,
          oa_scopes = t ''oauth.scopes'' ''NTC_OAUTH_SCOPES'' 160,
          oa_success = t ''oauth.success'' ''NTC_OAUTH_SUCCESS'' 128,
          oa_ca = (if \<not> on then None else if ca \<noteq> [] then me_ca_load (ge_mw env) ca else me_ca_default (ge_mw env))\<rparr>)"

definition oauth_on :: "oauth_config \<Rightarrow> bool" where
  "oauth_on oa \<longleftrightarrow> oa_token_url oa \<noteq> [] \<and> oa_authorize_url oa \<noteq> [] \<and> oa_client_id oa \<noteq> []"

definition sessions_of :: "boot_env \<Rightarrow> gw_env \<Rightarrow> reg_op list \<Rightarrow> sess_op list option" where
  "sessions_of be env reg =
     (if oauth_on (oauth_config_of be env reg) \<and> bo_sess_open be (sessions_path be env reg) then Some [] else None)"

text \<open>The body limit: the configuration can only lower it.\<close>

definition max_body_of :: "boot_env \<Rightarrow> gw_env \<Rightarrow> reg_op list \<Rightarrow> nat" where
  "max_body_of be env reg =
     (let mb = cfg_text be env reg ''max_body'' ''NTC_MAX_BODY'' 32 32; v = strtol mb 10
      in if mb \<noteq> [] \<and> v > 0 \<and> v < int NTC_CONN_RBUF then nat v else NTC_CONN_RBUF)"

definition schemas_of :: "boot_env \<Rightarrow> gw_env \<Rightarrow> reg_op list \<Rightarrow> ntc_json option" where
  "schemas_of be env reg =
     (let sf = cfg_text be env reg ''schema.file'' ''NTC_SCHEMA_FILE'' 256 256
      in if sf = [] then None
         else case ge_file env sf of
                None \<Rightarrow> None
              | Some (_, data) \<Rightarrow>
                  if 0 < length data \<and> length data < 256 * 1024 \<and> bo_alloc be
                  then (case ntc_json_parse (ge_round env) data of
                          Some (NTC_JSON_OBJ ms) \<Rightarrow> Some (NTC_JSON_OBJ ms)
                        | _ \<Rightarrow> None)
                  else None)"

subsection \<open>Services and routes of the registry\<close>

text \<open>\<open>sscanf(tok, "%7s %255s", ...)\<close>: a word of at most so many characters, and the rest.\<close>

definition isspace :: "char \<Rightarrow> bool" where
  "isspace c \<longleftrightarrow> c = CHR '' '' \<or> (9 \<le> ccode c \<and> ccode c \<le> 13)"

definition scan_word :: "nat \<Rightarrow> string \<Rightarrow> string \<times> string" where
  "scan_word w s =
     (let s1 = dropWhile isspace s; t = take w (takeWhile (\<lambda>c. \<not> isspace c) s1)
      in (t, drop (length t) s1))"

definition scan_route :: "string \<Rightarrow> (string \<times> string) option" where
  "scan_route tok =
     (case scan_word 7 tok of
        (m, rest) \<Rightarrow> let p = fst (scan_word 255 rest) in if m \<noteq> [] \<and> p \<noteq> [] then Some (m, p) else None)"

definition seed_routes :: "boot_env \<Rightarrow> (string \<times> string) list" where
  "seed_routes be =
     (case bo_getenv be ''NTC_CONTROLLER_ROUTE'' of
        Some rs \<Rightarrow>
          if rs \<noteq> [] then List.map_filter scan_route (filter (\<lambda>t. t \<noteq> []) (split_on CHR '';'' (snprintf 1024 rs)))
          else [(''GET'', ''/api/hello''), (''GET'', ''/api/hello/:name'')]
      | None \<Rightarrow> [(''GET'', ''/api/hello''), (''GET'', ''/api/hello/:name'')])"

definition seed_registry :: "boot_env \<Rightarrow> gw_env \<Rightarrow> gateway \<Rightarrow> gateway" where
  "seed_registry be env g =
     (if ge_services env (g_reg g) \<noteq> [] then g
      else
        case bo_getenv be ''NTC_CONTROLLER_BIN'' of
          None \<Rightarrow> g
        | Some bin \<Rightarrow>
            (case reg_write env g (Reg_add_service ''hello'' bin) of
               (False, g1) \<Rightarrow> g1
             | (True, g1) \<Rightarrow>
                 foldl (\<lambda>h (m, p). snd (reg_write env h (Reg_add_route m p ''hello''))) g1 (seed_routes be)))"

definition replicas_of :: "boot_env \<Rightarrow> gw_env \<Rightarrow> reg_op list \<Rightarrow> string \<Rightarrow> int" where
  "replicas_of be env reg name =
     (let valid = (\<lambda>n. 1 \<le> n \<and> n \<le> int NTC_MAX_REPLICAS);
          r1 = (case ge_config env reg (snprintf 160 (''replicas:'' @ name)) of
                  Some v \<Rightarrow> let n = atoi (snprintf 16 v) in if valid n then n else 1
                | None \<Rightarrow> 1)
      in case bo_getenv be ''NTC_REPLICAS'' of
           Some e \<Rightarrow> let n = atoi e in if valid n then n else r1
         | None \<Rightarrow> r1)"

definition load_service :: "boot_env \<Rightarrow> gw_env \<Rightarrow> reg_op list \<Rightarrow> ntc_service_row \<Rightarrow> service" where
  "load_service be env reg row = (zero_service (sr_name row) (sr_bin row))\<lparr>sv_replicas := replicas_of be env reg (sr_name row)\<rparr>"

definition load_route :: "gw_env \<Rightarrow> gateway \<Rightarrow> ntc_route_row \<Rightarrow> gateway" where
  "load_route env g row =
     (case find_service g (rr_service row) of
        None \<Rightarrow> g
      | Some i \<Rightarrow>
          (case ntc_router_add (ge_dup env) (ge_dup env) (ge_dup env) (Some (g_router g))
                  (Some (rr_method row)) (Some (rr_pattern row)) (Some Forward_marker) i of
             (_, Some r) \<Rightarrow> g\<lparr>g_router := r\<rparr>
           | (_, None) \<Rightarrow> g))"

definition load_registry :: "boot_env \<Rightarrow> gw_env \<Rightarrow> gateway \<Rightarrow> ntc_err \<times> gateway" where
  "load_registry be env g0 =
     (if \<not> bo_services_ok be then (NTC_ERR_INTERNAL, g0)
      else
        let g = seed_registry be env g0; rows = take 64 (ge_services env (g_reg g))
        in if rows = [] then (NTC_OK, g)
           else let g1 = g\<lparr>g_services := map (load_service be env (g_reg g)) rows\<rparr>
                in if \<not> bo_routes_ok be then (NTC_ERR_INTERNAL, g1)
                   else (NTC_OK, foldl (load_route env) g1 (take 256 (ge_routes env (g_reg g1)))))"

definition spawn_replicas :: "gw_env \<Rightarrow> gateway \<Rightarrow> nat \<Rightarrow> gateway" where
  "spawn_replicas env g i = foldl (\<lambda>h s. snd (spawn_service env h i s)) g [0 ..< svc_n (g_services g ! i)]"

definition spawn_all :: "gw_env \<Rightarrow> gateway \<Rightarrow> gateway" where
  "spawn_all env g = foldl (spawn_replicas env) g [0 ..< length (g_services g)]"

subsection \<open>The gateway as its loop starts\<close>

definition zero_metrics :: "int \<Rightarrow> metrics" where
  "zero_metrics now = \<lparr>m_start_ms = now, m_requests_total = 0, m_status_2xx = 0, m_status_4xx = 0, m_status_5xx = 0,
     m_forwarded = 0, m_builtin = 0\<rparr>"

definition zero_oauth :: oauth_config where
  "zero_oauth = \<lparr>oa_enabled = False, oa_authorize_url = [], oa_token_url = [], oa_client_id = [], oa_client_secret = [],
     oa_redirect_uri = [], oa_scopes = [], oa_success = [], oa_ca = None\<rparr>"

definition zero_gateway :: "gw_env \<Rightarrow> ntc_dev_opts option \<Rightarrow> gw_router \<Rightarrow> gateway" where
  "zero_gateway env dev r =
     \<lparr>g_conns = Map.empty, g_ctrls = Map.empty, g_services = [], g_slots = gw_slots_init, g_m = zero_metrics (ge_now_ms env),
      g_mw = None, g_router = r, g_token = [], g_app_name = [], g_static_dir = [], g_oauth = zero_oauth, g_oauth_pending = [],
      g_sessions = None, g_schemas = None, g_max_body = 0, g_reg = [],
      g_dev_watch = (case dev of Some d \<Rightarrow> dv_watch d | None \<Rightarrow> False),
      g_dev_build = (case dev of Some d \<Rightarrow> if dv_watch d then dv_build_cmd d else None | None \<Rightarrow> None),
      g_dev_paths = (case dev of Some d \<Rightarrow> if dv_watch d then map (\<lambda>p. (p, 0)) (take NTC_DEV_MAX_WATCH (dv_paths d)) else [] | None \<Rightarrow> []),
      g_dev_last_poll = 0, g_sess_sweep = 0, g_stop = False, g_cctrls = Map.empty, g_replies = [], g_builds = [],
      g_closed = [], g_log = []\<rparr>"

definition configure :: "boot_env \<Rightarrow> gw_env \<Rightarrow> gateway \<Rightarrow> gateway" where
  "configure be env g =
     (let reg = g_reg g
      in g\<lparr>g_app_name := app_name_of be env reg,
           g_static_dir := cfg_text be env reg ''static.dir'' ''NTC_STATIC_DIR'' 256 256,
           g_mw := ntc_mw_new (ge_mw env) (mw_config_of be env reg),
           g_oauth := oauth_config_of be env reg, 
           g_oauth_pending := (if oauth_on (oauth_config_of be env reg) then ntc_kv_new 1024 else []),
           g_sessions := sessions_of be env reg, g_max_body := of_nat (max_body_of be env reg),
           g_schemas := schemas_of be env reg\<rparr>)"

definition gw_boot :: "boot_env \<Rightarrow> gw_env \<Rightarrow> ntc_dev_opts option \<Rightarrow> ntc_err + gateway" where
  "gw_boot be env dev =
     (case ntc_router_create (bo_alloc be) of
        Inl _ \<Rightarrow> Inl NTC_ERR_OOM
      | Inr r0 \<Rightarrow>
          (case ntc_builtin_register (bo_alloc be) r0 of
             Inl _ \<Rightarrow> Inl NTC_ERR_INTERNAL
           | Inr r \<Rightarrow>
               if \<not> bo_reg_open be (db_path be) then Inl NTC_ERR_IO
               else if \<not> bo_alloc be then Inl NTC_ERR_OOM
               else if \<not> bo_sockets be then Inl NTC_ERR_IO
               else Inr (spawn_all env (snd (load_registry be env (configure be env (load_token env (zero_gateway env dev r))))))))"

text \<open>Shutting down frees the controllers; the other objects go with the process.\<close>

definition gw_shutdown :: "gateway \<Rightarrow> gateway option" where
  "gw_shutdown g =
     fold_opt (\<lambda>h i. fold_opt (free_replica i) h [0 ..< NTC_MAX_REPLICAS]) g [0 ..< length (g_services g)]"

text \<open>An environment in which everything succeeds, with one service.\<close>

definition sample_child :: "nat \<Rightarrow> nat \<Rightarrow> child" where
  "sample_child i s = \<lparr>ch_fork = True, ch_hello = ntc_wire_write_header NTC_MSG_HELLO 0 0, ch_welcome = True, ch_setup = True,
     ch_ptr = 8 * i + s, ch_sock = [], ch_peer = []\<rparr>"

definition sample_gw_env :: gw_env where
  "sample_gw_env = \<lparr>ge_now_ms = 1000, ge_time = 1700000000, ge_poll = (\<lambda>_. True), ge_alloc = (\<lambda>_. True), ge_grant = (\<lambda>_. True),
     ge_gzip = (\<lambda>_. None), ge_sha1 = (\<lambda>_. replicate 20 0), ge_mw = sample_mw_env, ge_random = (\<lambda>n. Some (replicate n 0)),
     ge_file = (\<lambda>_. None), ge_round = (\<lambda>q. Fin q), ge_fmt = (\<lambda>_. ''0''), ge_len = (\<lambda>_. 0), ge_i64 = (\<lambda>_. 0), ge_dashboard = ''<html>'',
     ge_sess_get = (\<lambda>_ _ _. None), ge_reg_ok = (\<lambda>_ _. True),
     ge_services = (\<lambda>_. [\<lparr>sr_name = ''hello'', sr_bin = ''./hello''\<rparr>]),
     ge_routes = (\<lambda>_. [\<lparr>rr_method = ''GET'', rr_pattern = ''/api/hello'', rr_service = ''hello''\<rparr>]),
     ge_config = (\<lambda>_ _. None), ge_backend = ''epoll'', ge_spawn = sample_child, ge_mtime = (\<lambda>_. None), ge_tree = (\<lambda>_. None), ge_dup = True\<rparr>"

definition sample_boot :: boot_env where
  "sample_boot = \<lparr>bo_getenv = (\<lambda>_. None), bo_alloc = True, bo_reg_open = (\<lambda>_. True), bo_services_ok = True, bo_routes_ok = True,
     bo_sess_open = (\<lambda>_. True), bo_sockets = True\<rparr>"

end
