(* ===== verification/Gateway_Run.thy ===== *)
theory Gateway_Run
  imports Gateway_Safe Startup
begin

text \<open>
  Runs of the gateway. The control commands and the admin port, the start-up, every event of
  the loop and the periodic work keep the invariant of \<open>Gateway_Inv\<close> and return, so that no run
  whose events name live objects touches freed memory or leaves a buffer.
\<close>

subsection \<open>Lists in a bounded buffer\<close>

lemma buf_rows_fit:
  assumes "\<And>r. r \<in> set rs \<Longrightarrow> length (f r) + k < slack" "slack \<le> cap" "length buf = off" "off + k < cap"
  shows "\<exists>buf' off'. buf_rows cap (cap - slack) f first rs (Some (buf, off)) = Some (buf', off') \<and> length buf' = off' \<and> off' + k < cap"
  using assms
proof (induction rs arbitrary: first buf off)
  case (Cons r rs)
  show ?case
  proof (cases "off < cap - slack")
    case True
    define s where "s = (if first then [] else '','') @ f r"
    have len: "length s \<le> Suc (length (f r))" by (simp add: s_def)
    have "length (f r) + k < slack" using Cons.prems(1) by simp
    then have fit: "off + length s + k < cap" using True len by linarith
    have p: "buf_printf cap s (Some (buf, off)) = Some (buf @ s, off + length s)" by (rule buf_printf_fits) (use fit Cons.prems(3) in simp_all)
    show ?thesis using Cons.IH [of "buf @ s" "off + length s" False] Cons.prems fit True
      by (simp add: s_def [symmetric] p)
  qed (use Cons.prems in simp)
qed simp

lemma list_reply_fits:
  assumes "\<And>r. r \<in> set rows \<Longrightarrow> length (f r) < slack" "slack \<le> cap" "4 < cap"
  shows "\<exists>out. list_reply cap slack f rows = Some out"
proof -
  have p: "buf_printf cap ''OK ['' (Some ([], 0)) = Some (''OK ['', 4)" using assms(3) by (subst buf_printf_fits) simp_all
  obtain buf off where r: "buf_rows cap (cap - slack) f True rows (Some (''OK ['', 4)) = Some (buf, off)" "off < cap"
    using buf_rows_fit [of rows f 0 slack cap "''OK [''" 4 True] assms by auto
  have "list_reply cap slack f rows = map_option fst (buf_printf cap ('']'' @ [LF]) (Some (buf, off)))"
    by (simp only: list_reply_def p r(1))
  then show ?thesis using r(2) by (simp add: buf_printf_def)
qed

lemma admin_list_fits:
  assumes "\<And>r. r \<in> set rows \<Longrightarrow> length (f r) < 511"
  shows "\<exists>body. admin_list f rows = Some body"
proof -
  have "buf_printf ADMIN_CAP ''['' (Some ([], 0)) = Some (''['', 1)" by (subst buf_printf_fits) (simp_all add: ADMIN_CAP_def)
  moreover obtain buf off where r: "buf_rows ADMIN_CAP (ADMIN_CAP - 512) f True rows (Some (''['', 1)) = Some (buf, off)" "length buf = off" "off + 1 < ADMIN_CAP"
    using buf_rows_fit [of rows f 1 512 ADMIN_CAP "''[''" 1 True] assms
    by (auto simp: ADMIN_CAP_def)
  moreover have "buf_printf ADMIN_CAP '']'' (Some (buf, off)) = Some (buf @ '']'', off + 1)" using r(2,3) by (subst buf_printf_fits) simp_all
  ultimately show ?thesis by (simp add: admin_list_def buf_body_def)
qed

subsection \<open>Control commands\<close>

text \<open>No request in flight waits for a controller of the service.\<close>

definition unawaited :: "gateway \<Rightarrow> nat \<Rightarrow> bool" where
  "unawaited g i \<longleftrightarrow> (\<forall>c x t ct. g_conns g c = Some x \<longrightarrow> c_inflight x \<longrightarrow> c_wait_ctrl x = Some t \<longrightarrow>
     g_ctrls g t = Some ct \<longrightarrow> ct_svc ct \<noteq> i)"

lemma unawaitedD: "unawaited g i \<Longrightarrow> g_conns g c = Some x \<Longrightarrow> c_inflight x \<Longrightarrow> c_wait_ctrl x = Some t \<Longrightarrow> g_ctrls g t = Some ct \<Longrightarrow> ct_svc ct \<noteq> i"
  unfolding unawaited_def by blast

lemma unawaited_none_waits:
  assumes "gw_inv g" "unawaited g i" "g_ctrls g t = Some ct" "ct_svc ct = i"
  shows "none_waits t NTC_MAX_INFLIGHT g"
  unfolding none_waits_def
proof (intro allI impI)
  fix j c x assume j: "j < NTC_MAX_INFLIGHT" "sl_pending (g_slots g) ! j = Some c" "g_conns g c = Some x"
  then have "c_inflight x" using pending_conn [OF assms(1) j(1,2)] by auto
  then show "c_wait_ctrl x \<noteq> Some t" using unawaitedD [OF assms(2) j(3), of t ct] assms(3,4) by blast
qed

text \<open>What a control command leaves alone, besides keeping the invariant.\<close>

definition cmd_keeps :: "gateway \<Rightarrow> gateway \<Rightarrow> bool" where
  "cmd_keeps g g' \<longleftrightarrow> gw_inv g' \<and> g_conns g' = g_conns g \<and> g_cctrls g' = g_cctrls g"

lemma free_replica_safe:
  assumes "gw_inv g" "i < length (g_services g)" "s < NTC_MAX_REPLICAS" "unawaited g i"
  shows "\<exists>g'. free_replica i g s = Some g' \<and> cmd_keeps g g' \<and> length (g_services g') = length (g_services g) \<and> unawaited g' i"
proof (cases "sv_conns (g_services g ! i) ! s")
  case None
  then show ?thesis using assms by (simp add: free_replica_def cmd_keeps_def)
next
  case (Some t)
  have "map_option ct_svc (g_ctrls g t) = Some i" using svc_okD(2) [OF gw_inv_svc [OF assms(1,2)] assms(3) Some] .
  then obtain ct where ct: "g_ctrls g t = Some ct" "ct_svc ct = i" by auto
  let ?svc = "(g_services g ! i)\<lparr>sv_conns := (sv_conns (g_services g ! i))[s := None]\<rparr>"
  have "gw_inv ((set_svc g (ct_svc ct) ?svc)\<lparr>g_ctrls := (g_ctrls g)(t := None)\<rparr>)"
    by (rule ctrl_free_inv [OF assms(1) unawaited_none_waits [OF assms(1,4) ct] ct(1)])
      (simp add: ct(2) svc_drop_ok [OF gw_inv_svc [OF assms(1,2)] assms(3) Some])
  moreover have "unawaited ((set_svc g i ?svc)\<lparr>g_ctrls := (g_ctrls g)(t := None)\<rparr>) i"
    using assms(4) unfolding unawaited_def by simp
  ultimately show ?thesis using Some ct by (simp add: free_replica_def Let_def cmd_keeps_def)
qed

lemma cmd_keeps_trans: "cmd_keeps g h \<Longrightarrow> cmd_keeps h k \<Longrightarrow> cmd_keeps g k"
  by (simp add: cmd_keeps_def)

lemma free_replicas_safe:
  assumes "gw_inv g" "i < length (g_services g)" "\<And>s. s \<in> set ss \<Longrightarrow> s < NTC_MAX_REPLICAS" "unawaited g i"
  shows "\<exists>g'. fold_opt (free_replica i) g ss = Some g' \<and> cmd_keeps g g' \<and> length (g_services g') = length (g_services g)"
  using assms
proof (induction ss arbitrary: g)
  case (Cons s ss)
  obtain g1 where g1: "free_replica i g s = Some g1" "cmd_keeps g g1" "length (g_services g1) = length (g_services g)" "unawaited g1 i"
    using free_replica_safe [OF Cons.prems(1,2) _ Cons.prems(4), of s] Cons.prems(3) by auto
  have "gw_inv g1" using g1(2) by (simp add: cmd_keeps_def)
  from Cons.IH [OF this _ _ g1(4)] obtain g2 where "fold_opt (free_replica i) g1 ss = Some g2" "cmd_keeps g1 g2"
    "length (g_services g2) = length (g_services g1)" using g1(3) Cons.prems(2,3) by auto
  then show ?case using g1 cmd_keeps_trans [OF g1(2)] by auto
qed (simp add: cmd_keeps_def)

lemma cmd_keeps_fields [simp]:
  "cmd_keeps g (g\<lparr>g_reg := a\<rparr>) = gw_inv g" "cmd_keeps g (g\<lparr>g_app_name := b\<rparr>) = gw_inv g" "cmd_keeps g (g\<lparr>g_stop := c\<rparr>) = gw_inv g"
  "cmd_keeps g g = gw_inv g"
  by (simp_all add: cmd_keeps_def gw_inv_def)

lemma find_service_Some: "find_service g name = Some i \<Longrightarrow> i < length (g_services g) \<and> sv_name (g_services g ! i) = name"
  by (auto simp: find_service_def find_Some_iff)

lemma reg_write_keeps: "reg_write env g rop = (ok, g1) \<Longrightarrow> \<exists>r. g1 = g\<lparr>g_reg := r\<rparr>"
  unfolding reg_write_def by (auto split: if_splits intro: exI [of _ "g_reg g"])

text \<open>Adding a service, and adding a route to one.\<close>

lemma gw_inv_append:
  assumes "gw_inv g"
  shows "gw_inv (g\<lparr>g_services := g_services g @ [zero_service name bin]\<rparr>)"
proof -
  have ok: "svc_ok (g_ctrls g) (length (g_services g)) (zero_service name bin)"
    by (rule svc_okI) (auto simp: zero_service_def svc_shape_def NTC_MAX_REPLICAS_def NTC_BACKOFF_MAX_def)
  have "svc_ok (g_ctrls g) i ((g_services g @ [zero_service name bin]) ! i)" if "i < Suc (length (g_services g))" for i
    using ok gw_inv_svc [OF assms, of i] that by (cases "i = length (g_services g)") (simp_all add: nth_append)
  then show ?thesis using assms unfolding gw_inv_def by (auto simp: less_Suc_eq)
qed

lemma spawn_conns: "g_conns (snd (spawn_service env g i s)) = g_conns g" "g_cctrls (snd (spawn_service env g i s)) = g_cctrls g"
  by (simp_all add: spawn_service_def attach_ctrl_def Let_def split: option.splits prod.splits)

lemma service_add_live_safe:
  assumes "gw_inv g" "g_ctrls g (ch_ptr (ge_spawn env (length (g_services g)) 0)) = None"
  shows "cmd_keeps g (snd (service_add_live env g name bin))"
proof (cases "find_service g name")
  case None
  let ?g1 = "g\<lparr>g_services := g_services g @ [zero_service name bin]\<rparr>"
  have "gw_inv (snd (spawn_service env ?g1 (length (g_services g)) 0))"
    by (rule spawn_inv(1) [OF gw_inv_append [OF assms(1)]]) (use assms(2) in \<open>simp_all add: NTC_MAX_REPLICAS_def\<close>)
  then show ?thesis using None assms(1) by (simp add: service_add_live_def Let_def cmd_keeps_def spawn_conns)
next
  case (Some i)
  note i = conjunct1 [OF find_service_Some [OF Some]]
  have "gw_inv (set_svc g i ((g_services g ! i)\<lparr>sv_bin := bin, sv_disabled := False\<rparr>))"
    by (rule set_svc_inv [OF assms(1) i], rule svc_ok_conns [OF gw_inv_svc [OF assms(1) i]])
      (use svc_okD(1) [OF gw_inv_svc [OF assms(1) i]] in \<open>simp_all add: svc_shape_def\<close>)
  then show ?thesis using Some by (simp add: service_add_live_def cmd_keeps_def)
qed

lemma router_add_inv:
  assumes "gw_inv g" "i < length (g_services g)"
    "ntc_router_add ra dm dp (Some (g_router g)) m p (Some Forward_marker) i = (e, Some r)"
  shows "cmd_keeps g (g\<lparr>g_router := r\<rparr>)"
proof -
  have "rt_udata rt < length (g_services g)" if "rt \<in> set (routes r)" "rt_handler rt = Forward_marker" for rt
    using assms(3) that gw_inv_route [OF assms(1)] assms(2)
    by (auto simp: ntc_router_add_def Let_def split: option.splits if_splits)
  then show ?thesis using assms(1) unfolding cmd_keeps_def gw_inv_def by simp
qed

text \<open>
  What a command needs: the addresses of new controllers are new, no request waits for a
  controller that is taken away, and the rows of a listing are shorter than its margin.
\<close>

definition cmd_ok :: "gw_env \<Rightarrow> gateway \<Rightarrow> string \<Rightarrow> nat \<Rightarrow> bool" where
  "cmd_ok env g cmdline cap \<longleftrightarrow> 160 \<le> cap \<and>
     (case strtok cmdline of
        (None, _) \<Rightarrow> True
      | (Some cmd, save) \<Rightarrow>
          if cmd = ''service-add'' then g_ctrls g (ch_ptr (ge_spawn env (length (g_services g)) 0)) = None
          else if cmd = ''service-rm'' \<or> cmd = ''service-scale''
          then (\<forall>name i. fst (strtok save) = Some name \<longrightarrow> find_service g name = Some i \<longrightarrow> unawaited g i)
          else if cmd = ''service-list'' then (\<forall>r \<in> set (ge_services env (g_reg g)). length (service_row_json r) < 128)
          else if cmd = ''route-list'' then (\<forall>r \<in> set (ge_routes env (g_reg g)). length (route_row_json r) < 160)
          else True)"

text \<open>A command that answers and keeps the connections and the invariant.\<close>

definition cmd_safe :: "gateway \<Rightarrow> (string \<times> gateway) option \<Rightarrow> bool" where
  "cmd_safe g m \<longleftrightarrow> (\<exists>out g'. m = Some (out, g') \<and> cmd_keeps g g')"

lemma cmd_safe_Some [simp]: "cmd_safe g (Some (out, g')) \<longleftrightarrow> cmd_keeps g g'"
  by (simp add: cmd_safe_def)

lemma cmd_service_add_safe:
  assumes "gw_inv g" "g_ctrls g (ch_ptr (ge_spawn env (length (g_services g)) 0)) = None"
  shows "cmd_safe g (cmd_service_add env g save cap)"
proof -
  have "cmd_keeps g (snd (service_add_live env (g\<lparr>g_reg := r\<rparr>) name bin))" for r name bin
    using service_add_live_safe [of "g\<lparr>g_reg := r\<rparr>" env name bin] assms cmd_keeps_trans [of g "g\<lparr>g_reg := r\<rparr>"]
    by (simp add: gw_inv_def)
  then have "cmd_keeps g g2" if "service_add_live env (g\<lparr>g_reg := r\<rparr>) name bin = (m, g2)" for r name bin m g2 using that by (metis snd_conv)
  then show ?thesis using assms(1) unfolding cmd_service_add_def
    by (auto split: prod.splits option.splits bool.splits dest!: reg_write_keeps)
qed

lemma cmd_route_add_safe: "gw_inv g \<Longrightarrow> cmd_safe g (cmd_route_add env g save cap)"
proof -
  assume inv: "gw_inv g"
  have "cmd_keeps g (g\<lparr>g_reg := r, g_router := ro\<rparr>)"
    if "find_service (g\<lparr>g_reg := r\<rparr>) name = Some i" "ntc_router_add ra dm dp (Some (g_router g)) m p (Some Forward_marker) i = (e, Some ro)"
    for r name i ra dm dp m p e ro
    using router_add_inv [of "g\<lparr>g_reg := r\<rparr>" i ra dm dp m p e ro] find_service_Some [OF that(1)] that(2) inv
      cmd_keeps_trans [of g "g\<lparr>g_reg := r\<rparr>"] by (simp add: gw_inv_def)
  then show ?thesis using inv unfolding cmd_route_add_def
    by (auto split: prod.splits option.splits bool.splits ntc_err.splits dest!: reg_write_keeps)
qed

lemma unawaited_fields [simp]: "unawaited (g\<lparr>g_reg := r\<rparr>) i = unawaited g i" "unawaited (g\<lparr>g_services := s\<rparr>) i = unawaited g i"
  by (simp_all add: unawaited_def)

lemma find_service_reg [simp]: "find_service (g\<lparr>g_reg := r\<rparr>) name = find_service g name"
  by (simp add: find_service_def)

lemma gw_inv_reg [simp]: "gw_inv (g\<lparr>g_reg := r\<rparr>) = gw_inv g"
  by (simp add: gw_inv_def)

text \<open>Updating a service's flags and counts.\<close>

lemma svc_flag_inv:
  assumes "gw_inv g" "i < length (g_services g)" "svc_shape svc'" "sv_conns svc' = sv_conns (g_services g ! i)"
  shows "cmd_keeps g (set_svc g i svc')"
  using set_svc_inv [OF assms(1,2) svc_ok_conns [OF gw_inv_svc [OF assms(1,2)] assms(3,4)]] by (simp add: cmd_keeps_def)

lemma cmd_service_rm_safe:
  assumes "gw_inv g" "\<And>name i. fst (strtok save) = Some name \<Longrightarrow> find_service g name = Some i \<Longrightarrow> unawaited g i"
  shows "cmd_safe g (cmd_service_rm env g save cap)"
proof (cases "fst (strtok save)")
  case (Some name)
  obtain ok r where w: "reg_write env g (Reg_remove_service name) = (ok, g\<lparr>g_reg := r\<rparr>)" using reg_write_keeps by (metis surj_pair)
  show ?thesis
  proof (cases "find_service g name")
    case None
    then show ?thesis using Some w assms(1) by (simp add: cmd_service_rm_def)
  next
    case f: (Some i)
    note i = conjunct1 [OF find_service_Some [OF f]]
    let ?svc = "(g_services g ! i)\<lparr>sv_disabled := True\<rparr>"
    let ?g1 = "set_svc (g\<lparr>g_reg := r\<rparr>) i ?svc"
    have k: "cmd_keeps (g\<lparr>g_reg := r\<rparr>) ?g1"
      using svc_flag_inv [of "g\<lparr>g_reg := r\<rparr>" i ?svc] assms(1) i svc_okD(1) [OF gw_inv_svc [OF assms(1) i]] by (simp add: svc_shape_def)
    moreover have "unawaited ?g1 i" using assms(2) [OF Some f] by (simp add: unawaited_def)
    ultimately obtain g2 where "fold_opt (free_replica i) ?g1 [0..<NTC_MAX_REPLICAS] = Some g2" "cmd_keeps ?g1 g2"
      using free_replicas_safe [of ?g1 i "[0..<NTC_MAX_REPLICAS]"] i by (auto simp: cmd_keeps_def)
    moreover have "cmd_keeps g ?g1" by (rule cmd_keeps_trans [OF _ k]) (simp add: assms(1))
    ultimately show ?thesis using Some f w cmd_keeps_trans [of g ?g1] by (simp add: cmd_service_rm_def)
  qed
qed (use assms(1) in \<open>simp add: cmd_service_rm_def\<close>)

lemma cmd_service_scale_safe:
  assumes "gw_inv g" "\<And>name i. fst (strtok save) = Some name \<Longrightarrow> find_service g name = Some i \<Longrightarrow> unawaited g i"
  shows "cmd_safe g (cmd_service_scale env g save cap)"
proof -
  have *: "cmd_safe g (do { g1 \<leftarrow> fold_opt (free_replica i) g [nat n ..< nat (sv_replicas (g_services g ! i))];
      Some (h, snd (reg_write env (set_svc g1 i ((g_services g1 ! i)\<lparr>sv_replicas := n\<rparr>)) rop)) })"
    if "fst (strtok save) = Some name" "find_service g name = Some i" "n \<le> int NTC_MAX_REPLICAS" for name i n h rop
  proof -
    note i = conjunct1 [OF find_service_Some [OF that(2)]] and free = assms(2) [OF that(1,2)]
    have "sv_replicas (g_services g ! i) \<le> int NTC_MAX_REPLICAS" using svc_okD(1) [OF gw_inv_svc [OF assms(1) i]] by (simp add: svc_shape_def)
    then have lt: "s < NTC_MAX_REPLICAS" if "s \<in> set [nat n ..< nat (sv_replicas (g_services g ! i))]" for s using that by auto
    obtain g1 where g1: "fold_opt (free_replica i) g [nat n ..< nat (sv_replicas (g_services g ! i))] = Some g1" "cmd_keeps g g1"
      "length (g_services g1) = length (g_services g)"
      using free_replicas_safe [of g i "[nat n ..< nat (sv_replicas (g_services g ! i))]", OF assms(1) i lt free] by auto
    let ?g2 = "set_svc g1 i ((g_services g1 ! i)\<lparr>sv_replicas := n\<rparr>)"
    have inv1: "gw_inv g1" and i1: "i < length (g_services g1)" using g1(2,3) i by (simp_all add: cmd_keeps_def)
    have k2: "cmd_keeps g1 ?g2"
      by (rule svc_flag_inv [OF inv1 i1]) (use svc_okD(1) [OF gw_inv_svc [OF inv1 i1]] that(3) in \<open>simp_all add: svc_shape_def\<close>)
    obtain r where "snd (reg_write env ?g2 rop) = ?g2\<lparr>g_reg := r\<rparr>" using reg_write_keeps by (metis surj_pair snd_conv)
    moreover have "cmd_keeps ?g2 (?g2\<lparr>g_reg := r\<rparr>)" using k2 by (simp add: cmd_keeps_def)
    moreover from this have "cmd_keeps g (?g2\<lparr>g_reg := r\<rparr>)" using cmd_keeps_trans [OF g1(2) cmd_keeps_trans [OF k2]] by blast
    ultimately show ?thesis using g1(1) by (simp add: Let_def)
  qed
  then show ?thesis using assms(1) by (auto simp: cmd_service_scale_def Let_def not_less split: prod.splits option.splits intro!: *)
qed

lemma cmd_config_safe: "gw_inv g \<Longrightarrow> cmd_safe g (cmd_config_set env g save cap)" "gw_inv g \<Longrightarrow> cmd_safe g (cmd_config_get env g save cap)"
proof -
  assume inv: "gw_inv g"
  have "cmd_keeps g (g\<lparr>g_reg := r, g_app_name := a\<rparr>)" for r a using inv by (simp add: cmd_keeps_def gw_inv_def)
  then show "cmd_safe g (cmd_config_set env g save cap)" using inv unfolding cmd_config_set_def
    by (auto simp: Let_def split: prod.splits option.splits bool.splits dest!: reg_write_keeps)
  show "cmd_safe g (cmd_config_get env g save cap)" using inv by (simp add: cmd_config_get_def split: option.splits)
qed

lemma list_cmd_safe:
  assumes "gw_inv g" "\<forall>r \<in> set rs. length (f r) < slack" "slack \<le> cap" "4 < cap"
  shows "cmd_safe g (map_option (\<lambda>out. (out, g)) (list_reply cap slack f (take n rs)))"
proof -
  have "length (f r) < slack" if "r \<in> set (take n rs)" for r using in_set_takeD [OF that] assms(2) by blast
  from list_reply_fits [of "take n rs" f slack cap, OF this assms(3,4)] show ?thesis using assms(1) by auto
qed

lemma cmd_okD:
  assumes "cmd_ok env g cmdline cap" "strtok cmdline = (Some cmd, save)"
  shows "160 \<le> cap"
    and "cmd = ''service-add'' \<Longrightarrow> g_ctrls g (ch_ptr (ge_spawn env (length (g_services g)) 0)) = None"
    and "cmd = ''service-rm'' \<Longrightarrow> fst (strtok save) = Some name \<Longrightarrow> find_service g name = Some i \<Longrightarrow> unawaited g i"
    and "cmd = ''service-scale'' \<Longrightarrow> fst (strtok save) = Some name \<Longrightarrow> find_service g name = Some i \<Longrightarrow> unawaited g i"
    and "cmd = ''service-list'' \<Longrightarrow> \<forall>r \<in> set (ge_services env (g_reg g)). length (service_row_json r) < 128"
    and "cmd = ''route-list'' \<Longrightarrow> \<forall>r \<in> set (ge_routes env (g_reg g)). length (route_row_json r) < 160"
  using assms by (simp_all add: cmd_ok_def)

lemma cmd_safe_if: "(P \<Longrightarrow> cmd_safe g a) \<Longrightarrow> (\<not> P \<Longrightarrow> cmd_safe g b) \<Longrightarrow> cmd_safe g (if P then a else b)"
  by simp

lemma exec_control_safe:
  assumes "gw_inv g" "cmd_ok env g cmdline cap"
  shows "cmd_safe g (exec_control_command env g cmdline cap)"
proof (cases "strtok cmdline")
  case (Pair tok save)
  show ?thesis
  proof (cases tok)
    case (Some cmd)
    note c = Pair [unfolded Some] and ok = cmd_okD [OF assms(2) Pair [unfolded Some]]
    have cap: "128 \<le> cap" "4 < cap" using ok(1) by simp_all
    have keep: "cmd_safe g (Some (out, g))" "cmd_safe g (Some (out, g\<lparr>g_stop := True\<rparr>))" for out using assms(1) by simp_all
    show ?thesis unfolding exec_control_command_def c prod.case option.case
      by (intro cmd_safe_if keep cmd_service_add_safe [OF assms(1) ok(2)] cmd_route_add_safe [OF assms(1)] cmd_service_rm_safe [OF assms(1) ok(3)]
          cmd_service_scale_safe [OF assms(1) ok(4)] list_cmd_safe [OF assms(1) ok(5) cap] list_cmd_safe [OF assms(1) ok(6) ok(1) cap(2)] cmd_config_safe [OF assms(1)])
  qed (use Pair assms(1) in \<open>simp add: exec_control_command_def\<close>)
qed

subsection \<open>The control socket and the admin port\<close>

text \<open>The command of a control client's line, when its token is right, is safe to run.\<close>

definition line_ok :: "gw_env \<Rightarrow> gateway \<Rightarrow> string \<Rightarrow> bool" where
  "line_ok env g buf \<longleftrightarrow>
     (let line = cstr (takeWhile (\<lambda>c. c \<noteq> LF) buf); token = takeWhile (\<lambda>c. c \<noteq> CHR '' '') line
      in token = g_token g \<longrightarrow> cmd_ok env g (drop (length token + 1) line) CONTROL_OUT)"

definition control_ok :: "gw_env \<Rightarrow> gateway \<Rightarrow> nat \<Rightarrow> bool" where
  "control_ok env g k \<longleftrightarrow> (\<exists>cc. g_cctrls g k = Some cc \<and>
     (case line_loop (cc_peer cc) (cc_buf cc) of (Line_ready, buf, _) \<Rightarrow> line_ok env g buf | _ \<Rightarrow> True))"

lemma process_control_safe:
  assumes "gw_inv g" "line_ok env g buf"
  shows "cmd_safe g (process_control env g buf)"
  using exec_control_safe [OF assms(1)] assms by (simp add: process_control_def line_ok_def Let_def)

lemma gw_inv_control [simp]: "gw_inv (g\<lparr>g_cctrls := m\<rparr>) = gw_inv g" "gw_inv (g\<lparr>g_replies := r\<rparr>) = gw_inv g"
  by (simp_all add: gw_inv_def)

lemma on_control_readable_safe:
  assumes "gw_inv g" "control_ok env g k"
  shows "inv_safe (on_control_readable env g k)"
proof -
  obtain cc where cc: "g_cctrls g k = Some cc"
    "case line_loop (cc_peer cc) (cc_buf cc) of (Line_ready, buf, _) \<Rightarrow> line_ok env g buf | _ \<Rightarrow> True"
    using assms(2) unfolding control_ok_def by (elim exE conjE) (rule that)
  obtain e buf peer where l: "line_loop (cc_peer cc) (cc_buf cc) = (e, buf, peer)" by (metis prod_cases3)
  show ?thesis
  proof (cases e)
    case Line_ready
    then have "cmd_safe g (process_control env g buf)" using process_control_safe [OF assms(1)] cc(2) l by simp
    then obtain out g1 where p: "process_control env g buf = Some (out, g1)" "gw_inv g1" "g_cctrls g1 = g_cctrls g"
      by (auto simp: cmd_safe_def cmd_keeps_def)
    then have "gw_inv (g1\<lparr>g_cctrls := (g_cctrls g)(k := None), g_replies := g_replies g1 @ [(k, out)]\<rparr>)" by (simp add: gw_inv_def)
    then show ?thesis using p cc(1) l Line_ready by (simp add: on_control_readable_def cctrl_reply_def)
  qed (use assms(1) cc(1) l in \<open>simp_all add: on_control_readable_def\<close>)
qed

text \<open>What the admin port's pages rely on: the rows and the texts fit their buffers.\<close>

definition admin_calm :: "gw_env \<Rightarrow> gateway \<Rightarrow> bool" where
  "admin_calm env g \<longleftrightarrow> list_all (\<lambda>svc. length (admin_service_json env svc) < 511) (g_services g) \<and>
     list_all row_ok (ge_routes env (g_reg g)) \<and> length (stats_json env g) < 1024 \<and> length (metrics_text env g) < 2048"

text \<open>The command an MCP request runs, if it runs one, is safe.\<close>

definition mcp_ok :: "gw_env \<Rightarrow> gateway \<Rightarrow> ntc_slice \<Rightarrow> bool" where
  "mcp_ok env g body \<longleftrightarrow> (\<forall>root command. ntc_json_parse (ge_round env) body = Some root \<longrightarrow>
     tool_command (ntc_json_str (get_opt (ntc_json_get root ''params'') ''name'')) (get_opt (ntc_json_get root ''params'') ''arguments'') = Inr command \<longrightarrow>
     cmd_ok env g (snprintf 1024 command) 8192)"

definition admin_ok :: "gw_env \<Rightarrow> tls_event \<Rightarrow> gateway \<Rightarrow> conn \<Rightarrow> bool" where
  "admin_ok env te g x \<longleftrightarrow> admin_calm env g \<and>
     (\<forall>req n. ntc_http_parse_request (Some (read_buf te x)) = NTC_PARSE_OK req n \<longrightarrow> mcp_ok env g (rq_body req))"

lemma mcp_handle_safe:
  assumes "gw_inv g" "mcp_ok env g body"
  shows "cmd_safe g (ntc_mcp_handle (ge_round env) cast mem body (incore_mcp_exec env) g n)"
proof -
  have call: "cmd_safe g (map_option (\<lambda>(out, s1). (snprintf n out, s1)) (handle_tool_call cast i (ntc_json_get root ''params'') (incore_mcp_exec env) g))"
    if root: "ntc_json_parse (ge_round env) body = Some root" for i root
  proof (cases "tool_command (ntc_json_str (get_opt (ntc_json_get root ''params'') ''name'')) (get_opt (ntc_json_get root ''params'') ''arguments'')")
    case (Inr command)
    then have "cmd_ok env g (snprintf 1024 command) 8192" using assms(2) root unfolding mcp_ok_def by blast
    from exec_control_safe [OF assms(1) this] obtain out g1 where "incore_mcp_exec env g command 8192 = Some (out, g1)" "cmd_keeps g g1"
      by (auto simp: cmd_safe_def incore_mcp_exec_def)
    then show ?thesis using Inr by (simp add: handle_tool_call_def Let_def)
  qed (simp add: handle_tool_call_def assms(1))
  have keep: "cmd_safe g (Some (out, g))" for out using assms(1) by simp
  show ?thesis
  proof (cases "\<exists>ms. ntc_json_parse (ge_round env) body = Some (NTC_JSON_OBJ ms)")
    case True
    then obtain ms where ms: "ntc_json_parse (ge_round env) body = Some (NTC_JSON_OBJ ms)" by blast
    show ?thesis unfolding ntc_mcp_handle_def ms option.case ntc_json.case Let_def by (intro cmd_safe_if keep call [OF ms])
  qed (auto simp: ntc_mcp_handle_def assms(1) split: option.splits ntc_json.splits)
qed

lemma route_row_length: "row_ok r \<Longrightarrow> length (route_row_json r) < 511"
  by (simp add: row_ok_def route_row_json_def)

lemma handle_admin_safe:
  assumes "gw_inv g" "g_conns g c = Some x" "admin_calm env g" "mcp_ok env g (rq_body req)"
  shows "req_safe c (handle_admin env g c req)"
proof -
  note resp = req_safe_answer(2) [OF assms(1,2)]
  have mcp: "req_safe c (admin_mcp env g c req)"
  proof -
    obtain out g1 where m: "ntc_mcp_handle (ge_round env) (ge_i64 env) (ge_alloc env 0) (rq_body req) (incore_mcp_exec env) g (32 * 1024) = Some (out, g1)"
      "gw_inv g1" "g_conns g1 = g_conns g"
      using mcp_handle_safe [OF assms(1,4), of "ge_i64 env" "ge_alloc env 0" "32 * 1024"] unfolding cmd_safe_def cmd_keeps_def by (elim exE conjE) (rule that)
    have "req_safe c (send_resp env g1 c st ct b)" for st ct b using req_safe_answer(2) [OF m(2)] m(3) assms(2) by simp
    then show ?thesis using resp m(1) by (simp add: admin_mcp_def)
  qed
  have svcs: "\<exists>b. admin_list (admin_service_json env) (g_services g) = Some b"
    by (rule admin_list_fits) (use assms(3) in \<open>auto simp: admin_calm_def list_all_iff\<close>)
  have rts: "\<exists>b. admin_list route_row_json (take 256 (ge_routes env (g_reg g))) = Some b"
    by (rule admin_list_fits, rule route_row_length) (use assms(3) in_set_takeD in \<open>fastforce simp: admin_calm_def list_all_iff\<close>)
  have texts: "printf_body 1024 (stats_json env g) = Some (stats_json env g)" "printf_body 2048 (metrics_text env g) = Some (metrics_text env g)"
    using assms(3) by (simp_all add: admin_calm_def printf_body_def)
  show ?thesis using resp mcp svcs rts texts unfolding handle_admin_def Let_def by (elim exE) simp
qed

text \<open>The conditions do not depend on what a connection holds.\<close>

lemma unawaited_mono:
  assumes "\<And>d. map_option core (g_conns g' d) = map_option core (g_conns g d)" "g_ctrls g' = g_ctrls g" "unawaited g i"
  shows "unawaited g' i"
  unfolding unawaited_def
proof (intro allI impI)
  fix d y t ct assume y: "g_conns g' d = Some y" "c_inflight y" "c_wait_ctrl y = Some t" "g_ctrls g' t = Some ct"
  then obtain x where x: "g_conns g d = Some x" "core x = core y" using assms(1) [of d] by (cases "g_conns g d") auto
  then show "ct_svc ct \<noteq> i" using unawaitedD [OF assms(3) x(1), of t ct] core_eq [OF x(2)] y assms(2) by simp
qed

lemma unawaited_conn:
  assumes "g_conns g c = Some x" "keeps x x'"
  shows "unawaited (set_conn g c x') i = unawaited g i"
proof -
  have "map_option core (g_conns (set_conn g c x') d) = map_option core (g_conns g d)" for d using assms by (simp add: keeps_def)
  then show ?thesis using unawaited_mono [of "set_conn g c x'" g i] unawaited_mono [of g "set_conn g c x'" i] by auto
qed

lemma find_service_conn [simp]: "find_service (set_conn g c x') name = find_service g name"
  by (simp add: find_service_def)

lemma ok_conn:
  assumes "g_conns g c = Some x" "keeps x x'"
  shows "cmd_ok env (set_conn g c x') cmdline cap = cmd_ok env g cmdline cap" "mcp_ok env (set_conn g c x') body = mcp_ok env g body"
    "admin_calm env (set_conn g c x') = admin_calm env g"
proof -
  show cmd: "cmd_ok env (set_conn g c x') cmdline cap = cmd_ok env g cmdline cap" for cmdline cap
    using unawaited_conn [OF assms] by (simp add: cmd_ok_def cong: if_cong prod.case_cong option.case_cong)
  show "mcp_ok env (set_conn g c x') body = mcp_ok env g body" by (simp only: mcp_ok_def cmd)
  show "admin_calm env (set_conn g c x') = admin_calm env g" by (simp add: admin_calm_def stats_json_def metrics_text_def)
qed

lemma admin_serves:
  assumes "gw_inv g" "g_conns g c = Some x" "admin_ok env te g x"
  shows "serves env g c x (read_buf te x)"
  unfolding serves_def
proof (intro allI impI)
  fix x' req n assume a: "c_is_admin x'" "keeps x x'" "ntc_http_parse_request (Some (read_buf te x)) = NTC_PARSE_OK req n"
  let ?y = "x'\<lparr>c_accept_gzip := slice_has (ntc_http_header req ''accept-encoding'') ''gzip''\<rparr>"
  have y: "keeps x ?y" using a(2) by (simp add: keeps_def)
  have calm: "admin_calm env g" and mcp: "mcp_ok env g (rq_body req)" using assms(3) a(3) unfolding admin_ok_def by blast+
  have "gw_inv (set_conn g c ?y)" by (rule quiet_inv [OF assms(1) quiet_set_conn [OF assms(2) y]])
  from handle_admin_safe [OF this] have "req_safe c (handle_admin env (set_conn g c ?y) c req)"
    using calm mcp ok_conn(2,3) [OF assms(2) y] by simp
  then show "req_safe c (serve_request env (set_conn g c x') c req)" using a(1) by (simp add: serve_request_def Let_def)
qed

subsection \<open>Events\<close>

text \<open>
  An event may be handled: what it names is alive, new objects have new addresses, and the
  conditions of the request handlers and of the commands hold.
\<close>

fun event_ok :: "gw_env \<Rightarrow> gateway \<Rightarrow> event \<Rightarrow> bool" where
  "event_ok env g (Ev_listen as) = fresh_accepts g as"
| "event_ok env g (Ev_admin as) = fresh_accepts g as"
| "event_ok env g (Ev_tls as) = fresh_accepts g as"
| "event_ok env g (Ev_control as) = True"
| "event_ok env g (Ev_ready (U_conn c te) rd wr) =
     (case g_conns g c of None \<Rightarrow> False | Some x \<Rightarrow> calm env g \<and> (c_is_admin x \<longrightarrow> admin_ok env te g x))"
| "event_ok env g (Ev_ready (U_ctrl t) rd wr) = (g_ctrls g t \<noteq> None)"
| "event_ok env g (Ev_ready (U_control k) rd wr) = (if rd then control_ok env g k else g_cctrls g k \<noteq> None)"

lemma handle_event_safe:
  assumes "gw_inv g" "event_ok env g ev"
  shows "inv_safe (handle_event env g ev)"
  using assms
proof (induction env g ev rule: handle_event.induct)
  case (5 env g c te rd wr)
  then obtain x where "g_conns g c = Some x" "calm env g" "c_is_admin x \<longrightarrow> admin_ok env te g x" by (auto split: option.splits)
  then show ?case using conn_event_safe [OF 5(1), of c x env te] admin_serves [OF 5(1)] by simp
next
  case (6 env g t rd wr)
  then show ?case using ctrl_event_safe by auto
next
  case (7 env g k rd wr)
  then show ?case using on_control_readable_safe by auto
qed (simp_all add: accept_conns_inv accept_control_inv)

definition tick_ok :: "gw_env \<Rightarrow> gateway \<Rightarrow> bool" where
  "tick_ok env g \<longleftrightarrow> (case dev_tick env g of None \<Rightarrow> False | Some g1 \<Rightarrow> spawn_fresh env g1 0 0)"

lemma gw_tick_safe:
  assumes "gw_inv g" "tick_ok env g"
  shows "inv_safe (gw_tick env g)"
proof -
  obtain g1 where g1: "dev_tick env g = Some g1" "gw_inv g1" "spawn_fresh env g1 0 0"
    using dev_tick_safe [OF assms(1), of env] assms(2) by (auto simp: inv_safe_def tick_ok_def)
  have "gw_inv (sweep_sessions env (supervise env g1))"
    using supervise_inv [OF g1(2,3)] by (simp add: sweep_sessions_def sess_write_def gw_inv_def)
  then show ?thesis using g1(1) by (simp add: gw_tick_def)
qed

subsection \<open>Start-up\<close>

lemma router_step_routes:
  "router_step ok r m p h = Inr r' \<Longrightarrow> set (map rt_handler (routes r')) \<subseteq> insert h (set (map rt_handler (routes r)))"
  by (auto simp: router_step_def ntc_router_add_def Let_def split: prod.splits option.splits ntc_err.splits if_splits)

lemma builtin_routes:
  assumes "ntc_builtin_register ok r = Inr r'" "routes r = []" "rt \<in> set (routes r')"
  shows "rt_handler rt \<noteq> Forward_marker"
proof -
  obtain r1 r2 where s: "router_step ok r ''GET'' ''/health'' H_health = Inr r1" "router_step ok r1 ''GET'' ''/version'' H_version = Inr r2"
    "router_step ok r2 ''GET'' ''/api/echo/:name'' H_echo = Inr r'"
    using assms(1) by (auto simp: ntc_builtin_register_def ntc_try_def split: sum.splits)
  have "set (map rt_handler (routes r1)) \<subseteq> {H_health}" using router_step_routes [OF s(1)] assms(2) by simp
  then have "set (map rt_handler (routes r2)) \<subseteq> {H_health, H_version}" using router_step_routes [OF s(2)] by blast
  then have "set (map rt_handler (routes r')) \<subseteq> {H_health, H_version, H_echo}" using router_step_routes [OF s(3)] by blast
  then show ?thesis using assms(3) by auto
qed

text \<open>Before any service is loaded: no object is alive.\<close>

definition bare :: "gateway \<Rightarrow> bool" where
  "bare g \<longleftrightarrow> g_conns g = Map.empty \<and> g_ctrls g = Map.empty \<and> g_services g = [] \<and> g_slots g = gw_slots_init \<and>
     (\<forall>rt \<in> set (routes (g_router g)). rt_handler rt \<noteq> Forward_marker)"

lemma bare_services:
  assumes "bare g" "\<And>svc. svc \<in> set svcs \<Longrightarrow> svc_shape svc \<and> sv_conns svc = replicate NTC_MAX_REPLICAS None"
  shows "gw_inv (g\<lparr>g_services := svcs\<rparr>)"
proof -
  have "svc_ok Map.empty i (svcs ! i)" if "i < length svcs" for i
    by (rule svc_okI) (use assms(2) [OF nth_mem [OF that]] in auto)
  then show ?thesis using assms(1) slots_init_inv unfolding gw_inv_def bare_def by auto
qed

lemma load_token_bare: "bare g \<Longrightarrow> bare (load_token env g)"
  by (simp add: load_token_def reg_write_def bare_def split: option.splits)

lemma configure_bare: "bare (configure be env g) = bare g"
  by (simp add: configure_def bare_def Let_def)

lemma reg_write_bare: "bare g \<Longrightarrow> bare (snd (reg_write env g rop))"
  by (simp add: reg_write_def bare_def)

lemma seed_bare:
  assumes "bare g"
  shows "bare (seed_registry be env g)"
proof -
  have fold: "bare (foldl (\<lambda>h (m, p). snd (reg_write env h (Reg_add_route m p s))) h rs)" if "bare h" for s h rs
    using that by (induction rs arbitrary: h) (auto simp: reg_write_bare)
  have "bare h" if "reg_write env g rop = (ok, h)" for rop ok h using reg_write_bare [OF assms, of env rop] that by simp
  then show ?thesis using assms fold by (auto simp: seed_registry_def split: option.splits prod.splits bool.splits)
qed

lemma load_service_shape:
  "svc_shape (load_service be env reg row)" "sv_conns (load_service be env reg row) = replicate NTC_MAX_REPLICAS None"
  by (auto simp: load_service_def zero_service_def svc_shape_def replicas_of_def Let_def NTC_BACKOFF_MAX_def NTC_MAX_REPLICAS_def
      split: option.splits)

lemma load_route_keeps: "gw_inv g \<Longrightarrow> cmd_keeps g (load_route env g row) \<and> g_ctrls (load_route env g row) = g_ctrls g"
proof -
  assume inv: "gw_inv g"
  show ?thesis
  proof (cases "find_service g (rr_service row)")
    case (Some i)
    then have "i < length (g_services g)" using find_service_Some by blast
    then show ?thesis using Some inv router_add_inv [OF inv] unfolding load_route_def
      by (auto split: prod.splits option.splits)
  qed (simp add: load_route_def inv)
qed

lemma load_routes_keep:
  "gw_inv g \<Longrightarrow> gw_inv (foldl (load_route env) g rows) \<and> g_ctrls (foldl (load_route env) g rows) = g_ctrls g"
proof (induction rows arbitrary: g)
  case (Cons r rows)
  have "gw_inv (load_route env g r)" "g_ctrls (load_route env g r) = g_ctrls g" using load_route_keeps [OF Cons.prems] by (simp_all add: cmd_keeps_def)
  then show ?case using Cons.IH by simp
qed simp

lemma load_registry_inv:
  assumes "bare g"
  shows "gw_inv (snd (load_registry be env g))" "g_ctrls (snd (load_registry be env g)) = Map.empty"
proof -
  have b: "bare (seed_registry be env g)" by (rule seed_bare [OF assms])
  have svcs: "gw_inv ((seed_registry be env g)\<lparr>g_services := map (load_service be env reg) rows\<rparr>)" for reg rows
    by (rule bare_services [OF b]) (auto simp: load_service_shape)
  have empty: "gw_inv h \<and> g_ctrls h = Map.empty" if "bare h" for h
  proof -
    have "h\<lparr>g_services := []\<rparr> = h" using that by (cases h) (simp add: bare_def)
    then show ?thesis using bare_services [OF that, of "[]"] that by (simp add: bare_def)
  qed
  note r = load_routes_keep [OF svcs]
  show "gw_inv (snd (load_registry be env g))" "g_ctrls (snd (load_registry be env g)) = Map.empty"
    using empty [OF assms] empty [OF b] svcs r by (simp_all add: load_registry_def Let_def)
qed

lemma spawn_replicas_inv:
  assumes "sup_inv env ns i 0 g" "i < length ns"
  shows "sup_inv env ns (Suc i) 0 (spawn_replicas env g i)"
proof -
  have "map svc_n (g_services g) = ns" using assms(1) by (simp add: sup_inv_def)
  then have n: "svc_n (g_services g ! i) = ns ! i" using assms(2) by auto
  have "sup_inv env ns i k (foldl (\<lambda>h s. snd (spawn_service env h i s)) g [0..<k])" if "k \<le> ns ! i" for k
    using that by (induction k) (use assms spawn_sup_inv in auto)
  from sup_inv_mono [OF this [OF order_refl], of "Suc i" 0] show ?thesis by (simp add: spawn_replicas_def n)
qed

lemma spawn_all_inv:
  assumes "gw_inv g" "spawn_fresh env g 0 0"
  shows "gw_inv (spawn_all env g)"
proof -
  let ?ns = "map svc_n (g_services g)"
  have "sup_inv env ?ns k 0 (foldl (spawn_replicas env) g [0..<k])" if "k \<le> length (g_services g)" for k
    using that
  proof (induction k)
    case (Suc k)
    then show ?case using spawn_replicas_inv [of env ?ns k "foldl (spawn_replicas env) g [0..<k]"] by simp
  qed (use assms in \<open>simp add: sup_inv_def\<close>)
  from this [OF order_refl] show ?thesis by (simp add: spawn_all_def sup_inv_def)
qed

text \<open>The addresses of the first processes' objects are distinct.\<close>

definition boot_ok :: "gw_env \<Rightarrow> bool" where
  "boot_ok env \<longleftrightarrow> (\<forall>j k. \<forall>r < NTC_MAX_REPLICAS. \<forall>q < NTC_MAX_REPLICAS.
     ch_ptr (ge_spawn env j r) = ch_ptr (ge_spawn env k q) \<longrightarrow> j = k \<and> r = q)"

lemma gw_bootE:
  assumes "gw_boot be env dev = Inr g"
  obtains h where "g = spawn_all env (snd (load_registry be env h))" "bare h"
proof -
  obtain r0 r where r: "ntc_router_create (bo_alloc be) = Inr r0" "ntc_builtin_register (bo_alloc be) r0 = Inr r"
    and g: "g = spawn_all env (snd (load_registry be env (configure be env (load_token env (zero_gateway env dev r)))))"
    using assms(1) by (auto simp: gw_boot_def split: sum.splits if_splits)
  have "routes r0 = []" using r(1) by (auto simp: ntc_router_create_def split: if_splits)
  from builtin_routes [OF r(2) this] have "bare (zero_gateway env dev r)" by (simp add: bare_def zero_gateway_def)
  then have "bare (configure be env (load_token env (zero_gateway env dev r)))" by (simp add: configure_bare load_token_bare)
  with g show ?thesis by (rule that)
qed

lemma gw_boot_inv:
  assumes "gw_boot be env dev = Inr g" "boot_ok env"
  shows "gw_inv g"
  using assms(1)
proof (rule gw_bootE)
  fix h assume g: "g = spawn_all env (snd (load_registry be env h))" and "bare h"
  note l = load_registry_inv [OF \<open>bare h\<close>]
  show "gw_inv g" unfolding g
    by (rule spawn_all_inv [OF l(1)]) (unfold spawn_fresh_def l(2), rule conjI, simp, rule assms(2) [unfolded boot_ok_def])
qed

subsection \<open>Runs\<close>

text \<open>
  A step handles one event or does the periodic work. The kernel's answers are in the
  environment, which may be another one in each step.
\<close>

inductive gw_step :: "gateway \<Rightarrow> gateway \<Rightarrow> bool" where
  handle: "event_ok env g ev \<Longrightarrow> handle_event env g ev = Some g' \<Longrightarrow> gw_step g g'"
| tick: "tick_ok env g \<Longrightarrow> gw_tick env g = Some g' \<Longrightarrow> gw_step g g'"

inductive reachable :: "gateway \<Rightarrow> bool" where
  boot: "gw_boot be env dev = Inr g \<Longrightarrow> boot_ok env \<Longrightarrow> reachable g"
| step: "reachable g \<Longrightarrow> gw_step g g' \<Longrightarrow> reachable g'"

inductive_cases gw_stepE: "gw_step g g'"

lemma gw_step_inv: "gw_step g g' \<Longrightarrow> gw_inv g \<Longrightarrow> gw_inv g'"
  using handle_event_safe gw_tick_safe by (fastforce elim: gw_stepE simp: inv_safe_def)

lemma reachable_inv: "reachable g \<Longrightarrow> gw_inv g"
  by (induction rule: reachable.induct) (auto intro: gw_boot_inv gw_step_inv)

lemma load_routes_conns: "gw_inv g \<Longrightarrow> g_conns (foldl (load_route env) g rows) = g_conns g"
proof (induction rows arbitrary: g)
  case (Cons r rows)
  then show ?case using load_route_keeps [OF Cons.prems, of env r] by (simp add: cmd_keeps_def)
qed simp

lemma load_registry_conns:
  assumes "bare g"
  shows "g_conns (snd (load_registry be env g)) = Map.empty"
proof -
  have b: "bare (seed_registry be env g)" by (rule seed_bare [OF assms])
  have svcs: "gw_inv ((seed_registry be env g)\<lparr>g_services := map (load_service be env reg) rows\<rparr>)" for reg rows
    by (rule bare_services [OF b]) (auto simp: load_service_shape)
  show ?thesis using assms b load_routes_conns [OF svcs] by (simp add: load_registry_def Let_def bare_def)
qed

lemma spawn_all_conns: "g_conns (spawn_all env g) = g_conns g"
proof -
  have "g_conns (foldl (\<lambda>h s. snd (spawn_service env h i s)) h ss) = g_conns h" for i h ss
    by (induction ss arbitrary: h) (simp_all add: spawn_conns)
  then have "g_conns (spawn_replicas env h i) = g_conns h" for h i by (simp add: spawn_replicas_def)
  then have "g_conns (foldl (spawn_replicas env) h is) = g_conns h" for h "is" by (induction "is" arbitrary: h) simp_all
  then show ?thesis by (simp add: spawn_all_def)
qed

lemma gw_boot_conns: "gw_boot be env dev = Inr g \<Longrightarrow> g_conns g = Map.empty"
  by (elim gw_bootE) (simp add: spawn_all_conns load_registry_conns)

definition sample_gateway :: gateway where
  "sample_gateway = projr (gw_boot sample_boot sample_gw_env None)"

lemma sample_boot_ok: "boot_ok sample_gw_env"
proof -
  have "j = k \<and> r = q" if "r < 8" "q < 8" "8 * j + r = 8 * k + q" for j k r q :: nat using that by presburger
  then show ?thesis by (auto simp: boot_ok_def sample_gw_env_def sample_child_def NTC_MAX_REPLICAS_def)
qed

lemma sample_booted: "gw_boot sample_boot sample_gw_env None = Inr sample_gateway"
proof -
  have "\<not> isl (ntc_builtin_register True \<lparr>routes = [], rcap = 0\<rparr>)" by code_simp
  then obtain r where "ntc_builtin_register True \<lparr>routes = [], rcap = 0\<rparr> = Inr r" by (cases "ntc_builtin_register True \<lparr>routes = [], rcap = 0\<rparr>") auto
  then show ?thesis by (simp add: sample_gateway_def gw_boot_def sample_boot_def ntc_router_create_def)
qed

definition sample_accept :: accepted where
  "sample_accept = \<lparr>ac_ptr = 7, ac_ip = ''10.0.0.1'', ac_ok = True, ac_tls = [], ac_sock = [Sent 100000], ac_peer = []\<rparr>"



end
