(* ===== verification/Controller.thy ===== *)
theory Controller
  imports Dispatch
begin

text \<open>
  The controller SDK (\<open>src/common/controller_sdk.c\<close>, \<open>include/ntc/controller.h\<close>): the serve loop of a
  controller process, the calls its handlers make, and the multipart parser.

  The inherited socket is data: \<open>fd_in\<close> holds the results of the coming \<open>read\<close> calls, \<open>fd_sock\<close> those of
  the coming \<open>write\<close> calls (when they run out, a write takes everything), \<open>fd_out\<close> what was written.
  Handlers are code of the controller's author: an atomic handler is a function from the request and the
  default response to its result, a streaming or WebSocket handler is a tree of SDK calls that branches on
  their return codes. A type variable stands for the author's state. A jump through a
  null function pointer is \<open>None\<close>.
\<close>

definition NTC_CTL_MAX_PAYLOAD :: nat where "NTC_CTL_MAX_PAYLOAD = 256 * 1024"
definition HEADERS_CAP :: nat where "HEADERS_CAP = 512"

subsection \<open>Responses\<close>

record ntc_ctl_response = ntc_response +
  rs_headers :: string       \<comment> \<open>the first \<open>headers_len\<close> bytes\<close>

record ctl_env =
  ce_malloc :: "nat \<Rightarrow> bool"
  ce_arena_init :: bool
  ce_arena_alloc :: "nat \<Rightarrow> bool"

text \<open>The text is what \<open>vsnprintf\<close> prints, if it does not fail.\<close>

definition ntc_reply_json :: "ctl_env \<Rightarrow> ntc_ctl_response \<Rightarrow> int \<Rightarrow> string option \<Rightarrow> int \<times> ntc_ctl_response" where
  "ntc_reply_json env res status printed =
     (case printed of
        None \<Rightarrow> (-1, res)
      | Some s \<Rightarrow>
          if \<not> ce_arena_alloc env (length s + 1) then (-1, res)
          else (0, res\<lparr>rs_status := status, rs_content_type := ''application/json'', rs_body := s\<rparr>))"

definition ntc_res_header :: "ntc_ctl_response \<Rightarrow> string \<Rightarrow> string \<Rightarrow> int \<times> ntc_ctl_response" where
  "ntc_res_header res name value =
     (let line = name @ '': '' @ value @ CRLF; room = HEADERS_CAP - length (rs_headers res)
      in if length line \<ge> room then (-1, res) else (0, res\<lparr>rs_headers := rs_headers res @ line\<rparr>))"

definition ntc_redirect :: "ntc_ctl_response \<Rightarrow> int \<Rightarrow> string \<Rightarrow> int \<times> ntc_ctl_response" where
  "ntc_redirect res status location =
     ntc_res_header (res\<lparr>rs_status := status, rs_content_type := ''text/html; charset=utf-8'', rs_body := []\<rparr>) ''Location'' location"

definition ntc_set_cookie :: "ntc_ctl_response \<Rightarrow> string \<Rightarrow> int \<times> ntc_ctl_response" where
  "ntc_set_cookie res v = ntc_res_header res ''Set-Cookie'' v"

subsection \<open>The socket\<close>

record ctl_fd =
  fd_sock :: "send_res list"
  fd_out :: "byte list"

text \<open>\<open>read_full\<close>: the C return code, the bytes read, the results left.\<close>

fun ctl_read_full :: "nat \<Rightarrow> recv_res list \<Rightarrow> byte list \<Rightarrow> int \<times> byte list \<times> recv_res list" where
  "ctl_read_full n [] got = (if n = 0 then 1 else 0, got, [])"
| "ctl_read_full n (r # rs) got =
     (if n = 0 then (1, got, r # rs)
      else
        case r of
          Rcvd s \<Rightarrow>
            if s = [] then (0, got, rs)
            else if length s \<le> n then ctl_read_full (n - length s) rs (got @ bytes_of s)
            else (1, got @ bytes_of (take n s), Rcvd (drop n s) # rs)
        | Rcv_eof \<Rightarrow> (0, got, rs)
        | Rcv_eintr \<Rightarrow> ctl_read_full n rs got
        | _ \<Rightarrow> (-1, got, rs))"

fun ctl_write_full :: "send_res list \<Rightarrow> byte list \<Rightarrow> nat \<Rightarrow> bool \<times> nat \<times> send_res list" where
  "ctl_write_full [] buf sent = (True, length buf, [])"
| "ctl_write_full (r # rs) buf sent =
     (if sent < length buf then
        (case r of
           Sent n \<Rightarrow> if n > 0 then ctl_write_full rs buf (sent + min n (length buf - sent)) else (False, sent, rs)
         | Send_eintr \<Rightarrow> ctl_write_full rs buf sent
         | _ \<Rightarrow> (False, sent, rs))
      else (True, sent, r # rs))"

definition fd_write :: "ctl_fd \<Rightarrow> byte list \<Rightarrow> bool \<times> ctl_fd" where
  "fd_write fd buf =
     (let (ok, sent, rs) = ctl_write_full (fd_sock fd) buf 0
      in (ok, fd\<lparr>fd_sock := rs, fd_out := fd_out fd @ take sent buf\<rparr>))"

text \<open>The payload's length is a \<open>uint32_t\<close>, and so many bytes are written.\<close>

definition send_frame :: "ctl_fd \<Rightarrow> byte \<Rightarrow> u32 \<Rightarrow> byte list \<Rightarrow> int \<times> ctl_fd" where
  "send_frame fd ty rid payload =
     (let plen = (of_nat (length payload) :: u32);
          (ok, fd1) = fd_write fd (ntc_wire_write_header ty rid plen)
      in if \<not> ok then (-1, fd1)
         else if plen \<noteq> 0 then
           (let (ok2, fd2) = fd_write fd1 (take (unat plen) payload) in (if ok2 then 0 else -1, fd2))
         else (0, fd1))"

subsection \<open>Streams\<close>

record ntc_stream =
  st_rid :: u32
  st_begun :: bool
  st_ended :: bool

definition stream_begin_ctl :: "int \<Rightarrow> byte \<Rightarrow> ntc_slice \<Rightarrow> ntc_stream \<Rightarrow> ctl_fd \<Rightarrow> int \<times> ntc_stream \<times> ctl_fd" where
  "stream_begin_ctl status flags ctype st fd =
     (if st_begun st \<or> st_ended st then (-1, st, fd)
      else
        case ntc_wire_encode_response_begin status flags ctype 1024 of
          None \<Rightarrow> (-1, st, fd)
        | Some buf \<Rightarrow>
            (let (rc, fd1) = send_frame fd NTC_MSG_RESPONSE_BEGIN (st_rid st) buf
             in (rc, st\<lparr>st_begun := True\<rparr>, fd1)))"

definition ntc_stream_begin :: "int \<Rightarrow> ntc_slice \<Rightarrow> ntc_stream \<Rightarrow> ctl_fd \<Rightarrow> int \<times> ntc_stream \<times> ctl_fd" where
  "ntc_stream_begin status ctype st fd = stream_begin_ctl status NTC_STREAM_FLAG_CHUNKED ctype st fd"

definition ntc_sse_begin :: "ntc_stream \<Rightarrow> ctl_fd \<Rightarrow> int \<times> ntc_stream \<times> ctl_fd" where
  "ntc_sse_begin st fd = stream_begin_ctl 200 NTC_STREAM_FLAG_SSE ''text/event-stream'' st fd"

definition ntc_stream_write :: "string \<Rightarrow> ntc_stream \<Rightarrow> ctl_fd \<Rightarrow> int \<times> ntc_stream \<times> ctl_fd" where
  "ntc_stream_write data st fd =
     (if \<not> st_begun st \<or> st_ended st then (-1, st, fd)
      else if data = [] then (0, st, fd)
      else if length data > 0xFFFFFFFF - 4 then (-1, st, fd)
      else
        let len = (of_nat (length data) :: u32);
            (ok, fd1) = fd_write fd (ntc_wire_write_header NTC_MSG_RESPONSE_CHUNK (st_rid st) (len + 4) @ put_u32 len)
        in if \<not> ok then (-1, st, fd1)
           else let (ok2, fd2) = fd_write fd1 (bytes_of data) in (if ok2 then 0 else -1, st, fd2))"

text \<open>An SSE event; null pointers are \<open>None\<close>.\<close>

definition sse_cap :: "string \<Rightarrow> string \<Rightarrow> nat" where
  "sse_cap e d = (if e \<noteq> [] then 7 + length e + 1 else 0) + 6 + length d + 2 + 1"

definition sse_text :: "string option \<Rightarrow> string option \<Rightarrow> string" where
  "sse_text event data =
     (let e = (case event of None \<Rightarrow> [] | Some s \<Rightarrow> s); d = (case data of None \<Rightarrow> [] | Some s \<Rightarrow> s);
          cap = sse_cap e d;
          a = (if e \<noteq> [] then ''event: '' @ e @ [LF] else [])
      in snprintf cap a @ snprintf (cap - length a) (''data: '' @ d @ [LF, LF]))"

definition ntc_sse_send :: "ctl_env \<Rightarrow> string option \<Rightarrow> string option \<Rightarrow> ntc_stream \<Rightarrow> ctl_fd \<Rightarrow> int \<times> ntc_stream \<times> ctl_fd" where
  "ntc_sse_send env event data st fd =
     (if \<not> st_begun st \<or> st_ended st then (-1, st, fd)
      else if \<not> ce_malloc env (sse_cap (case event of None \<Rightarrow> [] | Some s \<Rightarrow> s) (case data of None \<Rightarrow> [] | Some s \<Rightarrow> s)) then (-1, st, fd)
      else ntc_stream_write (sse_text event data) st fd)"

definition ntc_stream_end :: "ntc_stream \<Rightarrow> ctl_fd \<Rightarrow> int \<times> ntc_stream \<times> ctl_fd" where
  "ntc_stream_end st fd =
     (if st_ended st then (0, st, fd)
      else let (rc, fd1) = send_frame fd NTC_MSG_RESPONSE_END (st_rid st) [] in (rc, st\<lparr>st_ended := True\<rparr>, fd1))"

text \<open>What a streaming handler does: SDK calls, branching on their return codes.\<close>

datatype stream_call = Begin int ntc_slice | Sse_begin | Write string | Sse_send "string option" "string option" | End

datatype 'u stream_prog = Stream_return int 'u | Stream_call stream_call "int \<Rightarrow> 'u stream_prog"

fun stream_api :: "ctl_env \<Rightarrow> stream_call \<Rightarrow> ntc_stream \<Rightarrow> ctl_fd \<Rightarrow> int \<times> ntc_stream \<times> ctl_fd" where
  "stream_api env (Begin status ctype) st fd = ntc_stream_begin status ctype st fd"
| "stream_api env Sse_begin st fd = ntc_sse_begin st fd"
| "stream_api env (Write data) st fd = ntc_stream_write data st fd"
| "stream_api env (Sse_send event data) st fd = ntc_sse_send env event data st fd"
| "stream_api env End st fd = ntc_stream_end st fd"

primrec run_stream :: "ctl_env \<Rightarrow> 'u stream_prog \<Rightarrow> ntc_stream \<Rightarrow> ctl_fd \<Rightarrow> int \<times> 'u \<times> ntc_stream \<times> ctl_fd" where
  "run_stream env (Stream_return rc u) = (\<lambda>st fd. (rc, u, st, fd))"
| "run_stream env (Stream_call call k) =
     (\<lambda>st fd. case stream_api env call st fd of (rc, st1, fd1) \<Rightarrow> run_stream env (k rc) st1 fd1)"

subsection \<open>WebSockets\<close>

definition ntc_ws_send :: "ctl_env \<Rightarrow> u32 \<Rightarrow> int \<Rightarrow> string \<Rightarrow> ctl_fd \<Rightarrow> int \<times> ctl_fd" where
  "ntc_ws_send env rid opcode data fd =
     (if length data > 0xFFFFFFFF - 16 then (-1, fd)
      else if \<not> ce_malloc env (length data + 8) then (-1, fd)
      else
        case ntc_wire_encode_ws_msg (of_int opcode) data (length data + 8) of
          None \<Rightarrow> (-1, fd)
        | Some pl \<Rightarrow> if pl \<noteq> [] then send_frame fd NTC_MSG_WS_MSG rid pl else (-1, fd))"

definition ntc_ws_send_text :: "ctl_env \<Rightarrow> u32 \<Rightarrow> string option \<Rightarrow> ctl_fd \<Rightarrow> int \<times> ctl_fd" where
  "ntc_ws_send_text env rid s fd = ntc_ws_send env rid 1 (case s of None \<Rightarrow> [] | Some t \<Rightarrow> t) fd"

definition ntc_ws_close :: "u32 \<Rightarrow> ctl_fd \<Rightarrow> int \<times> ctl_fd" where
  "ntc_ws_close rid fd =
     (case ntc_wire_encode_ws_close 1000 2 of
        None \<Rightarrow> (-1, fd)
      | Some cb \<Rightarrow> send_frame fd NTC_MSG_WS_CLOSE rid cb)"

datatype ws_call = Ws_send int string | Ws_send_text "string option" | Ws_close

datatype 'u ws_prog = Ws_return 'u | Ws_call ws_call "int \<Rightarrow> 'u ws_prog"

fun ws_api :: "ctl_env \<Rightarrow> u32 \<Rightarrow> ws_call \<Rightarrow> ctl_fd \<Rightarrow> int \<times> ctl_fd" where
  "ws_api env rid (Ws_send opcode data) fd = ntc_ws_send env rid opcode data fd"
| "ws_api env rid (Ws_send_text s) fd = ntc_ws_send_text env rid s fd"
| "ws_api env rid Ws_close fd = ntc_ws_close rid fd"

primrec run_ws :: "ctl_env \<Rightarrow> u32 \<Rightarrow> 'u ws_prog \<Rightarrow> ctl_fd \<Rightarrow> 'u \<times> ctl_fd" where
  "run_ws env rid (Ws_return u) = (\<lambda>fd. (u, fd))"
| "run_ws env rid (Ws_call call k) = (\<lambda>fd. case ws_api env rid call fd of (rc, fd1) \<Rightarrow> run_ws env rid (k rc) fd1)"

subsection \<open>The serve loop\<close>

record 'u ntc_controller =
  ctl_name :: "string option"
  ctl_handle :: "('u \<Rightarrow> ntc_request \<Rightarrow> ntc_ctl_response \<Rightarrow> int \<times> ntc_ctl_response \<times> 'u) option"
  ctl_stream :: "('u \<Rightarrow> ntc_request \<Rightarrow> 'u stream_prog) option"
  ctl_ws_open :: "('u \<Rightarrow> ntc_request \<Rightarrow> 'u ws_prog) option"
  ctl_ws_message :: "('u \<Rightarrow> int \<Rightarrow> string \<Rightarrow> 'u ws_prog) option"
  ctl_ws_close :: "('u \<Rightarrow> 'u ws_prog) option"

text \<open>A one-shot response as a frame, if the arena has room for it.\<close>

definition send_response :: "ctl_env \<Rightarrow> u32 \<Rightarrow> ntc_ctl_response \<Rightarrow> nat \<Rightarrow> ctl_fd \<Rightarrow> ctl_fd" where
  "send_response env rid res cap fd =
     (if \<not> ce_arena_alloc env cap then fd
      else
        case (if rs_headers res \<noteq> []
              then ntc_wire_encode_response_ex (rs_status res) (rs_content_type res) (rs_body res) (rs_headers res) cap
              else ntc_wire_encode_response (rs_status res) (rs_content_type res) (rs_body res) cap) of
          None \<Rightarrow> fd
        | Some pl \<Rightarrow> if pl \<noteq> [] then snd (send_frame fd NTC_MSG_RESPONSE rid pl) else fd)"

definition serve_stream :: "ctl_env \<Rightarrow> ('u \<Rightarrow> ntc_request \<Rightarrow> 'u stream_prog) \<Rightarrow> 'u \<Rightarrow> u32 \<Rightarrow> byte list \<Rightarrow> ctl_fd \<Rightarrow> 'u \<times> ctl_fd" where
  "serve_stream env h u rid payload fd =
     (let st0 = \<lparr>st_rid = rid, st_begun = False, st_ended = False\<rparr>;
          req = ntc_wire_decode_request payload;
          (hrc, u1, st, fd1) = (case req of Some r \<Rightarrow> run_stream env (h u r) st0 fd | None \<Rightarrow> (0, u, st0, fd))
      in if st_begun st then
           (u1, if \<not> st_ended st then snd (snd (ntc_stream_end st fd1)) else fd1)
         else
           let res = \<lparr>rs_status = (if req \<noteq> None then (if hrc \<noteq> 0 then 500 else 204) else 400), rs_content_type = ''text/plain'',
                      rs_body = (if req \<noteq> None then (if hrc \<noteq> 0 then ''stream error'' else []) else ''bad request''), rs_headers = []\<rparr>
           in (u1, send_response env rid res (length (rs_body res) + length (rs_content_type res) + 64) fd1))"

definition default_response :: ntc_ctl_response where
  "default_response = \<lparr>rs_status = 200, rs_content_type = ''application/json'', rs_body = [], rs_headers = []\<rparr>"

definition atomic_response ::
  "('u \<Rightarrow> ntc_request \<Rightarrow> ntc_ctl_response \<Rightarrow> int \<times> ntc_ctl_response \<times> 'u) option \<Rightarrow> 'u \<Rightarrow> byte list \<Rightarrow> (ntc_ctl_response \<times> 'u) option" where
  "atomic_response h u payload =
     (case ntc_wire_decode_request payload of
        None \<Rightarrow> Some (default_response\<lparr>rs_status := 400, rs_content_type := ''text/plain'', rs_body := ''bad request''\<rparr>, u)
      | Some req \<Rightarrow>
          (case h of
             None \<Rightarrow> None
           | Some f \<Rightarrow>
               let (rc, res, u1) = f u req default_response
               in if rc \<noteq> 0
                  then Some (res\<lparr>rs_status := 500, rs_content_type := ''application/json'',
                                 rs_body := ''{'' @ jq ''error'' @ '':'' @ jq ''controller error'' @ ''}''\<rparr>, u1)
                  else Some (res, u1)))"

definition serve_atomic ::
  "ctl_env \<Rightarrow> ('u \<Rightarrow> ntc_request \<Rightarrow> ntc_ctl_response \<Rightarrow> int \<times> ntc_ctl_response \<times> 'u) option \<Rightarrow> 'u \<Rightarrow> u32 \<Rightarrow> byte list \<Rightarrow> ctl_fd \<Rightarrow>
   ('u \<times> ctl_fd) option" where
  "serve_atomic env h u rid payload fd =
     (case atomic_response h u payload of
        None \<Rightarrow> None
      | Some (res, u1) \<Rightarrow>
          Some (u1, send_response env rid res
            (length (rs_body res) + length (rs_content_type res) + length (rs_headers res) + 80) fd))"

text \<open>One frame: the flag says whether the loop goes on.\<close>

definition ctl_frame :: "ctl_env \<Rightarrow> 'u ntc_controller \<Rightarrow> 'u \<Rightarrow> ntc_wire_header \<Rightarrow> byte list \<Rightarrow> ctl_fd \<Rightarrow> (bool \<times> 'u \<times> ctl_fd) option" where
  "ctl_frame env ctl u h payload fd =
     (let ty = wh_type h; rid = wh_request_id h
      in if ty = NTC_MSG_WELCOME then Some (True, u, fd)
         else if ty = NTC_MSG_PING then Some (True, u, snd (send_frame fd NTC_MSG_PONG rid []))
         else if ty = NTC_MSG_WS_OPEN then
           (case (ctl_ws_open ctl, ntc_wire_decode_request payload) of
              (Some f, Some req) \<Rightarrow> (let (u1, fd1) = run_ws env rid (f u req) fd in Some (True, u1, fd1))
            | _ \<Rightarrow> Some (True, u, fd))
         else if ty = NTC_MSG_WS_MSG then
           (case (ctl_ws_message ctl, ntc_wire_decode_ws_msg payload) of
              (Some f, Some (opcode, data)) \<Rightarrow> (let (u1, fd1) = run_ws env rid (f u (uint opcode) data) fd in Some (True, u1, fd1))
            | _ \<Rightarrow> Some (True, u, fd))
         else if ty = NTC_MSG_WS_CLOSE then
           (case ctl_ws_close ctl of
              Some f \<Rightarrow> (let (u1, fd1) = run_ws env rid (f u) fd in Some (True, u1, fd1))
            | None \<Rightarrow> Some (True, u, fd))
         else if ty \<noteq> NTC_MSG_REQUEST then Some (True, u, fd)
         else if \<not> ce_arena_init env then Some (False, u, fd)
         else
           case ctl_stream ctl of
             Some f \<Rightarrow> (let (u1, fd1) = serve_stream env f u rid payload fd in Some (True, u1, fd1))
           | None \<Rightarrow> map_option (\<lambda>(u1, fd1). (True, u1, fd1)) (serve_atomic env (ctl_handle ctl) u rid payload fd))"

lemma ctl_read_full_size:
  "ctl_read_full n rs got = (rc, bs, rs') \<Longrightarrow> recv_size rs' \<le> recv_size rs \<and> (rc > 0 \<longrightarrow> recv_size rs' + n = recv_size rs)"
proof (induction n rs got rule: ctl_read_full.induct)
  case (2 n r rs got)
  then show ?case
  proof (cases "n = 0")
    case False
    with 2 show ?thesis by (cases r) (auto split: if_splits)
  qed auto
qed (auto split: if_splits)

lemma ctl_read_full_less: "(rc, bs, rs') = ctl_read_full n rs got \<Longrightarrow> \<not> rc \<le> 0 \<Longrightarrow> recv_size rs = recv_size rs' + n"
  using ctl_read_full_size [of n rs got rc bs rs'] by simp

text \<open>The loop: the exit code, the author's state and the socket. Every turn reads a header, so it ends.\<close>

function ctl_loop :: "ctl_env \<Rightarrow> 'u ntc_controller \<Rightarrow> 'u \<Rightarrow> recv_res list \<Rightarrow> ctl_fd \<Rightarrow> (int \<times> 'u \<times> ctl_fd) option" where
  "ctl_loop env ctl u inp fd =
     (case ctl_read_full NTC_WIRE_HEADER_LEN inp [] of
        (r, hdr, inp1) \<Rightarrow>
          if r \<le> 0 then Some (0, u, fd)
          else
            case ntc_wire_parse_header hdr of
              None \<Rightarrow> Some (0, u, fd)
            | Some h \<Rightarrow>
                if unat (wh_length h) > NTC_CTL_MAX_PAYLOAD then Some (0, u, fd)
                else
                  case (if wh_length h \<noteq> 0 then ctl_read_full (unat (wh_length h)) inp1 [] else (1, [], inp1)) of
                    (r2, payload, inp2) \<Rightarrow>
                      if r2 \<le> 0 then Some (0, u, fd)
                      else
                        case ctl_frame env ctl u h payload fd of
                          None \<Rightarrow> None
                        | Some (go, u1, fd1) \<Rightarrow> if go then ctl_loop env ctl u1 inp2 fd1 else Some (0, u1, fd1))"
  by pat_completeness auto
termination
  by (relation "measure (\<lambda>(env, ctl, u, inp, fd). recv_size inp)")
    (auto simp: NTC_WIRE_HEADER_LEN_def split: if_splits dest!: ctl_read_full_less)

declare ctl_loop.simps [simp del, loop_simps]

definition ntc_controller_run ::
  "ctl_env \<Rightarrow> (string \<Rightarrow> string option) \<Rightarrow> 'u ntc_controller option \<Rightarrow> 'u \<Rightarrow> recv_res list \<Rightarrow> ctl_fd \<Rightarrow> (int \<times> 'u \<times> ctl_fd) option" where
  "ntc_controller_run env getenv ctl u inp fd =
     (case ctl of
        None \<Rightarrow> Some (2, u, fd)
      | Some c \<Rightarrow>
          if ctl_handle c = None \<and> ctl_stream c = None \<and> ctl_ws_open c = None \<and> ctl_ws_message c = None then Some (2, u, fd)
          else
            case getenv ''NTC_CONTROLLER_FD'' of
              None \<Rightarrow> Some (2, u, fd)
            | Some s \<Rightarrow>
                if atoi s < 0 then Some (2, u, fd)
                else
                  let name = (case ctl_name c of Some n \<Rightarrow> n | None \<Rightarrow> ''controller'');
                      (rc, fd1) = send_frame fd NTC_MSG_HELLO 0 (bytes_of name)
                  in if rc \<noteq> 0 then Some (1, u, fd1) else ctl_loop env c u inp fd1)"

subsection \<open>Multipart bodies\<close>

record ntc_multipart_part =
  mp_name :: ntc_slice
  mp_filename :: ntc_slice
  mp_content_type :: ntc_slice
  mp_data :: ntc_slice

definition ntc_multipart_boundary :: "ntc_slice \<Rightarrow> nat \<Rightarrow> string option" where
  "ntc_multipart_boundary ctype cap =
     (case memmem ctype ''boundary='' of
        None \<Rightarrow> None
      | Some i \<Rightarrow>
          let b = drop (i + 9) ctype;
              v = (if b \<noteq> [] \<and> hd b = CHR 0x22
                   then (let q = tl b in case memchr CHR 0x22 q of Some k \<Rightarrow> take k q | None \<Rightarrow> q)
                   else (case memchr CHR '';'' b of Some k \<Rightarrow> take k b | None \<Rightarrow> b))
          in if v = [] \<or> length v \<ge> cap then None else Some v)"

definition mp_quoted :: "string \<Rightarrow> string \<Rightarrow> ntc_slice" where
  "mp_quoted region key =
     (case memmem region key of
        None \<Rightarrow> []
      | Some i \<Rightarrow>
          let k = drop (i + length key) region
          in case memchr CHR 0x22 k of None \<Rightarrow> [] | Some q \<Rightarrow> take q k)"

definition mp_ctype :: "string \<Rightarrow> ntc_slice" where
  "mp_ctype region =
     (case memmem region ''Content-Type:'' of
        None \<Rightarrow> []
      | Some i \<Rightarrow>
          let ct = dropWhile (\<lambda>c. c = CHR '' '') (drop (i + 13) region)
          in case memmem ct CRLF of None \<Rightarrow> ct | Some e \<Rightarrow> take e ct)"

definition mp_part :: "string \<Rightarrow> ntc_multipart_part" where
  "mp_part block =
     (case memmem block (CRLF @ CRLF) of
        None \<Rightarrow> \<lparr>mp_name = [], mp_filename = [], mp_content_type = [], mp_data = block\<rparr>
      | Some i \<Rightarrow>
          let region = take i block
          in \<lparr>mp_name = mp_quoted region (''name='' @ [CHR 0x22]), mp_filename = mp_quoted region (''filename='' @ [CHR 0x22]),
              mp_content_type = mp_ctype region, mp_data = drop (i + 4) block\<rparr>)"

fun mp_loop :: "string \<Rightarrow> string \<Rightarrow> nat \<Rightarrow> ntc_multipart_part list" where
  "mp_loop sep cur 0 = []"
| "mp_loop sep cur (Suc room) =
     (if cur = [] then []
      else if take 2 cur = ''--'' then []
      else if take 2 cur \<noteq> CRLF then []
      else
        case memmem (drop 2 cur) sep of
          None \<Rightarrow> []
        | Some j \<Rightarrow> mp_part (take j (drop 2 cur)) # mp_loop sep (drop (j + length sep) (drop 2 cur)) room)"

definition ntc_multipart_parse :: "ntc_slice \<Rightarrow> string \<Rightarrow> int \<Rightarrow> ntc_multipart_part list option" where
  "ntc_multipart_parse body boundary m =
     (let delim = ''--'' @ boundary
      in if length delim \<ge> 260 then None
         else case memmem body delim of
                None \<Rightarrow> None
              | Some i \<Rightarrow> Some (mp_loop (CRLF @ delim) (drop (i + length delim) body) (nat m)))"

subsection \<open>The loop reads frames, however the stream is cut\<close>

text \<open>The bytes that a list of read results delivers before the peer closes.\<close>

fun arriving :: "recv_res list \<Rightarrow> byte list option" where
  "arriving [] = Some []"
| "arriving (Rcvd s # rs) = (if s = [] then None else map_option (append (bytes_of s)) (arriving rs))"
| "arriving (Rcv_eintr # rs) = arriving rs"
| "arriving (r # rs) = None"

lemma read_full_arriving:
  "arriving rs = Some bs \<Longrightarrow> n \<le> length bs \<Longrightarrow>
    \<exists>rs'. ctl_read_full n rs got = (1, got @ take n bs, rs') \<and> arriving rs' = Some (drop n bs)"
proof (induction n rs got arbitrary: bs rule: ctl_read_full.induct)
  case (2 n r rs got)
  show ?case
  proof (cases "n = 0")
    case True
    then show ?thesis using 2 by simp
  next
    case False
    show ?thesis
    proof (cases r)
      case (Rcvd s)
      then obtain t where t: "s \<noteq> []" "arriving rs = Some t" "bs = bytes_of s @ t" using 2(3) by (auto split: if_splits)
      show ?thesis
      proof (cases "length s \<le> n")
        case True
        then have "n - length s \<le> length t" using 2(4) t(3) by simp
        then show ?thesis using 2(1) [OF False Rcvd t(1) True t(2)] False Rcvd t True by (auto simp: drop_map)
      next
        case len: False
        then show ?thesis using False Rcvd t by (simp add: take_map drop_map)
      qed
    next
      case Rcv_eintr
      then show ?thesis using 2 False by simp
    qed (use 2 in simp_all)
  qed
qed simp

lemma read_full_short:
  "arriving rs = Some bs \<Longrightarrow> length bs < n \<Longrightarrow> \<exists>got' rs'. ctl_read_full n rs got = (0, got', rs')"
proof (induction n rs got arbitrary: bs rule: ctl_read_full.induct)
  case (2 n r rs got)
  then have "n \<noteq> 0" by auto
  with 2 show ?case by (cases r) (auto split: if_splits)
qed simp

text \<open>The fold of the frame handler that the loop computes.\<close>

fun serve_frames :: "ctl_env \<Rightarrow> 'u ntc_controller \<Rightarrow> 'u \<Rightarrow> (ntc_wire_header \<times> byte list) list \<Rightarrow> ctl_fd \<Rightarrow> (int \<times> 'u \<times> ctl_fd) option" where
  "serve_frames env ctl u [] fd = Some (0, u, fd)"
| "serve_frames env ctl u ((h, pl) # ms) fd =
     (case ctl_frame env ctl u h pl fd of
        None \<Rightarrow> None
      | Some (go, u1, fd1) \<Rightarrow> if go then serve_frames env ctl u1 ms fd1 else Some (0, u1, fd1))"

lemma header_length: "length (ntc_wire_write_header ty rid n) = NTC_WIRE_HEADER_LEN"
  by (simp add: ntc_wire_write_header_def NTC_WIRE_HEADER_LEN_def)

lemma parse_written:
  "ntc_wire_parse_header (ntc_wire_write_header ty rid n) =
     Some \<lparr>wh_version = NTC_WIRE_VERSION, wh_type = ty, wh_request_id = rid, wh_length = n\<rparr>"
  by (simp add: ntc_wire_parse_header_def ntc_wire_write_header_def version_ok_def NTC_WIRE_VERSION_def NTC_WIRE_VERSION_MAX_def nth_append)

lemma ctl_loop_frames:
  assumes "list_all (\<lambda>(h, pl). ok_frame (h, pl) \<and> length pl \<le> NTC_CTL_MAX_PAYLOAD) ms"
    and "arriving inp = Some (concat (map enc_frame ms) @ part)" and "length part < NTC_WIRE_HEADER_LEN"
  shows "ctl_loop env ctl u inp fd = serve_frames env ctl u ms fd"
  using assms
proof (induction ms arbitrary: u inp fd)
  case Nil
  then obtain got' rs' where "ctl_read_full NTC_WIRE_HEADER_LEN inp [] = (0, got', rs')" using read_full_short by fastforce
  then show ?case by (subst ctl_loop.simps) simp
next
  case (Cons m ms)
  obtain h pl where m: "m = (h, pl)" by fastforce
  have ok: "wh_version h = NTC_WIRE_VERSION" "unat (wh_length h) = length pl" "length pl \<le> NTC_CTL_MAX_PAYLOAD"
    using Cons.prems(1) by (auto simp: m ok_frame_def)
  let ?rest = "concat (map enc_frame ms) @ part"
  let ?hdr = "ntc_wire_write_header (wh_type h) (wh_request_id h) (wh_length h)"
  have bs: "arriving inp = Some (?hdr @ pl @ ?rest)" using Cons.prems(2) by (simp add: m enc_frame_def)
  obtain inp1 where r1: "ctl_read_full NTC_WIRE_HEADER_LEN inp [] = (1, ?hdr, inp1)" "arriving inp1 = Some (pl @ ?rest)"
    using read_full_arriving [OF bs, of NTC_WIRE_HEADER_LEN "[]"] by (auto simp: header_length)
  have ph: "ntc_wire_parse_header ?hdr = Some h" using ok(1) by (cases h) (simp add: parse_written)
  obtain inp2 where r2: "(if wh_length h \<noteq> 0 then ctl_read_full (unat (wh_length h)) inp1 [] else (1, [], inp1)) = (1, pl, inp2)"
      "arriving inp2 = Some ?rest"
  proof (cases "wh_length h = 0")
    case True
    then show thesis using ok(2) r1(2) that [of inp1] by simp
  next
    case False
    then show thesis using read_full_arriving [OF r1(2), of "length pl" "[]"] ok(2) that by auto
  qed
  have IH: "ctl_loop env ctl u' inp2 fd' = serve_frames env ctl u' ms fd'" for u' fd'
    using Cons.IH [OF _ r2(2) Cons.prems(3)] Cons.prems(1) by simp
  show ?case
    by (subst ctl_loop.simps) (use r1(1) ph ok r2(1) IH in \<open>simp add: m split: option.splits\<close>)
qed

subsection \<open>Frames written\<close>

definition wire_header :: "byte \<Rightarrow> u32 \<Rightarrow> byte list \<Rightarrow> ntc_wire_header" where
  "wire_header ty rid payload = \<lparr>wh_version = NTC_WIRE_VERSION, wh_type = ty, wh_request_id = rid, wh_length = of_nat (length payload)\<rparr>"

abbreviation wire_frame :: "byte \<Rightarrow> u32 \<Rightarrow> byte list \<Rightarrow> ntc_wire_header \<times> byte list" where
  "wire_frame ty rid payload \<equiv> (wire_header ty rid payload, payload)"

lemma wire_header_ok: "length p < 2 ^ 32 \<Longrightarrow> ok_frame (wire_header ty rid p, p)"
  by (simp add: ok_frame_def wire_header_def unat_of_nat take_bit_nat_eq_self)

lemma fd_write_all: "fd_sock fd = [] \<Longrightarrow> fd_write fd buf = (True, fd\<lparr>fd_out := fd_out fd @ buf\<rparr>)"
  by (simp add: fd_write_def)

lemma of_nat_u32_zero: "n < 2 ^ 32 \<Longrightarrow> (of_nat n :: u32) = 0 \<longleftrightarrow> n = 0"
  by (auto simp: word_of_nat_eq_0_iff dest: nat_dvd_not_less)

lemma send_frame_all:
  assumes "fd_sock fd = []" "length pl < 2 ^ 32"
  shows "send_frame fd ty rid pl = (0, fd\<lparr>fd_out := fd_out fd @ enc_frame (wire_frame ty rid pl)\<rparr>)"
  using assms by (auto simp: send_frame_def Let_def fd_write_all enc_frame_def wire_header_def of_nat_u32_zero unat_of_nat take_bit_nat_eq_self)

definition response_payload :: "ntc_ctl_response \<Rightarrow> byte list" where
  "response_payload res = put_u16 (of_int (rs_status res)) @ enc16 (rs_content_type res) @ enc32 (rs_body res) @
     (if rs_headers res = [] then [] else enc16 (rs_headers res))"

definition response_ok :: "ntc_ctl_response \<Rightarrow> bool" where
  "response_ok res \<longleftrightarrow> 0 \<le> rs_status res \<and> rs_status res < 65536 \<and> ok16 (rs_content_type res) \<and>
     length (rs_body res) < 2 ^ 32 - 2 ^ 17 \<and> length (rs_headers res) < HEADERS_CAP"

lemma response_payload_length:
  "length (response_payload res) \<le> length (rs_body res) + length (rs_content_type res) + length (rs_headers res) + 10"
  by (simp add: response_payload_def enc16_def enc32_def)

lemma response_payload_decodes:
  assumes "response_ok res"
  shows "ntc_wire_decode_response_ex (response_payload res) = Some (rs_status res, rs_content_type res, rs_body res, rs_headers res)"
proof -
  have ok: "ok16 (rs_content_type res)" "ok32 (rs_body res)" "ok16 (rs_headers res)"
    using assms by (simp_all add: response_ok_def ok16_def ok32_def HEADERS_CAP_def)
  have st: "uint (of_int (rs_status res) :: u16) = rs_status res" using assms uint_status by (simp add: response_ok_def)
  have off: "\<not> r_off (r_from p []) < length (r_p (r_from p []))"
    "r_off (r_from p (enc16 h)) < length (r_p (r_from p (enc16 h)))" for p h
    by (simp_all add: r_from_def enc16_def)
  show ?thesis
  proof (cases "rs_headers res = []")
    case True
    then have "response_payload res = put_u16 (of_int (rs_status res)) @ enc16 (rs_content_type res) @ enc32 (rs_body res) @ []"
      by (simp add: response_payload_def)
    with True off ok st show ?thesis by (simp only: ntc_wire_decode_response_ex_def rbuf_new_from) (simp add: r_encs Let_def)
  next
    case False
    then have "response_payload res = put_u16 (of_int (rs_status res)) @ enc16 (rs_content_type res) @ enc32 (rs_body res) @ enc16 (rs_headers res) @ []"
      by (simp add: response_payload_def)
    with off ok st show ?thesis by (simp only: ntc_wire_decode_response_ex_def rbuf_new_from) (simp add: r_encs Let_def)
  qed
qed

lemma send_response_all:
  assumes "fd_sock fd = []" "ce_arena_alloc env cap" "response_ok res"
    and "length (rs_body res) + length (rs_content_type res) + length (rs_headers res) + 10 \<le> cap"
  shows "send_response env rid res cap fd =
    fd\<lparr>fd_out := fd_out fd @ enc_frame (wire_frame NTC_MSG_RESPONSE rid (response_payload res))\<rparr>"
proof -
  have ok: "ok16 (rs_content_type res)" "ok32 (rs_body res)" "ok16 (rs_headers res)"
    using assms(3) by (simp_all add: response_ok_def ok16_def ok32_def HEADERS_CAP_def)
  have len: "length (response_payload res) \<le> cap" using response_payload_length [of res] assms(4) by simp
  have "length (response_payload res) < 2 ^ 32"
    using response_payload_length [of res] assms(3) by (simp add: response_ok_def ok16_def HEADERS_CAP_def)
  then have "send_frame fd NTC_MSG_RESPONSE rid (response_payload res) =
      (0, fd\<lparr>fd_out := fd_out fd @ enc_frame (wire_frame NTC_MSG_RESPONSE rid (response_payload res))\<rparr>)"
    by (rule send_frame_all [OF assms(1)])
  moreover have "(if rs_headers res \<noteq> []
      then ntc_wire_encode_response_ex (rs_status res) (rs_content_type res) (rs_body res) (rs_headers res) cap
      else ntc_wire_encode_response (rs_status res) (rs_content_type res) (rs_body res) cap) = Some (response_payload res)"
    using ok len by (cases "rs_headers res = []") (simp_all add: encode_response_eq encode_response_ex_eq response_payload_def)
  moreover have "response_payload res \<noteq> []" by (simp add: response_payload_def put_u16_def)
  ultimately show ?thesis using assms(2) by (simp add: send_response_def)
qed

subsection \<open>One response per request\<close>

text \<open>What the author's handler makes of a sequence of requests.\<close>

fun answers ::
  "('u \<Rightarrow> ntc_request \<Rightarrow> ntc_ctl_response \<Rightarrow> int \<times> ntc_ctl_response \<times> 'u) \<Rightarrow> 'u \<Rightarrow> (u32 \<times> ntc_request) list \<Rightarrow>
   (u32 \<times> ntc_ctl_response) list" where
  "answers f u [] = []"
| "answers f u ((rid, req) # reqs) =
     (case f u (wire_view req) default_response of
        (rc, res, u1) \<Rightarrow>
          (rid, if rc = 0 then res
                else res\<lparr>rs_status := 500, rs_content_type := ''application/json'',
                         rs_body := ''{'' @ jq ''error'' @ '':'' @ jq ''controller error'' @ ''}''\<rparr>) # answers f u1 reqs)"

definition request_frame :: "u32 \<times> ntc_request \<Rightarrow> ntc_wire_header \<times> byte list" where
  "request_frame = (\<lambda>(rid, req). wire_frame NTC_MSG_REQUEST rid (enc_request (wire_view req)))"

definition response_frame :: "u32 \<times> ntc_ctl_response \<Rightarrow> ntc_wire_header \<times> byte list" where
  "response_frame = (\<lambda>(rid, res). wire_frame NTC_MSG_RESPONSE rid (response_payload res))"

definition sendable :: "u32 \<times> ntc_request \<Rightarrow> bool" where
  "sendable = (\<lambda>(rid, req). length (rq_body req) < 2 ^ 32 \<and> ntc_wire_encode_request req (NTC_CONN_RBUF + 1024) \<noteq> None)"

lemma sendableD:
  assumes "sendable (rid, req)"
  shows "ntc_wire_encode_request req (NTC_CONN_RBUF + 1024) = Some (enc_request (wire_view req))"
    and "ntc_wire_decode_request (enc_request (wire_view req)) = Some (wire_view req)"
    and "length (enc_request (wire_view req)) \<le> NTC_CTL_MAX_PAYLOAD"
    and "ok_frame (request_frame (rid, req))"
proof -
  have b: "ok32 (rq_body req)" "ok32 (rq_body (wire_view req))" using assms by (simp_all add: sendable_def ok32_def wire_view_def)
  then have e: "wire_request_ok (wire_view req)" "length (enc_request (wire_view req)) \<le> NTC_CONN_RBUF + 1024"
    using assms by (auto simp: sendable_def encode_request_eq split: if_splits)
  show "ntc_wire_encode_request req (NTC_CONN_RBUF + 1024) = Some (enc_request (wire_view req))"
    using e b by (simp add: encode_request_eq)
  have "wire_view (wire_view req) = wire_view req" by (simp add: wire_view_def)
  then show "ntc_wire_decode_request (enc_request (wire_view req)) = Some (wire_view req)"
    using decode_request_enc [OF e(1) b(2), of "[]"] by (simp add: wire_view_def)
  show "length (enc_request (wire_view req)) \<le> NTC_CTL_MAX_PAYLOAD" using e(2) by (simp add: NTC_CONN_RBUF_def NTC_CTL_MAX_PAYLOAD_def)
  then show "ok_frame (request_frame (rid, req))" by (auto simp: request_frame_def NTC_CTL_MAX_PAYLOAD_def intro: wire_header_ok)
qed

definition handler_ok :: "('u \<Rightarrow> ntc_request \<Rightarrow> ntc_ctl_response \<Rightarrow> int \<times> ntc_ctl_response \<times> 'u) \<Rightarrow> bool" where
  "handler_ok f \<longleftrightarrow> (\<forall>u req rc res u1. f u req default_response = (rc, res, u1) \<longrightarrow> response_ok res)"

lemma answers_ok: "handler_ok f \<Longrightarrow> list_all (\<lambda>(rid, res). response_ok res) (answers f u reqs) \<and> map fst (answers f u reqs) = map fst reqs"
proof (induction f u reqs rule: answers.induct)
  case (2 f u rid req reqs)
  obtain rc res u1 where r: "f u (wire_view req) default_response = (rc, res, u1)" by (metis prod_cases3)
  then have "response_ok res" using 2(2) unfolding handler_ok_def by blast
  then have "response_ok (res\<lparr>rs_status := 500, rs_content_type := ''application/json'',
      rs_body := ''{'' @ jq ''error'' @ '':'' @ jq ''controller error'' @ ''}''\<rparr>)"
    by (simp add: response_ok_def ok16_def jq_def)
  with \<open>response_ok res\<close> 2(1) [OF r [symmetric] refl 2(2)] r show ?case by simp
qed simp


lemma serve_request_frame:
  assumes "ctl_handle ctl = Some f" "ctl_stream ctl = None" "ce_arena_init env" "\<And>n. ce_arena_alloc env n"
    and "fd_sock fd = []" "handler_ok f" "sendable (rid, req)"
    and r: "f u (wire_view req) default_response = (rc, res, u1)"
  shows "ctl_frame env ctl u (wire_header NTC_MSG_REQUEST rid pl) (enc_request (wire_view req)) fd =
    Some (True, u1, fd\<lparr>fd_out := fd_out fd @ enc_frame (response_frame (hd (answers f u [(rid, req)])))\<rparr>)"
proof -
  let ?res = "snd (hd (answers f u [(rid, req)]))"
  have ok: "response_ok ?res" using answers_ok [OF assms(6), of u "[(rid, req)]"] r by simp
  have "atomic_response (Some f) u (enc_request (wire_view req)) = Some (?res, u1)"
    using r by (simp add: atomic_response_def sendableD(2) [OF assms(7)] Let_def)
  then have "serve_atomic env (Some f) u rid (enc_request (wire_view req)) fd =
      Some (u1, fd\<lparr>fd_out := fd_out fd @ enc_frame (wire_frame NTC_MSG_RESPONSE rid (response_payload ?res))\<rparr>)"
    using send_response_all [OF assms(5) assms(4) ok] by (simp add: serve_atomic_def)
  moreover have "fst (hd (answers f u [(rid, req)])) = rid" using r by simp
  ultimately show ?thesis using assms(1-3)
    by (simp add: ctl_frame_def wire_header_def response_frame_def case_prod_beta NTC_MSG_REQUEST_def NTC_MSG_WELCOME_def NTC_MSG_PING_def
        NTC_MSG_WS_OPEN_def NTC_MSG_WS_MSG_def NTC_MSG_WS_CLOSE_def)
qed

lemma serve_requests:
  assumes "ctl_handle ctl = Some f" "ctl_stream ctl = None" "ce_arena_init env" "\<And>n. ce_arena_alloc env n"
    and "handler_ok f" "list_all sendable reqs" "fd_sock fd = []"
  shows "\<exists>u1. serve_frames env ctl u (map request_frame reqs) fd =
    Some (0, u1, fd\<lparr>fd_out := fd_out fd @ concat (map (enc_frame \<circ> response_frame) (answers f u reqs))\<rparr>)"
  using assms(6,7)
proof (induction reqs arbitrary: u fd)
  case (Cons p reqs)
  obtain rid req where p: "p = (rid, req)" by fastforce
  obtain rc res u1 where r: "f u (wire_view req) default_response = (rc, res, u1)" by (metis prod_cases3)
  have s: "sendable (rid, req)" using Cons.prems by (simp add: p)
  note fr = serve_request_frame [OF assms(1-4) Cons.prems(2) assms(5) s r]
  let ?fd = "fd\<lparr>fd_out := fd_out fd @ enc_frame (response_frame (hd (answers f u [(rid, req)])))\<rparr>"
  have pre: "list_all sendable reqs" "fd_sock ?fd = []" using Cons.prems by simp_all
  obtain u2 where "serve_frames env ctl u1 (map request_frame reqs) ?fd =
      Some (0, u2, ?fd\<lparr>fd_out := fd_out ?fd @ concat (map (enc_frame \<circ> response_frame) (answers f u1 reqs))\<rparr>)"
    using Cons.IH [OF pre, of u1] by blast
  then show ?case using fr r by (simp add: p request_frame_def comp_def)
qed simp

text \<open>
  C9 (\<open>controller_answers\<close>): a controller with an atomic handler greets the core and then answers
  each request exactly once, under its id and in order, with what the handler made of the
  request as the core encoded it (a failing handler becomes a 500), however the stream is cut
  into reads; the payload of each answer decodes to the handler's status, content type, body and headers.
\<close>

theorem controller_answers:
  assumes "ctl_handle ctl = Some f" and "ctl_stream ctl = None" and "handler_ok f" and "length (case ctl_name ctl of Some n \<Rightarrow> n | None \<Rightarrow> ''controller'') < 2 ^ 32"
    and "ce_arena_init env" and "\<And>n. ce_arena_alloc env n" and "fd_sock fd = []"
    and "getenv ''NTC_CONTROLLER_FD'' = Some s" and "0 \<le> atoi s"
    and "list_all sendable reqs"
    and "arriving inp = Some (concat (map enc_frame (wire_frame NTC_MSG_WELCOME 0 [] # map request_frame reqs)))"
  shows "\<exists>u1. ntc_controller_run env getenv (Some ctl) u inp fd = Some (0, u1, fd\<lparr>fd_out := fd_out fd @
      enc_frame (wire_frame NTC_MSG_HELLO 0 (bytes_of (case ctl_name ctl of Some n \<Rightarrow> n | None \<Rightarrow> ''controller''))) @
      concat (map (enc_frame \<circ> response_frame) (answers f u reqs))\<rparr>) \<and>
    map fst (answers f u reqs) = map fst reqs \<and>
    list_all (\<lambda>(rid, res). ntc_wire_decode_response_ex (response_payload res) =
      Some (rs_status res, rs_content_type res, rs_body res, rs_headers res)) (answers f u reqs)"
proof -
  let ?name = "bytes_of (case ctl_name ctl of Some n \<Rightarrow> n | None \<Rightarrow> ''controller'')"
  let ?fd = "fd\<lparr>fd_out := fd_out fd @ enc_frame (wire_frame NTC_MSG_HELLO 0 ?name)\<rparr>"
  let ?w = "wire_frame NTC_MSG_WELCOME 0 []"
  have "length ?name < 2 ^ 32" using assms(4) by simp
  then have hello: "send_frame fd NTC_MSG_HELLO 0 ?name = (0, ?fd)" by (rule send_frame_all [OF assms(7)])
  have ok: "list_all (\<lambda>(h, pl). ok_frame (h, pl) \<and> length pl \<le> NTC_CTL_MAX_PAYLOAD) (?w # map request_frame reqs)"
    using assms(10) sendableD(3,4) by (fastforce simp: list_all_iff request_frame_def wire_header_ok)
  have "ctl_loop env ctl u inp ?fd = serve_frames env ctl u (?w # map request_frame reqs) ?fd"
    by (rule ctl_loop_frames [OF ok, where part = "[]"]) (simp_all add: assms(11) NTC_WIRE_HEADER_LEN_def)
  also have "\<dots> = serve_frames env ctl u (map request_frame reqs) ?fd" by (simp add: ctl_frame_def wire_header_def)
  finally obtain u1 where "ctl_loop env ctl u inp ?fd =
      Some (0, u1, ?fd\<lparr>fd_out := fd_out ?fd @ concat (map (enc_frame \<circ> response_frame) (answers f u reqs))\<rparr>)"
    using serve_requests [OF assms(1,2,5,6,3,10), of ?fd u] assms(7) by auto
  then have "ntc_controller_run env getenv (Some ctl) u inp fd = Some (0, u1, fd\<lparr>fd_out := fd_out fd @
      enc_frame (wire_frame NTC_MSG_HELLO 0 ?name) @ concat (map (enc_frame \<circ> response_frame) (answers f u reqs))\<rparr>)"
    using hello assms(1,8,9) by (simp add: ntc_controller_run_def)
  moreover note answers_ok [OF assms(3), of u reqs]
  ultimately show ?thesis using response_payload_decodes by (auto simp: list_all_iff)
qed


definition sample_ctl_env :: ctl_env where
  "sample_ctl_env = \<lparr>ce_malloc = (\<lambda>_. True), ce_arena_init = True, ce_arena_alloc = (\<lambda>_. True)\<rparr>"

text \<open>A handler that alternates its answers and fails on every path but one.\<close>

definition sample_handler :: "bool \<Rightarrow> ntc_request \<Rightarrow> ntc_ctl_response \<Rightarrow> int \<times> ntc_ctl_response \<times> bool" where
  "sample_handler b req res =
     (if rq_path req = ''/a'' then 0 else 1, res\<lparr>rs_status := 201, rs_body := (if b then ''ping'' else ''pong'')\<rparr>, \<not> b)"

definition sample_ctl :: "bool ntc_controller" where
  "sample_ctl = \<lparr>ctl_name = None, ctl_handle = Some sample_handler, ctl_stream = None, ctl_ws_open = None, ctl_ws_message = None,
     ctl_ws_close = None\<rparr>"

definition sample_input :: "byte list" where
  "sample_input = concat (map enc_frame (wire_frame NTC_MSG_WELCOME 0 [] # map request_frame [(9, wire_sample_request), (4, wire_sample_request)]))"

theorem controller_answers_witness:
  "\<exists>u1 fd. ntc_controller_run sample_ctl_env (\<lambda>_. Some ''3'') (Some sample_ctl) True
      [Rcvd (chars_of (take 20 sample_input)), Rcv_eintr, Rcvd (chars_of (drop 20 sample_input))] \<lparr>fd_sock = [], fd_out = []\<rparr> =
    Some (0, u1, fd) \<and>
    fd_out fd = enc_frame (wire_frame NTC_MSG_HELLO 0 (bytes_of ''controller'')) @
      concat (map (enc_frame \<circ> response_frame)
        [(9, default_response\<lparr>rs_status := 201, rs_body := ''ping''\<rparr>), (4, default_response\<lparr>rs_status := 201, rs_body := ''pong''\<rparr>)])"
proof -
  let ?inp = "[Rcvd (chars_of (take 20 sample_input)), Rcv_eintr, Rcvd (chars_of (drop 20 sample_input))]"
  let ?reqs = "[(9, wire_sample_request), (4, wire_sample_request)]"
  have h: "handler_ok sample_handler"
    by (auto simp: handler_ok_def sample_handler_def response_ok_def default_response_def ok16_def HEADERS_CAP_def)
  have s: "list_all sendable ?reqs" by code_simp
  have n: "take 20 sample_input \<noteq> []" "drop 20 sample_input \<noteq> []" by code_simp+
  then have "arriving ?inp = Some sample_input" by simp
  then have i: "arriving ?inp = Some (concat (map enc_frame (wire_frame NTC_MSG_WELCOME 0 [] # map request_frame ?reqs)))"
    by (subst sample_input_def [symmetric])
  have a: "answers sample_handler True ?reqs =
      [(9, default_response\<lparr>rs_status := 201, rs_body := ''ping''\<rparr>), (4, default_response\<lparr>rs_status := 201, rs_body := ''pong''\<rparr>)]"
    by (simp add: sample_handler_def wire_view_def wire_sample_request_def)
  have z: "0 \<le> atoi ''3''" by code_simp
  show ?thesis
    using controller_answers [OF _ _ h _ _ _ _ _ z s i, of sample_ctl sample_ctl_env "\<lparr>fd_sock = [], fd_out = []\<rparr>" "\<lambda>_. Some ''3''" True]
    unfolding a by (auto simp: sample_ctl_def sample_ctl_env_def)
qed

subsection \<open>The frames of a stream\<close>

definition chunk_msg :: "u32 \<Rightarrow> string \<Rightarrow> ntc_wire_header \<times> byte list" where
  "chunk_msg rid d = wire_frame NTC_MSG_RESPONSE_CHUNK rid (enc32 d)"

definition open_stream :: "u32 \<Rightarrow> (ntc_wire_header \<times> byte list) list \<Rightarrow> bool" where
  "open_stream rid ms \<longleftrightarrow>
     (\<exists>status flags ctype ds. ms = wire_frame NTC_MSG_RESPONSE_BEGIN rid (put_u16 (of_int status) @ [flags] @ enc16 ctype) # map (chunk_msg rid) ds \<and>
        ok16 ctype \<and> list_all (\<lambda>d. d \<noteq> [] \<and> ok32 d) ds)"

text \<open>What a stream in a given state has sent: nothing, its begin and chunks, all of it, or only an end.\<close>

fun stream_sent :: "u32 \<Rightarrow> bool \<Rightarrow> bool \<Rightarrow> (ntc_wire_header \<times> byte list) list \<Rightarrow> bool" where
  "stream_sent rid False False ms \<longleftrightarrow> ms = []"
| "stream_sent rid True False ms \<longleftrightarrow> open_stream rid ms"
| "stream_sent rid True True ms \<longleftrightarrow> (\<exists>ms'. ms = ms' @ [wire_frame NTC_MSG_RESPONSE_END rid []] \<and> open_stream rid ms')"
| "stream_sent rid False True ms \<longleftrightarrow> ms = [wire_frame NTC_MSG_RESPONSE_END rid []]"

lemma sse_text_eq:
  "sse_text event data = (case event of None \<Rightarrow> [] | Some e \<Rightarrow> if e = [] then [] else ''event: '' @ e @ [LF]) @
     ''data: '' @ (case data of None \<Rightarrow> [] | Some d \<Rightarrow> d) @ [LF, LF]"
  by (auto simp: sse_text_def sse_cap_def snprintf_def Let_def split: option.splits)

lemma begin_sent:
  assumes "fd_sock fd = []" "stream_sent (st_rid st) (st_begun st) (st_ended st) ms" "stream_begin_ctl status flags ctype st fd = (rc, st1, fd1)"
  shows "\<exists>ms1. fd1 = fd\<lparr>fd_out := fd_out fd @ concat (map enc_frame ms1)\<rparr> \<and> st_rid st1 = st_rid st \<and>
    stream_sent (st_rid st) (st_begun st1) (st_ended st1) (ms @ ms1)"
proof -
  let ?pl = "put_u16 (of_int status) @ [flags] @ enc16 ctype"
  show ?thesis
  proof (cases "\<not> st_begun st \<and> \<not> st_ended st \<and> ok16 ctype \<and> length ?pl \<le> 1024")
    case True
    then have "length ?pl < 2 ^ 32" by simp
    note f = send_frame_all [OF assms(1) this, of NTC_MSG_RESPONSE_BEGIN "st_rid st"]
    have "ms = []" using assms(2) True by simp
    then show ?thesis using True assms(3) f
      by (intro exI [of _ "[wire_frame NTC_MSG_RESPONSE_BEGIN (st_rid st) ?pl]"])
        (auto simp: stream_begin_ctl_def encode_response_begin_eq open_stream_def Let_def intro!: exI [of _ status] exI [of _ flags] exI [of _ ctype])
  next
    case False
    then show ?thesis using assms by (intro exI [of _ "[]"]) (auto simp: stream_begin_ctl_def encode_response_begin_eq Let_def split: if_splits)
  qed
qed

lemma write_sent:
  assumes "fd_sock fd = []" "stream_sent (st_rid st) (st_begun st) (st_ended st) ms" "ntc_stream_write d st fd = (rc, st1, fd1)"
  shows "\<exists>ms1. fd1 = fd\<lparr>fd_out := fd_out fd @ concat (map enc_frame ms1)\<rparr> \<and> st_rid st1 = st_rid st \<and>
    stream_sent (st_rid st) (st_begun st1) (st_ended st1) (ms @ ms1)"
proof (cases "st_begun st \<and> \<not> st_ended st \<and> d \<noteq> [] \<and> length d \<le> 0xFFFFFFFF - 4")
  case True
  have "(of_nat (length d) :: u32) + 4 = of_nat (length (enc32 d))" by (simp add: enc32_def)
  then have "fd1 = fd\<lparr>fd_out := fd_out fd @ enc_frame (chunk_msg (st_rid st) d)\<rparr> \<and> st1 = st"
    using True assms(1,3) by (auto simp: ntc_stream_write_def fd_write_all Let_def chunk_msg_def enc_frame_def wire_header_def enc32_def add.commute)
  moreover have "stream_sent (st_rid st) True False (ms @ [chunk_msg (st_rid st) d])"
  proof -
    obtain status flags ctype ds where m: "ms = wire_frame NTC_MSG_RESPONSE_BEGIN (st_rid st) (put_u16 (of_int status) @ [flags] @ enc16 ctype) # map (chunk_msg (st_rid st)) ds"
        "ok16 ctype" "list_all (\<lambda>d. d \<noteq> [] \<and> ok32 d) ds"
      using assms(2) True by (auto simp: open_stream_def)
    show ?thesis unfolding stream_sent.simps open_stream_def
      by (rule exI [of _ status], rule exI [of _ flags], rule exI [of _ ctype], rule exI [of _ "ds @ [d]"])
        (use m True in \<open>simp add: ok32_def\<close>)
  qed
  ultimately show ?thesis using True by (intro exI [of _ "[chunk_msg (st_rid st) d]"]) simp
next
  case False
  then show ?thesis using assms by (intro exI [of _ "[]"]) (auto simp: ntc_stream_write_def split: if_splits)
qed

lemma end_sent:
  assumes "fd_sock fd = []" "stream_sent (st_rid st) (st_begun st) (st_ended st) ms" "ntc_stream_end st fd = (rc, st1, fd1)"
  shows "\<exists>ms1. fd1 = fd\<lparr>fd_out := fd_out fd @ concat (map enc_frame ms1)\<rparr> \<and> st_rid st1 = st_rid st \<and>
    stream_sent (st_rid st) (st_begun st1) (st_ended st1) (ms @ ms1) \<and> st_begun st1 = st_begun st \<and> st_ended st1"
proof (cases "st_ended st")
  case False
  have f: "send_frame fd NTC_MSG_RESPONSE_END (st_rid st) [] =
      (0, fd\<lparr>fd_out := fd_out fd @ enc_frame (wire_frame NTC_MSG_RESPONSE_END (st_rid st) [])\<rparr>)"
    by (rule send_frame_all [OF assms(1)]) simp
  show ?thesis using assms(2,3) f False
    by (intro exI [of _ "[wire_frame NTC_MSG_RESPONSE_END (st_rid st) []]"]) (cases "st_begun st"; auto simp: ntc_stream_end_def)
qed (use assms in \<open>auto simp: ntc_stream_end_def intro!: exI [of _ "[]"]\<close>)

lemma api_sent:
  assumes "fd_sock fd = []" "stream_sent (st_rid st) (st_begun st) (st_ended st) ms" "stream_api env call st fd = (rc, st1, fd1)"
  shows "\<exists>ms1. fd1 = fd\<lparr>fd_out := fd_out fd @ concat (map enc_frame ms1)\<rparr> \<and> st_rid st1 = st_rid st \<and>
    stream_sent (st_rid st) (st_begun st1) (st_ended st1) (ms @ ms1)"
proof (cases call)
  case (Sse_send e d)
  have id: "\<exists>ms1. fd = fd\<lparr>fd_out := fd_out fd @ concat (map enc_frame ms1)\<rparr> \<and>
      stream_sent (st_rid st) (st_begun st) (st_ended st) (ms @ ms1)"
    using assms(2) by (intro exI [of _ "[]"]) simp
  show ?thesis using assms(3) Sse_send id write_sent [OF assms(1,2), of "sse_text e d" rc st1 fd1]
    by (auto simp: ntc_sse_send_def split: if_splits)
qed (use assms begin_sent [OF assms(1,2)] write_sent [OF assms(1,2)] end_sent [OF assms(1,2)] in
    \<open>auto simp: ntc_stream_begin_def ntc_sse_begin_def\<close>)

lemma run_stream_sent:
  assumes "fd_sock fd = []" "stream_sent (st_rid st) (st_begun st) (st_ended st) ms" "run_stream env prog st fd = (rc, u, st1, fd1)"
  shows "\<exists>ms1. fd1 = fd\<lparr>fd_out := fd_out fd @ concat (map enc_frame ms1)\<rparr> \<and> st_rid st1 = st_rid st \<and>
    stream_sent (st_rid st) (st_begun st1) (st_ended st1) (ms @ ms1)"
  using assms
proof (induction prog arbitrary: st fd ms)
  case (Stream_return rc u)
  then show ?case by (intro exI [of _ "[]"]) simp
next
  case (Stream_call call k)
  obtain rc0 st0 fd0 where a: "stream_api env call st fd = (rc0, st0, fd0)" by (metis prod_cases3)
  obtain ms0 where m0: "fd0 = fd\<lparr>fd_out := fd_out fd @ concat (map enc_frame ms0)\<rparr>" "st_rid st0 = st_rid st"
    "stream_sent (st_rid st) (st_begun st0) (st_ended st0) (ms @ ms0)"
    using api_sent [OF Stream_call.prems(1,2) a] by blast
  have r: "run_stream env (k rc0) st0 fd0 = (rc, u, st1, fd1)" using Stream_call.prems(3) a by simp
  have "fd_sock fd0 = []" "stream_sent (st_rid st0) (st_begun st0) (st_ended st0) (ms @ ms0)"
    using m0 Stream_call.prems(1) by simp_all
  from Stream_call.IH [OF _ this r] obtain ms1 where "fd1 = fd0\<lparr>fd_out := fd_out fd0 @ concat (map enc_frame ms1)\<rparr>"
    "st_rid st1 = st_rid st0" "stream_sent (st_rid st0) (st_begun st1) (st_ended st1) ((ms @ ms0) @ ms1)" by auto
  then show ?case using m0 by (intro exI [of _ "ms0 @ ms1"]) simp
qed




definition sample_stream :: "unit \<Rightarrow> ntc_request \<Rightarrow> unit stream_prog" where
  "sample_stream u req = Stream_call (Begin 200 ''text/plain'') (\<lambda>rc.
     if rc \<noteq> 0 then Stream_return 1 () else Stream_call (Write (rq_path req)) (\<lambda>rc. Stream_return 0 ()))"


subsection \<open>Multipart bodies round-trip\<close>

lemma memmem_append: "memmem xs n = Some i \<Longrightarrow> memmem (xs @ ys) n = Some i"
proof (induction xs arbitrary: i)
  case (Cons x xs)
  have "i + length n \<le> length (x # xs)" using memmem_less [OF Cons.prems] .
  then have "take (length n) (x # xs @ ys) = take (length n) (x # xs)" by (simp flip: append_Cons)
  then show ?case using Cons by (auto split: if_splits)
qed (cases ys; simp split: if_splits)

lemma takeWhile_to: "c \<notin> set a \<Longrightarrow> takeWhile (\<lambda>x. x \<noteq> c) (a @ c # s) = a"
  by (induction a) auto

lemma first_at: "c \<notin> set a \<Longrightarrow> c \<notin> set k \<Longrightarrow> a @ c # s = k @ c # t \<Longrightarrow> a = k"
  by (metis takeWhile_to)

lemma take_key: "take (Suc (length k)) xs = k @ [c] \<Longrightarrow> xs = k @ c # drop (Suc (length k)) xs"
  by (metis append_Cons append_Nil append_assoc append_take_drop_id)

text \<open>A key that ends in a character: found where that character first comes after the key, not found in a stretch that ends otherwise.\<close>

lemma memmem_at: "c \<notin> set a \<Longrightarrow> c \<notin> set k \<Longrightarrow> memmem (a @ k @ c # s) (k @ [c]) = Some (length a)"
proof (induction a)
  case Nil
  then show ?case by (cases k) simp_all
next
  case (Cons x a)
  have "take (length (k @ [c])) ((x # a) @ k @ c # s) \<noteq> k @ [c]"
  proof
    assume "take (length (k @ [c])) ((x # a) @ k @ c # s) = k @ [c]"
    then have "((x # a) @ k) @ c # s = k @ c # drop (Suc (length k)) ((x # a) @ k @ c # s)"
      using take_key [of k "(x # a) @ k @ c # s" c] by (simp only: length_append list.size append_assoc add_0 add_0_right One_nat_def add_Suc_right)
    then have "(x # a) @ k = k" by (rule first_at [rotated 2]) (use Cons.prems in auto)
    then show False by simp
  qed
  with Cons show ?case by simp
qed

lemma memmem_past:
  "c \<notin> set a \<Longrightarrow> c \<notin> set k \<Longrightarrow> \<not> suffix k a \<Longrightarrow>
    memmem (a @ c # s) (k @ [c]) = map_option ((+) (Suc (length a))) (memmem s (k @ [c]))"
proof (induction a)
  case Nil
  have "take (length (k @ [c])) (c # s) \<noteq> k @ [c]"
    using Nil by (cases k) auto
  then show ?case by simp
next
  case (Cons x a)
  have "take (length (k @ [c])) ((x # a) @ c # s) \<noteq> k @ [c]"
  proof
    assume "take (length (k @ [c])) ((x # a) @ c # s) = k @ [c]"
    then have "(x # a) @ c # s = k @ c # drop (Suc (length k)) ((x # a) @ c # s)"
      using take_key [of k "(x # a) @ c # s" c] by (simp only: length_append list.size add_0 add_0_right One_nat_def add_Suc_right)
    then have "x # a = k" by (rule first_at [rotated 2]) (use Cons.prems in auto)
    then show False using Cons.prems by simp
  qed
  moreover have "\<not> suffix k a" using Cons.prems(3) by (auto simp: suffix_Cons)
  ultimately show ?case using Cons by (simp add: option.map_comp comp_def)
qed

lemma memmem_absent: "c \<in> set k \<Longrightarrow> c \<notin> set xs \<Longrightarrow> memmem xs k = None"
proof (induction xs)
  case (Cons x xs)
  have "take (length k) (x # xs) \<noteq> k" using Cons.prems by (metis in_set_takeD)
  with Cons show ?case by simp
qed auto

lemma quoted_found:
  "memmem r (k @ [CHR 0x22]) = Some (length a) \<Longrightarrow> r = a @ k @ CHR 0x22 # v @ CHR 0x22 # s \<Longrightarrow> CHR 0x22 \<notin> set v \<Longrightarrow>
    mp_quoted r (k @ [CHR 0x22]) = v"
  by (simp add: mp_quoted_def)

lemma quoted_absent: "memmem r k = None \<Longrightarrow> mp_quoted r k = []"
  by (simp add: mp_quoted_def)


definition mp_header :: "ntc_multipart_part \<Rightarrow> string" where
  "mp_header p = ''Content-Disposition: form-data; name='' @ DQ # mp_name p @ DQ #
     (if mp_filename p = [] then [] else ''; filename='' @ DQ # mp_filename p @ [DQ]) @
     (if mp_content_type p = [] then [] else CRLF @ ''Content-Type: '' @ mp_content_type p)"

definition mp_text :: "ntc_multipart_part \<Rightarrow> string" where
  "mp_text p = mp_header p @ CRLF @ CRLF @ mp_data p"

definition mp_render :: "string \<Rightarrow> ntc_multipart_part list \<Rightarrow> string" where
  "mp_render b ps = ''--'' @ b @ concat (map (\<lambda>p. CRLF @ mp_text p @ CRLF @ ''--'' @ b) ps) @ ''--'' @ CRLF"

definition mp_plain :: "string \<Rightarrow> bool" where
  "mp_plain s \<longleftrightarrow> DQ \<notin> set s \<and> CR \<notin> set s \<and> LF \<notin> set s \<and> CHR ''='' \<notin> set s \<and> CHR '':'' \<notin> set s"

text \<open>Plain fields, and data in which the delimiter does not occur.\<close>

definition mp_ok :: "string \<Rightarrow> ntc_multipart_part \<Rightarrow> bool" where
  "mp_ok b p \<longleftrightarrow> mp_plain (mp_name p) \<and> mp_plain (mp_filename p) \<and>
     DQ \<notin> set (mp_content_type p) \<and> CR \<notin> set (mp_content_type p) \<and> CHR '':'' \<notin> set (mp_content_type p) \<and>
     take 1 (mp_content_type p) \<noteq> '' '' \<and>
     memmem (mp_text p @ CRLF @ ''--'' @ b) (CRLF @ ''--'' @ b) = Some (length (mp_text p))"

lemma mp_name_found:
  assumes "DQ \<notin> set (mp_name p)"
  shows "mp_quoted (mp_header p) (''name='' @ [DQ]) = mp_name p"
proof -
  let ?a = "''Content-Disposition: form-data; ''"
  let ?s = "(if mp_filename p = [] then [] else ''; filename='' @ DQ # mp_filename p @ [DQ]) @
     (if mp_content_type p = [] then [] else CRLF @ ''Content-Type: '' @ mp_content_type p)"
  have h: "mp_header p = ?a @ ''name='' @ DQ # mp_name p @ DQ # ?s" by (simp add: mp_header_def)
  have "memmem (mp_header p) (''name='' @ [DQ]) = Some (length ?a)" unfolding h by (rule memmem_at) simp_all
  then show ?thesis using h assms by (rule quoted_found)
qed

lemma not_suffix_eq: "c \<notin> set s \<Longrightarrow> k \<noteq> [] \<Longrightarrow> last k = c \<Longrightarrow> \<not> suffix k s"
  by (auto simp: suffix_def)

lemma mp_filename_found:
  assumes "mp_plain (mp_name p)" "mp_plain (mp_filename p)" "DQ \<notin> set (mp_content_type p)"
  shows "mp_quoted (mp_header p) (''filename='' @ [DQ]) = mp_filename p"
proof -
  let ?k = "''filename=''" and ?a = "''Content-Disposition: form-data; name=''"
  let ?t = "if mp_content_type p = [] then [] else CRLF @ ''Content-Type: '' @ mp_content_type p"
  let ?s = "(if mp_filename p = [] then [] else ''; '' @ ?k @ DQ # mp_filename p @ [DQ]) @ ?t"
  have h: "mp_header p = ?a @ DQ # mp_name p @ DQ # ?s" by (simp add: mp_header_def)
  have na: "\<not> suffix ?k ?a" by (simp add: suffix_def)
  have nn: "\<not> suffix ?k (mp_name p)" using assms(1) by (intro not_suffix_eq [of "CHR ''=''"]) (simp_all add: mp_plain_def)
  have m: "memmem (mp_header p) (?k @ [DQ]) =
      map_option ((+) (Suc (length ?a))) (map_option ((+) (Suc (length (mp_name p)))) (memmem ?s (?k @ [DQ])))"
  proof -
    have "memmem (?a @ DQ # (mp_name p @ DQ # ?s)) (?k @ [DQ]) =
        map_option ((+) (Suc (length ?a))) (memmem (mp_name p @ DQ # ?s) (?k @ [DQ]))"
      by (rule memmem_past [OF _ _ na]) simp_all
    moreover have "memmem (mp_name p @ DQ # ?s) (?k @ [DQ]) = map_option ((+) (Suc (length (mp_name p)))) (memmem ?s (?k @ [DQ]))"
      by (rule memmem_past [OF _ _ nn]) (use assms(1) in \<open>simp_all add: mp_plain_def\<close>)
    ultimately show ?thesis unfolding h by (simp only:)
  qed
  show ?thesis
  proof (cases "mp_filename p = []")
    case True
    have "memmem ?s (?k @ [DQ]) = None" using True assms(3) by (intro memmem_absent [of DQ]) auto
    then have "memmem (mp_header p) (?k @ [DQ]) = None" using m by simp
    then show ?thesis using quoted_absent True by metis
  next
    case False
    have "memmem (''; '' @ ?k @ DQ # (mp_filename p @ DQ # ?t)) (?k @ [DQ]) = Some (length ''; '')" by (rule memmem_at) simp_all
    then have "memmem (mp_header p) (?k @ [DQ]) = Some (length (?a @ DQ # mp_name p @ DQ # ''; ''))" using m False by simp
    moreover have "mp_header p = (?a @ DQ # mp_name p @ DQ # ''; '') @ ?k @ DQ # mp_filename p @ DQ # ?t" using h False by simp
    moreover have "DQ \<notin> set (mp_filename p)" using assms(2) by (simp add: mp_plain_def)
    ultimately show ?thesis by (rule quoted_found)
  qed
qed

lemma drop_both: "drop (length a + length b) (a @ b @ r) = r"
  by simp

lemma mp_ctype_found:
  assumes "mp_ok b p"
  shows "mp_ctype (mp_header p) = mp_content_type p"
proof -
  let ?k = "''Content-Type''" and ?a = "''Content-Disposition''" and ?c = "CHR '':''"
  let ?m = "'' form-data; name='' @ DQ # mp_name p @ DQ # (if mp_filename p = [] then [] else ''; filename='' @ DQ # mp_filename p @ [DQ])"
  have nm: "?c \<notin> set ?m" using assms by (auto simp: mp_ok_def mp_plain_def)
  have na: "\<not> suffix ?k ?a" by (simp add: suffix_def)
  show ?thesis
  proof (cases "mp_content_type p = []")
    case True
    then have h: "mp_header p = ?a @ ?c # ?m" by (simp add: mp_header_def)
    have "memmem (mp_header p) (?k @ [?c]) = None" unfolding h using na nm by (subst memmem_past) (simp_all add: memmem_absent [of ?c])
    then show ?thesis using True by (simp add: mp_ctype_def)
  next
    case False
    let ?t = "'' '' @ mp_content_type p"
    have h: "mp_header p = ?a @ ?c # (?m @ CRLF) @ ?k @ ?c # ?t" using False by (simp add: mp_header_def)
    have "?c \<notin> set (?m @ CRLF)" using nm by simp
    then have "memmem ((?m @ CRLF) @ ?k @ ?c # ?t) (?k @ [?c]) = Some (length (?m @ CRLF))" by (rule memmem_at) simp
    then have "memmem (mp_header p) (?k @ [?c]) = Some (length (?a @ ?c # ?m @ CRLF))" unfolding h using na by (subst memmem_past) simp_all
    moreover have "drop (length (?a @ ?c # ?m @ CRLF) + 13) (mp_header p) = ?t"
    proof -
      have h2: "mp_header p = (?a @ ?c # ?m @ CRLF) @ (?k @ [?c]) @ ?t" and len: "13 = length (?k @ [?c])" using h by simp_all
      show ?thesis unfolding len h2 by (rule drop_both)
    qed
    moreover have "dropWhile (\<lambda>c. c = CHR '' '') ?t = mp_content_type p"
      using assms False by (cases "mp_content_type p") (auto simp: mp_ok_def)
    moreover have "memmem (mp_content_type p) CRLF = None" using assms by (intro memmem_absent [of CR]) (auto simp: mp_ok_def)
    ultimately show ?thesis by (simp add: mp_ctype_def)
  qed
qed


lemma memmem_skip: "c \<notin> set a \<Longrightarrow> memmem (a @ r) (c # k) = map_option ((+) (length a)) (memmem r (c # k))"
  by (induction a; cases "memmem r (c # k)") auto

lemma mp_header_end:
  assumes "mp_ok b p"
  shows "memmem (mp_text p) (CRLF @ CRLF) = Some (length (mp_header p))"
proof -
  let ?a = "''Content-Disposition: form-data; name='' @ DQ # mp_name p @ DQ #
     (if mp_filename p = [] then [] else ''; filename='' @ DQ # mp_filename p @ [DQ])"
  let ?t = "LF # ''Content-Type: '' @ mp_content_type p"
  have na: "CR \<notin> set ?a" "CR \<notin> set ?t" using assms by (auto simp: mp_ok_def mp_plain_def)
  show ?thesis
  proof (cases "mp_content_type p = []")
    case True
    then have "mp_text p = ?a @ CRLF @ CRLF @ mp_data p" "mp_header p = ?a" by (simp_all add: mp_text_def mp_header_def)
    then show ?thesis using memmem_skip [OF na(1), of "CRLF @ CRLF @ mp_data p" "LF # CRLF"] by simp
  next
    case False
    then have h: "mp_text p = ?a @ CR # ?t @ CRLF @ CRLF @ mp_data p" "mp_header p = ?a @ CR # ?t" by (simp_all add: mp_text_def mp_header_def)
    have "memmem (CR # ?t @ CRLF @ CRLF @ mp_data p) (CR # LF # CRLF) = map_option Suc (memmem (?t @ CRLF @ CRLF @ mp_data p) (CR # LF # CRLF))"
      by simp
    then show ?thesis
      using memmem_skip [OF na(1), of "CR # ?t @ CRLF @ CRLF @ mp_data p" "LF # CRLF"] memmem_skip [OF na(2), of "CRLF @ CRLF @ mp_data p" "LF # CRLF"]
      unfolding h by simp
  qed
qed

lemma mp_part_text:
  assumes "mp_ok b p"
  shows "mp_part (mp_text p) = p"
proof -
  have f: "mp_plain (mp_name p)" "mp_plain (mp_filename p)" "DQ \<notin> set (mp_content_type p)" "DQ \<notin> set (mp_name p)"
    using assms by (simp_all add: mp_ok_def mp_plain_def)
  have "take (length (mp_header p)) (mp_text p) = mp_header p" "drop (length (mp_header p) + 4) (mp_text p) = mp_data p"
    by (simp_all add: mp_text_def)
  then show ?thesis
    using mp_header_end [OF assms] mp_name_found [OF f(4)] mp_filename_found [OF f(1-3)] mp_ctype_found [OF assms]
    by (cases p) (simp add: mp_part_def Let_def)
qed

lemma mp_loop_render:
  "list_all (mp_ok b) ps \<Longrightarrow> length ps \<le> n \<Longrightarrow>
    mp_loop (CRLF @ ''--'' @ b) (concat (map (\<lambda>p. CRLF @ mp_text p @ CRLF @ ''--'' @ b) ps) @ ''--'' @ CRLF) n = ps"
proof (induction ps arbitrary: n)
  case Nil
  then show ?case by (cases n) simp_all
next
  case (Cons p ps)
  obtain m where n: "n = Suc m" using Cons.prems by (cases n) auto
  let ?sep = "CRLF @ ''--'' @ b" and ?r = "concat (map (\<lambda>p. CRLF @ mp_text p @ CRLF @ ''--'' @ b) ps) @ ''--'' @ CRLF"
  have ok: "mp_ok b p" using Cons.prems by simp
  have f: "memmem (mp_text p @ ?sep @ ?r) ?sep = Some (length (mp_text p))"
    using memmem_append [of "mp_text p @ ?sep" ?sep "length (mp_text p)" ?r] ok by (simp add: mp_ok_def)
  have d: "drop (length (mp_text p) + length ?sep) (mp_text p @ ?sep @ ?r) = ?r" "take (length (mp_text p)) (mp_text p @ ?sep @ ?r) = mp_text p"
    by (rule drop_both, simp)
  have "mp_loop ?sep (CRLF @ mp_text p @ ?sep @ ?r) (Suc m) = mp_part (mp_text p) # mp_loop ?sep ?r m"
    using f d by simp
  then show ?case using Cons.IH [of m] Cons.prems mp_part_text [OF ok] n by simp
qed

text \<open>
  The boundary read from a content type that announces it, applied to
  a body of parts separated by it, gives back exactly the parts, when their names are plain, the
  delimiter does not occur inside a part and there is room for them all.
\<close>

lemma multipart_roundtrip:
  assumes "list_all (mp_ok b) ps" and "b \<noteq> []" and "length b < 258" and "CHR '';'' \<notin> set b" and "hd b \<noteq> DQ" and "length b < cap"
    and "int (length ps) \<le> m"
  shows "ntc_multipart_boundary (''multipart/form-data; boundary='' @ b) cap = Some b \<and>
    ntc_multipart_parse (mp_render b ps) b m = Some ps"
proof
  have "memmem (''multipart/form-data; boundar'' @ ''y='' @ b) ''boundary='' = Some 21" by (simp add: numeral_eq_Suc)
  then have "memmem (''multipart/form-data; boundary='' @ b) ''boundary='' = Some 21" by simp
  moreover have "memchr CHR '';'' b = None" using assms(4) by (simp add: memchr_None)
  ultimately show "ntc_multipart_boundary (''multipart/form-data; boundary='' @ b) cap = Some b"
    using assms(2,5,6) by (simp add: ntc_multipart_boundary_def)
  have "mp_render b ps = (''--'' @ b) @ concat (map (\<lambda>p. CRLF @ mp_text p @ CRLF @ ''--'' @ b) ps) @ ''--'' @ CRLF"
    by (simp add: mp_render_def)
  moreover have "memmem ((''--'' @ b) @ r) (''--'' @ b) = Some 0" for r by simp
  moreover have "length ps \<le> nat m" using assms(7) by simp
  ultimately show "ntc_multipart_parse (mp_render b ps) b m = Some ps"
    using mp_loop_render [OF assms(1), of "nat m"] assms(3) by (simp add: ntc_multipart_parse_def Let_def)
qed

definition sample_parts :: "ntc_multipart_part list" where
  "sample_parts = [\<lparr>mp_name = ''field'', mp_filename = [], mp_content_type = [], mp_data = ''hello world''\<rparr>,
     \<lparr>mp_name = ''file'', mp_filename = ''a.txt'', mp_content_type = ''text/plain'', mp_data = ''FILE'' @ CRLF @ ''DATA''\<rparr>]"

end
