(* ===== verification/Gateway_Delivery.thy ===== *)
theory Gateway_Delivery
  imports Gateway_Inv Startup Controller
begin

text \<open>
  What reaches the clients and the controllers. The output of a connection is what was sent on
  its socket followed by what is queued; every operation that writes either keeps it, adds its
  data at the end, or closes the connection after a prefix. On top of that: streamed responses
  arrive as head, framed chunks and end marker, plain responses as formatted, and requests in the
  controller's stream as one frame each.
\<close>

subsection \<open>What a connection has to deliver\<close>

definition pending :: "conn \<Rightarrow> string" where
  "pending x = (if c_streaming x then drop (c_swsent x) (c_swbuf x) else drop (c_wsent x) (c_wbuf x))"

definition outgoing :: "conn \<Rightarrow> string" where
  "outgoing x = c_sent x @ pending x"

definition stream_mode :: "conn \<Rightarrow> bool \<times> bool \<times> bool" where
  "stream_mode x = (c_streaming x, c_stream_sse x, c_stream_ended x)"

definition stream_buf_ok :: "conn \<Rightarrow> bool" where
  "stream_buf_ok x \<longleftrightarrow> c_swsent x \<le> length (c_swbuf x) \<and> length (c_swbuf x) \<le> c_swcap x \<and> length (c_swbuf x) \<le> NTC_STREAM_MAX_BUF"

definition flowed :: "conn_ptr \<Rightarrow> gateway \<Rightarrow> string \<Rightarrow> gateway \<Rightarrow> bool" where
  "flowed c g s g' \<longleftrightarrow> (\<exists>x. g_conns g c = Some x \<and>
     (case g_conns g' c of
        Some x' \<Rightarrow> outgoing x' = outgoing x @ s \<and> stream_mode x' = stream_mode x \<and> (stream_buf_ok x \<longrightarrow> stream_buf_ok x') \<and>
                   g_closed g' = g_closed g
      | None \<Rightarrow> (\<exists>t. g_closed g' = (c, t) # g_closed g \<and> prefix t (outgoing x @ s))))"

definition flows :: "conn_ptr \<Rightarrow> gateway \<Rightarrow> string \<Rightarrow> (int \<times> gateway) option \<Rightarrow> bool" where
  "flows c g s m \<longleftrightarrow> (\<forall>rc g'. m = Some (rc, g') \<longrightarrow> flowed c g s g')"

lemma send_loop_moves: "send_loop rs buf sent = (d, sent', rs') \<Longrightarrow>
    sent \<le> sent' \<and> (sent \<le> length buf \<longrightarrow> sent' \<le> length buf) \<and> (d = Drained \<longrightarrow> length buf \<le> sent')"
  by (induction rs buf sent rule: send_loop.induct) (fastforce split: if_splits send_res.splits)+

lemma tls_send_loop_moves:
  "sent \<le> tls_send_loop ns len sent \<and> (sent \<le> len \<longrightarrow> tls_send_loop ns len sent \<le> len)"
  by (induction ns len sent rule: tls_send_loop.induct) auto

lemma tls_rounds_moves: "tls_rounds rs buf sent fin = (d, sent', rs') \<Longrightarrow>
    sent \<le> sent' \<and> (sent \<le> length buf \<longrightarrow> sent' \<le> length buf) \<and> (d = Drained \<longrightarrow> length buf \<le> sent' \<and> \<not> fin)"
proof (induction rs buf sent fin rule: tls_rounds.induct)
  case (2 r rs buf sent fin)
  have "sent \<le> tls_send_loop (tr_accept r) (length buf) sent"
    "sent \<le> length buf \<Longrightarrow> tls_send_loop (tr_accept r) (length buf) sent \<le> length buf"
    using tls_send_loop_moves by blast+
  with 2 show ?case by (fastforce simp: Let_def split: if_splits)
qed simp

lemma ctrl_queue_closed: "ctrl_queue env g t ty rid pl = Some (rc, g') \<Longrightarrow> g_closed g' = g_closed g \<and> g_conns g' = g_conns g"
  by (auto simp: ctrl_queue_def split: option.splits bind_splits)

lemma conn_close_closed:
  assumes "conn_close env g c = Some g'" "g_conns g c = Some x"
  shows "g_conns g' c = None \<and> g_closed g' = (c, c_sent x) # g_closed g"
  using assms by (auto simp: conn_close_def gw_release_def ctrl_update_poll_def Let_def split: option.splits bind_splits if_splits dest!: ctrl_queue_closed)


lemma sent_part: "sent \<le> sent' \<Longrightarrow> take (sent' - sent) (drop sent buf) @ drop sent' buf = drop sent buf"
  by (metis append_take_drop_id drop_drop le_add_diff_inverse2)

lemma flows_close:
  assumes "g_conns h c = Some y" "g_conns g c = Some x" "g_closed h = g_closed g" "prefix (c_sent y) (outgoing x @ s)"
  shows "flows c g s (close_ret env h c)"
  using assms by (auto simp: flows_def flowed_def close_ret_def dest!: conn_close_closed split: bind_splits)

lemma flows_ret:
  assumes "g_conns g c = Some x" "g_conns h c = Some x'" "outgoing x' = outgoing x @ s" "stream_mode x' = stream_mode x"
    "stream_buf_ok x \<longrightarrow> stream_buf_ok x'" "g_closed h = g_closed g"
  shows "flows c g s (Some (rc, h))"
  using assms by (auto simp: flows_def flowed_def)

lemma tls_drive_write_flows:
  assumes "g_conns g c = Some x"
  shows "flows c g [] (tls_drive_write env g c)"
proof (cases "c_tls x")
  case (Some rounds)
  let ?buf = "if c_streaming x then c_swbuf x else c_wbuf x" and ?s0 = "if c_streaming x then c_swsent x else c_wsent x"
  obtain d sent rest where t: "tls_rounds rounds ?buf ?s0 (\<not> c_streaming x \<or> c_stream_ended x) = (d, sent, rest)"
    by (metis prod_cases3)
  note m = tls_rounds_moves [OF t]
  have p: "take (sent - ?s0) (drop ?s0 ?buf) @ drop sent ?buf = pending x"
    using m sent_part [of ?s0 sent ?buf] by (auto simp: pending_def)
  show ?thesis
    unfolding tls_drive_write_def using assms Some t m p
    by (auto simp: Let_def outgoing_def pending_def stream_mode_def stream_buf_ok_def take_is_prefix split: drive.splits
        intro!: flows_close flows_ret)
qed (simp add: tls_drive_write_def assms flows_def)


text \<open>Work that stops at the same point or goes on after the first part.\<close>

lemma flowed_trans:
  assumes "flowed c g s h" "g_conns h c \<noteq> None" "flowed c h s' k"
  shows "flowed c g (s @ s') k"
  using assms by (auto simp: flowed_def split: option.splits)

lemma flowed_cut: "flowed c g s h \<Longrightarrow> g_conns h c = None \<Longrightarrow> flowed c g (s @ s') h"
  by (auto simp: flowed_def prefix_append)

lemma flows_after: "flowed c g s h \<Longrightarrow> g_conns h c \<noteq> None \<Longrightarrow> flows c h s' m \<Longrightarrow> flows c g (s @ s') m"
  unfolding flows_def using flowed_trans by blast

lemma flows_bind:
  assumes "conn_safe c g m" "flows c g s m"
    and "\<And>rc h. \<not> rc < 0 \<Longrightarrow> flowed c g s h \<Longrightarrow> quiet c g h \<Longrightarrow> g_conns h c \<noteq> None \<Longrightarrow> flows c h s' (f (rc, h))"
    and "\<And>rc h. rc < 0 \<Longrightarrow> \<exists>rc'. f (rc, h) = Some (rc', h)"
  shows "flows c g (s @ s') (Option.bind m f)"
proof -
  obtain rc h where m: "m = Some (rc, h)" and q: "quiet c g h" and r: "rc < 0 \<longleftrightarrow> g_conns h c = None"
    using assms(1) unfolding conn_safe_def by (elim exE conjE)
  have fl: "flowed c g s h" using assms(2) m by (simp add: flows_def)
  show ?thesis
  proof (cases "rc < 0")
    case True
    then obtain rc' where "f (rc, h) = Some (rc', h)" using assms(4) by blast
    with True r m fl show ?thesis by (simp add: flows_def flowed_cut)
  next
    case False
    then have "flows c h s' (f (rc, h))" using assms(3) fl q r by blast
    with False r m fl show ?thesis by (auto simp: flows_def intro: flowed_trans)
  qed
qed

lemma flowed_refl [simp]: "g_conns g c = Some x \<Longrightarrow> flowed c g [] g"
  by (simp add: flowed_def)

lemma sent_is_prefix [simp]: "prefix (c_sent x) (outgoing x @ s)" "prefix (c_sent x) (outgoing x)"
  by (simp_all add: outgoing_def)

lemma flows_close_now: "g_conns g c = Some x \<Longrightarrow> flows c g s (close_ret env g c)"
  by (rule flows_close) auto

lemma set_interest_flows: "g_conns g c = Some x \<Longrightarrow> flows c g [] (tls_set_interest env g c)"
  by (auto simp: tls_set_interest_def intro: flows_close_now flows_ret)

lemma on_writable_flows:
  assumes x: "g_conns g c = Some x"
  shows "flows c g [] (on_writable env g c)"
proof (cases "c_tls x")
  case None
  have cl: "flows c g [] (close_ret env (set_conn g c y) c)" if "prefix (c_sent y) (outgoing x)" for y
    using that x by (auto intro!: flows_close)
  have ret: "flows c g [] (Some (0, set_conn g c y))"
    if "outgoing y = outgoing x" "stream_mode y = stream_mode x" "stream_buf_ok x \<longrightarrow> stream_buf_ok y" for y
    by (rule flows_ret [OF x]; use that in simp)
  show ?thesis
  proof (cases "c_streaming x")
    case True
    obtain d sent rest where t: "send_loop (c_sock x) (c_swbuf x) (c_swsent x) = (d, sent, rest)" by (metis prod_cases3)
    let ?x1 = "x\<lparr>c_sock := rest, c_swsent := sent,
      c_sent := c_sent x @ take (sent - c_swsent x) (drop (c_swsent x) (c_swbuf x))\<rparr>"
    let ?x2 = "?x1\<lparr>c_swbuf := [], c_swsent := 0\<rparr>"
    note m = send_loop_moves [OF t]
    have o1: "outgoing ?x1 = outgoing x" "stream_mode ?x1 = stream_mode x" "stream_buf_ok x \<longrightarrow> stream_buf_ok ?x1"
      using sent_part [of "c_swsent x" sent "c_swbuf x"] m True
      by (auto simp: outgoing_def pending_def stream_mode_def stream_buf_ok_def)
    have o2: "outgoing ?x2 = outgoing x" "stream_mode ?x2 = stream_mode x" "stream_buf_ok x \<longrightarrow> stream_buf_ok ?x2" if "d = Drained"
      using sent_part [of "c_swsent x" sent "c_swbuf x"] m True that
      by (auto simp: outgoing_def pending_def stream_mode_def stream_buf_ok_def)
    have "prefix (c_sent ?x1) (outgoing x)" using o1(1) by (metis sent_is_prefix(2))
    with cl [of ?x1] cl [of ?x2] ret [OF o1] ret [OF o2] show ?thesis
      by (cases d) (simp_all add: on_writable_def x None True t Let_def)
  next
    case False
    obtain d sent rest where t: "send_loop (c_sock x) (c_wbuf x) (c_wsent x) = (d, sent, rest)" by (metis prod_cases3)
    let ?x1 = "x\<lparr>c_sock := rest, c_wsent := sent,
      c_sent := c_sent x @ take (sent - c_wsent x) (drop (c_wsent x) (c_wbuf x))\<rparr>"
    have o1: "outgoing ?x1 = outgoing x" "stream_mode ?x1 = stream_mode x" "stream_buf_ok x \<longrightarrow> stream_buf_ok ?x1"
      using sent_part [of "c_wsent x" sent "c_wbuf x"] send_loop_moves [OF t] False
      by (auto simp: outgoing_def pending_def stream_mode_def stream_buf_ok_def)
    have "prefix (c_sent ?x1) (outgoing x)" using o1(1) by (metis sent_is_prefix(2))
    with cl [of ?x1] ret [OF o1] show ?thesis
      by (cases d) (simp_all add: on_writable_def x None False t Let_def)
  qed
qed (simp add: on_writable_def x tls_drive_write_flows)

lemma kick_flows:
  assumes "gw_inv g" "g_conns g c = Some x"
  shows "flows c g [] (stream_kick env g c)"
proof (cases "c_tls x")
  case None
  then show ?thesis using assms
    by (auto simp: stream_kick_def intro: on_writable_flows flows_close_now)
next
  case (Some rounds)
  have "flows c g ([] @ []) (do { (rc, g1) \<leftarrow> tls_drive_write env g c; if rc < 0 then Some (-1, g1) else tls_set_interest env g1 c })"
    by (rule flows_bind) (use Some assms in \<open>auto intro: tls_drive_write_safe tls_drive_write_flows set_interest_flows\<close>)
  with Some assms(2) show ?thesis by (simp add: stream_kick_def)
qed

lemma stream_push_flows:
  assumes "gw_inv g" "g_conns g c = Some x" "c_streaming x"
  shows "flows c g data (stream_push env g c data)"
proof (cases "data = []")
  case True
  with kick_flows [OF assms(1,2)] show ?thesis by (simp add: stream_push_def)
next
  case False
  let ?x1 = "x\<lparr>c_swbuf := drop (c_swsent x) (c_swbuf x), c_swsent := 0\<rparr>"
  let ?b = "length (c_swbuf ?x1) + length data"
  have cl: "flows c g data (close_ret env (set_conn g c ?x1) c)"
    using assms by (auto intro!: flows_close)
  show ?thesis
  proof (cases "?b > NTC_STREAM_MAX_BUF \<or> buf_reserve env (c_swcap x) ?b = None")
    case True
    with False assms(2) cl show ?thesis by (auto simp: stream_push_def Let_def split: option.splits)
  next
    case False
    then obtain cap where cap: "buf_reserve env (c_swcap x) ?b = Some cap" and le: "?b \<le> NTC_STREAM_MAX_BUF" by auto
    let ?x2 = "?x1\<lparr>c_swcap := cap, c_swbuf := c_swbuf ?x1 @ data\<rparr>"
    let ?h = "set_conn g c ?x2"
    have hinv: "gw_inv ?h" by (rule quiet_inv [OF assms(1) quiet_set_conn [OF assms(2)]]) simp
    have "flows c ?h [] (stream_kick env ?h c)" by (rule kick_flows [OF hinv]) simp
    moreover have "flowed c g data ?h"
      using assms le buf_reserve_ge [OF cap]
      by (auto simp: flowed_def outgoing_def pending_def stream_mode_def stream_buf_ok_def)
    ultimately have "flows c g (data @ []) (stream_kick env ?h c)" by (intro flows_after [where h = ?h]) simp_all
    with \<open>data \<noteq> []\<close> assms(2) le cap show ?thesis by (simp add: stream_push_def Let_def)
  qed
qed

subsection \<open>Streams\<close>

text \<open>What was recorded of the connections closed at an address, the last one first.\<close>

definition history :: "conn_ptr \<Rightarrow> gateway \<Rightarrow> string list" where
  "history c g = map snd (filter (\<lambda>(d, s). d = c) (g_closed g))"

definition stream_frame :: "bool \<Rightarrow> string \<Rightarrow> string" where
  "stream_frame sse d = (if d = [] then [] else if sse then d else chunk_frame d)"

definition stream_trailer :: "bool \<Rightarrow> string" where
  "stream_trailer sse = (if sse then [] else last_chunk)"

text \<open>
  A stream for which \<open>s\<close> was handed over: the connection is open and bound to the request,
  or it was closed after a prefix of \<open>s\<close> and the request id is unbound.
\<close>

definition stream_at :: "conn_ptr \<Rightarrow> u32 \<Rightarrow> bool \<Rightarrow> string list \<Rightarrow> string \<Rightarrow> gateway \<Rightarrow> bool" where
  "stream_at c rid sse hist s g \<longleftrightarrow> gw_inv g \<and>
     (case g_conns g c of
        Some x \<Rightarrow> gw_conn_for_id (g_slots g) rid = Some c \<and> stream_mode x = (True, sse, False) \<and> stream_buf_ok x \<and>
                  outgoing x = s \<and> history c g = hist
      | None \<Rightarrow> gw_conn_for_id (g_slots g) rid = None \<and> (\<exists>t. history c g = t # hist \<and> prefix t s))"

lemma closed_unbound:
  assumes "gw_inv g" "gw_inv g'" "quiet c g g'" "g_conns g' c = None" "gw_conn_for_id (g_slots g) rid = Some c"
  shows "gw_conn_for_id (g_slots g') rid = None"
proof (rule ccontr)
  assume "gw_conn_for_id (g_slots g') rid \<noteq> None"
  then obtain d where "gw_conn_for_id (g_slots g') rid = Some d" by blast
  then obtain y where y: "g_conns g' d = Some y" "c_inflight y" "c_req_id y = rid" using gw_inv_find [OF assms(2)] by blast
  then have "d \<noteq> c" using assms(4) by auto
  then have "g_conns g d = Some y" using y(1) quiet_rest(2) [OF assms(3)] by simp
  then have "gw_conn_for_id (g_slots g) rid = Some d" using gw_inv_inflight(1) [OF assms(1)] y(2,3) by blast
  with assms(5) \<open>d \<noteq> c\<close> show False by simp
qed

lemma open_bound:
  assumes "quiet c g g'" "g_conns g' c \<noteq> None"
  shows "g_slots g' = g_slots g"
  using assms(1) by (cases rule: quietE) (use assms(2) in auto)

lemma history_Cons [simp]: "g_closed g' = (c, t) # g_closed g \<Longrightarrow> history c g' = t # history c g"
  by (simp add: history_def)

lemma history_same: "g_closed g' = g_closed g \<Longrightarrow> history c g' = history c g"
  by (simp add: history_def)

text \<open>Quiet work on the connection that adds bytes leaves the stream with these bytes.\<close>

lemma stream_moves:
  assumes "stream_at c rid sse hist s g" "g_conns g c \<noteq> None" "conn_safe c g m" "flows c g s' m"
  shows "\<exists>rc g'. m = Some (rc, g') \<and> stream_at c rid sse hist (s @ s') g' \<and> (rc < 0 \<longleftrightarrow> g_conns g' c = None)"
proof -
  obtain x where x: "g_conns g c = Some x" using assms(2) by blast
  have inv: "gw_inv g" and f: "gw_conn_for_id (g_slots g) rid = Some c" and s: "stream_mode x = (True, sse, False)"
    "stream_buf_ok x" "outgoing x = s" "history c g = hist"
    using assms(1) x by (simp_all add: stream_at_def)
  obtain rc g' where m: "m = Some (rc, g')" and q: "quiet c g g'" and rc: "rc < 0 \<longleftrightarrow> g_conns g' c = None"
    using assms(3) unfolding conn_safe_def by (elim exE conjE)
  have fl: "flowed c g s' g'" using assms(4) m by (simp add: flows_def)
  note inv' = quiet_inv [OF inv q]
  have "stream_at c rid sse hist (s @ s') g'"
  proof (cases "g_conns g' c")
    case None
    then show ?thesis using fl s inv' closed_unbound [OF inv inv' q None f] by (auto simp: stream_at_def flowed_def x)
  next
    case (Some y)
    then show ?thesis using fl s inv' f open_bound [OF q] by (auto simp: stream_at_def flowed_def x history_def)
  qed
  with m rc show ?thesis by (intro exI conjI)
qed

lemma stream_writable:
  assumes "stream_at c rid sse hist s g" "g_conns g c \<noteq> None"
  shows "\<exists>rc g'. on_writable env g c = Some (rc, g') \<and> stream_at c rid sse hist s g'"
  using stream_moves [OF assms on_writable_safe on_writable_flows, of _ _ env] assms by (auto simp: stream_at_def)

lemma stream_pushes:
  assumes "stream_at c rid sse hist s g" "g_conns g c \<noteq> None"
  shows "\<exists>rc g'. stream_push env g c data = Some (rc, g') \<and> stream_at c rid sse hist (s @ data) g' \<and> (rc < 0 \<longleftrightarrow> g_conns g' c = None)"
proof -
  obtain x where x: "g_conns g c = Some x" using assms(2) by blast
  have "gw_inv g" "c_streaming x" using assms(1) x by (simp_all add: stream_at_def stream_mode_def)
  then show ?thesis using stream_moves [OF assms stream_push_safe [OF _ x] stream_push_flows [OF _ x]] by blast
qed

lemma stream_closed_more: "stream_at c rid sse hist s g \<Longrightarrow> g_conns g c = None \<Longrightarrow> stream_at c rid sse hist (s @ s') g"
  by (auto simp: stream_at_def prefix_append)

lemma stream_push_then:
  assumes "stream_at c rid sse hist s g" "g_conns g c \<noteq> None"
    and "\<And>g'. stream_at c rid sse hist (s @ a) g' \<Longrightarrow> g_conns g' c \<noteq> None \<Longrightarrow>
      \<exists>k. f g' = Some k \<and> stream_at c rid sse hist ((s @ a) @ b) k"
  shows "\<exists>k. (do { (rc, g') \<leftarrow> stream_push env g c a; if rc < 0 then Some g' else f g' }) = Some k \<and> stream_at c rid sse hist (s @ a @ b) k"
proof -
  obtain rc g' where p: "stream_push env g c a = Some (rc, g')" "stream_at c rid sse hist (s @ a) g'" "rc < 0 \<longleftrightarrow> g_conns g' c = None"
    using stream_pushes [OF assms(1,2), of env a] by (elim exE conjE)
  show ?thesis
  proof (cases "rc < 0")
    case True
    then show ?thesis using stream_closed_more [OF p(2), of b] p(1,3) by simp
  next
    case False
    then obtain k where "f g' = Some k" "stream_at c rid sse hist ((s @ a) @ b) k" using assms(3) [OF p(2)] p(3) by blast
    with False p(1) show ?thesis by simp
  qed
qed

lemma stream_push_end:
  assumes "stream_at c rid sse hist s g" "g_conns g c \<noteq> None"
  shows "\<exists>k. (do { (rc, g') \<leftarrow> stream_push env g c a; Some g' }) = Some k \<and> stream_at c rid sse hist (s @ a) k"
  using stream_pushes [OF assms, of env a] by auto

lemma stream_chunk:
  assumes "stream_at c rid sse hist s g" "ntc_wire_decode_chunk payload = Some d"
  shows "\<exists>g'. gw_deliver_chunk env g rid payload = Some g' \<and> stream_at c rid sse hist (s @ stream_frame sse d) g'"
proof (cases "g_conns g c")
  case None
  then show ?thesis using assms(1) stream_closed_more [OF assms(1) None]
    by (auto simp: gw_deliver_chunk_def stream_at_def)
next
  case (Some x)
  then have f: "gw_conn_for_id (g_slots g) rid = Some c" and m: "c_streaming x" "c_stream_sse x = sse"
    using assms(1) by (auto simp: stream_at_def stream_mode_def)
  have live: "g_conns g c \<noteq> None" using Some by simp
  have "\<exists>k. (do { (rc, g1) \<leftarrow> stream_push env g c (fmt_hex (length d) @ CRLF); if rc < 0 then Some g1
      else do { (rc, g2) \<leftarrow> stream_push env g1 c d; if rc < 0 then Some g2
        else do { (rc, g3) \<leftarrow> stream_push env g2 c CRLF; Some g3 } } }) = Some k \<and>
      stream_at c rid sse hist (s @ (fmt_hex (length d) @ CRLF) @ (d @ CRLF)) k"
    by (rule stream_push_then [OF assms(1) live], rule stream_push_then, assumption+, rule stream_push_end, assumption+)
  then show ?thesis using stream_push_end [OF assms(1) live, of env d] assms(1) Some f m assms(2)
    by (auto simp: gw_deliver_chunk_def stream_frame_def chunk_frame_def)
qed

text \<open>A connection to which nothing was written yet.\<close>

definition unsent :: "conn \<Rightarrow> bool" where
  "unsent x \<longleftrightarrow> c_sent x = [] \<and> c_swbuf x = [] \<and> c_swsent x = 0 \<and> \<not> c_stream_ended x"

lemma access_log_same: "access_log env g x st = (x', lg) \<Longrightarrow> x' = x \<or> x' = x\<lparr>c_logged := True\<rparr>"
  by (auto simp: access_log_def split: option.splits if_splits)

lemma stream_begin:
  assumes inv: "gw_inv g" and find: "gw_conn_for_id (g_slots g) rid = Some c" and x: "g_conns g c = Some x" and "unsent x"
    and dec: "ntc_wire_decode_response_begin payload = Some (status, flags, ctype)"
    and sse: "sse = (flags AND NTC_STREAM_FLAG_SSE \<noteq> 0)"
    and head: "ntc_http_format_stream_head (ge_grant env) status (ntc_http_status_text status) ctype sse
        (if cstr (c_extra_headers x) \<noteq> [] then Some (cstr (c_extra_headers x)) else None) = Inr head"
  shows "\<exists>g0. gw_deliver_begin env g rid payload = Some g0 \<and> stream_at c rid sse (history c g) head g0"
proof -
  let ?g1 = "rec_status g status" and ?x1 = "x\<lparr>c_streaming := True, c_stream_sse := sse, c_state := CS_STREAM\<rparr>"
  obtain x2 lg where al: "access_log env ?g1 ?x1 status = (x2, lg)" by fastforce
  let ?h = "(set_conn ?g1 c (x2\<lparr>c_stream_head_sent := True\<rparr>))\<lparr>g_log := lg\<rparr>"
  have x2: "core x2 = core x" "c_state x2 \<noteq> CS_READ" using access_log_keeps [OF al] by simp_all
  have "quiet c g (set_conn ?g1 c (x2\<lparr>c_stream_head_sent := True\<rparr>))"
    by (rule quiet_trans [OF quiet_rec_status(1) quiet_set_conn [of _ _ x]]) (use x x2 in \<open>simp_all add: keeps_def\<close>)
  then have "gw_inv ?h" using quiet_inv [OF inv quiet_trans [OF _ quiet_fields(3)]] by blast
  moreover have "stream_mode x2 = (True, sse, False)" "outgoing (x2\<lparr>c_stream_head_sent := True\<rparr>) = []" "stream_buf_ok x2"
    using access_log_same [OF al] \<open>unsent x\<close>
    by (auto simp: unsent_def stream_mode_def stream_buf_ok_def outgoing_def pending_def NTC_STREAM_MAX_BUF_def)
  moreover have "g_slots ?h = g_slots g" "g_closed ?h = g_closed g" by (simp_all add: rec_status_def Let_def)
  ultimately have "stream_at c rid sse (history c g) [] ?h"
    using find by (simp add: stream_at_def history_def stream_mode_def stream_buf_ok_def)
  then have "\<exists>k. (do { (rc, g') \<leftarrow> stream_push env ?h c head; Some g' }) = Some k \<and> stream_at c rid sse (history c g) ([] @ head) k"
    by (rule stream_push_end) simp
  then show ?thesis using find x dec sse head al
    by (cases "cstr (c_extra_headers x) = []") (simp_all add: gw_deliver_begin_def Let_def)
qed

text \<open>A stream after its end message.\<close>

definition stream_over :: "conn_ptr \<Rightarrow> string list \<Rightarrow> string \<Rightarrow> gateway \<Rightarrow> bool" where
  "stream_over c hist s g \<longleftrightarrow> gw_inv g \<and>
     (case g_conns g c of
        Some x \<Rightarrow> c_streaming x \<and> c_stream_ended x \<and> outgoing x = s \<and> stream_buf_ok x \<and> history c g = hist
      | None \<Rightarrow> (\<exists>t. history c g = t # hist \<and> prefix t s))"

lemma stream_end:
  assumes "stream_at c rid sse hist s g"
  shows "\<exists>g'. gw_deliver_end env g rid = Some g' \<and> stream_over c hist (s @ stream_trailer sse) g'"
proof (cases "g_conns g c")
  case None
  then show ?thesis using assms by (auto simp: gw_deliver_end_def stream_at_def stream_over_def prefix_append)
next
  case (Some x)
  have inv: "gw_inv g" and find: "gw_conn_for_id (g_slots g) rid = Some c" and s: "stream_mode x = (True, sse, False)"
    "stream_buf_ok x" "outgoing x = s" "history c g = hist"
    using assms Some by (simp_all add: stream_at_def)
  let ?y = "x\<lparr>c_inflight := False, c_stream_ended := True\<rparr>"
  let ?h = "set_conn (gw_release g rid) c ?y"
  have hinv: "gw_inv ?h" by (rule detach_inv [OF inv find Some]) simp
  have hy: "g_conns ?h c = Some ?y" "c_streaming ?y" using s(1) by (simp_all add: stream_mode_def)
  obtain rc k where k: "stream_push env ?h c (stream_trailer sse) = Some (rc, k)" and q: "quiet c ?h k"
    using stream_push_safe [OF hinv hy(1), of env "stream_trailer sse"] unfolding conn_safe_def by (elim exE conjE)
  have fl: "flowed c ?h (stream_trailer sse) k" using stream_push_flows [OF hinv hy] k by (simp add: flows_def)
  have "outgoing ?y = s" "stream_buf_ok ?y" "g_closed ?h = g_closed g" 
    using s by (auto simp: outgoing_def pending_def stream_buf_ok_def gw_release_def)
  with fl have "stream_over c hist (s @ stream_trailer sse) k"
    using quiet_inv [OF hinv q] s(1,4)
    by (auto simp: stream_over_def flowed_def stream_mode_def history_def split: option.splits)
  moreover have "gw_deliver_end env g rid = Some k"
    using k find Some s(1) by (cases sse) (simp_all add: gw_deliver_end_def gw_detach_def stream_trailer_def stream_mode_def gw_release_def)
  ultimately show ?thesis by blast
qed

text \<open>When the socket takes the rest, the connection closes with everything sent.\<close>

lemma stream_drains:
  assumes "stream_over c hist s g" "g_conns g c = Some x" "c_tls x = None"
    and "send_loop (c_sock x) (c_swbuf x) (c_swsent x) = (Drained, n, rest)"
  shows "\<exists>g'. on_writable env g c = Some (- 1, g') \<and> g_conns g' c = None \<and> history c g' = s # hist"
proof -
  have inv: "gw_inv g" and x: "c_streaming x" "c_stream_ended x" "outgoing x = s" "history c g = hist"
    using assms(1,2) by (simp_all add: stream_over_def)
  let ?y = "x\<lparr>c_sock := rest, c_swsent := n, c_sent := c_sent x @ take (n - c_swsent x) (drop (c_swsent x) (c_swbuf x))\<rparr>
    \<lparr>c_swbuf := [], c_swsent := 0\<rparr>"
  let ?h = "set_conn g c ?y"
  have hinv: "gw_inv ?h" by (rule quiet_inv [OF inv quiet_set_conn [OF assms(2)]]) simp
  obtain k where k: "conn_close env ?h c = Some k" using conn_close_safe [OF hinv, of c ?y env] by auto
  have "c_sent ?y = s" using send_loop_moves [OF assms(4)] x by (auto simp: outgoing_def pending_def)
  then have "g_conns k c = None \<and> history c k = s # hist" using conn_close_closed [OF k, of ?y] x(4) by (simp add: history_def)
  then show ?thesis using k assms(2-4) x by (simp add: on_writable_def close_ret_def Let_def)
qed

text \<open>How a stream that was ended comes out.\<close>

lemma stream_over_result:
  assumes "stream_over c hist s g"
  shows "case g_conns g c of
      None \<Rightarrow> \<exists>t. history c g = t # hist \<and> prefix t s
    | Some y \<Rightarrow> outgoing y = s \<and> length (c_swbuf y) \<le> min (c_swcap y) NTC_STREAM_MAX_BUF \<and>
        (\<forall>n rest. c_tls y = None \<longrightarrow> send_loop (c_sock y) (c_swbuf y) (c_swsent y) = (Drained, n, rest) \<longrightarrow>
          (\<exists>g3. on_writable env g c = Some (- 1, g3) \<and> g_conns g3 c = None \<and> history c g3 = s # hist))"
proof (cases "g_conns g c")
  case (Some y)
  then have "outgoing y = s" "stream_buf_ok y" using assms by (simp_all add: stream_over_def)
  then show ?thesis using stream_drains [OF assms Some, of _ _ env] Some by (simp add: stream_buf_ok_def)
qed (use assms in \<open>simp add: stream_over_def\<close>)

text \<open>
  The life of a stream between its first and last message: chunks, times at which the client
  is writable, and any steps that leave this connection and its request alone.
\<close>

inductive stream_run :: "conn_ptr \<Rightarrow> u32 \<Rightarrow> gateway \<Rightarrow> string list \<Rightarrow> gateway \<Rightarrow> bool" for c rid g0 where
  start: "stream_run c rid g0 [] g0"
| chunk: "stream_run c rid g0 ds g \<Longrightarrow> ntc_wire_decode_chunk p = Some d \<Longrightarrow> gw_deliver_chunk env g rid p = Some g' \<Longrightarrow>
    stream_run c rid g0 (ds @ [d]) g'"
| writable: "stream_run c rid g0 ds g \<Longrightarrow> g_conns g c \<noteq> None \<Longrightarrow> on_writable env g c = Some (rc, g') \<Longrightarrow>
    stream_run c rid g0 ds g'"
| other: "stream_run c rid g0 ds g \<Longrightarrow> gw_inv g' \<Longrightarrow> g_conns g' c = g_conns g c \<Longrightarrow>
    gw_conn_for_id (g_slots g') rid = gw_conn_for_id (g_slots g) rid \<Longrightarrow> history c g' = history c g \<Longrightarrow>
    stream_run c rid g0 ds g'"

lemma stream_run_at:
  assumes "stream_run c rid g0 ds g" "stream_at c rid sse hist s g0"
  shows "stream_at c rid sse hist (s @ concat (map (stream_frame sse) ds)) g"
  using assms
proof (induction rule: stream_run.induct)
  case (chunk ds g p d env g')
  then show ?case using stream_chunk [OF chunk.IH [OF chunk.prems] chunk.hyps(2), of env] by simp
next
  case (writable ds g env rc g')
  then show ?case using stream_writable [OF writable.IH [OF writable.prems] writable.hyps(2), of env] by simp
qed (auto simp: stream_at_def split: option.splits)


text \<open>
  C5 (\<open>stream_delivery\<close>): a controller's streamed response reaches its client unchanged. Once the
  first message is accepted for a connection, the connection's output (what was sent and what
  is queued) is the response head, then the framing of every chunk in order, then the end
  marker, through any times at which the client is writable, with TLS or without, and any steps on
  other connections; if the connection was closed on the way, what the client got is a prefix
  of that. The queue stays within its limit and its capacity. After the end message, a socket that takes
  what is queued closes the connection with exactly that output sent.
\<close>

theorem stream_delivery:
  assumes "gw_inv g" and "gw_conn_for_id (g_slots g) rid = Some c" and "g_conns g c = Some x" and "unsent x"
    and "ntc_wire_decode_response_begin payload = Some (status, flags, ctype)"
    and "sse = (flags AND NTC_STREAM_FLAG_SSE \<noteq> 0)"
    and "ntc_http_format_stream_head (ge_grant env) status (ntc_http_status_text status) ctype sse
        (if cstr (c_extra_headers x) \<noteq> [] then Some (cstr (c_extra_headers x)) else None) = Inr head"
  shows "\<exists>g0. gw_deliver_begin env g rid payload = Some g0 \<and>
    (\<forall>ds g1. stream_run c rid g0 ds g1 \<longrightarrow>
      (\<exists>g2. gw_deliver_end env1 g1 rid = Some g2 \<and>
        (let s = head @ concat (map (stream_frame sse) ds) @ stream_trailer sse
         in case g_conns g2 c of
              None \<Rightarrow> \<exists>t. history c g2 = t # history c g \<and> prefix t s
            | Some y \<Rightarrow> outgoing y = s \<and> length (c_swbuf y) \<le> min (c_swcap y) NTC_STREAM_MAX_BUF \<and>
                (\<forall>n rest. c_tls y = None \<longrightarrow> send_loop (c_sock y) (c_swbuf y) (c_swsent y) = (Drained, n, rest) \<longrightarrow>
                  (\<exists>g3. on_writable env2 g2 c = Some (- 1, g3) \<and> g_conns g3 c = None \<and> history c g3 = s # history c g)))))"
proof -
  obtain g0 where b: "gw_deliver_begin env g rid payload = Some g0" and at: "stream_at c rid sse (history c g) head g0"
    using stream_begin [OF assms] by blast
  show ?thesis unfolding Let_def
  proof (rule exI [of _ g0], intro conjI allI impI b)
    fix ds g1
    assume "stream_run c rid g0 ds g1"
    then obtain g2 where g2: "gw_deliver_end env1 g1 rid = Some g2"
      and over: "stream_over c (history c g) (head @ concat (map (stream_frame sse) ds) @ stream_trailer sse) g2"
      using stream_end [OF stream_run_at [OF _ at], of ds g1 env1] by auto
    show "\<exists>g2. gw_deliver_end env1 g1 rid = Some g2 \<and>
        (case g_conns g2 c of
           None \<Rightarrow> \<exists>t. history c g2 = t # history c g \<and> prefix t (head @ concat (map (stream_frame sse) ds) @ stream_trailer sse)
         | Some y \<Rightarrow> outgoing y = head @ concat (map (stream_frame sse) ds) @ stream_trailer sse \<and>
             length (c_swbuf y) \<le> min (c_swcap y) NTC_STREAM_MAX_BUF \<and>
             (\<forall>n rest. c_tls y = None \<longrightarrow> send_loop (c_sock y) (c_swbuf y) (c_swsent y) = (Drained, n, rest) \<longrightarrow>
               (\<exists>g3. on_writable env2 g2 c = Some (- 1, g3) \<and> g_conns g3 c = None \<and>
                 history c g3 = (head @ concat (map (stream_frame sse) ds) @ stream_trailer sse) # history c g)))"
      by (rule exI [of _ g2], rule conjI [OF g2 stream_over_result [OF over]])
  qed
qed

definition sample_conn :: conn where
  "sample_conn = (conn_new sample_gw_env)\<lparr>c_state := CS_WAIT, c_inflight := True, c_req_id := 4095, c_wait_ctrl := Some 3,
     c_sock := [Sent 10, Send_again, Sent 10000]\<rparr>"

definition sample_waiting :: gateway where
  "sample_waiting = (zero_gateway sample_gw_env None \<lparr>routes = [], rcap = 0\<rparr>)
     \<lparr>g_conns := [7 \<mapsto> sample_conn], g_ctrls := [3 \<mapsto> new_ctrl (sample_child 0 0) 0 []],
      g_services := [zero_service ''hello'' ''./hello''], g_slots := sample_slots\<rparr>"

lemma sample_slots_bound: "slots_inv sample_slots" "gw_conn_for_id sample_slots rid = (if rid = 4095 then Some 7 else None)"
proof -
  have "slot_id 0 4095 = (4095 :: u32)" by (simp add: slot_id_def)
  then have a: "gw_alloc_id gw_slots_init (7 :: nat) = Some (4095, sample_slots)"
    by (simp add: sample_slots_def gw_alloc_id_def gw_slots_init_def NTC_MAX_INFLIGHT_def Let_def)
  show "slots_inv sample_slots" "gw_conn_for_id sample_slots rid = (if rid = 4095 then Some 7 else None)"
    using infl.alloc_map [OF slots_init_inv(1) a] by (auto simp: slots_init_inv(2))
qed

lemma sample_waiting_inv: "gw_inv sample_waiting"
proof -
  have "svc_shape (zero_service ''hello'' ''./hello'')"
    by (simp add: svc_shape_def zero_service_def NTC_MAX_REPLICAS_def NTC_BACKOFF_MAX_def)
  then have "svc_ok m 0 (zero_service ''hello'' ''./hello'')" for m
    by (rule svc_okI) (simp_all add: zero_service_def NTC_MAX_REPLICAS_def)
  then show ?thesis
    by (auto simp: gw_inv_def sample_waiting_def sample_conn_def zero_gateway_def sample_slots_bound conn_new_def new_ctrl_def
        split: if_splits)
qed

theorem stream_delivery_witness:
  "\<exists>g0. gw_deliver_begin sample_gw_env sample_waiting 4095
      (the (ntc_wire_encode_response_begin 200 0 ''text/plain'' 64)) = Some g0 \<and>
    (\<exists>g2. gw_deliver_end sample_gw_env g0 4095 = Some g2 \<and>
      (case g_conns g2 7 of
         None \<Rightarrow> \<exists>t. history 7 g2 = [t]
       | Some y \<Rightarrow> length (c_swbuf y) \<le> NTC_STREAM_MAX_BUF))"
proof -
  let ?p = "the (ntc_wire_encode_response_begin 200 0 ''text/plain'' 64)"
  have d: "ntc_wire_decode_response_begin ?p = Some (200, 0, ''text/plain'')" by code_simp
  have e: "c_extra_headers sample_conn = []" by (simp add: sample_conn_def conn_new_def)
  have "\<not> isl (ntc_http_format_stream_head (\<lambda>_. True) 200 (ntc_http_status_text 200) ''text/plain'' False None)" by code_simp
  then obtain head where h: "ntc_http_format_stream_head (\<lambda>_. True) 200 (ntc_http_status_text 200) ''text/plain'' False None = Inr head"
    by (cases "ntc_http_format_stream_head (\<lambda>_. True) 200 (ntc_http_status_text 200) ''text/plain'' False None") auto
  have f: "gw_conn_for_id (g_slots sample_waiting) 4095 = Some 7" "g_conns sample_waiting 7 = Some sample_conn" "unsent sample_conn"
    "history 7 sample_waiting = []"
    by (simp_all add: sample_waiting_def sample_slots_bound unsent_def sample_conn_def conn_new_def history_def zero_gateway_def)
  have grant: "ge_grant sample_gw_env = (\<lambda>_. True)" by (simp add: sample_gw_env_def)
  obtain g0 where g0: "gw_deliver_begin sample_gw_env sample_waiting 4095 ?p = Some g0"
    and run: "\<forall>ds g1. stream_run 7 4095 g0 ds g1 \<longrightarrow> (\<exists>g2. gw_deliver_end sample_gw_env g1 4095 = Some g2 \<and>
      (let s = head @ concat (map (stream_frame False) ds) @ stream_trailer False
         in case g_conns g2 7 of
              None \<Rightarrow> \<exists>t. history 7 g2 = t # history 7 sample_waiting \<and> prefix t s
            | Some y \<Rightarrow> outgoing y = s \<and> length (c_swbuf y) \<le> min (c_swcap y) NTC_STREAM_MAX_BUF \<and>
                (\<forall>n rest. c_tls y = None \<longrightarrow> send_loop (c_sock y) (c_swbuf y) (c_swsent y) = (Drained, n, rest) \<longrightarrow>
                  (\<exists>g3. on_writable sample_gw_env g2 7 = Some (- 1, g3) \<and> g_conns g3 7 = None \<and>
                    history 7 g3 = s # history 7 sample_waiting))))"
    using stream_delivery [OF sample_waiting_inv f(1-3) d, of False sample_gw_env head sample_gw_env sample_gw_env] h
    by (simp add: grant e NTC_STREAM_FLAG_SSE_def) blast
  have "\<exists>g2. gw_deliver_end sample_gw_env g0 4095 = Some g2 \<and>
      (case g_conns g2 7 of
         None \<Rightarrow> \<exists>t. history 7 g2 = [t]
       | Some y \<Rightarrow> length (c_swbuf y) \<le> NTC_STREAM_MAX_BUF)"
    using run [rule_format, OF start] f(4) by (auto simp: Let_def split: option.splits)
  with g0 show ?thesis by blast
qed

subsection \<open>Plain responses\<close>

lemma flush_flows:
  assumes "gw_inv g" "g_conns g c = Some x"
  shows "flows c g [] (conn_flush env g c)"
proof (cases "c_tls x")
  case None
  then show ?thesis using assms by (auto simp: conn_flush_def intro: on_writable_flows flows_close_now)
next
  case (Some rounds)
  have "flows c g ([] @ []) (do { (rc, g1) \<leftarrow> tls_drive_write env g c; if rc < 0 then Some (rc, g1) else tls_set_interest env g1 c })"
    by (rule flows_bind) (use Some assms in \<open>auto intro: tls_drive_write_safe tls_drive_write_flows set_interest_flows\<close>)
  with Some assms(2) show ?thesis by (simp add: conn_flush_def)
qed

lemma write_drains:
  assumes "gw_inv g" "g_conns g c = Some x" "c_tls x = None" "\<not> c_streaming x"
    and "send_loop (c_sock x) (c_wbuf x) (c_wsent x) = (Drained, n, rest)"
  shows "\<exists>g'. on_writable env g c = Some (- 1, g') \<and> g_conns g' c = None \<and> history c g' = outgoing x # history c g"
proof -
  let ?y = "x\<lparr>c_sock := rest, c_wsent := n, c_sent := c_sent x @ take (n - c_wsent x) (drop (c_wsent x) (c_wbuf x))\<rparr>"
  let ?h = "set_conn g c ?y"
  have hinv: "gw_inv ?h" by (rule quiet_inv [OF assms(1) quiet_set_conn [OF assms(2)]]) simp
  obtain k where k: "conn_close env ?h c = Some k" using conn_close_safe [OF hinv, of c ?y env] by auto
  have "c_sent ?y = outgoing x" using send_loop_moves [OF assms(5)] assms(4) by (auto simp: outgoing_def pending_def)
  then have "g_conns k c = None \<and> history c k = outgoing x # history c g"
    using conn_close_closed [OF k, of ?y] by (simp add: history_def)
  then show ?thesis using k assms(2-5) by (simp add: on_writable_def close_ret_def Let_def)
qed

lemma conn_respond_ready:
  assumes "g_conns g c = Some x" "conn_compress env x ctype body = (body1, eh)"
    and "ntc_http_format_response_ex (ge_grant env) status (ntc_http_status_text status) ctype
      (if eh \<noteq> [] then Some eh else None) body1 = Inr resp"
  shows "\<exists>h y. conn_respond env g c status ctype body = Some (0, h) \<and> g_conns h c = Some y \<and> c_wbuf y = resp \<and> c_wsent y = 0 \<and>
    c_sent y = c_sent x \<and> c_sock y = c_sock x \<and> c_tls y = c_tls x \<and> stream_mode y = stream_mode x \<and> g_closed h = g_closed g \<and>
    quiet c g h"
proof -
  let ?x1 = "x\<lparr>c_extra_headers := eh\<rparr>\<lparr>c_wbuf := resp, c_wsent := 0, c_state := CS_WRITE\<rparr>"
  obtain x2 lg where al: "access_log env g ?x1 status = (x2, lg)" by fastforce
  have "quiet c g ((set_conn g c x2)\<lparr>g_log := lg\<rparr>)"
    by (rule quiet_conn_log [OF assms(1)]) (use access_log_keeps [OF al] in \<open>simp add: keeps_def\<close>)
  then show ?thesis using access_log_same [OF al] assms al
    by (intro exI [of _ "(set_conn g c x2)\<lparr>g_log := lg\<rparr>"] exI [of _ x2]) (auto simp: conn_respond_def stream_mode_def)
qed


lemma send_resp_delivers:
  assumes inv: "gw_inv g" and x: "g_conns g c = Some x" and "c_sent x = []" "\<not> c_streaming x"
    and "conn_compress env x ctype body = (body1, eh)"
    and "ntc_http_format_response_ex (ge_grant env) status (ntc_http_status_text status) ctype
      (if eh \<noteq> [] then Some eh else None) body1 = Inr resp"
  shows "\<exists>rc g'. send_resp env g c status ctype body = Some (rc, g') \<and> quiet c g g' \<and>
    (case g_conns g' c of
       None \<Rightarrow> \<exists>t. history c g' = t # history c g \<and> prefix t resp
     | Some y \<Rightarrow> outgoing y = resp \<and> history c g' = history c g) \<and>
    (c_tls x = None \<and> ge_poll env c \<and> fst (send_loop (c_sock x) resp 0) = Drained \<longrightarrow>
       g_conns g' c = None \<and> history c g' = resp # history c g)"
proof -
  obtain h y where h: "conn_respond env g c status ctype body = Some (0, h)" "g_conns h c = Some y" "c_wbuf y = resp" "c_wsent y = 0"
    "c_sent y = c_sent x" "c_sock y = c_sock x" "c_tls y = c_tls x" "stream_mode y = stream_mode x" "g_closed h = g_closed g" "quiet c g h"
    using conn_respond_ready [OF x assms(5,6)] by blast
  have hinv: "gw_inv h" by (rule quiet_inv [OF inv h(10)])
  have ns: "\<not> c_streaming y" using h(8) assms(4) by (simp add: stream_mode_def)
  then have oy: "outgoing y = resp" using h assms(3) by (simp add: outgoing_def pending_def)
  have hist: "history c h = history c g" using h(9) by (simp add: history_def)
  obtain rc k where k: "conn_flush env h c = Some (rc, k)" "quiet c h k"
    using conn_flush_safe [OF hinv h(2), of env] unfolding conn_safe_def by (elim exE conjE)
  have "flowed c h [] k" using flush_flows [OF hinv h(2)] k(1) by (simp add: flows_def)
  then have "case g_conns k c of
       None \<Rightarrow> \<exists>t. history c k = t # history c g \<and> prefix t resp
     | Some y \<Rightarrow> outgoing y = resp \<and> history c k = history c g"
    using h(2) oy hist by (auto simp: flowed_def history_def split: option.splits)
  moreover have "g_conns k c = None \<and> history c k = resp # history c g"
    if d: "c_tls x = None" "ge_poll env c" "fst (send_loop (c_sock x) resp 0) = Drained"
  proof -
    obtain n rest where "send_loop (c_sock y) (c_wbuf y) (c_wsent y) = (Drained, n, rest)"
      using d(3) h by (metis prod.collapse)
    then have "\<exists>g'. on_writable env h c = Some (- 1, g') \<and> g_conns g' c = None \<and> history c g' = outgoing y # history c h"
      using write_drains [OF hinv h(2) _ ns] h(7) d(1) by simp
    then show ?thesis using k(1) h(2,7) d(1,2) oy hist by (auto simp: conn_flush_def)
  qed
  ultimately show ?thesis using h(1) k quiet_trans [OF h(10) k(2)] by (auto simp: send_resp_def)
qed

text \<open>
  C3 (\<open>response_delivery\<close>): a controller's response message for a waiting client unbinds the request id and
  makes the output of that client's connection exactly the formatted response (the
  controller's headers merged with those of the middleware, the body compressed when that applies): it
  is queued, or the connection is closed after a prefix of it was sent; a plain socket that takes it all
  closes with the whole response sent. No other connection changes.
\<close>

theorem response_delivery:
  assumes "gw_inv g" and "gw_conn_for_id (g_slots g) rid = Some c" and "g_conns g c = Some x" and "c_sent x = []" and "\<not> c_streaming x"
    and "ntc_wire_decode_response_ex payload = Some (status, ctype, body, hdrs)"
    and "conn_compress env (x\<lparr>c_extra_headers := merge_headers (c_extra_headers x) hdrs\<rparr>) ctype body = (body1, eh)"
    and "ntc_http_format_response_ex (ge_grant env) status (ntc_http_status_text status) ctype
      (if eh \<noteq> [] then Some eh else None) body1 = Inr resp"
  shows "\<exists>g'. gw_deliver env g rid payload = Some g' \<and> gw_conn_for_id (g_slots g') = (gw_conn_for_id (g_slots g))(rid := None) \<and>
    (\<forall>d. d \<noteq> c \<longrightarrow> g_conns g' d = g_conns g d) \<and>
    (case g_conns g' c of
       None \<Rightarrow> \<exists>t. history c g' = t # history c g \<and> prefix t resp
     | Some y \<Rightarrow> outgoing y = resp) \<and>
    (c_tls x = None \<and> ge_poll env c \<and> fst (send_loop (c_sock x) resp 0) = Drained \<longrightarrow>
       g_conns g' c = None \<and> history c g' = resp # history c g)"
proof -
  let ?x1 = "x\<lparr>c_inflight := False, c_extra_headers := merge_headers (c_extra_headers x) hdrs\<rparr>"
  let ?h = "set_conn (gw_release g rid) c ?x1" and ?g2 = "rec_status (set_conn (gw_release g rid) c ?x1) status"
  have hinv: "gw_inv ?h" by (rule detach_inv [OF assms(1-3)]) simp
  have ginv: "gw_inv ?g2" by (rule quiet_inv [OF hinv quiet_rec_status(1)])
  have comp: "conn_compress env ?x1 ctype body = (body1, eh)" using assms(7) by (simp add: conn_compress_def)
  have x1: "g_conns ?g2 c = Some ?x1" "history c ?g2 = history c g" "g_slots ?g2 = gw_free_id (g_slots g) rid"
    by (simp_all add: rec_status_def history_def gw_release_def gw_free_id_def Let_def)
  obtain rc g' where r: "send_resp env ?g2 c status ctype body = Some (rc, g')" "quiet c ?g2 g'"
    "case g_conns g' c of
       None \<Rightarrow> \<exists>t. history c g' = t # history c g \<and> prefix t resp
     | Some y \<Rightarrow> outgoing y = resp \<and> history c g' = history c g"
    "c_tls x = None \<and> ge_poll env c \<and> fst (send_loop (c_sock x) resp 0) = Drained \<longrightarrow> g_conns g' c = None \<and> history c g' = resp # history c g"
  proof -
    have "c_sent ?x1 = []" "\<not> c_streaming ?x1" using assms(4,5) by simp_all
    from send_resp_delivers [OF ginv x1(1) this comp assms(8)] show thesis
      unfolding x1(2) by (elim exE conjE, intro that) simp_all
  qed
  have "g_slots g' = g_slots ?g2" by (rule quiet_pending [OF r(2) ginv x1(1)]) simp
  then have "gw_conn_for_id (g_slots g') = (gw_conn_for_id (g_slots g))(rid := None)"
    using infl.release_map [OF gw_inv_slots [OF assms(1)] assms(2)] x1(3) by simp
  moreover have "g_conns g' d = g_conns g d" if "d \<noteq> c" for d
    using quiet_rest(2) [OF r(2) that] that by (simp add: gw_release_def)
  moreover have "gw_deliver env g rid payload = Some g'"
    using assms(2,3,6) r(1) by (simp add: gw_deliver_def gw_detach_def gw_release_def Let_def)
  ultimately show ?thesis using r(3,4) by (auto split: option.splits)
qed

theorem response_delivery_witness:
  "\<exists>g'. gw_deliver sample_gw_env sample_waiting 4095 (the (ntc_wire_encode_response 200 ''text/plain'' ''hi'' 64)) = Some g' \<and>
     gw_conn_for_id (g_slots g') 4095 = None"
proof -
  let ?p = "the (ntc_wire_encode_response 200 ''text/plain'' ''hi'' 64)"
  have d: "ntc_wire_decode_response_ex ?p = Some (200, ''text/plain'', ''hi'', [])" by code_simp
  have f: "gw_conn_for_id (g_slots sample_waiting) 4095 = Some 7" "g_conns sample_waiting 7 = Some sample_conn"
    "c_sent sample_conn = []" "\<not> c_streaming sample_conn"
    by (simp_all add: sample_waiting_def sample_slots_bound sample_conn_def conn_new_def)
  have k: "conn_compress sample_gw_env (sample_conn\<lparr>c_extra_headers := merge_headers (c_extra_headers sample_conn) []\<rparr>)
      ''text/plain'' ''hi'' = (''hi'', [])"
    by (simp add: conn_compress_def sample_conn_def conn_new_def merge_headers_def cstr_def)
  have grant: "ge_grant sample_gw_env = (\<lambda>_. True)" by (simp add: sample_gw_env_def)
  have "\<not> isl (ntc_http_format_response_ex (\<lambda>_. True) 200 (ntc_http_status_text 200) ''text/plain'' None ''hi'')" by code_simp
  then obtain resp where "ntc_http_format_response_ex (ge_grant sample_gw_env) 200 (ntc_http_status_text 200) ''text/plain''
      (if [] \<noteq> ([] :: string) then Some [] else None) ''hi'' = Inr resp"
    by (cases "ntc_http_format_response_ex (\<lambda>_. True) 200 (ntc_http_status_text 200) ''text/plain'' None ''hi''") (auto simp: grant)
  from response_delivery [OF sample_waiting_inv f d k this] show ?thesis by auto
qed

subsection \<open>Requests to controllers\<close>

definition ctrl_output :: "ctrl \<Rightarrow> byte list" where
  "ctrl_output ct = ct_sent ct @ drop (ct_wsent ct) (ct_wbuf ct)"

lemma ctrl_queue_appends:
  assumes "g_ctrls g t = Some ct" "ct_wsent ct \<le> length (ct_wbuf ct)"
    and "buf_reserve env (ct_wcap ct) (length (ct_wbuf ct) + NTC_WIRE_HEADER_LEN + length p) \<noteq> None"
  shows "\<exists>ct'. ctrl_queue env g t ty rid p = Some (0, set_ctrl g t ct') \<and> ct_svc ct' = ct_svc ct \<and>
    ct_wsent ct' \<le> length (ct_wbuf ct') \<and> ctrl_output ct' = ctrl_output ct @ enc_frame (wire_header ty rid p, p)"
  using assms by (auto simp: ctrl_queue_def ctrl_output_def enc_frame_def wire_header_def)

lemma ctrl_writable_keeps:
  assumes "gw_inv g" "g_ctrls g t = Some ct" "ct_wsent ct \<le> length (ct_wbuf ct)"
  shows "\<exists>g'. on_ctrl_writable env g t = Some g' \<and>
    (\<forall>ct'. g_ctrls g' t = Some ct' \<longrightarrow> ctrl_output ct' = ctrl_output ct \<and> ct_wsent ct' \<le> length (ct_wbuf ct'))"
proof -
  obtain d sent sock where s: "send_loop (ct_sock ct) (ct_wbuf ct) (ct_wsent ct) = (d, sent, sock)" by (metis prod_cases3)
  let ?ct1 = "ct\<lparr>ct_sock := sock, ct_wsent := sent, ct_sent := ct_sent ct @ take (sent - ct_wsent ct) (drop (ct_wsent ct) (ct_wbuf ct))\<rparr>"
  have o: "ctrl_output ?ct1 = ctrl_output ct"
    using sent_part [of "ct_wsent ct" sent "ct_wbuf ct"] send_loop_moves [OF s] by (simp add: ctrl_output_def)
  have inv1: "gw_inv (set_ctrl g t ?ct1)" by (rule set_ctrl_inv [OF assms(1,2)]) simp
  show ?thesis
  proof (cases d)
    case Failed
    obtain k where "controller_died env (set_ctrl g t ?ct1) t = Some k" "g_ctrls k t = None"
      using controller_died_safe [OF inv1, of t ?ct1 env] by auto
    then show ?thesis using assms(2) s Failed by (simp add: on_ctrl_writable_def)
  next
    case Blocked
    then show ?thesis using assms(2,3) s o send_loop_moves [OF s] by (simp add: on_ctrl_writable_def ctrl_update_poll_def)
  next
    case Drained
    then show ?thesis using assms(2) s o send_loop_moves [OF s]
      by (simp add: on_ctrl_writable_def ctrl_update_poll_def ctrl_output_def)
  qed
qed

text \<open>
  C4 (\<open>forward_delivery\<close>): forwarding a request to the chosen controller binds a fresh id to the
  waiting connection, leaves every other binding, connection and controller alone, and adds to
  the controller's stream exactly one frame, which the controller reads back, whatever follows
  it, as the request under that id. Writing to the controller later keeps the stream, unless the
  controller dies.
\<close>

theorem forward_delivery:
  assumes "gw_inv g0" and "g_conns g0 c = Some x" and "\<not> c_inflight x" and "svc < length (g_services g0)"
    and "gw_target g0 svc = (Some t, g)" and "g_ctrls g0 t = Some ct" and "ct_wsent ct \<le> length (ct_wbuf ct)"
    and "ge_grant env (NTC_CONN_RBUF + 1024)" and "ntc_wire_encode_request req (NTC_CONN_RBUF + 1024) = Some enc"
    and "length (rq_body req) < 2 ^ 32" and "gw_alloc_id (g_slots g0) c = Some (rid, s)"
    and "buf_reserve env (ct_wcap ct) (length (ct_wbuf ct) + NTC_WIRE_HEADER_LEN + length enc) \<noteq> None"
  shows "\<exists>g' ct'. gw_forward env g0 c req svc = Some (0, g') \<and> gw_inv g' \<and>
    gw_conn_for_id (g_slots g0) rid = None \<and> gw_conn_for_id (g_slots g') = (gw_conn_for_id (g_slots g0))(rid \<mapsto> c) \<and>
    g_conns g' = (g_conns g0)(c \<mapsto> x\<lparr>c_state := CS_WAIT, c_req_id := rid, c_inflight := True, c_wait_ctrl := Some t\<rparr>) \<and>
    g_ctrls g' = (g_ctrls g0)(t \<mapsto> ct') \<and>
    ctrl_output ct' = ctrl_output ct @ enc_frame (wire_header NTC_MSG_REQUEST rid enc, enc) \<and>
    (\<forall>more. ntc_wire_read_frame (enc_frame (wire_header NTC_MSG_REQUEST rid enc, enc) @ more) =
       Frame (wire_header NTC_MSG_REQUEST rid enc, enc) (length (enc_frame (wire_header NTC_MSG_REQUEST rid enc, enc)))) \<and>
    ntc_wire_decode_request enc = Some (wire_view req) \<and>
    (\<forall>env2. \<exists>g2. on_ctrl_writable env2 g' t = Some g2 \<and> (\<forall>ct2. g_ctrls g2 t = Some ct2 \<longrightarrow> ctrl_output ct2 = ctrl_output ct'))"
proof -
  obtain r where g: "g = set_svc g0 svc ((g_services g0 ! svc)\<lparr>sv_rr := r\<rparr>)"
    using assms(5) svc_pick_keeps [of "g_services g0 ! svc"] by (auto simp: gw_target_def Let_def split: if_splits prod.splits)
  have ginv: "gw_inv g" by (rule gw_target_safe(1) [OF assms(1,4,5)])
  have gx: "g_conns g c = Some x" "g_ctrls g t = Some ct" "g_slots g = g_slots g0" "g_conns g = g_conns g0" "g_ctrls g = g_ctrls g0"
    using assms(2,6) by (simp_all add: g)
  have al: "gw_alloc_id (g_slots g) c = Some (rid, s)" using assms(11) gx(3) by simp
  obtain ct' where q: "ctrl_queue env (g\<lparr>g_slots := s\<rparr>) t NTC_MSG_REQUEST rid enc = Some (0, set_ctrl (g\<lparr>g_slots := s\<rparr>) t ct')"
    "ct_wsent ct' \<le> length (ct_wbuf ct')" "ctrl_output ct' = ctrl_output ct @ enc_frame (wire_header NTC_MSG_REQUEST rid enc, enc)"
    using ctrl_queue_appends [of "g\<lparr>g_slots := s\<rparr>" t ct env enc NTC_MSG_REQUEST rid] assms(7,12) gx(2) by auto
  let ?x' = "x\<lparr>c_state := CS_WAIT, c_req_id := rid, c_inflight := True, c_wait_ctrl := Some t\<rparr>"
  let ?g' = "set_conn (set_ctrl (g\<lparr>g_slots := s\<rparr>) t ct') c ?x'"
  have inv': "gw_inv ?g'"
    using enqueue_safe [OF ginv gx(1) assms(3) gx(2) al, of env NTC_MSG_REQUEST enc] q(1) by auto
  have fw: "gw_forward env g0 c req svc = Some (0, ?g')"
    using assms(5,8,9) al q(1) gx(1) by (simp add: gw_forward_def ctrl_update_poll_def)
  have "ok32 (rq_body req)" using assms(10) by (simp add: ok32_def)
  then have e: "wire_request_ok (wire_view req)" "enc = enc_request (wire_view req)" "length enc \<le> NTC_CONN_RBUF + 1024"
    using assms(9) by (auto simp: encode_request_eq split: if_splits)
  have "wire_view (wire_view req) = wire_view req" by (simp add: wire_view_def)
  then have dec: "ntc_wire_decode_request enc = Some (wire_view req)"
    using decode_request_enc [OF e(1), of "[]"] assms(10) e(2) by (simp add: wire_view_def ok32_def)
  have "length enc < 2 ^ 32" using e(3) by (simp add: NTC_CONN_RBUF_def)
  then have rd: "ntc_wire_read_frame (enc_frame (wire_header NTC_MSG_REQUEST rid enc, enc) @ more) =
       Frame (wire_header NTC_MSG_REQUEST rid enc, enc) (length (enc_frame (wire_header NTC_MSG_REQUEST rid enc, enc)))" for more
    using wf.dec_frame_mono [OF wf.dec_enc [OF wire_header_ok]] by blast
  have wr: "\<exists>g2. on_ctrl_writable env2 ?g' t = Some g2 \<and> (\<forall>ct2. g_ctrls g2 t = Some ct2 \<longrightarrow> ctrl_output ct2 = ctrl_output ct')" for env2
    using ctrl_writable_keeps [OF inv', of t ct' env2] q(2) by auto
  show ?thesis
    by (rule exI [of _ ?g'], rule exI [of _ ct'])
      (use fw inv' infl.alloc_map [OF gw_inv_slots [OF assms(1)] assms(11)] q(3) dec rd wr gx in simp)
qed


definition sample_ready :: gateway where
  "sample_ready = (zero_gateway sample_gw_env None \<lparr>routes = [], rcap = 0\<rparr>)
     \<lparr>g_conns := [7 \<mapsto> conn_new sample_gw_env], g_ctrls := [3 \<mapsto> new_ctrl (sample_child 0 0) 0 []],
      g_services := [(zero_service ''hello'' ''./hello'')\<lparr>sv_conns := Some 3 # replicate 7 None\<rparr>]\<rparr>"

lemma sample_ready_inv: "gw_inv sample_ready"
proof -
  let ?svc = "(zero_service ''hello'' ''./hello'')\<lparr>sv_conns := Some 3 # replicate 7 None\<rparr>"
  have c: "sv_conns ?svc ! s = Some t \<Longrightarrow> s < NTC_MAX_REPLICAS \<Longrightarrow> s = 0 \<and> t = 3" for s t
    by (cases s) (auto simp: NTC_MAX_REPLICAS_def)
  have "svc_ok (g_ctrls sample_ready) 0 ?svc"
    by (rule svc_okI) (use c in \<open>auto simp: svc_shape_def zero_service_def sample_ready_def new_ctrl_def
        NTC_MAX_REPLICAS_def NTC_BACKOFF_MAX_def\<close>)
  then show ?thesis
    by (auto simp: gw_inv_def sample_ready_def zero_gateway_def slots_init_inv conn_new_def new_ctrl_def split: if_splits)
qed

theorem forward_delivery_witness:
  "\<exists>rid enc g' ct'. gw_forward sample_gw_env sample_ready 7 wire_sample_request 0 = Some (0, g') \<and>
     gw_conn_for_id (g_slots g') rid = Some 7 \<and> g_ctrls g' 3 = Some ct' \<and>
     ctrl_output ct' = ntc_wire_write_header NTC_MSG_WELCOME 0 0 @ enc_frame (wire_header NTC_MSG_REQUEST rid enc, enc) \<and>
     ntc_wire_decode_request enc = Some (wire_view wire_sample_request)"
proof -
  let ?ct = "new_ctrl (sample_child 0 0) 0 []" and ?enc = "enc_request (wire_view wire_sample_request)"
  have enc: "ntc_wire_encode_request wire_sample_request (NTC_CONN_RBUF + 1024) = Some ?enc" by code_simp
  obtain rid s where al: "gw_alloc_id (g_slots sample_ready) 7 = Some (rid, s)"
    by (simp add: sample_ready_def zero_gateway_def gw_alloc_id_def gw_slots_init_def NTC_MAX_INFLIGHT_def Let_def)
  obtain g where tg: "gw_target sample_ready 0 = (Some 3, g)"
    by (simp add: sample_ready_def gw_target_def svc_pick_def svc_n_def zero_service_def Let_def)
  have st: "g_conns sample_ready 7 = Some (conn_new sample_gw_env)" "g_ctrls sample_ready 3 = Some ?ct" "0 < length (g_services sample_ready)"
    by (simp_all add: sample_ready_def)
  have q: "\<not> c_inflight (conn_new sample_gw_env)" "ct_wsent ?ct \<le> length (ct_wbuf ?ct)" "ge_grant sample_gw_env (NTC_CONN_RBUF + 1024)"
    "length (rq_body wire_sample_request) < 2 ^ 32"
    "buf_reserve sample_gw_env (ct_wcap ?ct) (length (ct_wbuf ?ct) + NTC_WIRE_HEADER_LEN + length ?enc) \<noteq> None"
    by (simp_all add: conn_new_def new_ctrl_def sample_gw_env_def wire_sample_request_def buf_reserve_def Let_def)
  have "ctrl_output ?ct = ntc_wire_write_header NTC_MSG_WELCOME 0 0" by (simp add: ctrl_output_def new_ctrl_def)
  moreover from forward_delivery [OF sample_ready_inv st(1) q(1) st(3) tg st(2) q(2,3) enc q(4) al q(5)]
  obtain g' ct' where "gw_forward sample_gw_env sample_ready 7 wire_sample_request 0 = Some (0, g')"
    "gw_conn_for_id (g_slots g') = (gw_conn_for_id (g_slots sample_ready))(rid \<mapsto> 7)" "g_ctrls g' = (g_ctrls sample_ready)(3 \<mapsto> ct')"
    "ctrl_output ct' = ctrl_output ?ct @ enc_frame (wire_header NTC_MSG_REQUEST rid ?enc, ?enc)"
    "ntc_wire_decode_request ?enc = Some (wire_view wire_sample_request)"
    by (elim exE conjE)
  ultimately show ?thesis
    by (intro exI [of _ rid] exI [of _ ?enc] exI [of _ g'] exI [of _ ct']) simp
qed

end
