(* ===== verification/Sqlite.thy ===== *)
theory Sqlite
  imports Gateway "HOL-Library.AList"
begin

text \<open>
  The calls of the SQLite library that \<open>src/core/registry.c\<close> and \<open>src/core/session_store.c\<close>
  make. The library is not part of the sources: an engine is a parameter that takes a
  connection's state, the text of a statement and its bound values, and answers what
  \<open>sqlite3_prepare_v2\<close> and \<open>sqlite3_step\<close> report. What the sources rely on is the locale
  \<open>sql_db\<close>: against a meaning \<open>sem\<close> of the statements, a call that does not fail has that
  meaning, and a call that fails leaves the tables as they were.
\<close>

datatype sql_val = Sql_text string | Sql_int int

text \<open>
  \<open>Step_done n\<close>: \<open>SQLITE_DONE\<close>, with \<open>sqlite3_changes\<close> \<open>n\<close>. \<open>Step_rows rows fin\<close>: the rows
  \<open>sqlite3_step\<close> delivers as \<open>SQLITE_ROW\<close>, and whether they end with \<open>SQLITE_DONE\<close>.
\<close>

datatype sql_res = Prepare_error | Step_error | Step_done nat | Step_rows "sql_val list list" bool

type_synonym 'd sql_engine = "'d \<Rightarrow> string \<Rightarrow> sql_val list \<Rightarrow> sql_res \<times> 'd"

definition sql_failed :: "sql_res \<Rightarrow> bool" where
  "sql_failed r \<longleftrightarrow> r = Prepare_error \<or> r = Step_error"

text \<open>What may be answered where the statement means \<open>w\<close>.\<close>

fun sql_answers :: "sql_res \<Rightarrow> sql_res \<Rightarrow> bool" where
  "sql_answers Prepare_error w = True"
| "sql_answers Step_error w = True"
| "sql_answers (Step_done n) w = (w = Step_done n)"
| "sql_answers (Step_rows rs fin) w =
     (case w of Step_rows all _ \<Rightarrow> if fin then rs = all else prefix rs all | _ \<Rightarrow> False)"

locale sql_db =
  fixes sem :: "'t \<Rightarrow> string \<Rightarrow> sql_val list \<Rightarrow> (sql_res \<times> 't) option"
    and sq :: "'d sql_engine"
    and tables :: "'d \<Rightarrow> 't"
  assumes answers: "sem (tables d) sql ps = Some (w, t) \<Longrightarrow> sql_answers (fst (sq d sql ps)) w"
    and tables_after: "sem (tables d) sql ps = Some (w, t) \<Longrightarrow>
      tables (snd (sq d sql ps)) = (if sql_failed (fst (sq d sql ps)) then tables d else t)"
begin

text \<open>A statement that changes tables.\<close>

lemma done_cases:
  assumes "sem (tables d) sql ps = Some (Step_done n, t)"
  shows "sql_failed (fst (sq d sql ps)) \<and> tables (snd (sq d sql ps)) = tables d \<or>
    fst (sq d sql ps) = Step_done n \<and> tables (snd (sq d sql ps)) = t"
  using answers [OF assms] tables_after [OF assms]
  by (cases "fst (sq d sql ps)") (auto simp: sql_failed_def)

text \<open>A query.\<close>

lemma rows_cases:
  assumes "sem (tables d) sql ps = Some (Step_rows all True, tables d)"
  shows "tables (snd (sq d sql ps)) = tables d"
    and "sql_failed (fst (sq d sql ps)) \<or> fst (sq d sql ps) = Step_rows all True \<or>
      (\<exists>rs. fst (sq d sql ps) = Step_rows rs False \<and> prefix rs all)"
  using answers [OF assms] tables_after [OF assms]
  by (cases "fst (sq d sql ps)"; auto simp: sql_failed_def split: if_splits)+

end

text \<open>An engine that never fails: the meaning itself, with the tables as its state.\<close>

definition table_engine :: "('t \<Rightarrow> string \<Rightarrow> sql_val list \<Rightarrow> (sql_res \<times> 't) option) \<Rightarrow> 't sql_engine" where
  "table_engine sem t sql ps = (case sem t sql ps of Some r \<Rightarrow> r | None \<Rightarrow> (Prepare_error, t))"

text \<open>\<open>copy_text\<close> into \<open>cap\<close> bytes; \<open>None\<close>: with \<open>cap\<close> 0 it writes outside the destination.\<close>

definition copy_text :: "nat \<Rightarrow> string \<Rightarrow> string option" where
  "copy_text cap src = (if cap = 0 then None else Some (if length src \<ge> cap then take (cap - 1) src else src))"

lemma copy_text_take: "0 < cap \<Longrightarrow> copy_text cap s = Some (take (cap - 1) s)"
  by (auto simp: copy_text_def)

text \<open>\<open>sqlite3_column_text\<close> and \<open>sqlite3_column_int\<close> of a row.\<close>

definition col_text :: "sql_val list \<Rightarrow> nat \<Rightarrow> string" where
  "col_text row i = (case row ! i of Sql_text s \<Rightarrow> s | Sql_int n \<Rightarrow> fmt_int n)"

end
