(* ===== verification/Registry.thy ===== *)
theory Registry
  imports Sqlite
begin

text \<open>
  The control-plane registry (\<open>src/core/registry.c\<close>): services, routes and configuration in
  three SQL tables. The statements are the ones of the source; \<open>reg_sem\<close> gives
  them SQL's meaning on tables kept as lists of rows, in which a fresh \<open>INTEGER PRIMARY KEY\<close>
  is one more than the largest in use, and a deleted service takes its routes along
  when the connection has \<open>foreign_keys\<close> on. The functions run any engine that is a
  \<open>sql_db\<close> for this meaning, and refine an abstract registry without ids and joins, \<open>areg\<close>.
\<close>

subsection \<open>The tables\<close>

record service_rec =
  s_id :: nat
  s_name :: string
  s_bin :: string
  s_enabled :: int

record route_rec =
  r_id :: nat
  r_method :: string
  r_pattern :: string
  r_service_id :: nat

record reg_tables =
  rt_foreign_keys :: bool
  rt_services :: "service_rec list"
  rt_routes :: "route_rec list"
  rt_config :: "(string \<times> string) list"

definition SQL_SCHEMA :: string where
  "SQL_SCHEMA =
     ''PRAGMA foreign_keys=ON;'' @
     ''CREATE TABLE IF NOT EXISTS services('' @
     ''  id INTEGER PRIMARY KEY,'' @
     ''  name TEXT UNIQUE NOT NULL,'' @
     ''  bin TEXT NOT NULL,'' @
     ''  enabled INTEGER NOT NULL DEFAULT 1);'' @
     ''CREATE TABLE IF NOT EXISTS routes('' @
     ''  id INTEGER PRIMARY KEY,'' @
     ''  method TEXT NOT NULL,'' @
     ''  pattern TEXT NOT NULL,'' @
     ''  service_id INTEGER NOT NULL REFERENCES services(id) ON DELETE CASCADE,'' @
     ''  UNIQUE(method, pattern));'' @
     ''CREATE TABLE IF NOT EXISTS config('' @
     ''  key TEXT PRIMARY KEY,'' @
     ''  value TEXT NOT NULL);''"

definition SQL_ADD_SERVICE :: string where
  "SQL_ADD_SERVICE = ''INSERT INTO services(name,bin,enabled) VALUES(?1,?2,1) '' @
     ''ON CONFLICT(name) DO UPDATE SET bin=excluded.bin,enabled=1''"

definition SQL_REMOVE_SERVICE :: string where
  "SQL_REMOVE_SERVICE = ''DELETE FROM services WHERE name=?1''"

definition SQL_ADD_ROUTE :: string where
  "SQL_ADD_ROUTE = ''INSERT INTO routes(method,pattern,service_id) '' @
     ''SELECT ?1,?2,id FROM services WHERE name=?3 '' @
     ''ON CONFLICT(method,pattern) DO UPDATE SET service_id=excluded.service_id''"

definition SQL_LIST_SERVICES :: string where
  "SQL_LIST_SERVICES = ''SELECT name,bin,enabled FROM services WHERE enabled=1 ORDER BY id''"

definition SQL_LIST_ROUTES :: string where
  "SQL_LIST_ROUTES = ''SELECT r.method,r.pattern,s.name FROM routes r '' @
     ''JOIN services s ON r.service_id=s.id WHERE s.enabled=1 ORDER BY r.id''"

definition SQL_GET_CONFIG :: string where
  "SQL_GET_CONFIG = ''SELECT value FROM config WHERE key=?1''"

definition SQL_SET_CONFIG :: string where
  "SQL_SET_CONFIG = ''INSERT INTO config(key,value) VALUES(?1,?2) '' @
     ''ON CONFLICT(key) DO UPDATE SET value=excluded.value''"

lemmas reg_sql_defs = SQL_SCHEMA_def SQL_ADD_SERVICE_def SQL_REMOVE_SERVICE_def SQL_ADD_ROUTE_def
  SQL_LIST_SERVICES_def SQL_LIST_ROUTES_def SQL_GET_CONFIG_def SQL_SET_CONFIG_def

definition empty_reg :: reg_tables where
  "empty_reg = \<lparr>rt_foreign_keys = False, rt_services = [], rt_routes = [], rt_config = []\<rparr>"

definition fresh_id :: "nat list \<Rightarrow> nat" where
  "fresh_id ids = Suc (fold max ids 0)"

subsection \<open>What the statements mean\<close>

definition upsert_service :: "string \<Rightarrow> string \<Rightarrow> service_rec list \<Rightarrow> service_rec list" where
  "upsert_service name bin rows =
     (if name \<in> set (map s_name rows)
      then map (\<lambda>s. if s_name s = name then s\<lparr>s_bin := bin, s_enabled := 1\<rparr> else s) rows
      else rows @ [\<lparr>s_id = fresh_id (map s_id rows), s_name = name, s_bin = bin, s_enabled = 1\<rparr>])"

definition delete_service :: "string \<Rightarrow> reg_tables \<Rightarrow> nat \<times> reg_tables" where
  "delete_service name t =
     (let gone = filter (\<lambda>s. s_name s = name) (rt_services t)
      in (length gone,
          t\<lparr>rt_services := filter (\<lambda>s. s_name s \<noteq> name) (rt_services t),
            rt_routes := (if rt_foreign_keys t then filter (\<lambda>r. r_service_id r \<notin> set (map s_id gone)) (rt_routes t)
                          else rt_routes t)\<rparr>))"

definition upsert_route :: "string \<Rightarrow> string \<Rightarrow> nat \<Rightarrow> route_rec list \<Rightarrow> route_rec list" where
  "upsert_route m p sid rows =
     (if (m, p) \<in> set (map (\<lambda>r. (r_method r, r_pattern r)) rows)
      then map (\<lambda>r. if r_method r = m \<and> r_pattern r = p then r\<lparr>r_service_id := sid\<rparr> else r) rows
      else rows @ [\<lparr>r_id = fresh_id (map r_id rows), r_method = m, r_pattern = p, r_service_id = sid\<rparr>])"

definition select_services :: "reg_tables \<Rightarrow> sql_val list list" where
  "select_services t =
     [[Sql_text (s_name s), Sql_text (s_bin s), Sql_int (s_enabled s)]. s \<leftarrow> sort_key s_id (rt_services t), s_enabled s = 1]"

definition select_routes :: "reg_tables \<Rightarrow> sql_val list list" where
  "select_routes t =
     [[Sql_text (r_method r), Sql_text (r_pattern r), Sql_text (s_name s)].
        r \<leftarrow> sort_key r_id (rt_routes t), s \<leftarrow> rt_services t, r_service_id r = s_id s \<and> s_enabled s = 1]"

definition reg_sem :: "reg_tables \<Rightarrow> string \<Rightarrow> sql_val list \<Rightarrow> (sql_res \<times> reg_tables) option" where
  "reg_sem t sql ps =
     (if sql = SQL_SCHEMA \<and> ps = [] then Some (Step_done 0, t\<lparr>rt_foreign_keys := True\<rparr>)
      else if sql = SQL_LIST_SERVICES \<and> ps = [] then Some (Step_rows (select_services t) True, t)
      else if sql = SQL_LIST_ROUTES \<and> ps = [] then Some (Step_rows (select_routes t) True, t)
      else
        case ps of
          [Sql_text a] \<Rightarrow>
            (if sql = SQL_REMOVE_SERVICE then (case delete_service a t of (n, t1) \<Rightarrow> Some (Step_done n, t1))
             else if sql = SQL_GET_CONFIG then
               Some (Step_rows (case map_of (rt_config t) a of Some v \<Rightarrow> [[Sql_text v]] | None \<Rightarrow> []) True, t)
             else None)
        | [Sql_text a, Sql_text b] \<Rightarrow>
            (if sql = SQL_ADD_SERVICE then Some (Step_done 1, t\<lparr>rt_services := upsert_service a b (rt_services t)\<rparr>)
             else if sql = SQL_SET_CONFIG then Some (Step_done 1, t\<lparr>rt_config := AList.update a b (rt_config t)\<rparr>)
             else None)
        | [Sql_text a, Sql_text b, Sql_text c] \<Rightarrow>
            (if sql = SQL_ADD_ROUTE then
               (let sids = map s_id (filter (\<lambda>s. s_name s = c) (rt_services t))
                in Some (Step_done (length sids), t\<lparr>rt_routes := fold (upsert_route a b) sids (rt_routes t)\<rparr>))
             else None)
        | _ \<Rightarrow> None)"

interpretation reg_engine: sql_db reg_sem "table_engine reg_sem" "\<lambda>t. t"
proof
  show "sql_answers (fst (table_engine reg_sem d sql ps)) w" if "reg_sem d sql ps = Some (w, t)" for d sql ps w t
  proof -
    have "w = Step_rows rs fin \<Longrightarrow> fin = True" for rs fin
      using that by (auto simp: reg_sem_def Let_def split: if_splits list.splits sql_val.splits prod.splits)
    then show ?thesis by (cases w) (auto simp: table_engine_def that)
  qed
  show "snd (table_engine reg_sem d sql ps) = (if sql_failed (fst (table_engine reg_sem d sql ps)) then d else t)"
    if "reg_sem d sql ps = Some (w, t)" for d sql ps w t
  proof -
    have "\<not> sql_failed w"
      using that by (auto simp: reg_sem_def sql_failed_def Let_def split: if_splits list.splits sql_val.splits prod.splits)
    then show ?thesis by (simp add: table_engine_def that)
  qed
qed

lemma reg_sem_stmts:
  "reg_sem t SQL_SCHEMA [] = Some (Step_done 0, t\<lparr>rt_foreign_keys := True\<rparr>)"
  "reg_sem t SQL_LIST_SERVICES [] = Some (Step_rows (select_services t) True, t)"
  "reg_sem t SQL_LIST_ROUTES [] = Some (Step_rows (select_routes t) True, t)"
  "reg_sem t SQL_REMOVE_SERVICE [Sql_text a] = Some (Step_done (fst (delete_service a t)), snd (delete_service a t))"
  "reg_sem t SQL_GET_CONFIG [Sql_text a] =
     Some (Step_rows (case map_of (rt_config t) a of Some v \<Rightarrow> [[Sql_text v]] | None \<Rightarrow> []) True, t)"
  "reg_sem t SQL_ADD_SERVICE [Sql_text a, Sql_text b] = Some (Step_done 1, t\<lparr>rt_services := upsert_service a b (rt_services t)\<rparr>)"
  "reg_sem t SQL_SET_CONFIG [Sql_text a, Sql_text b] = Some (Step_done 1, t\<lparr>rt_config := AList.update a b (rt_config t)\<rparr>)"
  "reg_sem t SQL_ADD_ROUTE [Sql_text a, Sql_text b, Sql_text c] =
     Some (Step_done (length (filter (\<lambda>s. s_name s = c) (rt_services t))),
       t\<lparr>rt_routes := fold (upsert_route a b) (map s_id (filter (\<lambda>s. s_name s = c) (rt_services t))) (rt_routes t)\<rparr>)"
  by (simp_all add: reg_sem_def reg_sql_defs Let_def split: prod.splits)

subsection \<open>The functions of the source\<close>

text \<open>A NULL argument is \<open>None\<close>; the registry handle is the connection's state.\<close>

definition ntc_registry_open ::
  "'d sql_engine \<Rightarrow> bool \<Rightarrow> (string \<Rightarrow> 'd option) \<Rightarrow> string option \<Rightarrow> ntc_err + 'd" where
  "ntc_registry_open sq alloc sqlite3_open path =
     (case path of
        None \<Rightarrow> Inl NTC_ERR_INVALID
      | Some p \<Rightarrow>
          if \<not> alloc then Inl NTC_ERR_OOM
          else case sqlite3_open p of
                 None \<Rightarrow> Inl NTC_ERR_IO
               | Some d \<Rightarrow>
                   (case sq d SQL_SCHEMA [] of
                      (Step_done _, d1) \<Rightarrow> Inr d1
                    | _ \<Rightarrow> Inl NTC_ERR_INTERNAL))"

definition ntc_registry_add_service :: "'d sql_engine \<Rightarrow> 'd \<Rightarrow> string option \<Rightarrow> string option \<Rightarrow> ntc_err \<times> 'd" where
  "ntc_registry_add_service sq d name bin =
     (case (name, bin) of
        (Some n, Some b) \<Rightarrow>
          (case sq d SQL_ADD_SERVICE [Sql_text n, Sql_text b] of
             (Step_done _, d1) \<Rightarrow> (NTC_OK, d1)
           | (_, d1) \<Rightarrow> (NTC_ERR_INTERNAL, d1))
      | _ \<Rightarrow> (NTC_ERR_INVALID, d))"

definition ntc_registry_remove_service :: "'d sql_engine \<Rightarrow> 'd \<Rightarrow> string option \<Rightarrow> ntc_err \<times> 'd" where
  "ntc_registry_remove_service sq d name =
     (case name of
        Some n \<Rightarrow>
          (case sq d SQL_REMOVE_SERVICE [Sql_text n] of
             (Step_done changes, d1) \<Rightarrow> (if changes > 0 then NTC_OK else NTC_ERR_NOT_FOUND, d1)
           | (_, d1) \<Rightarrow> (NTC_ERR_INTERNAL, d1))
      | None \<Rightarrow> (NTC_ERR_INVALID, d))"

definition ntc_registry_add_route ::
  "'d sql_engine \<Rightarrow> 'd \<Rightarrow> string option \<Rightarrow> string option \<Rightarrow> string option \<Rightarrow> ntc_err \<times> 'd" where
  "ntc_registry_add_route sq d meth pattern service =
     (case (meth, pattern, service) of
        (Some m, Some p, Some s) \<Rightarrow>
          (case sq d SQL_ADD_ROUTE [Sql_text m, Sql_text p, Sql_text s] of
             (Step_done changes, d1) \<Rightarrow> (if changes > 0 then NTC_OK else NTC_ERR_NOT_FOUND, d1)
           | (_, d1) \<Rightarrow> (NTC_ERR_INTERNAL, d1))
      | _ \<Rightarrow> (NTC_ERR_INVALID, d))"

text \<open>
  The fetch loops stop at \<open>max\<close> rows or when \<open>sqlite3_step\<close> returns anything but a row;
  \<open>None\<close> stands for a write out of bounds.
\<close>

definition service_row :: "sql_val list \<Rightarrow> ntc_service_row option" where
  "service_row row = do { n \<leftarrow> copy_text 64 (col_text row 0); b \<leftarrow> copy_text 256 (col_text row 1);
     Some \<lparr>sr_name = n, sr_bin = b\<rparr> }"

definition route_row :: "sql_val list \<Rightarrow> ntc_route_row option" where
  "route_row row = do { m \<leftarrow> copy_text 8 (col_text row 0); p \<leftarrow> copy_text 128 (col_text row 1); s \<leftarrow> copy_text 64 (col_text row 2);
     Some \<lparr>rr_method = m, rr_pattern = p, rr_service = s\<rparr> }"

definition fetch_rows :: "(sql_val list \<Rightarrow> 'r option) \<Rightarrow> nat \<Rightarrow> sql_res \<Rightarrow> (ntc_err + 'r list) option" where
  "fetch_rows f n r =
     (case r of
        Prepare_error \<Rightarrow> Some (Inl NTC_ERR_INTERNAL)
      | Step_rows rows _ \<Rightarrow> map_option Inr (those (map f (take n rows)))
      | _ \<Rightarrow> Some (Inr []))"

definition ntc_registry_list_services :: "'d sql_engine \<Rightarrow> 'd \<Rightarrow> nat \<Rightarrow> (ntc_err + ntc_service_row list) option \<times> 'd" where
  "ntc_registry_list_services sq d n =
     (case sq d SQL_LIST_SERVICES [] of (r, d1) \<Rightarrow> (fetch_rows service_row n r, d1))"

definition ntc_registry_list_routes :: "'d sql_engine \<Rightarrow> 'd \<Rightarrow> nat \<Rightarrow> (ntc_err + ntc_route_row list) option \<times> 'd" where
  "ntc_registry_list_routes sq d n =
     (case sq d SQL_LIST_ROUTES [] of (r, d1) \<Rightarrow> (fetch_rows route_row n r, d1))"

text \<open>The result is what \<open>out\<close> holds when \<open>found\<close>; the outer option is as for the lists.\<close>

definition ntc_registry_get_config ::
  "'d sql_engine \<Rightarrow> 'd \<Rightarrow> string option \<Rightarrow> nat \<Rightarrow> (ntc_err + string option) option \<times> 'd" where
  "ntc_registry_get_config sq d key cap =
     (case key of
        None \<Rightarrow> (Some (Inl NTC_ERR_INVALID), d)
      | Some k \<Rightarrow>
          (case sq d SQL_GET_CONFIG [Sql_text k] of
             (Prepare_error, d1) \<Rightarrow> (Some (Inl NTC_ERR_INTERNAL), d1)
           | (Step_rows (row # _) _, d1) \<Rightarrow> (map_option (Inr \<circ> Some) (copy_text cap (col_text row 0)), d1)
           | (_, d1) \<Rightarrow> (Some (Inr None), d1)))"

definition ntc_registry_set_config :: "'d sql_engine \<Rightarrow> 'd \<Rightarrow> string option \<Rightarrow> string option \<Rightarrow> ntc_err \<times> 'd" where
  "ntc_registry_set_config sq d key val =
     (case (key, val) of
        (Some k, Some v) \<Rightarrow>
          (case sq d SQL_SET_CONFIG [Sql_text k, Sql_text v] of
             (Step_done _, d1) \<Rightarrow> (NTC_OK, d1)
           | (_, d1) \<Rightarrow> (NTC_ERR_INTERNAL, d1))
      | _ \<Rightarrow> (NTC_ERR_INVALID, d))"

subsection \<open>Well-formed tables\<close>

definition rows_wf :: "reg_tables \<Rightarrow> bool" where
  "rows_wf t \<longleftrightarrow>
     distinct (map s_name (rt_services t)) \<and> sorted_wrt (<) (map s_id (rt_services t)) \<and>
     list_all (\<lambda>s. s_enabled s = 1) (rt_services t) \<and>
     distinct (map (\<lambda>r. (r_method r, r_pattern r)) (rt_routes t)) \<and> sorted_wrt (<) (map r_id (rt_routes t)) \<and>
     list_all (\<lambda>r. r_service_id r \<in> set (map s_id (rt_services t))) (rt_routes t) \<and>
     distinct (map fst (rt_config t))"

definition reg_wf :: "reg_tables \<Rightarrow> bool" where
  "reg_wf t \<longleftrightarrow> rt_foreign_keys t \<and> rows_wf t"

subsection \<open>The abstract registry\<close>

record areg =
  a_services :: "(string \<times> string) list"
  a_routes :: "((string \<times> string) \<times> string) list"
  a_config :: "string \<rightharpoonup> string"

definition service_name :: "service_rec list \<Rightarrow> nat \<Rightarrow> string" where
  "service_name rows i = (case find (\<lambda>s. s_id s = i) rows of Some s \<Rightarrow> s_name s | None \<Rightarrow> [])"

definition abs_reg :: "reg_tables \<Rightarrow> areg" where
  "abs_reg t =
     \<lparr>a_services = map (\<lambda>s. (s_name s, s_bin s)) (rt_services t),
      a_routes = map (\<lambda>r. ((r_method r, r_pattern r), service_name (rt_services t) (r_service_id r))) (rt_routes t),
      a_config = map_of (rt_config t)\<rparr>"

fun areg_run :: "reg_op \<Rightarrow> areg \<Rightarrow> ntc_err \<times> areg" where
  "areg_run (Reg_add_service n b) a = (NTC_OK, a\<lparr>a_services := AList.update n b (a_services a)\<rparr>)"
| "areg_run (Reg_remove_service n) a =
     (if n \<in> fst ` set (a_services a)
      then (NTC_OK, a\<lparr>a_services := filter (\<lambda>(n', _). n' \<noteq> n) (a_services a), a_routes := filter (\<lambda>(_, s). s \<noteq> n) (a_routes a)\<rparr>)
      else (NTC_ERR_NOT_FOUND, a))"
| "areg_run (Reg_add_route m p s) a =
     (if s \<in> fst ` set (a_services a) then (NTC_OK, a\<lparr>a_routes := AList.update (m, p) s (a_routes a)\<rparr>)
      else (NTC_ERR_NOT_FOUND, a))"
| "areg_run (Reg_set_config k v) a = (NTC_OK, a\<lparr>a_config := (a_config a)(k \<mapsto> v)\<rparr>)"

fun reg_run :: "'d sql_engine \<Rightarrow> reg_op \<Rightarrow> 'd \<Rightarrow> ntc_err \<times> 'd" where
  "reg_run sq (Reg_add_service n b) d = ntc_registry_add_service sq d (Some n) (Some b)"
| "reg_run sq (Reg_remove_service n) d = ntc_registry_remove_service sq d (Some n)"
| "reg_run sq (Reg_add_route m p s) d = ntc_registry_add_route sq d (Some m) (Some p) (Some s)"
| "reg_run sq (Reg_set_config k v) d = ntc_registry_set_config sq d (Some k) (Some v)"

subsection \<open>Rows and their keys\<close>

lemma fold_max_ge: "x \<le> fold max xs (x :: nat)"
  by (induction xs arbitrary: x) (auto intro: order_trans max.cobounded2)

lemma fold_max_upper: "y \<in> set xs \<Longrightarrow> y \<le> fold max xs (x :: nat)"
proof (induction xs arbitrary: x)
  case (Cons a xs)
  then show ?case using fold_max_ge [of "max a x" xs] by auto
qed simp

lemma fresh_id_upper: "y \<in> set xs \<Longrightarrow> y < fresh_id xs"
  using fold_max_upper [of y xs 0] by (simp add: fresh_id_def)

lemma sorted_keys_distinct: "sorted_wrt (<) (xs :: nat list) \<Longrightarrow> distinct xs"
  by (induction xs) auto

lemma sort_key_sorted:
  assumes "sorted_wrt (<) (map f xs :: nat list)"
  shows "sort_key f xs = xs"
  using assms by (simp add: sorted_sort_id sort_key_id_if_sorted strict_sorted_imp_sorted)

lemma service_name_append:
  "i \<in> set (map s_id rows) \<Longrightarrow> service_name (rows @ [s]) i = service_name rows i"
proof (induction rows)
  case (Cons a rows)
  then show ?case by (auto simp: service_name_def)
qed simp

lemma service_name_mem:
  assumes "distinct (map s_id rows)" "s \<in> set rows"
  shows "service_name rows (s_id s) = s_name s"
proof -
  have "find (\<lambda>x. s_id x = s_id s) rows = Some s"
    using assms by (induction rows) (auto simp: image_iff)
  then show ?thesis by (simp add: service_name_def)
qed

lemma service_name_map:
  assumes "\<And>s. s_id (f s) = s_id s" "\<And>s. s_name (f s) = s_name s"
  shows "service_name (map f rows) i = service_name rows i"
  using assms by (induction rows) (auto simp: service_name_def)

lemma id_name_inj:
  assumes "distinct (map s_name rows)" "s \<in> set rows" "s' \<in> set rows" "s_name s = s_name s'"
  shows "s = s'"
  using assms by (metis distinct_map inj_onD)

lemma name_id_inj:
  assumes "distinct (map s_id rows)" "s \<in> set rows" "s' \<in> set rows" "s_id s = s_id s'"
  shows "s = s'"
  using assms by (metis distinct_map inj_onD)

lemma rows_wfD:
  assumes "rows_wf t"
  shows "distinct (map s_name (rt_services t))" "distinct (map s_id (rt_services t))" "sorted_wrt (<) (map s_id (rt_services t))"
    "s \<in> set (rt_services t) \<Longrightarrow> s_enabled s = 1"
    "distinct (map (\<lambda>r. (r_method r, r_pattern r)) (rt_routes t))" "sorted_wrt (<) (map r_id (rt_routes t))"
    "r \<in> set (rt_routes t) \<Longrightarrow> r_service_id r \<in> set (map s_id (rt_services t))"
    "distinct (map fst (rt_config t))"
  using assms by (auto simp: rows_wf_def list_all_iff sorted_keys_distinct)

subsection \<open>Adding a service\<close>

lemma upsert_service_keys:
  assumes "name \<in> set (map s_name rows)"
  shows "map s_id (upsert_service name bin rows) = map s_id rows" "map s_name (upsert_service name bin rows) = map s_name rows"
  using assms by (auto simp: upsert_service_def)

lemma upsert_service_wf:
  assumes "rows_wf t"
  shows "rows_wf (t\<lparr>rt_services := upsert_service n b (rt_services t)\<rparr>)"
proof (cases "n \<in> set (map s_name (rt_services t))")
  case True
  have "list_all (\<lambda>s. s_enabled s = 1) (upsert_service n b (rt_services t))"
    using assms by (auto simp: upsert_service_def rows_wf_def list_all_iff)
  then show ?thesis using assms by (simp add: rows_wf_def upsert_service_keys [OF True])
next
  case False
  then show ?thesis using assms
    by (auto simp: rows_wf_def upsert_service_def sorted_wrt_append list_all_iff fresh_id_upper)
qed

lemma upsert_service_update:
  assumes "distinct (map s_name rows)"
  shows "map (\<lambda>s. (s_name s, s_bin s)) (upsert_service n b rows) = AList.update n b (map (\<lambda>s. (s_name s, s_bin s)) rows)"
proof (cases "n \<in> set (map s_name rows)")
  case True
  have "AList.update n b (map (\<lambda>s. (s_name s, s_bin s)) rows)
      = map (\<lambda>s. (s_name s, s_bin s)) (map (\<lambda>s. if s_name s = n then s\<lparr>s_bin := b, s_enabled := 1\<rparr> else s) rows)"
    using True assms
  proof (induction rows)
    case (Cons a rows)
    show ?case
    proof (cases "s_name a = n")
      case True
      then have "s_name x \<noteq> n" if "x \<in> set rows" for x using Cons.prems(2) that by (auto simp: image_iff)
      then show ?thesis using True by simp
    next
      case False
      then show ?thesis using Cons by simp
    qed
  qed simp
  then show ?thesis using True by (simp add: upsert_service_def)
next
  case False
  then have "AList.update n b (map (\<lambda>s. (s_name s, s_bin s)) rows) = map (\<lambda>s. (s_name s, s_bin s)) rows @ [(n, b)]"
    by (induction rows) auto
  then show ?thesis using False by (simp add: upsert_service_def)
qed

lemma upsert_service_names:
  assumes "i \<in> set (map s_id rows)"
  shows "service_name (upsert_service n b rows) i = service_name rows i"
  using assms by (auto simp: upsert_service_def service_name_map service_name_append)

lemma add_service_abs:
  assumes "rows_wf t"
  shows "abs_reg (t\<lparr>rt_services := upsert_service n b (rt_services t)\<rparr>) = snd (areg_run (Reg_add_service n b) (abs_reg t))"
proof -
  have "service_name (upsert_service n b (rt_services t)) (r_service_id r) = service_name (rt_services t) (r_service_id r)"
    if "r \<in> set (rt_routes t)" for r using rows_wfD(7) [OF assms that] by (rule upsert_service_names)
  then show ?thesis by (simp add: abs_reg_def upsert_service_update [OF rows_wfD(1) [OF assms]])
qed

subsection \<open>Removing a service\<close>

lemma service_name_filter:
  assumes "distinct (map s_id rows)" "s \<in> set rows" "s_name s \<noteq> n"
  shows "service_name (filter (\<lambda>s. s_name s \<noteq> n) rows) (s_id s) = s_name s"
  using assms by (intro service_name_mem) (auto simp: distinct_map_filter)

lemma delete_service_wf:
  assumes "reg_wf t"
  shows "reg_wf (snd (delete_service n t))"
proof -
  have "r_service_id r \<in> set (map s_id (filter (\<lambda>s. s_name s \<noteq> n) (rt_services t)))"
    if "r \<in> set (rt_routes t)" "r_service_id r \<notin> set (map s_id (filter (\<lambda>s. s_name s = n) (rt_services t)))" for r
    using that rows_wfD(7) [of t r] assms by (auto simp: reg_wf_def)
  then show ?thesis using assms
    by (simp add: reg_wf_def rows_wf_def delete_service_def Let_def distinct_map_filter list_all_iff sorted_wrt_map sorted_wrt_filter)
qed

lemma remove_service_abs:
  assumes "reg_wf t"
  shows "(if fst (delete_service n t) > 0 then NTC_OK else NTC_ERR_NOT_FOUND, abs_reg (snd (delete_service n t)))
    = areg_run (Reg_remove_service n) (abs_reg t)"
proof -
  let ?ss = "rt_services t"
  have wf: "rows_wf t" "rt_foreign_keys t" using assms by (auto simp: reg_wf_def)
  have in_iff: "n \<in> fst ` set (a_services (abs_reg t)) \<longleftrightarrow> filter (\<lambda>s. s_name s = n) ?ss \<noteq> []"
    by (force simp: abs_reg_def filter_empty_conv)
  have svcs: "map (\<lambda>s. (s_name s, s_bin s)) (filter (\<lambda>s. s_name s \<noteq> n) ?ss) = filter (\<lambda>(n', _). n' \<noteq> n) (map (\<lambda>s. (s_name s, s_bin s)) ?ss)"
    by (simp add: filter_map comp_def)
  have owner: "\<exists>s \<in> set ?ss. r_service_id r = s_id s \<and> service_name ?ss (r_service_id r) = s_name s" if "r \<in> set (rt_routes t)" for r
    using rows_wfD(7) [OF wf(1) that] service_name_mem [OF rows_wfD(2) [OF wf(1)]] by auto
  have gone: "r_service_id r \<in> set (map s_id (filter (\<lambda>s. s_name s = n) ?ss)) \<longleftrightarrow> service_name ?ss (r_service_id r) = n"
    if "r \<in> set (rt_routes t)" for r
    using owner [OF that] by (auto simp: image_iff dest: name_id_inj [OF rows_wfD(2) [OF wf(1)]])
  have keep: "service_name (filter (\<lambda>s. s_name s \<noteq> n) ?ss) (r_service_id r) = service_name ?ss (r_service_id r)"
    if "r \<in> set (rt_routes t)" "service_name ?ss (r_service_id r) \<noteq> n" for r
    using owner [OF that(1)] that(2) service_name_filter [OF rows_wfD(2) [OF wf(1)]] by auto
  have rts: "map (\<lambda>r. ((r_method r, r_pattern r), service_name (filter (\<lambda>s. s_name s \<noteq> n) ?ss) (r_service_id r)))
      (filter (\<lambda>r. r_service_id r \<notin> set (map s_id (filter (\<lambda>s. s_name s = n) ?ss))) (rt_routes t))
    = filter (\<lambda>(_, s). s \<noteq> n) (map (\<lambda>r. ((r_method r, r_pattern r), service_name ?ss (r_service_id r))) (rt_routes t))"
  proof -
    have "filter (\<lambda>r. r_service_id r \<notin> set (map s_id (filter (\<lambda>s. s_name s = n) ?ss))) (rt_routes t)
        = filter (\<lambda>r. service_name ?ss (r_service_id r) \<noteq> n) (rt_routes t)"
      by (rule filter_cong) (use gone in auto)
    then show ?thesis by (auto simp: filter_map comp_def keep)
  qed
  have same: "delete_service n t = (0, t)" if "filter (\<lambda>s. s_name s = n) ?ss = []"
  proof -
    have "filter (\<lambda>s. s_name s \<noteq> n) ?ss = ?ss" using that by (simp add: filter_empty_conv filter_id_conv)
    then show ?thesis using that by (simp add: delete_service_def)
  qed
  show ?thesis
  proof (cases "filter (\<lambda>s. s_name s = n) ?ss = []")
    case True
    then show ?thesis using in_iff by (simp add: same)
  next
    case False
    then have "0 < fst (delete_service n t)" by (simp add: delete_service_def Let_def)
    moreover have "abs_reg (snd (delete_service n t)) = (abs_reg t)\<lparr>a_services := filter (\<lambda>(n', _). n' \<noteq> n) (a_services (abs_reg t)),
        a_routes := filter (\<lambda>(_, s). s \<noteq> n) (a_routes (abs_reg t))\<rparr>"
      using rts svcs wf(2) by (simp add: delete_service_def abs_reg_def Let_def)
    ultimately show ?thesis using False in_iff by simp
  qed
qed

subsection \<open>Adding a route\<close>

lemma services_named:
  assumes "distinct (map s_name rows)"
  shows "filter (\<lambda>s. s_name s = n) rows = (case find (\<lambda>s. s_name s = n) rows of Some s \<Rightarrow> [s] | None \<Rightarrow> [])"
  using assms
proof (induction rows)
  case (Cons a rows)
  show ?case
  proof (cases "s_name a = n")
    case True
    then have "filter (\<lambda>s. s_name s = n) rows = []" using Cons.prems by (auto simp: filter_empty_conv image_iff)
    then show ?thesis using True by simp
  next
    case False
    then show ?thesis using Cons by simp
  qed
qed simp

lemma upsert_route_wf:
  assumes "rows_wf t" "sid \<in> set (map s_id (rt_services t))"
  shows "rows_wf (t\<lparr>rt_routes := upsert_route m p sid (rt_routes t)\<rparr>)"
proof (cases "(m, p) \<in> set (map (\<lambda>r. (r_method r, r_pattern r)) (rt_routes t))")
  case True
  have "map r_id (upsert_route m p sid (rt_routes t)) = map r_id (rt_routes t)"
    "map (\<lambda>r. (r_method r, r_pattern r)) (upsert_route m p sid (rt_routes t)) = map (\<lambda>r. (r_method r, r_pattern r)) (rt_routes t)"
    "list_all (\<lambda>r. r_service_id r \<in> set (map s_id (rt_services t))) (upsert_route m p sid (rt_routes t))"
    using True assms by (auto simp: upsert_route_def rows_wf_def list_all_iff)
  then show ?thesis using assms(1) by (simp add: rows_wf_def)
next
  case False
  then show ?thesis using assms
    by (auto simp: rows_wf_def upsert_route_def sorted_wrt_append list_all_iff fresh_id_upper)
qed

lemma upsert_route_update:
  assumes "distinct (map (\<lambda>r. (r_method r, r_pattern r)) rows)"
  shows "map (\<lambda>r. ((r_method r, r_pattern r), f (r_service_id r))) (upsert_route m p sid rows)
    = AList.update (m, p) (f sid) (map (\<lambda>r. ((r_method r, r_pattern r), f (r_service_id r))) rows)"
proof (cases "(m, p) \<in> set (map (\<lambda>r. (r_method r, r_pattern r)) rows)")
  case True
  have "AList.update (m, p) (f sid) (map (\<lambda>r. ((r_method r, r_pattern r), f (r_service_id r))) rows)
    = map (\<lambda>r. ((r_method r, r_pattern r), f (r_service_id r)))
        (map (\<lambda>r. if r_method r = m \<and> r_pattern r = p then r\<lparr>r_service_id := sid\<rparr> else r) rows)"
    using True assms
  proof (induction rows)
    case (Cons a rows)
    show ?case
    proof (cases "r_method a = m \<and> r_pattern a = p")
      case True
      then have "\<not> (r_method x = m \<and> r_pattern x = p)" if "x \<in> set rows" for x using Cons.prems(2) that by (auto simp: image_iff)
      then show ?thesis using True by auto
    next
      case False
      then show ?thesis using Cons by auto
    qed
  qed simp
  then show ?thesis using True by (simp add: upsert_route_def)
next
  case False
  then have "AList.update (m, p) (f sid) (map (\<lambda>r. ((r_method r, r_pattern r), f (r_service_id r))) rows)
      = map (\<lambda>r. ((r_method r, r_pattern r), f (r_service_id r))) rows @ [((m, p), f sid)]"
    by (induction rows) auto
  then show ?thesis using False by (simp add: upsert_route_def)
qed

definition route_insert :: "string \<Rightarrow> string \<Rightarrow> string \<Rightarrow> reg_tables \<Rightarrow> reg_tables" where
  "route_insert m p s t =
     t\<lparr>rt_routes := fold (upsert_route m p) (map s_id (filter (\<lambda>x. s_name x = s) (rt_services t))) (rt_routes t)\<rparr>"

lemma route_insert_wf: "rows_wf t \<Longrightarrow> rows_wf (route_insert m p s t)"
  by (auto simp: route_insert_def services_named [OF rows_wfD(1)] find_Some_iff upsert_route_wf split: option.split)

lemma add_route_abs:
  assumes "rows_wf t"
  shows "(if length (filter (\<lambda>x. s_name x = s) (rt_services t)) > 0 then NTC_OK else NTC_ERR_NOT_FOUND, abs_reg (route_insert m p s t))
    = areg_run (Reg_add_route m p s) (abs_reg t)"
proof (cases "find (\<lambda>x. s_name x = s) (rt_services t)")
  case None
  then have "s \<notin> fst ` set (a_services (abs_reg t))" by (auto simp: abs_reg_def find_None_iff)
  then show ?thesis using None by (simp add: services_named [OF rows_wfD(1) [OF assms]] route_insert_def)
next
  case (Some x)
  then have x: "x \<in> set (rt_services t)" "s_name x = s" by (auto simp: find_Some_iff)
  then have "s \<in> fst ` set (a_services (abs_reg t))" by (force simp: abs_reg_def)
  moreover have "abs_reg (route_insert m p s t) = (abs_reg t)\<lparr>a_routes := AList.update (m, p) s (a_routes (abs_reg t))\<rparr>"
    using x service_name_mem [OF rows_wfD(2) [OF assms] x(1)] Some
    by (simp add: route_insert_def services_named [OF rows_wfD(1) [OF assms]] abs_reg_def upsert_route_update [OF rows_wfD(5) [OF assms]])
  ultimately show ?thesis using Some by (simp add: services_named [OF rows_wfD(1) [OF assms]])
qed

lemma set_config_wf: "rows_wf t \<Longrightarrow> rows_wf (t\<lparr>rt_config := AList.update k v (rt_config t)\<rparr>)"
  by (simp add: rows_wf_def distinct_update)

lemma set_config_abs:
  "abs_reg (t\<lparr>rt_config := AList.update k v (rt_config t)\<rparr>) = snd (areg_run (Reg_set_config k v) (abs_reg t))"
  by (simp add: abs_reg_def update_conv')

lemma rows_wf_fk [simp]: "rows_wf (t\<lparr>rt_foreign_keys := b\<rparr>) = rows_wf t"
  by (simp add: rows_wf_def)

lemma abs_reg_fk [simp]: "abs_reg (t\<lparr>rt_foreign_keys := b\<rparr>) = abs_reg t"
  by (simp add: abs_reg_def)

subsection \<open>What the queries return\<close>

lemma select_services_abs:
  assumes "rows_wf t"
  shows "select_services t = map (\<lambda>(n, b). [Sql_text n, Sql_text b, Sql_int 1]) (a_services (abs_reg t))"
proof -
  have "concat (map (\<lambda>s. if s_enabled s = 1 then [[Sql_text (s_name s), Sql_text (s_bin s), Sql_int (s_enabled s)]] else []) xs)
    = map (\<lambda>s. [Sql_text (s_name s), Sql_text (s_bin s), Sql_int 1]) xs" if "\<forall>s \<in> set xs. s_enabled s = 1" for xs
    using that by (induction xs) auto
  then show ?thesis
    using rows_wfD(4) [OF assms] by (auto simp: select_services_def abs_reg_def sort_key_sorted [OF rows_wfD(3) [OF assms]] comp_def)
qed

lemma join_unique:
  assumes "distinct (map s_id rows)" "s \<in> set rows" "\<forall>x \<in> set rows. s_enabled x = 1"
  shows "concat (map (\<lambda>x. if s_id s = s_id x \<and> s_enabled x = 1 then [f (s_name x)] else []) rows) = [f (s_name s)]"
  using assms
proof (induction rows)
  case (Cons a rows)
  show ?case
  proof (cases "s_id a = s_id s")
    case True
    then have "s_id s \<noteq> s_id x" if "x \<in> set rows" for x using Cons.prems(1) that by (auto simp: image_iff)
    then have "concat (map (\<lambda>x. if s_id s = s_id x \<and> s_enabled x = 1 then [f (s_name x)] else []) rows) = []" by auto
    moreover have "a = s" using True Cons.prems by (metis list.set_intros(1) name_id_inj)
    ultimately show ?thesis using Cons.prems(3) by simp
  next
    case False
    then show ?thesis using Cons by auto
  qed
qed simp

lemma select_routes_abs:
  assumes "rows_wf t"
  shows "select_routes t = map (\<lambda>((m, p), s). [Sql_text m, Sql_text p, Sql_text s]) (a_routes (abs_reg t))"
proof -
  have one: "concat (map (\<lambda>x. if r_service_id r = s_id x \<and> s_enabled x = 1 then [f (s_name x)] else []) (rt_services t))
      = [f (service_name (rt_services t) (r_service_id r))]" if "r \<in> set (rt_routes t)" for r and f :: "string \<Rightarrow> sql_val list"
  proof -
    have "r_service_id r \<in> set (map s_id (rt_services t))" using that by (rule rows_wfD(7) [OF assms])
    then obtain s where "s \<in> set (rt_services t)" "r_service_id r = s_id s" by auto
    then show ?thesis
      using join_unique [OF rows_wfD(2) [OF assms], of s f] rows_wfD(4) [OF assms] service_name_mem [OF rows_wfD(2) [OF assms]] by simp
  qed
  have "select_routes t = concat (map (\<lambda>r. [[Sql_text (r_method r), Sql_text (r_pattern r),
      Sql_text (service_name (rt_services t) (r_service_id r))]]) (rt_routes t))"
    unfolding select_routes_def sort_key_sorted [OF rows_wfD(6) [OF assms]]
    by (rule arg_cong [of _ _ concat], rule map_cong [OF refl]) (rule one)
  then show ?thesis by (simp add: abs_reg_def comp_def)
qed

subsection \<open>The functions over any engine\<close>

lemma those_map_Some: "(\<And>x. x \<in> set xs \<Longrightarrow> f x = Some (g x)) \<Longrightarrow> those (map f xs) = Some (map g xs)"
  by (induction xs) auto

definition service_row_of :: "string \<times> string \<Rightarrow> ntc_service_row" where
  "service_row_of = (\<lambda>(n, b). \<lparr>sr_name = take 63 n, sr_bin = take 255 b\<rparr>)"

definition route_row_of :: "(string \<times> string) \<times> string \<Rightarrow> ntc_route_row" where
  "route_row_of = (\<lambda>((m, p), s). \<lparr>rr_method = take 7 m, rr_pattern = take 127 p, rr_service = take 63 s\<rparr>)"

lemma service_row_text: "service_row [Sql_text n, Sql_text b, e] = Some (service_row_of (n, b))"
  by (simp add: service_row_def service_row_of_def copy_text_take col_text_def)

lemma route_row_text: "route_row [Sql_text m, Sql_text p, Sql_text s] = Some (route_row_of ((m, p), s))"
  by (simp add: route_row_def route_row_of_def copy_text_take col_text_def)

text \<open>What a list may come back as: an error, or the rows up to where the engine stopped.\<close>

definition fetched :: "'r list \<Rightarrow> (ntc_err + 'r list) option \<Rightarrow> bool" where
  "fetched rows got \<longleftrightarrow> got = Some (Inl NTC_ERR_INTERNAL) \<or> (\<exists>rs. got = Some (Inr rs) \<and> prefix rs rows)"

lemma fetch_rows_take:
  assumes "\<And>x. f (row x) = Some (g x)"
  shows "fetch_rows f n (Step_rows (take k (map row xs)) fin) = Some (Inr (map g (take (min n k) xs)))"
proof -
  have "those (map f (map row ys)) = Some (map g ys)" for ys
    using assms by (induction ys) auto
  then show ?thesis by (simp add: fetch_rows_def take_map)
qed

lemma fetch_rows_all:
  assumes "\<And>x. f (row x) = Some (g x)"
  shows "fetch_rows f n (Step_rows (map row xs) fin) = Some (Inr (map g (take n xs)))"
  using fetch_rows_take [of f row g n "length xs" xs fin] assms by (simp add: min_def)

lemma fetch_rows_prefix:
  assumes "\<And>x. f (row x) = Some (g x)" "prefix rs (map row xs)"
  shows "fetched (map g (take n xs)) (fetch_rows f n (Step_rows rs fin))"
proof -
  obtain k where "rs = take k (map row xs)" using assms(2) by (metis append_eq_conv_conj prefix_def)
  moreover have "prefix (map g (take (min n k) xs)) (map g (take n xs))"
    by (rule map_mono_prefix) (metis min.commute take_is_prefix take_take)
  ultimately show ?thesis by (simp add: fetched_def fetch_rows_take [where f = f and row = row and g = g, OF assms(1)])
qed

locale registry_db = sql_db reg_sem sq tables for sq :: "'d sql_engine" and tables :: "'d \<Rightarrow> reg_tables"
begin

text \<open>A call that changes the tables: it fails and changes nothing, or does what the abstract registry does.\<close>

lemma run_wf:
  assumes "reg_wf (tables d)"
  shows "reg_wf (tables (snd (reg_run sq op d)))"
proof (cases op)
  case (Reg_add_service n b)
  then show ?thesis
    using done_cases [OF reg_sem_stmts(6) [of "tables d" n b]] assms upsert_service_wf [of "tables d" n b]
    by (auto simp: ntc_registry_add_service_def reg_wf_def sql_failed_def split: prod.splits sql_res.splits)
next
  case (Reg_remove_service n)
  then show ?thesis
    using done_cases [OF reg_sem_stmts(4) [of "tables d" n]] assms delete_service_wf [OF assms, of n]
    by (auto simp: ntc_registry_remove_service_def sql_failed_def split: prod.splits sql_res.splits)
next
  case (Reg_add_route m p s)
  then show ?thesis
    using done_cases [OF reg_sem_stmts(8) [of "tables d" m p s, folded route_insert_def]] assms route_insert_wf [of "tables d" m p s]
    by (auto simp: ntc_registry_add_route_def reg_wf_def sql_failed_def route_insert_def split: prod.splits sql_res.splits)
next
  case (Reg_set_config k v)
  then show ?thesis
    using done_cases [OF reg_sem_stmts(7) [of "tables d" k v]] assms set_config_wf [of "tables d" k v]
    by (auto simp: ntc_registry_set_config_def reg_wf_def sql_failed_def split: prod.splits sql_res.splits)
qed

lemma run_abs:
  assumes "reg_wf (tables d)"
  shows "fst (reg_run sq op d) = NTC_ERR_INTERNAL \<and> tables (snd (reg_run sq op d)) = tables d \<or>
    (fst (reg_run sq op d), abs_reg (tables (snd (reg_run sq op d)))) = areg_run op (abs_reg (tables d))"
proof (cases op)
  case (Reg_add_service n b)
  then show ?thesis
    using done_cases [OF reg_sem_stmts(6) [of "tables d" n b]] assms add_service_abs [of "tables d" n b]
    by (auto simp: ntc_registry_add_service_def reg_wf_def sql_failed_def split: prod.splits sql_res.splits)
next
  case (Reg_remove_service n)
  then show ?thesis
    using done_cases [OF reg_sem_stmts(4) [of "tables d" n]] remove_service_abs [OF assms, of n]
    by (auto simp: ntc_registry_remove_service_def sql_failed_def simp del: areg_run.simps split: prod.splits sql_res.splits if_splits)
next
  case (Reg_add_route m p s)
  then show ?thesis
    using done_cases [OF reg_sem_stmts(8) [of "tables d" m p s, folded route_insert_def]] assms add_route_abs [of "tables d" s m p]
    by (auto simp: ntc_registry_add_route_def reg_wf_def sql_failed_def simp del: areg_run.simps split: prod.splits sql_res.splits if_splits)
next
  case (Reg_set_config k v)
  then show ?thesis
    using done_cases [OF reg_sem_stmts(7) [of "tables d" k v]] set_config_abs [of k v "tables d"]
    by (auto simp: ntc_registry_set_config_def sql_failed_def split: prod.splits sql_res.splits)
qed

lemma open_wf:
  assumes "ntc_registry_open sq alloc op (Some p) = Inr d" "op p = Some d0" "rows_wf (tables d0)"
  shows "reg_wf (tables d)" "abs_reg (tables d) = abs_reg (tables d0)"
  using assms done_cases [OF reg_sem_stmts(1) [of "tables d0"]]
  by (auto simp: ntc_registry_open_def reg_wf_def sql_failed_def split: prod.splits sql_res.splits if_splits)

text \<open>The queries leave the tables alone and stay within their buffers.\<close>

lemma query_fetched:
  assumes "reg_sem (tables d) sql ps = Some (Step_rows (map row xs) True, tables d)" "\<And>x. f (row x) = Some (g x)"
  shows "fetched (map g (take n xs)) (fetch_rows f n (fst (sq d sql ps)))"
    and "fst (sq d sql ps) = Step_rows (map row xs) True \<Longrightarrow> fetch_rows f n (fst (sq d sql ps)) = Some (Inr (map g (take n xs)))"
proof -
  note q = rows_cases [OF assms(1)]
  show "fetched (map g (take n xs)) (fetch_rows f n (fst (sq d sql ps)))"
    using q(2) fetch_rows_prefix [where f = f and row = row and g = g and xs = xs and n = n, OF assms(2)]
    by (auto simp: sql_failed_def fetched_def fetch_rows_def)
  show "fetch_rows f n (fst (sq d sql ps)) = Some (Inr (map g (take n xs)))" if "fst (sq d sql ps) = Step_rows (map row xs) True"
    using that fetch_rows_all [where f = f and row = row and g = g, OF assms(2)] by simp
qed

lemma list_services_cases:
  assumes "reg_wf (tables d)"
  shows "tables (snd (ntc_registry_list_services sq d n)) = tables d"
    and "fetched (map service_row_of (take n (a_services (abs_reg (tables d))))) (fst (ntc_registry_list_services sq d n))"
proof -
  have "reg_sem (tables d) SQL_LIST_SERVICES [] = Some (Step_rows (map (\<lambda>(n, b). [Sql_text n, Sql_text b, Sql_int 1]) (a_services (abs_reg (tables d)))) True, tables d)"
    using assms by (simp add: reg_sem_stmts select_services_abs reg_wf_def)
  from query_fetched(1) [OF this, of service_row service_row_of n] rows_cases(1) [OF this]
  show "tables (snd (ntc_registry_list_services sq d n)) = tables d"
    and "fetched (map service_row_of (take n (a_services (abs_reg (tables d))))) (fst (ntc_registry_list_services sq d n))"
    by (auto simp: ntc_registry_list_services_def service_row_text split: prod.splits)
qed

lemma list_routes_cases:
  assumes "reg_wf (tables d)"
  shows "tables (snd (ntc_registry_list_routes sq d n)) = tables d"
    and "fetched (map route_row_of (take n (a_routes (abs_reg (tables d))))) (fst (ntc_registry_list_routes sq d n))"
proof -
  have "reg_sem (tables d) SQL_LIST_ROUTES [] = Some (Step_rows (map (\<lambda>((m, p), s). [Sql_text m, Sql_text p, Sql_text s]) (a_routes (abs_reg (tables d)))) True, tables d)"
    using assms by (simp add: reg_sem_stmts select_routes_abs reg_wf_def)
  from query_fetched(1) [OF this, of route_row route_row_of n] rows_cases(1) [OF this]
  show "tables (snd (ntc_registry_list_routes sq d n)) = tables d"
    and "fetched (map route_row_of (take n (a_routes (abs_reg (tables d))))) (fst (ntc_registry_list_routes sq d n))"
    by (auto simp: ntc_registry_list_routes_def route_row_text split: prod.splits)
qed

end

definition reg_runs :: "'d sql_engine \<Rightarrow> reg_op list \<Rightarrow> 'd \<Rightarrow> 'd" where
  "reg_runs sq ops d = fold (\<lambda>oper d. snd (reg_run sq oper d)) ops d"

context registry_db
begin

lemma runs_wf: "reg_wf (tables d) \<Longrightarrow> reg_wf (tables (reg_runs sq ops d))"
  by (induction ops arbitrary: d) (auto simp: reg_runs_def run_wf)

lemma get_config_cases:
  assumes "0 < cap"
  shows "tables (snd (ntc_registry_get_config sq d (Some k) cap)) = tables d"
    and "fst (ntc_registry_get_config sq d (Some k) cap) \<in>
      {Some (Inl NTC_ERR_INTERNAL), Some (Inr None), Some (Inr (map_option (take (cap - 1)) (a_config (abs_reg (tables d)) k)))}"
  using rows_cases [OF reg_sem_stmts(5) [of "tables d" k]] assms
  by (auto simp: ntc_registry_get_config_def sql_failed_def abs_reg_def copy_text_take col_text_def
      split: prod.splits option.splits sql_res.splits list.splits)

end

interpretation reg_tables: registry_db "table_engine reg_sem" "\<lambda>t. t" ..

text \<open>On tables that do not fail, the functions compute the abstract registry.\<close>

lemma table_run:
  assumes "reg_wf t"
  shows "(fst (reg_run (table_engine reg_sem) op t), abs_reg (snd (reg_run (table_engine reg_sem) op t))) = areg_run op (abs_reg t)"
proof -
  have "fst (reg_run (table_engine reg_sem) op t) \<noteq> NTC_ERR_INTERNAL"
    by (cases op) (auto simp: ntc_registry_add_service_def ntc_registry_remove_service_def ntc_registry_add_route_def
        ntc_registry_set_config_def table_engine_def reg_sem_stmts)
  then show ?thesis using reg_tables.run_abs [OF assms, of op] by blast
qed

lemma table_list_services:
  assumes "reg_wf t"
  shows "fst (ntc_registry_list_services (table_engine reg_sem) t n) = Some (Inr (map service_row_of (take n (a_services (abs_reg t)))))"
  using assms fetch_rows_all [of service_row "\<lambda>(n, b). [Sql_text n, Sql_text b, Sql_int 1]" service_row_of]
  by (auto simp: ntc_registry_list_services_def table_engine_def reg_sem_stmts select_services_abs reg_wf_def service_row_text)

lemma table_list_routes:
  assumes "reg_wf t"
  shows "fst (ntc_registry_list_routes (table_engine reg_sem) t n) = Some (Inr (map route_row_of (take n (a_routes (abs_reg t)))))"
  using assms fetch_rows_all [of route_row "\<lambda>((m, p), s). [Sql_text m, Sql_text p, Sql_text s]" route_row_of]
  by (auto simp: ntc_registry_list_routes_def table_engine_def reg_sem_stmts select_routes_abs reg_wf_def route_row_text)

lemma table_get_config:
  assumes "0 < cap"
  shows "fst (ntc_registry_get_config (table_engine reg_sem) t (Some k) cap) = Some (Inr (map_option (take (cap - 1)) (a_config (abs_reg t) k)))"
  using assms by (auto simp: ntc_registry_get_config_def table_engine_def reg_sem_stmts abs_reg_def copy_text_take col_text_def split: option.splits)

subsection \<open>Properties\<close>

text \<open>
  C17 (\<open>registry_wf\<close>): on any database engine with the documented meaning of the statements, a
  registry opened on well-formed rows has well-formed tables after every sequence of
  operations, whichever of them fail: foreign keys are enforced, service names and (method, pattern)
  pairs are unique, ids ascend, and every route refers to an existing service.
\<close>

theorem registry_wf:
  assumes "registry_db sq tables" "ntc_registry_open sq alloc sqlite3_open (Some p) = Inr d"
    "sqlite3_open p = Some d0" "rows_wf (tables d0)"
  shows "reg_wf (tables (reg_runs sq ops d))"
  using registry_db.runs_wf [OF assms(1) registry_db.open_wf(1) [OF assms(1-4)]] .


definition sample_ops :: "reg_op list" where
  "sample_ops = [Reg_add_service ''a'' ''/bin/a'', Reg_add_service ''b'' ''/bin/b'', Reg_add_route ''GET'' ''/x'' ''a'',
     Reg_add_route ''GET'' ''/y'' ''b'', Reg_add_route ''GET'' ''/z'' ''nope'', Reg_remove_service ''a'', Reg_set_config ''k'' ''v'']"

theorem registry_wf_witness:
  "reg_wf (reg_runs (table_engine reg_sem) sample_ops (empty_reg\<lparr>rt_foreign_keys := True\<rparr>))"
  by (rule registry_wf [where tables = "\<lambda>t. t" and alloc = True and sqlite3_open = "\<lambda>_. Some empty_reg" and p = "''ntc.db''" and ?d0.0 = empty_reg,
        OF reg_tables.registry_db_axioms])
     (simp_all add: ntc_registry_open_def table_engine_def reg_sem_stmts rows_wf_def empty_reg_def)

definition sample_reg :: reg_tables where
  "sample_reg = \<lparr>rt_foreign_keys = True,
     rt_services = [\<lparr>s_id = 1, s_name = ''a'', s_bin = ''/bin/a'', s_enabled = 1\<rparr>, \<lparr>s_id = 2, s_name = ''b'', s_bin = ''/bin/b'', s_enabled = 1\<rparr>],
     rt_routes = [\<lparr>r_id = 1, r_method = ''GET'', r_pattern = ''/x'', r_service_id = 1\<rparr>, \<lparr>r_id = 2, r_method = ''GET'', r_pattern = ''/y'', r_service_id = 2\<rparr>],
     rt_config = []\<rparr>"


end
