(* ===== verification/Session_Store.thy ===== *)
theory Session_Store
  imports Sqlite
begin

text \<open>
  The login sessions (\<open>src/core/session_store.c\<close>): one SQL table keyed by the session id, with put,
  get, delete and the sweep of expired rows. As for the registry, the statements are the
  source's, their meaning is \<open>sess_sem\<close>, and the functions run any engine that is a \<open>sql_db\<close> for
  it. The abstract store is a map from ids to subject, scope and expiry.
\<close>

record session_rec =
  se_id :: string
  se_sub :: string
  se_scope :: string
  se_expiry :: int

type_synonym sessions = "session_rec list"

definition SQL_SESS_INIT :: string where
  "SQL_SESS_INIT =
     ''PRAGMA journal_mode=WAL;'' @
     ''PRAGMA synchronous=NORMAL;'' @
     ''CREATE TABLE IF NOT EXISTS sessions('' @
     ''  id TEXT PRIMARY KEY,'' @
     ''  sub TEXT NOT NULL,'' @
     ''  scope TEXT NOT NULL,'' @
     ''  expiry INTEGER NOT NULL);'' @
     ''CREATE INDEX IF NOT EXISTS sessions_expiry ON sessions(expiry);''"

definition SQL_SESS_PUT :: string where
  "SQL_SESS_PUT = ''INSERT OR REPLACE INTO sessions(id, sub, scope, expiry) VALUES(?1,?2,?3,?4)''"

definition SQL_SESS_GET :: string where
  "SQL_SESS_GET = ''SELECT sub, scope FROM sessions WHERE id=?1 AND expiry > ?2''"

definition SQL_SESS_DEL :: string where
  "SQL_SESS_DEL = ''DELETE FROM sessions WHERE id=?1''"

definition SQL_SESS_SWEEP :: string where
  "SQL_SESS_SWEEP = ''DELETE FROM sessions WHERE expiry <= ?1''"

lemmas sess_sql_defs = SQL_SESS_INIT_def SQL_SESS_PUT_def SQL_SESS_GET_def SQL_SESS_DEL_def SQL_SESS_SWEEP_def

definition replace_session :: "session_rec \<Rightarrow> sessions \<Rightarrow> sessions" where
  "replace_session s rows = filter (\<lambda>r. se_id r \<noteq> se_id s) rows @ [s]"

definition sess_sem :: "sessions \<Rightarrow> string \<Rightarrow> sql_val list \<Rightarrow> (sql_res \<times> sessions) option" where
  "sess_sem t sql ps =
     (if sql = SQL_SESS_INIT \<and> ps = [] then Some (Step_done 0, t)
      else
        case ps of
          [Sql_text i, Sql_text su, Sql_text sc, Sql_int e] \<Rightarrow>
            (if sql = SQL_SESS_PUT
             then Some (Step_done 1, replace_session \<lparr>se_id = i, se_sub = su, se_scope = sc, se_expiry = e\<rparr> t)
             else None)
        | [Sql_text i, Sql_int now] \<Rightarrow>
            (if sql = SQL_SESS_GET
             then Some (Step_rows [[Sql_text (se_sub r), Sql_text (se_scope r)]. r \<leftarrow> t, se_id r = i \<and> se_expiry r > now] True, t)
             else None)
        | [Sql_text i] \<Rightarrow>
            (if sql = SQL_SESS_DEL
             then Some (Step_done (length (filter (\<lambda>r. se_id r = i) t)), filter (\<lambda>r. se_id r \<noteq> i) t)
             else None)
        | [Sql_int now] \<Rightarrow>
            (if sql = SQL_SESS_SWEEP
             then Some (Step_done (length (filter (\<lambda>r. se_expiry r \<le> now) t)), filter (\<lambda>r. \<not> se_expiry r \<le> now) t)
             else None)
        | _ \<Rightarrow> None)"

lemma sess_sem_stmts:
  "sess_sem t SQL_SESS_INIT [] = Some (Step_done 0, t)"
  "sess_sem t SQL_SESS_PUT [Sql_text i, Sql_text su, Sql_text sc, Sql_int e] =
     Some (Step_done 1, replace_session \<lparr>se_id = i, se_sub = su, se_scope = sc, se_expiry = e\<rparr> t)"
  "sess_sem t SQL_SESS_GET [Sql_text i, Sql_int now] =
     Some (Step_rows [[Sql_text (se_sub r), Sql_text (se_scope r)]. r \<leftarrow> t, se_id r = i \<and> se_expiry r > now] True, t)"
  "sess_sem t SQL_SESS_DEL [Sql_text i] =
     Some (Step_done (length (filter (\<lambda>r. se_id r = i) t)), filter (\<lambda>r. se_id r \<noteq> i) t)"
  "sess_sem t SQL_SESS_SWEEP [Sql_int now] =
     Some (Step_done (length (filter (\<lambda>r. se_expiry r \<le> now) t)), filter (\<lambda>r. \<not> se_expiry r \<le> now) t)"
  by (simp_all add: sess_sem_def sess_sql_defs)

subsection \<open>The functions of the source\<close>

definition ntc_session_store_open :: "'d sql_engine \<Rightarrow> bool \<Rightarrow> (string \<Rightarrow> 'd option) \<Rightarrow> string option \<Rightarrow> 'd option" where
  "ntc_session_store_open sq alloc sqlite3_open path =
     (case path of
        None \<Rightarrow> None
      | Some p \<Rightarrow>
          if p = [] \<or> \<not> alloc then None
          else case sqlite3_open p of
                 None \<Rightarrow> None
               | Some d \<Rightarrow> (case sq d SQL_SESS_INIT [] of (Step_done _, d1) \<Rightarrow> Some d1 | _ \<Rightarrow> None))"

definition ntc_session_put ::
  "'d sql_engine \<Rightarrow> 'd \<Rightarrow> string option \<Rightarrow> string option \<Rightarrow> string option \<Rightarrow> int \<Rightarrow> bool \<times> 'd" where
  "ntc_session_put sq d sid sub scope expiry =
     (case sid of
        None \<Rightarrow> (False, d)
      | Some i \<Rightarrow>
          (case sq d SQL_SESS_PUT [Sql_text i, Sql_text (case sub of Some s \<Rightarrow> s | None \<Rightarrow> []),
                  Sql_text (case scope of Some s \<Rightarrow> s | None \<Rightarrow> []), Sql_int expiry] of
             (Step_done _, d1) \<Rightarrow> (True, d1)
           | (_, d1) \<Rightarrow> (False, d1)))"

definition ntc_session_get ::
  "'d sql_engine \<Rightarrow> 'd \<Rightarrow> string option \<Rightarrow> int \<Rightarrow> nat \<Rightarrow> nat \<Rightarrow> (string \<times> string) option \<times> 'd" where
  "ntc_session_get sq d sid now subcap scopecap =
     (case sid of
        None \<Rightarrow> (None, d)
      | Some i \<Rightarrow>
          (case sq d SQL_SESS_GET [Sql_text i, Sql_int now] of
             (Step_rows (row # _) _, d1) \<Rightarrow> (Some (snprintf subcap (col_text row 0), snprintf scopecap (col_text row 1)), d1)
           | (_, d1) \<Rightarrow> (None, d1)))"

definition ntc_session_del :: "'d sql_engine \<Rightarrow> 'd \<Rightarrow> string option \<Rightarrow> 'd" where
  "ntc_session_del sq d sid = (case sid of None \<Rightarrow> d | Some i \<Rightarrow> snd (sq d SQL_SESS_DEL [Sql_text i]))"

definition ntc_session_sweep :: "'d sql_engine \<Rightarrow> 'd \<Rightarrow> int \<Rightarrow> int \<times> 'd" where
  "ntc_session_sweep sq d now =
     (case sq d SQL_SESS_SWEEP [Sql_int now] of
        (Step_done changes, d1) \<Rightarrow> (int changes, d1)
      | (_, d1) \<Rightarrow> (-1, d1))"

subsection \<open>The abstract store\<close>

type_synonym asess = "string \<rightharpoonup> string \<times> string \<times> int"

definition sess_wf :: "sessions \<Rightarrow> bool" where
  "sess_wf t \<longleftrightarrow> distinct (map se_id t)"

definition abs_sess :: "sessions \<Rightarrow> asess" where
  "abs_sess t = map_of (map (\<lambda>r. (se_id r, (se_sub r, se_scope r, se_expiry r))) t)"

fun asess_run :: "sess_op \<Rightarrow> asess \<Rightarrow> asess" where
  "asess_run (Sess_put i su sc e) m = m(i \<mapsto> (su, sc, e))"
| "asess_run (Sess_del i) m = m(i := None)"
| "asess_run (Sess_sweep now) m = (\<lambda>i. case m i of Some (su, sc, e) \<Rightarrow> if e \<le> now then None else Some (su, sc, e) | None \<Rightarrow> None)"

definition asess_get :: "asess \<Rightarrow> string \<Rightarrow> int \<Rightarrow> (string \<times> string) option" where
  "asess_get m i now = (case m i of Some (su, sc, e) \<Rightarrow> if e > now then Some (su, sc) else None | None \<Rightarrow> None)"

fun sess_run :: "'d sql_engine \<Rightarrow> sess_op \<Rightarrow> 'd \<Rightarrow> 'd" where
  "sess_run sq (Sess_put i su sc e) d = snd (ntc_session_put sq d (Some i) (Some su) (Some sc) e)"
| "sess_run sq (Sess_del i) d = ntc_session_del sq d (Some i)"
| "sess_run sq (Sess_sweep now) d = snd (ntc_session_sweep sq d now)"

lemma abs_sess_filter:
  assumes "sess_wf t"
  shows "abs_sess (filter (\<lambda>r. P (se_id r) (se_expiry r)) t) i =
    (case abs_sess t i of Some (su, sc, e) \<Rightarrow> if P i e then Some (su, sc, e) else None | None \<Rightarrow> None)"
  using assms
proof (induction t)
  case (Cons r t)
  have "i \<notin> se_id ` set t" if "se_id r = i" using Cons.prems that by (auto simp: sess_wf_def)
  then have "abs_sess (filter (\<lambda>r. P (se_id r) (se_expiry r)) t) i = None" if "se_id r = i"
    using that by (auto simp: abs_sess_def map_of_eq_None_iff)
  then show ?case using Cons by (auto simp: abs_sess_def sess_wf_def)
qed (simp add: abs_sess_def)

lemma abs_sess_append: "abs_sess (xs @ [s]) = (\<lambda>i. case abs_sess xs i of Some v \<Rightarrow> Some v | None \<Rightarrow> if i = se_id s then Some (se_sub s, se_scope s, se_expiry s) else None)"
  by (auto simp: abs_sess_def map_add_def fun_eq_iff split: option.splits)

lemma put_abs:
  assumes "sess_wf t"
  shows "abs_sess (replace_session s t) = (abs_sess t)(se_id s \<mapsto> (se_sub s, se_scope s, se_expiry s))"
  using abs_sess_filter [OF assms, of "\<lambda>i _. i \<noteq> se_id s"]
  by (auto simp: replace_session_def abs_sess_append fun_eq_iff split: option.splits)

lemma del_abs: "sess_wf t \<Longrightarrow> abs_sess (filter (\<lambda>r. se_id r \<noteq> i) t) = (abs_sess t)(i := None)"
  using abs_sess_filter [of t "\<lambda>j _. j \<noteq> i"] by (auto simp: fun_eq_iff split: option.splits)

lemma sweep_abs: "sess_wf t \<Longrightarrow> abs_sess (filter (\<lambda>r. \<not> se_expiry r \<le> now) t) = asess_run (Sess_sweep now) (abs_sess t)"
  using abs_sess_filter [of t "\<lambda>_ e. \<not> e \<le> now"] by (auto simp: fun_eq_iff split: option.splits)

lemma sess_wf_ops:
  "sess_wf t \<Longrightarrow> sess_wf (replace_session s t)" "sess_wf t \<Longrightarrow> sess_wf (filter P t)"
  by (auto simp: sess_wf_def replace_session_def distinct_map_filter)

lemma get_rows:
  assumes "sess_wf t"
  shows "[[Sql_text (se_sub r), Sql_text (se_scope r)]. r \<leftarrow> t, se_id r = i \<and> se_expiry r > now] =
    (case asess_get (abs_sess t) i now of Some (su, sc) \<Rightarrow> [[Sql_text su, Sql_text sc]] | None \<Rightarrow> [])"
  using assms
proof (induction t)
  case (Cons r t)
  have nil: "[[Sql_text (se_sub r), Sql_text (se_scope r)]. r \<leftarrow> t, se_id r = i \<and> se_expiry r > now] = []" if "se_id r = i"
    using Cons.prems that by (auto simp: sess_wf_def image_iff)
  show ?case
  proof (cases "se_id r = i")
    case True
    then show ?thesis using nil by (auto simp: asess_get_def abs_sess_def)
  next
    case False
    then have "abs_sess (r # t) i = abs_sess t i" by (simp add: abs_sess_def)
    then show ?thesis using False Cons by (simp add: asess_get_def sess_wf_def)
  qed
qed (simp add: asess_get_def abs_sess_def)

subsection \<open>The functions over any engine\<close>

locale session_db = sql_db sess_sem sq rows for sq :: "'d sql_engine" and rows :: "'d \<Rightarrow> sessions"
begin

lemma run_cases:
  assumes "sess_wf (rows d)"
  shows "sess_wf (rows (sess_run sq op d)) \<and>
    (rows (sess_run sq op d) = rows d \<or> abs_sess (rows (sess_run sq op d)) = asess_run op (abs_sess (rows d)))"
proof (cases op)
  case (Sess_put i su sc e)
  then show ?thesis
    using done_cases [OF sess_sem_stmts(2) [of "rows d" i su sc e]] assms
    by (auto simp: ntc_session_put_def sql_failed_def sess_wf_ops put_abs split: prod.splits sql_res.splits)
next
  case (Sess_del i)
  then show ?thesis
    using done_cases [OF sess_sem_stmts(4) [of "rows d" i]] assms
    by (auto simp: ntc_session_del_def sql_failed_def sess_wf_ops del_abs split: prod.splits sql_res.splits)
next
  case (Sess_sweep now)
  then show ?thesis
    using done_cases [OF sess_sem_stmts(5) [of "rows d" now]] assms
    by (auto simp: ntc_session_sweep_def sql_failed_def sess_wf_ops sweep_abs simp del: asess_run.simps split: prod.splits sql_res.splits)
qed

text \<open>A put that reports success has happened, and a sweep that reports a count.\<close>

lemma put_reported:
  assumes "sess_wf (rows d)" "fst (ntc_session_put sq d (Some i) su sc e)"
  shows "abs_sess (rows (snd (ntc_session_put sq d (Some i) su sc e))) =
    (abs_sess (rows d))(i \<mapsto> (case su of Some s \<Rightarrow> s | None \<Rightarrow> [], case sc of Some s \<Rightarrow> s | None \<Rightarrow> [], e))"
  using assms done_cases [OF sess_sem_stmts(2) [of "rows d" i "case su of Some s \<Rightarrow> s | None \<Rightarrow> []" "case sc of Some s \<Rightarrow> s | None \<Rightarrow> []" e]]
  by (auto simp: ntc_session_put_def sql_failed_def put_abs split: prod.splits sql_res.splits)

lemma get_cases:
  assumes "sess_wf (rows d)"
  shows "rows (snd (ntc_session_get sq d (Some i) now a b)) = rows d"
    and "fst (ntc_session_get sq d (Some i) now a b) \<in>
      {None, map_option (\<lambda>(su, sc). (snprintf a su, snprintf b sc)) (asess_get (abs_sess (rows d)) i now)}"
proof -
  note sem = sess_sem_stmts(3) [of "rows d" i now, unfolded get_rows [OF assms]]
  note q = rows_cases [OF sem]
  show "rows (snd (ntc_session_get sq d (Some i) now a b)) = rows d"
    using q(1) by (auto simp: ntc_session_get_def split: prod.splits sql_res.splits list.splits)
  have "fst (ntc_session_get sq d (Some i) now a b) = None \<or>
      fst (ntc_session_get sq d (Some i) now a b) = map_option (\<lambda>(su, sc). (snprintf a su, snprintf b sc)) (asess_get (abs_sess (rows d)) i now)"
  proof (cases "asess_get (abs_sess (rows d)) i now")
    case None
    then show ?thesis using q(2) by (auto simp: ntc_session_get_def sql_failed_def split: prod.splits sql_res.splits list.splits)
  next
    case (Some v)
    then show ?thesis using q(2)
      by (cases v) (auto simp: ntc_session_get_def sql_failed_def col_text_def prefix_Cons split: prod.splits sql_res.splits list.splits)
  qed
  then show "fst (ntc_session_get sq d (Some i) now a b) \<in>
      {None, map_option (\<lambda>(su, sc). (snprintf a su, snprintf b sc)) (asess_get (abs_sess (rows d)) i now)}" by auto
qed

end

lemma sess_table_engine: "sql_db sess_sem (table_engine sess_sem) (\<lambda>t. t)"
proof
  show "sql_answers (fst (table_engine sess_sem d sql ps)) w" if "sess_sem d sql ps = Some (w, t)" for d sql ps w t
    using that by (auto simp: table_engine_def sess_sem_def split: if_splits list.splits sql_val.splits)
  show "snd (table_engine sess_sem d sql ps) = (if sql_failed (fst (table_engine sess_sem d sql ps)) then d else t)"
    if "sess_sem d sql ps = Some (w, t)" for d sql ps w t
    using that by (auto simp: table_engine_def sess_sem_def sql_failed_def split: if_splits list.splits sql_val.splits)
qed

interpretation sess_tables: session_db "table_engine sess_sem" "\<lambda>t. t"
  by (rule session_db.intro [OF sess_table_engine])

definition sess_runs :: "'d sql_engine \<Rightarrow> sess_op list \<Rightarrow> 'd \<Rightarrow> 'd" where
  "sess_runs sq ops d = fold (sess_run sq) ops d"

lemma sess_runs_Nil [simp]: "sess_runs sq [] d = d"
  by (simp add: sess_runs_def)

lemma sess_runs_Cons [simp]: "sess_runs sq (op # ops) d = sess_runs sq ops (sess_run sq op d)"
  by (simp add: sess_runs_def)

text \<open>The operations that took effect are some of those asked for, in their order.\<close>

context session_db
begin

lemma runs_cases:
  assumes "sess_wf (rows d)"
  shows "sess_wf (rows (sess_runs sq ops d)) \<and>
    (\<exists>eff. subseq eff ops \<and> abs_sess (rows (sess_runs sq ops d)) = fold asess_run eff (abs_sess (rows d)))"
  using assms
proof (induction ops arbitrary: d)
  case Nil
  show ?case using Nil by (intro conjI exI [of _ "[]"]) simp_all
next
  case (Cons op ops)
  have wf: "sess_wf (rows (sess_run sq op d))" using run_cases [OF Cons.prems] by blast
  obtain eff where eff: "subseq eff ops" "abs_sess (rows (sess_runs sq ops (sess_run sq op d))) = fold asess_run eff (abs_sess (rows (sess_run sq op d)))"
    using Cons.IH [OF wf] by blast
  consider (no) "rows (sess_run sq op d) = rows d" | (yes) "abs_sess (rows (sess_run sq op d)) = asess_run op (abs_sess (rows d))"
    using run_cases [OF Cons.prems] by blast
  then have "\<exists>eff. subseq eff (op # ops) \<and> abs_sess (rows (sess_runs sq ops (sess_run sq op d))) = fold asess_run eff (abs_sess (rows d))"
  proof cases
    case no
    then show ?thesis using eff by (intro exI [of _ eff]) (simp add: list_emb_Cons)
  next
    case yes
    then show ?thesis using eff by (intro exI [of _ "op # eff"]) simp
  qed
  then show ?case using Cons.IH [OF wf] by simp
qed

end

lemma asess_get_sweep: "now \<le> later \<Longrightarrow> asess_get (asess_run (Sess_sweep now) m) i later = asess_get m i later"
  by (auto simp: asess_get_def split: option.splits)

lemma table_sess_run:
  "sess_wf t \<Longrightarrow> abs_sess (sess_run (table_engine sess_sem) op t) = asess_run op (abs_sess t)"
  by (cases op) (auto simp: ntc_session_put_def ntc_session_del_def ntc_session_sweep_def table_engine_def sess_sem_stmts put_abs del_abs sweep_abs
      simp del: asess_run.simps(3))

lemma table_sess_runs:
  assumes "sess_wf t"
  shows "sess_wf (sess_runs (table_engine sess_sem) ops t) \<and> abs_sess (sess_runs (table_engine sess_sem) ops t) = fold asess_run ops (abs_sess t)"
  using assms
proof (induction ops arbitrary: t)
  case (Cons op ops)
  have "sess_wf (sess_run (table_engine sess_sem) op t)" using sess_tables.run_cases [OF Cons.prems] by blast
  then show ?case using Cons.IH table_sess_run [OF Cons.prems] by simp
qed simp

lemma table_sess_get:
  assumes "sess_wf t"
  shows "fst (ntc_session_get (table_engine sess_sem) t (Some i) now a b) =
    map_option (\<lambda>(su, sc). (snprintf a su, snprintf b sc)) (asess_get (abs_sess t) i now)"
  using sess_sem_stmts(3) [of t i now, unfolded get_rows [OF assms]]
  by (auto simp: ntc_session_get_def table_engine_def col_text_def split: option.splits)

fun is_sweep :: "sess_op \<Rightarrow> bool" where
  "is_sweep (Sess_sweep _) = True"
| "is_sweep _ = False"

fun sweep_by :: "int \<Rightarrow> sess_op \<Rightarrow> bool" where
  "sweep_by now (Sess_sweep t) = (t \<le> now)"
| "sweep_by now _ = True"

lemma asess_get_unswept:
  assumes "list_all (sweep_by now) ops" "\<And>i. asess_get m i now = asess_get m' i now"
  shows "asess_get (fold asess_run ops m) i now = asess_get (fold asess_run (filter (\<lambda>oper. \<not> is_sweep oper) ops) m') i now"
  using assms
proof (induction ops arbitrary: m m')
  case (Cons op ops)
  show ?case
  proof (cases op)
    case (Sess_sweep t)
    then have "t \<le> now" using Cons.prems(1) by simp
    then have "asess_get (asess_run op m) j now = asess_get m' j now" for j
      unfolding Sess_sweep by (simp only: asess_get_sweep Cons.prems(2))
    then show ?thesis using Cons.IH [of "asess_run op m" m'] Cons.prems(1) Sess_sweep by simp
  next
    case (Sess_put j su sc e)
    have "asess_get (asess_run op m) k now = asess_get (asess_run op m') k now" for k
      using Cons.prems(2) [of k] Sess_put by (simp add: asess_get_def)
    from Cons.IH [OF _ this] show ?thesis using Cons.prems(1) Sess_put by (simp add: fun_upd_def)
  next
    case (Sess_del j)
    have "asess_get (asess_run op m) k now = asess_get (asess_run op m') k now" for k
      using Cons.prems(2) [of k] Sess_del by (simp add: asess_get_def)
    from Cons.IH [OF _ this] show ?thesis using Cons.prems(1) Sess_del by (simp add: fun_upd_def)
  qed
qed simp

subsection \<open>Properties\<close>



text \<open>
  The periodic sweep is housekeeping only: as long as it ran at
  times that are not in the future, every lookup answers as if it had never run.
\<close>

lemma session_sweep_invisible:
  assumes "sess_wf t" "list_all (sweep_by now) ops"
  shows "fst (ntc_session_get (table_engine sess_sem) (sess_runs (table_engine sess_sem) ops t) (Some i) now a b) =
    fst (ntc_session_get (table_engine sess_sem) (sess_runs (table_engine sess_sem) (filter (\<lambda>oper. \<not> is_sweep oper) ops) t) (Some i) now a b)"
  using table_sess_runs [OF assms(1)] asess_get_unswept [OF assms(2) refl] by (simp add: table_sess_get)

end
