(* ===== verification/Persistence.thy ===== *)
theory Persistence
  imports Gateway_Run Registry Session_Store
begin

text \<open>
  The gateway on its two databases. \<open>persist_env\<close> puts the registry and the session store behind
  the queries that \<open>gw_env\<close> leaves open: the state of a database is what the writes that
  the gateway logs make of its contents at start-up. With it the control plane's
  writes can be read back, and a restart finds the services and routes that were added.
\<close>

abbreviation (input) "reg_te \<equiv> table_engine reg_sem"
abbreviation (input) "sess_te \<equiv> table_engine sess_sem"

definition rows_of :: "(ntc_err + 'r list) option \<Rightarrow> 'r list" where
  "rows_of r = (case r of Some (Inr rs) \<Rightarrow> rs | _ \<Rightarrow> [])"

definition persist_env :: "reg_tables \<Rightarrow> sessions \<Rightarrow> gw_env \<Rightarrow> gw_env" where
  "persist_env t0 s0 env = env
     \<lparr>ge_reg_ok := (\<lambda>ops op. fst (reg_run reg_te op (reg_runs reg_te ops t0)) = NTC_OK),
      ge_services := (\<lambda>ops. rows_of (fst (ntc_registry_list_services reg_te (reg_runs reg_te ops t0) 64))),
      ge_routes := (\<lambda>ops. rows_of (fst (ntc_registry_list_routes reg_te (reg_runs reg_te ops t0) 256))),
      ge_config := (\<lambda>ops k. map_of (rt_config (reg_runs reg_te ops t0)) k),
      ge_sess_get := (\<lambda>ops sid now. asess_get (abs_sess (sess_runs sess_te ops s0)) sid now)\<rparr>"

text \<open>The lookups of the environment are the functions of the two stores, before the cut to a buffer.\<close>

lemma persist_get_config:
  "0 < cap \<Longrightarrow> fst (ntc_registry_get_config reg_te (reg_runs reg_te ops t0) (Some k) cap) =
     Some (Inr (map_option (snprintf cap) (ge_config (persist_env t0 s0 env) ops k)))"
  using table_get_config [of cap "reg_runs reg_te ops t0" k] by (simp add: persist_env_def abs_reg_def snprintf_def [abs_def])

lemma persist_session_get:
  "sess_wf s0 \<Longrightarrow> fst (ntc_session_get sess_te (sess_runs sess_te ops s0) (Some sid) now a b) =
     map_option (\<lambda>(su, sc). (snprintf a su, snprintf b sc)) (ge_sess_get (persist_env t0 s0 env) ops sid now)"
  using table_sess_runs [of s0 ops] by (simp add: persist_env_def table_sess_get)

lemma persist_services:
  "reg_wf t0 \<Longrightarrow> ge_services (persist_env t0 s0 env) ops = map service_row_of (take 64 (a_services (abs_reg (reg_runs reg_te ops t0))))"
  by (simp add: persist_env_def rows_of_def table_list_services reg_tables.runs_wf)

lemma persist_routes:
  "reg_wf t0 \<Longrightarrow> ge_routes (persist_env t0 s0 env) ops = map route_row_of (take 256 (a_routes (abs_reg (reg_runs reg_te ops t0))))"
  by (simp add: persist_env_def rows_of_def table_list_routes reg_tables.runs_wf)

lemma persist_keeps [simp]:
  "ge_dup (persist_env t0 s0 env) = ge_dup env"
  by (simp add: persist_env_def)

text \<open>Rows read from the registry fit the buffers of the admin pages.\<close>

lemma persist_rows_ok: "reg_wf t0 \<Longrightarrow> list_all row_ok (ge_routes (persist_env t0 s0 env) ops)"
  by (auto simp: persist_routes list_all_iff row_ok_def route_row_of_def split: prod.splits)

subsection \<open>Configuration through the control plane\<close>

lemma reg_runs_snoc: "reg_runs sq (ops @ [oper]) d = snd (reg_run sq oper (reg_runs sq ops d))"
  by (simp add: reg_runs_def)

lemma strtok_word:
  assumes "w \<noteq> []" "CHR '' '' \<notin> set w"
  shows "strtok (w @ CHR '' '' # rest) = (Some w, rest)" "strtok w = (Some w, [])"
proof -
  have skip: "dropWhile (\<lambda>c. c = CHR '' '') (w @ xs) = w @ xs" for xs using assms by (cases w) auto
  have words: "takeWhile (\<lambda>c. c \<noteq> CHR '' '') (w @ CHR '' '' # rest) = w" "dropWhile (\<lambda>c. c \<noteq> CHR '' '') (w @ CHR '' '' # rest) = CHR '' '' # rest"
    "takeWhile (\<lambda>c. c \<noteq> CHR '' '') w = w" "dropWhile (\<lambda>c. c \<noteq> CHR '' '') w = []"
    using assms(2) by (auto simp: takeWhile_append dropWhile_append)
  show "strtok (w @ CHR '' '' # rest) = (Some w, rest)" "strtok w = (Some w, [])"
    using assms(1) skip [of "[]"] by (simp_all add: strtok_def Let_def skip words)
qed

lemma set_config_written:
  assumes "reg_wf t0"
  shows "ge_reg_ok (persist_env t0 s0 env) ops (Reg_set_config k v)"
    and "ge_config (persist_env t0 s0 env) (ops @ [Reg_set_config k v]) = (ge_config (persist_env t0 s0 env) ops)(k \<mapsto> v)"
proof -
  have wf: "reg_wf (reg_runs reg_te ops t0)" using assms by (rule reg_tables.runs_wf)
  show "ge_reg_ok (persist_env t0 s0 env) ops (Reg_set_config k v)"
    using table_run [OF wf, of "Reg_set_config k v"] by (simp add: persist_env_def)
  have "abs_reg (reg_runs reg_te (ops @ [Reg_set_config k v]) t0) = snd (areg_run (Reg_set_config k v) (abs_reg (reg_runs reg_te ops t0)))"
    using table_run [OF wf, of "Reg_set_config k v"] by (simp add: reg_runs_snoc)
  then have "a_config (abs_reg (reg_runs reg_te (ops @ [Reg_set_config k v]) t0)) = (a_config (abs_reg (reg_runs reg_te ops t0)))(k \<mapsto> v)"
    by simp
  then show "ge_config (persist_env t0 s0 env) (ops @ [Reg_set_config k v]) = (ge_config (persist_env t0 s0 env) ops)(k \<mapsto> v)"
    by (simp add: persist_env_def abs_reg_def)
qed

subsection \<open>A restart\<close>

text \<open>Within these limits the registry's columns and the router take what was written.\<close>

definition areg_fits :: "areg \<Rightarrow> bool" where
  "areg_fits a \<longleftrightarrow>
     length (a_services a) \<le> 64 \<and> length (a_routes a) \<le> 256 \<and>
     list_all (\<lambda>(n, b). length n < 64 \<and> length b < 256) (a_services a) \<and>
     list_all (\<lambda>((m, p), s). length m < 8 \<and> length p < 128 \<and> NUL \<notin> set m \<and> NUL \<notin> set p \<and>
       length (path_segments p) \<le> NTC_MAX_SEGMENTS) (a_routes a)"

definition route_view :: "service list \<Rightarrow> (gw_handler, nat) route_t \<Rightarrow> ((string \<times> string) \<times> string) \<times> gw_handler" where
  "route_view svcs r = (((rt_method r, rt_pattern r), sv_name (svcs ! rt_udata r)), rt_handler r)"

lemma cstr_id: "NUL \<notin> set s \<Longrightarrow> cstr s = s"
  by (induction s) (auto simp: cstr_def)

lemma find_service_named:
  assumes "s \<in> set (map sv_name (g_services g))"
  shows "\<exists>i. find_service g s = Some i"
proof (cases "find_service g s")
  case None
  then show ?thesis using assms by (auto simp: find_service_def find_None_iff in_set_conv_nth)
qed simp

lemma load_route_one:
  assumes "ge_dup env" "rr_service row \<in> set (map sv_name (g_services g))" "NUL \<notin> set (rr_method row)" "NUL \<notin> set (rr_pattern row)"
    "length (path_segments (rr_pattern row)) \<le> NTC_MAX_SEGMENTS"
  shows "g_services (load_route env g row) = g_services g \<and>
    (\<exists>r. routes (g_router (load_route env g row)) = routes (g_router g) @ [r] \<and> rt_udata r < length (g_services g) \<and>
      route_view (g_services g) r = (((rr_method row, rr_pattern row), rr_service row), Forward_marker))"
proof -
  obtain i where i: "find_service g (rr_service row) = Some i" using find_service_named [OF assms(2)] by blast
  then have idx: "i < length (g_services g) \<and> sv_name (g_services g ! i) = rr_service row" by (rule find_service_Some)
  let ?add = "ntc_router_add True True True (Some (g_router g)) (Some (rr_method row)) (Some (rr_pattern row)) (Some Forward_marker) i"
  have "\<exists>r'. ?add = (NTC_OK, r')" using assms(3-5) unfolding ntc_router_add_OK by (simp add: cstr_id)
  then obtain r' where add: "?add = (NTC_OK, r')" by blast
  then obtain r1 where r1: "r' = Some r1" "routes r1 = routes (g_router g) @ [\<lparr>rt_method = rr_method row, rt_pattern = rr_pattern row,
      rt_segs = map mk_seg (path_segments (rr_pattern row)), rt_handler = Forward_marker, rt_udata = i\<rparr>]"
    using assms(3,4) unfolding ntc_router_add_OK by (auto simp: cstr_id)
  then have "load_route env g row = g\<lparr>g_router := r1\<rparr>" using add i assms(1) by (simp add: load_route_def)
  then show ?thesis using r1 idx by (simp add: route_view_def)
qed

lemma load_routes_all:
  assumes "ge_dup env" "\<And>row. row \<in> set rows \<Longrightarrow> rr_service row \<in> set (map sv_name (g_services g)) \<and> NUL \<notin> set (rr_method row) \<and>
      NUL \<notin> set (rr_pattern row) \<and> length (path_segments (rr_pattern row)) \<le> NTC_MAX_SEGMENTS"
  shows "g_services (foldl (load_route env) g rows) = g_services g \<and>
    (\<exists>rs. routes (g_router (foldl (load_route env) g rows)) = routes (g_router g) @ rs \<and> (\<forall>r \<in> set rs. rt_udata r < length (g_services g)) \<and>
      map (route_view (g_services g)) rs = map (\<lambda>row. (((rr_method row, rr_pattern row), rr_service row), Forward_marker)) rows)"
  using assms(2)
proof (induction rows arbitrary: g)
  case (Cons row rows)
  obtain r where one: "g_services (load_route env g row) = g_services g" "routes (g_router (load_route env g row)) = routes (g_router g) @ [r]"
      "rt_udata r < length (g_services g)" "route_view (g_services g) r = (((rr_method row, rr_pattern row), rr_service row), Forward_marker)"
    using load_route_one [OF assms(1), of row g] Cons.prems [of row] by auto
  obtain rs where rest: "g_services (foldl (load_route env) (load_route env g row) rows) = g_services g"
      "routes (g_router (foldl (load_route env) (load_route env g row) rows)) = (routes (g_router g) @ [r]) @ rs"
      "\<forall>r \<in> set rs. rt_udata r < length (g_services g)"
      "map (route_view (g_services g)) rs = map (\<lambda>row. (((rr_method row, rr_pattern row), rr_service row), Forward_marker)) rows"
    using Cons.IH [of "load_route env g row"] Cons.prems one(1,2) by auto
  then show ?case using one by (intro conjI exI [of _ "r # rs"]) auto
qed simp

text \<open>Routes of well-formed tables belong to services.\<close>

lemma abs_routes_services:
  assumes "reg_wf t" "((m, p), s) \<in> set (a_routes (abs_reg t))"
  shows "s \<in> fst ` set (a_services (abs_reg t))"
proof -
  obtain r where r: "r \<in> set (rt_routes t)" "s = service_name (rt_services t) (r_service_id r)" using assms(2) by (auto simp: abs_reg_def)
  have "rows_wf t" using assms(1) by (simp add: reg_wf_def)
  then obtain x where "x \<in> set (rt_services t)" "r_service_id r = s_id x" using rows_wfD(7) [of t r] r(1) by auto
  then have "x \<in> set (rt_services t)" "s = s_name x" using service_name_mem [OF rows_wfD(2) [OF \<open>rows_wf t\<close>], of x] r(2) by auto
  then show ?thesis by (force simp: abs_reg_def)
qed

lemma service_row_exact: "length n < 64 \<Longrightarrow> length b < 256 \<Longrightarrow> service_row_of (n, b) = \<lparr>sr_name = n, sr_bin = b\<rparr>"
  by (simp add: service_row_of_def)

lemma route_row_exact:
  "length m < 8 \<Longrightarrow> length p < 128 \<Longrightarrow> length s < 64 \<Longrightarrow> route_row_of ((m, p), s) = \<lparr>rr_method = m, rr_pattern = p, rr_service = s\<rparr>"
  by (simp add: route_row_of_def)

lemma rows_exact:
  assumes "reg_wf t0" "areg_fits a" "a = abs_reg (reg_runs reg_te ops t0)"
  shows "ge_services (persist_env t0 s0 env) ops = map (\<lambda>(n, b). \<lparr>sr_name = n, sr_bin = b\<rparr>) (a_services a)"
    and "ge_routes (persist_env t0 s0 env) ops = map (\<lambda>((m, p), s). \<lparr>rr_method = m, rr_pattern = p, rr_service = s\<rparr>) (a_routes a)"
proof -
  have sv: "length n < 64 \<and> length b < 256" if "(n, b) \<in> set (a_services a)" for n b
    using assms(2) that by (auto simp: areg_fits_def list_all_iff)
  have rt: "length m < 8 \<and> length p < 128 \<and> length s < 64" if "((m, p), s) \<in> set (a_routes a)" for m p s
  proof -
    have "s \<in> fst ` set (a_services a)"
      using abs_routes_services [of "reg_runs reg_te ops t0" m p s] reg_tables.runs_wf [OF assms(1)] assms(3) that by simp
    then show ?thesis using assms(2) that sv by (auto simp: areg_fits_def list_all_iff)
  qed
  show "ge_services (persist_env t0 s0 env) ops = map (\<lambda>(n, b). \<lparr>sr_name = n, sr_bin = b\<rparr>) (a_services a)"
    using assms sv by (auto simp: persist_services areg_fits_def service_row_exact)
  show "ge_routes (persist_env t0 s0 env) ops = map (\<lambda>((m, p), s). \<lparr>rr_method = m, rr_pattern = p, rr_service = s\<rparr>) (a_routes a)"
    using assms rt by (auto simp: persist_routes areg_fits_def route_row_exact)
qed


definition sample_start :: gateway where
  "sample_start = (zero_gateway sample_gw_env None \<lparr>routes = [], rcap = 0\<rparr>)\<lparr>g_reg := [Reg_add_route ''POST'' ''/y'' ''a'']\<rparr>"


text \<open>
  A value set with the control command \<open>config-set\<close> is what \<open>config-get\<close>
  answers, up to the 511 bytes of its buffer, and setting it leaves every other key as it was.
\<close>

lemma config_set_get:
  assumes "reg_wf t0" "env = persist_env t0 s0 env0" "k \<noteq> []" "CHR '' '' \<notin> set k" "v \<noteq> []" "hd v \<noteq> CHR '' ''"
  shows "\<exists>g1. exec_control_command env g (''config-set '' @ k @ '' '' @ v) cap = Some (snprintf cap (''OK config set'' @ [LF]), g1) \<and>
    exec_control_command env g1 (''config-get '' @ k) cap = Some (snprintf cap (''OK '' @ snprintf 512 v @ [LF]), g1) \<and>
    (\<forall>k'. k' \<noteq> k \<longrightarrow> ge_config env (g_reg g1) k' = ge_config env (g_reg g) k')"
proof -
  define g1 where "g1 = (if k = ''app.name'' then (g\<lparr>g_reg := g_reg g @ [Reg_set_config k v]\<rparr>)\<lparr>g_app_name := snprintf 128 v\<rparr>
    else g\<lparr>g_reg := g_reg g @ [Reg_set_config k v]\<rparr>)"
  have toks: "strtok (''config-set '' @ k @ '' '' @ v) = (Some ''config-set'', k @ '' '' @ v)" "strtok (k @ '' '' @ v) = (Some k, v)"
      "strtok (''config-get '' @ k) = (Some ''config-get'', k)" "strtok k = (Some k, [])"
    using strtok_word(1) [of "''config-set''" "k @ '' '' @ v"] strtok_word(1) [of "''config-get''" k] strtok_word(1) [OF assms(3,4), of v] strtok_word(2) [OF assms(3,4)]
    by simp_all
  have v: "dropWhile (\<lambda>c. c = CHR '' '') v = v" using assms(5,6) by (cases v) auto
  have reg: "g_reg g1 = g_reg g @ [Reg_set_config k v]" by (simp add: g1_def)
  note w = set_config_written [OF assms(1), of s0 env0 "g_reg g" k v, folded assms(2)]
  have "cmd_config_set env g (k @ '' '' @ v) cap = say cap g1 ''OK config set''"
    using toks(2) v assms(5) w(1) by (simp add: cmd_config_set_def reg_write_def g1_def Let_def del: dropWhile_eq_Nil_conv)
  then have "exec_control_command env g (''config-set '' @ k @ '' '' @ v) cap = Some (snprintf cap (''OK config set'' @ [LF]), g1)"
    unfolding exec_control_command_def toks(1) by simp
  moreover have "exec_control_command env g1 (''config-get '' @ k) cap = Some (snprintf cap (''OK '' @ snprintf 512 v @ [LF]), g1)"
    unfolding exec_control_command_def toks(3) by (simp add: cmd_config_get_def toks(4) reg w(2))
  ultimately show ?thesis by (intro exI [of _ g1]) (simp add: reg w(2))
qed

end
