(* ===== verification/Pem.thy ===== *)
theory Pem
  imports Https_Client
begin

text \<open>
  Certificates and keys from PEM files: the server's chain and private key
  (\<open>ntc_tls_conf_new\<close> in \<open>src/core/tls.c\<close>) and the client's trust anchors (\<open>ntc_ca_load_pem\<close> in
  \<open>src/core/https_client.c\<close>). BearSSL's PEM decoder is a parameter: a push consumes some of the
  text, hands decoded bytes to the destination and reports an event; its key and X.509
  decoders are functions of the DER bytes. The loops over the decoder need not end, so they are
  partial functions; they end when every reported event consumes input.
\<close>

subsection \<open>Growing buffers\<close>

record growbuf =
  gb_buf :: "byte list"     \<comment> \<open>the first \<open>len\<close> bytes\<close>
  gb_cap :: nat
  gb_oom :: bool

definition gb_zero :: growbuf where
  "gb_zero = \<lparr>gb_buf = [], gb_cap = 0, gb_oom = False\<rparr>"

text \<open>\<open>while (nc < need) nc *= 2\<close>\<close>

function dbl_cap :: "nat \<Rightarrow> nat \<Rightarrow> nat" where
  "dbl_cap nc need = (if nc < need \<and> 0 < nc then dbl_cap (2 * nc) need else nc)"
  by pat_completeness auto
termination
  by (relation "measure (\<lambda>(nc, need). need - nc)") auto

declare dbl_cap.simps [simp del, loop_simps]

definition buf_append :: "nat \<Rightarrow> (nat \<Rightarrow> bool) \<Rightarrow> byte list \<Rightarrow> growbuf \<Rightarrow> growbuf" where
  "buf_append init alloc src g =
     (if gb_oom g then g
      else if length (gb_buf g) + length src > gb_cap g then
        let nc = dbl_cap (if gb_cap g \<noteq> 0 then gb_cap g else init) (length (gb_buf g) + length src)
        in if alloc nc then g\<lparr>gb_buf := gb_buf g @ src, gb_cap := nc\<rparr> else g\<lparr>gb_oom := True\<rparr>
      else g\<lparr>gb_buf := gb_buf g @ src\<rparr>)"

definition der_append :: "(nat \<Rightarrow> bool) \<Rightarrow> byte list \<Rightarrow> growbuf \<Rightarrow> growbuf" where
  "der_append = buf_append 1024"

definition gb_append :: "(nat \<Rightarrow> bool) \<Rightarrow> byte list \<Rightarrow> growbuf \<Rightarrow> growbuf" where
  "gb_append = buf_append 256"

definition TLS_PEM_MAX :: nat where "TLS_PEM_MAX = 1048576"
definition CA_PEM_MAX :: nat where "CA_PEM_MAX = 4194304"

text \<open>The text of a small file with a final line feed; \<open>None\<close> when it cannot be read.\<close>

definition read_text_file :: "nat \<Rightarrow> (string \<Rightarrow> string option) \<Rightarrow> (nat \<Rightarrow> bool) \<Rightarrow> string \<Rightarrow> string option" where
  "read_text_file limit file alloc path =
     (case file path of
        None \<Rightarrow> None
      | Some s \<Rightarrow>
          if length s > limit \<or> \<not> alloc (length s + 2) then None
          else Some (if s = [] \<or> last s \<noteq> LF then s @ [LF] else s))"

subsection \<open>The loop over the PEM decoder\<close>

datatype pem_event = Pem_none | Pem_begin string | Pem_end | Pem_error

text \<open>
  \<open>br_pem_decoder_push\<close> with the \<open>br_pem_decoder_event\<close> after it: the number of characters
  consumed, the blocks handed to the destination, the event and the next state.
\<close>

type_synonym 'p pem_decoder = "'p \<Rightarrow> string \<Rightarrow> nat \<times> byte list list \<times> pem_event \<times> 'p"

partial_function (option) pem_walk ::
  "'p pem_decoder \<Rightarrow> (byte list list \<Rightarrow> pem_event \<Rightarrow> 's \<Rightarrow> bool \<times> 's) \<Rightarrow> 'p \<Rightarrow> string \<Rightarrow> 's \<Rightarrow> 's option" where
  [code]: "pem_walk dec step p pem s =
     (if pem = [] then Some s
      else case dec p pem of (pushed, blocks, ev, p1) \<Rightarrow>
        (case step blocks ev s of (stop, s1) \<Rightarrow>
           if stop \<or> ev = Pem_none \<and> pushed = 0 then Some s1
           else pem_walk dec step p1 (drop pushed pem) s1))"

definition pem_ok :: "'p pem_decoder \<Rightarrow> bool" where
  "pem_ok dec \<longleftrightarrow> (\<forall>p pem. fst (snd (snd (dec p pem))) \<noteq> Pem_none \<longrightarrow> 0 < fst (dec p pem))"

text \<open>\<open>pem_each\<close>: the callback gets each object's name and bytes.\<close>

record 'u pem_state =
  ps_der :: growbuf
  ps_dest :: bool
  ps_name :: string
  ps_in_obj :: bool
  ps_ok :: bool
  ps_u :: 'u

definition pem_step ::
  "(nat \<Rightarrow> bool) \<Rightarrow> ('u \<Rightarrow> string \<Rightarrow> byte list \<Rightarrow> 'u) \<Rightarrow> byte list list \<Rightarrow> pem_event \<Rightarrow> 'u pem_state \<Rightarrow> bool \<times> 'u pem_state" where
  "pem_step alloc on_obj blocks ev s0 =
     (let s = (if ps_dest s0 then s0\<lparr>ps_der := fold (der_append alloc) blocks (ps_der s0)\<rparr> else s0)
      in case ev of
           Pem_begin name \<Rightarrow>
             (False, s\<lparr>ps_name := snprintf 80 name, ps_der := (ps_der s)\<lparr>gb_buf := [], gb_oom := False\<rparr>, ps_dest := True, ps_in_obj := True\<rparr>)
         | Pem_end \<Rightarrow>
             (if ps_in_obj s then
                (if gb_oom (ps_der s) then (True, s\<lparr>ps_ok := False\<rparr>)
                 else (False, s\<lparr>ps_u := on_obj (ps_u s) (ps_name s) (gb_buf (ps_der s)), ps_in_obj := False\<rparr>))
              else (False, s\<lparr>ps_in_obj := False\<rparr>))
         | Pem_error \<Rightarrow> (True, s\<lparr>ps_ok := False\<rparr>)
         | Pem_none \<Rightarrow> (False, s))"

definition pem_each ::
  "'p pem_decoder \<Rightarrow> 'p \<Rightarrow> (nat \<Rightarrow> bool) \<Rightarrow> ('u \<Rightarrow> string \<Rightarrow> byte list \<Rightarrow> 'u) \<Rightarrow> string \<Rightarrow> 'u \<Rightarrow> (bool \<times> 'u) option" where
  "pem_each dec p0 alloc on_obj pem u =
     map_option (\<lambda>s. (ps_ok s, ps_u s))
       (pem_walk dec (pem_step alloc on_obj) p0 pem
          \<lparr>ps_der = gb_zero, ps_dest = False, ps_name = [], ps_in_obj = False, ps_ok = True, ps_u = u\<rparr>)"

subsection \<open>The server's chain and key\<close>

definition NTC_TLS_MAX_CERTS :: nat where "NTC_TLS_MAX_CERTS = 8"

text \<open>\<open>tc_key\<close>: the DER bytes given to the key decoder, when there were any.\<close>

record tls_certs =
  tc_chain :: "byte list list"
  tc_key :: "byte list option"

record 'k ntc_tls_conf =
  tl_chain :: "byte list list"
  tl_sk :: 'k

record ('p, 'k) tls_conf_env =
  te_file :: "string \<Rightarrow> string option"
  te_alloc :: "nat \<Rightarrow> bool"
  te_calloc :: bool
  te_dec :: "'p pem_decoder"
  te_init :: 'p
  te_key_error :: "byte list \<Rightarrow> int"        \<comment> \<open>\<open>br_skey_decoder_last_error\<close>\<close>
  te_key_is_rsa :: "byte list \<Rightarrow> bool"      \<comment> \<open>\<open>br_skey_decoder_key_type\<close>\<close>
  te_get_rsa :: "byte list \<Rightarrow> 'k option"    \<comment> \<open>\<open>br_skey_decoder_get_rsa\<close>\<close>

definition strstr :: "string \<Rightarrow> string \<Rightarrow> bool" where
  "strstr s needle \<longleftrightarrow> memmem s needle \<noteq> None"

definition collect_obj :: "(nat \<Rightarrow> bool) \<Rightarrow> tls_certs \<Rightarrow> string \<Rightarrow> byte list \<Rightarrow> tls_certs" where
  "collect_obj alloc c name der =
     (if strstr name ''CERTIFICATE'' then
        (if length (tc_chain c) \<ge> NTC_TLS_MAX_CERTS \<or> \<not> alloc (if der \<noteq> [] then length der else 1) then c
         else c\<lparr>tc_chain := tc_chain c @ [der]\<rparr>)
      else if strstr name ''PRIVATE KEY'' \<and> tc_key c = None then c\<lparr>tc_key := Some der\<rparr>
      else c)"

text \<open>The outer option is \<open>None\<close> when a PEM loop does not end, the inner one when NULL is returned.\<close>

definition ntc_tls_conf_new ::
  "('p, 'k) tls_conf_env \<Rightarrow> string option \<Rightarrow> string option \<Rightarrow> 'k ntc_tls_conf option option" where
  "ntc_tls_conf_new env cert_path key_path =
     (case (cert_path, key_path) of
        (Some cp, Some kp) \<Rightarrow>
          if \<not> te_calloc env then Some None
          else
            let pem = (\<lambda>path. read_text_file TLS_PEM_MAX (te_file env) (te_alloc env) path);
                each = pem_each (te_dec env) (te_init env) (te_alloc env) (collect_obj (te_alloc env))
            in case (pem cp, pem kp) of
                 (Some cert, Some key) \<Rightarrow>
                   (case each cert \<lparr>tc_chain = [], tc_key = None\<rparr> of
                      None \<Rightarrow> None
                    | Some (False, _) \<Rightarrow> Some None
                    | Some (True, c1) \<Rightarrow>
                        (case each key c1 of
                           None \<Rightarrow> None
                         | Some (False, _) \<Rightarrow> Some None
                         | Some (True, c) \<Rightarrow>
                             (if tc_chain c = [] then Some None
                              else case tc_key c of
                                     None \<Rightarrow> Some None
                                   | Some der \<Rightarrow>
                                       if te_key_error env der \<noteq> 0 \<or> \<not> te_key_is_rsa env der then Some None
                                       else Some (map_option (\<lambda>sk. \<lparr>tl_chain = tc_chain c, tl_sk = sk\<rparr>) (te_get_rsa env der)))))
               | _ \<Rightarrow> Some None
      | _ \<Rightarrow> Some None)"

subsection \<open>The client's trust anchors\<close>

datatype x509_pkey = PK_rsa "byte list" "byte list" | PK_ec nat "byte list" | PK_other nat

record trust_anchor =
  ta_dn :: "byte list"
  ta_is_ca :: bool
  ta_pkey :: x509_pkey

record ca_set =
  ca_ta :: "trust_anchor list"
  ca_cap :: nat

text \<open>The X.509 decoder on a certificate: blocks of the subject name, the error, the key and the CA flag.\<close>

type_synonym x509_decoder = "byte list \<Rightarrow> byte list list \<times> int \<times> x509_pkey option \<times> bool"

definition copy_key :: "(nat \<Rightarrow> bool) \<Rightarrow> x509_pkey \<Rightarrow> bool" where
  "copy_key alloc pk =
     (case pk of
        PK_rsa n e \<Rightarrow> alloc (max 1 (length n)) \<and> alloc (max 1 (length e))
      | PK_ec _ q \<Rightarrow> alloc (max 1 (length q))
      | PK_other _ \<Rightarrow> False)"

text \<open>The table is grown by \<open>realloc\<close>; its request is counted in anchors.\<close>

definition ca_add_cert :: "x509_decoder \<Rightarrow> (nat \<Rightarrow> bool) \<Rightarrow> ca_set \<Rightarrow> byte list \<Rightarrow> bool \<times> ca_set" where
  "ca_add_cert x509 alloc ca der =
     (case x509 der of (blocks, err, pk, is_ca) \<Rightarrow>
        let dn = fold (gb_append alloc) blocks gb_zero
        in case pk of
             None \<Rightarrow> (False, ca)
           | Some k \<Rightarrow>
               if err \<noteq> 0 \<or> gb_oom dn \<or> gb_buf dn = [] then (False, ca)
               else
                 let full = length (ca_ta ca) \<ge> ca_cap ca; nc = (if ca_cap ca \<noteq> 0 then ca_cap ca * 2 else 8)
                 in if full \<and> \<not> alloc nc then (False, ca)
                    else
                      let ca1 = (if full then ca\<lparr>ca_cap := nc\<rparr> else ca)
                      in if copy_key alloc k
                         then (True, ca1\<lparr>ca_ta := ca_ta ca1 @ [\<lparr>ta_dn = gb_buf dn, ta_is_ca = is_ca, ta_pkey = k\<rparr>]\<rparr>)
                         else (False, ca1))"

record ca_state =
  cs_der :: growbuf
  cs_in_cert :: bool
  cs_ok :: bool
  cs_ca :: ca_set

text \<open>The first component says whether the decoder has a destination: \<open>setdest\<close> is called at each begin.\<close>

definition ca_step :: "x509_decoder \<Rightarrow> (nat \<Rightarrow> bool) \<Rightarrow> byte list list \<Rightarrow> pem_event \<Rightarrow> bool \<times> ca_state \<Rightarrow> bool \<times> bool \<times> ca_state" where
  "ca_step x509 alloc blocks ev st =
     (let dest = fst st;
          s = (if dest then (snd st)\<lparr>cs_der := fold (gb_append alloc) blocks (cs_der (snd st))\<rparr> else snd st)
      in case ev of
           Pem_begin name \<Rightarrow>
             let in_cert = strstr name ''CERTIFICATE''
             in (False, in_cert, s\<lparr>cs_in_cert := in_cert, cs_der := (cs_der s)\<lparr>gb_buf := [], gb_oom := False\<rparr>\<rparr>)
         | Pem_end \<Rightarrow>
             (False, dest,
              s\<lparr>cs_ca := (if cs_in_cert s \<and> \<not> gb_oom (cs_der s) \<and> gb_buf (cs_der s) \<noteq> []
                         then snd (ca_add_cert x509 alloc (cs_ca s) (gb_buf (cs_der s))) else cs_ca s),
                cs_in_cert := False\<rparr>)
         | Pem_error \<Rightarrow> (True, dest, s\<lparr>cs_ok := False\<rparr>)
         | Pem_none \<Rightarrow> (False, dest, s))"

definition ca_load_pem_buf ::
  "'p pem_decoder \<Rightarrow> 'p \<Rightarrow> x509_decoder \<Rightarrow> (nat \<Rightarrow> bool) \<Rightarrow> ca_set \<Rightarrow> string \<Rightarrow> (bool \<times> ca_set) option" where
  "ca_load_pem_buf dec p0 x509 alloc ca pem =
     map_option (\<lambda>(_, s). (cs_ok s, cs_ca s))
       (pem_walk dec (ca_step x509 alloc) p0 pem (False, \<lparr>cs_der = gb_zero, cs_in_cert = False, cs_ok = True, cs_ca = ca\<rparr>))"

definition ntc_ca_load_pem ::
  "'p pem_decoder \<Rightarrow> 'p \<Rightarrow> x509_decoder \<Rightarrow> (nat \<Rightarrow> bool) \<Rightarrow> (string \<Rightarrow> string option) \<Rightarrow> bool \<Rightarrow> string option \<Rightarrow> ca_set option option" where
  "ntc_ca_load_pem dec p0 x509 alloc file calloc path =
     (case path of
        None \<Rightarrow> Some None
      | Some p \<Rightarrow>
          if p = [] then Some None
          else case read_text_file CA_PEM_MAX file alloc p of
                 None \<Rightarrow> Some None
               | Some pem \<Rightarrow>
                   if \<not> calloc then Some None
                   else map_option (\<lambda>(ok, ca). if \<not> ok \<or> ca_ta ca = [] then None else Some ca)
                          (ca_load_pem_buf dec p0 x509 alloc \<lparr>ca_ta = [], ca_cap = 0\<rparr> pem))"

definition ntc_ca_default ::
  "'p pem_decoder \<Rightarrow> 'p \<Rightarrow> x509_decoder \<Rightarrow> (nat \<Rightarrow> bool) \<Rightarrow> (string \<Rightarrow> string option) \<Rightarrow> bool \<Rightarrow> (string \<Rightarrow> string option) \<Rightarrow> ca_set option option" where
  "ntc_ca_default dec p0 x509 alloc file calloc getenv =
     (case getenv ''NTC_CA_BUNDLE'' of
        Some p \<Rightarrow> if p \<noteq> [] then ntc_ca_load_pem dec p0 x509 alloc file calloc (Some p)
                  else ntc_ca_load_pem dec p0 x509 alloc file calloc (Some ''third_party/ca/roots.pem'')
      | None \<Rightarrow> ntc_ca_load_pem dec p0 x509 alloc file calloc (Some ''third_party/ca/roots.pem''))"

subsection \<open>Buffers\<close>

lemma dbl_cap_ge: "0 < nc \<Longrightarrow> need \<le> dbl_cap nc need \<and> nc \<le> dbl_cap nc need"
proof (induction nc need rule: dbl_cap.induct)
  case (1 nc need)
  then show ?case by (subst (1 2) dbl_cap.simps) (auto simp: not_less)
qed

text \<open>The buffer holds what was appended and never more than it has room for.\<close>

definition gb_wf :: "growbuf \<Rightarrow> bool" where
  "gb_wf g \<longleftrightarrow> length (gb_buf g) \<le> gb_cap g"

lemma buf_append_wf:
  assumes "0 < init" "gb_wf g"
  shows "gb_wf (buf_append init alloc src g)"
  using assms dbl_cap_ge [of "if gb_cap g \<noteq> 0 then gb_cap g else init" "length (gb_buf g) + length src"]
  by (auto simp: buf_append_def gb_wf_def Let_def)

lemma buf_append_fold:
  assumes "\<not> gb_oom (fold (buf_append init alloc) blocks g)"
  shows "gb_buf (fold (buf_append init alloc) blocks g) = gb_buf g @ concat blocks"
  using assms
proof (induction blocks arbitrary: g)
  case (Cons b bs)
  have stuck: "gb_oom (fold (buf_append init alloc) xs h)" if "gb_oom h" for xs h
    using that by (induction xs arbitrary: h) (auto simp: buf_append_def)
  have "\<not> gb_oom (buf_append init alloc b g)" using Cons.prems stuck [of "buf_append init alloc b g" bs] by auto
  then have "gb_buf (buf_append init alloc b g) = gb_buf g @ b" by (auto simp: buf_append_def Let_def split: if_splits)
  then show ?case using Cons by simp
qed simp

subsection \<open>The loop ends\<close>

lemma pem_walk_total:
  assumes "pem_ok dec"
  shows "\<exists>r. pem_walk dec step p pem s = Some r"
proof (induction "length pem" arbitrary: p pem s rule: less_induct)
  case less
  obtain pushed blocks ev p1 where d: "dec p pem = (pushed, blocks, ev, p1)" by (cases "dec p pem") auto
  obtain stop s1 where s: "step blocks ev s = (stop, s1)" by (cases "step blocks ev s")
  show ?case
  proof (cases "pem = [] \<or> stop \<or> ev = Pem_none \<and> pushed = 0")
    case True
    then show ?thesis by (subst pem_walk.simps) (auto simp: d s)
  next
    case False
    then have "0 < pushed" using assms d unfolding pem_ok_def by (metis fst_conv gr0I snd_conv)
    then have "\<exists>r. pem_walk dec step p1 (drop pushed pem) s1 = Some r" using False by (intro less) simp
    then show ?thesis using False by (subst pem_walk.simps) (simp add: d s)
  qed
qed

text \<open>A relation between two step functions carries over to the loops.\<close>

lemma pem_walk_map:
  assumes "pem_ok dec" "\<And>blocks ev s. step' blocks ev (h s) = map_prod id h (step blocks ev s)"
  shows "pem_walk dec step' p pem (h s) = map_option h (pem_walk dec step p pem s)"
proof (induction "length pem" arbitrary: p pem s rule: less_induct)
  case less
  obtain pushed blocks ev p1 where d: "dec p pem = (pushed, blocks, ev, p1)" by (cases "dec p pem") auto
  obtain stop s1 where s: "step blocks ev s = (stop, s1)" by (cases "step blocks ev s")
  show ?case
  proof (cases "pem = [] \<or> stop \<or> ev = Pem_none \<and> pushed = 0")
    case True
    then show ?thesis by (subst (1 2) pem_walk.simps) (auto simp: d s assms(2))
  next
    case False
    then have pos: "0 < pushed" using assms(1) d unfolding pem_ok_def by (metis fst_conv gr0I snd_conv)
    then have "pem_walk dec step' p1 (drop pushed pem) (h s1) = map_option h (pem_walk dec step p1 (drop pushed pem) s1)"
      using False by (intro less) simp
    then show ?thesis using False pos by (subst (1 2) pem_walk.simps) (simp add: d s assms(2))
  qed
qed

lemma pem_walk_inv:
  assumes "pem_ok dec" "P s" "\<And>blocks ev s. P s \<Longrightarrow> P (snd (step blocks ev s))" "pem_walk dec step p pem s = Some r"
  shows "P r"
  using assms(2,4)
proof (induction "length pem" arbitrary: p pem s rule: less_induct)
  case less
  obtain pushed blocks ev p1 where d: "dec p pem = (pushed, blocks, ev, p1)" by (cases "dec p pem") auto
  obtain stop s1 where s: "step blocks ev s = (stop, s1)" by (cases "step blocks ev s")
  have s1: "P s1" using assms(3) [OF less.prems(1), of blocks ev] s by simp
  show ?case
  proof (cases "pem = [] \<or> stop \<or> ev = Pem_none \<and> pushed = 0")
    case True
    then have "r = s \<or> r = s1" using less.prems(2) by (subst (asm) pem_walk.simps) (auto simp: d s split: if_splits)
    then show ?thesis using less.prems(1) s1 by blast
  next
    case False
    then have pos: "0 < pushed" using assms(1) d unfolding pem_ok_def by (metis fst_conv gr0I snd_conv)
    then have "pem_walk dec step p1 (drop pushed pem) s1 = Some r"
      using less.prems(2) False by (subst (asm) pem_walk.simps) (simp add: d s)
    then show ?thesis using False pos s1 by (intro less.hyps [of "drop pushed pem" s1 p1]) auto
  qed
qed

subsection \<open>The objects of a file\<close>

definition pem_objects :: "'p pem_decoder \<Rightarrow> 'p \<Rightarrow> (nat \<Rightarrow> bool) \<Rightarrow> string \<Rightarrow> (bool \<times> (string \<times> byte list) list) option" where
  "pem_objects dec p0 alloc pem = pem_each dec p0 alloc (\<lambda>u n d. u @ [(n, d)]) pem []"

lemma pem_each_objects:
  assumes "pem_ok dec"
  shows "pem_each dec p0 alloc f pem u = map_option (\<lambda>(b, objs). (b, foldl (\<lambda>u (n, d). f u n d) u objs)) (pem_objects dec p0 alloc pem)"
proof -
  define h where
    "h = (\<lambda>s :: (string \<times> byte list) list pem_state. \<lparr>ps_der = ps_der s, ps_dest = ps_dest s, ps_name = ps_name s, ps_in_obj = ps_in_obj s, ps_ok = ps_ok s,
       ps_u = foldl (\<lambda>u (n, d). f u n d) u (ps_u s)\<rparr>)"
  have "pem_step alloc f blocks ev (h s) = map_prod id h (pem_step alloc (\<lambda>u n d. u @ [(n, d)]) blocks ev s)" for blocks ev s
    by (auto simp: pem_step_def h_def Let_def split: pem_event.splits)
  note walk = pem_walk_map [where step' = "pem_step alloc f" and h = h, OF assms this]
  have "h \<lparr>ps_der = gb_zero, ps_dest = False, ps_name = [], ps_in_obj = False, ps_ok = True, ps_u = []\<rparr>
      = \<lparr>ps_der = gb_zero, ps_dest = False, ps_name = [], ps_in_obj = False, ps_ok = True, ps_u = u\<rparr>" by (simp add: h_def)
  then have "pem_walk dec (pem_step alloc f) p0 pem \<lparr>ps_der = gb_zero, ps_dest = False, ps_name = [], ps_in_obj = False, ps_ok = True, ps_u = u\<rparr>
      = map_option h (pem_walk dec (pem_step alloc (\<lambda>u n d. u @ [(n, d)])) p0 pem
          \<lparr>ps_der = gb_zero, ps_dest = False, ps_name = [], ps_in_obj = False, ps_ok = True, ps_u = []\<rparr>)"
    using walk [of p0 pem "\<lparr>ps_der = gb_zero, ps_dest = False, ps_name = [], ps_in_obj = False, ps_ok = True, ps_u = []\<rparr>"] by simp
  then show ?thesis by (simp add: pem_each_def pem_objects_def option.map_comp comp_def h_def)
qed

definition cert_objs :: "(string \<times> byte list) list \<Rightarrow> byte list list" where
  "cert_objs objs = map snd (filter (\<lambda>(n, _). strstr n ''CERTIFICATE'') objs)"

definition key_objs :: "(string \<times> byte list) list \<Rightarrow> byte list list" where
  "key_objs objs = map snd (filter (\<lambda>(n, _). \<not> strstr n ''CERTIFICATE'' \<and> strstr n ''PRIVATE KEY'') objs)"

definition first_of :: "'a list \<Rightarrow> 'a option" where
  "first_of xs = (case xs of [] \<Rightarrow> None | x # _ \<Rightarrow> Some x)"

lemma collect_objs:
  "foldl (\<lambda>c (n, d). collect_obj (\<lambda>_. True) c n d) \<lparr>tc_chain = take NTC_TLS_MAX_CERTS cs, tc_key = first_of ks\<rparr> objs =
    \<lparr>tc_chain = take NTC_TLS_MAX_CERTS (cs @ cert_objs objs), tc_key = first_of (ks @ key_objs objs)\<rparr>"
proof (induction objs arbitrary: cs ks)
  case (Cons o1 objs)
  obtain n d where o1: "o1 = (n, d)" by (cases o1)
  show ?case
  proof (cases "strstr n ''CERTIFICATE''")
    case True
    have "collect_obj (\<lambda>_. True) \<lparr>tc_chain = take NTC_TLS_MAX_CERTS cs, tc_key = first_of ks\<rparr> n d =
        \<lparr>tc_chain = take NTC_TLS_MAX_CERTS (cs @ [d]), tc_key = first_of ks\<rparr>"
      using True by (simp add: collect_obj_def)
    then show ?thesis using Cons [of "cs @ [d]" ks] True by (simp add: o1 cert_objs_def key_objs_def)
  next
    case noc: False
    show ?thesis
    proof (cases "strstr n ''PRIVATE KEY''")
      case True
      have "collect_obj (\<lambda>_. True) \<lparr>tc_chain = take NTC_TLS_MAX_CERTS cs, tc_key = first_of ks\<rparr> n d =
          \<lparr>tc_chain = take NTC_TLS_MAX_CERTS cs, tc_key = first_of (ks @ [d])\<rparr>"
        using True noc by (auto simp: collect_obj_def first_of_def split: list.splits)
      then show ?thesis using Cons [of cs "ks @ [d]"] True noc by (simp add: o1 cert_objs_def key_objs_def)
    next
      case False
      then show ?thesis using Cons [of cs ks] noc by (simp add: o1 cert_objs_def key_objs_def collect_obj_def)
    qed
  qed
qed (simp add: cert_objs_def key_objs_def)

lemma pem_each_total: "pem_ok dec \<Longrightarrow> \<exists>b u'. pem_each dec p0 alloc f pem u = Some (b, u')"
  using pem_walk_total [of dec "pem_step alloc f" p0 pem] by (fastforce simp: pem_each_def)

lemma ca_load_total: "pem_ok dec \<Longrightarrow> \<exists>r. ca_load_pem_buf dec p0 x509 alloc ca pem = Some r"
  using pem_walk_total [of dec "ca_step x509 alloc" p0 pem] by (fastforce simp: ca_load_pem_buf_def)

lemma ca_load_pem_total: "pem_ok dec \<Longrightarrow> \<exists>r. ntc_ca_load_pem dec p0 x509 alloc file calloc path = Some r"
  using ca_load_total [of dec p0 x509 alloc] by (auto simp: ntc_ca_load_pem_def split: option.splits)

lemma conf_new_total:
  assumes "pem_ok (te_dec env)"
  shows "\<exists>r. ntc_tls_conf_new env cp kp = Some r"
proof -
  have each: "\<exists>b c'. pem_each (te_dec env) (te_init env) (te_alloc env) (collect_obj (te_alloc env)) pem c = Some (b, c')" for pem c
    using assms by (rule pem_each_total)
  show ?thesis
  proof (cases "\<exists>c k cert key. cp = Some c \<and> kp = Some k \<and> te_calloc env \<and>
      read_text_file TLS_PEM_MAX (te_file env) (te_alloc env) c = Some cert \<and> read_text_file TLS_PEM_MAX (te_file env) (te_alloc env) k = Some key")
    case True
    then obtain c k cert key where args: "cp = Some c" "kp = Some k" "te_calloc env"
      "read_text_file TLS_PEM_MAX (te_file env) (te_alloc env) c = Some cert" "read_text_file TLS_PEM_MAX (te_file env) (te_alloc env) k = Some key" by blast
    obtain b1 c1 where e1: "pem_each (te_dec env) (te_init env) (te_alloc env) (collect_obj (te_alloc env)) cert \<lparr>tc_chain = [], tc_key = None\<rparr> = Some (b1, c1)"
      using each by blast
    obtain b2 c2 where e2: "pem_each (te_dec env) (te_init env) (te_alloc env) (collect_obj (te_alloc env)) key c1 = Some (b2, c2)"
      using each by blast
    show ?thesis using args e1 e2 by (cases b1; cases b2) (auto simp: ntc_tls_conf_new_def Let_def split: option.splits)
  next
    case False
    then show ?thesis by (cases cp; cases kp) (auto simp: ntc_tls_conf_new_def Let_def split: option.splits)
  qed
qed

text \<open>What holds of every anchor: it was decoded without error from a certificate, with its whole name.\<close>

definition anchor_ok :: "x509_decoder \<Rightarrow> trust_anchor \<Rightarrow> bool" where
  "anchor_ok x509 t \<longleftrightarrow> (\<exists>der blocks. x509 der = (blocks, 0, Some (ta_pkey t), ta_is_ca t) \<and> ta_dn t = concat blocks) \<and>
     ta_dn t \<noteq> [] \<and> (\<forall>n. ta_pkey t \<noteq> PK_other n)"

definition ca_wf :: "x509_decoder \<Rightarrow> ca_set \<Rightarrow> bool" where
  "ca_wf x509 ca \<longleftrightarrow> length (ca_ta ca) \<le> ca_cap ca \<and> list_all (anchor_ok x509) (ca_ta ca)"

lemma ca_add_cert_wf:
  assumes "ca_wf x509 ca"
  shows "ca_wf x509 (snd (ca_add_cert x509 alloc ca der))"
proof -
  obtain blocks err pk is_ca where d: "x509 der = (blocks, err, pk, is_ca)" by (cases "x509 der") auto
  define dn where "dn = fold (gb_append alloc) blocks gb_zero"
  have name: "gb_buf dn = concat blocks" if "\<not> gb_oom dn"
    using buf_append_fold [of 256 alloc blocks gb_zero] that by (simp add: dn_def gb_append_def gb_zero_def)
  have cap: "length (ca_ta ca) < (if ca_cap ca \<noteq> 0 then ca_cap ca * 2 else 8)" using assms by (auto simp: ca_wf_def)
  show ?thesis
  proof (cases pk)
    case None
    then show ?thesis using assms by (simp add: ca_add_cert_def d Let_def)
  next
    case (Some k)
    show ?thesis
    proof (cases "err \<noteq> 0 \<or> gb_oom dn \<or> gb_buf dn = []")
      case True
      then show ?thesis using Some assms by (auto simp: ca_add_cert_def d Let_def dn_def)
    next
      case False
      then have "anchor_ok x509 \<lparr>ta_dn = gb_buf dn, ta_is_ca = is_ca, ta_pkey = k\<rparr>" if "copy_key alloc k"
        using d name that Some by (auto simp: anchor_ok_def copy_key_def)
      then show ?thesis using Some False assms cap
        by (simp add: ca_add_cert_def d Let_def ca_wf_def flip: dn_def)
    qed
  qed
qed

lemma ca_step_wf: "ca_wf x509 (cs_ca (snd s)) \<Longrightarrow> ca_wf x509 (cs_ca (snd (snd (ca_step x509 alloc blocks ev s))))"
  by (auto simp: ca_step_def Let_def ca_add_cert_wf split: pem_event.splits)

lemma ca_load_wf:
  assumes "pem_ok dec" "ca_wf x509 ca" "ca_load_pem_buf dec p0 x509 alloc ca pem = Some (b, ca')"
  shows "ca_wf x509 ca'"
proof -
  obtain s where s: "pem_walk dec (ca_step x509 alloc) p0 pem (False, \<lparr>cs_der = gb_zero, cs_in_cert = False, cs_ok = True, cs_ca = ca\<rparr>) = Some s"
    and ca': "ca' = cs_ca (snd s)" using assms(3) by (auto simp: ca_load_pem_buf_def)
  have "ca_wf x509 (cs_ca (snd s))"
    using pem_walk_inv [where P = "\<lambda>s. ca_wf x509 (cs_ca (snd s))", OF assms(1) _ ca_step_wf s] assms(2) by simp
  then show ?thesis by (simp add: ca')
qed

text \<open>A decoder that takes one character per step: a certificate and a key, then the same again.\<close>

definition sample_dec :: "nat pem_decoder" where
  "sample_dec p pem =
     (let b = [bytes_of (take 1 pem)]
      in if p = 0 then (1, [], Pem_begin ''CERTIFICATE'', 1)
         else if p = 1 then (1, b, Pem_end, 2)
         else if p = 2 then (1, [], Pem_begin ''RSA PRIVATE KEY'', 3)
         else (1, b, Pem_end, 0))"

lemma sample_dec_ok: "pem_ok sample_dec"
  by (simp add: pem_ok_def sample_dec_def Let_def)

definition sample_tls_env :: "(nat, byte list) tls_conf_env" where
  "sample_tls_env = \<lparr>te_file = (\<lambda>_. Some ''-a-k''), te_alloc = (\<lambda>_. True), te_calloc = True, te_dec = sample_dec, te_init = 0,
     te_key_error = (\<lambda>_. 0), te_key_is_rsa = (\<lambda>_. True), te_get_rsa = Some\<rparr>"

definition sample_x509 :: x509_decoder where
  "sample_x509 der = ([der], 0, Some (PK_ec 23 der), True)"

subsection \<open>Properties\<close>

text \<open>
  C23 (\<open>pem_loading_terminates\<close>): loading the server's certificates and key, and loading the trust
  anchors, return for every file, whatever is allocated, provided that the PEM decoder
  reports an event only when it has consumed input.
\<close>

theorem pem_loading_terminates:
  assumes "pem_ok (te_dec env)" "pem_ok dec"
  shows "(\<exists>r. ntc_tls_conf_new env cert_path key_path = Some r) \<and> (\<exists>r. ntc_ca_default dec p0 x509 alloc file calloc getenv = Some r)"
proof
  show "\<exists>r. ntc_tls_conf_new env cert_path key_path = Some r" using assms(1) by (rule conf_new_total)
  show "\<exists>r. ntc_ca_default dec p0 x509 alloc file calloc getenv = Some r"
    using ca_load_pem_total [OF assms(2)] by (auto simp: ntc_ca_default_def split: option.splits)
qed

theorem pem_loading_terminates_witness:
  "(\<exists>r. ntc_tls_conf_new sample_tls_env (Some ''c.pem'') (Some ''k.pem'') = Some r) \<and>
   (\<exists>r. ntc_ca_default sample_dec 0 sample_x509 (\<lambda>_. True) (\<lambda>_. Some ''-a'') True (\<lambda>_. None) = Some r)"
  by (rule pem_loading_terminates) (simp_all add: sample_tls_env_def sample_dec_ok)

text \<open>
  C21 (\<open>tls_conf_spec\<close>): a server configuration is made exactly when both files are read and decoded, there is a
  certificate and a private key among their objects, and the first such key decodes as RSA; the chain is the
  first eight certificates in the order of the two files. In every other case the result is NULL.
\<close>

theorem tls_conf_spec:
  assumes "pem_ok (te_dec env)" "te_calloc env" "te_alloc env = (\<lambda>_. True)"
    "read_text_file TLS_PEM_MAX (te_file env) (\<lambda>_. True) cp = Some cert" "read_text_file TLS_PEM_MAX (te_file env) (\<lambda>_. True) kp = Some key"
    "pem_objects (te_dec env) (te_init env) (\<lambda>_. True) cert = Some (ok1, objs1)"
    "pem_objects (te_dec env) (te_init env) (\<lambda>_. True) key = Some (ok2, objs2)"
  shows "ntc_tls_conf_new env (Some cp) (Some kp) = Some
    (if ok1 \<and> ok2 \<and> cert_objs (objs1 @ objs2) \<noteq> [] then
       (case first_of (key_objs (objs1 @ objs2)) of
          None \<Rightarrow> None
        | Some der \<Rightarrow>
            if te_key_error env der = 0 \<and> te_key_is_rsa env der
            then map_option (\<lambda>sk. \<lparr>tl_chain = take NTC_TLS_MAX_CERTS (cert_objs (objs1 @ objs2)), tl_sk = sk\<rparr>) (te_get_rsa env der)
            else None)
     else None)"
proof -
  let ?c1 = "\<lparr>tc_chain = take NTC_TLS_MAX_CERTS (cert_objs objs1), tc_key = first_of (key_objs objs1)\<rparr>"
  let ?c2 = "\<lparr>tc_chain = take NTC_TLS_MAX_CERTS (cert_objs (objs1 @ objs2)), tc_key = first_of (key_objs (objs1 @ objs2))\<rparr>"
  have app: "cert_objs (objs1 @ objs2) = cert_objs objs1 @ cert_objs objs2" "key_objs (objs1 @ objs2) = key_objs objs1 @ key_objs objs2"
    by (simp_all add: cert_objs_def key_objs_def)
  have e1: "pem_each (te_dec env) (te_init env) (\<lambda>_. True) (collect_obj (\<lambda>_. True)) cert \<lparr>tc_chain = [], tc_key = None\<rparr> = Some (ok1, ?c1)"
    using collect_objs [of "[]" "[]" objs1] by (simp add: pem_each_objects [OF assms(1)] assms(6) first_of_def)
  have e2: "pem_each (te_dec env) (te_init env) (\<lambda>_. True) (collect_obj (\<lambda>_. True)) key ?c1 = Some (ok2, ?c2)"
    using collect_objs [of "cert_objs objs1" "key_objs objs1" objs2] by (simp add: pem_each_objects [OF assms(1)] assms(7) app)
  have nonempty: "NTC_TLS_MAX_CERTS \<noteq> 0" by (simp add: NTC_TLS_MAX_CERTS_def)
  show ?thesis
    by (cases ok1; cases ok2) (simp_all add: ntc_tls_conf_new_def assms(2-5) e1 e2 nonempty Let_def split: option.splits)
qed

theorem tls_conf_spec_witness:
  "ntc_tls_conf_new sample_tls_env (Some ''c.pem'') (Some ''k.pem'') = Some (Some \<lparr>tl_chain = [bytes_of ''a'', bytes_of ''a''], tl_sk = bytes_of ''k''\<rparr>)"
proof -
  have got: "read_text_file TLS_PEM_MAX (te_file sample_tls_env) (\<lambda>_. True) p = Some (''-a-k'' @ [LF])" for p
    by (simp add: read_text_file_def sample_tls_env_def TLS_PEM_MAX_def)
  have objs: "pem_objects (te_dec sample_tls_env) (te_init sample_tls_env) (\<lambda>_. True) (''-a-k'' @ [LF])
      = Some (True, [(''CERTIFICATE'', bytes_of ''a''), (''RSA PRIVATE KEY'', bytes_of ''k'')])"
    by code_simp
  show ?thesis
    by (subst tls_conf_spec [OF _ _ _ got got objs objs])
      (simp_all add: sample_tls_env_def sample_dec_ok cert_objs_def key_objs_def strstr_def first_of_def NTC_TLS_MAX_CERTS_def)
qed

text \<open>
  C22 (\<open>trust_anchors_sound\<close>): every trust anchor of a loaded set was decoded without an error from a
  certificate, carries that certificate's whole subject name and an RSA or EC key, and lies within the
  allocated array; an empty set is never returned.
\<close>

theorem trust_anchors_sound:
  assumes "pem_ok dec" "ntc_ca_load_pem dec p0 x509 alloc file calloc path = Some (Some ca)"
  shows "ca_ta ca \<noteq> [] \<and> length (ca_ta ca) \<le> ca_cap ca \<and> list_all (anchor_ok x509) (ca_ta ca)"
proof -
  obtain pem b where l: "ca_load_pem_buf dec p0 x509 alloc \<lparr>ca_ta = [], ca_cap = 0\<rparr> pem = Some (b, ca)" "ca_ta ca \<noteq> []"
    using assms(2) by (auto simp: ntc_ca_load_pem_def split: option.splits if_splits)
  have "ca_wf x509 \<lparr>ca_ta = [], ca_cap = 0\<rparr>" by (simp add: ca_wf_def)
  from ca_load_wf [OF assms(1) this l(1)] show ?thesis using l(2) by (simp add: ca_wf_def)
qed

theorem trust_anchors_sound_witness:
  "list_all (anchor_ok sample_x509) [\<lparr>ta_dn = bytes_of ''a'', ta_is_ca = True, ta_pkey = PK_ec 23 (bytes_of ''a'')\<rparr>]"
proof -
  have "ntc_ca_load_pem sample_dec 0 sample_x509 (\<lambda>_. True) (\<lambda>_. Some ''-a'') True (Some ''ca.pem'')
      = Some (Some \<lparr>ca_ta = [\<lparr>ta_dn = bytes_of ''a'', ta_is_ca = True, ta_pkey = PK_ec 23 (bytes_of ''a'')\<rparr>], ca_cap = 8\<rparr>)"
    by code_simp
  from trust_anchors_sound [OF sample_dec_ok this] show ?thesis by simp
qed

end
