(* ===== verification/Tls.thy ===== *)
theory Tls
  imports Gateway
begin

text \<open>
  The server side of TLS (\<open>src/core/tls.c\<close>): the functions that move records between a socket and
  BearSSL's engine and application data between the engine and the gateway. The engine is a parameter: a
  record of the library's calls on a state. Of it the theorems assume \<open>engine_ok\<close>, the documented
  behaviour of its buffers: what is acknowledged is consumed, and nothing else is. A socket is
  what \<open>send\<close> and \<open>recv\<close> will answer before they would block.
\<close>

record 'e tls_engine =
  en_closed :: "'e \<Rightarrow> bool"                    \<comment> \<open>\<open>BR_SSL_CLOSED\<close> in the current state\<close>
  en_wants_send :: "'e \<Rightarrow> bool"                \<comment> \<open>\<open>BR_SSL_SENDREC\<close>\<close>
  en_wants_recv :: "'e \<Rightarrow> bool"                \<comment> \<open>\<open>BR_SSL_RECVREC\<close>\<close>
  en_sendrec :: "'e \<Rightarrow> byte list"              \<comment> \<open>\<open>br_ssl_engine_sendrec_buf\<close>; empty for NULL\<close>
  en_sendrec_ack :: "nat \<Rightarrow> 'e \<Rightarrow> 'e"
  en_recvrec :: "'e \<Rightarrow> nat"                    \<comment> \<open>room in \<open>br_ssl_engine_recvrec_buf\<close>\<close>
  en_recvrec_ack :: "byte list \<Rightarrow> 'e \<Rightarrow> 'e"    \<comment> \<open>the bytes put there, acknowledged\<close>
  en_recvapp :: "'e \<Rightarrow> byte list"
  en_recvapp_ack :: "nat \<Rightarrow> 'e \<Rightarrow> 'e"
  en_sendapp :: "'e \<Rightarrow> nat"
  en_sendapp_ack :: "byte list \<Rightarrow> 'e \<Rightarrow> 'e"
  en_flush :: "'e \<Rightarrow> 'e"
  en_close :: "'e \<Rightarrow> 'e"

record 'e ntc_tls =
  t_eng :: 'e
  t_eof :: bool
  t_close_sent :: bool

record sock =
  so_send :: "send_res list"
  so_recv :: "recv_res list"
  so_sent :: "byte list"

subsection \<open>The life of an engine\<close>

definition ntc_tls_new ::
  "('c \<Rightarrow> 'e) \<Rightarrow> (byte list \<Rightarrow> 'e \<Rightarrow> 'e) \<Rightarrow> ('e \<Rightarrow> 'e option) \<Rightarrow> bool \<Rightarrow> byte list option \<Rightarrow> 'c option \<Rightarrow> 'e ntc_tls option" where
  "ntc_tls_new init inject reset alloc urandom conf =
     (case conf of
        None \<Rightarrow> None
      | Some c \<Rightarrow>
          if \<not> alloc then None
          else
            let e = (case urandom of Some seed \<Rightarrow> if seed \<noteq> [] then inject (take 32 seed) (init c) else init c | None \<Rightarrow> init c)
            in map_option (\<lambda>e1. \<lparr>t_eng = e1, t_eof = False, t_close_sent = False\<rparr>) (reset e))"

definition ntc_tls_flush :: "'e tls_engine \<Rightarrow> 'e ntc_tls \<Rightarrow> 'e ntc_tls" where
  "ntc_tls_flush E t = t\<lparr>t_eng := en_flush E (t_eng t)\<rparr>"

definition ntc_tls_close_notify :: "'e tls_engine \<Rightarrow> 'e ntc_tls \<Rightarrow> 'e ntc_tls" where
  "ntc_tls_close_notify E t = (if t_close_sent t then t else t\<lparr>t_eng := en_close E (t_eng t), t_close_sent := True\<rparr>)"

definition ntc_tls_wants_write :: "'e tls_engine \<Rightarrow> 'e ntc_tls \<Rightarrow> bool" where
  "ntc_tls_wants_write E t = en_wants_send E (t_eng t)"

definition ntc_tls_closed :: "'e tls_engine \<Rightarrow> 'e ntc_tls \<Rightarrow> bool" where
  "ntc_tls_closed E t \<longleftrightarrow> t_eof t \<or> en_closed E (t_eng t)"

subsection \<open>Application data\<close>

text \<open>\<open>Inl\<close> is the result \<open>-1\<close>, \<open>Inr\<close> the bytes copied out.\<close>

definition ntc_tls_recv :: "'e tls_engine \<Rightarrow> 'e ntc_tls \<Rightarrow> nat \<Rightarrow> (unit + byte list) \<times> 'e ntc_tls" where
  "ntc_tls_recv E t len =
     (if en_closed E (t_eng t) then (Inl (), t)
      else
        let src = en_recvapp E (t_eng t)
        in if src = [] then (Inr [], t)
           else let n = (if length src < len then length src else len)
                in (Inr (take n src), t\<lparr>t_eng := en_recvapp_ack E n (t_eng t)\<rparr>))"

definition ntc_tls_send :: "'e tls_engine \<Rightarrow> 'e ntc_tls \<Rightarrow> byte list \<Rightarrow> nat \<times> 'e ntc_tls" where
  "ntc_tls_send E t buf =
     (let room = en_sendapp E (t_eng t)
      in if room = 0 then (0, t)
         else let n = (if room < length buf then room else length buf)
              in (n, t\<lparr>t_eng := en_sendapp_ack E (take n buf) (t_eng t)\<rparr>))"

subsection \<open>Records\<close>

text \<open>One direction of a round: whether it made progress, was interrupted, or failed.\<close>

datatype pump_step = Pump_go bool | Pump_intr | Pump_fail

definition pump_send :: "'e tls_engine \<Rightarrow> 'e ntc_tls \<Rightarrow> sock \<Rightarrow> pump_step \<times> 'e ntc_tls \<times> sock" where
  "pump_send E t so =
     (let buf = en_sendrec E (t_eng t)
      in if \<not> en_wants_send E (t_eng t) \<or> buf = [] then (Pump_go False, t, so)
         else case so_send so of
                [] \<Rightarrow> (Pump_go False, t, so)
              | Sent k # rs \<Rightarrow>
                  (if k = 0 then (Pump_fail, t, so\<lparr>so_send := rs\<rparr>)
                   else let n = min k (length buf)
                        in (Pump_go True, t\<lparr>t_eng := en_sendrec_ack E n (t_eng t)\<rparr>,
                            so\<lparr>so_send := rs, so_sent := so_sent so @ take n buf\<rparr>))
              | Send_eintr # rs \<Rightarrow> (Pump_intr, t, so\<lparr>so_send := rs\<rparr>)
              | Send_again # rs \<Rightarrow> (Pump_go False, t, so\<lparr>so_send := rs\<rparr>)
              | Send_err # rs \<Rightarrow> (Pump_fail, t, so\<lparr>so_send := rs\<rparr>))"

text \<open>\<open>wants\<close> is the state as the round began.\<close>

definition pump_recv :: "'e tls_engine \<Rightarrow> bool \<Rightarrow> 'e ntc_tls \<Rightarrow> sock \<Rightarrow> pump_step \<times> 'e ntc_tls \<times> sock" where
  "pump_recv E wants t so =
     (let room = en_recvrec E (t_eng t)
      in if \<not> wants \<or> room = 0 then (Pump_go False, t, so)
         else case so_recv so of
                [] \<Rightarrow> (Pump_go False, t, so)
              | Rcvd s # rs \<Rightarrow>
                  (if s = [] then (Pump_go False, t\<lparr>t_eof := True\<rparr>, so\<lparr>so_recv := rs\<rparr>)
                   else (Pump_go True, t\<lparr>t_eng := en_recvrec_ack E (bytes_of (take room s)) (t_eng t)\<rparr>,
                         so\<lparr>so_recv := (if length s \<le> room then rs else Rcvd (drop room s) # rs)\<rparr>))
              | Rcv_eof # rs \<Rightarrow> (Pump_go False, t\<lparr>t_eof := True\<rparr>, so\<lparr>so_recv := rs\<rparr>)
              | Rcv_eintr # rs \<Rightarrow> (Pump_intr, t, so\<lparr>so_recv := rs\<rparr>)
              | Rcv_again # rs \<Rightarrow> (Pump_go False, t, so\<lparr>so_recv := rs\<rparr>)
              | Rcv_err # rs \<Rightarrow> (Pump_fail, t, so\<lparr>so_recv := rs\<rparr>))"

text \<open>What the kernel still has to answer bounds the rounds.\<close>

fun recv_load :: "recv_res \<Rightarrow> nat" where
  "recv_load (Rcvd s) = Suc (length s)"
| "recv_load _ = 1"

definition sock_load :: "sock \<Rightarrow> nat" where
  "sock_load so = length (so_send so) + sum_list (map recv_load (so_recv so))"

lemma pump_send_load:
  assumes "pump_send E t so = (st, t1, so1)"
  shows "sock_load so1 \<le> sock_load so \<and> (st = Pump_go False \<or> sock_load so1 < sock_load so)"
  using assms by (auto simp: pump_send_def sock_load_def Let_def split: if_splits list.splits send_res.splits)

lemma pump_recv_load:
  assumes "pump_recv E wants t so = (st, t1, so1)"
  shows "sock_load so1 \<le> sock_load so \<and> (st = Pump_go False \<or> sock_load so1 < sock_load so)"
  using assms by (auto simp: pump_recv_def sock_load_def Let_def split: if_splits list.splits recv_res.splits)

function ntc_tls_pump_socket :: "'e tls_engine \<Rightarrow> 'e ntc_tls \<Rightarrow> sock \<Rightarrow> int \<times> 'e ntc_tls \<times> sock" where
  "ntc_tls_pump_socket E t so =
     (if en_closed E (t_eng t) then (-1, t, so)
      else
        case pump_send E t so of
          (Pump_fail, t1, so1) \<Rightarrow> (-1, t1, so1)
        | (Pump_intr, t1, so1) \<Rightarrow> ntc_tls_pump_socket E t1 so1
        | (Pump_go sent, t1, so1) \<Rightarrow>
            (case pump_recv E (en_wants_recv E (t_eng t)) t1 so1 of
               (Pump_fail, t2, so2) \<Rightarrow> (-1, t2, so2)
             | (Pump_intr, t2, so2) \<Rightarrow> ntc_tls_pump_socket E t2 so2
             | (Pump_go got, t2, so2) \<Rightarrow> if sent \<or> got then ntc_tls_pump_socket E t2 so2 else (0, t2, so2)))"
  by pat_completeness auto
termination
proof (relation "measure (\<lambda>(E, t, so). sock_load so)")
qed (auto dest: pump_send_load pump_recv_load, (fastforce dest: pump_send_load [OF sym] pump_recv_load [OF sym])+)

declare ntc_tls_pump_socket.simps [simp del, loop_simps]

subsection \<open>What the engine is relied on for\<close>

text \<open>
  The streams through an engine: the plaintext it has decrypted and how much of it was taken; the
  records it has made and how much of them was sent; the records it was fed; the plaintext it has accepted.
\<close>

record tls_view =
  v_got :: "byte list"
  v_taken :: nat
  v_rout :: "byte list"
  v_rsent :: nat
  v_rin :: "byte list"
  v_acc :: "byte list"

definition flow :: "tls_view \<Rightarrow> tls_view \<Rightarrow> byte list \<Rightarrow> byte list \<Rightarrow> byte list \<Rightarrow> byte list \<Rightarrow> bool" where
  "flow v v' rx tx fed acc \<longleftrightarrow>
     prefix (v_got v) (v_got v') \<and> prefix rx (drop (v_taken v) (v_got v')) \<and> v_taken v' = v_taken v + length rx \<and>
     prefix (v_rout v) (v_rout v') \<and> prefix tx (drop (v_rsent v) (v_rout v')) \<and> v_rsent v' = v_rsent v + length tx \<and>
     v_rin v' = v_rin v @ fed \<and> v_acc v' = v_acc v @ acc"

text \<open>Each call moves what it acknowledges, from where the buffers say it is.\<close>

definition engine_ok :: "'e tls_engine \<Rightarrow> ('e \<Rightarrow> tls_view) \<Rightarrow> bool" where
  "engine_ok E view \<longleftrightarrow>
     (\<forall>e n. n \<le> length (en_recvapp E e) \<longrightarrow> flow (view e) (view (en_recvapp_ack E n e)) (take n (en_recvapp E e)) [] [] []) \<and>
     (\<forall>e n. n \<le> length (en_sendrec E e) \<longrightarrow> flow (view e) (view (en_sendrec_ack E n e)) [] (take n (en_sendrec E e)) [] []) \<and>
     (\<forall>e bs. length bs \<le> en_recvrec E e \<longrightarrow> flow (view e) (view (en_recvrec_ack E bs e)) [] [] bs []) \<and>
     (\<forall>e bs. length bs \<le> en_sendapp E e \<longrightarrow> flow (view e) (view (en_sendapp_ack E bs e)) [] [] [] bs) \<and>
     (\<forall>e. flow (view e) (view (en_flush E e)) [] [] [] [] \<and> flow (view e) (view (en_close E e)) [] [] [] [])"

lemma flow_refl [simp]: "flow v v [] [] [] []"
  by (simp add: flow_def)

lemma prefix_drop: "prefix xs ys \<Longrightarrow> prefix (drop n xs) (drop n ys)"
  by (auto simp: prefix_def)

lemma prefix_stream:
  assumes "prefix xs ys" "prefix a (drop n xs)" "prefix b (drop (n + length a) ys)"
  shows "prefix (a @ b) (drop n ys)"
proof -
  obtain z where z: "drop n ys = a @ z" using assms(1,2) prefix_drop by (metis prefix_def prefix_order.trans)
  then have "drop (n + length a) ys = z" by (metis add.commute append_eq_conv_conj drop_drop)
  then show ?thesis using assms(3) z by simp
qed

lemma flow_trans:
  assumes "flow v v1 rx1 tx1 fed1 acc1" "flow v1 v2 rx2 tx2 fed2 acc2"
  shows "flow v v2 (rx1 @ rx2) (tx1 @ tx2) (fed1 @ fed2) (acc1 @ acc2)"
proof -
  have "prefix (rx1 @ rx2) (drop (v_taken v) (v_got v2))"
    by (rule prefix_stream [of "v_got v1"]) (use assms in \<open>auto simp: flow_def\<close>)
  moreover have "prefix (tx1 @ tx2) (drop (v_rsent v) (v_rout v2))"
    by (rule prefix_stream [of "v_rout v1"]) (use assms in \<open>auto simp: flow_def\<close>)
  ultimately show ?thesis using assms by (auto simp: flow_def intro: prefix_order.trans)
qed

text \<open>The bytes a socket will still deliver.\<close>

fun recv_bytes :: "recv_res \<Rightarrow> byte list" where
  "recv_bytes (Rcvd s) = bytes_of s"
| "recv_bytes _ = []"

definition sock_in :: "sock \<Rightarrow> byte list" where
  "sock_in so = concat (map recv_bytes (so_recv so))"

text \<open>What a call moves between the engine and the socket.\<close>

definition moves :: "('e \<Rightarrow> tls_view) \<Rightarrow> 'e ntc_tls \<Rightarrow> sock \<Rightarrow> 'e ntc_tls \<Rightarrow> sock \<Rightarrow> byte list \<Rightarrow> byte list \<Rightarrow> bool" where
  "moves view t so t' so' rx acc \<longleftrightarrow>
     (\<exists>tx fed. flow (view (t_eng t)) (view (t_eng t')) rx tx fed acc \<and> so_sent so' = so_sent so @ tx \<and> fed @ sock_in so' = sock_in so)"

lemma movesI:
  "flow (view (t_eng t)) (view (t_eng t')) rx tx fed acc \<Longrightarrow> so_sent so' = so_sent so @ tx \<Longrightarrow> fed @ sock_in so' = sock_in so \<Longrightarrow>
     moves view t so t' so' rx acc"
  by (auto simp: moves_def)

lemma moves_refl: "moves view t so t so [] []"
  by (simp add: moves_def)

lemma moves_trans:
  assumes "moves view t so t1 so1 rx1 acc1" "moves view t1 so1 t2 so2 rx2 acc2"
  shows "moves view t so t2 so2 (rx1 @ rx2) (acc1 @ acc2)"
proof -
  obtain tx1 fed1 where 1: "flow (view (t_eng t)) (view (t_eng t1)) rx1 tx1 fed1 acc1" "so_sent so1 = so_sent so @ tx1" "fed1 @ sock_in so1 = sock_in so"
    using assms(1) by (auto simp: moves_def)
  obtain tx2 fed2 where 2: "flow (view (t_eng t1)) (view (t_eng t2)) rx2 tx2 fed2 acc2" "so_sent so2 = so_sent so1 @ tx2" "fed2 @ sock_in so2 = sock_in so1"
    using assms(2) by (auto simp: moves_def)
  have "so_sent so2 = so_sent so @ tx1 @ tx2" using 1(2) 2(2) by simp
  moreover have "(fed1 @ fed2) @ sock_in so2 = sock_in so" using 1(3) 2(3) by (metis append_assoc)
  ultimately show ?thesis by (rule movesI [OF flow_trans [OF 1(1) 2(1)]])
qed

lemma pump_send_moves:
  assumes "engine_ok E view" "pump_send E t so = (st, t1, so1)"
  shows "moves view t so t1 so1 [] []"
proof (cases "\<exists>k rs. so_send so = Sent k # rs \<and> k \<noteq> 0 \<and> en_wants_send E (t_eng t) \<and> en_sendrec E (t_eng t) \<noteq> []")
  case True
  then obtain k rs where k: "so_send so = Sent k # rs" "k \<noteq> 0" "en_wants_send E (t_eng t)" "en_sendrec E (t_eng t) \<noteq> []" by blast
  define n where "n = min k (length (en_sendrec E (t_eng t)))"
  have "flow (view (t_eng t)) (view (en_sendrec_ack E n (t_eng t))) [] (take n (en_sendrec E (t_eng t))) [] []"
    using assms(1) by (simp add: engine_ok_def n_def)
  moreover have "t1 = t\<lparr>t_eng := en_sendrec_ack E n (t_eng t)\<rparr>"
      "so1 = so\<lparr>so_send := rs, so_sent := so_sent so @ take n (en_sendrec E (t_eng t))\<rparr>"
    using assms(2) k by (auto simp: pump_send_def Let_def n_def)
  ultimately show ?thesis by (intro movesI [where tx = "take n (en_sendrec E (t_eng t))" and fed = "[]"]) (auto simp: sock_in_def)
next
  case False
  then have "t_eng t1 = t_eng t" "so_sent so1 = so_sent so" "so_recv so1 = so_recv so"
    using assms(2) by (auto simp: pump_send_def Let_def split: if_splits list.splits send_res.splits)
  then show ?thesis by (simp add: moves_def sock_in_def)
qed

lemma pump_recv_moves:
  assumes "engine_ok E view" "pump_recv E wants t so = (st, t1, so1)"
  shows "moves view t so t1 so1 [] []"
proof (cases "\<exists>s rs. so_recv so = Rcvd s # rs \<and> s \<noteq> [] \<and> wants \<and> en_recvrec E (t_eng t) \<noteq> 0")
  case True
  then obtain s rs where s: "so_recv so = Rcvd s # rs" "s \<noteq> []" "wants" "en_recvrec E (t_eng t) \<noteq> 0" by blast
  define bs where "bs = bytes_of (take (en_recvrec E (t_eng t)) s)"
  have "flow (view (t_eng t)) (view (en_recvrec_ack E bs (t_eng t))) [] [] bs []"
    using assms(1) by (simp add: engine_ok_def bs_def)
  moreover have "bs @ bytes_of (drop (en_recvrec E (t_eng t)) s) = bytes_of s"
    unfolding bs_def map_append [symmetric] by simp
  moreover have "t1 = t\<lparr>t_eng := en_recvrec_ack E bs (t_eng t)\<rparr>"
      "so1 = so\<lparr>so_recv := (if length s \<le> en_recvrec E (t_eng t) then rs else Rcvd (drop (en_recvrec E (t_eng t)) s) # rs)\<rparr>"
    using assms(2) s by (auto simp: pump_recv_def Let_def bs_def)
  ultimately show ?thesis using s(1) by (intro movesI [where tx = "[]" and fed = bs]) (auto simp: sock_in_def)
next
  case False
  then have "t_eng t1 = t_eng t" "so_sent so1 = so_sent so" "sock_in so1 = sock_in so"
    using assms(2) by (auto simp: pump_recv_def Let_def sock_in_def split: if_splits list.splits recv_res.splits)
  then show ?thesis by (simp add: moves_def)
qed


lemma pump_moves:
  assumes "engine_ok E view" "ntc_tls_pump_socket E t so = (rc, t', so')"
  shows "moves view t so t' so' [] []"
  using assms
proof (induction E t so rule: ntc_tls_pump_socket.induct)
  case (1 E t so)
  obtain st1 t1 so1 where snd_eq: "pump_send E t so = (st1, t1, so1)" by (cases "pump_send E t so") auto
  note m1 = pump_send_moves [OF "1.prems"(1) snd_eq]
  obtain st2 t2 so2 where rcv_eq: "pump_recv E (en_wants_recv E (t_eng t)) t1 so1 = (st2, t2, so2)"
    by (cases "pump_recv E (en_wants_recv E (t_eng t)) t1 so1") auto
  note m2 = moves_trans [OF m1 pump_recv_moves [OF "1.prems"(1) rcv_eq], simplified]
  show ?case
  proof (cases "en_closed E (t_eng t)")
    case True
    then show ?thesis using "1.prems"(2) moves_refl [of view t so] by (subst (asm) ntc_tls_pump_socket.simps) simp
  next
    case open1: False
    show ?thesis
    proof (cases st1)
      case Pump_fail
      then show ?thesis using "1.prems"(2) open1 m1 snd_eq by (subst (asm) ntc_tls_pump_socket.simps) simp
    next
      case Pump_intr
      then have "ntc_tls_pump_socket E t1 so1 = (rc, t', so')"
        using "1.prems"(2) open1 snd_eq by (subst (asm) ntc_tls_pump_socket.simps) simp
      then have "moves view t1 so1 t' so' [] []" using "1.IH"(3) [OF open1 snd_eq [symmetric] Pump_intr refl] "1.prems"(1) by simp
      from moves_trans [OF m1 this] show ?thesis by simp
    next
      case (Pump_go b)
      show ?thesis
      proof (cases "st2 = Pump_intr \<or> (\<exists>g. st2 = Pump_go g \<and> (b \<or> g))")
        case True
        then have "ntc_tls_pump_socket E t2 so2 = (rc, t', so')"
          using "1.prems"(2) open1 snd_eq rcv_eq Pump_go by (subst (asm) ntc_tls_pump_socket.simps) auto
        then have "moves view t2 so2 t' so' [] []" using True "1.IH"(1) [OF open1 snd_eq [symmetric] Pump_go refl rcv_eq [symmetric] _ refl]
            "1.IH"(2) [OF open1 snd_eq [symmetric] Pump_go refl rcv_eq [symmetric] _ refl] "1.prems"(1) by auto
        from moves_trans [OF m2 this] show ?thesis by simp
      next
        case False
        then show ?thesis using "1.prems"(2) open1 snd_eq rcv_eq Pump_go m2
          by (cases st2) (subst (asm) ntc_tls_pump_socket.simps, auto)+
      qed
    qed
  qed
qed

subsection \<open>Any sequence of calls\<close>

text \<open>The calls the gateway makes, in any order; before a pump the kernel may have got further answers ready.\<close>

datatype tls_call = Call_pump "send_res list" "recv_res list" | Call_recv nat | Call_send "byte list" | Call_flush | Call_close

fun tls_call_run :: "'e tls_engine \<Rightarrow> tls_call \<Rightarrow> 'e ntc_tls \<times> sock \<Rightarrow> byte list \<times> byte list \<times> 'e ntc_tls \<times> sock" where
  "tls_call_run E (Call_pump ss rs) (t, so) =
     (case ntc_tls_pump_socket E t (so\<lparr>so_send := so_send so @ ss, so_recv := so_recv so @ rs\<rparr>) of (_, t1, so1) \<Rightarrow> ([], [], t1, so1))"
| "tls_call_run E (Call_recv len) (t, so) =
     (case ntc_tls_recv E t len of (r, t1) \<Rightarrow> (case r of Inl _ \<Rightarrow> [] | Inr bs \<Rightarrow> bs, [], t1, so))"
| "tls_call_run E (Call_send buf) (t, so) = (case ntc_tls_send E t buf of (n, t1) \<Rightarrow> ([], take n buf, t1, so))"
| "tls_call_run E Call_flush (t, so) = ([], [], ntc_tls_flush E t, so)"
| "tls_call_run E Call_close (t, so) = ([], [], ntc_tls_close_notify E t, so)"

fun tls_calls :: "'e tls_engine \<Rightarrow> tls_call list \<Rightarrow> 'e ntc_tls \<times> sock \<Rightarrow> byte list \<times> byte list \<times> 'e ntc_tls \<times> sock" where
  "tls_calls E [] st = ([], [], st)"
| "tls_calls E (c # cs) st =
     (case tls_call_run E c st of (rx, ax, st1) \<Rightarrow> case tls_calls E cs st1 of (rx2, ax2, st2) \<Rightarrow> (rx @ rx2, ax @ ax2, st2))"

fun call_in :: "tls_call \<Rightarrow> byte list" where
  "call_in (Call_pump ss rs) = concat (map recv_bytes rs)"
| "call_in _ = []"

lemma recv_moves:
  assumes "engine_ok E view" "ntc_tls_recv E t len = (r, t1)"
  shows "moves view t so t1 so (case r of Inl _ \<Rightarrow> [] | Inr bs \<Rightarrow> bs) [] \<and> (case r of Inl _ \<Rightarrow> True | Inr bs \<Rightarrow> length bs \<le> len)"
proof (cases "en_closed E (t_eng t) \<or> en_recvapp E (t_eng t) = []")
  case True
  then show ?thesis using assms(2) by (auto simp: ntc_tls_recv_def Let_def moves_refl split: if_splits)
next
  case False
  define n where "n = (if length (en_recvapp E (t_eng t)) < len then length (en_recvapp E (t_eng t)) else len)"
  have "flow (view (t_eng t)) (view (en_recvapp_ack E n (t_eng t))) (take n (en_recvapp E (t_eng t))) [] [] []"
    using assms(1) by (simp add: engine_ok_def n_def)
  moreover have "r = Inr (take n (en_recvapp E (t_eng t)))" "t1 = t\<lparr>t_eng := en_recvapp_ack E n (t_eng t)\<rparr>"
    using assms(2) False by (auto simp: ntc_tls_recv_def Let_def n_def)
  ultimately show ?thesis by (auto intro: movesI simp: n_def)
qed

lemma send_moves:
  assumes "engine_ok E view" "ntc_tls_send E t buf = (n, t1)"
  shows "moves view t so t1 so [] (take n buf) \<and> n \<le> length buf"
proof (cases "en_sendapp E (t_eng t) = 0")
  case True
  then show ?thesis using assms(2) by (auto simp: ntc_tls_send_def Let_def moves_refl)
next
  case False
  then have n: "n = min (en_sendapp E (t_eng t)) (length buf)" "t1 = t\<lparr>t_eng := en_sendapp_ack E (take n buf) (t_eng t)\<rparr>"
    using assms(2) by (auto simp: ntc_tls_send_def Let_def)
  then have "flow (view (t_eng t)) (view (t_eng t1)) [] [] [] (take n buf)" using assms(1) by (simp add: engine_ok_def)
  then show ?thesis using n by (auto intro: movesI)
qed

text \<open>Between two states: the streams, with what arrived at the socket in between.\<close>

definition carried ::
  "('e \<Rightarrow> tls_view) \<Rightarrow> 'e ntc_tls \<times> sock \<Rightarrow> 'e ntc_tls \<times> sock \<Rightarrow> byte list \<Rightarrow> byte list \<Rightarrow> byte list \<Rightarrow> bool" where
  "carried view st st' arrived rx acc \<longleftrightarrow>
     (\<exists>tx fed. flow (view (t_eng (fst st))) (view (t_eng (fst st'))) rx tx fed acc \<and> so_sent (snd st') = so_sent (snd st) @ tx \<and>
       fed @ sock_in (snd st') = sock_in (snd st) @ arrived)"

lemma moves_carried: "moves view t so t1 so1 rx acc \<Longrightarrow> carried view (t, so) (t1, so1) [] rx acc"
  by (auto simp: moves_def carried_def)

lemma carried_trans:
  assumes "carried view st st1 in1 rx1 acc1" "carried view st1 st2 in2 rx2 acc2"
  shows "carried view st st2 (in1 @ in2) (rx1 @ rx2) (acc1 @ acc2)"
proof -
  obtain tx1 fed1 where 1: "flow (view (t_eng (fst st))) (view (t_eng (fst st1))) rx1 tx1 fed1 acc1"
      "so_sent (snd st1) = so_sent (snd st) @ tx1" "fed1 @ sock_in (snd st1) = sock_in (snd st) @ in1" using assms(1) by (auto simp: carried_def)
  obtain tx2 fed2 where 2: "flow (view (t_eng (fst st1))) (view (t_eng (fst st2))) rx2 tx2 fed2 acc2"
      "so_sent (snd st2) = so_sent (snd st1) @ tx2" "fed2 @ sock_in (snd st2) = sock_in (snd st1) @ in2" using assms(2) by (auto simp: carried_def)
  have "(fed1 @ fed2) @ sock_in (snd st2) = sock_in (snd st) @ in1 @ in2" using 1(3) 2(3) by (metis append_assoc)
  then show ?thesis unfolding carried_def using flow_trans [OF 1(1) 2(1)] 1(2) 2(2)
    by (intro exI [of _ "tx1 @ tx2"] exI [of _ "fed1 @ fed2"]) simp
qed

lemma call_carried:
  assumes "engine_ok E view" "tls_call_run E c st = (rx, ax, st1)"
  shows "carried view st st1 (call_in c) rx ax"
proof -
  obtain t so where st: "st = (t, so)" by (cases st)
  show ?thesis
  proof (cases c)
    case (Call_pump ss rs)
    obtain rc t1 so1 where p: "ntc_tls_pump_socket E t (so\<lparr>so_send := so_send so @ ss, so_recv := so_recv so @ rs\<rparr>) = (rc, t1, so1)"
      by (cases "ntc_tls_pump_socket E t (so\<lparr>so_send := so_send so @ ss, so_recv := so_recv so @ rs\<rparr>)") auto
    from pump_moves [OF assms(1) p] show ?thesis using assms(2) st Call_pump p by (auto simp: moves_def carried_def sock_in_def)
  next
    case (Call_recv len)
    obtain r t1 where r: "ntc_tls_recv E t len = (r, t1)" by (cases "ntc_tls_recv E t len")
    from recv_moves [OF assms(1) r, of so] show ?thesis using assms(2) st Call_recv r by (auto intro: moves_carried)
  next
    case (Call_send buf)
    obtain n t1 where n: "ntc_tls_send E t buf = (n, t1)" by (cases "ntc_tls_send E t buf")
    from send_moves [OF assms(1) n, of so] show ?thesis using assms(2) st Call_send n by (auto intro: moves_carried)
  next
    case Call_flush
    have "moves view t so (ntc_tls_flush E t) so [] []" 
      by (rule movesI [where tx = "[]" and fed = "[]"]) (use assms(1) in \<open>simp_all add: ntc_tls_flush_def engine_ok_def\<close>)
    then show ?thesis using assms(2) st Call_flush by (auto intro: moves_carried)
  next
    case Call_close
    have "moves view t so (ntc_tls_close_notify E t) so [] []"
      by (rule movesI [where tx = "[]" and fed = "[]"]) (use assms(1) in \<open>simp_all add: ntc_tls_close_notify_def engine_ok_def\<close>)
    then show ?thesis using assms(2) st Call_close by (auto intro: moves_carried)
  qed
qed

lemma calls_carried:
  assumes "engine_ok E view" "tls_calls E cs st = (rx, ax, st')"
  shows "carried view st st' (concat (map call_in cs)) rx ax"
  using assms(2)
proof (induction cs arbitrary: st rx ax st')
  case Nil
  then show ?case by (auto simp: carried_def intro!: exI [of _ "[]"])
next
  case (Cons c cs)
  obtain rx1 ax1 st1 where c: "tls_call_run E c st = (rx1, ax1, st1)" by (cases "tls_call_run E c st") auto
  obtain rx2 ax2 st2 where cs: "tls_calls E cs st1 = (rx2, ax2, st2)" by (cases "tls_calls E cs st1") auto
  from carried_trans [OF call_carried [OF assms(1) c] Cons.IH [OF cs]] show ?case using Cons.prems c cs by simp
qed

text \<open>The loop of \<open>tls_drive_write\<close> over an engine: the results it sees are those the gateway model takes as data.\<close>

function tls_sends :: "'e tls_engine \<Rightarrow> 'e ntc_tls \<Rightarrow> byte list \<Rightarrow> nat list \<times> 'e ntc_tls" where
  "tls_sends E t buf =
     (if buf = [] then ([], t)
      else case ntc_tls_send E t buf of (n, t1) \<Rightarrow>
        if n = 0 then ([0], t1) else (case tls_sends E t1 (drop n buf) of (ns, t2) \<Rightarrow> (n # ns, t2)))"
  by pat_completeness auto
termination
  by (relation "measure (\<lambda>(E, t, buf). length buf)") auto

declare tls_sends.simps [simp del, loop_simps]

lemma tls_sends_accepts:
  assumes "engine_ok E view" "tls_sends E t buf = (ns, t')" "sent + length buf = len"
  shows "\<exists>k. tls_send_loop ns len sent = sent + k \<and> k \<le> length buf \<and> moves view t so t' so [] (take k buf)"
  using assms(2,3)
proof (induction "length buf" arbitrary: t buf ns sent rule: less_induct)
  case less
  obtain n t1 where n: "ntc_tls_send E t buf = (n, t1)" by (cases "ntc_tls_send E t buf")
  note one = send_moves [OF assms(1) n, of so]
  show ?case
  proof (cases "buf = [] \<or> n = 0")
    case True
    then show ?thesis
    proof
      assume "buf = []"
      then show ?thesis using less.prems(1) by (subst (asm) tls_sends.simps) (simp add: moves_refl)
    next
      assume "n = 0"
      then show ?thesis using less.prems(1) n one
        by (cases "buf = []") (subst (asm) tls_sends.simps, auto simp: moves_refl)+
    qed
  next
    case False
    obtain ms t2 where ms: "tls_sends E t1 (drop n buf) = (ms, t2)" by (cases "tls_sends E t1 (drop n buf)")
    have res: "ns = n # ms" "t' = t2" using less.prems(1) False n ms by (subst (asm) tls_sends.simps, simp)+
    have "(sent + n) + length (drop n buf) = len" using less.prems(2) one by simp
    from less.hyps [OF _ ms [folded res(2)] this] False one obtain k where
      k: "tls_send_loop ms len (sent + n) = sent + n + k" "k \<le> length buf - n" "moves view t1 so t' so [] (take k (drop n buf))"
      by auto
    have "sent < len" using less.prems(2) False by auto
    moreover have "min n (len - sent) = n" using one less.prems(2) by auto
    ultimately have "tls_send_loop ns len sent = sent + (n + k)" using res(1) False k(1) by simp
    moreover have "moves view t so t' so [] (take (n + k) buf)"
      using moves_trans [OF conjunct1 [OF one] k(3)] by (simp add: take_add)
    ultimately show ?thesis using k(2) one by (intro exI [of _ "n + k"]) auto
  qed
qed

text \<open>An engine with an identity record layer.\<close>

definition plain_engine :: "tls_view tls_engine" where
  "plain_engine =
     \<lparr>en_closed = (\<lambda>_. False), en_wants_send = (\<lambda>v. v_rsent v < length (v_rout v)), en_wants_recv = (\<lambda>_. True),
      en_sendrec = (\<lambda>v. drop (v_rsent v) (v_rout v)), en_sendrec_ack = (\<lambda>n v. v\<lparr>v_rsent := v_rsent v + n\<rparr>),
      en_recvrec = (\<lambda>_. 16384), en_recvrec_ack = (\<lambda>bs v. v\<lparr>v_rin := v_rin v @ bs, v_got := v_got v @ bs\<rparr>),
      en_recvapp = (\<lambda>v. drop (v_taken v) (v_got v)), en_recvapp_ack = (\<lambda>n v. v\<lparr>v_taken := v_taken v + n\<rparr>),
      en_sendapp = (\<lambda>_. 1000), en_sendapp_ack = (\<lambda>bs v. v\<lparr>v_acc := v_acc v @ bs, v_rout := v_rout v @ bs\<rparr>),
      en_flush = (\<lambda>v. v), en_close = (\<lambda>v. v)\<rparr>"

lemma plain_engine_ok: "engine_ok plain_engine (\<lambda>v. v)"
  by (auto simp: engine_ok_def plain_engine_def flow_def take_is_prefix)

definition plain_tls :: "tls_view ntc_tls" where
  "plain_tls = \<lparr>t_eng = \<lparr>v_got = [], v_taken = 0, v_rout = [], v_rsent = 0, v_rin = [], v_acc = []\<rparr>, t_eof = False, t_close_sent = False\<rparr>"

definition empty_sock :: sock where
  "empty_sock = \<lparr>so_send = [], so_recv = [], so_sent = []\<rparr>"

subsection \<open>The client's socket\<close>

text \<open>
  \<open>sock_read\<close> and \<open>sock_write\<close> of \<open>src/core/https_client.c\<close>, the callbacks of the blocking client engine, and
  \<open>connect_timeout\<close> over the resolved addresses. \<open>None\<close> is the result \<open>-1\<close>.
\<close>

fun sock_read :: "recv_res list \<Rightarrow> nat \<Rightarrow> string option \<times> recv_res list" where
  "sock_read [] len = (None, [])"
| "sock_read (r # rs) len =
     (case r of
        Rcvd s \<Rightarrow> if take len s \<noteq> [] then (Some (take len s), if length s \<le> len then rs else Rcvd (drop len s) # rs) else (None, rs)
      | Rcv_eintr \<Rightarrow> sock_read rs len
      | _ \<Rightarrow> (None, rs))"

fun sock_write :: "send_res list \<Rightarrow> nat \<Rightarrow> nat option \<times> send_res list" where
  "sock_write [] len = (None, [])"
| "sock_write (r # rs) len =
     (case r of
        Sent k \<Rightarrow> if min k len > 0 then (Some (min k len), rs) else (None, rs)
      | Send_eintr \<Rightarrow> sock_write rs len
      | _ \<Rightarrow> (None, rs))"

datatype connect_res = Conn_now | Conn_in_progress | Conn_refused

record addr_try =
  at_socket :: bool                  \<comment> \<open>\<open>socket\<close>\<close>
  at_connect :: connect_res
  at_writable :: bool                \<comment> \<open>\<open>poll\<close> answers 1 with \<open>POLLOUT\<close> in time\<close>
  at_so_error :: "int option"        \<comment> \<open>\<open>getsockopt(SO_ERROR)\<close>\<close>

fun connect_loop :: "nat \<Rightarrow> addr_try list \<Rightarrow> nat option" where
  "connect_loop i [] = None"
| "connect_loop i (a # as) =
     (if \<not> at_socket a then connect_loop (Suc i) as
      else case at_connect a of
             Conn_now \<Rightarrow> Some i
           | Conn_in_progress \<Rightarrow> if at_writable a \<and> at_so_error a = Some 0 then Some i else connect_loop (Suc i) as
           | Conn_refused \<Rightarrow> connect_loop (Suc i) as)"

text \<open>The index of the address that the returned socket is connected to.\<close>

definition connect_timeout :: "addr_try list option \<Rightarrow> nat option" where
  "connect_timeout res = (case res of None \<Rightarrow> None | Some as \<Rightarrow> connect_loop 0 as)"

definition connects :: "addr_try \<Rightarrow> bool" where
  "connects a \<longleftrightarrow> at_socket a \<and> (at_connect a = Conn_now \<or> at_connect a = Conn_in_progress \<and> at_writable a \<and> at_so_error a = Some 0)"

lemma connect_loop_first: "connect_loop i as = map_option (\<lambda>k. i + k) (find (\<lambda>k. connects (as ! k)) [0 ..< length as])"
proof (induction as arbitrary: i)
  case (Cons a as)
  have shift: "find (\<lambda>k. connects ((a # as) ! k)) [Suc 0 ..< Suc (length as)] = map_option Suc (find (\<lambda>k. connects (as ! k)) [0 ..< length as])"
  proof -
    have "find P (map Suc xs) = map_option Suc (find (P \<circ> Suc) xs)" for P xs by (induction xs) auto
    then show ?thesis unfolding map_Suc_upt [symmetric] by (simp add: comp_def)
  qed
  have head: "find (\<lambda>k. connects ((a # as) ! k)) [0 ..< length (a # as)] =
      (if connects a then Some 0 else map_option Suc (find (\<lambda>k. connects (as ! k)) [0 ..< length as]))"
    by (simp add: upt_conv_Cons shift del: upt_Suc)
  have "connect_loop i (a # as) = (if connects a then Some i else connect_loop (Suc i) as)"
    by (auto simp: connects_def split: connect_res.splits)
  then show ?case unfolding head using Cons [of "Suc i"] by (simp add: option.map_comp comp_def del: connect_loop.simps)
qed simp

text \<open>The first address that connects is used, and only such a one.\<close>

lemma connect_timeout_connected: "connect_timeout (Some as) = Some i \<Longrightarrow> i < length as \<and> connects (as ! i)"
  by (auto simp: connect_timeout_def connect_loop_first find_Some_iff)

subsection \<open>Properties\<close>

text \<open>
  C20 (\<open>tls_transparent\<close>): through any sequence of pumps, reads, writes, flushes and closes, whatever the kernel
  answers, no byte is lost, repeated or reordered at either side of the engine: what the gateway has read
  is the next part of the decrypted stream, what the engine accepted is what the writes report, what went out on
  the socket is the next part of the engine's records, and what the engine was fed is the front of what arrived.
\<close>

theorem tls_transparent:
  assumes "engine_ok E view" "tls_calls E cs (t, so) = (rx, ax, t', so')" "v = view (t_eng t)" "v' = view (t_eng t')"
  shows "prefix rx (drop (v_taken v) (v_got v')) \<and> v_taken v' = v_taken v + length rx \<and> v_acc v' = v_acc v @ ax \<and>
    (\<exists>tx fed. so_sent so' = so_sent so @ tx \<and> prefix tx (drop (v_rsent v) (v_rout v')) \<and> v_rsent v' = v_rsent v + length tx \<and>
      v_rin v' = v_rin v @ fed \<and> fed @ sock_in so' = sock_in so @ concat (map call_in cs))"
  using calls_carried [OF assms(1,2)] by (auto simp: carried_def flow_def assms(3,4))

theorem tls_transparent_witness:
  "\<exists>t' so'. tls_calls plain_engine [Call_send (bytes_of ''hello''), Call_pump [Sent 2, Send_eintr, Sent 9] [Rcvd ''GET '', Rcvd ''/''], Call_recv 3, Call_recv 10]
      (plain_tls, empty_sock) = (bytes_of ''GET /'', bytes_of ''hello'', t', so') \<and>
    so_sent so' = bytes_of ''hello'' \<and> prefix (bytes_of ''GET /'') (v_got (t_eng t')) \<and> v_acc (t_eng t') = bytes_of ''hello''"
proof -
  let ?cs = "[Call_send (bytes_of ''hello''), Call_pump [Sent 2, Send_eintr, Sent 9] [Rcvd ''GET '', Rcvd ''/''], Call_recv 3, Call_recv 10]"
  have run: "fst (tls_calls plain_engine ?cs (plain_tls, empty_sock)) = bytes_of ''GET /''"
    "fst (snd (tls_calls plain_engine ?cs (plain_tls, empty_sock))) = bytes_of ''hello''"
    "so_sent (snd (snd (snd (tls_calls plain_engine ?cs (plain_tls, empty_sock))))) = bytes_of ''hello''"
    by code_simp+
  obtain rx ax t' so' where r: "tls_calls plain_engine ?cs (plain_tls, empty_sock) = (rx, ax, t', so')"
    by (cases "tls_calls plain_engine ?cs (plain_tls, empty_sock)") auto
  from tls_transparent [OF plain_engine_ok r refl refl] run r show ?thesis by (auto simp: plain_tls_def)
qed

end
