(* ===== verification/Poller.thy ===== *)
theory Poller
  imports Err
begin

text \<open>
  The pollers (\<open>src/core/poller_epoll.c\<close>, \<open>src/core/poller_kqueue.c\<close>): a table from descriptors to user
  data that grows by doubling, the registration calls, and the translation of the kernel's events. What
  \<open>epoll_ctl\<close>, \<open>epoll_wait\<close> and \<open>kevent\<close> answer is an argument. \<open>None\<close> stands for the overflow of an \<open>int\<close>. What
  both backends promise is the locale \<open>poller_backend\<close>, interpreted on each.
\<close>

definition NTC_POLL_READ :: u32 where "NTC_POLL_READ = 1"
definition NTC_POLL_WRITE :: u32 where "NTC_POLL_WRITE = 2"

text \<open>The kernel's flags, as \<open>sys/epoll.h\<close> has them.\<close>

definition EPOLLIN :: u32 where "EPOLLIN = 1"
definition EPOLLOUT :: u32 where "EPOLLOUT = 4"
definition EPOLLERR :: u32 where "EPOLLERR = 8"
definition EPOLLHUP :: u32 where "EPOLLHUP = 16"

text \<open>\<open>cap\<close> is the length of the table; a NULL entry is \<open>None\<close>.\<close>

record 'u ntc_poller =
  pl_udata :: "'u option list"

record 'u ntc_poll_event =
  pe_fd :: int
  pe_events :: u32
  pe_udata :: "'u option"

definition pl_cap :: "'u ntc_poller \<Rightarrow> int" where
  "pl_cap p = int (length (pl_udata p))"

text \<open>\<open>fd\<close> is what \<open>epoll_create1\<close> or \<open>kqueue\<close> returns; the table is empty at first.\<close>

definition ntc_poller_create :: "bool \<Rightarrow> int \<Rightarrow> ntc_err + 'u ntc_poller" where
  "ntc_poller_create alloc fd =
     (if \<not> alloc then Inl NTC_ERR_OOM
      else if fd < 0 then Inl NTC_ERR_IO
      else Inr \<lparr>pl_udata = []\<rparr>)"

function pl_grow :: "int \<Rightarrow> int \<Rightarrow> int option" where
  "pl_grow ncap fd =
     (if ncap \<le> fd \<and> 0 < ncap then (if ncap * 2 \<ge> 2 ^ 31 then None else pl_grow (ncap * 2) fd) else Some ncap)"
  by pat_completeness auto
termination
  by (relation "measure (\<lambda>(ncap, fd). nat (fd + 1 - ncap))") auto

declare pl_grow.simps [simp del, loop_simps]

definition ensure_cap :: "(nat \<Rightarrow> bool) \<Rightarrow> 'u ntc_poller \<Rightarrow> int \<Rightarrow> (ntc_err + 'u ntc_poller) option" where
  "ensure_cap alloc p fd =
     (if fd < pl_cap p then Some (Inr p)
      else
        map_option (\<lambda>ncap. if \<not> alloc (nat ncap * 8) then Inl NTC_ERR_OOM
                      else Inr (p\<lparr>pl_udata := pl_udata p @ replicate (nat ncap - length (pl_udata p)) None\<rparr>))
          (pl_grow (if pl_cap p \<noteq> 0 then pl_cap p else 16) fd))"

text \<open>The state after a call and its result.\<close>

definition pl_set :: "'u ntc_poller \<Rightarrow> int \<Rightarrow> 'u option \<Rightarrow> 'u ntc_poller" where
  "pl_set p fd u = p\<lparr>pl_udata := (pl_udata p)[nat fd := u]\<rparr>"

subsection \<open>epoll\<close>

definition to_epoll :: "u32 \<Rightarrow> u32" where
  "to_epoll events =
     (let e = (if events AND NTC_POLL_READ \<noteq> 0 then EPOLLIN else 0)
      in if events AND NTC_POLL_WRITE \<noteq> 0 then e OR EPOLLOUT else e)"

text \<open>\<open>ctl\<close> says whether \<open>epoll_ctl\<close> with these flags succeeds.\<close>

definition ntc_poller_add ::
  "(nat \<Rightarrow> bool) \<Rightarrow> (u32 \<Rightarrow> bool) \<Rightarrow> 'u ntc_poller \<Rightarrow> int \<Rightarrow> u32 \<Rightarrow> 'u option \<Rightarrow> (ntc_err \<times> 'u ntc_poller) option" where
  "ntc_poller_add alloc ctl p fd events u =
     (if fd < 0 then Some (NTC_ERR_INVALID, p)
      else map_option (\<lambda>r. case r of
             Inl e \<Rightarrow> (e, p)
           | Inr p1 \<Rightarrow> (if ctl (to_epoll events) then NTC_OK else NTC_ERR_IO, pl_set p1 fd u)) (ensure_cap alloc p fd))"

definition ntc_poller_mod :: "(u32 \<Rightarrow> bool) \<Rightarrow> 'u ntc_poller \<Rightarrow> int \<Rightarrow> u32 \<Rightarrow> 'u option \<Rightarrow> ntc_err \<times> 'u ntc_poller" where
  "ntc_poller_mod ctl p fd events u =
     (if fd < 0 \<or> fd \<ge> pl_cap p then (NTC_ERR_INVALID, p)
      else (if ctl (to_epoll events) then NTC_OK else NTC_ERR_IO, pl_set p fd u))"

definition ntc_poller_del :: "bool \<Rightarrow> 'u ntc_poller \<Rightarrow> int \<Rightarrow> ntc_err \<times> 'u ntc_poller" where
  "ntc_poller_del ctl p fd =
     (if fd < 0 \<or> fd \<ge> pl_cap p then (NTC_ERR_INVALID, p)
      else (if ctl then NTC_OK else NTC_ERR_IO, pl_set p fd None))"

definition udata_of :: "'u ntc_poller \<Rightarrow> int \<Rightarrow> 'u option" where
  "udata_of p fd = (if 0 \<le> fd \<and> fd < pl_cap p then pl_udata p ! nat fd else None)"

definition from_epoll :: "u32 \<Rightarrow> u32" where
  "from_epoll fl =
     (let e1 = (if fl AND EPOLLIN \<noteq> 0 then NTC_POLL_READ else 0);
          e2 = (if fl AND EPOLLOUT \<noteq> 0 then e1 OR NTC_POLL_WRITE else e1)
      in if fl AND (EPOLLHUP OR EPOLLERR) \<noteq> 0 then e2 OR (NTC_POLL_READ OR NTC_POLL_WRITE) else e2)"

text \<open>
  The kernel's answer: \<open>Inl True\<close> for \<open>EINTR\<close>, \<open>Inl False\<close> for another error, or the events, at most as many
  as asked for. The result \<open>-1\<close> is \<open>None\<close>.
\<close>

definition ntc_poller_wait ::
  "(int \<Rightarrow> bool + (int \<times> u32) list) \<Rightarrow> 'u ntc_poller \<Rightarrow> int \<Rightarrow> 'u ntc_poll_event list option" where
  "ntc_poller_wait epoll p n =
     (if n \<le> 0 then None
      else let n1 = (if n > 256 then 256 else n)
           in case epoll n1 of
                Inl eintr \<Rightarrow> if eintr then Some [] else None
              | Inr evs \<Rightarrow> Some (map (\<lambda>(fd, fl). \<lparr>pe_fd = fd, pe_events = from_epoll fl, pe_udata = udata_of p fd\<rparr>) evs))"

subsection \<open>kqueue\<close>

definition ENOENT :: int where "ENOENT = 2"

text \<open>
  \<open>kevent\<close> with the two changes answers \<open>None\<close> for an error or the receipts, each a flag
  \<open>EV_ERROR\<close> and an error number. The change asked for: enable reading, enable writing.
\<close>

definition kq_apply :: "(bool \<Rightarrow> bool \<Rightarrow> (bool \<times> int) list option) \<Rightarrow> u32 \<Rightarrow> ntc_err" where
  "kq_apply kev events =
     (case kev (events AND NTC_POLL_READ \<noteq> 0) (events AND NTC_POLL_WRITE \<noteq> 0) of
        None \<Rightarrow> NTC_ERR_IO
      | Some rs \<Rightarrow> if list_ex (\<lambda>(er, d). er \<and> d \<noteq> 0 \<and> d \<noteq> ENOENT) rs then NTC_ERR_IO else NTC_OK)"

definition kq_poller_add ::
  "(nat \<Rightarrow> bool) \<Rightarrow> (bool \<Rightarrow> bool \<Rightarrow> (bool \<times> int) list option) \<Rightarrow> 'u ntc_poller \<Rightarrow> int \<Rightarrow> u32 \<Rightarrow> 'u option \<Rightarrow> (ntc_err \<times> 'u ntc_poller) option" where
  "kq_poller_add alloc kev p fd events u =
     (if fd < 0 then Some (NTC_ERR_INVALID, p)
      else map_option (\<lambda>r. case r of Inl e \<Rightarrow> (e, p) | Inr p1 \<Rightarrow> (kq_apply kev events, pl_set p1 fd u)) (ensure_cap alloc p fd))"

definition kq_poller_mod ::
  "(bool \<Rightarrow> bool \<Rightarrow> (bool \<times> int) list option) \<Rightarrow> 'u ntc_poller \<Rightarrow> int \<Rightarrow> u32 \<Rightarrow> 'u option \<Rightarrow> ntc_err \<times> 'u ntc_poller" where
  "kq_poller_mod kev p fd events u =
     (if fd < 0 \<or> fd \<ge> pl_cap p then (NTC_ERR_INVALID, p) else (kq_apply kev events, pl_set p fd u))"

definition kq_poller_del :: "(bool \<Rightarrow> bool \<Rightarrow> (bool \<times> int) list option) \<Rightarrow> 'u ntc_poller \<Rightarrow> int \<Rightarrow> ntc_err \<times> 'u ntc_poller" where
  "kq_poller_del kev p fd =
     (if fd < 0 \<or> fd \<ge> pl_cap p then (NTC_ERR_INVALID, p) else (kq_apply kev 0, pl_set p fd None))"

text \<open>The time-out as seconds and nanoseconds; \<open>None\<close> to wait for ever.\<close>

definition kq_timeout :: "int \<Rightarrow> (int \<times> int) option" where
  "kq_timeout ms = (if ms \<ge> 0 then Some (ms div 1000, (ms mod 1000) * 1000000) else None)"

record kq_event =
  kq_error :: bool          \<comment> \<open>\<open>EV_ERROR\<close>\<close>
  kq_ident :: int
  kq_write :: bool          \<comment> \<open>the filter: \<open>EVFILT_WRITE\<close> or \<open>EVFILT_READ\<close>\<close>

definition kq_poller_wait ::
  "(int \<Rightarrow> (int \<times> int) option \<Rightarrow> bool + kq_event list) \<Rightarrow> 'u ntc_poller \<Rightarrow> int \<Rightarrow> int \<Rightarrow> 'u ntc_poll_event list option" where
  "kq_poller_wait kev p n timeout_ms =
     (if n \<le> 0 then None
      else let n1 = (if n > 256 then 256 else n)
           in case kev n1 (kq_timeout timeout_ms) of
                Inl eintr \<Rightarrow> if eintr then Some [] else None
              | Inr evs \<Rightarrow>
                  Some (map (\<lambda>e. \<lparr>pe_fd = kq_ident e, pe_events = (if kq_write e then NTC_POLL_WRITE else NTC_POLL_READ),
                                   pe_udata = udata_of p (kq_ident e)\<rparr>)
                          (filter (\<lambda>e. \<not> kq_error e) evs)))"

subsection \<open>The table is a map\<close>

lemma pl_grow_bounds:
  assumes "pl_grow ncap fd = Some m" "0 < ncap"
  shows "fd < m \<and> ncap \<le> m \<and> (ncap < 2 ^ 31 \<longrightarrow> m < 2 ^ 31)"
  using assms
proof (induction ncap fd rule: pl_grow.induct)
  case (1 ncap fd)
  show ?case
  proof (cases "ncap \<le> fd")
    case True
    then have "ncap * 2 < 2 ^ 31 \<and> pl_grow (ncap * 2) fd = Some m"
      using "1.prems" by (subst (asm) pl_grow.simps) (simp split: if_splits)
    then show ?thesis using "1.IH" True "1.prems"(2) by auto
  next
    case False
    then show ?thesis using "1.prems" by (subst (asm) pl_grow.simps) auto
  qed
qed

text \<open>Below half the range of \<open>int\<close> nothing overflows.\<close>

lemma pl_grow_fits:
  assumes "0 < ncap" "fd < 2 ^ 30" "ncap < 2 ^ 31"
  shows "\<exists>m. pl_grow ncap fd = Some m"
  using assms
proof (induction ncap fd rule: pl_grow.induct)
  case (1 ncap fd)
  then show ?case by (subst pl_grow.simps) auto
qed

lemma udata_of_set:
  assumes "0 \<le> fd" "fd < pl_cap p"
  shows "udata_of (pl_set p fd u) = (udata_of p)(fd := u)"
  using assms by (auto simp: udata_of_def pl_set_def pl_cap_def fun_eq_iff nth_list_update nat_eq_iff)

lemma udata_of_replicate: "udata_of (p\<lparr>pl_udata := pl_udata p @ replicate n None\<rparr>) = udata_of p"
  by (auto simp: udata_of_def pl_cap_def fun_eq_iff nth_append)

lemma ensure_cap_udata:
  assumes "ensure_cap alloc p fd = Some (Inr p1)" "0 \<le> fd"
  shows "udata_of p1 = udata_of p \<and> fd < pl_cap p1"
proof (cases "fd < pl_cap p")
  case True
  then show ?thesis using assms by (simp add: ensure_cap_def)
next
  case False
  obtain m where m: "pl_grow (if pl_cap p \<noteq> 0 then pl_cap p else 16) fd = Some m"
    "p1 = p\<lparr>pl_udata := pl_udata p @ replicate (nat m - length (pl_udata p)) None\<rparr>"
    using assms(1) False by (auto simp: ensure_cap_def split: if_splits)
  have pos: "0 < (if pl_cap p \<noteq> 0 then pl_cap p else 16)" by (simp add: pl_cap_def)
  have "fd < m" using pl_grow_bounds [OF m(1) pos] by simp
  then show ?thesis using m(2) udata_of_replicate by (auto simp: pl_cap_def)
qed

subsection \<open>Sequences of calls\<close>

datatype 'u poll_op = Poll_add int u32 "'u option" | Poll_mod int u32 "'u option" | Poll_del int

fun op_fd :: "'u poll_op \<Rightarrow> int" where
  "op_fd (Poll_add fd _ _) = fd"
| "op_fd (Poll_mod fd _ _) = fd"
| "op_fd (Poll_del fd) = fd"

fun op_udata :: "'u poll_op \<Rightarrow> 'u option" where
  "op_udata (Poll_add _ _ u) = u"
| "op_udata (Poll_mod _ _ u) = u"
| "op_udata (Poll_del _) = None"

text \<open>A call with what the kernel answers to it, on either backend.\<close>

fun epoll_run :: "(nat \<Rightarrow> bool) \<Rightarrow> (u32 \<Rightarrow> bool) \<Rightarrow> 'u poll_op \<Rightarrow> 'u ntc_poller \<Rightarrow> (ntc_err \<times> 'u ntc_poller) option" where
  "epoll_run alloc ctl (Poll_add fd ev u) p = ntc_poller_add alloc ctl p fd ev u"
| "epoll_run alloc ctl (Poll_mod fd ev u) p = Some (ntc_poller_mod ctl p fd ev u)"
| "epoll_run alloc ctl (Poll_del fd) p = Some (ntc_poller_del (ctl 0) p fd)"

fun kq_run ::
  "(nat \<Rightarrow> bool) \<Rightarrow> (bool \<Rightarrow> bool \<Rightarrow> (bool \<times> int) list option) \<Rightarrow> 'u poll_op \<Rightarrow> 'u ntc_poller \<Rightarrow> (ntc_err \<times> 'u ntc_poller) option" where
  "kq_run alloc kev (Poll_add fd ev u) p = kq_poller_add alloc kev p fd ev u"
| "kq_run alloc kev (Poll_mod fd ev u) p = Some (kq_poller_mod kev p fd ev u)"
| "kq_run alloc kev (Poll_del fd) p = Some (kq_poller_del kev p fd)"

text \<open>A call that is refused before the kernel is asked leaves the table alone.\<close>

definition table_step :: "'u poll_op \<Rightarrow> ntc_err \<Rightarrow> (int \<Rightarrow> 'u option) \<Rightarrow> int \<Rightarrow> 'u option" where
  "table_step oper e m = (if e = NTC_ERR_INVALID \<or> e = NTC_ERR_OOM then m else m(op_fd oper := op_udata oper))"

lemma ensure_cap_err: "ensure_cap alloc p fd = Some (Inl e) \<Longrightarrow> e = NTC_ERR_OOM"
  by (auto simp: ensure_cap_def split: if_splits)

lemma kq_apply_res: "kq_apply kev ev = NTC_OK \<or> kq_apply kev ev = NTC_ERR_IO"
  by (auto simp: kq_apply_def split: option.splits)

lemma add_table:
  assumes "map_option (\<lambda>r. case r of Inl e \<Rightarrow> (e, p) | Inr p1 \<Rightarrow> (res, pl_set p1 fd u)) (ensure_cap alloc p fd) = Some (e, p')"
    "0 \<le> fd" "res = NTC_OK \<or> res = NTC_ERR_IO"
  shows "udata_of p' = (if e = NTC_ERR_INVALID \<or> e = NTC_ERR_OOM then udata_of p else (udata_of p)(fd := u))"
proof (cases "ensure_cap alloc p fd")
  case (Some r)
  show ?thesis
  proof (cases r)
    case (Inl e1)
    then show ?thesis using assms(1) Some ensure_cap_err [of alloc p fd e1] by auto
  next
    case (Inr p1)
    then have "udata_of p1 = udata_of p \<and> fd < pl_cap p1" using Some assms(2) ensure_cap_udata by blast
    then show ?thesis using assms Some Inr udata_of_set [of fd p1 u] by auto
  qed
qed (use assms in simp)

lemma epoll_run_table:
  assumes "epoll_run alloc ctl oper p = Some (e, p')"
  shows "udata_of p' = table_step oper e (udata_of p)"
proof (cases oper)
  case (Poll_add fd ev u)
  then show ?thesis using assms add_table [of p "if ctl (to_epoll ev) then NTC_OK else NTC_ERR_IO" fd u alloc e p']
    by (auto simp: ntc_poller_add_def table_step_def split: if_splits)
qed (use assms in \<open>auto simp: ntc_poller_mod_def ntc_poller_del_def table_step_def udata_of_set split: if_splits\<close>)

lemma kq_run_table:
  assumes "kq_run alloc kev oper p = Some (e, p')"
  shows "udata_of p' = table_step oper e (udata_of p)"
proof (cases oper)
  case (Poll_add fd ev u)
  then show ?thesis using assms add_table [of p "kq_apply kev ev" fd u alloc e p', OF _ _ kq_apply_res]
    by (auto simp: kq_poller_add_def table_step_def split: if_splits)
next
  case (Poll_mod fd ev u)
  then show ?thesis using assms kq_apply_res [of kev ev]
    by (auto simp: kq_poller_mod_def table_step_def udata_of_set split: if_splits)
next
  case (Poll_del fd)
  then show ?thesis using assms kq_apply_res [of kev 0]
    by (auto simp: kq_poller_del_def table_step_def udata_of_set split: if_splits)
qed

text \<open>Registering interest and reading readiness use the same two flags; hang-up and error wake both sides.\<close>

lemma poll_masks:
  "from_epoll (to_epoll NTC_POLL_READ) = NTC_POLL_READ" "from_epoll (to_epoll NTC_POLL_WRITE) = NTC_POLL_WRITE"
  "from_epoll (to_epoll (NTC_POLL_READ OR NTC_POLL_WRITE)) = NTC_POLL_READ OR NTC_POLL_WRITE"
  "from_epoll EPOLLHUP = NTC_POLL_READ OR NTC_POLL_WRITE" "from_epoll EPOLLERR = NTC_POLL_READ OR NTC_POLL_WRITE"
  by code_simp+

text \<open>Registering a descriptor below \<open>2 ^ 30\<close> never overflows the capacity.\<close>

lemma poller_add_defined:
  assumes "fd < 2 ^ 30" "pl_cap p < 2 ^ 31"
  shows "\<exists>e p'. ntc_poller_add alloc ctl p fd ev u = Some (e, p') \<and> pl_cap p' < 2 ^ 31"
proof (cases "fd < 0 \<or> fd < pl_cap p")
  case True
  then show ?thesis using assms(2) by (auto simp: ntc_poller_add_def ensure_cap_def pl_set_def pl_cap_def)
next
  case False
  have pos: "0 < (if pl_cap p \<noteq> 0 then pl_cap p else 16)" by (simp add: pl_cap_def)
  have lim: "(if pl_cap p \<noteq> 0 then pl_cap p else 16) < 2 ^ 31" using assms(2) by simp
  obtain m where m: "pl_grow (if pl_cap p \<noteq> 0 then pl_cap p else 16) fd = Some m"
    using pl_grow_fits [OF pos assms(1) lim] by blast
  have "m < 2 ^ 31" using pl_grow_bounds [OF m pos] lim by blast
  then show ?thesis using False m assms(2) by (auto simp: ntc_poller_add_def ensure_cap_def pl_set_def pl_cap_def)
qed

definition runs_table :: "('u poll_op \<times> ntc_err) list \<Rightarrow> int \<Rightarrow> 'u option" where
  "runs_table log = fold (\<lambda>(oper, e). table_step oper e) log (\<lambda>_. None)"

text \<open>A sequence of calls, each with the answers of the kernel to it: the results and the poller at the end.\<close>

fun poll_runs ::
  "('k \<Rightarrow> 'u poll_op \<Rightarrow> 'u ntc_poller \<Rightarrow> (ntc_err \<times> 'u ntc_poller) option) \<Rightarrow> ('k \<times> 'u poll_op) list \<Rightarrow> 'u ntc_poller \<Rightarrow>
   (('u poll_op \<times> ntc_err) list \<times> 'u ntc_poller) option" where
  "poll_runs run [] p = Some ([], p)"
| "poll_runs run ((k, oper) # cs) p =
     (case run k oper p of
        None \<Rightarrow> None
      | Some (e, p1) \<Rightarrow> map_option (\<lambda>(log, p2). ((oper, e) # log, p2)) (poll_runs run cs p1))"

text \<open>What the event loop relies on, whichever backend it is built with.\<close>

locale poller_backend =
  fixes run :: "'k \<Rightarrow> 'u poll_op \<Rightarrow> 'u ntc_poller \<Rightarrow> (ntc_err \<times> 'u ntc_poller) option"
    and wait :: "'w \<Rightarrow> 'u ntc_poller \<Rightarrow> 'u ntc_poll_event list option"
  assumes run_table: "run k oper p = Some (e, p') \<Longrightarrow> udata_of p' = table_step oper e (udata_of p)"
    and wait_udata: "wait w p = Some evs \<Longrightarrow> ev \<in> set evs \<Longrightarrow> pe_udata ev = udata_of p (pe_fd ev)"
begin

lemma runs_udata: "poll_runs run cs p = Some (log, p') \<Longrightarrow> udata_of p' = fold (\<lambda>(oper, e). table_step oper e) log (udata_of p)"
proof (induction cs arbitrary: p log)
  case (Cons c cs)
  then obtain e p1 log1 where "run (fst c) (snd c) p = Some (e, p1)" "poll_runs run cs p1 = Some (log1, p')" "log = (snd c, e) # log1"
    by (cases c) (auto split: option.splits prod.splits)
  then show ?case using Cons.IH run_table by simp
qed simp

lemma handed_back:
  assumes "ntc_poller_create alloc fd = Inr p0" "poll_runs run cs p0 = Some (log, p)" "wait w p = Some evs" "ev \<in> set evs"
  shows "pe_udata ev = runs_table log (pe_fd ev)"
proof -
  have "udata_of p0 = (\<lambda>_. None)"
    using assms(1) by (auto simp: ntc_poller_create_def udata_of_def pl_cap_def fun_eq_iff split: if_splits)
  then show ?thesis using runs_udata [OF assms(2)] wait_udata [OF assms(3,4)] by (simp add: runs_table_def)
qed

end

definition epoll_call :: "(nat \<Rightarrow> bool) \<times> (u32 \<Rightarrow> bool) \<Rightarrow> 'u poll_op \<Rightarrow> 'u ntc_poller \<Rightarrow> (ntc_err \<times> 'u ntc_poller) option" where
  "epoll_call k = epoll_run (fst k) (snd k)"

definition kq_call ::
  "(nat \<Rightarrow> bool) \<times> (bool \<Rightarrow> bool \<Rightarrow> (bool \<times> int) list option) \<Rightarrow> 'u poll_op \<Rightarrow> 'u ntc_poller \<Rightarrow> (ntc_err \<times> 'u ntc_poller) option" where
  "kq_call k = kq_run (fst k) (snd k)"

interpretation ep: poller_backend epoll_call "\<lambda>w p. ntc_poller_wait (fst w) p (snd w)"
proof unfold_locales
  fix w :: "(int \<Rightarrow> bool + (int \<times> u32) list) \<times> int" and p :: "'u ntc_poller" and evs ev
  assume "ntc_poller_wait (fst w) p (snd w) = Some evs" "ev \<in> set evs"
  then show "pe_udata ev = udata_of p (pe_fd ev)" by (auto simp: ntc_poller_wait_def Let_def split: if_splits sum.splits)
qed (simp add: epoll_call_def epoll_run_table)

interpretation kq: poller_backend kq_call "\<lambda>w p. kq_poller_wait (fst w) p (fst (snd w)) (snd (snd w))"
proof unfold_locales
  fix w :: "(int \<Rightarrow> (int \<times> int) option \<Rightarrow> bool + kq_event list) \<times> int \<times> int" and p :: "'u ntc_poller" and evs ev
  assume "kq_poller_wait (fst w) p (fst (snd w)) (snd (snd w)) = Some evs" "ev \<in> set evs"
  then show "pe_udata ev = udata_of p (pe_fd ev)" by (auto simp: kq_poller_wait_def Let_def split: if_splits sum.splits)
qed (simp add: kq_call_def kq_run_table)

subsection \<open>Properties\<close>


definition sample_poller :: "nat ntc_poller" where
  "sample_poller = \<lparr>pl_udata = (replicate 16 None)[5 := Some 7]\<rparr>"


end
