(* ===== verification/Control_Client.thy ===== *)
theory Control_Client
  imports Persistence Mcp
begin

text \<open>
  The clients of the control socket: \<open>src/common/control_client.c\<close> and the stdio adapter of
  \<open>src/core/mcp.c\<close>. The environment variables, the token file and what the socket answers are
  arguments. With the gateway's side (\<open>on_control_readable\<close>) they give the path of a command from a
  client to its execution.
\<close>

definition NTC_CONTROL_SOCK_DEFAULT :: string where "NTC_CONTROL_SOCK_DEFAULT = ''./ntc.sock''"
definition NTC_CONTROL_TOKEN_DEFAULT :: string where "NTC_CONTROL_TOKEN_DEFAULT = ''./ntc.token''"

record client_env =
  cl_getenv :: "string \<Rightarrow> string option"
  cl_file :: "string \<Rightarrow> string option"        \<comment> \<open>the contents of a file that can be opened\<close>

definition ntc_control_sock_path :: "client_env \<Rightarrow> string" where
  "ntc_control_sock_path ce = (case cl_getenv ce ''NTC_CONTROL_SOCK'' of Some s \<Rightarrow> s | None \<Rightarrow> NTC_CONTROL_SOCK_DEFAULT)"

text \<open>\<open>fgets\<close> into \<open>cap\<close> bytes: up to and with the first line feed; \<open>None\<close> at the end of the file.\<close>

definition fgets :: "nat \<Rightarrow> string \<Rightarrow> (string \<times> string) option" where
  "fgets cap s =
     (let k = (case memchr LF s of Some i \<Rightarrow> min (Suc i) (cap - 1) | None \<Rightarrow> min (length s) (cap - 1))
      in if k = 0 then None else Some (take k s, drop k s))"

lemma fgets_shorter: "fgets cap s = Some (l, rest) \<Longrightarrow> length rest < length s"
  by (auto simp: fgets_def Let_def memchr_Some_iff split: option.splits if_splits)

definition ntc_control_read_token :: "client_env \<Rightarrow> nat \<Rightarrow> ntc_err + string" where
  "ntc_control_read_token ce cap =
     (if cap = 0 then Inl NTC_ERR_INVALID
      else
        let from_file =
              (case cl_file ce (case cl_getenv ce ''NTC_TOKEN_FILE'' of Some tf \<Rightarrow> tf | None \<Rightarrow> NTC_CONTROL_TOKEN_DEFAULT) of
                 None \<Rightarrow> Inl NTC_ERR_NOT_FOUND
               | Some s \<Rightarrow> (case fgets cap s of None \<Rightarrow> Inl NTC_ERR_NOT_FOUND | Some (l, _) \<Rightarrow> Inr (strip_eol (cstr l))))
        in case cl_getenv ce ''NTC_TOKEN'' of
             Some e \<Rightarrow> if e \<noteq> [] then Inr (snprintf cap e) else from_file
           | None \<Rightarrow> from_file)"

text \<open>The \<open>write\<close> loop; the first component says whether all was written, the second is what was.\<close>

fun call_write :: "send_res list \<Rightarrow> string \<Rightarrow> bool \<times> string" where
  "call_write ws [] = (True, [])"
| "call_write [] (c # cs) = (False, [])"
| "call_write (w # ws) (c # cs) =
     (case w of
        Sent k \<Rightarrow> if k = 0 then (False, [])
                  else (case call_write ws (drop k (c # cs)) of (ok, out) \<Rightarrow> (ok, take k (c # cs) @ out))
      | Send_eintr \<Rightarrow> call_write ws (c # cs)
      | _ \<Rightarrow> (False, []))"

text \<open>The \<open>read\<close> loop until the end of the stream or a full buffer; \<open>None\<close> on an error.\<close>

fun call_read :: "recv_res list \<Rightarrow> nat \<Rightarrow> string \<Rightarrow> string option" where
  "call_read [] cap got = (if length got + 1 < cap then None else Some got)"
| "call_read (r # rs) cap got =
     (if length got + 1 < cap then
        (case r of
           Rcvd s \<Rightarrow> if s = [] then Some got
                     else if length s \<le> cap - 1 - length got then call_read rs cap (got @ s)
                     else Some (got @ take (cap - 1 - length got) s)
         | Rcv_eof \<Rightarrow> Some got
         | Rcv_eintr \<Rightarrow> call_read rs cap got
         | _ \<Rightarrow> None)
      else Some got)"

definition CONTROL_LINE :: nat where "CONTROL_LINE = 2048"

definition control_line :: "string \<Rightarrow> string \<Rightarrow> string" where
  "control_line token command = token @ '' '' @ command @ [LF]"

text \<open>Result, what went out on the socket, and the reply.\<close>

definition ntc_control_call ::
  "(string \<Rightarrow> bool) \<Rightarrow> send_res list \<Rightarrow> recv_res list \<Rightarrow> string \<Rightarrow> string \<Rightarrow> string \<Rightarrow> nat \<Rightarrow> ntc_err \<times> string \<times> string" where
  "ntc_control_call connect ws rs sock_path token command out_cap =
     (if out_cap = 0 then (NTC_ERR_INVALID, [], [])
      else if \<not> connect (snprintf 108 sock_path) then (NTC_ERR_IO, [], [])
      else
        let line = control_line token command
        in if length line \<ge> CONTROL_LINE then (NTC_ERR_OVERFLOW, [], [])
           else case call_write ws line of
                  (False, out) \<Rightarrow> (NTC_ERR_IO, out, [])
                | (True, out) \<Rightarrow>
                    (case call_read rs out_cap [] of
                       None \<Rightarrow> (NTC_ERR_IO, out, [])
                     | Some reply \<Rightarrow> (NTC_OK, out, reply)))"

subsection \<open>The MCP server on standard input and output\<close>

definition stdio_exec ::
  "client_env \<Rightarrow> (string \<Rightarrow> string \<Rightarrow> string \<Rightarrow> nat \<Rightarrow> 's \<Rightarrow> (ntc_err \<times> string) \<times> 's) \<Rightarrow> 's mcp_exec" where
  "stdio_exec ce call s command cap =
     (case ntc_control_read_token ce 65 of
        Inl _ \<Rightarrow> Some (snprintf cap ''ERR no control token found (is the core running?)'', s)
      | Inr token \<Rightarrow>
          (case call (ntc_control_sock_path ce) token command cap s of
             ((NTC_OK, out), s1) \<Rightarrow> Some (out, s1)
           | (_, s1) \<Rightarrow> Some (snprintf cap ''ERR cannot reach the core control socket'', s1)))"

text \<open>The loop of \<open>ntc_mcp_run\<close> over the input: one reply line per message that has one.\<close>

function mcp_lines :: "(string \<Rightarrow> 's \<Rightarrow> (string \<times> 's) option) \<Rightarrow> string \<Rightarrow> 's \<Rightarrow> (string \<times> 's) option" where
  "mcp_lines handle inp s =
     (case fgets 65536 inp of
        None \<Rightarrow> Some ([], s)
      | Some (line, rest) \<Rightarrow>
          if cstr line = [] then mcp_lines handle rest s
          else case handle (cstr line) s of
                 None \<Rightarrow> None
               | Some (out, s1) \<Rightarrow>
                   map_option (\<lambda>(more, s2). ((if out \<noteq> [] then out @ [LF] else []) @ more, s2)) (mcp_lines handle rest s1))"
  by pat_completeness auto
termination
  by (relation "measure (\<lambda>(handle, inp, s). length inp)")
    (auto dest: fgets_shorter)

declare mcp_lines.simps [simp del, loop_simps]

definition ntc_mcp_run ::
  "(rat \<Rightarrow> double_t) \<Rightarrow> (double_t \<Rightarrow> int) \<Rightarrow> bool \<Rightarrow> 's mcp_exec \<Rightarrow> string \<Rightarrow> 's \<Rightarrow> (string \<times> 's) option" where
  "ntc_mcp_run rnd cast mem exec inp s = mcp_lines (\<lambda>line s. ntc_mcp_handle rnd cast mem line exec s 32768) inp s"

definition ntc_mcp_print_tools :: "bool \<Rightarrow> string" where
  "ntc_mcp_print_tools json =
     (if json then TOOLS_JSON @ [LF]
      else ''naitron-c MCP tools:'' @ [LF] @
        ''  naitron_status            core status'' @ [LF] @
        ''  naitron_list_services     list services'' @ [LF] @
        ''  naitron_list_routes       list routes'' @ [LF] @
        ''  naitron_add_service       {name, bin}        register + spawn a controller (live)'' @ [LF] @
        ''  naitron_add_route         {method, pattern, service}   route to a service (live)'' @ [LF] @
        ''  naitron_remove_service    {name}             remove a service'' @ [LF])"

subsection \<open>From a client to the gateway\<close>

text \<open>What the client writes is the line, or a prefix of it when the call fails.\<close>

lemma call_write_all: "call_write ws s = (True, out) \<Longrightarrow> out = s"
proof (induction ws s arbitrary: out rule: call_write.induct)
  case (3 w ws c cs)
  show ?case
  proof (cases w)
    case (Sent k)
    then obtain o2 where o2: "call_write ws (drop k (c # cs)) = (True, o2)" "out = take k (c # cs) @ o2" "k \<noteq> 0"
      using "3.prems" by (auto split: if_splits prod.splits)
    then have "o2 = drop k (c # cs)" using "3.IH"(1) [OF Sent] by simp
    then show ?thesis using o2(2) by (metis append_take_drop_id)
  qed (use 3 in auto)
qed auto

definition plain_word :: "string \<Rightarrow> bool" where
  "plain_word w \<longleftrightarrow> w \<noteq> [] \<and> list_all (\<lambda>c. c \<noteq> CHR '' '' \<and> c \<noteq> LF \<and> c \<noteq> NUL) w"

definition plain_text :: "string \<Rightarrow> bool" where
  "plain_text s \<longleftrightarrow> list_all (\<lambda>c. c \<noteq> LF \<and> c \<noteq> NUL) s"

lemma takeWhile_line: "list_all P xs \<Longrightarrow> takeWhile P (xs @ [y]) = (if P y then xs @ [y] else xs)"
  by (simp add: takeWhile_append list_all_iff)

text \<open>The gateway's side cuts the line at its first blank into the token and the command.\<close>

lemma process_control_line:
  assumes "plain_word token" "plain_text cmd" "g_token g = token"
  shows "process_control env g (token @ '' '' @ cmd @ [LF]) = exec_control_command env g cmd CONTROL_OUT"
proof -
  have body: "list_all (\<lambda>c. c \<noteq> LF) (token @ '' '' @ cmd)" "list_all (\<lambda>c. c \<noteq> NUL) (token @ '' '' @ cmd)"
    using assms(1,2) by (auto simp: plain_word_def plain_text_def list_all_iff)
  have line: "takeWhile (\<lambda>c. c \<noteq> LF) (token @ '' '' @ cmd @ [LF]) = token @ '' '' @ cmd"
    using takeWhile_line [OF body(1), of LF] by simp
  have cs: "cstr (token @ '' '' @ cmd) = token @ '' '' @ cmd"
    using body(2) by (simp add: cstr_def list_all_iff takeWhile_eq_all_conv)
  have tok: "takeWhile (\<lambda>c. c \<noteq> CHR '' '') (token @ '' '' @ cmd) = token"
    using assms(1) by (auto simp: plain_word_def list_all_iff takeWhile_append)
  show ?thesis unfolding process_control_def line cs Let_def tok using assms(3) by simp
qed

text \<open>However the line is cut into reads, the gateway waits for its line feed.\<close>

lemma line_loop_pieces:
  assumes "concat ps = s @ [LF]" "list_all (\<lambda>p. p \<noteq> []) ps" "LF \<notin> set (buf @ s)" "length buf + length s + 1 < CONTROL_BUF"
  shows "line_loop (map Rcvd ps) buf = (Line_ready, buf @ s @ [LF], [])"
  using assms
proof (induction ps arbitrary: buf s)
  case (Cons p ps)
  have len: "length p + length (concat ps) = length s + 1" using arg_cong [OF Cons.prems(1), of length] by simp
  then have room: "length p \<le> CONTROL_BUF - 1 - length buf" and buf: "\<not> CONTROL_BUF - 1 \<le> length buf"
    using Cons.prems(4) by auto
  have p: "p \<noteq> []" using Cons.prems(2) by simp
  show ?case
  proof (cases "ps = []")
    case True
    then have "p = s @ [LF]" using Cons.prems(1) by simp
    then show ?thesis using True room buf by (simp add: Let_def)
  next
    case False
    then obtain q where q: "concat ps = q @ [LF]" "s = p @ q"
    proof -
      have "concat ps \<noteq> []" using False Cons.prems(2) by (cases ps) auto
      then have "last (concat ps) = LF" using Cons.prems(1) by (metis concat.simps(2) last_appendR last_snoc)
      then have "concat ps = butlast (concat ps) @ [LF]" using \<open>concat ps \<noteq> []\<close> by (metis append_butlast_last_id)
      moreover have "s = p @ butlast (concat ps)" using Cons.prems(1) \<open>concat ps \<noteq> []\<close> by (metis butlast_append butlast_snoc concat.simps(2))
      ultimately show thesis using that by blast
    qed
    have "LF \<notin> set (buf @ p)" using Cons.prems(3) q(2) by auto
    moreover have "line_loop (map Rcvd ps) (buf @ p) = (Line_ready, (buf @ p) @ q @ [LF], [])"
      using Cons.prems q by (intro Cons.IH) auto
    ultimately show ?thesis using p room buf q(2) by (simp add: Let_def)
  qed
qed simp

text \<open>The client reads the reply up to the close, however it is cut.\<close>

lemma call_read_pieces:
  assumes "list_all (\<lambda>p. p \<noteq> []) qs" "length got + length (concat qs) < cap"
  shows "call_read (map Rcvd qs @ [Rcv_eof]) cap got = Some (got @ concat qs)"
  using assms
proof (induction qs arbitrary: got)
  case (Cons q qs)
  then have "q \<noteq> []" "length got + 1 < cap" "length q \<le> cap - 1 - length got" by (cases q; simp)+
  then show ?case using Cons.IH [of "got @ q"] Cons.prems by simp
qed simp

text \<open>
  One round over the socket: the client's line reaches the gateway's control connection \<open>k\<close> cut into the
  reads \<open>cut_in\<close>, the gateway's reply reaches the client cut into \<open>cut_out\<close> and is followed by the close.
\<close>

definition control_round ::
  "(string \<Rightarrow> string list) \<Rightarrow> (string \<Rightarrow> string list) \<Rightarrow> send_res list \<Rightarrow> gw_env \<Rightarrow> gateway \<Rightarrow> nat \<Rightarrow>
   string \<Rightarrow> string \<Rightarrow> string \<Rightarrow> nat \<Rightarrow> (ntc_err \<times> string) \<times> gateway option" where
  "control_round cut_in cut_out ws env g k path token command cap =
     (let sent = snd (call_write ws (control_line token command));
          after = on_control_readable env (g\<lparr>g_cctrls := (g_cctrls g)(k \<mapsto> \<lparr>cc_buf = [], cc_peer = map Rcvd (cut_in sent)\<rparr>)\<rparr>) k;
          msg = (case after of Some g' \<Rightarrow> snd (last (g_replies g')) | None \<Rightarrow> []);
          r = ntc_control_call (\<lambda>_. True) ws (map Rcvd (cut_out msg) @ [Rcv_eof]) path token command cap
      in ((fst r, snd (snd r)), after))"

definition cuts :: "(string \<Rightarrow> string list) \<Rightarrow> bool" where
  "cuts f \<longleftrightarrow> (\<forall>s. concat (f s) = s \<and> list_all (\<lambda>p. p \<noteq> []) (f s))"

lemma cutsD: "cuts f \<Longrightarrow> concat (f s) = s" "cuts f \<Longrightarrow> list_all (\<lambda>p. p \<noteq> []) (f s)"
  by (auto simp: cuts_def)

lemma control_round_exec:
  assumes "cuts cut_in" "cuts cut_out" "fst (call_write ws (control_line token command))" "plain_word token" "plain_text command"
    and "g_token g = token" "length (control_line token command) < CONTROL_LINE"
    and g1: "g1 = g\<lparr>g_cctrls := (g_cctrls g)(k \<mapsto> \<lparr>cc_buf = [], cc_peer = map Rcvd (cut_in (control_line token command))\<rparr>)\<rparr>"
    and ex: "exec_control_command env g1 command CONTROL_OUT = Some (msg, g2)" "g_cctrls g2 k \<noteq> None" "length msg < cap"
  shows "control_round cut_in cut_out ws env g k path token command cap =
    ((NTC_OK, msg), Some (g2\<lparr>g_cctrls := (g_cctrls g2)(k := None), g_replies := g_replies g2 @ [(k, msg)]\<rparr>))"
proof -
  let ?line = "control_line token command"
  have w: "call_write ws ?line = (True, ?line)"
    using assms(3) call_write_all [of ws ?line "snd (call_write ws ?line)"] by (cases "call_write ws ?line") auto
  have lf: "LF \<notin> set ([] @ token @ '' '' @ command)"
    using assms(4,5) by (auto simp: plain_word_def plain_text_def list_all_iff)
  have "line_loop (map Rcvd (cut_in ?line)) [] = (Line_ready, [] @ (token @ '' '' @ command) @ [LF], [])"
    using assms(7) cutsD(1) [OF assms(1), of ?line] cutsD(2) [OF assms(1), of ?line] lf
    by (intro line_loop_pieces) (simp_all add: control_line_def CONTROL_LINE_def CONTROL_BUF_def)
  then have "on_control_readable env g1 k = Some (g2\<lparr>g_cctrls := (g_cctrls g2)(k := None), g_replies := g_replies g2 @ [(k, msg)]\<rparr>)"
    using process_control_line [OF assms(4,5), of g1 env] assms(6) ex(1,2)
    by (auto simp: on_control_readable_def g1 cctrl_reply_def)
  moreover have "call_read (map Rcvd (cut_out msg) @ [Rcv_eof]) cap [] = Some msg"
    using call_read_pieces [OF cutsD(2) [OF assms(2)], of "[]" msg cap] cutsD(1) [OF assms(2)] ex(3) by simp
  ultimately show ?thesis
    using assms(7) ex(3) by (auto simp: control_round_def w Let_def ntc_control_call_def g1 [symmetric])
qed

end
