(* ===== verification/Cli.thy ===== *)
theory Cli
  imports Control_Client
begin

text \<open>
  The command line (\<open>src/core/main.c\<close>): parsing of ports and options, the start of the server, and the
  subcommands that become one control command. A run gives an exit code and the list of its effects; the
  process table, the files and the answers of the control socket are the record \<open>cli_env\<close>. Texts
  that are only printed for a person are effects without their wording, except the tables of the list commands.
\<close>

subsection \<open>Ports and flags\<close>

definition has_flag :: "string list \<Rightarrow> string \<Rightarrow> bool" where
  "has_flag argv flag = (flag \<in> set (drop 2 argv))"

text \<open>\<open>strtol\<close> with its end pointer: \<open>None\<close> when there are no digits.\<close>

definition strtol_end :: "string \<Rightarrow> (int \<times> string) option" where
  "strtol_end s =
     (let s1 = dropWhile isspace s;
          s2 = (if take 1 s1 = ''-'' \<or> take 1 s1 = ''+'' then drop 1 s1 else s1);
          ds = takeWhile (\<lambda>c. digit_val 10 c \<noteq> None) s2
      in if ds = [] then None else Some (strtol s 10, drop (length ds) s2))"

definition parse_port :: "string \<Rightarrow> u16 option" where
  "parse_port s =
     (case strtol_end s of
        None \<Rightarrow> None
      | Some (v, rest) \<Rightarrow> if rest \<noteq> [] \<or> v < 1 \<or> v > 65535 then None else Some (of_int v))"

subsection \<open>The world of a run\<close>

record cli_env = client_env +
  ci_alive :: "nat \<Rightarrow> int \<Rightarrow> bool"       \<comment> \<open>\<open>kill(pid, 0)\<close> at the n-th look\<close>
  ci_self :: int
  ci_fork :: int
  ci_access :: "string \<Rightarrow> bool"
  ci_creates :: "string \<Rightarrow> bool"       \<comment> \<open>\<open>fopen\<close> for writing succeeds\<close>
  ci_server :: "u16 \<Rightarrow> u16 \<Rightarrow> u16 \<Rightarrow> ntc_dev_opts option \<Rightarrow> ntc_err"
  ci_call :: "string \<Rightarrow> string \<Rightarrow> string \<Rightarrow> nat \<Rightarrow> ntc_err \<times> string"   \<comment> \<open>\<open>ntc_control_call\<close>\<close>

datatype cli_eff =
    Eff_error | Eff_usage | Eff_print string | Eff_info
  | Eff_write_pid int | Eff_unlink_pid | Eff_kill int
  | Eff_serve u16 u16 u16 "ntc_dev_opts option"
  | Eff_control string
  | Eff_wait nat | Eff_follow | Eff_create string | Eff_mcp

type_synonym cli_run = "int \<times> cli_eff list"

definition pidfile_path :: "('a client_env_scheme) \<Rightarrow> string" where
  "pidfile_path ce = (case cl_getenv ce ''NTC_PID_FILE'' of Some p \<Rightarrow> p | None \<Rightarrow> ''./ntc.pid'')"

text \<open>\<open>fscanf("%d")\<close> on the pid file.\<close>

definition read_pidfile :: "('a client_env_scheme) \<Rightarrow> int" where
  "read_pidfile ce =
     (case cl_file ce (pidfile_path ce) of
        None \<Rightarrow> -1
      | Some s \<Rightarrow> if strtol_end s = None then -1 else atoi s)"

definition pid_alive :: "cli_env \<Rightarrow> nat \<Rightarrow> int \<Rightarrow> bool" where
  "pid_alive ce n pid \<longleftrightarrow> pid > 0 \<and> ci_alive ce n pid"

subsection \<open>Control commands\<close>

definition base_env :: "cli_env \<Rightarrow> client_env" where
  "base_env ce = \<lparr>cl_getenv = cl_getenv ce, cl_file = cl_file ce\<rparr>"

definition do_control_raw :: "cli_env \<Rightarrow> string \<Rightarrow> nat \<Rightarrow> int \<times> string \<times> cli_eff list" where
  "do_control_raw ce command cap =
     (case ntc_control_read_token (base_env ce) 65 of
        Inl _ \<Rightarrow> (2, [], [Eff_error])
      | Inr token \<Rightarrow>
          (case ci_call ce (ntc_control_sock_path (base_env ce)) token command cap of
             (NTC_OK, out) \<Rightarrow> (if take 2 (cstr out) = ''OK'' then 0 else 1, cstr out, [Eff_control command])
           | _ \<Rightarrow> (2, [], [Eff_control command, Eff_error])))"

definition do_control :: "cli_env \<Rightarrow> string \<Rightarrow> cli_run" where
  "do_control ce command =
     (case do_control_raw ce command 8192 of
        (rc, out, effs) \<Rightarrow>
          if rc = 2 then (2, effs)
          else (rc, effs @ [Eff_print (if out = [] \<or> last out \<noteq> LF then out @ [LF] else out)]))"

definition ok_json :: "string \<Rightarrow> string" where
  "ok_json out = (if take 3 out = ''OK '' then drop 3 out else out)"

definition fmt_uptime :: "int \<Rightarrow> string" where
  "fmt_uptime s =
     snprintf 32 (if s < 60 then fmt_int s @ ''s''
                  else if s < 3600 then fmt_int (s div 60) @ ''m''
                  else fmt_int (s div 3600) @ ''h'' @ fmt_int ((s mod 3600) div 60) @ ''m'')"

text \<open>A \<open>%-22.*s\<close> column.\<close>

definition pad22 :: "string \<Rightarrow> string" where
  "pad22 s = (let t = fmt_slice s in t @ replicate (22 - length t) CHR '' '')"

text \<open>\<open>dm\<close> and \<open>rst\<close> are the colour codes, empty without colours; the flag is the arena's \<open>init\<close>.\<close>

definition cmd_list ::
  "(rat \<Rightarrow> double_t) \<Rightarrow> bool \<Rightarrow> string \<Rightarrow> string \<Rightarrow> cli_env \<Rightarrow> string \<Rightarrow> string list \<Rightarrow> string list \<Rightarrow> string list \<Rightarrow> cli_run" where
  "cmd_list rnd arena dm rst ce command cols keys argv =
     (case do_control_raw ce command 16384 of
        (rc, out, effs) \<Rightarrow>
          if rc = 2 then (2, effs)
          else if has_flag argv ''--json'' then (rc, effs @ [Eff_print (ok_json out @ [LF])])
          else if \<not> arena then (1, effs)
          else case ntc_json_parse rnd (ok_json out) of
                 Some (NTC_JSON_ARR items) \<Rightarrow>
                   if items = [] then (rc, effs @ [Eff_print (''(none)'' @ [LF])])
                   else (rc, effs @ [Eff_print
                          (concat (map (\<lambda>c. dm @ pad22 c @ rst) cols) @ [LF] @
                           concat (map (\<lambda>it. concat (map (\<lambda>k. pad22 (ntc_json_str (ntc_json_get it k))) keys) @ [LF]) items))])
               | _ \<Rightarrow> (rc, effs @ [Eff_print out]))"

definition cmd_status :: "(rat \<Rightarrow> double_t) \<Rightarrow> (double_t \<Rightarrow> int) \<Rightarrow> (double_t \<Rightarrow> int) \<Rightarrow> bool \<Rightarrow> string \<Rightarrow> string \<Rightarrow> string \<Rightarrow> cli_env \<Rightarrow> string list \<Rightarrow> cli_run" where
  "cmd_status rnd to_int to_long arena grn dm rst ce argv =
     (case do_control_raw ce ''status'' 8192 of
        (rc, out, effs) \<Rightarrow>
          if rc = 2 then (2, effs)
          else if has_flag argv ''--json'' then (rc, effs @ [Eff_print (ok_json out @ [LF])])
          else if \<not> arena then (1, effs)
          else case ntc_json_parse rnd (ok_json out) of
                 None \<Rightarrow> (rc, effs @ [Eff_print out])
               | Some v \<Rightarrow>
                   let num = (\<lambda>k. fmt_int (to_int (ntc_json_num (ntc_json_get v k))));
                       str = (\<lambda>k. fmt_slice (ntc_json_str (ntc_json_get v k)))
                   in (rc, effs @ [Eff_print
                        (str ''app'' @ ''   '' @ grn @ chars_of [0xe2, 0x97, 0x8f] @ '' running'' @ rst @ ''   up '' @
                         fmt_uptime (to_long (ntc_json_num (ntc_json_get v ''uptime_s''))) @ ''   backend '' @ str ''backend'' @ [LF] @
                         dm @ ''services'' @ rst @ '' '' @ num ''services'' @ ''   '' @ dm @ ''routes'' @ rst @ '' '' @ num ''routes'' @ [LF] @
                         dm @ ''requests'' @ rst @ '' '' @ num ''requests'' @ ''   2xx '' @ num ''status_2xx'' @ ''   4xx '' @ num ''status_4xx'' @
                         ''   5xx '' @ num ''status_5xx'' @ ''   (fwd '' @ num ''forwarded'' @ '', builtin '' @ num ''builtin'' @ '')'' @ [LF])]))"

subsection \<open>Starting the server\<close>

definition NTC_DASHBOARD_DEFAULT :: u16 where "NTC_DASHBOARD_DEFAULT = 9090"

record start_opts =
  st_dash :: u16
  st_tls :: u16
  st_detach :: bool
  st_build :: "string option"
  st_paths :: "string list"

definition zero_opts :: start_opts where
  "zero_opts = \<lparr>st_dash = NTC_DASHBOARD_DEFAULT, st_tls = 0, st_detach = False, st_build = None, st_paths = []\<rparr>"

text \<open>The option loops; \<open>None\<close> is an invalid port or an unknown argument.\<close>

fun start_args :: "string list \<Rightarrow> start_opts \<Rightarrow> start_opts option" where
  "start_args [] o1 = Some o1"
| "start_args (a # as) o1 =
     (if a = ''-d'' \<or> a = ''--detach'' then start_args as (o1\<lparr>st_detach := True\<rparr>)
      else if a = ''--no-dashboard'' then start_args as (o1\<lparr>st_dash := 0\<rparr>)
      else case as of
             [] \<Rightarrow> None
           | b # bs \<Rightarrow>
               (if a = ''--dashboard'' \<or> a = ''--admin'' then
                  (case parse_port b of Some p \<Rightarrow> start_args bs (o1\<lparr>st_dash := p\<rparr>) | None \<Rightarrow> None)
                else if a = ''--tls'' then
                  (case parse_port b of Some p \<Rightarrow> start_args bs (o1\<lparr>st_tls := p\<rparr>) | None \<Rightarrow> None)
                else None))"

fun dev_args :: "string list \<Rightarrow> start_opts \<Rightarrow> start_opts option" where
  "dev_args [] o1 = Some o1"
| "dev_args (a # as) o1 =
     (if a = ''--no-dashboard'' then dev_args as (o1\<lparr>st_dash := 0\<rparr>)
      else case as of
             [] \<Rightarrow> None
           | b # bs \<Rightarrow>
               (if a = ''--dashboard'' \<or> a = ''--admin'' then
                  (case parse_port b of Some p \<Rightarrow> dev_args bs (o1\<lparr>st_dash := p\<rparr>) | None \<Rightarrow> None)
                else if a = ''--tls'' then
                  (case parse_port b of Some p \<Rightarrow> dev_args bs (o1\<lparr>st_tls := p\<rparr>) | None \<Rightarrow> None)
                else if a = ''--build'' then dev_args bs (o1\<lparr>st_build := Some b\<rparr>)
                else if a = ''--watch'' then
                  (if length (st_paths o1) \<ge> NTC_DEV_MAX_WATCH then None else dev_args bs (o1\<lparr>st_paths := st_paths o1 @ [b]\<rparr>))
                else None))"

definition serve :: "cli_env \<Rightarrow> u16 \<Rightarrow> start_opts \<Rightarrow> ntc_dev_opts option \<Rightarrow> cli_run" where
  "serve ce port o1 dev =
     (if ci_server ce port (st_dash o1) (st_tls o1) dev = NTC_OK
      then (0, [Eff_serve port (st_dash o1) (st_tls o1) dev, Eff_unlink_pid])
      else (1, [Eff_serve port (st_dash o1) (st_tls o1) dev, Eff_unlink_pid, Eff_error]))"

definition add_effs :: "cli_eff list \<Rightarrow> cli_run \<Rightarrow> cli_run" where
  "add_effs effs r = (fst r, effs @ snd r)"

definition run_start :: "cli_env \<Rightarrow> string list \<Rightarrow> cli_run" where
  "run_start ce argv =
     (if length argv < 3 then (2, [Eff_error])
      else case parse_port (argv ! 2) of
             None \<Rightarrow> (2, [Eff_error])
           | Some port \<Rightarrow>
               (case start_args (drop 3 argv) zero_opts of
                  None \<Rightarrow> (2, [Eff_error])
                | Some o1 \<Rightarrow>
                    if pid_alive ce 0 (read_pidfile ce) then (1, [Eff_error])
                    else if st_detach o1 then
                      (if ci_fork ce < 0 then (1, [Eff_error])
                       else if ci_fork ce > 0 then (0, [Eff_write_pid (ci_fork ce), Eff_info])
                       else serve ce port o1 None)
                    else add_effs [Eff_write_pid (ci_self ce)] (serve ce port o1 None)))"

definition run_dev :: "cli_env \<Rightarrow> string list \<Rightarrow> cli_run" where
  "run_dev ce argv =
     (if length argv < 3 then (2, [Eff_error])
      else case parse_port (argv ! 2) of
             None \<Rightarrow> (2, [Eff_error])
           | Some port \<Rightarrow>
               (case dev_args (drop 3 argv) zero_opts of
                  None \<Rightarrow> (2, [Eff_error])
                | Some o1 \<Rightarrow>
                    let paths = (if st_build o1 \<noteq> None \<and> st_paths o1 = []
                                 then filter (ci_access ce) [''controllers'', ''src''] else st_paths o1)
                    in if pid_alive ce 0 (read_pidfile ce) then (1, [Eff_error])
                       else add_effs [Eff_write_pid (ci_self ce)]
                              (serve ce port o1 (Some \<lparr>dv_watch = True, dv_build_cmd = st_build o1, dv_paths = paths\<rparr>))))"

definition cmd_stop :: "cli_env \<Rightarrow> cli_run" where
  "cmd_stop ce =
     (case do_control_raw ce ''stop'' 1024 of
        (rc, out, effs) \<Rightarrow>
          if rc \<noteq> 2 then (rc, effs @ [Eff_print out])
          else if pid_alive ce 0 (read_pidfile ce) then (0, effs @ [Eff_kill (read_pidfile ce), Eff_info])
          else (1, effs @ [Eff_error]))"

text \<open>
  Up to fifty looks at the old process; \<open>ce'\<close> is the world when the wait is over, in which the old
  server may have removed its pid file.
\<close>

definition restart_looks :: "cli_env \<Rightarrow> int \<Rightarrow> nat" where
  "restart_looks ce pid = length (takeWhile (\<lambda>n. pid_alive ce n pid) [0 ..< 50])"

definition cmd_restart :: "cli_env \<Rightarrow> cli_env \<Rightarrow> string list \<Rightarrow> cli_run" where
  "cmd_restart ce ce' argv =
     (if length argv < 3 then (2, [Eff_error])
      else add_effs (snd (snd (do_control_raw ce ''stop'' 1024)) @ [Eff_wait (restart_looks ce (read_pidfile ce))])
             (run_start ce' [argv ! 0, ''start'', argv ! 2, ''-d'']))"

text \<open>
  \<open>logs -f\<close> never returns: its endless loop is the last effect, and the exit code is then not used.
\<close>

definition logfile_path :: "('a client_env_scheme) \<Rightarrow> string" where
  "logfile_path ce = (case cl_getenv ce ''NTC_LOG_FILE'' of Some p \<Rightarrow> p | None \<Rightarrow> ''./ntc.log'')"

definition cmd_logs :: "cli_env \<Rightarrow> string list \<Rightarrow> cli_run" where
  "cmd_logs ce argv =
     (case cl_file ce (logfile_path ce) of
        None \<Rightarrow> (1, [Eff_error])
      | Some s \<Rightarrow>
          (0, Eff_print s # (if has_flag argv ''-f'' \<or> has_flag argv ''--follow'' then [Eff_follow] else [])))"

text \<open>The file of a new controller is created from a fixed template, whose wording is left out.\<close>

definition cmd_new_controller :: "cli_env \<Rightarrow> string \<Rightarrow> cli_run" where
  "cmd_new_controller ce name =
     (if \<not> list_all (\<lambda>c. isalnum c \<or> c = CHR ''_'') name then (1, [Eff_error])
      else
        let path = snprintf 256 (''controllers/'' @ name @ ''_controller.c'')
        in if ci_access ce path then (1, [Eff_error])
           else if \<not> ci_creates ce path then (1, [Eff_error])
           else (0, [Eff_create path, Eff_info]))"

subsection \<open>Dispatch\<close>

definition BUF :: nat where "BUF = 2048"

text \<open>The words of \<open>config set\<close>, joined by blanks until the buffer is full.\<close>

fun join_words :: "nat \<Rightarrow> string \<Rightarrow> string list \<Rightarrow> string" where
  "join_words off buf [] = buf"
| "join_words off buf (w # ws) =
     (if off + 2 < BUF then join_words (off + 1 + length w) (buf @ take (BUF - 1 - off) (CHR '' '' # w)) ws else buf)"

record cli_ui =
  ui_rnd :: "rat \<Rightarrow> double_t"
  ui_int :: "double_t \<Rightarrow> int"      \<comment> \<open>the cast \<open>(int)\<close>\<close>
  ui_long :: "double_t \<Rightarrow> int"     \<comment> \<open>the cast \<open>(long)\<close>\<close>
  ui_arena :: bool
  ui_grn :: string
  ui_dim :: string
  ui_rst :: string

definition service_cmd :: "cli_ui \<Rightarrow> cli_env \<Rightarrow> string list \<Rightarrow> cli_run" where
  "service_cmd ui ce argv =
     (let sub = (if length argv > 2 then argv ! 2 else [])
      in if sub = ''add'' then
           (if length argv < 5 then (2, [Eff_error]) else do_control ce (snprintf BUF (''service-add '' @ argv ! 3 @ '' '' @ argv ! 4)))
         else if sub = ''list'' then
           cmd_list (ui_rnd ui) (ui_arena ui) (ui_dim ui) (ui_rst ui) ce ''service-list'' [''NAME'', ''BIN''] [''name'', ''bin''] argv
         else if sub = ''rm'' then
           (if length argv < 4 then (2, [Eff_error]) else do_control ce (snprintf BUF (''service-rm '' @ argv ! 3)))
         else if sub = ''scale'' then
           (if length argv < 5 then (2, [Eff_error]) else do_control ce (snprintf BUF (''service-scale '' @ argv ! 3 @ '' '' @ argv ! 4)))
         else (2, [Eff_error]))"

definition route_cmd :: "cli_ui \<Rightarrow> cli_env \<Rightarrow> string list \<Rightarrow> cli_run" where
  "route_cmd ui ce argv =
     (let sub = (if length argv > 2 then argv ! 2 else [])
      in if sub = ''add'' then
           (if length argv < 6 then (2, [Eff_error])
            else do_control ce (snprintf BUF (''route-add '' @ argv ! 3 @ '' '' @ argv ! 4 @ '' '' @ argv ! 5)))
         else if sub = ''list'' then
           cmd_list (ui_rnd ui) (ui_arena ui) (ui_dim ui) (ui_rst ui) ce ''route-list'' [''METHOD'', ''PATTERN'', ''SERVICE'']
             [''method'', ''pattern'', ''service''] argv
         else (2, [Eff_error]))"

definition config_cmd :: "cli_env \<Rightarrow> string list \<Rightarrow> cli_run" where
  "config_cmd ce argv =
     (let sub = (if length argv > 2 then argv ! 2 else [])
      in if sub = ''set'' then
           (if length argv < 5 then (2, [Eff_error])
            else let head = ''config-set '' @ argv ! 3
                 in do_control ce (join_words (length head) (snprintf BUF head) (drop 4 argv)))
         else if sub = ''get'' then
           (if length argv < 4 then (2, [Eff_error]) else do_control ce (snprintf BUF (''config-get '' @ argv ! 3)))
         else (2, [Eff_error]))"

definition cli_main :: "cli_ui \<Rightarrow> cli_env \<Rightarrow> cli_env \<Rightarrow> string list \<Rightarrow> cli_run" where
  "cli_main ui ce ce' argv =
     (if length argv < 2 then (2, [Eff_usage])
      else
        let cmd = argv ! 1
        in if cmd = ''version'' \<or> cmd = ''--version'' then (0, [Eff_print (NTC_NAME @ '' '' @ NTC_VERSION @ [LF])])
           else if cmd = ''help'' \<or> cmd = ''--help'' \<or> cmd = ''-h'' then (0, [Eff_usage])
           else if cmd = ''start'' then run_start ce argv
           else if cmd = ''dev'' then run_dev ce argv
           else if cmd = ''stop'' then cmd_stop ce
           else if cmd = ''logs'' then cmd_logs ce argv
           else if cmd = ''status'' then cmd_status (ui_rnd ui) (ui_int ui) (ui_long ui) (ui_arena ui) (ui_grn ui) (ui_dim ui) (ui_rst ui) ce argv
           else if cmd = ''new'' then
             (if length argv < 4 \<or> argv ! 2 \<noteq> ''controller'' then (2, [Eff_error])
              else cmd_new_controller ce (argv ! 3))
           else if cmd = ''restart'' then cmd_restart ce ce' argv
           else if cmd = ''mcp'' then
             (let sub = (if length argv > 2 then argv ! 2 else [])
              in if sub = [] then (0, [Eff_mcp])
                 else if sub = ''tools'' then (0, [Eff_print (ntc_mcp_print_tools (has_flag argv ''--json''))])
                 else if sub = ''help'' then (0, [Eff_info])
                 else (2, [Eff_error]))
           else if cmd = ''token'' then
             (case ntc_control_read_token (base_env ce) 65 of
                Inl _ \<Rightarrow> (1, [Eff_error])
              | Inr token \<Rightarrow> (0, [Eff_print (''token:  '' @ token @ [LF] @ ''socket: '' @ ntc_control_sock_path (base_env ce) @ [LF])]))
           else if cmd = ''service'' then service_cmd ui ce argv
           else if cmd = ''route'' then route_cmd ui ce argv
           else if cmd = ''config'' then config_cmd ce argv
           else (2, [Eff_error, Eff_usage]))"

subsection \<open>A command from the shell to the gateway and its registry\<close>

lemma do_control_answer:
  assumes "ntc_control_read_token (base_env ce) 65 = Inr token"
    "ci_call ce (ntc_control_sock_path (base_env ce)) token command 8192 = (NTC_OK, msg @ [LF])" "NUL \<notin> set msg"
  shows "do_control ce command = (if take 2 (msg @ [LF]) = ''OK'' then 0 else 1, [Eff_control command, Eff_print (msg @ [LF])])"
  using assms by (simp add: do_control_def do_control_raw_def)

text \<open>Adding a service while the gateway runs: what stays, and what the table of services has then.\<close>

lemma spawn_keeps:
  "g_reg (snd (spawn_service env g i s)) = g_reg g" "g_replies (snd (spawn_service env g i s)) = g_replies g"
  "map (\<lambda>v. (sv_name v, sv_bin v)) (g_services (snd (spawn_service env g i s))) = map (\<lambda>v. (sv_name v, sv_bin v)) (g_services g)"
proof -
  have "snd (spawn_service env g i s) = g \<or> (\<exists>p ct. snd (spawn_service env g i s) = attach_ctrl env g i s p ct)"
    by (auto simp: spawn_service_def Let_def split: option.splits prod.splits)
  moreover have "map (\<lambda>v. (sv_name v, sv_bin v)) (g_services (attach_ctrl env g i s p ct)) = map (\<lambda>v. (sv_name v, sv_bin v)) (g_services g)" for p ct
    by (cases "i < length (g_services g)") (simp_all add: attach_ctrl_def Let_def map_update list_update_beyond, metis (no_types, lifting) length_map list_update_id nth_map)
  ultimately show "map (\<lambda>v. (sv_name v, sv_bin v)) (g_services (snd (spawn_service env g i s))) = map (\<lambda>v. (sv_name v, sv_bin v)) (g_services g)"
    by auto
  show "g_reg (snd (spawn_service env g i s)) = g_reg g" "g_replies (snd (spawn_service env g i s)) = g_replies g"
    by (simp_all add: spawn_service_def attach_ctrl_def Let_def split: option.splits prod.splits)
qed

text \<open>The first service of a name is the one found, so names and binaries decide \<open>find_service\<close>.\<close>

definition live_bin :: "gateway \<Rightarrow> string \<Rightarrow> string option" where
  "live_bin g name = map_option (\<lambda>i. sv_bin (g_services g ! i)) (find_service g name)"

lemma live_bin_map_of: "live_bin g name = map_of (map (\<lambda>v. (sv_name v, sv_bin v)) (g_services g)) name"
proof -
  have "map_option (\<lambda>i. sv_bin (vs ! i)) (find (\<lambda>i. sv_name (vs ! i) = name) [0 ..< length vs]) =
      map_of (map (\<lambda>v. (sv_name v, sv_bin v)) vs) name" for vs
  proof (induction vs)
    case (Cons v vs)
    have shift: "find (\<lambda>i. sv_name ((v # vs) ! i) = name) (map Suc ns) = map_option Suc (find (\<lambda>i. sv_name (vs ! i) = name) ns)" for ns
      by (induction ns) auto
    have "[0 ..< length (v # vs)] = 0 # map Suc [0 ..< length vs]" by (simp add: map_Suc_upt upt_conv_Cons del: upt_Suc)
    then show ?case using Cons.IH [symmetric] shift by (simp add: option.map_comp comp_def)
  qed simp
  then show ?thesis by (simp add: live_bin_def find_service_def)
qed

lemma service_add_live_keeps:
  "g_reg (snd (service_add_live env g n b)) = g_reg g" "g_replies (snd (service_add_live env g n b)) = g_replies g"
  "g_cctrls (snd (service_add_live env g n b)) = g_cctrls g"
  by (simp_all add: service_add_live_def Let_def spawn_keeps spawn_conns split: option.splits)

lemma service_add_live_bin:
  assumes "find_service g n \<noteq> None \<or> length (g_services g) < NTC_MAX_SERVICES \<and> ge_dup env"
  shows "\<exists>i. fst (service_add_live env g n b) = Some i" "live_bin (snd (service_add_live env g n b)) n = Some b"
proof -
  show "\<exists>i. fst (service_add_live env g n b) = Some i"
    using assms by (auto simp: service_add_live_def Let_def split: option.splits)
  show "live_bin (snd (service_add_live env g n b)) n = Some b"
  proof (cases "find_service g n")
    case None
    then have "map_of (map (\<lambda>v. (sv_name v, sv_bin v)) (g_services g)) n = None"
      using live_bin_map_of [of g n] by (simp add: live_bin_def)
    then show ?thesis
      using assms None by (simp add: live_bin_map_of service_add_live_def Let_def spawn_keeps map_add_def zero_service_def)
  next
    case (Some i)
    then have i: "i < length (g_services g)" "sv_name (g_services g ! i) = n" using find_service_Some by auto
    then have "find_service (set_svc g i ((g_services g ! i)\<lparr>sv_bin := b, sv_disabled := False\<rparr>)) n = find_service g n"
      unfolding find_service_def by (auto intro!: find_cong simp: nth_list_update)
    then show ?thesis using Some i by (simp add: live_bin_def service_add_live_def)
  qed
qed

lemma add_service_written:
  assumes "reg_wf t0"
  shows "ge_reg_ok (persist_env t0 s0 env) ops (Reg_add_service n b)"
    and "map_of (a_services (abs_reg (reg_runs (table_engine reg_sem) (ops @ [Reg_add_service n b]) t0))) =
      (map_of (a_services (abs_reg (reg_runs (table_engine reg_sem) ops t0))))(n \<mapsto> b)"
proof -
  have wf: "reg_wf (reg_runs (table_engine reg_sem) ops t0)" using assms by (rule reg_tables.runs_wf)
  show "ge_reg_ok (persist_env t0 s0 env) ops (Reg_add_service n b)"
    using table_run [OF wf, of "Reg_add_service n b"] by (simp add: persist_env_def)
  show "map_of (a_services (abs_reg (reg_runs (table_engine reg_sem) (ops @ [Reg_add_service n b]) t0))) =
      (map_of (a_services (abs_reg (reg_runs (table_engine reg_sem) ops t0))))(n \<mapsto> b)"
    using table_run [OF wf, of "Reg_add_service n b"] by (simp add: reg_runs_snoc AList.update_conv')
qed

text \<open>The command as the gateway executes it, on a database that accepts the row.\<close>

lemma exec_service_add:
  assumes "plain_word n" "plain_word b" "ge_reg_ok env (g_reg g) (Reg_add_service n b)"
  shows "exec_control_command env g (''service-add '' @ n @ '' '' @ b) cap =
    (case service_add_live env (g\<lparr>g_reg := g_reg g @ [Reg_add_service n b]\<rparr>) n b of
       (None, g2) \<Rightarrow> say cap g2 ''ERR too many services'' | (Some _, g2) \<Rightarrow> say cap g2 ''OK service added'')"
proof -
  have n: "n \<noteq> []" "CHR '' '' \<notin> set n" "b \<noteq> []" "CHR '' '' \<notin> set b"
    using assms(1,2) by (auto simp: plain_word_def list_all_iff)
  have "strtok (''service-add '' @ n @ '' '' @ b) = (Some ''service-add'', n @ '' '' @ b)" "strtok (n @ '' '' @ b) = (Some n, b)" "strtok b = (Some b, [])"
    using strtok_word(1) [of "''service-add''" "n @ '' '' @ b"] strtok_word(1) [OF n(1,2), of b] strtok_word(2) [OF n(3,4)] by simp_all
  then show ?thesis using assms(3) by (simp add: exec_control_command_def cmd_service_add_def reg_write_def)
qed

lemma plain_words_text: "plain_word n \<Longrightarrow> plain_word b \<Longrightarrow> plain_text (''service-add '' @ n @ '' '' @ b)"
  by (auto simp: plain_word_def plain_text_def list_all_iff)


definition sample_cuts :: "string \<Rightarrow> string list" where
  "sample_cuts s = (if s = [] then [] else [take 1 s] @ (if length s > 1 then [drop 1 s] else []))"

definition cli_gateway :: gateway where
  "cli_gateway = sample_start\<lparr>g_token := ''secret''\<rparr>"

definition sample_cli :: cli_env where
  "sample_cli = \<lparr>cl_getenv = (\<lambda>v. if v = ''NTC_TOKEN'' then Some ''secret'' else None), cl_file = (\<lambda>_. None),
     ci_alive = (\<lambda>_ _. False), ci_self = 7, ci_fork = 8, ci_access = (\<lambda>_. False), ci_creates = (\<lambda>_. True),
     ci_server = (\<lambda>_ _ _ _. NTC_OK),
     ci_call = (\<lambda>path tok cmd cap. fst (control_round sample_cuts sample_cuts [Sent 5, Send_eintr, Sent 100]
       (persist_env sample_reg [] sample_gw_env) cli_gateway 3 path tok cmd cap))\<rparr>"

lemma sample_cuts: "cuts sample_cuts"
proof -
  have "take 1 s @ drop 1 s = s" for s :: string by simp
  then show ?thesis unfolding cuts_def sample_cuts_def by (auto simp: neq_Nil_conv)
qed


end
