(* ===== verification/Listen.thy ===== *)
theory Listen
  imports Startup Pem Poller Control_Client
begin

text \<open>
  The listeners that \<open>ntc_server_run\<close> opens before its loop (\<open>make_control_socket\<close>, \<open>make_admin_socket\<close>,
  \<open>make_tls_socket\<close> and the code around them in \<open>src/core/server.c\<close>), registered with the poller of
  \<open>Poller\<close> and, for HTTPS, with the certificates of \<open>Pem\<close>; and the token file that \<open>load_token\<close>
  writes for the clients of \<open>Control_Client\<close>. The answers of the socket calls are arguments.
\<close>

datatype bind_addr = Bind_any u16 | Bind_loopback u16 | Bind_unix string

record sock_setup =
  sk_socket :: int                        \<comment> \<open>the descriptor, negative on failure\<close>
  sk_bind :: "bind_addr \<Rightarrow> bool"
  sk_listen :: bool
  sk_nonblock :: bool                     \<comment> \<open>\<open>set_nonblocking\<close>\<close>

text \<open>The calls on a new socket in their order; it is closed when one fails.\<close>

definition listen_on :: "sock_setup \<Rightarrow> bind_addr \<Rightarrow> int" where
  "listen_on sk addr =
     (if sk_socket sk < 0 then -1
      else if \<not> sk_bind sk addr then -1
      else if \<not> sk_listen sk then -1
      else if \<not> sk_nonblock sk then -1
      else sk_socket sk)"

definition make_admin_socket :: "sock_setup \<Rightarrow> u16 \<Rightarrow> int" where
  "make_admin_socket sk port = listen_on sk (Bind_loopback port)"

definition make_tls_socket :: "sock_setup \<Rightarrow> u16 \<Rightarrow> int" where
  "make_tls_socket sk port = listen_on sk (Bind_any port)"

definition make_control_socket :: "sock_setup \<Rightarrow> string \<Rightarrow> int" where
  "make_control_socket sk path = listen_on sk (Bind_unix (snprintf 108 path))"

record 'k listeners =
  ln_listen :: int
  ln_control :: int                       \<comment> \<open>-1: off\<close>
  ln_admin :: int
  ln_tls :: int
  ln_conf :: "'k ntc_tls_conf option"
  ln_poller :: "unit ntc_poller"

record ('p, 'k) listen_env =
  le_main :: sock_setup
  le_control :: sock_setup
  le_admin :: sock_setup
  le_tls :: sock_setup
  le_calloc :: bool
  le_epoll :: int                         \<comment> \<open>\<open>epoll_create1\<close>\<close>
  le_alloc :: "nat \<Rightarrow> bool"
  le_ctl :: "int \<Rightarrow> u32 \<Rightarrow> bool"          \<comment> \<open>\<open>epoll_ctl\<close> for a descriptor\<close>
  le_conf :: "('p, 'k) tls_conf_env"

text \<open>A listener is registered for reading, with no user data.\<close>

definition poll_listen :: "('p, 'k) listen_env \<Rightarrow> unit ntc_poller \<Rightarrow> int \<Rightarrow> (ntc_err \<times> unit ntc_poller) option" where
  "poll_listen le p fd = ntc_poller_add (le_alloc le) (le_ctl le fd) p fd NTC_POLL_READ None"

definition open_control :: "('p, 'k) listen_env \<Rightarrow> boot_env \<Rightarrow> 'k listeners \<Rightarrow> 'k listeners option" where
  "open_control le be lx =
     (let fd = make_control_socket (le_control le) (ntc_control_sock_path \<lparr>cl_getenv = bo_getenv be, cl_file = (\<lambda>_. None)\<rparr>)
      in if fd < 0 then Some (lx\<lparr>ln_control := -1\<rparr>)
         else map_option (\<lambda>(e, p). lx\<lparr>ln_control := (if e = NTC_OK then fd else -1), ln_poller := p\<rparr>) (poll_listen le (ln_poller lx) fd))"

definition open_admin :: "('p, 'k) listen_env \<Rightarrow> u16 \<Rightarrow> 'k listeners \<Rightarrow> 'k listeners option" where
  "open_admin le admin_port lx =
     (if admin_port = 0 then Some lx
      else
        let fd = make_admin_socket (le_admin le) admin_port
        in if fd < 0 then Some (lx\<lparr>ln_admin := -1\<rparr>)
           else map_option (\<lambda>(e, p). lx\<lparr>ln_admin := (if e = NTC_OK then fd else -1), ln_poller := p\<rparr>) (poll_listen le (ln_poller lx) fd))"

definition tls_port_of :: "boot_env \<Rightarrow> gw_env \<Rightarrow> reg_op list \<Rightarrow> u16 \<Rightarrow> u16" where
  "tls_port_of be env reg tls_port =
     (let tport = (if tls_port = 0 then (case ge_config env reg ''tls.port'' of Some v \<Rightarrow> of_int (atoi (snprintf 256 v)) | None \<Rightarrow> 0) else tls_port)
      in case bo_getenv be ''NTC_TLS_PORT'' of Some e \<Rightarrow> of_int (atoi e) | None \<Rightarrow> tport)"

text \<open>The HTTPS listener; without a port, the files, a key or a socket it stays off.\<close>

definition open_tls ::
  "('p, 'k) listen_env \<Rightarrow> boot_env \<Rightarrow> gw_env \<Rightarrow> reg_op list \<Rightarrow> u16 \<Rightarrow> 'k listeners \<Rightarrow> 'k listeners option" where
  "open_tls le be env reg tls_port lx =
     (let tport = tls_port_of be env reg tls_port;
          cert = cfg_text be env reg ''tls.cert'' ''NTC_TLS_CERT'' 256 256;
          key = cfg_text be env reg ''tls.key'' ''NTC_TLS_KEY'' 256 256
      in if tport = 0 \<or> cert = [] \<or> key = [] then Some lx
         else case ntc_tls_conf_new (le_conf le) (Some cert) (Some key) of
                None \<Rightarrow> None
              | Some None \<Rightarrow> Some lx
              | Some (Some conf) \<Rightarrow>
                  (let fd = make_tls_socket (le_tls le) tport
                   in if fd < 0 then Some (lx\<lparr>ln_tls := fd, ln_conf := None\<rparr>)
                      else map_option (\<lambda>(e, p).
                             if e = NTC_OK then lx\<lparr>ln_tls := fd, ln_conf := Some conf, ln_poller := p\<rparr>
                             else lx\<lparr>ln_tls := -1, ln_conf := None, ln_poller := p\<rparr>) (poll_listen le (ln_poller lx) fd)))"

text \<open>
  All listeners: \<open>None\<close> for a loop that does not end or an overflow, \<open>Inl\<close> for \<open>fail_pre_poll\<close>. Only the
  public listener and the poller are needed to start.
\<close>

definition gw_listen ::
  "('p, 'k) listen_env \<Rightarrow> boot_env \<Rightarrow> gw_env \<Rightarrow> reg_op list \<Rightarrow> u16 \<Rightarrow> u16 \<Rightarrow> u16 \<Rightarrow> (ntc_err + 'k listeners) option" where
  "gw_listen le be env reg port admin_port tls_port =
     (let fd = sk_socket (le_main le)
      in if fd < 0 \<or> \<not> sk_nonblock (le_main le) \<or> \<not> sk_bind (le_main le) (Bind_any port) \<or> \<not> sk_listen (le_main le)
         then Some (Inl NTC_ERR_IO)
         else case ntc_poller_create (le_calloc le) (le_epoll le) of
                Inl _ \<Rightarrow> Some (Inl NTC_ERR_IO)
              | Inr p0 \<Rightarrow> do {
                  (e, p) \<leftarrow> poll_listen le p0 fd;
                  if e \<noteq> NTC_OK then Some (Inl NTC_ERR_IO)
                  else do {
                    l1 \<leftarrow> open_control le be \<lparr>ln_listen = fd, ln_control = -1, ln_admin = -1, ln_tls = -1, ln_conf = None, ln_poller = p\<rparr>;
                    l2 \<leftarrow> open_admin le admin_port l1;
                    l3 \<leftarrow> open_tls le be env reg tls_port l2;
                    Some (Inr l3)
                  }
                })"

subsection \<open>Laws\<close>

text \<open>
  The HTTPS listener exists exactly with a configuration, and that is the one that the configured
  files give: no connection is accepted as TLS without a chain and a key.
\<close>

lemma open_tls_conf:
  assumes "open_tls le be env reg tls_port lx = Some lx'" "ln_tls lx = -1" "ln_conf lx = None"
  shows "(0 \<le> ln_tls lx' \<longleftrightarrow> ln_conf lx' \<noteq> None) \<and>
    (\<forall>conf. ln_conf lx' = Some conf \<longrightarrow>
       ntc_tls_conf_new (le_conf le) (Some (cfg_text be env reg ''tls.cert'' ''NTC_TLS_CERT'' 256 256))
         (Some (cfg_text be env reg ''tls.key'' ''NTC_TLS_KEY'' 256 256)) = Some (Some conf))"
  using assms by (auto simp: open_tls_def Let_def split: if_splits option.splits prod.splits)

lemma open_others_keep:
  "open_control le be lx = Some lx' \<Longrightarrow> ln_tls lx' = ln_tls lx \<and> ln_conf lx' = ln_conf lx \<and> ln_listen lx' = ln_listen lx"
  "open_admin le port lx = Some lx' \<Longrightarrow> ln_tls lx' = ln_tls lx \<and> ln_conf lx' = ln_conf lx \<and> ln_listen lx' = ln_listen lx"
  by (auto simp: open_control_def open_admin_def Let_def split: if_splits)

lemma gw_listen_tls:
  assumes "gw_listen le be env reg port admin_port tls_port = Some (Inr lx)"
  shows "0 \<le> ln_tls lx \<longleftrightarrow> ln_conf lx \<noteq> None"
proof -
  obtain p l1 l2 where l: "open_control le be \<lparr>ln_listen = sk_socket (le_main le), ln_control = -1, ln_admin = -1, ln_tls = -1, ln_conf = None, ln_poller = p\<rparr> = Some l1"
      "open_admin le admin_port l1 = Some l2" "open_tls le be env reg tls_port l2 = Some lx"
    using assms by (auto simp: gw_listen_def Let_def split: if_splits sum.splits Option.bind_splits prod.splits)
  then show ?thesis using open_others_keep(1) [OF l(1)] open_others_keep(2) [OF l(2)] open_tls_conf [OF l(3)] by simp
qed

text \<open>The dashboard listens on the loopback address only.\<close>

lemma admin_loopback: "0 \<le> make_admin_socket sk port \<Longrightarrow> sk_bind sk (Bind_loopback port)"
  by (auto simp: make_admin_socket_def listen_on_def split: if_splits)

subsection \<open>The token file\<close>

text \<open>Path and contents of what \<open>load_token\<close> writes after it has set the token.\<close>

definition token_file :: "boot_env \<Rightarrow> gateway \<Rightarrow> string \<times> string" where
  "token_file be g = (case bo_getenv be ''NTC_TOKEN_FILE'' of Some tf \<Rightarrow> tf | None \<Rightarrow> NTC_CONTROL_TOKEN_DEFAULT, g_token g @ [LF])"

lemma strip_eol_line: "t \<noteq> [] \<Longrightarrow> last t \<noteq> LF \<Longrightarrow> last t \<noteq> CR \<Longrightarrow> strip_eol (t @ [LF]) = t \<and> strip_eol t = t"
  by (cases t rule: rev_cases) (auto simp: strip_eol_def)

text \<open>A client in the same environment reads the gateway's token from it.\<close>

lemma token_file_read:
  assumes "plain_word (g_token g)" "last (g_token g) \<noteq> CR" "length (g_token g) \<le> 64" "bo_getenv be ''NTC_TOKEN'' = None"
    "token_file be g = (path, contents)" "cl_file ce path = Some contents" "cl_getenv ce = bo_getenv be"
  shows "ntc_control_read_token ce 65 = Inr (g_token g)"
proof -
  let ?t = "g_token g"
  have t: "?t \<noteq> []" "NUL \<notin> set ?t" "LF \<notin> set ?t" using assms(1) by (auto simp: plain_word_def list_all_iff)
  have "last ?t \<noteq> LF" using t(1,3) by (metis last_in_set)
  then have eol: "strip_eol (?t @ [LF]) = ?t" "strip_eol ?t = ?t" using strip_eol_line [OF t(1)] assms(2) by auto
  have "memchr LF (?t @ [LF]) = Some (length ?t)" using t(3) by (simp add: memchr_append)
  then have "\<exists>rest. fgets 65 (contents) = Some (?t @ [LF], rest) \<or> fgets 65 contents = Some (?t, rest)"
    using assms(3,5) t(1) by (auto simp: token_file_def fgets_def Let_def min_def)
  moreover have "cstr ?t = ?t" "cstr (?t @ [LF]) = ?t @ [LF]" using t(2) by simp_all
  ultimately show ?thesis
    using eol assms(4-7) by (auto simp: ntc_control_read_token_def token_file_def Let_def)
qed

end
