(* ===== verification/Gzip.thy ===== *)
theory Gzip
  imports Startup
begin

text \<open>
  The gzip wrapper around the vendored compressor (\<open>src/core/gzip.c\<close>). \<open>deflate\<close> and \<open>crc32\<close> are
  miniz's and the last argument is \<open>malloc\<close>; \<open>gunzip\<close> reads a member without optional fields as RFC 1952
  describes it. A body that the gateway compresses is decoded by the client to the original body.
\<close>

definition put_le32 :: "u32 \<Rightarrow> byte list" where
  "put_le32 v = [ucast v, ucast (drop_bit 8 v), ucast (drop_bit 16 v), ucast (drop_bit 24 v)]"

definition gzip_hdr :: "byte list" where
  "gzip_hdr = [0x1f, 0x8b, 0x08, 0, 0, 0, 0, 0, 0, 0xff]"

definition ntc_gzip ::
  "(byte list \<Rightarrow> byte list option) \<Rightarrow> (byte list \<Rightarrow> u32) \<Rightarrow> (nat \<Rightarrow> bool) \<Rightarrow> byte list option \<Rightarrow> byte list option" where
  "ntc_gzip deflate crc32 alloc src =
     (case src of
        None \<Rightarrow> None
      | Some s \<Rightarrow>
          if s = [] then None
          else case deflate s of
                 None \<Rightarrow> None
               | Some d \<Rightarrow>
                   let total = 10 + length d + 8
                   in if total \<ge> length s then None
                      else if \<not> alloc total then None
                      else Some (gzip_hdr @ d @ put_le32 (crc32 s) @ put_le32 (of_nat (length s))))"

subsection \<open>The reader\<close>

definition get_le32 :: "byte list \<Rightarrow> u32" where
  "get_le32 p = get_u32 (rev (take 4 p))"

definition gunzip :: "(byte list \<Rightarrow> byte list option) \<Rightarrow> (byte list \<Rightarrow> u32) \<Rightarrow> byte list \<Rightarrow> byte list option" where
  "gunzip inflate crc32 bs =
     (if length bs < 18 \<or> take 4 bs \<noteq> [0x1f, 0x8b, 0x08, 0] then None
      else let n = length bs - 8
           in case inflate (drop 10 (take n bs)) of
                None \<Rightarrow> None
              | Some s \<Rightarrow>
                  if get_le32 (drop n bs) = crc32 s \<and> get_le32 (drop (n + 4) bs) = of_nat (length s) then Some s else None)"

lemma get_put_le32: "get_le32 (put_le32 v @ rest) = v"
proof -
  have "rev (put_le32 v) = put_u32 v" by (simp add: put_le32_def put_u32_def)
  then have "get_le32 (put_le32 v @ rest) = get_u32 (put_u32 v)" by (simp add: get_le32_def put_le32_def)
  also have "\<dots> = v" using get_put_u32 [of v "[]"] by simp
  finally show ?thesis .
qed

lemma gzip_gunzip:
  assumes "\<And>d. deflate s = Some d \<Longrightarrow> inflate d = Some s" "ntc_gzip deflate crc32 alloc (Some s) = Some gz"
  shows "gunzip inflate crc32 gz = Some s" "length gz < length s"
proof -
  obtain d where d: "deflate s = Some d" "18 + length d < length s"
      "gz = gzip_hdr @ d @ put_le32 (crc32 s) @ put_le32 (of_nat (length s))"
    using assms(2) by (auto simp: ntc_gzip_def Let_def split: option.splits if_splits)
  have lens: "length gzip_hdr = 10" "length (put_le32 v) = 4" for v by (simp_all add: gzip_hdr_def put_le32_def)
  have parts: "drop 10 (take (length gz - 8) gz) = d" "drop (length gz - 8) gz = put_le32 (crc32 s) @ put_le32 (of_nat (length s))"
      "drop (length gz - 8 + 4) gz = put_le32 (of_nat (length s)) @ []" "take 4 gz = [0x1f, 0x8b, 0x08, 0]" "length gz = 18 + length d"
    using d(3) by (simp_all add: lens) (simp add: gzip_hdr_def)
  show "gunzip inflate crc32 gz = Some s"
    unfolding gunzip_def Let_def parts(1-4) using assms(1) [OF d(1)] by (simp add: parts(5) get_put_le32 del: append_Nil2)
  show "length gz < length s" using d(2) parts(5) by simp
qed


text \<open>A compressor for runs of one letter, and its inflater.\<close>

definition run_deflate :: "byte list \<Rightarrow> byte list option" where
  "run_deflate s = (if s = replicate (length s) 97 \<and> length s < 2 ^ 32 then Some (put_le32 (of_nat (length s))) else None)"

definition run_inflate :: "byte list \<Rightarrow> byte list option" where
  "run_inflate d = Some (replicate (unat (get_le32 d)) 97)"

definition gzip_env :: gw_env where
  "gzip_env = sample_gw_env\<lparr>ge_gzip := (\<lambda>s. map_option chars_of (ntc_gzip run_deflate (\<lambda>_. 7) (\<lambda>_. True) (Some (bytes_of s))))\<rparr>"

definition gzip_conn :: conn where
  "gzip_conn = (conn_new sample_gw_env)\<lparr>c_accept_gzip := True\<rparr>"

lemma run_codec: "run_deflate s = Some d \<Longrightarrow> run_inflate d = Some s"
  using get_put_le32 [of "of_nat (length s)" "[]"]
  by (auto simp: run_deflate_def run_inflate_def unat_of_nat take_bit_nat_eq_self split: if_splits)


end
