(* ===== verification/Console.thy ===== *)
theory Console
  imports Prelude
begin

text \<open>
  What the processes write for a person, and their signal dispositions: \<open>src/common/color.c\<close>,
  \<open>src/common/log.c\<close> and \<open>src/common/signal.c\<close>. The environment and \<open>isatty\<close> are arguments, the
  statics of the file are \<open>color_state\<close>; the wall clock and the formatted message are arguments of \<open>ntc_log\<close>.
\<close>

subsection \<open>Colours\<close>

record color_state =
  color_mode :: int             \<comment> \<open>\<open>g_mode\<close>: -1 auto, 0 never, 1 always\<close>
  color_cache :: "int list"     \<comment> \<open>for the descriptors 0, 1, 2; -1 is not decided yet\<close>

definition color_init :: color_state where
  "color_init = \<lparr>color_mode = -1, color_cache = [-1, -1, -1]\<rparr>"

record color_env =
  col_getenv :: "string \<Rightarrow> string option"
  col_isatty :: "int \<Rightarrow> bool"

definition ntc_color_set_mode :: "int \<Rightarrow> color_state \<Rightarrow> color_state" where
  "ntc_color_set_mode mode s = s\<lparr>color_mode := mode\<rparr>"

definition detect_fd :: "color_env \<Rightarrow> int \<Rightarrow> color_state \<Rightarrow> int \<times> color_state" where
  "detect_fd ev fd s =
     (let slot = (if 0 \<le> fd \<and> fd \<le> 2 then Some (nat fd) else None)
      in case slot of
           Some i \<Rightarrow>
             if color_cache s ! i \<ge> 0 then (color_cache s ! i, s)
             else let v = (if col_getenv ev ''NO_COLOR'' \<noteq> None then 0
                           else if col_getenv ev ''CLICOLOR_FORCE'' \<noteq> None then 1
                           else if col_isatty ev fd then 1 else 0)
                  in (v, s\<lparr>color_cache := (color_cache s)[i := v]\<rparr>)
         | None \<Rightarrow>
             (if col_getenv ev ''NO_COLOR'' \<noteq> None then 0
              else if col_getenv ev ''CLICOLOR_FORCE'' \<noteq> None then 1
              else if col_isatty ev fd then 1 else 0, s))"

definition ntc_color_enabled_fd :: "color_env \<Rightarrow> int \<Rightarrow> color_state \<Rightarrow> bool \<times> color_state" where
  "ntc_color_enabled_fd ev fd s =
     (if color_mode s \<ge> 0 then (color_mode s \<noteq> 0, s)
      else case detect_fd ev fd s of (v, s1) \<Rightarrow> (v \<noteq> 0, s1))"

definition ntc_colorize :: "color_env \<Rightarrow> int \<Rightarrow> string \<Rightarrow> color_state \<Rightarrow> string \<times> color_state" where
  "ntc_colorize ev fd code s = (case ntc_color_enabled_fd ev fd s of (b, s1) \<Rightarrow> (if b then code else [], s1))"

subsection \<open>The log\<close>

definition ansi :: "string \<Rightarrow> string" where
  "ansi code = CHR 0x1B # CHR ''['' # code @ ''m''"

definition NTC_ANSI_RESET :: string where "NTC_ANSI_RESET = ansi ''0''"
definition NTC_ANSI_DIM :: string where "NTC_ANSI_DIM = ansi ''90''"
definition NTC_ANSI_RED :: string where "NTC_ANSI_RED = ansi ''1;31''"
definition NTC_ANSI_GREEN :: string where "NTC_ANSI_GREEN = ansi ''1;32''"
definition NTC_ANSI_YELLOW :: string where "NTC_ANSI_YELLOW = ansi ''1;33''"
definition NTC_ANSI_BLUE :: string where "NTC_ANSI_BLUE = ansi ''1;34''"
definition NTC_ANSI_CYAN :: string where "NTC_ANSI_CYAN = ansi ''1;36''"

text \<open>The level is the enum's number; one outside it is logged as an error.\<close>

definition NTC_LOG_ERROR :: int where "NTC_LOG_ERROR = 4"

definition log_names :: "string list" where
  "log_names = [''DEBUG'', ''INFO'', ''OK'', ''WARN'', ''ERROR'']"

definition log_codes :: "string list" where
  "log_codes = [NTC_ANSI_CYAN, NTC_ANSI_BLUE, NTC_ANSI_GREEN, NTC_ANSI_YELLOW, NTC_ANSI_RED]"

text \<open>\<open>tbuf\<close> is the local time, \<open>nsec\<close> the nanoseconds of the clock; \<open>%03ld\<close> and \<open>%-5s\<close> are written out.\<close>

definition fmt_03 :: "nat \<Rightarrow> string" where
  "fmt_03 n = (let d = fmt_nat n in replicate (3 - length d) CHR ''0'' @ d)"

definition ntc_log ::
  "color_env \<Rightarrow> string \<Rightarrow> nat \<Rightarrow> int \<Rightarrow> string \<Rightarrow> color_state \<Rightarrow> string \<times> color_state" where
  "ntc_log ev tbuf nsec lvl msg s =
     (let idx = nat (if lvl < 0 \<or> lvl > NTC_LOG_ERROR then NTC_LOG_ERROR else lvl);
          (dm, s1) = ntc_colorize ev 2 NTC_ANSI_DIM s;
          (rst, s2) = ntc_colorize ev 2 NTC_ANSI_RESET s1;
          (clvl, s3) = ntc_colorize ev 2 (log_codes ! idx) s2
      in (dm @ tbuf @ ''.'' @ fmt_03 (nsec div 1000000) @ rst @ '' '' @ clvl @ ''['' @
          log_names ! idx @ replicate (5 - length (log_names ! idx)) CHR '' '' @ '']'' @ rst @ '' '' @ msg @ [LF], s3))"

subsection \<open>Signals\<close>

datatype signo = SIGPIPE | SIGSEGV | SIGBUS | SIGFPE | SIGILL | SIGABRT | Signal_other nat

datatype sigact = SIG_DFL | SIG_IGN | Crash_handler    \<comment> \<open>\<open>crash_handler\<close>, with \<open>SA_RESETHAND\<close>\<close>

definition ntc_install_signal_handlers :: "(signo \<Rightarrow> sigact) \<Rightarrow> signo \<Rightarrow> sigact" where
  "ntc_install_signal_handlers acts =
     acts(SIGPIPE := SIG_IGN, SIGSEGV := Crash_handler, SIGBUS := Crash_handler, SIGFPE := Crash_handler,
          SIGILL := Crash_handler, SIGABRT := Crash_handler)"

fun sig_name :: "signo \<Rightarrow> string" where
  "sig_name SIGSEGV = ''SIGSEGV''"
| "sig_name SIGBUS = ''SIGBUS''"
| "sig_name SIGFPE = ''SIGFPE''"
| "sig_name SIGILL = ''SIGILL''"
| "sig_name SIGABRT = ''SIGABRT''"
| "sig_name _ = ''signal''"

text \<open>What the handler writes before the backtrace, and the disposition under which it raises the signal again.\<close>

definition crash_handler :: "signo \<Rightarrow> (signo \<Rightarrow> sigact) \<Rightarrow> string \<times> (signo \<Rightarrow> sigact)" where
  "crash_handler sig acts = ([LF] @ ''[naitron-c] FATAL: caught '' @ sig_name sig @ '' - backtrace:'' @ [LF], acts(sig := SIG_DFL))"

text \<open>
  Delivery of a signal: \<open>None\<close> when the process dies of it, which the handler brings about
  by raising it again under the default action; only an ignored signal leaves the process running.
\<close>

definition raise_sig :: "signo \<Rightarrow> (signo \<Rightarrow> sigact) \<Rightarrow> string \<times> (signo \<Rightarrow> sigact) option" where
  "raise_sig sig acts =
     (case acts sig of
        SIG_IGN \<Rightarrow> ([], Some acts)
      | SIG_DFL \<Rightarrow> ([], None)
      | Crash_handler \<Rightarrow>
          (case crash_handler sig acts of
             (out, acts1) \<Rightarrow> (out, if acts1 sig = SIG_DFL then None else Some acts1)))"

subsection \<open>Laws\<close>

lemma detect_fd_cached: "length (color_cache s) = 3 \<Longrightarrow> 0 \<le> fd \<Longrightarrow> fd \<le> 2 \<Longrightarrow> detect_fd ev' fd (snd (detect_fd ev fd s)) = detect_fd ev fd s"
  by (auto simp: detect_fd_def Let_def nth_list_update)

text \<open>Once a line was coloured or not, later ones are the same way, whatever becomes of the environment.\<close>

lemma colorize_stable:
  assumes "length (color_cache s) = 3" "0 \<le> fd" "fd \<le> 2"
  shows "ntc_color_enabled_fd ev' fd (snd (ntc_color_enabled_fd ev fd s)) = ntc_color_enabled_fd ev fd s"
proof (cases "color_mode s \<ge> 0")
  case False
  have "color_mode (snd (detect_fd ev fd s)) = color_mode s" by (simp add: detect_fd_def Let_def split: option.splits)
  then show ?thesis using False detect_fd_cached [OF assms, of ev' ev] by (simp add: ntc_color_enabled_fd_def case_prod_unfold)
qed (simp add: ntc_color_enabled_fd_def)

lemma colorize_forced: "ntc_colorize ev fd code (ntc_color_set_mode 0 s) = ([], ntc_color_set_mode 0 s)"
  "ntc_colorize ev fd code (ntc_color_set_mode 1 s) = (code, ntc_color_set_mode 1 s)"
  by (simp_all add: ntc_colorize_def ntc_color_enabled_fd_def ntc_color_set_mode_def)

text \<open>A write to a closed peer does not end the process; the five fatal signals do, after their message.\<close>

lemma sigpipe_survives: "raise_sig SIGPIPE (ntc_install_signal_handlers acts) = ([], Some (ntc_install_signal_handlers acts))"
  by (simp add: raise_sig_def ntc_install_signal_handlers_def)

lemma crash_terminates:
  "sig \<in> {SIGSEGV, SIGBUS, SIGFPE, SIGILL, SIGABRT} \<Longrightarrow> snd (raise_sig sig (ntc_install_signal_handlers acts)) = None"
  by (auto simp: raise_sig_def ntc_install_signal_handlers_def crash_handler_def)

end
