(* ===== verification/Findings.thy ===== *)
theory Findings
  imports Gateway_Run Gateway_Delivery Gzip Cli Listen
begin

text \<open>
  Behaviours of the code that its comments, its documentation or its other parts contradict,
  each as an evaluation of the model on a concrete input.
\<close>

subsection \<open>Paths as the middleware and the router read them\<close>

definition api_router :: "(nat, nat) ntc_router" where
  "api_router = the (snd (ntc_router_add True True True (Some \<lparr>routes = [], rcap = 0\<rparr>) (Some ''GET'') (Some ''/api/users'') (Some 1) 0))"

definition api_request :: "string \<Rightarrow> ntc_request" where
  "api_request path = \<lparr>rq_method = ''GET'', rq_target = path, rq_path = path, rq_query = [], rq_minor_version = 1, rq_headers = [],
     rq_params = [], rq_auth_sub = [], rq_auth_scope = [], rq_has_content_length = False, rq_content_length = 0, rq_body = []\<rparr>"

text \<open>
  With authentication on \<open>/api\<close>, the middleware compares the raw path, but the router drops empty segments and
  leading colons: \<open>//api/users\<close> and \<open>/:api/users\<close> are not protected and reach the protected route.
\<close>

lemma auth_prefix_bypass:
  "mw_protected (sample_cfg\<lparr>cf_auth_protect := ''/api''\<rparr>) (api_request ''/api/users'') \<and>
   \<not> mw_protected (sample_cfg\<lparr>cf_auth_protect := ''/api''\<rparr>) (api_request ''//api/users'') \<and>
   \<not> mw_protected (sample_cfg\<lparr>cf_auth_protect := ''/api''\<rparr>) (api_request ''/:api/users'') \<and>
   ntc_router_match api_router ''GET'' ''//api/users'' = ntc_router_match api_router ''GET'' ''/api/users'' \<and>
   ntc_router_match api_router ''GET'' ''/:api/users'' = ntc_router_match api_router ''GET'' ''/api/users''"
  by code_simp

text \<open>Request schemas are looked up with strict segments, so the same paths skip validation.\<close>

lemma schema_path_bypass:
  "seg_pattern_match ''/api/users'' ''/api/users'' \<and> \<not> seg_pattern_match ''/api/users'' ''//api/users'' \<and>
   \<not> seg_pattern_match ''/api/users'' ''/api/users/'' \<and>
   fst (ntc_router_match api_router ''GET'' ''/api/users/'') = NTC_ROUTE_FOUND"
  by code_simp

text \<open>Adding a route that exists replaces the registry's row, but the live router keeps the first target.\<close>

lemma route_add_shadowed:
  "fst (snd (the (snd (ntc_router_match
     (the (snd (ntc_router_add True True True (Some api_router) (Some ''GET'') (Some ''/api/users'') (Some 1) 5))) ''GET'' ''/api/users'')))) = 0"
  by code_simp

subsection \<open>Replies that leave their buffer\<close>

text \<open>
  A service row can be longer than the slack that the guard of the list command leaves: the next
  \<open>snprintf\<close> starts beyond the buffer with a size that has wrapped.
\<close>

definition long_row :: ntc_service_row where
  "long_row = \<lparr>sr_name = replicate 63 CHR ''a'', sr_bin = replicate 246 CHR ''b''\<rparr>"

lemma equal_rows:
  "0 < k \<longrightarrow> off + (k - 1) * Suc (length (f r)) < limit \<Longrightarrow> limit \<le> cap \<Longrightarrow>
    \<exists>buf'. buf_rows cap limit f False (replicate k r) (Some (buf, off)) = Some (buf', off + k * Suc (length (f r)))"
proof (induction k arbitrary: buf off)
  case (Suc k)
  have "off < limit" using Suc.prems(1) by simp
  moreover have "0 < k \<longrightarrow> (off + Suc (length (f r))) + (k - 1) * Suc (length (f r)) < limit" using Suc.prems(1) by (cases k) simp_all
  ultimately show ?case
    using Suc.IH [of "off + Suc (length (f r))" "buf @ snprintf (cap - off) (CHR '','' # f r)"] Suc.prems(2)
    by (simp add: buf_printf_def algebra_simps)
qed simp

lemma service_list_overflow: "list_reply CONTROL_OUT 128 service_row_json (replicate 25 long_row) = None"
proof -
  have len: "length (service_row_json long_row) = 329" by (simp add: service_row_json_def jq_def long_row_def)
  have r: "replicate 25 long_row = long_row # replicate 24 long_row" using replicate_Suc [of 24 long_row] by simp
  obtain buf where "buf_rows 8192 8064 service_row_json False (replicate 24 long_row)
      (Some (''OK ['' @ snprintf 8188 (service_row_json long_row), 333)) = Some (buf, 333 + 24 * Suc 329)"
    using equal_rows [of 24 333 service_row_json long_row 8064 8192] len by auto
  then show ?thesis by (simp add: list_reply_def buf_printf_def CONTROL_OUT_def r len snprintf_def [of 8192])
qed

text \<open>The message of a failed validation may not fit its buffer once escaped, which is then printed without its end.\<close>

lemma validation_message_overread:
  "validation_body sample_gw_env (replicate 120 DQ) = None"
proof -
  have "ntc_json_escape 200 (ntc_slice_cstr (replicate 120 DQ)) = None" by code_simp
  then show ?thesis by (simp add: validation_body_def sample_gw_env_def)
qed

subsection \<open>Objects freed while they are still pointed to\<close>

text \<open>Removing a service frees its controllers but not the claims of WebSocket clients on them.\<close>

definition sample_ws :: gateway where
  "sample_ws = sample_waiting\<lparr>g_conns := [7 \<mapsto> sample_conn\<lparr>c_is_ws := True, c_state := CS_WS\<rparr>],
     g_services := [(zero_service ''hello'' ''./hello'')\<lparr>sv_conns := Some 3 # replicate 7 None\<rparr>]\<rparr>"

lemma service_rm_dangling:
  "\<exists>g'. free_replica 0 sample_ws 0 = Some g' \<and> g_conns g' 7 \<noteq> None \<and> conn_close sample_gw_env g' 7 = None"
proof -
  have e: "ntc_wire_encode_ws_close 1000 2 \<noteq> None" by code_simp
  then show ?thesis
    by (auto simp: free_replica_def sample_ws_def sample_waiting_def sample_conn_def conn_new_def conn_close_def ctrl_queue_def Let_def)
qed

text \<open>
  The events of one batch are read before any of them is handled: when a controller's response closes
  a client's connection, an event for that client later in the same batch is handled on freed memory.
\<close>

definition hi_payload :: "byte list" where
  "hi_payload = the (ntc_wire_encode_response 200 ''text/plain'' ''hi'' 64)"

definition sample_batch :: gateway where
  "sample_batch = sample_waiting\<lparr>g_conns := [7 \<mapsto> sample_conn\<lparr>c_sock := [Sent 10000]\<rparr>],
     g_ctrls := [3 \<mapsto> (new_ctrl (sample_child 0 0) 0 [])\<lparr>ct_peer :=
       [Rcvd (chars_of (enc_frame (wire_frame NTC_MSG_RESPONSE 4095 hi_payload)))]\<rparr>]\<rparr>"


lemma sample_batch_inv: "gw_inv sample_batch"
proof -
  have "svc_ok (g_ctrls sample_waiting) 0 (zero_service ''hello'' ''./hello'')"
    using gw_inv_svc [OF sample_waiting_inv, of 0] by (simp add: sample_waiting_def)
  then have "svc_ok (g_ctrls sample_batch) 0 (zero_service ''hello'' ''./hello'')"
    by (intro svc_okI) (auto dest: svc_okD simp: zero_service_def NTC_MAX_REPLICAS_def)
  then show ?thesis
    by (auto simp: gw_inv_def sample_batch_def sample_waiting_def sample_conn_def zero_gateway_def sample_slots_bound conn_new_def
        new_ctrl_def split: if_splits)
qed

lemma ctrl_recv_one:
  assumes "\<And>n. ge_alloc env n" "f \<noteq> []" "length f \<le> 16384"
  shows "\<exists>cap. ctrl_recv env [Rcvd (chars_of f)] 0 [] = (Recv_wait, f, cap, [])"
proof -
  obtain cap1 where c1: "buf_reserve env 0 16384 = Some cap1" using assms(1) by (simp add: buf_reserve_def Let_def)
  have "buf_reserve env cap1 (length f + 16384) \<noteq> None" using assms(1) by (simp add: buf_reserve_def Let_def)
  then obtain cap2 where c2: "buf_reserve env cap1 (length f + 16384) = Some cap2" by blast
  have "ctrl_recv env [] cap1 f = (Recv_wait, f, cap2, [])" by (subst ctrl_recv.simps) (simp add: c2)
  then have "ctrl_recv env [Rcvd (chars_of f)] 0 [] = (Recv_wait, f, cap2, [])"
    using buf_reserve_ge [OF c1] assms(2,3) by (subst ctrl_recv.simps) (simp add: c1 NTC_CTRL_MAX_RBUF_def Let_def)
  then show ?thesis by blast
qed

lemma batch_use_after_free:
  "event_ok sample_gw_env sample_batch (Ev_ready (U_ctrl 3) True False) \<and>
   g_conns sample_batch 7 \<noteq> None \<and>
   gw_turn sample_batch [(sample_gw_env, Ev_ready (U_ctrl 3) True False), (sample_gw_env, Ev_ready (U_conn 7 te) True False)] env = None"
proof -
  let ?m = "wire_frame NTC_MSG_RESPONSE 4095 hi_payload" and ?x = "sample_conn\<lparr>c_sock := [Sent 10000]\<rparr>"
  have pl: "length hi_payload = 20" "ntc_wire_decode_response_ex hi_payload = Some (200, ''text/plain'', ''hi'', [])" by code_simp+
  have len: "length (enc_frame ?m) = 36" by (simp add: enc_frame_def header_length NTC_WIRE_HEADER_LEN_def pl(1))
  have rd: "ntc_wire_read_frame (enc_frame ?m) = Frame ?m 36"
    using wf.dec_enc [OF wire_header_ok] len by (simp add: pl(1))
  obtain cap where rc: "ctrl_recv sample_gw_env [Rcvd (chars_of (enc_frame ?m))] 0 [] = (Recv_wait, enc_frame ?m, cap, [])"
    using ctrl_recv_one [of sample_gw_env "enc_frame ?m"] len by (force simp: sample_gw_env_def)
  let ?ct = "(new_ctrl (sample_child 0 0) 0 [])\<lparr>ct_rbuf := enc_frame ?m, ct_rcap := cap, ct_peer := []\<rparr>"
  let ?g1 = "set_ctrl sample_batch 3 ?ct"
  have g1: "gw_inv ?g1" "gw_conn_for_id (g_slots ?g1) 4095 = Some 7" "g_conns ?g1 7 = Some ?x"
    by (rule set_ctrl_inv [OF sample_batch_inv]; simp add: sample_batch_def new_ctrl_def)
      (simp_all add: sample_batch_def sample_waiting_def sample_slots_bound)
  let ?x1 = "?x\<lparr>c_inflight := False, c_extra_headers := merge_headers (c_extra_headers ?x) []\<rparr>"
  let ?g2 = "rec_status (set_conn (gw_release ?g1 4095) 7 ?x1) 200"
  have g2: "gw_inv ?g2" by (rule quiet_inv [OF detach_inv [OF g1] quiet_rec_status(1)]) simp
  have x1: "g_conns ?g2 7 = Some ?x1" "c_sent ?x1 = []" "\<not> c_streaming ?x1"
    "conn_compress sample_gw_env ?x1 ''text/plain'' ''hi'' = (''hi'', [])"
    by (simp_all add: rec_status_def Let_def sample_conn_def conn_new_def conn_compress_def merge_headers_def cstr_def)
  let ?f = "ntc_http_format_response_ex (\<lambda>_. True) 200 (ntc_http_status_text 200) ''text/plain'' None ''hi''"
  have f: "\<not> isl ?f \<and> length (projr ?f) \<le> 10000" by code_simp
  have resp: "ntc_http_format_response_ex (ge_grant sample_gw_env) 200 (ntc_http_status_text 200) ''text/plain''
      (if ([] :: string) \<noteq> [] then Some [] else None) ''hi'' = Inr (projr ?f)"
    using f by (cases ?f) (simp_all add: sample_gw_env_def)
  have dr: "c_tls ?x1 = None \<and> ge_poll sample_gw_env 7 \<and> fst (send_loop (c_sock ?x1) (projr ?f) 0) = Drained"
    using f by (simp add: sample_conn_def conn_new_def sample_gw_env_def)
  obtain c g' where g': "send_resp sample_gw_env ?g2 7 200 ''text/plain'' ''hi'' = Some (c, g')" "g_conns g' 7 = None"
    using send_resp_delivers [OF g2 x1 resp] dr by (elim exE conjE) simp
  have "gw_deliver sample_gw_env ?g1 4095 hi_payload = Some g'"
    using g1(2,3) g'(1) pl(2) by (simp add: gw_deliver_def gw_detach_def Let_def gw_release_def)
  then have fr: "ctrl_frames sample_gw_env ?g1 (enc_frame ?m) = Some (True, [], g')"
    using rd len by (subst ctrl_frames.simps)
      (simp add: gw_message_def wire_header_def ctrl_frames.simps [of _ _ "[]"] ntc_wire_read_frame_def [of "[]"] NTC_WIRE_HEADER_LEN_def)
  have "gw_turn sample_batch [(sample_gw_env, Ev_ready (U_ctrl 3) True False), (sample_gw_env, Ev_ready (U_conn 7 te) True False)] env = None"
  proof (cases "on_ctrl_readable sample_gw_env sample_batch 3")
    case None
    then show ?thesis by (simp add: gw_turn_def ctrl_event_def)
  next
    case (Some r)
    have "g_ctrls sample_batch 3 = Some ((new_ctrl (sample_child 0 0) 0 [])\<lparr>ct_peer := [Rcvd (chars_of (enc_frame ?m))]\<rparr>)"
      by (simp add: sample_batch_def)
    then have "g_conns (snd r) 7 = None"
      using Some rc fr g'(2) by (auto simp: on_ctrl_readable_def new_ctrl_def split: bind_splits)
    moreover have "ctrl_event sample_gw_env sample_batch 3 True False = Some (snd r)"
      using Some by (cases r) (simp add: ctrl_event_def sample_batch_def)
    ultimately show ?thesis by (simp add: gw_turn_def conn_event_def)
  qed
  then show ?thesis by (simp add: sample_batch_def)
qed


subsection \<open>Controllers\<close>

text \<open>A controller that has only WebSocket callbacks passes the check at start-up and calls a null handler on a plain request.\<close>

lemma null_handler_called:
  "ctl_frame sample_ctl_env \<lparr>ctl_name = None, ctl_handle = None, ctl_stream = None, ctl_ws_open = Some (\<lambda>u r. Ws_return u),
     ctl_ws_message = None, ctl_ws_close = None\<rparr> () (wire_header NTC_MSG_REQUEST 5 (enc_request (wire_view wire_sample_request)))
     (enc_request (wire_view wire_sample_request)) \<lparr>fd_sock = [], fd_out = []\<rparr> = None"
proof -
  have "ntc_wire_decode_request (enc_request (wire_view wire_sample_request)) = Some (wire_view wire_sample_request)" by code_simp
  then show ?thesis
    by (simp add: ctl_frame_def wire_header_def sample_ctl_env_def serve_atomic_def atomic_response_def NTC_MSG_REQUEST_def NTC_MSG_WELCOME_def
        NTC_MSG_PING_def NTC_MSG_WS_OPEN_def NTC_MSG_WS_MSG_def NTC_MSG_WS_CLOSE_def)
qed

text \<open>When a part's file name comes before its field name, the file name is taken for both.\<close>

lemma multipart_name_confused:
  "let r = ''Content-Disposition: form-data; filename='' @ DQ # ''a.txt'' @ DQ # ''; name='' @ DQ # ''f'' @ [DQ]
   in mp_quoted r (''name='' @ [DQ]) = ''a.txt'' \<and> mp_quoted r (''filename='' @ [DQ]) = ''a.txt''"
  by code_simp

text \<open>A handler that ends a stream it never began makes the controller send an end and then a response under the same id.\<close>

lemma end_without_begin:
  "\<exists>pl. fd_out (snd (serve_stream sample_ctl_env (\<lambda>u r. Stream_call End (\<lambda>rc. Stream_return 0 u)) () 5 (enc_request (wire_view wire_sample_request))
     \<lparr>fd_sock = [], fd_out = []\<rparr>)) = enc_frame (wire_frame NTC_MSG_RESPONSE_END 5 []) @ enc_frame (wire_frame NTC_MSG_RESPONSE 5 pl)"
proof -
  let ?res = "\<lparr>rs_status = 204, rs_content_type = ''text/plain'', rs_body = [], rs_headers = []\<rparr>"
  have d: "ntc_wire_decode_request (enc_request (wire_view wire_sample_request)) = Some (wire_view wire_sample_request)" by code_simp
  have "response_ok ?res" by (simp add: response_ok_def ok16_def HEADERS_CAP_def)
  then have "send_response sample_ctl_env 5 ?res 74 fd = fd\<lparr>fd_out := fd_out fd @ enc_frame (wire_frame NTC_MSG_RESPONSE 5 (response_payload ?res))\<rparr>"
    if "fd_sock fd = []" for fd using send_response_all [OF that, of sample_ctl_env 74 ?res 5] by (simp add: sample_ctl_env_def)
  then show ?thesis using d by (auto simp: serve_stream_def ntc_stream_end_def send_frame_all)
qed

subsection \<open>Parsers\<close>

text \<open>The JSON parser ignores what follows the first value.\<close>

lemma json_trailing_ignored: "ntc_json_parse (\<lambda>q. Fin q) ''true, and more'' = Some (NTC_JSON_BOOL True)"
  by code_simp

text \<open>A response that is cut in the middle of its body is accepted as complete.\<close>

lemma truncated_body_accepted:
  "extract_body (''HTTP/1.1 200 OK'' @ CRLF @ ''Content-Length: 10'' @ CRLF @ CRLF @ ''half'') 64 64 = Inr ''half''"
  by code_simp

subsection \<open>The databases\<close>

text \<open>
  An engine whose every step fails, as it may. Reading a configuration value then reports
  success and no value: \<open>load_token\<close> takes the stored control token for missing and replaces it.
\<close>

definition broken_engine :: "reg_tables sql_engine" where
  "broken_engine t sql ps = (Step_error, t)"

lemma config_read_error_hidden:
  "registry_db broken_engine (\<lambda>t. t) \<and>
   fst (ntc_registry_get_config broken_engine (empty_reg\<lparr>rt_config := [(''control_token'', ''s3cret'')]\<rparr>) (Some ''control_token'') 65) = Some (Inr None)"
  by (intro conjI registry_db.intro) (unfold_locales, simp_all add: broken_engine_def sql_failed_def ntc_registry_get_config_def)

text \<open>
  A pattern of 140 characters is accepted and routed at run time, but a row of the registry keeps 127 of
  them: after a restart another path is served.
\<close>

lemma registry_row_cut:
  "fst (ntc_registry_list_routes (table_engine reg_sem)
     (reg_runs (table_engine reg_sem) [Reg_add_service ''a'' ''/bin/a'', Reg_add_route ''GET'' (CHR ''/'' # replicate 139 CHR ''x'') ''a''] empty_reg) 8)
   = Some (Inr [\<lparr>rr_method = ''GET'', rr_pattern = CHR ''/'' # replicate 126 CHR ''x'', rr_service = ''a''\<rparr>])"
  by code_simp

subsection \<open>Command line and compression\<close>

text \<open>
  The command line does not refuse an argument with a blank, as the MCP endpoint does: the gateway reads
  \<open>ntc service add "my svc" /bin/x\<close> as the service \<open>my\<close> with the binary \<open>svc\<close>.
\<close>

lemma cli_blank_argument:
  "service_cmd ui ce [prog, ''service'', ''add'', ''my svc'', ''/bin/x''] = do_control ce ''service-add my svc /bin/x'' \<and>
   exec_control_command env g ''service-add my svc /bin/x'' cap = exec_control_command env g ''service-add my svc'' cap"
  by (simp add: service_cmd_def BUF_def exec_control_command_def cmd_service_add_def strtok_def)

text \<open>
  With little room left for extra headers the body is compressed all the same, and the header that says so is cut.
\<close>

lemma gzip_header_cut:
  assumes "length (cstr (c_extra_headers x)) = 498" "c_accept_gzip x" "memmem (cstr (c_extra_headers x)) ''Content-Encoding'' = None"
    "length body \<ge> NTC_GZIP_MIN" "ctype_compressible ctype" "ge_gzip env body = Some gz" "ge_grant env (length gz)"
  shows "conn_compress env x ctype body = (gz, cstr (c_extra_headers x) @ ''Content-Encod'')"
  using assms by (simp add: conn_compress_def snprintf_def EXTRA_CAP_def)

text \<open>
  The comment says that the port of the command line wins; the environment variable replaces it.
\<close>

lemma tls_port_env_wins:
  "tls_port_of (sample_boot\<lparr>bo_getenv := (\<lambda>v. if v = ''NTC_TLS_PORT'' then Some ''9443'' else None)\<rparr>) sample_gw_env [] 8443 = 9443"
  by code_simp

end
